(* ===== verification/Prelude.thy ===== *)
theory Prelude
  imports Complex_Main "HOL-Library.List_Lexorder" "HOL-Library.Char_ord"
    "HOL-Library.Product_Lexorder"
begin

text \<open>
  The ground every component stands on.

  \<^item> Python numbers. Integers are \<^typ>\<open>int\<close>; the floating-point quantities of the code
    (seconds, spacings, rates) are exact rationals \<^typ>\<open>rat\<close>; \<open>py_round\<close> is Python's
    \<open>round\<close> (half to even). Instants are whole microseconds since an epoch, which is the
    resolution of PostgreSQL's \<open>timestamptz\<close> and of \<open>datetime\<close>; \<open>timedelta\<close> is
    \<open>timedelta(seconds=s)\<close>, which rounds to whole microseconds.
  \<^item> Database tables. A table is the list of its rows in insertion order; \<open>lookup\<close>,
    \<open>upd_where\<close> and \<open>count_where\<close> are the single-row read, the update and the
    \<open>count(*)\<close> the repositories issue.
  \<^item> JSON values, as \<open>json.loads\<close> returns them.
  \<^item> Transition systems: reachability under a labelled step relation and the locale in
    which an invariant is lifted from one step to every reachable state.
\<close>

section \<open>Collections of facts\<close>

named_theorems row_simps \<open>how an operation rewrites the fields of the rows it touches\<close>
named_theorems table_simps \<open>how an operation rewrites the tables of the database\<close>

section \<open>Python arithmetic\<close>

type_synonym time = int

definition py_round :: "rat \<Rightarrow> int" where
  "py_round x =
     (let f = \<lfloor>x\<rfloor>; d = x - of_int f
      in if d < 1/2 then f else if 1/2 < d then f + 1 else if even f then f else f + 1)"

lemma py_round_of_int [simp]: "py_round (of_int i) = i"
  by (simp add: py_round_def)

lemma py_round_numeral [simp]: "py_round (numeral n) = numeral n" "py_round 0 = 0" "py_round 1 = 1"
  using py_round_of_int [of "numeral n"] py_round_of_int [of 0] py_round_of_int [of 1] by simp_all

lemma py_round_lower: "x - 1/2 \<le> of_int (py_round x)"
  and py_round_upper: "of_int (py_round x) \<le> x + 1/2"
proof -
  have f: "of_int \<lfloor>x\<rfloor> \<le> x" "x < of_int \<lfloor>x\<rfloor> + 1" by linarith+
  show "x - 1/2 \<le> of_int (py_round x)" "of_int (py_round x) \<le> x + 1/2"
    using f by (auto simp: py_round_def Let_def field_simps; linarith)+
qed

lemma py_round_nonneg: "0 \<le> x \<Longrightarrow> 0 \<le> py_round x"
proof -
  assume "0 \<le> x"
  then have "0 \<le> \<lfloor>x\<rfloor>" by simp
  then show ?thesis by (auto simp: py_round_def Let_def)
qed

lemma py_round_mono: "x \<le> y \<Longrightarrow> py_round x \<le> py_round y"
proof (rule ccontr)
  assume le: "x \<le> y" and "\<not> py_round x \<le> py_round y"
  then have gt: "py_round y + 1 \<le> py_round x" by simp
  have "of_int (py_round y + 1) \<le> (of_int (py_round x) :: rat)" using gt of_int_le_iff by blast
  with py_round_lower [of y] py_round_upper [of x] le have eq: "x = y"
    by simp
  with gt show False by simp
qed

text \<open>The elapsed time between two instants, in whole milliseconds:
  \<open>round((b - a).total_seconds() * 1000)\<close>.\<close>

definition elapsed_ms :: "time \<Rightarrow> time \<Rightarrow> int" where
  "elapsed_ms a b = py_round (of_int (b - a) / 1000)"

lemma elapsed_ms_refl [simp]: "elapsed_ms a a = 0"
  by (simp add: elapsed_ms_def)

lemma elapsed_ms_nonneg: "a \<le> b \<Longrightarrow> 0 \<le> elapsed_ms a b"
  by (simp add: elapsed_ms_def py_round_nonneg)

lemma elapsed_ms_mono: "a \<le> a' \<Longrightarrow> elapsed_ms a' b \<le> elapsed_ms a b"
  unfolding elapsed_ms_def by (rule py_round_mono) (simp add: divide_right_mono)

definition timedelta :: "rat \<Rightarrow> time" where
  "timedelta s = py_round (s * 1000000)"

definition seconds_between :: "time \<Rightarrow> time \<Rightarrow> rat" where
  "seconds_between a b = of_int (b - a) / 1000000"

lemma timedelta_nonneg: "0 \<le> s \<Longrightarrow> 0 \<le> timedelta s"
  by (simp add: timedelta_def py_round_nonneg)

lemma timedelta_mono: "s \<le> t \<Longrightarrow> timedelta s \<le> timedelta t"
  unfolding timedelta_def by (rule py_round_mono) simp

lemma timedelta_numeral [simp]:
  "timedelta (numeral n) = numeral n * 1000000" "timedelta 0 = 0" "timedelta 1 = 1000000"
  using py_round_of_int [of "numeral n * 1000000"] by (simp_all add: timedelta_def)

lemma timedelta_of_int [simp]: "timedelta (of_int n) = n * 1000000"
  using py_round_of_int [of "n * 1000000"] by (simp add: timedelta_def)

lemma timedelta_pos: "1 / 1000000 \<le> s \<Longrightarrow> 0 < timedelta s"
proof -
  assume "1 / 1000000 \<le> s"
  then have "(1::rat) \<le> s * 1000000" by (simp add: field_simps)
  then have "py_round 1 \<le> timedelta s" unfolding timedelta_def by (rule py_round_mono)
  then show ?thesis by simp
qed

text \<open>SQL's comparison with a nullable instant: \<open>NULL > now\<close> selects nothing.\<close>

definition later :: "time option \<Rightarrow> time \<Rightarrow> bool" where
  "later t now = (case t of None \<Rightarrow> False | Some u \<Rightarrow> now < u)"

lemma later_simps [simp]: "later None now = False" "later (Some u) now = (now < u)"
  by (simp_all add: later_def)

lemma later_mono: "later t now' \<Longrightarrow> now \<le> now' \<Longrightarrow> later t now"
  by (cases t) auto

section \<open>Database tables\<close>

definition lookup :: "('r \<Rightarrow> 'k) \<Rightarrow> 'k \<Rightarrow> 'r list \<Rightarrow> 'r option" where
  "lookup key k rows = find (\<lambda>r. key r = k) rows"

definition upd_where :: "('r \<Rightarrow> bool) \<Rightarrow> ('r \<Rightarrow> 'r) \<Rightarrow> 'r list \<Rightarrow> 'r list" where
  "upd_where P f rows = map (\<lambda>r. if P r then f r else r) rows"

definition count_where :: "('r \<Rightarrow> bool) \<Rightarrow> 'r list \<Rightarrow> nat" where
  "count_where P rows = length (filter P rows)"

lemma lookup_Nil [simp]: "lookup key k [] = None"
  by (simp add: lookup_def)

lemma lookup_Cons [simp]:
  "lookup key k (r # rows) = (if key r = k then Some r else lookup key k rows)"
  by (simp add: lookup_def)

lemma lookup_append: "lookup key k (xs @ ys) = (case lookup key k xs of None \<Rightarrow> lookup key k ys | Some r \<Rightarrow> Some r)"
  by (induction xs) auto

lemma lookup_Some: "lookup key k rows = Some r \<Longrightarrow> r \<in> set rows \<and> key r = k"
  by (induction rows) (auto split: if_splits)

lemma lookup_None: "lookup key k rows = None \<longleftrightarrow> (\<forall>r \<in> set rows. key r \<noteq> k)"
  by (induction rows) auto

lemma lookup_distinct:
  "distinct (map key rows) \<Longrightarrow> r \<in> set rows \<Longrightarrow> key r = k \<Longrightarrow> lookup key k rows = Some r"
  by (induction rows) (auto simp: image_iff)

lemma upd_where_Nil [simp]: "upd_where P f [] = []"
  by (simp add: upd_where_def)

lemma upd_where_Cons [simp]: "upd_where P f (r # rows) = (if P r then f r else r) # upd_where P f rows"
  by (simp add: upd_where_def)

lemma upd_where_append [simp]: "upd_where P f (xs @ ys) = upd_where P f xs @ upd_where P f ys"
  by (simp add: upd_where_def)

lemma set_upd_where: "set (upd_where P f rows) = (\<lambda>r. if P r then f r else r) ` set rows"
  by (auto simp: upd_where_def)

lemma map_upd_where_key:
  "(\<And>r. P r \<Longrightarrow> key (f r) = key r) \<Longrightarrow> map key (upd_where P f rows) = map key rows"
  by (induction rows) auto

lemma lookup_upd_where:
  "(\<And>r. P r \<Longrightarrow> key (f r) = key r) \<Longrightarrow>
   lookup key k (upd_where P f rows) = map_option (\<lambda>r. if P r then f r else r) (lookup key k rows)"
  by (induction rows) auto

lemma upd_where_cong:
  "(\<And>r. r \<in> set rows \<Longrightarrow> P r = Q r) \<Longrightarrow> (\<And>r. r \<in> set rows \<Longrightarrow> P r \<Longrightarrow> f r = g r) \<Longrightarrow>
   upd_where P f rows = upd_where Q g rows"
  by (auto simp: upd_where_def)

lemma upd_where_none: "(\<And>r. r \<in> set rows \<Longrightarrow> \<not> P r) \<Longrightarrow> upd_where P f rows = rows"
  by (induction rows) auto

lemma count_where_Nil [simp]: "count_where P [] = 0"
  by (simp add: count_where_def)

lemma count_where_Cons [simp]: "count_where P (r # rows) = (if P r then Suc (count_where P rows) else count_where P rows)"
  by (simp add: count_where_def)

lemma count_where_append [simp]: "count_where P (xs @ ys) = count_where P xs + count_where P ys"
  by (simp add: count_where_def)

lemma count_where_le: "(\<And>r. r \<in> set rows \<Longrightarrow> P r \<Longrightarrow> Q r) \<Longrightarrow> count_where P rows \<le> count_where Q rows"
  by (induction rows) (auto simp: le_SucI)

lemma count_where_cong: "(\<And>r. r \<in> set rows \<Longrightarrow> P r = Q r) \<Longrightarrow> count_where P rows = count_where Q rows"
  by (induction rows) auto

lemma count_where_0: "count_where P rows = 0 \<longleftrightarrow> (\<forall>r \<in> set rows. \<not> P r)"
  by (induction rows) auto

lemma count_where_pos: "0 < count_where P rows \<longleftrightarrow> (\<exists>r \<in> set rows. P r)"
  by (induction rows) auto

text \<open>An update that never turns a row into a counted one does not raise a count; one that
  concerns a single key raises it by at most one.\<close>

lemma count_upd_where_le:
  "(\<And>r. r \<in> set rows \<Longrightarrow> Q r \<Longrightarrow> P (f r) \<Longrightarrow> P r) \<Longrightarrow> count_where P (upd_where Q f rows) \<le> count_where P rows"
  by (induction rows) (auto simp: le_SucI)

lemma count_upd_where_eq:
  "(\<And>r. r \<in> set rows \<Longrightarrow> Q r \<Longrightarrow> P (f r) = P r) \<Longrightarrow> count_where P (upd_where Q f rows) = count_where P rows"
  by (induction rows) auto

lemma count_upd_key_le_Suc:
  "distinct (map key rows) \<Longrightarrow>
   count_where P (upd_where (\<lambda>r. key r = k) f rows) \<le> Suc (count_where P rows)"
proof (induction rows)
  case Nil
  then show ?case by simp
next
  case (Cons r rows)
  show ?case
  proof (cases "key r = k")
    case True
    with Cons.prems have "upd_where (\<lambda>r. key r = k) f rows = rows"
      by (intro upd_where_none) (auto simp: image_iff)
    with True show ?thesis by auto
  next
    case False
    with Cons show ?thesis by auto
  qed
qed

text \<open>Python's \<open>max(rows, key=...)\<close>: the first row whose key no other row exceeds.\<close>

fun max_by :: "('a \<Rightarrow> 'k::linorder) \<Rightarrow> 'a list \<Rightarrow> 'a option" where
  "max_by k [] = None"
| "max_by k (x # xs) = Some (fold (\<lambda>y best. if k best < k y then y else best) xs x)"

lemma fold_max_in: "fold (\<lambda>y best. if k best < k y then y else best) xs x \<in> insert x (set xs)"
  by (induction xs arbitrary: x) (simp, fastforce)

lemma fold_max_ge:
  fixes k :: "'a \<Rightarrow> 'k::linorder"
  shows "z \<in> insert x (set xs) \<Longrightarrow>
   k z \<le> k (fold (\<lambda>y best. if k best < k y then y else best) xs x)"
proof (induction xs arbitrary: x z)
  case Nil
  then show ?case by simp
next
  case (Cons y ys)
  let ?m = "if k x < k y then y else x"
  have m: "k ?m \<le> k (fold (\<lambda>y best. if k best < k y then y else best) ys ?m)"
    by (rule Cons.IH) simp
  show ?case
  proof (cases "z \<in> set ys")
    case True
    then show ?thesis using Cons.IH [of z ?m] by simp
  next
    case False
    with Cons.prems have "k z \<le> k ?m" by auto
    with m show ?thesis by simp
  qed
qed

lemma max_by_None [simp]: "max_by k xs = None \<longleftrightarrow> xs = []"
  by (cases xs) simp_all

lemma max_by_Some: "max_by k xs = Some m \<Longrightarrow> m \<in> set xs \<and> (\<forall>z \<in> set xs. k z \<le> k m)"
proof (cases xs)
  case Nil
  then show "max_by k xs = Some m \<Longrightarrow> ?thesis" by simp
next
  case (Cons x ys)
  assume "max_by k xs = Some m"
  with Cons have m: "m = fold (\<lambda>y best. if k best < k y then y else best) ys x" by simp
  show ?thesis using fold_max_in [of k ys x] fold_max_ge [of _ x ys k] by (auto simp: m Cons)
qed

text \<open>\<open>ORDER BY key LIMIT 1\<close>: the row with the least key.\<close>

definition first_by :: "('a \<Rightarrow> 'k::linorder) \<Rightarrow> 'a list \<Rightarrow> 'a option" where
  "first_by k xs = (case sort_key k xs of [] \<Rightarrow> None | x # _ \<Rightarrow> Some x)"

lemma first_by_None [simp]: "first_by k xs = None \<longleftrightarrow> xs = []"
  by (auto simp: first_by_def split: list.splits) (metis set_empty set_sort empty_set)

lemma first_by_Some: "first_by k xs = Some m \<Longrightarrow> m \<in> set xs \<and> (\<forall>z \<in> set xs. k m \<le> k z)"
proof -
  assume "first_by k xs = Some m"
  then obtain ys where s: "sort_key k xs = m # ys"
    by (auto simp: first_by_def split: list.splits)
  have "sorted (map k (sort_key k xs))" by simp
  moreover have "set (m # ys) = set xs" using set_sort [of k xs] by (simp add: s)
  ultimately show ?thesis by (auto simp: s)
qed

section \<open>JSON values\<close>

datatype json =
    JNull
  | JBool bool
  | JInt int
  | JFloat rat
  | JStr string
  | JArr "json list"
  | JObj "(string \<times> json) list"

text \<open>\<open>value.get(key)\<close> on a JSON object; \<open>None\<close> for a missing key. A key occurs once: the
  last occurrence of a repeated key wins, as in \<open>json.loads\<close>.\<close>

definition jget :: "json \<Rightarrow> string \<Rightarrow> json option" where
  "jget v k = (case v of JObj kvs \<Rightarrow> map_of (rev kvs) k | _ \<Rightarrow> None)"

definition jstr :: "json option \<Rightarrow> string option" where
  "jstr v = (case v of Some (JStr s) \<Rightarrow> Some s | _ \<Rightarrow> None)"

text \<open>\<open>isinstance(v, int)\<close>: Python's booleans are integers too.\<close>

definition jint :: "json option \<Rightarrow> int option" where
  "jint v = (case v of Some (JInt i) \<Rightarrow> Some i | Some (JBool b) \<Rightarrow> Some (if b then 1 else 0) | _ \<Rightarrow> None)"

definition jobj :: "json option \<Rightarrow> json option" where
  "jobj v = (case v of Some (JObj kvs) \<Rightarrow> Some (JObj kvs) | _ \<Rightarrow> None)"

section \<open>Transition systems\<close>

inductive reach :: "('s \<Rightarrow> bool) \<Rightarrow> ('s \<Rightarrow> 'l \<Rightarrow> 's \<Rightarrow> bool) \<Rightarrow> 's \<Rightarrow> bool"
  for init :: "'s \<Rightarrow> bool" and step :: "'s \<Rightarrow> 'l \<Rightarrow> 's \<Rightarrow> bool"
where
  reach_init: "init s \<Longrightarrow> reach init step s"
| reach_step: "reach init step s \<Longrightarrow> step s l t \<Longrightarrow> reach init step t"

text \<open>Runs: the labels of the steps taken, in order.\<close>

inductive steps :: "('s \<Rightarrow> 'l \<Rightarrow> 's \<Rightarrow> bool) \<Rightarrow> 's \<Rightarrow> 'l list \<Rightarrow> 's \<Rightarrow> bool"
  for step :: "'s \<Rightarrow> 'l \<Rightarrow> 's \<Rightarrow> bool"
where
  steps_Nil: "steps step s [] s"
| steps_Cons: "step s l t \<Longrightarrow> steps step t ls u \<Longrightarrow> steps step s (l # ls) u"

inductive_cases steps_NilE: "steps step s [] t"
inductive_cases steps_ConsE: "steps step s (l # ls) t"

text \<open>A contract between a component and its users: an invariant that holds initially and that
  every step keeps. Inside the locale it is lifted to all reachable states and to runs.\<close>

locale invariant_system =
  fixes init :: "'s \<Rightarrow> bool" and step :: "'s \<Rightarrow> 'l \<Rightarrow> 's \<Rightarrow> bool" and inv :: "'s \<Rightarrow> bool"
  assumes inv_init: "init s \<Longrightarrow> inv s"
    and inv_step: "inv s \<Longrightarrow> step s l t \<Longrightarrow> inv t"
begin

lemma reach_inv: "reach init step s \<Longrightarrow> inv s"
  by (induction rule: reach.induct) (auto intro: inv_init inv_step)

lemma steps_inv: "steps step s ls t \<Longrightarrow> inv s \<Longrightarrow> inv t"
  by (induction rule: steps.induct) (auto intro: inv_step)

end

text \<open>A monotone quantity: every step of an invariant system keeps a preorder between the states
  before and after it, so a run does.\<close>

locale monotone_system = invariant_system +
  fixes below :: "'a \<Rightarrow> 'a \<Rightarrow> bool"
  assumes below_refl: "below s s"
    and below_trans: "below s t \<Longrightarrow> below t u \<Longrightarrow> below s u"
    and below_step: "inv s \<Longrightarrow> step s l t \<Longrightarrow> below s t"
begin

lemma steps_below: "steps step s ls t \<Longrightarrow> inv s \<Longrightarrow> below s t"
proof (induction rule: steps.induct)
  case (steps_Nil s)
  show ?case by (rule below_refl)
next
  case (steps_Cons s l t ls u)
  then show ?case by (meson below_step below_trans inv_step)
qed

end

end
