(* ===== verification/Contracts.thy ===== *)
theory Contracts
  imports Prelude
begin

text \<open>
  The shared vocabulary of \<^verbatim>\<open>backend/proxy/contracts\<close>, \<^verbatim>\<open>backend/proxy/errors.py\<close>
  and \<^verbatim>\<open>backend/fleet/contracts.py\<close>: providers, the states of sessions, attempts and fleet
  instances, the caller-side handles of a session and an attempt, and the errors with the
  WebSocket close code, the stable reason and the HTTP status each one renders as.
\<close>

section \<open>Providers\<close>

datatype provider_name = BROWSERLESS | BROWSERLESS_CLOUD

fun provider_value :: "provider_name \<Rightarrow> string" where
  "provider_value BROWSERLESS = ''browserless''"
| "provider_value BROWSERLESS_CLOUD = ''browserless_cloud''"

definition active_providers :: "provider_name list" where
  "active_providers = [BROWSERLESS, BROWSERLESS_CLOUD]"

text \<open>A provider column is compared by its string value, as \<open>ORDER BY provider\<close> does.\<close>

instantiation provider_name :: linorder
begin

definition less_eq_provider_name :: "provider_name \<Rightarrow> provider_name \<Rightarrow> bool" where
  "p \<le> q \<longleftrightarrow> provider_value p \<le> provider_value q"

definition less_provider_name :: "provider_name \<Rightarrow> provider_name \<Rightarrow> bool" where
  "p < q \<longleftrightarrow> provider_value p < provider_value q"

instance
proof
  fix p q r :: provider_name
  show "p < q \<longleftrightarrow> p \<le> q \<and> \<not> q \<le> p"
    by (auto simp: less_eq_provider_name_def less_provider_name_def)
  show "p \<le> p" by (simp add: less_eq_provider_name_def)
  show "p \<le> q \<Longrightarrow> q \<le> r \<Longrightarrow> p \<le> r" by (auto simp: less_eq_provider_name_def)
  show "p \<le> q \<Longrightarrow> q \<le> p \<Longrightarrow> p = q"
    by (cases p; cases q) (auto simp: less_eq_provider_name_def)
  show "p \<le> q \<or> q \<le> p" by (auto simp: less_eq_provider_name_def)
qed

end

lemma provider_value_inject [simp]: "provider_value p = provider_value q \<longleftrightarrow> p = q"
  by (cases p; cases q) auto

section \<open>Session and attempt lifecycles\<close>

datatype session_state = S_Requested | S_Admitted | S_Open | S_Closing | S_Closed | S_Failed

datatype attempt_state = A_Requested | A_Queued | A_Acquiring | A_Active | A_Completed | A_Failed

fun session_state_value :: "session_state \<Rightarrow> string" where
  "session_state_value S_Requested = ''requested''"
| "session_state_value S_Admitted = ''admitted''"
| "session_state_value S_Open = ''open''"
| "session_state_value S_Closing = ''closing''"
| "session_state_value S_Closed = ''closed''"
| "session_state_value S_Failed = ''failed''"

text \<open>The immutable handle of a session: what its owner presents to the repositories.\<close>

record stolosio_session =
  ss_session_id :: string
  ss_owner_id :: string
  ss_lease_token :: string
  ss_state :: session_state
  ss_workload :: string
  ss_capture_hostname :: "string option"

record provider_attempt =
  pa_attempt_id :: string
  pa_session_id :: string
  pa_ordinal :: int
  pa_provider :: provider_name
  pa_state :: attempt_state
  pa_instance_id :: "string option"
  pa_endpoint :: "string option"

datatype admission_status = ADM_ACQUIRING | ADM_QUEUED | ADM_FULL

datatype session_admission_status = SA_ADMITTED | SA_FULL

section \<open>Fleet instances\<close>

datatype fleet_instance_state = FI_Starting | FI_Ready | FI_Draining | FI_Unhealthy | FI_Stopped

text \<open>What a reconciler saw of one instance, and what an infrastructure runtime reports.\<close>

record observed_instance =
  ob_instance_id :: string
  ob_endpoint :: string
  ob_state :: fleet_instance_state
  ob_started_at :: "time option"
  ob_session_capacity :: "int option"

record runtime_instance =
  rt_instance_id :: string
  rt_address :: string
  rt_started_at :: "time option"
  rt_session_capacity :: "int option"
  rt_configuration_stale :: bool

section \<open>Errors\<close>

datatype rejection =
    ConnectionRejected
  | InvalidStolosioSettings
  | ProviderQueueTimeout
  | GatewayCapacityFull
  | ProviderQueueFull
  | ProviderUnavailable
  | ProviderAcquisitionTimeout
  | InvalidCdpMessage
  | SessionLeaseLost
  | ProviderConnectionLost
  | ProviderTimeout
  | DomainBlockingUnavailable
  | SessionAdmissionTimeout

fun close_code :: "rejection \<Rightarrow> int" where
  "close_code InvalidStolosioSettings = 4400"
| "close_code ProviderQueueTimeout = 4408"
| "close_code GatewayCapacityFull = 1013"
| "close_code ProviderQueueFull = 4429"
| "close_code ProviderUnavailable = 4503"
| "close_code ProviderAcquisitionTimeout = 4504"
| "close_code InvalidCdpMessage = 4400"
| "close_code ProviderTimeout = 4508"
| "close_code DomainBlockingUnavailable = 4510"
| "close_code SessionAdmissionTimeout = 4408"
| "close_code _ = 1011"

fun reject_reason :: "rejection \<Rightarrow> string" where
  "reject_reason ConnectionRejected = ''stolosio_internal_error''"
| "reject_reason InvalidStolosioSettings = ''invalid_stolosio_settings''"
| "reject_reason ProviderQueueTimeout = ''provider_queue_timeout''"
| "reject_reason GatewayCapacityFull = ''gateway_capacity_full''"
| "reject_reason ProviderQueueFull = ''provider_queue_full''"
| "reject_reason ProviderUnavailable = ''provider_unavailable''"
| "reject_reason ProviderAcquisitionTimeout = ''provider_acquisition_timeout''"
| "reject_reason InvalidCdpMessage = ''invalid_cdp_message''"
| "reject_reason SessionLeaseLost = ''session_lease_lost''"
| "reject_reason ProviderConnectionLost = ''provider_connection_lost''"
| "reject_reason ProviderTimeout = ''provider_timeout''"
| "reject_reason DomainBlockingUnavailable = ''domain_blocking_unavailable''"
| "reject_reason SessionAdmissionTimeout = ''session_admission_timeout''"

text \<open>A class that does not set \<open>status_code\<close> inherits 500 from \<open>ConnectionRejected\<close>.\<close>

fun status_code :: "rejection \<Rightarrow> int" where
  "status_code InvalidStolosioSettings = 400"
| "status_code ProviderQueueTimeout = 429"
| "status_code GatewayCapacityFull = 429"
| "status_code ProviderQueueFull = 429"
| "status_code ProviderUnavailable = 503"
| "status_code ProviderAcquisitionTimeout = 504"
| "status_code ProviderTimeout = 504"
| "status_code DomainBlockingUnavailable = 503"
| "status_code SessionAdmissionTimeout = 429"
| "status_code _ = 500"

lemma reject_reason_inject: "reject_reason e = reject_reason f \<Longrightarrow> e = f"
  by (cases e; cases f) simp_all

text \<open>What a transaction may raise. Every raise inside \<open>sessions.begin()\<close> rolls the
  transaction back, so an operation of the model returns \<open>Inl\<close> and no new database.\<close>

datatype db_error =
    RuntimeError string
  | ValueError string
  | LookupError string
  | IntegrityError
  | ExternalCapacityEnablementError string

type_synonym 'a result = "db_error + 'a"

end
