(* ===== verification/Fleet_Policy.thy ===== *)
theory Fleet_Policy
  imports Contracts
begin

text \<open>
  The scaling policy (\<^verbatim>\<open>backend/fleet/policy.py\<close>): a pure function from a fleet's durable
  configuration and its live demand to the next number of desired instances. One evaluation moves
  the number by at most one.
\<close>

record fleet_configuration =
  fl_provider :: provider_name
  fl_minimum_instances :: int
  fl_maximum_instances :: int
  fl_session_capacity :: int
  fl_cooldown_seconds :: int
  fl_max_queued :: int
  fl_desired_instances :: int
  fl_configuration_version :: int
  fl_enabled :: bool
  fl_idle_since :: "time option"
  fl_last_reconciled_at :: "time option"
  fl_controller_status :: "string option"

datatype scale_direction = Scale_Up | Scale_Down

record scaling_decision_result =
  sd_desired_instances :: int
  sd_direction :: "scale_direction option"
  sd_idle_since :: "time option"
  sd_demand :: int

definition scaling_target :: "fleet_configuration \<Rightarrow> int \<Rightarrow> int option \<Rightarrow> int option \<Rightarrow> int" where
  "scaling_target c demand provisioned_instances provisioned_capacity =
     (let current = fl_desired_instances c
      in if \<not> fl_enabled c then 0
         else
           let required = \<lceil>(of_int demand :: rat) / of_int (fl_session_capacity c)\<rceil>;
               target = min (fl_maximum_instances c) (max (fl_minimum_instances c) required)
           in case (provisioned_instances, provisioned_capacity) of
                (Some n, Some cap) \<Rightarrow>
                  if demand > 0 \<and> n \<ge> current \<and> demand > cap
                  then max target (min (fl_maximum_instances c) (current + 1)) else target
              | _ \<Rightarrow> target)"

definition scaling_decision ::
  "fleet_configuration \<Rightarrow> int \<Rightarrow> time \<Rightarrow> int option \<Rightarrow> int option \<Rightarrow> scaling_decision_result" where
  "scaling_decision c demand now provisioned_instances provisioned_capacity =
     (let current = fl_desired_instances c;
          target = scaling_target c demand provisioned_instances provisioned_capacity
      in if target > current then
           \<lparr>sd_desired_instances = current + 1, sd_direction = Some Scale_Up, sd_idle_since = None, sd_demand = demand\<rparr>
         else if demand > 0 then
           \<lparr>sd_desired_instances = current, sd_direction = None, sd_idle_since = None, sd_demand = demand\<rparr>
         else case fl_idle_since c of
           None \<Rightarrow> \<lparr>sd_desired_instances = current, sd_direction = None, sd_idle_since = Some now, sd_demand = demand\<rparr>
         | Some idle \<Rightarrow>
             if target < current \<and> now - idle \<ge> timedelta (of_int (fl_cooldown_seconds c)) then
               \<lparr>sd_desired_instances = current - 1, sd_direction = Some Scale_Down, sd_idle_since = Some idle, sd_demand = demand\<rparr>
             else
               \<lparr>sd_desired_instances = current, sd_direction = None, sd_idle_since = Some idle, sd_demand = demand\<rparr>)"

section \<open>Lemmas\<close>

lemma target_upper:
  "0 \<le> fl_maximum_instances c \<Longrightarrow> scaling_target c demand n cap \<le> fl_maximum_instances c"
  by (auto simp: scaling_target_def Let_def split: option.splits)

lemma target_lower:
  "fl_enabled c \<Longrightarrow> fl_minimum_instances c \<le> fl_maximum_instances c \<Longrightarrow>
   fl_minimum_instances c \<le> scaling_target c demand n cap"
  by (auto simp: scaling_target_def Let_def split: option.splits)

lemma target_nonneg:
  "0 \<le> fl_minimum_instances c \<Longrightarrow> fl_minimum_instances c \<le> fl_maximum_instances c \<Longrightarrow>
   0 \<le> scaling_target c demand n cap"
  using target_lower [of c demand n cap] by (cases "fl_enabled c") (auto simp: scaling_target_def)

lemma desired_cases:
  "sd_desired_instances (scaling_decision c demand now n cap) =
     (case sd_direction (scaling_decision c demand now n cap) of
        None \<Rightarrow> fl_desired_instances c
      | Some Scale_Up \<Rightarrow> fl_desired_instances c + 1
      | Some Scale_Down \<Rightarrow> fl_desired_instances c - 1)"
  by (auto simp: scaling_decision_def Let_def split: option.split)

lemma scale_up_iff:
  "sd_direction (scaling_decision c demand now n cap) = Some Scale_Up \<longleftrightarrow>
     fl_desired_instances c < scaling_target c demand n cap"
  by (auto simp: scaling_decision_def Let_def split: option.split)

lemma scale_down_iff:
  "sd_direction (scaling_decision c demand now n cap) = Some Scale_Down \<longleftrightarrow>
     demand \<le> 0 \<and> scaling_target c demand n cap < fl_desired_instances c
     \<and> (\<exists>idle. fl_idle_since c = Some idle \<and> timedelta (of_int (fl_cooldown_seconds c)) \<le> now - idle)"
  by (auto simp: scaling_decision_def Let_def split: option.split)

text \<open>What demand needs: enough instances, as far as the maximum allows.\<close>

lemma required_covers:
  assumes "0 < fl_session_capacity c"
  shows "demand \<le> \<lceil>(of_int demand :: rat) / of_int (fl_session_capacity c)\<rceil> * fl_session_capacity c"
proof -
  have "(of_int demand :: rat) / of_int (fl_session_capacity c) \<le>
      of_int \<lceil>(of_int demand :: rat) / of_int (fl_session_capacity c)\<rceil>" by (rule le_of_int_ceiling)
  moreover have "0 < (of_int (fl_session_capacity c) :: rat)" using assms by simp
  ultimately have "(of_int demand :: rat) \<le>
      of_int (\<lceil>(of_int demand :: rat) / of_int (fl_session_capacity c)\<rceil> * fl_session_capacity c)"
    by (simp only: pos_divide_le_eq of_int_mult)
  then show ?thesis by (simp only: of_int_le_iff)
qed

section \<open>Properties\<close>

text \<open>C17: one evaluation moves the desired number of instances by at most one, up only towards the
  target and never beyond the maximum, down only when there is no demand and the fleet has been idle
  for the cooldown, and never below the minimum of an enabled fleet or zero.\<close>

theorem scaling_is_bounded:
  assumes "0 \<le> fl_minimum_instances c" "fl_minimum_instances c \<le> fl_maximum_instances c"
  shows "\<bar>sd_desired_instances (scaling_decision c demand now n cap) - fl_desired_instances c\<bar> \<le> 1
    \<and> sd_desired_instances (scaling_decision c demand now n cap) \<le> max (fl_desired_instances c) (fl_maximum_instances c)
    \<and> min (fl_desired_instances c) (if fl_enabled c then fl_minimum_instances c else 0)
        \<le> sd_desired_instances (scaling_decision c demand now n cap)
    \<and> (sd_desired_instances (scaling_decision c demand now n cap) < fl_desired_instances c \<longrightarrow>
         demand \<le> 0 \<and> (\<exists>idle. fl_idle_since c = Some idle \<and> fl_cooldown_seconds c * 1000000 \<le> now - idle))"
proof -
  let ?r = "scaling_decision c demand now n cap" and ?t = "scaling_target c demand n cap"
  have up: "?t \<le> fl_maximum_instances c" using assms by (intro target_upper) simp
  have lo: "(if fl_enabled c then fl_minimum_instances c else 0) \<le> ?t"
    using assms target_lower [of c demand n cap] target_nonneg [of c demand n cap] by simp
  show ?thesis
  proof (cases "sd_direction ?r")
    case None
    then show ?thesis by (simp add: desired_cases)
  next
    case (Some dir)
    show ?thesis
    proof (cases dir)
      case Scale_Up
      with Some up show ?thesis using scale_up_iff [of c demand now n cap] by (simp add: desired_cases)
    next
      case Scale_Down
      with Some lo show ?thesis using scale_down_iff [of c demand now n cap] by (simp add: desired_cases)
    qed
  qed
qed

definition demo_configuration :: fleet_configuration where
  "demo_configuration = \<lparr>fl_provider = BROWSERLESS, fl_minimum_instances = 1, fl_maximum_instances = 3,
     fl_session_capacity = 2, fl_cooldown_seconds = 60, fl_max_queued = 10, fl_desired_instances = 1,
     fl_configuration_version = 1, fl_enabled = True, fl_idle_since = None, fl_last_reconciled_at = None,
     fl_controller_status = None\<rparr>"

theorem scaling_is_bounded_witness:
  "sd_desired_instances (scaling_decision demo_configuration 5 0 (Some 1) (Some 2)) = 2
   \<and> sd_desired_instances (scaling_decision demo_configuration 5 0 (Some 1) (Some 2)) \<le> 3"
proof
  show "sd_desired_instances (scaling_decision demo_configuration 5 0 (Some 1) (Some 2)) = 2" by code_simp
  have "0 \<le> fl_minimum_instances demo_configuration" "fl_minimum_instances demo_configuration \<le> fl_maximum_instances demo_configuration"
    by (simp_all add: demo_configuration_def)
  from scaling_is_bounded [OF this, of 5 0 "Some 1" "Some 2"]
  show "sd_desired_instances (scaling_decision demo_configuration 5 0 (Some 1) (Some 2)) \<le> 3"
    by (simp add: demo_configuration_def)
qed

text \<open>Successive evaluations under a constant demand, with whatever instances were provisioned at
  each.\<close>

definition rescaled :: "fleet_configuration \<Rightarrow> scaling_decision_result \<Rightarrow> fleet_configuration" where
  "rescaled c r = c\<lparr>fl_desired_instances := sd_desired_instances r, fl_idle_since := sd_idle_since r\<rparr>"

fun evaluations :: "int \<Rightarrow> (time \<times> int option \<times> int option) list \<Rightarrow> fleet_configuration \<Rightarrow> fleet_configuration" where
  "evaluations demand [] c = c"
| "evaluations demand ((now, n, cap) # obs) c =
     evaluations demand obs (rescaled c (scaling_decision c demand now n cap))"

definition wanted :: "fleet_configuration \<Rightarrow> int \<Rightarrow> int" where
  "wanted c demand = min (fl_maximum_instances c)
     (max (fl_minimum_instances c) \<lceil>(of_int demand :: rat) / of_int (fl_session_capacity c)\<rceil>)"

lemma wanted_le_target: "fl_enabled c \<Longrightarrow> wanted c demand \<le> scaling_target c demand n cap"
  by (auto simp: scaling_target_def wanted_def Let_def split: option.splits)

lemma rescaled_simps [simp]:
  "fl_enabled (rescaled c r) = fl_enabled c" "wanted (rescaled c r) demand = wanted c demand"
  "fl_desired_instances (rescaled c r) = sd_desired_instances r"
  by (simp_all add: rescaled_def wanted_def)

text \<open>Under constant demand an enabled fleet reaches the instances that demand needs, one per
  evaluation: after \<open>k\<close> evaluations the desired number is at least the wanted number or \<open>k\<close> above
  where it started.\<close>

theorem scaling_converges:
  assumes "fl_enabled c" "0 < demand"
  shows "min (wanted c demand) (fl_desired_instances c + int (length obs)) \<le> fl_desired_instances (evaluations demand obs c)"
  using assms(1)
proof (induction obs arbitrary: c)
  case Nil
  show ?case by simp
next
  case (Cons ob obs)
  obtain now n cap where ob: "ob = (now, n, cap)" by (cases ob) auto
  let ?r = "scaling_decision c demand now n cap"
  have "min (wanted c demand) (sd_desired_instances ?r + int (length obs)) \<le>
      fl_desired_instances (evaluations demand obs (rescaled c ?r))"
    using Cons.IH [of "rescaled c ?r"] Cons.prems by simp
  moreover have "min (wanted c demand) (fl_desired_instances c + 1) \<le> sd_desired_instances ?r"
    using scale_up_iff [of c demand now n cap] scale_down_iff [of c demand now n cap] assms(2)
      wanted_le_target [OF Cons.prems, of demand n cap] desired_cases [of c demand now n cap]
    by (cases "sd_direction ?r") (auto split: scale_direction.splits)
  ultimately show ?case by (simp add: ob)
qed

theorem scaling_converges_witness:
  "3 \<le> fl_desired_instances (evaluations 5 [(0, None, None), (1, None, None)] demo_configuration)"
proof -
  let ?obs = "[(0, None, None), (1, None, None)] :: (time \<times> int option \<times> int option) list"
  have en: "fl_enabled demo_configuration" by (simp add: demo_configuration_def)
  have "min (wanted demo_configuration 5) (fl_desired_instances demo_configuration + int (length ?obs))
      \<le> fl_desired_instances (evaluations 5 ?obs demo_configuration)"
    by (rule scaling_converges [OF en]) simp
  moreover have "wanted demo_configuration 5 = 3" by code_simp
  ultimately show ?thesis by (simp add: demo_configuration_def)
qed

end
