(* ===== verification/Gateway_DB.thy ===== *)
theory Gateway_DB
  imports Contracts
begin

text \<open>
  The PostgreSQL tables of \<^verbatim>\<open>backend/db/models/gateway.py\<close> and the cost rates of
  \<^verbatim>\<open>backend/db/models/observability.py\<close>, one record per table row and one record for the
  database. String columns that hold the value of an enumeration carry the enumeration;
  nullable columns are options. \<open>queue_sequence\<close> and the event identifiers are drawn from
  the counters \<open>db_next_queue\<close> and \<open>db_next_event\<close>. A transaction that rolls back also
  consumes sequence numbers in PostgreSQL; only the order of the numbers is observable, and the
  model leaves the counter of a rolled-back transaction alone.
\<close>

record gateway_session =
  gs_id :: string
  gs_owner_id :: string
  gs_lease_token :: string
  gs_client_reference :: "string option"
  gs_requested_settings :: json
  gs_workload :: string
  gs_capture_hostname :: "string option"
  gs_capture_summary :: "json option"
  gs_state :: session_state
  gs_created_at :: time
  gs_admitted_at :: "time option"
  gs_opened_at :: "time option"
  gs_closing_at :: "time option"
  gs_closed_at :: "time option"
  gs_lease_expires_at :: "time option"
  gs_terminal_reason :: "string option"

record acquisition_attempt =
  aq_id :: string
  aq_session_id :: string
  aq_ordinal :: int
  aq_provider :: provider_name
  aq_instance_id :: "string option"
  aq_provider_session_id :: "string option"
  aq_resolved_settings :: json
  aq_setting_sources :: json
  aq_state :: attempt_state
  aq_queue_sequence :: int
  aq_created_at :: time
  aq_queued_at :: "time option"
  aq_acquiring_at :: "time option"
  aq_active_at :: "time option"
  aq_finished_at :: "time option"
  aq_provider_started_at :: "time option"
  aq_provider_ended_at :: "time option"
  aq_capacity_occupied_ms :: "int option"
  aq_browser_connected_ms :: "int option"
  aq_provider_reported_ms :: "int option"
  aq_chargeable_time_ms :: "int option"
  aq_cost_basis :: "string option"
  aq_cost_rate :: "int option"
  aq_terminal_reason :: "string option"
  aq_domain_id :: "int option"
  aq_modeled_cost_units :: "int option"
  aq_command_summary :: "json option"
  aq_phase_summary :: "json option"
  aq_command_cost_projected :: bool
  aq_cost_projected :: bool

record provider_fleet =
  pf_provider :: provider_name
  pf_minimum_instances :: int
  pf_maximum_instances :: int
  pf_session_capacity :: int
  pf_cooldown_seconds :: int
  pf_max_queued :: int
  pf_desired_instances :: int
  pf_configuration_version :: int
  pf_enabled :: bool
  pf_last_scale_up_at :: "time option"
  pf_last_scale_down_at :: "time option"
  pf_idle_since :: "time option"
  pf_last_reconciled_at :: "time option"
  pf_controller_status :: "string option"
  pf_updated_at :: time

record provider_instance =
  pi_id :: string
  pi_provider :: provider_name
  pi_platform :: string
  pi_endpoint :: string
  pi_state :: fleet_instance_state
  pi_capacity :: int
  pi_observed_at :: time
  pi_observation_expires_at :: time
  pi_started_at :: "time option"
  pi_ready_at :: "time option"
  pi_draining_at :: "time option"
  pi_stopped_at :: "time option"

record external_limit =
  xl_provider :: provider_name
  xl_enabled :: bool
  xl_max_active :: int
  xl_max_queued :: int
  xl_configuration_version :: int
  xl_updated_at :: time

text \<open>The audit rows of both configuration tables: the field values before and after.\<close>

record limit_event =
  le_provider :: provider_name
  le_version :: int
  le_previous :: "bool \<times> int \<times> int"
  le_new :: "bool \<times> int \<times> int"
  le_actor :: string

record fleet_config =
  fc_minimum_instances :: int
  fc_maximum_instances :: int
  fc_session_capacity :: int
  fc_cooldown_seconds :: int
  fc_max_queued :: int
  fc_enabled :: bool

record fleet_event =
  fe_provider :: provider_name
  fe_version :: int
  fe_previous :: fleet_config
  fe_new :: fleet_config
  fe_actor :: string

record cost_rate =
  cr_provider :: provider_name
  cr_units_per_second :: int
  cr_updated_at :: time

record session_event =
  ev_id :: int
  ev_session_id :: string
  ev_event_type :: string
  ev_attempt_id :: "string option"
  ev_provider :: "provider_name option"
  ev_reason :: "string option"
  ev_occurred_at :: time
  ev_payload :: "(string \<times> json) list"
  ev_published_at :: "time option"

record db =
  db_gateway_rows :: "string list"
  db_provider_rows :: "provider_name list"
  db_sessions :: "gateway_session list"
  db_attempts :: "acquisition_attempt list"
  db_fleets :: "provider_fleet list"
  db_instances :: "provider_instance list"
  db_limits :: "external_limit list"
  db_limit_events :: "limit_event list"
  db_fleet_events :: "fleet_event list"
  db_rates :: "cost_rate list"
  db_events :: "session_event list"
  db_next_queue :: int
  db_next_event :: int

definition empty_db :: db where
  "empty_db = \<lparr>db_gateway_rows = [], db_provider_rows = [], db_sessions = [], db_attempts = [],
     db_fleets = [], db_instances = [], db_limits = [], db_limit_events = [], db_fleet_events = [],
     db_rates = [], db_events = [], db_next_queue = 1, db_next_event = 1\<rparr>"

section \<open>Single-row reads\<close>

definition session_of :: "db \<Rightarrow> string \<Rightarrow> gateway_session option" where
  "session_of d i = lookup gs_id i (db_sessions d)"

definition attempt_of :: "db \<Rightarrow> string \<Rightarrow> acquisition_attempt option" where
  "attempt_of d i = lookup aq_id i (db_attempts d)"

definition fleet_of :: "db \<Rightarrow> provider_name \<Rightarrow> provider_fleet option" where
  "fleet_of d p = lookup pf_provider p (db_fleets d)"

definition instance_of :: "db \<Rightarrow> string \<Rightarrow> provider_instance option" where
  "instance_of d i = lookup pi_id i (db_instances d)"

definition limit_of :: "db \<Rightarrow> provider_name \<Rightarrow> external_limit option" where
  "limit_of d p = lookup xl_provider p (db_limits d)"

definition rate_of :: "db \<Rightarrow> provider_name \<Rightarrow> cost_rate option" where
  "rate_of d p = lookup cr_provider p (db_rates d)"

section \<open>Locks\<close>

text \<open>\<open>_lock_gateway\<close> and \<open>_lock_provider\<close> insert the lock row if it is missing, then lock it.
  Operations of the model are atomic, so only the insert is visible.\<close>

definition lock_gateway :: "db \<Rightarrow> db" where
  "lock_gateway d =
     (if ''global'' \<in> set (db_gateway_rows d) then d
      else d\<lparr>db_gateway_rows := db_gateway_rows d @ [''global'']\<rparr>)"

definition lock_provider :: "provider_name \<Rightarrow> db \<Rightarrow> db" where
  "lock_provider p d =
     (if p \<in> set (db_provider_rows d) then d
      else d\<lparr>db_provider_rows := db_provider_rows d @ [p]\<rparr>)"

lemma lock_tables [simp, table_simps]:
  "db_sessions (lock_provider p d) = db_sessions d" "db_sessions (lock_gateway d) = db_sessions d"
  "db_attempts (lock_provider p d) = db_attempts d" "db_attempts (lock_gateway d) = db_attempts d"
  "db_fleets (lock_provider p d) = db_fleets d" "db_fleets (lock_gateway d) = db_fleets d"
  "db_instances (lock_provider p d) = db_instances d" "db_instances (lock_gateway d) = db_instances d"
  "db_limits (lock_provider p d) = db_limits d" "db_limits (lock_gateway d) = db_limits d"
  "db_rates (lock_provider p d) = db_rates d" "db_rates (lock_gateway d) = db_rates d"
  "db_events (lock_provider p d) = db_events d" "db_events (lock_gateway d) = db_events d"
  "db_next_queue (lock_provider p d) = db_next_queue d" "db_next_queue (lock_gateway d) = db_next_queue d"
  "db_next_event (lock_provider p d) = db_next_event d" "db_next_event (lock_gateway d) = db_next_event d"
  by (simp_all add: lock_provider_def lock_gateway_def)

section \<open>Events\<close>

text \<open>\<open>database.add(SessionEventRecord(...))\<close>: the transactional outbox row.\<close>

definition add_event ::
  "string \<Rightarrow> string option \<Rightarrow> string \<Rightarrow> provider_name option \<Rightarrow> string option \<Rightarrow> time
    \<Rightarrow> (string \<times> json) list \<Rightarrow> db \<Rightarrow> db" where
  "add_event sid aid ty p reason now payload d =
     d\<lparr>db_events := db_events d @
         [\<lparr>ev_id = db_next_event d, ev_session_id = sid, ev_event_type = ty, ev_attempt_id = aid,
           ev_provider = p, ev_reason = reason, ev_occurred_at = now, ev_payload = payload,
           ev_published_at = None\<rparr>],
       db_next_event := db_next_event d + 1\<rparr>"

lemma add_event_tables [simp, table_simps]:
  "db_sessions (add_event s a ty p r n pl d) = db_sessions d"
  "db_attempts (add_event s a ty p r n pl d) = db_attempts d"
  "db_fleets (add_event s a ty p r n pl d) = db_fleets d"
  "db_instances (add_event s a ty p r n pl d) = db_instances d"
  "db_limits (add_event s a ty p r n pl d) = db_limits d"
  "db_rates (add_event s a ty p r n pl d) = db_rates d"
  "db_next_queue (add_event s a ty p r n pl d) = db_next_queue d"
  "db_next_event (add_event s a ty p r n pl d) = db_next_event d + 1"
  by (simp_all add: add_event_def)

section \<open>Row updates\<close>

text \<open>Writes through the ORM: every mapped row is reached by its primary key.\<close>

definition set_session :: "string \<Rightarrow> (gateway_session \<Rightarrow> gateway_session) \<Rightarrow> db \<Rightarrow> db" where
  "set_session i f d = d\<lparr>db_sessions := upd_where (\<lambda>r. gs_id r = i) f (db_sessions d)\<rparr>"

definition set_attempt :: "string \<Rightarrow> (acquisition_attempt \<Rightarrow> acquisition_attempt) \<Rightarrow> db \<Rightarrow> db" where
  "set_attempt i f d = d\<lparr>db_attempts := upd_where (\<lambda>r. aq_id r = i) f (db_attempts d)\<rparr>"

lemma set_session_tables [simp, table_simps]:
  "db_sessions (set_session i f d) = upd_where (\<lambda>r. gs_id r = i) f (db_sessions d)"
  "db_attempts (set_session i f d) = db_attempts d"
  "db_fleets (set_session i f d) = db_fleets d"
  "db_instances (set_session i f d) = db_instances d"
  "db_limits (set_session i f d) = db_limits d"
  "db_rates (set_session i f d) = db_rates d"
  "db_events (set_session i f d) = db_events d"
  "db_next_queue (set_session i f d) = db_next_queue d"
  "db_next_event (set_session i f d) = db_next_event d"
  by (simp_all add: set_session_def)

lemma set_attempt_tables [simp, table_simps]:
  "db_sessions (set_attempt i g d) = db_sessions d"
  "db_attempts (set_attempt i g d) = upd_where (\<lambda>r. aq_id r = i) g (db_attempts d)"
  "db_fleets (set_attempt i g d) = db_fleets d"
  "db_instances (set_attempt i g d) = db_instances d"
  "db_limits (set_attempt i g d) = db_limits d"
  "db_rates (set_attempt i g d) = db_rates d"
  "db_events (set_attempt i g d) = db_events d"
  "db_next_queue (set_attempt i g d) = db_next_queue d"
  "db_next_event (set_attempt i g d) = db_next_event d"
  by (simp_all add: set_attempt_def)

end
