(* ===== verification/Usage.thy ===== *)
theory Usage
  imports Gateway_DB
begin

text \<open>
  Attempt accounting (\<^verbatim>\<open>backend/proxy/postgres/usage.py\<close>) and the lifecycle predicates the
  two admission repositories share. \<open>finalize_attempt_usage\<close> is the one place where an
  attempt's occupied, connected, provider-reported and chargeable time and its modeled cost are
  written; \<open>end_attempt\<close> is the row update every terminal transition makes.
\<close>

section \<open>Live states\<close>

text \<open>The attempt repository counts a session as live while it is admitted or open; the session
  repository and the fleet repository also count the closing state.\<close>

definition attempt_live_session_state :: "session_state \<Rightarrow> bool" where
  "attempt_live_session_state s \<longleftrightarrow> s \<in> {S_Admitted, S_Open}"

definition live_session_state :: "session_state \<Rightarrow> bool" where
  "live_session_state s \<longleftrightarrow> s \<in> {S_Admitted, S_Open, S_Closing}"

definition active_attempt_state :: "attempt_state \<Rightarrow> bool" where
  "active_attempt_state s \<longleftrightarrow> s \<in> {A_Acquiring, A_Active}"

definition live_attempt_state :: "attempt_state \<Rightarrow> bool" where
  "live_attempt_state s \<longleftrightarrow> s \<in> {A_Queued, A_Acquiring, A_Active}"

lemma live_session_state_simps [simp]:
  "live_session_state S_Admitted" "live_session_state S_Open" "live_session_state S_Closing"
  "\<not> live_session_state S_Requested" "\<not> live_session_state S_Closed" "\<not> live_session_state S_Failed"
  "attempt_live_session_state S_Admitted" "attempt_live_session_state S_Open"
  "\<not> attempt_live_session_state S_Requested" "\<not> attempt_live_session_state S_Closing"
  "\<not> attempt_live_session_state S_Closed" "\<not> attempt_live_session_state S_Failed"
  by (simp_all add: live_session_state_def attempt_live_session_state_def)

lemma live_attempt_state_simps [simp]:
  "active_attempt_state A_Acquiring" "active_attempt_state A_Active"
  "\<not> active_attempt_state A_Requested" "\<not> active_attempt_state A_Queued"
  "\<not> active_attempt_state A_Completed" "\<not> active_attempt_state A_Failed"
  "live_attempt_state A_Queued" "live_attempt_state A_Acquiring" "live_attempt_state A_Active"
  "\<not> live_attempt_state A_Requested" "\<not> live_attempt_state A_Completed" "\<not> live_attempt_state A_Failed"
  by (simp_all add: active_attempt_state_def live_attempt_state_def)

lemma active_imp_live: "active_attempt_state s \<Longrightarrow> live_attempt_state s"
  by (auto simp: active_attempt_state_def live_attempt_state_def)

section \<open>Usage\<close>

definition finalize_attempt_usage ::
  "cost_rate option \<Rightarrow> time \<Rightarrow> acquisition_attempt \<Rightarrow> acquisition_attempt" where
  "finalize_attempt_usage rate now row =
     (let r1 = (case (aq_provider_started_at row, aq_provider_ended_at row) of
                  (Some s, None) \<Rightarrow> row\<lparr>aq_provider_ended_at := Some now,
                                       aq_provider_reported_ms := Some (max 0 (elapsed_ms s now))\<rparr>
                | _ \<Rightarrow> row);
          r2 = (case aq_acquiring_at r1 of
                  Some a \<Rightarrow> r1\<lparr>aq_capacity_occupied_ms := Some (max 0 (elapsed_ms a now))\<rparr>
                | None \<Rightarrow> r1);
          r3 = (case aq_active_at r2 of
                  Some a \<Rightarrow> r2\<lparr>aq_browser_connected_ms := Some (max 0 (elapsed_ms a now))\<rparr>
                | None \<Rightarrow> r2);
          r4 = r3\<lparr>aq_chargeable_time_ms := aq_capacity_occupied_ms r3,
                  aq_cost_basis := Some ''capacity_occupied''\<rparr>
      in (case (rate, aq_chargeable_time_ms r4) of
            (Some c, Some ms) \<Rightarrow>
              r4\<lparr>aq_cost_rate := Some (cr_units_per_second c),
                 aq_modeled_cost_units := Some ((ms * cr_units_per_second c + 999) div 1000)\<rparr>
          | _ \<Rightarrow> r4))"

text \<open>Usage touches the accounting columns only.\<close>

lemma finalize_fields [simp, row_simps]:
  "aq_id (finalize_attempt_usage rate now r) = aq_id r"
  "aq_session_id (finalize_attempt_usage rate now r) = aq_session_id r"
  "aq_ordinal (finalize_attempt_usage rate now r) = aq_ordinal r"
  "aq_provider (finalize_attempt_usage rate now r) = aq_provider r"
  "aq_instance_id (finalize_attempt_usage rate now r) = aq_instance_id r"
  "aq_state (finalize_attempt_usage rate now r) = aq_state r"
  "aq_queue_sequence (finalize_attempt_usage rate now r) = aq_queue_sequence r"
  "aq_queued_at (finalize_attempt_usage rate now r) = aq_queued_at r"
  "aq_acquiring_at (finalize_attempt_usage rate now r) = aq_acquiring_at r"
  "aq_active_at (finalize_attempt_usage rate now r) = aq_active_at r"
  "aq_finished_at (finalize_attempt_usage rate now r) = aq_finished_at r"
  "aq_terminal_reason (finalize_attempt_usage rate now r) = aq_terminal_reason r"
  "aq_command_summary (finalize_attempt_usage rate now r) = aq_command_summary r"
  by (simp_all add: finalize_attempt_usage_def Let_def split: option.splits)

lemma finalize_occupied [simp]:
  "aq_capacity_occupied_ms (finalize_attempt_usage rate now r) =
     (case aq_acquiring_at r of None \<Rightarrow> aq_capacity_occupied_ms r
      | Some a \<Rightarrow> Some (max 0 (elapsed_ms a now)))"
  by (simp add: finalize_attempt_usage_def Let_def split: option.splits)

lemma finalize_connected [simp]:
  "aq_browser_connected_ms (finalize_attempt_usage rate now r) =
     (case aq_active_at r of None \<Rightarrow> aq_browser_connected_ms r
      | Some a \<Rightarrow> Some (max 0 (elapsed_ms a now)))"
  by (simp add: finalize_attempt_usage_def Let_def split: option.splits)

lemma finalize_chargeable [simp]:
  "aq_chargeable_time_ms (finalize_attempt_usage rate now r) =
     aq_capacity_occupied_ms (finalize_attempt_usage rate now r)"
  by (simp add: finalize_attempt_usage_def Let_def split: option.splits)

lemma finalize_cost:
  "aq_modeled_cost_units (finalize_attempt_usage rate now r) =
     (case (rate, aq_chargeable_time_ms (finalize_attempt_usage rate now r)) of
        (Some c, Some ms) \<Rightarrow> Some ((ms * cr_units_per_second c + 999) div 1000)
      | _ \<Rightarrow> aq_modeled_cost_units r)"
  by (simp add: finalize_attempt_usage_def Let_def split: option.splits)

text \<open>Rounding a cost up to whole units, the way the code divides.\<close>

lemma cost_units_ceiling:
  fixes x :: int
  shows "x \<le> 1000 * ((x + 999) div 1000)" "1000 * ((x + 999) div 1000) < x + 1000"
proof -
  have "1000 * ((x + 999) div 1000) + (x + 999) mod 1000 = x + 999" by simp
  moreover have "0 \<le> (x + 999) mod 1000" "(x + 999) mod 1000 < 1000" by simp_all
  ultimately show "x \<le> 1000 * ((x + 999) div 1000)" "1000 * ((x + 999) div 1000) < x + 1000"
    by linarith+
qed

section \<open>Ending an attempt\<close>

definition end_attempt ::
  "cost_rate option \<Rightarrow> time \<Rightarrow> attempt_state \<Rightarrow> string \<Rightarrow> acquisition_attempt \<Rightarrow> acquisition_attempt" where
  "end_attempt rate now st reason r =
     (finalize_attempt_usage rate now r)
       \<lparr>aq_state := st, aq_finished_at := Some now, aq_terminal_reason := Some reason\<rparr>"

lemma end_attempt_fields [simp, row_simps]:
  "aq_id (end_attempt rate now st why r) = aq_id r"
  "aq_session_id (end_attempt rate now st why r) = aq_session_id r"
  "aq_ordinal (end_attempt rate now st why r) = aq_ordinal r"
  "aq_provider (end_attempt rate now st why r) = aq_provider r"
  "aq_instance_id (end_attempt rate now st why r) = aq_instance_id r"
  "aq_state (end_attempt rate now st why r) = st"
  "aq_queue_sequence (end_attempt rate now st why r) = aq_queue_sequence r"
  "aq_queued_at (end_attempt rate now st why r) = aq_queued_at r"
  "aq_acquiring_at (end_attempt rate now st why r) = aq_acquiring_at r"
  "aq_active_at (end_attempt rate now st why r) = aq_active_at r"
  "aq_finished_at (end_attempt rate now st why r) = Some now"
  "aq_terminal_reason (end_attempt rate now st why r) = Some why"
  by (simp_all add: end_attempt_def)

lemma end_attempt_usage [simp]:
  "aq_chargeable_time_ms (end_attempt rate now st why r) =
     aq_chargeable_time_ms (finalize_attempt_usage rate now r)"
  "aq_capacity_occupied_ms (end_attempt rate now st why r) =
     aq_capacity_occupied_ms (finalize_attempt_usage rate now r)"
  "aq_browser_connected_ms (end_attempt rate now st why r) =
     aq_browser_connected_ms (finalize_attempt_usage rate now r)"
  "aq_modeled_cost_units (end_attempt rate now st why r) =
     aq_modeled_cost_units (finalize_attempt_usage rate now r)"
  by (simp_all add: end_attempt_def)

end
