(* ===== verification/Db_Invariant.thy ===== *)
theory Db_Invariant
  imports Usage
begin

text \<open>
  What every transaction keeps true of the gateway tables: primary keys are unique, a stored
  session or attempt row is in one of its durable states with the timestamps of that state, and an
  attempt belongs to a stored session and names an instance of its own provider.
\<close>

section \<open>Row invariants\<close>

definition session_ok :: "gateway_session \<Rightarrow> bool" where
  "session_ok s \<longleftrightarrow>
     gs_state s \<in> {S_Admitted, S_Open, S_Closed, S_Failed}
     \<and> (live_session_state (gs_state s) \<longleftrightarrow> gs_lease_expires_at s \<noteq> None)
     \<and> (live_session_state (gs_state s) \<longleftrightarrow> gs_closed_at s = None)
     \<and> (gs_state s = S_Open \<longrightarrow> gs_opened_at s \<noteq> None)"

definition attempt_ok :: "acquisition_attempt \<Rightarrow> bool" where
  "attempt_ok a \<longleftrightarrow>
     aq_state a \<noteq> A_Requested
     \<and> (live_attempt_state (aq_state a) \<longleftrightarrow> aq_finished_at a = None)
     \<and> (aq_state a = A_Queued \<longrightarrow> aq_queued_at a \<noteq> None \<and> aq_acquiring_at a = None \<and> aq_instance_id a = None)
     \<and> (active_attempt_state (aq_state a) \<longrightarrow> aq_acquiring_at a \<noteq> None)
     \<and> (aq_state a = A_Active \<longrightarrow> aq_active_at a \<noteq> None)
     \<and> (live_attempt_state (aq_state a) \<longrightarrow> aq_capacity_occupied_ms a = None \<and> aq_modeled_cost_units a = None)
     \<and> (aq_acquiring_at a = None \<longrightarrow>
          aq_capacity_occupied_ms a = None \<and> aq_chargeable_time_ms a = None \<and> aq_modeled_cost_units a = None)"

text \<open>The last two clauses: nothing is billed before the end, and nothing without a slot.\<close>

text \<open>An occupied instance exists and serves the attempt's own provider.\<close>

definition slot_link :: "provider_instance list \<Rightarrow> acquisition_attempt \<Rightarrow> bool" where
  "slot_link insts a \<longleftrightarrow>
     (\<forall>i. aq_instance_id a = Some i \<longrightarrow> (\<exists>inst \<in> set insts. pi_id inst = i \<and> pi_provider inst = aq_provider a))"

definition holds_slot :: "string \<Rightarrow> acquisition_attempt \<Rightarrow> bool" where
  "holds_slot i a \<longleftrightarrow> aq_instance_id a = Some i \<and> active_attempt_state (aq_state a)"

definition wf_db :: "db \<Rightarrow> bool" where
  "wf_db d \<longleftrightarrow>
     distinct (map gs_id (db_sessions d))
     \<and> distinct (map aq_id (db_attempts d))
     \<and> distinct (map pi_id (db_instances d))
     \<and> (\<forall>s \<in> set (db_sessions d). session_ok s)
     \<and> (\<forall>a \<in> set (db_attempts d). attempt_ok a \<and> slot_link (db_instances d) a
          \<and> aq_queue_sequence a < db_next_queue d
          \<and> aq_session_id a \<in> gs_id ` set (db_sessions d))
     \<and> distinct (map aq_queue_sequence (db_attempts d))"

lemma wf_dbD:
  assumes "wf_db d"
  shows "distinct (map gs_id (db_sessions d))" "distinct (map aq_id (db_attempts d))"
    "distinct (map pi_id (db_instances d))"
    "s \<in> set (db_sessions d) \<Longrightarrow> session_ok s"
    "a \<in> set (db_attempts d) \<Longrightarrow> attempt_ok a"
    "a \<in> set (db_attempts d) \<Longrightarrow> slot_link (db_instances d) a"
    "a \<in> set (db_attempts d) \<Longrightarrow> aq_queue_sequence a < db_next_queue d"
    "a \<in> set (db_attempts d) \<Longrightarrow> aq_session_id a \<in> gs_id ` set (db_sessions d)"
    "distinct (map aq_queue_sequence (db_attempts d))"
  using assms by (auto simp: wf_db_def)

lemma wf_empty: "wf_db empty_db"
  by (simp add: wf_db_def empty_db_def)

lemma session_ok_live: "session_ok s \<Longrightarrow> live_session_state (gs_state s) \<Longrightarrow> gs_lease_expires_at s \<noteq> None"
  by (simp add: session_ok_def)

text \<open>For a stored session both liveness predicates agree: the closing state is never stored.\<close>

lemma session_ok_states:
  "session_ok s \<Longrightarrow> attempt_live_session_state (gs_state s) = live_session_state (gs_state s)"
  by (auto simp: session_ok_def live_session_state_def attempt_live_session_state_def)

section \<open>Updates that keep the invariant\<close>

text \<open>An attempt update is harmless when it keeps the keys and the slot and leaves a row that is
  well-formed and does not newly occupy a slot.\<close>

definition attempt_harmless :: "(acquisition_attempt \<Rightarrow> acquisition_attempt) \<Rightarrow> acquisition_attempt \<Rightarrow> bool" where
  "attempt_harmless f a \<longleftrightarrow>
     aq_id (f a) = aq_id a \<and> aq_session_id (f a) = aq_session_id a \<and> aq_provider (f a) = aq_provider a
     \<and> aq_instance_id (f a) = aq_instance_id a \<and> aq_queue_sequence (f a) = aq_queue_sequence a
     \<and> (attempt_ok a \<longrightarrow> attempt_ok (f a))
     \<and> (active_attempt_state (aq_state (f a)) \<longrightarrow> active_attempt_state (aq_state a))"

text \<open>The invariant reads three tables and the queue counter; nothing else.\<close>

lemma wf_db_cong:
  assumes "db_sessions d' = db_sessions d" "db_attempts d' = db_attempts d"
    "db_instances d' = db_instances d" "db_next_queue d' = db_next_queue d"
  shows "wf_db d' = wf_db d"
  using assms by (simp add: wf_db_def)

lemma map_key_upd_harmless:
  assumes "\<And>a. a \<in> set as \<Longrightarrow> P a \<Longrightarrow> k (f a) = k a"
  shows "map k (upd_where P f as) = map k as"
  using assms by (induction as) auto

lemma wf_upd_attempts:
  assumes wf: "wf_db d"
    and ok: "\<And>a. a \<in> set (db_attempts d) \<Longrightarrow> P a \<Longrightarrow> attempt_harmless f a"
    and at: "db_attempts d' = upd_where P f (db_attempts d)"
    and same: "db_sessions d' = db_sessions d" "db_instances d' = db_instances d"
      "db_next_queue d' = db_next_queue d"
  shows "wf_db d'"
proof -
  have keys: "map aq_id (db_attempts d') = map aq_id (db_attempts d)"
    "map aq_queue_sequence (db_attempts d') = map aq_queue_sequence (db_attempts d)"
    unfolding at by (rule map_key_upd_harmless; use ok in \<open>auto simp: attempt_harmless_def\<close>)+
  have rows: "attempt_ok a \<and> slot_link (db_instances d) a \<and> aq_queue_sequence a < db_next_queue d
      \<and> aq_session_id a \<in> gs_id ` set (db_sessions d)" if "a \<in> set (db_attempts d')" for a
  proof -
    from that at obtain b where b: "b \<in> set (db_attempts d)" "a = (if P b then f b else b)"
      by (auto simp: set_upd_where)
    show ?thesis
      using wf_dbD(5-8) [OF wf b(1)] ok [OF b(1)] b(2)
      by (auto simp: attempt_harmless_def slot_link_def)
  qed
  with wf keys rows show ?thesis by (simp add: wf_db_def same)
qed

text \<open>A session update that keeps the keys and leaves well-formed rows.\<close>

lemma wf_upd_sessions:
  assumes wf: "wf_db d"
    and ok: "\<And>s. s \<in> set (db_sessions d) \<Longrightarrow> P s \<Longrightarrow> gs_id (f s) = gs_id s \<and> session_ok (f s)"
    and ses: "db_sessions d' = upd_where P f (db_sessions d)"
    and same: "db_attempts d' = db_attempts d" "db_instances d' = db_instances d"
      "db_next_queue d' = db_next_queue d"
  shows "wf_db d'"
proof -
  have keys: "map gs_id (db_sessions d') = map gs_id (db_sessions d)"
    unfolding ses by (rule map_key_upd_harmless) (use ok in auto)
  then have "gs_id ` set (db_sessions d') = gs_id ` set (db_sessions d)"
    by (metis list.set_map)
  moreover have "\<forall>s \<in> set (db_sessions d'). session_ok s"
    using wf_dbD(4) [OF wf] ok by (auto simp: ses set_upd_where)
  ultimately show ?thesis using wf keys by (simp add: wf_db_def same)
qed

text \<open>An update addressed to one primary key.\<close>

lemma key_update_as_row_update:
  assumes "distinct (map key rows)" "lookup key k rows = Some r"
  shows "upd_where (\<lambda>x. key x = k) f rows = upd_where (\<lambda>x. x = r) f rows"
proof (rule upd_where_cong)
  fix x assume x: "x \<in> set rows"
  have "r \<in> set rows" "key r = k" using lookup_Some [OF assms(2)] by auto
  with x assms(1) show "(key x = k) = (x = r)"
    by (auto simp: distinct_map inj_on_def)
qed simp

lemma wf_set_attempt:
  assumes "wf_db d" and "\<And>a. a \<in> set (db_attempts d) \<Longrightarrow> aq_id a = i \<Longrightarrow> attempt_harmless f a"
  shows "wf_db (set_attempt i f d)"
  by (rule wf_upd_attempts [OF assms(1)]) (use assms(2) in auto)

lemma wf_set_session:
  assumes "wf_db d"
    and "\<And>s. s \<in> set (db_sessions d) \<Longrightarrow> gs_id s = i \<Longrightarrow> gs_id (f s) = gs_id s \<and> session_ok (f s)"
  shows "wf_db (set_session i f d)"
  by (rule wf_upd_sessions [OF assms(1)]) (use assms(2) in auto)

lemma wf_add_event [simp]: "wf_db (add_event s a ty p r n pl d) = wf_db d"
  by (rule wf_db_cong) simp_all

lemma wf_lock [simp]: "wf_db (lock_provider p d) = wf_db d" "wf_db (lock_gateway d) = wf_db d"
  by (rule wf_db_cong; simp)+

section \<open>Bulk updates by a loop\<close>

text \<open>The repositories load the rows to change and update them one by one; the loop has the effect
  of one bulk update.\<close>

lemma fold_keeps: "(\<And>x d. f (u x d) = f d) \<Longrightarrow> f (fold u xs d) = f d"
  by (induction xs arbitrary: d) auto

lemma fold_set_attempts:
  assumes at: "\<And>a d. db_attempts (u a d) = upd_where (\<lambda>r. aq_id r = aq_id a) (F (db_rates d)) (db_attempts d)"
    and rt: "\<And>a d. db_rates (u a d) = db_rates d"
    and key: "\<And>rs r. aq_id (F rs r) = aq_id r"
  shows "distinct (map aq_id xs) \<Longrightarrow>
    db_attempts (fold u xs d) = upd_where (\<lambda>r. aq_id r \<in> aq_id ` set xs) (F (db_rates d)) (db_attempts d)"
proof (induction xs arbitrary: d)
  case Nil
  show ?case by (simp add: upd_where_none)
next
  case (Cons x xs)
  then have "db_attempts (fold u (x # xs) d) =
      upd_where (\<lambda>r. aq_id r \<in> aq_id ` set xs) (F (db_rates d))
        (upd_where (\<lambda>r. aq_id r = aq_id x) (F (db_rates d)) (db_attempts d))"
    by (simp add: at rt)
  also have "\<dots> = upd_where (\<lambda>r. aq_id r \<in> aq_id ` set (x # xs)) (F (db_rates d)) (db_attempts d)"
    using Cons.prems by (auto simp: upd_where_def key)
  finally show ?case .
qed

lemma id_in_filter:
  assumes "distinct (map aq_id rows)" "r \<in> set rows"
  shows "aq_id r \<in> aq_id ` set (filter Q rows) \<longleftrightarrow> Q r"
  using assms by (auto simp: distinct_map inj_on_def)

lemma distinct_map_filter_sort:
  "distinct (map k rows) \<Longrightarrow> distinct (map k (filter Q rows))"
  "distinct (map k rows) \<Longrightarrow> distinct (map k (sort_key k (filter Q rows)))"
  by (auto simp: distinct_map_filter distinct_map inj_on_def)

lemma end_attempt_ok:
  "attempt_ok a \<Longrightarrow> st \<in> {A_Failed, A_Completed} \<Longrightarrow> attempt_ok (end_attempt rate now st why a)"
  by (auto simp: attempt_ok_def finalize_cost split: option.splits)

lemma attempt_ok_summaries [simp]:
  "attempt_ok (a\<lparr>aq_command_summary := c, aq_phase_summary := ph\<rparr>) = attempt_ok a"
  by (simp add: attempt_ok_def)

lemma end_attempt_harmless:
  "st \<in> {A_Failed, A_Completed} \<Longrightarrow> attempt_harmless (end_attempt rate now st why) a"
  by (auto simp: attempt_harmless_def end_attempt_ok)

end
