(* ===== verification/Lifecycle.thy ===== *)
theory Lifecycle
  imports Db_Invariant
begin

text \<open>
  How the rows of the gateway tables may change over time. A transaction extends the database:
  rows are appended, never removed; a session or attempt row moves forward in its lifecycle; a
  terminal session row is frozen, a terminal attempt keeps its state and its bill; the outbox only
  grows. \<open>extends\<close> is that preorder, \<open>evolves\<close> a transaction that keeps the invariant and
  extends the database, and \<open>evolves_bulk\<close> the one lemma behind every row update.
\<close>

section \<open>Tables that grow\<close>

definition grows :: "('r \<Rightarrow> 'r \<Rightarrow> bool) \<Rightarrow> 'r list \<Rightarrow> 'r list \<Rightarrow> bool" where
  "grows rel xs ys \<longleftrightarrow> (\<exists>us vs. ys = us @ vs \<and> list_all2 rel xs us)"

lemma grows_refl: "(\<And>r. rel r r) \<Longrightarrow> grows rel xs xs"
  unfolding grows_def by (rule exI [of _ xs], rule exI [of _ "[]"]) (simp add: list_all2_refl)

lemma grows_append: "grows rel xs ys \<Longrightarrow> grows rel xs (ys @ zs)"
  unfolding grows_def by force

lemma grows_trans:
  assumes tr: "\<And>x y z. rel x y \<Longrightarrow> rel y z \<Longrightarrow> rel x z" and "grows rel xs ys" "grows rel ys zs"
  shows "grows rel xs zs"
proof -
  from assms(2) obtain us vs where 1: "ys = us @ vs" "list_all2 rel xs us" unfolding grows_def by blast
  from assms(3) obtain ps qs where 2: "zs = ps @ qs" "list_all2 rel ys ps" unfolding grows_def by blast
  from 1 2 obtain p1 p2 where 3: "ps = p1 @ p2" "list_all2 rel us p1"
    by (auto simp: list_all2_append1)
  from list_all2_trans [OF tr 1(2) 3(2)] have "list_all2 rel xs p1" .
  with 2 3 show ?thesis unfolding grows_def by auto
qed

lemma grows_upd:
  assumes "\<And>r. rel r r" "\<And>r. r \<in> set xs \<Longrightarrow> P r \<Longrightarrow> rel r (f r)"
  shows "grows rel xs (upd_where P f xs)"
proof -
  have "list_all2 rel xs (upd_where P f xs)"
    using assms by (induction xs) auto
  then show ?thesis unfolding grows_def by force
qed

text \<open>The row a key names is still there, and related to what it was.\<close>

lemma grows_lookup:
  assumes g: "grows rel xs ys" and key: "\<And>x y. rel x y \<Longrightarrow> key y = key x" and "lookup key k xs = Some r"
  shows "\<exists>r'. lookup key k ys = Some r' \<and> rel r r'"
proof -
  from g obtain us vs where ys: "ys = us @ vs" and "list_all2 rel xs us" unfolding grows_def by blast
  from this(2) assms(3) have "\<exists>r'. lookup key k us = Some r' \<and> rel r r'"
    by (induction) (auto simp: key split: if_splits)
  then show ?thesis by (auto simp: ys lookup_append)
qed

lemma grows_mem:
  assumes "grows rel xs ys" "x \<in> set xs"
  shows "\<exists>y \<in> set ys. rel x y"
proof -
  from assms(1) obtain us vs where ys: "ys = us @ vs" "list_all2 rel xs us" unfolding grows_def by blast
  from assms(2) obtain n where "n < length xs" "xs ! n = x" by (auto simp: in_set_conv_nth)
  with ys(2) have "rel x (us ! n)" "us ! n \<in> set us"
    by (auto simp: list_all2_conv_all_nth)
  with ys(1) show ?thesis by auto
qed

section \<open>Forward moves\<close>

fun session_rank :: "session_state \<Rightarrow> nat" where
  "session_rank S_Requested = 0"
| "session_rank S_Admitted = 1"
| "session_rank S_Open = 2"
| "session_rank S_Closing = 3"
| "session_rank S_Closed = 4"
| "session_rank S_Failed = 4"

fun attempt_rank :: "attempt_state \<Rightarrow> nat" where
  "attempt_rank A_Requested = 0"
| "attempt_rank A_Queued = 1"
| "attempt_rank A_Acquiring = 2"
| "attempt_rank A_Active = 3"
| "attempt_rank A_Completed = 4"
| "attempt_rank A_Failed = 4"

definition session_moves :: "gateway_session \<Rightarrow> gateway_session \<Rightarrow> bool" where
  "session_moves r s \<longleftrightarrow> gs_id s = gs_id r \<and> gs_owner_id s = gs_owner_id r
     \<and> gs_lease_token s = gs_lease_token r
     \<and> session_rank (gs_state r) \<le> session_rank (gs_state s)
     \<and> (session_rank (gs_state r) = 4 \<longrightarrow> s = r)"

text \<open>What a finished attempt is billed: its state, end, times, rate and cost.\<close>

definition bill :: "acquisition_attempt \<Rightarrow>
    attempt_state \<times> time option \<times> int option \<times> int option \<times> int option \<times> int option \<times> int option \<times> string option" where
  "bill a = (aq_state a, aq_finished_at a, aq_capacity_occupied_ms a, aq_browser_connected_ms a,
     aq_chargeable_time_ms a, aq_cost_rate a, aq_modeled_cost_units a, aq_terminal_reason a)"

definition attempt_moves :: "acquisition_attempt \<Rightarrow> acquisition_attempt \<Rightarrow> bool" where
  "attempt_moves a b \<longleftrightarrow> aq_id b = aq_id a \<and> aq_session_id b = aq_session_id a
     \<and> aq_ordinal b = aq_ordinal a \<and> aq_provider b = aq_provider a
     \<and> aq_queue_sequence b = aq_queue_sequence a
     \<and> (aq_instance_id a \<noteq> None \<longrightarrow> aq_instance_id b = aq_instance_id a)
     \<and> attempt_rank (aq_state a) \<le> attempt_rank (aq_state b)
     \<and> (attempt_rank (aq_state a) = 4 \<longrightarrow> bill b = bill a)"

lemma session_moves_refl [simp]: "session_moves r r"
  by (simp add: session_moves_def)

lemma session_rank_le: "session_rank s \<le> 4"
  by (cases s) simp_all

lemma attempt_rank_le: "attempt_rank s \<le> 4"
  by (cases s) simp_all

lemma session_moves_trans: "session_moves r s \<Longrightarrow> session_moves s t \<Longrightarrow> session_moves r t"
  unfolding session_moves_def by auto

lemma attempt_moves_refl [simp]: "attempt_moves a a"
  by (simp add: attempt_moves_def)

lemma attempt_moves_trans:
  assumes "attempt_moves a b" "attempt_moves b c" shows "attempt_moves a c"
proof -
  have "attempt_rank (aq_state a) = 4 \<Longrightarrow> attempt_rank (aq_state b) = 4"
    using assms(1) attempt_rank_le [of "aq_state b"] by (auto simp: attempt_moves_def)
  with assms show ?thesis by (auto simp: attempt_moves_def)
qed

lemma live_rank: "live_attempt_state s \<longleftrightarrow> 0 < attempt_rank s \<and> attempt_rank s < 4"
  by (cases s) simp_all

section \<open>Databases that extend one another\<close>

definition extends :: "db \<Rightarrow> db \<Rightarrow> bool" where
  "extends d d' \<longleftrightarrow> grows session_moves (db_sessions d) (db_sessions d')
     \<and> grows attempt_moves (db_attempts d) (db_attempts d')
     \<and> grows (=) (db_events d) (db_events d')"

lemma extends_refl [simp]: "extends d d"
  by (simp add: extends_def grows_refl)

lemma extends_trans: "extends d d1 \<Longrightarrow> extends d1 d2 \<Longrightarrow> extends d d2"
  unfolding extends_def
  by (blast intro: grows_trans [of session_moves] grows_trans [of attempt_moves] grows_trans [of "(=)"]
      session_moves_trans attempt_moves_trans)

lemma extends_cong:
  assumes "db_sessions d' = db_sessions d" "db_attempts d' = db_attempts d" "db_events d' = db_events d @ es"
  shows "extends d d'"
  using assms by (simp add: extends_def grows_refl grows_append)

lemma extends_session:
  "extends d d' \<Longrightarrow> session_of d i = Some r \<Longrightarrow> \<exists>r'. session_of d' i = Some r' \<and> session_moves r r'"
  unfolding extends_def session_of_def
  by (rule grows_lookup [where rel = session_moves and xs = "db_sessions d"]) (blast, simp add: session_moves_def, assumption)

lemma extends_attempt:
  "extends d d' \<Longrightarrow> attempt_of d i = Some a \<Longrightarrow> \<exists>a'. attempt_of d' i = Some a' \<and> attempt_moves a a'"
  unfolding extends_def attempt_of_def
  by (rule grows_lookup [where rel = attempt_moves and xs = "db_attempts d"]) (blast, simp add: attempt_moves_def, assumption)

definition evolves :: "db \<Rightarrow> db \<Rightarrow> bool" where
  "evolves d d' \<longleftrightarrow> (wf_db d \<longrightarrow> wf_db d' \<and> extends d d')"

lemma evolves_refl [simp]: "evolves d d"
  by (simp add: evolves_def)

lemma evolves_trans: "evolves d d1 \<Longrightarrow> evolves d1 d2 \<Longrightarrow> evolves d d2"
  unfolding evolves_def by (blast intro: extends_trans)

lemma evolvesD: "evolves d d' \<Longrightarrow> wf_db d \<Longrightarrow> wf_db d'" "evolves d d' \<Longrightarrow> wf_db d \<Longrightarrow> extends d d'"
  by (auto simp: evolves_def)

lemma evolves_lock [simp]: "evolves d (lock_provider p d)" "evolves d (lock_gateway d)"
  by (auto simp: evolves_def intro!: extends_cong [of _ _ "[]"])

lemma evolves_add_event [simp]: "evolves d (add_event s a ty p r n pl d)"
proof -
  have ev: "\<exists>e. db_events (add_event s a ty p r n pl d) = db_events d @ [e]" by (simp add: add_event_def)
  then obtain e where "db_events (add_event s a ty p r n pl d) = db_events d @ [e]" ..
  then have "extends d (add_event s a ty p r n pl d)" by (intro extends_cong) simp_all
  then show ?thesis by (simp add: evolves_def)
qed

lemma evolves_bulk:
  assumes ses: "db_sessions d' = upd_where P f (db_sessions d)"
    and ses_ok: "\<And>s. s \<in> set (db_sessions d) \<Longrightarrow> session_ok s \<Longrightarrow> P s \<Longrightarrow> session_ok (f s) \<and> session_moves s (f s)"
    and att: "db_attempts d' = upd_where Q g (db_attempts d)"
    and att_ok: "\<And>a. a \<in> set (db_attempts d) \<Longrightarrow> attempt_ok a \<Longrightarrow> Q a \<Longrightarrow> attempt_harmless g a \<and> attempt_moves a (g a)"
    and same: "db_instances d' = db_instances d" "db_next_queue d' = db_next_queue d"
    and ev: "db_events d' = db_events d @ es"
  shows "evolves d d'"
  unfolding evolves_def
proof (intro impI conjI)
  assume wf: "wf_db d"
  let ?m = "d\<lparr>db_sessions := upd_where P f (db_sessions d)\<rparr>"
  have m: "wf_db ?m"
    by (rule wf_upd_sessions [OF wf, where P = P and f = f])
       (use ses_ok wf_dbD(4) [OF wf] in \<open>auto simp: session_moves_def\<close>)
  show "wf_db d'"
    by (rule wf_upd_attempts [OF m, where P = Q and f = g])
       (use att_ok wf_dbD(5) [OF wf] in \<open>auto simp: ses att same\<close>)
  show "extends d d'"
    unfolding extends_def ses att ev
    using ses_ok att_ok wf_dbD(4,5) [OF wf]
    by (auto intro!: grows_upd grows_append grows_refl)
qed

lemma evolves_attempts:
  assumes "db_attempts d' = upd_where Q g (db_attempts d)"
    and "\<And>a. a \<in> set (db_attempts d) \<Longrightarrow> attempt_ok a \<Longrightarrow> Q a \<Longrightarrow> attempt_harmless g a \<and> attempt_moves a (g a)"
    and "db_sessions d' = db_sessions d" "db_instances d' = db_instances d"
    and "db_next_queue d' = db_next_queue d" "db_events d' = db_events d @ es"
  shows "evolves d d'"
  by (rule evolves_bulk [where P = "\<lambda>_. False" and Q = Q and g = g]) (use assms in \<open>auto simp: upd_where_none\<close>)

lemma evolves_set_attempt:
  assumes "\<And>a. a \<in> set (db_attempts d) \<Longrightarrow> aq_id a = i \<Longrightarrow> attempt_ok a
      \<Longrightarrow> attempt_harmless g a \<and> attempt_moves a (g a)"
  shows "evolves d (set_attempt i g d)"
  by (rule evolves_attempts [where Q = "\<lambda>a. aq_id a = i" and g = g and es = "[]"]) (use assms in auto)

lemma evolves_set_session:
  assumes "\<And>s. s \<in> set (db_sessions d) \<Longrightarrow> gs_id s = i \<Longrightarrow> session_ok s \<Longrightarrow> session_ok (f s) \<and> session_moves s (f s)"
  shows "evolves d (set_session i f d)"
  by (rule evolves_bulk [where P = "\<lambda>s. gs_id s = i" and f = f and Q = "\<lambda>_. False" and es = "[]"])
     (use assms in \<open>auto simp: upd_where_none\<close>)

lemma end_attempt_moves:
  "live_attempt_state (aq_state a) \<Longrightarrow> st \<in> {A_Failed, A_Completed} \<Longrightarrow> attempt_moves a (end_attempt rate now st why a)"
  using attempt_rank_le [of "aq_state a"] by (auto simp: attempt_moves_def live_rank)

section \<open>Inserts\<close>

text \<open>A row inserted and then written by its fresh key is the row written before the insert.\<close>

lemma upd_key_snoc:
  "k \<notin> key ` set rows \<Longrightarrow> key r = k \<Longrightarrow> upd_where (\<lambda>x. key x = k) f (rows @ [r]) = rows @ [f r]"
  by (simp, rule upd_where_none) (metis imageI)

lemma evolves_insert_session:
  assumes fresh: "gs_id r \<notin> gs_id ` set (db_sessions d)" and ok: "session_ok r"
    and "db_sessions d' = db_sessions d @ [r]" "db_attempts d' = db_attempts d"
    "db_instances d' = db_instances d" "db_next_queue d' = db_next_queue d" "db_events d' = db_events d @ es"
  shows "evolves d d'"
  using assms unfolding evolves_def
  by (auto simp: wf_db_def extends_def intro!: grows_append grows_refl)

lemma evolves_insert_attempt:
  assumes fresh: "aq_id a \<notin> aq_id ` set (db_attempts d)" and ok: "attempt_ok a"
    and slot: "slot_link (db_instances d) a" and seq: "aq_queue_sequence a = db_next_queue d"
    and ses: "aq_session_id a \<in> gs_id ` set (db_sessions d)"
    and d': "db_attempts d' = db_attempts d @ [a]" "db_next_queue d' = db_next_queue d + 1"
      "db_sessions d' = db_sessions d" "db_instances d' = db_instances d" "db_events d' = db_events d @ es"
  shows "evolves d d'"
  unfolding evolves_def
proof (intro impI conjI)
  assume wf: "wf_db d"
  have seqs: "distinct (map aq_queue_sequence (db_attempts d @ [a]))"
    using wf_dbD(9) [OF wf] wf_dbD(7) [OF wf] seq by fastforce
  have "\<forall>b \<in> set (db_attempts d'). attempt_ok b \<and> slot_link (db_instances d) b
      \<and> aq_queue_sequence b < db_next_queue d + 1 \<and> aq_session_id b \<in> gs_id ` set (db_sessions d)"
    using wf_dbD(5-8) [OF wf] ok slot seq ses by (fastforce simp: d')
  with wf seqs fresh show "wf_db d'" by (simp add: wf_db_def d')
  show "extends d d'" by (auto simp: extends_def d' intro!: grows_append grows_refl)
qed

text \<open>A queued attempt takes a free slot.\<close>

lemma evolves_take_slot:
  assumes a: "a \<in> set (db_attempts d)" "aq_id a = i" "\<And>b. aq_id b = i \<Longrightarrow> b \<in> set (db_attempts d) \<Longrightarrow> b = a"
    and g: "attempt_ok a \<Longrightarrow> attempt_ok (g a)" "attempt_moves a (g a)" "slot_link (db_instances d) (g a)"
    and d': "db_attempts d' = upd_where (\<lambda>b. aq_id b = i) g (db_attempts d)" "db_next_queue d' = db_next_queue d"
      "db_sessions d' = db_sessions d" "db_instances d' = db_instances d" "db_events d' = db_events d @ es"
  shows "evolves d d'"
  unfolding evolves_def
proof (intro impI conjI)
  assume wf: "wf_db d"
  have gm: "aq_id (g a) = aq_id a" "aq_queue_sequence (g a) = aq_queue_sequence a" "aq_session_id (g a) = aq_session_id a"
    using g(2) by (auto simp: attempt_moves_def)
  have keys: "map aq_id (db_attempts d') = map aq_id (db_attempts d)"
    "map aq_queue_sequence (db_attempts d') = map aq_queue_sequence (db_attempts d)"
    unfolding d' by (rule map_key_upd_harmless; use a(3) gm in auto)+
  have rows: "attempt_ok b \<and> slot_link (db_instances d) b
      \<and> aq_queue_sequence b < db_next_queue d \<and> aq_session_id b \<in> gs_id ` set (db_sessions d)"
    if "b \<in> set (db_attempts d')" for b
  proof -
    from that obtain c where c: "c \<in> set (db_attempts d)" "b = (if aq_id c = i then g c else c)"
      by (auto simp: d' set_upd_where)
    show ?thesis
    proof (cases "aq_id c = i")
      case True
      with a(3) c have "b = g a" by auto
      with wf_dbD(5) [OF wf a(1)] wf_dbD(7) [OF wf a(1)] wf_dbD(8) [OF wf a(1)] g gm show ?thesis by simp
    next
      case False
      with c show ?thesis
        using wf_dbD(5) [OF wf c(1)] wf_dbD(6) [OF wf c(1)] wf_dbD(7) [OF wf c(1)] wf_dbD(8) [OF wf c(1)] by simp
    qed
  qed
  with wf keys show "wf_db d'" unfolding wf_db_def d'(2-4) by simp
  show "extends d d'"
    unfolding extends_def d'
  proof (intro conjI)
    show "grows attempt_moves (db_attempts d) (upd_where (\<lambda>b. aq_id b = i) g (db_attempts d))"
      by (rule grows_upd) (simp, use a(3) g(2) in blast)
  qed (auto intro!: grows_append grows_refl)
qed

end
