(* ===== verification/Sessions.thy ===== *)
theory Sessions
  imports Lifecycle
begin

text \<open>
  The session repository (\<^verbatim>\<open>backend/proxy/postgres/sessions.py\<close>): global admission under the
  gateway lock, the lease heartbeat, opening, releasing with its idempotent cleanup of live
  attempts, and the expiry of sessions whose lease ran out. Each operation is one transaction:
  it takes the instant \<open>now\<close> that \<open>clock_timestamp()\<close> returned and yields the database it
  commits, or the error that rolled it back.
\<close>

section \<open>Ownership and counting\<close>

definition owned_row :: "stolosio_session \<Rightarrow> gateway_session \<Rightarrow> bool" where
  "owned_row s r \<longleftrightarrow> gs_id r = ss_session_id s \<and> gs_owner_id r = ss_owner_id s
     \<and> gs_lease_token r = ss_lease_token s"

definition owned :: "db \<Rightarrow> stolosio_session \<Rightarrow> gateway_session option" where
  "owned d s = find (owned_row s) (db_sessions d)"

definition session_live :: "time \<Rightarrow> gateway_session \<Rightarrow> bool" where
  "session_live now r \<longleftrightarrow> live_session_state (gs_state r) \<and> later (gs_lease_expires_at r) now"

definition session_active_count :: "db \<Rightarrow> time \<Rightarrow> nat" where
  "session_active_count d now = count_where (session_live now) (db_sessions d)"

section \<open>Events\<close>

text \<open>Python treats \<open>None\<close> and the empty string alike in \<open>if reason\<close> and \<open>a or b\<close>.\<close>

definition truthy :: "string option \<Rightarrow> bool" where
  "truthy s = (case s of None \<Rightarrow> False | Some x \<Rightarrow> x \<noteq> [])"

definition session_event_row ::
  "string \<Rightarrow> session_state \<Rightarrow> time \<Rightarrow> string option \<Rightarrow> db \<Rightarrow> db" where
  "session_event_row sid st now reason d =
     add_event sid None (''session.'' @ session_state_value st) None reason now
       (case reason of None \<Rightarrow> [] | Some x \<Rightarrow> [(''reason'', JStr x)]) d"

definition session_attempt_event ::
  "acquisition_attempt \<Rightarrow> string \<Rightarrow> time \<Rightarrow> string option \<Rightarrow> db \<Rightarrow> db" where
  "session_attempt_event a ty now reason d =
     add_event (aq_session_id a) (Some (aq_id a)) ty (Some (aq_provider a)) reason now
       (if truthy reason then [(''reason'', JStr (the reason))] else []) d"

section \<open>Ending the live attempts of a session\<close>

definition live_attempts_of :: "db \<Rightarrow> string \<Rightarrow> acquisition_attempt list" where
  "live_attempts_of d sid =
     filter (\<lambda>a. aq_session_id a = sid \<and> live_attempt_state (aq_state a)) (db_attempts d)"

definition end_session_attempt ::
  "time \<Rightarrow> bool \<Rightarrow> string \<Rightarrow> acquisition_attempt \<Rightarrow> db \<Rightarrow> db" where
  "end_session_attempt now failed reason a d =
     session_attempt_event a (if failed then ''attempt.failed'' else ''attempt.closed'') now
       (if failed then Some reason else None)
       (set_attempt (aq_id a)
         (\<lambda>r. end_attempt (rate_of d (aq_provider r)) now
            (if failed then A_Failed else A_Completed) reason r) d)"

section \<open>Expiry\<close>

definition expire_session :: "time \<Rightarrow> gateway_session \<Rightarrow> db \<Rightarrow> db" where
  "expire_session now r d =
     (let d1 = fold (end_session_attempt now True ''session_lease_expired'')
                 (live_attempts_of d (gs_id r)) d;
          d2 = set_session (gs_id r)
                 (\<lambda>s. s\<lparr>gs_state := S_Failed, gs_closed_at := Some now, gs_lease_expires_at := None,
                        gs_terminal_reason := Some ''session_lease_expired''\<rparr>) d1
      in session_event_row (gs_id r) S_Failed now (Some ''session_lease_expired'') d2)"

definition stale_session :: "time \<Rightarrow> gateway_session \<Rightarrow> bool" where
  "stale_session now r \<longleftrightarrow> live_session_state (gs_state r)
     \<and> (case gs_lease_expires_at r of None \<Rightarrow> False | Some t \<Rightarrow> t \<le> now)"

definition expire_stale_sessions :: "time \<Rightarrow> db \<Rightarrow> db" where
  "expire_stale_sessions now d =
     fold (expire_session now) (filter (stale_session now) (db_sessions d)) d"

section \<open>Admission\<close>

definition new_session_row ::
  "stolosio_session \<Rightarrow> json \<Rightarrow> string option \<Rightarrow> time \<Rightarrow> gateway_session" where
  "new_session_row s requested client_reference now =
     \<lparr>gs_id = ss_session_id s, gs_owner_id = ss_owner_id s, gs_lease_token = ss_lease_token s,
      gs_client_reference = client_reference, gs_requested_settings = requested,
      gs_workload = ss_workload s, gs_capture_hostname = ss_capture_hostname s,
      gs_capture_summary = None, gs_state = S_Requested, gs_created_at = now,
      gs_admitted_at = None, gs_opened_at = None, gs_closing_at = None, gs_closed_at = None,
      gs_lease_expires_at = None, gs_terminal_reason = None\<rparr>"

text \<open>The primary key and the unique index on the client reference (which ignores nulls).\<close>

definition session_conflict :: "db \<Rightarrow> stolosio_session \<Rightarrow> string option \<Rightarrow> bool" where
  "session_conflict d s client_reference \<longleftrightarrow>
     list_ex (\<lambda>r. gs_id r = ss_session_id s
        \<or> (client_reference \<noteq> None \<and> gs_client_reference r = client_reference)) (db_sessions d)"

definition admit ::
  "rat \<Rightarrow> stolosio_session \<Rightarrow> int \<Rightarrow> json \<Rightarrow> string option \<Rightarrow> time \<Rightarrow> db
     \<Rightarrow> (db \<times> session_admission_status) result" where
  "admit lease_seconds s max_active requested client_reference now d =
     (let d1 = expire_stale_sessions now (lock_gateway d)
      in if session_conflict d1 s client_reference then Inl IntegrityError
         else
           let row = new_session_row s requested client_reference now;
               d2 = d1\<lparr>db_sessions := db_sessions d1 @ [row]\<rparr>
           in if max_active \<le> int (session_active_count d2 now)
              then Inr (session_event_row (ss_session_id s) S_Failed now (Some ''gateway_capacity_full'')
                     (set_session (ss_session_id s)
                        (\<lambda>r. r\<lparr>gs_state := S_Failed, gs_closed_at := Some now,
                               gs_terminal_reason := Some ''gateway_capacity_full''\<rparr>) d2),
                   SA_FULL)
              else Inr (set_session (ss_session_id s)
                     (\<lambda>r. r\<lparr>gs_state := S_Admitted, gs_admitted_at := Some now,
                            gs_lease_expires_at := Some (now + timedelta lease_seconds)\<rparr>) d2,
                   SA_ADMITTED))"

section \<open>Lease and opening\<close>

definition heartbeat :: "rat \<Rightarrow> stolosio_session \<Rightarrow> time \<Rightarrow> db \<Rightarrow> db \<times> bool" where
  "heartbeat lease_seconds s now d =
     (case owned d s of
        None \<Rightarrow> (d, False)
      | Some r \<Rightarrow>
          if \<not> live_session_state (gs_state r) \<or> \<not> later (gs_lease_expires_at r) now then (d, False)
          else (set_session (gs_id r)
                  (\<lambda>r. r\<lparr>gs_lease_expires_at := Some (now + timedelta lease_seconds)\<rparr>) d, True))"

definition open_session :: "rat \<Rightarrow> stolosio_session \<Rightarrow> time \<Rightarrow> db \<Rightarrow> db \<times> bool" where
  "open_session lease_seconds s now d =
     (case owned d s of
        None \<Rightarrow> (d, False)
      | Some r \<Rightarrow>
          if gs_state r \<noteq> S_Admitted \<or> \<not> later (gs_lease_expires_at r) now then (d, False)
          else (session_event_row (gs_id r) S_Open now None
                  (set_session (gs_id r)
                    (\<lambda>r. r\<lparr>gs_state := S_Open, gs_opened_at := Some now,
                           gs_lease_expires_at := Some (now + timedelta lease_seconds)\<rparr>) d), True))"

section \<open>Release\<close>

definition terminal_session_state :: "session_state \<Rightarrow> bool" where
  "terminal_session_state s \<longleftrightarrow> s \<in> {S_Closed, S_Failed}"

definition release_session :: "stolosio_session \<Rightarrow> bool \<Rightarrow> string \<Rightarrow> time \<Rightarrow> db \<Rightarrow> db \<times> bool" where
  "release_session s failed reason now d =
     (case owned d s of
        None \<Rightarrow> (d, False)
      | Some r \<Rightarrow>
          let cleanup_failed = (failed \<or> gs_state r = S_Failed);
              cleanup_reason = (if truthy (gs_terminal_reason r) then the (gs_terminal_reason r) else reason);
              d1 = fold (end_session_attempt now cleanup_failed cleanup_reason)
                     (sort_key aq_id (live_attempts_of d (gs_id r))) d
          in if terminal_session_state (gs_state r) then (d1, True)
             else
               let terminal = (if failed then S_Failed else S_Closed);
                   d2 = set_session (gs_id r)
                     (\<lambda>r. (if \<not> failed \<and> gs_state r = S_Open
                           then r\<lparr>gs_state := S_Closing, gs_closing_at := Some now\<rparr> else r)
                          \<lparr>gs_state := terminal, gs_closed_at := Some now, gs_lease_expires_at := None,
                           gs_terminal_reason := Some reason\<rparr>) d1
               in (session_event_row (gs_id r) terminal now (Some reason) d2, True))"

section \<open>Reads\<close>

definition read_session :: "db \<Rightarrow> string \<Rightarrow> (string \<times> string) list" where
  "read_session d sid =
     (case session_of d sid of
        None \<Rightarrow> []
      | Some r \<Rightarrow>
          [(''session_id'', gs_id r), (''owner_id'', gs_owner_id r),
           (''lease_token'', gs_lease_token r), (''state'', session_state_value (gs_state r))]
          @ (case gs_terminal_reason r of None \<Rightarrow> [] | Some x \<Rightarrow> [(''terminal_reason'', x)]))"

definition session_events :: "db \<Rightarrow> string \<Rightarrow> string list" where
  "session_events d sid =
     map ev_event_type (sort_key ev_id (filter (\<lambda>e. ev_session_id e = sid) (db_events d)))"

section \<open>What the loops do\<close>

lemma event_tables [simp, table_simps]:
  "db_sessions (session_attempt_event a ty now r d) = db_sessions d"
  "db_attempts (session_attempt_event a ty now r d) = db_attempts d"
  "db_instances (session_attempt_event a ty now r d) = db_instances d"
  "db_rates (session_attempt_event a ty now r d) = db_rates d"
  "db_next_queue (session_attempt_event a ty now r d) = db_next_queue d"
  "db_fleets (session_attempt_event a ty now r d) = db_fleets d"
  "db_limits (session_attempt_event a ty now r d) = db_limits d"
  "db_sessions (session_event_row sid st now r d) = db_sessions d"
  "db_attempts (session_event_row sid st now r d) = db_attempts d"
  "db_instances (session_event_row sid st now r d) = db_instances d"
  "db_rates (session_event_row sid st now r d) = db_rates d"
  "db_next_queue (session_event_row sid st now r d) = db_next_queue d"
  "db_fleets (session_event_row sid st now r d) = db_fleets d"
  "db_limits (session_event_row sid st now r d) = db_limits d"
  by (simp_all add: session_attempt_event_def session_event_row_def)

lemma add_event_snoc: "\<exists>e. db_events (add_event s a ty p r n pl d) = db_events d @ [e]"
  by (simp add: add_event_def)

lemma event_snoc:
  "\<exists>e. db_events (session_attempt_event a ty now r d) = db_events d @ [e]"
  "\<exists>e. db_events (session_event_row sid st now r d) = db_events d @ [e]"
  by (simp_all add: session_attempt_event_def session_event_row_def add_event_snoc)

lemma fold_events_extend:
  assumes "\<And>x d. \<exists>es. db_events (u x d) = db_events d @ es"
  shows "\<exists>es. db_events (fold u xs d) = db_events d @ es"
proof (induction xs arbitrary: d)
  case Nil
  show ?case by simp
next
  case (Cons x xs)
  obtain es where "db_events (fold u xs (u x d)) = db_events (u x d) @ es" using Cons.IH by blast
  moreover obtain fs where "db_events (u x d) = db_events d @ fs" using assms by blast
  ultimately show ?case by simp
qed

definition ended_row :: "cost_rate list \<Rightarrow> time \<Rightarrow> bool \<Rightarrow> string \<Rightarrow> acquisition_attempt \<Rightarrow> acquisition_attempt" where
  "ended_row rates now failed reason r =
     end_attempt (lookup cr_provider (aq_provider r) rates) now (if failed then A_Failed else A_Completed) reason r"

lemma ended_row_harmless: "live_attempt_state (aq_state a) \<Longrightarrow>
    attempt_harmless (ended_row rates now failed reason) a \<and> attempt_moves a (ended_row rates now failed reason a)"
  unfolding ended_row_def attempt_harmless_def
  by (auto intro: end_attempt_moves end_attempt_ok)

lemma ended_row_fields [simp, row_simps]:
  "aq_id (ended_row rates now failed reason r) = aq_id r"
  "aq_session_id (ended_row rates now failed reason r) = aq_session_id r"
  "aq_provider (ended_row rates now failed reason r) = aq_provider r"
  "aq_state (ended_row rates now failed reason r) = (if failed then A_Failed else A_Completed)"
  by (simp_all add: ended_row_def)

lemma end_session_attempt_tables [simp]:
  "db_attempts (end_session_attempt now failed reason a d) =
     upd_where (\<lambda>r. aq_id r = aq_id a) (ended_row (db_rates d) now failed reason) (db_attempts d)"
  "db_sessions (end_session_attempt now failed reason a d) = db_sessions d"
  "db_instances (end_session_attempt now failed reason a d) = db_instances d"
  "db_rates (end_session_attempt now failed reason a d) = db_rates d"
  "db_next_queue (end_session_attempt now failed reason a d) = db_next_queue d"
  "db_fleets (end_session_attempt now failed reason a d) = db_fleets d"
  "db_limits (end_session_attempt now failed reason a d) = db_limits d"
  by (simp_all add: end_session_attempt_def ended_row_def rate_of_def cong: upd_where_cong)

lemma fold_end_tables:
  fixes now failed reason xs d
  defines "d' \<equiv> fold (end_session_attempt now failed reason) xs d"
  shows "db_sessions d' = db_sessions d" "db_instances d' = db_instances d" "db_rates d' = db_rates d"
    "db_next_queue d' = db_next_queue d" "db_fleets d' = db_fleets d" "db_limits d' = db_limits d"
    "\<exists>es. db_events d' = db_events d @ es"
proof -
  show "db_sessions d' = db_sessions d" "db_instances d' = db_instances d" "db_rates d' = db_rates d"
    "db_next_queue d' = db_next_queue d" "db_fleets d' = db_fleets d" "db_limits d' = db_limits d"
    unfolding d'_def by (rule fold_keeps, simp)+
  have "\<exists>es. db_events (end_session_attempt now failed reason x e) = db_events e @ es" for x e
    by (simp add: end_session_attempt_def session_attempt_event_def add_event_def)
  then show "\<exists>es. db_events d' = db_events d @ es"
    unfolding d'_def by (rule fold_events_extend)
qed

definition live_in :: "(string \<Rightarrow> bool) \<Rightarrow> acquisition_attempt \<Rightarrow> bool" where
  "live_in S a \<longleftrightarrow> S (aq_session_id a) \<and> live_attempt_state (aq_state a)"

lemma fold_end_attempts:
  assumes dis: "distinct (map aq_id (db_attempts d))"
    and xs: "set xs = set (live_attempts_of d sid)" "distinct (map aq_id xs)"
  shows "db_attempts (fold (end_session_attempt now failed reason) xs d) =
    upd_where (live_in (\<lambda>i. i = sid)) (ended_row (db_rates d) now failed reason) (db_attempts d)"
proof -
  have "db_attempts (fold (end_session_attempt now failed reason) xs d) =
      upd_where (\<lambda>r. aq_id r \<in> aq_id ` set xs) (ended_row (db_rates d) now failed reason) (db_attempts d)"
    by (rule fold_set_attempts [OF _ _ _ xs(2)]) simp_all
  also have "\<dots> = upd_where (live_in (\<lambda>i. i = sid)) (ended_row (db_rates d) now failed reason) (db_attempts d)"
    by (rule upd_where_cong)
       (use id_in_filter [OF dis] in \<open>auto simp: xs(1) live_attempts_of_def live_in_def\<close>)
  finally show ?thesis .
qed

lemma live_attempts_distinct:
  assumes "distinct (map aq_id (db_attempts d))"
  shows "distinct (map aq_id (live_attempts_of d sid))" "distinct (map aq_id (sort_key aq_id (live_attempts_of d sid)))"
  using distinct_map_filter_sort [OF assms] by (simp_all add: live_attempts_of_def)

section \<open>Expiry in bulk\<close>

definition expired_session :: "time \<Rightarrow> gateway_session \<Rightarrow> gateway_session" where
  "expired_session now s = s\<lparr>gs_state := S_Failed, gs_closed_at := Some now, gs_lease_expires_at := None,
     gs_terminal_reason := Some ''session_lease_expired''\<rparr>"

lemma expired_session_simps [simp]:
  "gs_id (expired_session now s) = gs_id s" "gs_state (expired_session now s) = S_Failed"
  "gs_lease_expires_at (expired_session now s) = None" "gs_closed_at (expired_session now s) = Some now"
  "gs_owner_id (expired_session now s) = gs_owner_id s" "gs_lease_token (expired_session now s) = gs_lease_token s"
  by (simp_all add: expired_session_def)

lemma expire_session_tables:
  assumes dis: "distinct (map aq_id (db_attempts d))"
  shows "db_sessions (expire_session now r d) = upd_where (\<lambda>s. gs_id s = gs_id r) (expired_session now) (db_sessions d)"
    and "db_attempts (expire_session now r d) =
      upd_where (live_in (\<lambda>i. i = gs_id r)) (ended_row (db_rates d) now True ''session_lease_expired'') (db_attempts d)"
  using live_attempts_distinct [OF dis]
  by (simp_all add: expire_session_def Let_def fold_end_tables fold_end_attempts [OF dis] expired_session_def [abs_def])

lemma expire_session_same:
  "db_instances (expire_session now r d) = db_instances d"
  "db_rates (expire_session now r d) = db_rates d"
  "db_next_queue (expire_session now r d) = db_next_queue d"
  "db_fleets (expire_session now r d) = db_fleets d"
  "db_limits (expire_session now r d) = db_limits d"
  by (simp_all add: expire_session_def Let_def fold_end_tables)

lemma expire_session_events: "\<exists>es. db_events (expire_session now r d) = db_events d @ es"
proof -
  let ?d1 = "fold (end_session_attempt now True ''session_lease_expired'') (live_attempts_of d (gs_id r)) d"
  obtain es where "db_events ?d1 = db_events d @ es" using fold_end_tables(7) by blast
  then show ?thesis
    unfolding expire_session_def Let_def
    using event_snoc(2) by (metis append.assoc set_session_tables(7))
qed

lemma fold_expire_tables:
  assumes "distinct (map aq_id (db_attempts d))" "distinct (map gs_id rs)"
  shows "db_sessions (fold (expire_session now) rs d) =
      upd_where (\<lambda>s. gs_id s \<in> gs_id ` set rs) (expired_session now) (db_sessions d)
    \<and> db_attempts (fold (expire_session now) rs d) =
      upd_where (live_in (\<lambda>i. i \<in> gs_id ` set rs)) (ended_row (db_rates d) now True ''session_lease_expired'') (db_attempts d)"
  using assms
proof (induction rs arbitrary: d)
  case Nil
  show ?case by (simp add: upd_where_none live_in_def)
next
  case (Cons r rs)
  have d1: "distinct (map aq_id (db_attempts (expire_session now r d)))"
    using Cons.prems(1) by (simp add: expire_session_tables map_upd_where_key)
  from Cons.prems(2) have ids: "gs_id r \<notin> gs_id ` set rs" "distinct (map gs_id rs)" by auto
  show ?case
    using Cons.IH [OF d1 ids(2)] ids
    by (auto simp: expire_session_tables [OF Cons.prems(1)] expire_session_same upd_where_def live_in_def)
qed

lemma expire_stale_sessions_tables:
  assumes "wf_db d"
  shows "db_sessions (expire_stale_sessions now d) = upd_where (stale_session now) (expired_session now) (db_sessions d)"
    and "db_attempts (expire_stale_sessions now d) =
      upd_where (live_in (\<lambda>i. i \<in> gs_id ` set (filter (stale_session now) (db_sessions d))))
        (ended_row (db_rates d) now True ''session_lease_expired'') (db_attempts d)"
proof -
  let ?rs = "filter (stale_session now) (db_sessions d)"
  note dis = wf_dbD(1,2) [OF assms]
  have rs: "distinct (map gs_id ?rs)" using dis(1) by (rule distinct_map_filter_sort)
  note t = fold_expire_tables [OF dis(2) rs, of now]
  have "upd_where (\<lambda>s. gs_id s \<in> gs_id ` set ?rs) (expired_session now) (db_sessions d) =
      upd_where (stale_session now) (expired_session now) (db_sessions d)"
    by (rule upd_where_cong) (use dis(1) in \<open>auto simp: distinct_map inj_on_def\<close>)
  with t show "db_sessions (expire_stale_sessions now d) =
      upd_where (stale_session now) (expired_session now) (db_sessions d)"
    by (simp add: expire_stale_sessions_def)
  from t show "db_attempts (expire_stale_sessions now d) =
      upd_where (live_in (\<lambda>i. i \<in> gs_id ` set ?rs))
        (ended_row (db_rates d) now True ''session_lease_expired'') (db_attempts d)"
    by (simp add: expire_stale_sessions_def)
qed

lemma expire_stale_sessions_same [simp]:
  "db_instances (expire_stale_sessions now d) = db_instances d"
  "db_rates (expire_stale_sessions now d) = db_rates d"
  "db_next_queue (expire_stale_sessions now d) = db_next_queue d"
  "db_fleets (expire_stale_sessions now d) = db_fleets d"
  "db_limits (expire_stale_sessions now d) = db_limits d"
  unfolding expire_stale_sessions_def by (rule fold_keeps, rule expire_session_same)+

lemma expire_stale_sessions_events: "\<exists>es. db_events (expire_stale_sessions now d) = db_events d @ es"
  unfolding expire_stale_sessions_def by (rule fold_events_extend) (rule expire_session_events)

lemma expired_session_moves:
  "session_ok s \<Longrightarrow> stale_session now s \<Longrightarrow> session_ok (expired_session now s) \<and> session_moves s (expired_session now s)"
proof -
  assume "session_ok s" "stale_session now s"
  then have "live_session_state (gs_state s)" by (simp add: stale_session_def)
  then have "session_rank (gs_state s) \<noteq> 4" by (cases "gs_state s") simp_all
  then show ?thesis by (simp add: session_ok_def session_moves_def session_rank_le)
qed

lemma evolves_expire_stale_sessions: "evolves d (expire_stale_sessions now d)"
proof (cases "wf_db d")
  case True
  obtain es where es: "db_events (expire_stale_sessions now d) = db_events d @ es"
    using expire_stale_sessions_events by blast
  show ?thesis
    by (rule evolves_bulk [OF expire_stale_sessions_tables(1) [OF True] _ expire_stale_sessions_tables(2) [OF True]
          _ expire_stale_sessions_same(1,3) es])
       (simp_all add: live_in_def expired_session_moves ended_row_harmless)
qed (simp add: evolves_def)

section \<open>Every operation evolves the database\<close>

lemma owned_Some:
  "owned d s = Some r \<Longrightarrow> r \<in> set (db_sessions d) \<and> gs_id r = ss_session_id s
     \<and> gs_owner_id r = ss_owner_id s \<and> gs_lease_token r = ss_lease_token s"
  unfolding owned_def find_Some_iff owned_row_def by (metis nth_mem)

lemma session_key_unique:
  "wf_db d \<Longrightarrow> r \<in> set (db_sessions d) \<Longrightarrow> s \<in> set (db_sessions d) \<Longrightarrow> gs_id s = gs_id r \<Longrightarrow> s = r"
  using wf_dbD(1) by (auto simp: distinct_map inj_on_def)

lemma attempt_key_unique:
  "wf_db d \<Longrightarrow> a \<in> set (db_attempts d) \<Longrightarrow> b \<in> set (db_attempts d) \<Longrightarrow> aq_id b = aq_id a \<Longrightarrow> b = a"
  using wf_dbD(2) by (auto simp: distinct_map inj_on_def)

lemma evolves_write_session:
  assumes "r \<in> set (db_sessions d)" "session_ok r \<Longrightarrow> session_ok (f r) \<and> session_moves r (f r)"
  shows "evolves d (set_session (gs_id r) f d)"
proof (cases "wf_db d")
  case True
  show ?thesis by (rule evolves_set_session) (use session_key_unique [OF True assms(1)] assms(2) in blast)
qed (simp add: evolves_def)

lemma evolves_session_event [simp]: "evolves d (session_event_row sid st now r d)"
  by (simp add: session_event_row_def)

lemma lease_moves:
  "live_session_state (gs_state r) \<Longrightarrow> session_ok r \<Longrightarrow>
   session_ok (r\<lparr>gs_lease_expires_at := Some t\<rparr>) \<and> session_moves r (r\<lparr>gs_lease_expires_at := Some t\<rparr>)"
proof -
  assume l: "live_session_state (gs_state r)" and ok: "session_ok r"
  from l have "session_rank (gs_state r) \<noteq> 4" by (cases "gs_state r") simp_all
  with l ok show ?thesis by (simp add: session_ok_def session_moves_def)
qed

lemma evolves_heartbeat: "evolves d (fst (heartbeat lease s now d))"
proof (cases "owned d s")
  case None
  then show ?thesis by (simp add: heartbeat_def)
next
  case (Some r)
  note in_d = owned_Some [OF Some, THEN conjunct1]
  show ?thesis
    by (auto simp: heartbeat_def Some intro!: evolves_write_session [OF in_d] lease_moves)
qed

lemma evolves_open: "evolves d (fst (open_session lease s now d))"
proof (cases "owned d s")
  case None
  then show ?thesis by (simp add: open_session_def)
next
  case (Some r)
  note in_d = owned_Some [OF Some, THEN conjunct1]
  have "evolves d (set_session (gs_id r)
      (\<lambda>r. r\<lparr>gs_state := S_Open, gs_opened_at := Some now, gs_lease_expires_at := Some (now + timedelta lease)\<rparr>) d)"
    if "gs_state r = S_Admitted"
    by (rule evolves_write_session [OF in_d]) (use that in \<open>simp add: session_ok_def session_moves_def\<close>)
  then show ?thesis
    by (auto simp: open_session_def Some intro: evolves_trans [OF _ evolves_session_event])
qed

lemma release_sessions_attempts:
  fixes failed :: bool and reason :: string and now :: time
  assumes wf: "wf_db d" and r: "owned d s = Some r"
  defines "d' \<equiv> fst (release_session s failed reason now d)"
  defines "why \<equiv> if truthy (gs_terminal_reason r) then the (gs_terminal_reason r) else reason"
  shows "db_attempts d' = upd_where (live_in (\<lambda>i. i = gs_id r))
      (ended_row (db_rates d) now (failed \<or> gs_state r = S_Failed) why) (db_attempts d)"
    and "db_instances d' = db_instances d" "db_next_queue d' = db_next_queue d"
    and "\<exists>es. db_events d' = db_events d @ es"
proof -
  note dis = wf_dbD(2) [OF wf]
  let ?xs = "sort_key aq_id (live_attempts_of d (gs_id r))"
  let ?d1 = "fold (end_session_attempt now (failed \<or> gs_state r = S_Failed) why) ?xs d"
  have att: "db_attempts ?d1 = upd_where (live_in (\<lambda>i. i = gs_id r))
      (ended_row (db_rates d) now (failed \<or> gs_state r = S_Failed) why) (db_attempts d)"
    by (rule fold_end_attempts [OF dis _ live_attempts_distinct(2) [OF dis]]) simp
  obtain es where es: "db_events ?d1 = db_events d @ es" using fold_end_tables(7) by blast
  have d': "d' = ?d1 \<or> (\<exists>f st rs. d' = session_event_row (gs_id r) st now rs (set_session (gs_id r) f ?d1))"
    unfolding d'_def why_def by (simp add: release_session_def r Let_def) blast
  then show "db_attempts d' = upd_where (live_in (\<lambda>i. i = gs_id r))
      (ended_row (db_rates d) now (failed \<or> gs_state r = S_Failed) why) (db_attempts d)"
    "db_instances d' = db_instances d" "db_next_queue d' = db_next_queue d"
    using att by (auto simp: fold_end_tables)
  show "\<exists>es. db_events d' = db_events d @ es"
    using d' es by (auto simp: session_event_row_def add_event_def)
qed

definition released_row :: "bool \<Rightarrow> string \<Rightarrow> time \<Rightarrow> gateway_session \<Rightarrow> gateway_session" where
  "released_row failed reason now r =
     (if terminal_session_state (gs_state r) then r
      else (if \<not> failed \<and> gs_state r = S_Open
            then r\<lparr>gs_state := S_Closing, gs_closing_at := Some now\<rparr> else r)
           \<lparr>gs_state := (if failed then S_Failed else S_Closed), gs_closed_at := Some now,
            gs_lease_expires_at := None, gs_terminal_reason := Some reason\<rparr>)"

lemma release_sessions:
  assumes wf: "wf_db d" and r: "owned d s = Some r"
  shows "db_sessions (fst (release_session s failed reason now d)) =
    upd_where (\<lambda>x. gs_id x = gs_id r) (released_row failed reason now) (db_sessions d)"
proof -
  note in_d = owned_Some [OF r, THEN conjunct1]
  have one: "x = r" if "x \<in> set (db_sessions d)" "gs_id x = gs_id r" for x
    using session_key_unique [OF wf in_d] that by blast
  show ?thesis
  proof (cases "terminal_session_state (gs_state r)")
    case True
    have "upd_where (\<lambda>x. gs_id x = gs_id r) (released_row failed reason now) (db_sessions d) = db_sessions d"
      unfolding upd_where_def by (rule map_idI) (metis one True released_row_def)
    with True show ?thesis by (simp add: release_session_def r Let_def fold_end_tables)
  next
    case False
    have "db_sessions (fst (release_session s failed reason now d)) =
        upd_where (\<lambda>x. gs_id x = gs_id r)
          (\<lambda>x. (if \<not> failed \<and> gs_state x = S_Open
                then x\<lparr>gs_state := S_Closing, gs_closing_at := Some now\<rparr> else x)
               \<lparr>gs_state := (if failed then S_Failed else S_Closed), gs_closed_at := Some now,
                gs_lease_expires_at := None, gs_terminal_reason := Some reason\<rparr>) (db_sessions d)"
      using False by (simp add: release_session_def r Let_def fold_end_tables)
    also have "\<dots> = upd_where (\<lambda>x. gs_id x = gs_id r) (released_row failed reason now) (db_sessions d)"
      by (rule upd_where_cong [OF refl], drule (1) one) (use False in \<open>simp add: released_row_def\<close>)
    finally show ?thesis .
  qed
qed

lemma released_moves: "session_ok r \<Longrightarrow> session_ok (released_row failed reason now r) \<and> session_moves r (released_row failed reason now r)"
proof (cases "terminal_session_state (gs_state r)")
  case True
  then show "session_ok r \<Longrightarrow> ?thesis" by (simp add: released_row_def)
next
  case False
  then have "session_rank (gs_state r) \<noteq> 4"
    by (auto simp: terminal_session_state_def elim: session_rank.elims)
  with False show "session_ok r \<Longrightarrow> ?thesis"
    using session_rank_le [of "gs_state r"] by (simp add: released_row_def session_ok_def session_moves_def)
qed

lemma evolves_release: "evolves d (fst (release_session s failed reason now d))"
proof (cases "wf_db d")
  case wf: True
  show ?thesis
  proof (cases "owned d s")
    case None
    then show ?thesis by (simp add: release_session_def)
  next
    case (Some r)
    obtain es where es: "db_events (fst (release_session s failed reason now d)) = db_events d @ es"
      using release_sessions_attempts(4) [OF wf Some] by blast
    show ?thesis
      by (rule evolves_bulk [OF release_sessions [OF wf Some] _ release_sessions_attempts(1) [OF wf Some] _
            release_sessions_attempts(2,3) [OF wf Some] es])
         (simp_all add: released_moves ended_row_harmless live_in_def)
  qed
qed (simp add: evolves_def)

section \<open>Admission\<close>

definition admitted_row ::
  "rat \<Rightarrow> stolosio_session \<Rightarrow> json \<Rightarrow> string option \<Rightarrow> time \<Rightarrow> gateway_session" where
  "admitted_row lease s req ref now = (new_session_row s req ref now)
     \<lparr>gs_state := S_Admitted, gs_admitted_at := Some now, gs_lease_expires_at := Some (now + timedelta lease)\<rparr>"

definition refused_row :: "stolosio_session \<Rightarrow> json \<Rightarrow> string option \<Rightarrow> time \<Rightarrow> gateway_session" where
  "refused_row s req ref now = (new_session_row s req ref now)
     \<lparr>gs_state := S_Failed, gs_closed_at := Some now, gs_terminal_reason := Some ''gateway_capacity_full''\<rparr>"

lemma admission_rows [simp]:
  "gs_id (admitted_row l s q c now) = ss_session_id s" "gs_id (refused_row s q c now) = ss_session_id s"
  "gs_state (admitted_row l s q c now) = S_Admitted" "gs_state (refused_row s q c now) = S_Failed"
  "session_ok (admitted_row l s q c now)" "session_ok (refused_row s q c now)"
  by (simp_all add: admitted_row_def refused_row_def new_session_row_def session_ok_def)

lemma conflict_fresh: "\<not> session_conflict d s ref \<Longrightarrow> ss_session_id s \<notin> gs_id ` set (db_sessions d)"
  by (auto simp: session_conflict_def list_ex_iff)

lemma active_count_new:
  "session_active_count (d\<lparr>db_sessions := db_sessions d @ [new_session_row s req ref now]\<rparr>) now =
     session_active_count d now"
  by (simp add: session_active_count_def session_live_def new_session_row_def)

text \<open>The two outcomes of admission, with the whole effect of each on the tables.\<close>

lemma admit_cases:
  assumes "admit lease s m req ref now d = Inr (d', st)"
  defines "d1 \<equiv> expire_stale_sessions now (lock_gateway d)"
  shows "\<not> session_conflict d1 s ref"
    and "st = SA_ADMITTED \<longleftrightarrow> int (session_active_count d1 now) < m"
    and "db_sessions d' = db_sessions d1
      @ [if st = SA_ADMITTED then admitted_row lease s req ref now else refused_row s req ref now]"
    and "db_attempts d' = db_attempts d1" "db_instances d' = db_instances d1"
    and "db_next_queue d' = db_next_queue d1" "\<exists>es. db_events d' = db_events d1 @ es"
proof -
  show c: "\<not> session_conflict d1 s ref"
    using assms(1) by (auto simp: admit_def d1_def split: if_splits)
  note fresh = conflict_fresh [OF c]
  have snoc: "upd_where (\<lambda>r. gs_id r = ss_session_id s) f (db_sessions d1) = db_sessions d1" for f
    by (rule upd_where_none) (use fresh in \<open>metis imageI\<close>)
  have new: "gs_id (new_session_row s req ref now) = ss_session_id s" by (simp add: new_session_row_def)
  note a = assms(1) [unfolded admit_def, folded d1_def]
  show "st = SA_ADMITTED \<longleftrightarrow> int (session_active_count d1 now) < m"
    using a c by (auto simp: Let_def active_count_new split: if_splits)
  show "db_sessions d' = db_sessions d1
      @ [if st = SA_ADMITTED then admitted_row lease s req ref now else refused_row s req ref now]"
    using a c by (auto simp: Let_def snoc new admitted_row_def refused_row_def split: if_splits)
  show "db_attempts d' = db_attempts d1" "db_instances d' = db_instances d1"
    "db_next_queue d' = db_next_queue d1"
    using a c by (auto simp: Let_def split: if_splits)
  show "\<exists>es. db_events d' = db_events d1 @ es"
    using a c by (auto simp: Let_def session_event_row_def add_event_def split: if_splits)
qed

lemma evolves_admit: "admit lease s m req ref now d = Inr (d', st) \<Longrightarrow> evolves d d'"
proof -
  assume a: "admit lease s m req ref now d = Inr (d', st)"
  let ?d1 = "expire_stale_sessions now (lock_gateway d)"
  note c = admit_cases [OF a]
  obtain es where es: "db_events d' = db_events ?d1 @ es" using c(7) by blast
  have "evolves ?d1 d'"
    by (rule evolves_insert_session [OF _ _ c(3-6) es]) (use conflict_fresh [OF c(1)] in auto)
  then show ?thesis
    by (meson evolves_trans evolves_lock(2) evolves_expire_stale_sessions)
qed

text \<open>After the expiry sweep a session is live exactly when its lease is current.\<close>

definition live_sessions :: "db \<Rightarrow> nat" where
  "live_sessions d = count_where (\<lambda>s. live_session_state (gs_state s)) (db_sessions d)"

lemma swept_sessions:
  assumes wf: "wf_db d" and "s \<in> set (db_sessions (expire_stale_sessions now d))"
  shows "session_live now s \<longleftrightarrow> live_session_state (gs_state s)"
proof -
  from assms(2) obtain r where r: "r \<in> set (db_sessions d)"
    "s = (if stale_session now r then expired_session now r else r)"
    by (auto simp: expire_stale_sessions_tables [OF wf] set_upd_where)
  show ?thesis
    using r(2) session_ok_live [OF wf_dbD(4) [OF wf r(1)]]
    by (auto simp: session_live_def stale_session_def later_def split: option.splits if_splits)
qed

lemma swept_count:
  assumes "wf_db d"
  shows "session_active_count (expire_stale_sessions now d) now = live_sessions (expire_stale_sessions now d)"
  unfolding session_active_count_def live_sessions_def
  by (rule count_where_cong) (rule swept_sessions [OF assms])

lemma live_sessions_sweep: "wf_db d \<Longrightarrow> live_sessions (expire_stale_sessions now d) \<le> live_sessions d"
  unfolding live_sessions_def expire_stale_sessions_tables
  by (rule count_upd_where_le) simp

lemma admit_live_sessions:
  assumes wf: "wf_db d" and a: "admit lease s m req ref now d = Inr (d', st)"
  shows "live_sessions d' = live_sessions (expire_stale_sessions now (lock_gateway d)) + (if st = SA_ADMITTED then 1 else 0)"
    and "st = SA_ADMITTED \<longleftrightarrow> int (live_sessions (expire_stale_sessions now (lock_gateway d))) < m"
proof -
  show "live_sessions d' = live_sessions (expire_stale_sessions now (lock_gateway d)) + (if st = SA_ADMITTED then 1 else 0)"
    by (simp add: live_sessions_def admit_cases(3) [OF a])
  show "st = SA_ADMITTED \<longleftrightarrow> int (live_sessions (expire_stale_sessions now (lock_gateway d))) < m"
    using admit_cases(2) [OF a] swept_count [of "lock_gateway d" now] wf by simp
qed

end
