(* ===== verification/Attempts.thy ===== *)
theory Attempts
  imports Sessions
begin

text \<open>
  The attempt repository (\<^verbatim>\<open>backend/proxy/postgres/attempts.py\<close>): one provider queue per
  provider in PostgreSQL. \<open>enqueue\<close> acquires at once when nobody waits and a slot is free,
  queues while the queue has room, and fails the attempt otherwise; \<open>claim\<close> lets only the
  head of the queue take a free slot; \<open>activate\<close>, \<open>bind_provider_session\<close>,
  \<open>record_provider_usage\<close> and \<open>finish\<close> move one attempt through its lifecycle.
\<close>

section \<open>Joins with the session table\<close>

definition attempt_session_live :: "db \<Rightarrow> time \<Rightarrow> acquisition_attempt \<Rightarrow> bool" where
  "attempt_session_live d now a \<longleftrightarrow>
     (case session_of d (aq_session_id a) of
        None \<Rightarrow> False
      | Some s \<Rightarrow> attempt_live_session_state (gs_state s) \<and> later (gs_lease_expires_at s) now)"

definition attempt_count :: "db \<Rightarrow> provider_name \<Rightarrow> (attempt_state \<Rightarrow> bool) \<Rightarrow> time \<Rightarrow> nat" where
  "attempt_count d p states now =
     count_where (\<lambda>a. aq_provider a = p \<and> states (aq_state a) \<and> attempt_session_live d now a) (db_attempts d)"

definition owned_session :: "db \<Rightarrow> stolosio_session \<Rightarrow> time \<Rightarrow> gateway_session option" where
  "owned_session d s now =
     find (\<lambda>r. owned_row s r \<and> attempt_live_session_state (gs_state r) \<and> later (gs_lease_expires_at r) now)
       (db_sessions d)"

section \<open>Slots of managed instances\<close>

definition instance_occupied :: "db \<Rightarrow> time \<Rightarrow> string \<Rightarrow> nat" where
  "instance_occupied d now i =
     count_where (\<lambda>a. aq_instance_id a = Some i \<and> active_attempt_state (aq_state a)
        \<and> attempt_session_live d now a) (db_attempts d)"

definition select_instance :: "db \<Rightarrow> provider_name \<Rightarrow> time \<Rightarrow> provider_instance option" where
  "select_instance d p now =
     (let instances = sort_key pi_id
            (filter (\<lambda>i. pi_provider i = p \<and> pi_state i = FI_Ready \<and> now < pi_observation_expires_at i)
               (db_instances d));
          candidates = filter (\<lambda>(occupied, i). int occupied < pi_capacity i)
            (map (\<lambda>i. (instance_occupied d now (pi_id i), i)) instances)
      in map_option snd (max_by (\<lambda>(occupied, i). (occupied, pi_id i)) candidates))"

section \<open>Events and expiry\<close>

definition attempt_event :: "acquisition_attempt \<Rightarrow> string \<Rightarrow> time \<Rightarrow> string option \<Rightarrow> db \<Rightarrow> db" where
  "attempt_event a ty now reason d =
     add_event (aq_session_id a) (Some (aq_id a)) ty (Some (aq_provider a)) reason now
       ((case reason of None \<Rightarrow> [] | Some x \<Rightarrow> [(''reason'', JStr x)])
        @ (case aq_modeled_cost_units a of None \<Rightarrow> [] | Some c \<Rightarrow> [(''cost_units'', JInt c)])) d"

text \<open>Write one attempt row and the event that reads the written row.\<close>

definition write_attempt ::
  "(acquisition_attempt \<Rightarrow> acquisition_attempt) \<Rightarrow> string \<Rightarrow> time \<Rightarrow> string option
     \<Rightarrow> acquisition_attempt \<Rightarrow> db \<Rightarrow> db" where
  "write_attempt f ty now reason a d =
     attempt_event (f a) ty now reason (set_attempt (aq_id a) f d)"

definition stale_attempt :: "db \<Rightarrow> provider_name \<Rightarrow> time \<Rightarrow> acquisition_attempt \<Rightarrow> bool" where
  "stale_attempt d p now a \<longleftrightarrow> aq_provider a = p \<and> live_attempt_state (aq_state a)
     \<and> (case session_of d (aq_session_id a) of
          None \<Rightarrow> False
        | Some s \<Rightarrow> \<not> attempt_live_session_state (gs_state s)
            \<or> gs_lease_expires_at s = None \<or> \<not> later (gs_lease_expires_at s) now)"

definition expire_stale_attempts :: "provider_name \<Rightarrow> time \<Rightarrow> db \<Rightarrow> db" where
  "expire_stale_attempts p now d =
     fold (\<lambda>a d. write_attempt
                   (\<lambda>r. end_attempt (rate_of d (aq_provider r)) now A_Failed ''session_lease_expired'' r)
                   ''attempt.failed'' now (Some ''session_lease_expired'') a d)
       (sort_key aq_id (filter (stale_attempt d p now) (db_attempts d))) d"

definition attempt_contract :: "acquisition_attempt \<Rightarrow> string option \<Rightarrow> provider_attempt" where
  "attempt_contract r endpoint =
     \<lparr>pa_attempt_id = aq_id r, pa_session_id = aq_session_id r, pa_ordinal = aq_ordinal r,
      pa_provider = aq_provider r, pa_state = aq_state r, pa_instance_id = aq_instance_id r,
      pa_endpoint = endpoint\<rparr>"

section \<open>Enqueue\<close>

definition next_ordinal :: "db \<Rightarrow> string \<Rightarrow> int" where
  "next_ordinal d sid =
     fold max (map aq_ordinal (filter (\<lambda>a. aq_session_id a = sid) (db_attempts d))) 0 + 1"

definition new_attempt_row ::
  "db \<Rightarrow> stolosio_session \<Rightarrow> string \<Rightarrow> provider_name \<Rightarrow> json \<Rightarrow> json \<Rightarrow> time \<Rightarrow> acquisition_attempt" where
  "new_attempt_row d s aid p resolved sources now =
     \<lparr>aq_id = aid, aq_session_id = ss_session_id s, aq_ordinal = next_ordinal d (ss_session_id s),
      aq_provider = p, aq_instance_id = None, aq_provider_session_id = None,
      aq_resolved_settings = resolved, aq_setting_sources = sources, aq_state = A_Requested,
      aq_queue_sequence = db_next_queue d, aq_created_at = now, aq_queued_at = None,
      aq_acquiring_at = None, aq_active_at = None, aq_finished_at = None,
      aq_provider_started_at = None, aq_provider_ended_at = None, aq_capacity_occupied_ms = None,
      aq_browser_connected_ms = None, aq_provider_reported_ms = None, aq_chargeable_time_ms = None,
      aq_cost_basis = None, aq_cost_rate = None, aq_terminal_reason = None, aq_domain_id = None,
      aq_modeled_cost_units = None, aq_command_summary = None, aq_phase_summary = None,
      aq_command_cost_projected = False, aq_cost_projected = False\<rparr>"

definition insert_attempt :: "acquisition_attempt \<Rightarrow> db \<Rightarrow> db" where
  "insert_attempt row d =
     d\<lparr>db_attempts := db_attempts d @ [row], db_next_queue := db_next_queue d + 1\<rparr>"

text \<open>The capacity a provider offers: \<open>(managed, enabled, max_active, max_queued)\<close>; a managed
  fleet's active limit is its instances' slots and is never read from the pair.\<close>

definition provider_capacity :: "db \<Rightarrow> provider_name \<Rightarrow> (bool \<times> bool \<times> int \<times> int) option" where
  "provider_capacity d p =
     (case fleet_of d p of
        Some f \<Rightarrow> Some (True, pf_enabled f, 0, if pf_enabled f then pf_max_queued f else 0)
      | None \<Rightarrow>
          (case limit_of d p of
             Some l \<Rightarrow> Some (False, xl_enabled l, if xl_enabled l then xl_max_active l else 0,
                             if xl_enabled l then xl_max_queued l else 0)
           | None \<Rightarrow> None))"

definition acquire_row :: "time \<Rightarrow> provider_instance option \<Rightarrow> acquisition_attempt \<Rightarrow> acquisition_attempt" where
  "acquire_row now inst r =
     r\<lparr>aq_state := A_Acquiring, aq_acquiring_at := Some now, aq_instance_id := map_option pi_id inst\<rparr>"

definition queue_row :: "time \<Rightarrow> acquisition_attempt \<Rightarrow> acquisition_attempt" where
  "queue_row now r = r\<lparr>aq_state := A_Queued, aq_queued_at := Some now\<rparr>"

definition full_row :: "time \<Rightarrow> acquisition_attempt \<Rightarrow> acquisition_attempt" where
  "full_row now r =
     r\<lparr>aq_state := A_Failed, aq_finished_at := Some now, aq_terminal_reason := Some ''provider_queue_full''\<rparr>"

text \<open>The decision on a freshly inserted row.\<close>

definition place_attempt ::
  "db \<Rightarrow> acquisition_attempt \<Rightarrow> time \<Rightarrow> (bool \<times> bool \<times> int \<times> int) \<Rightarrow> db \<times> admission_status \<times> provider_attempt" where
  "place_attempt d row now cap =
     (let (managed, enabled, max_active, max_queued) = cap;
          p = aq_provider row;
          queued = attempt_count d p (\<lambda>s. s = A_Queued) now;
          inst = (if managed \<and> enabled \<and> queued = 0 then select_instance d p now else None);
          active = attempt_count d p active_attempt_state now;
          can_acquire = (queued = 0 \<and> (if managed then inst \<noteq> None else int active < max_active))
      in if can_acquire
         then (set_attempt (aq_id row) (acquire_row now inst) d, ADM_ACQUIRING,
               attempt_contract (acquire_row now inst row) (map_option pi_endpoint inst))
         else if int queued < max_queued
         then (set_attempt (aq_id row) (queue_row now) d, ADM_QUEUED,
               attempt_contract (queue_row now row) (map_option pi_endpoint inst))
         else (write_attempt (full_row now) ''attempt.failed'' now (Some ''provider_queue_full'') row d, ADM_FULL,
               attempt_contract (full_row now row) (map_option pi_endpoint inst)))"

definition source_error :: "string option \<Rightarrow> acquisition_attempt list \<Rightarrow> db_error option" where
  "source_error replacement live =
     (case replacement of
        None \<Rightarrow> if live \<noteq> [] then Some (RuntimeError ''Stolosio session already has a live acquisition attempt'')
                else None
      | Some r \<Rightarrow>
          (case live of
             [a] \<Rightarrow> if aq_id a \<noteq> r \<or> aq_state a \<noteq> A_Active
                    then Some (RuntimeError ''Stolosio transition source is not the session's active attempt'')
                    else None
           | _ \<Rightarrow> Some (RuntimeError ''Stolosio transition source is not the session's active attempt'')))"

definition enqueue ::
  "stolosio_session \<Rightarrow> string \<Rightarrow> provider_name \<Rightarrow> json \<Rightarrow> json \<Rightarrow> string option \<Rightarrow> time \<Rightarrow> db
     \<Rightarrow> (db \<times> admission_status \<times> provider_attempt) result" where
  "enqueue s aid p resolved sources replacement now d =
     (if owned_session d s now = None then Inl (RuntimeError ''Stolosio session lease is not active'')
      else
        let d1 = expire_stale_attempts p now (lock_provider p d)
        in case source_error replacement (live_attempts_of d1 (ss_session_id s)) of
             Some e \<Rightarrow> Inl e
           | None \<Rightarrow>
               if list_ex (\<lambda>a. aq_id a = aid) (db_attempts d1) then Inl IntegrityError
               else
                 let row = new_attempt_row d1 s aid p resolved sources now;
                     d2 = insert_attempt row d1
                 in case provider_capacity d2 p of
                      None \<Rightarrow> Inl (RuntimeError (''Provider capacity is not configured for '' @ provider_value p))
                    | Some cap \<Rightarrow> Inr (place_attempt d2 row now cap))"

section \<open>Claim\<close>

definition queue_order :: "db \<Rightarrow> provider_name \<Rightarrow> time \<Rightarrow> acquisition_attempt list" where
  "queue_order d p now =
     sort_key aq_queue_sequence
       (filter (\<lambda>a. aq_provider a = p \<and> aq_state a = A_Queued \<and> attempt_session_live d now a) (db_attempts d))"

definition queue_head :: "db \<Rightarrow> provider_name \<Rightarrow> time \<Rightarrow> string option" where
  "queue_head d p now = (case queue_order d p now of [] \<Rightarrow> None | a # _ \<Rightarrow> Some (aq_id a))"

definition queue_ids :: "db \<Rightarrow> provider_name \<Rightarrow> time \<Rightarrow> string list" where
  "queue_ids d p now = map aq_id (queue_order d p now)"

definition claim_row ::
  "db \<Rightarrow> acquisition_attempt \<Rightarrow> provider_name \<Rightarrow> provider_instance option \<Rightarrow> time
     \<Rightarrow> db \<times> provider_attempt option" where
  "claim_row d row p inst now =
     (set_attempt (aq_id row) (acquire_row now inst) d,
      Some (attempt_contract (acquire_row now inst row) (map_option pi_endpoint inst)))"

definition claim ::
  "stolosio_session \<Rightarrow> provider_attempt \<Rightarrow> time \<Rightarrow> db \<Rightarrow> (db \<times> provider_attempt option) result" where
  "claim s att now d =
     (if owned_session d s now = None then Inr (d, None)
      else
        let p = pa_provider att;
            d1 = expire_stale_attempts p now (lock_provider p d)
        in case find (\<lambda>a. aq_id a = pa_attempt_id att \<and> aq_session_id a = ss_session_id s) (db_attempts d1) of
             None \<Rightarrow> Inr (d1, None)
           | Some row \<Rightarrow>
               if aq_state row \<noteq> A_Queued then Inr (d1, None)
               else if queue_head d1 p now \<noteq> Some (pa_attempt_id att) then Inr (d1, None)
               else
                 (case (fleet_of d1 p, limit_of d1 p) of
                    (None, None) \<Rightarrow>
                      Inl (RuntimeError (''Provider capacity is not configured for '' @ provider_value p))
                  | (managed, external) \<Rightarrow>
                      if (case external of Some l \<Rightarrow> \<not> xl_enabled l | None \<Rightarrow> False) then Inr (d1, None)
                      else
                        (case managed of
                           Some f \<Rightarrow>
                             (case (if pf_enabled f then select_instance d1 p now else None) of
                                None \<Rightarrow> Inr (d1, None)
                              | Some i \<Rightarrow> Inr (claim_row d1 row p (Some i) now))
                         | None \<Rightarrow>
                             (case external of
                                None \<Rightarrow> Inr (d1, None)
                              | Some l \<Rightarrow>
                                  if xl_max_active l \<le> int (attempt_count d1 p active_attempt_state now)
                                  then Inr (d1, None)
                                  else Inr (claim_row d1 row p None now)))))"

section \<open>Activation, provider facts, finish\<close>

definition activate :: "provider_attempt \<Rightarrow> time \<Rightarrow> db \<Rightarrow> db \<times> bool" where
  "activate att now d =
     (case attempt_of d (pa_attempt_id att) of
        None \<Rightarrow> (d, False)
      | Some r \<Rightarrow>
          if aq_state r \<noteq> A_Acquiring then (d, False)
          else (write_attempt (\<lambda>r. r\<lparr>aq_state := A_Active, aq_active_at := Some now\<rparr>)
                  ''attempt.connected'' now None r d, True))"

definition bind_provider_session ::
  "provider_attempt \<Rightarrow> string option \<Rightarrow> time option \<Rightarrow> db \<Rightarrow> db" where
  "bind_provider_session att provider_session_id provider_started_at d =
     (case attempt_of d (pa_attempt_id att) of
        None \<Rightarrow> d
      | Some r \<Rightarrow> set_attempt (aq_id r)
          (\<lambda>r. r\<lparr>aq_provider_session_id := provider_session_id,
                 aq_provider_started_at := provider_started_at\<rparr>) d)"

definition record_provider_usage :: "provider_attempt \<Rightarrow> time option \<Rightarrow> time \<Rightarrow> db \<Rightarrow> db" where
  "record_provider_usage att ended now d =
     (case attempt_of d (pa_attempt_id att) of
        None \<Rightarrow> d
      | Some r \<Rightarrow>
          let e = (case ended of None \<Rightarrow> now | Some t \<Rightarrow> t)
          in set_attempt (aq_id r)
               (\<lambda>r. (r\<lparr>aq_provider_ended_at := Some e\<rparr>)
                 \<lparr>aq_provider_reported_ms :=
                   (case aq_provider_started_at r of None \<Rightarrow> aq_provider_reported_ms r
                    | Some s \<Rightarrow> Some (max 0 (elapsed_ms s e)))\<rparr>) d)"

definition finish_attempt ::
  "provider_attempt \<Rightarrow> bool \<Rightarrow> string \<Rightarrow> json option \<Rightarrow> json option \<Rightarrow> time \<Rightarrow> db \<Rightarrow> db \<times> bool" where
  "finish_attempt att failed reason commands phases now d =
     (let d1 = lock_provider (pa_provider att) d
      in case attempt_of d1 (pa_attempt_id att) of
           None \<Rightarrow> (d1, False)
         | Some r \<Rightarrow>
             if aq_state r = A_Completed \<or> aq_state r = A_Failed then (d1, True)
             else (write_attempt
                     (\<lambda>r. (end_attempt (rate_of d1 (aq_provider r)) now
                             (if failed then A_Failed else A_Completed) reason r)
                          \<lparr>aq_command_summary := commands, aq_phase_summary := phases\<rparr>)
                     (if failed then ''attempt.failed'' else ''attempt.closed'') now
                     (if failed then Some reason else None) r d1, True))"

definition attempt_active_count :: "db \<Rightarrow> provider_name \<Rightarrow> time \<Rightarrow> nat" where
  "attempt_active_count d p now = attempt_count d p active_attempt_state now"

section \<open>The expiry sweep of one provider\<close>

lemma write_attempt_tables [simp, table_simps]:
  "db_attempts (write_attempt f ty now why a d) = upd_where (\<lambda>r. aq_id r = aq_id a) f (db_attempts d)"
  "db_sessions (write_attempt f ty now why a d) = db_sessions d"
  "db_instances (write_attempt f ty now why a d) = db_instances d"
  "db_rates (write_attempt f ty now why a d) = db_rates d"
  "db_next_queue (write_attempt f ty now why a d) = db_next_queue d"
  "db_fleets (write_attempt f ty now why a d) = db_fleets d"
  "db_limits (write_attempt f ty now why a d) = db_limits d"
  by (simp_all add: write_attempt_def attempt_event_def)

lemma write_attempt_events: "\<exists>es. db_events (write_attempt f ty now why a d) = db_events d @ es"
  by (simp add: write_attempt_def attempt_event_def add_event_def)

lemma expire_stale_attempts_same [simp]:
  "db_sessions (expire_stale_attempts p now d) = db_sessions d"
  "db_instances (expire_stale_attempts p now d) = db_instances d"
  "db_rates (expire_stale_attempts p now d) = db_rates d"
  "db_next_queue (expire_stale_attempts p now d) = db_next_queue d"
  "db_fleets (expire_stale_attempts p now d) = db_fleets d"
  "db_limits (expire_stale_attempts p now d) = db_limits d"
  unfolding expire_stale_attempts_def by (rule fold_keeps, simp)+

lemma expire_stale_attempts_events: "\<exists>es. db_events (expire_stale_attempts p now d) = db_events d @ es"
  unfolding expire_stale_attempts_def by (rule fold_events_extend) (rule write_attempt_events)

lemma expire_stale_attempts_table:
  assumes "wf_db d"
  shows "db_attempts (expire_stale_attempts p now d) =
    upd_where (stale_attempt d p now) (ended_row (db_rates d) now True ''session_lease_expired'') (db_attempts d)"
proof -
  let ?xs = "sort_key aq_id (filter (stale_attempt d p now) (db_attempts d))"
  note dis = wf_dbD(2) [OF assms]
  have "db_attempts (expire_stale_attempts p now d) =
      upd_where (\<lambda>r. aq_id r \<in> aq_id ` set ?xs) (ended_row (db_rates d) now True ''session_lease_expired'') (db_attempts d)"
    unfolding expire_stale_attempts_def
    by (rule fold_set_attempts)
       (use distinct_map_filter_sort(2) [OF dis] in \<open>simp_all add: ended_row_def [abs_def] rate_of_def\<close>)
  also have "\<dots> = upd_where (stale_attempt d p now) (ended_row (db_rates d) now True ''session_lease_expired'') (db_attempts d)"
    by (rule upd_where_cong) (use id_in_filter [OF dis] in auto)
  finally show ?thesis .
qed

lemma evolves_expire_stale_attempts: "evolves d (expire_stale_attempts p now d)"
proof (cases "wf_db d")
  case True
  obtain es where es: "db_events (expire_stale_attempts p now d) = db_events d @ es"
    using expire_stale_attempts_events by blast
  show ?thesis
    by (rule evolves_attempts [OF expire_stale_attempts_table [OF True] _ expire_stale_attempts_same(1,2,4) es])
       (simp add: stale_attempt_def ended_row_harmless)
qed (simp add: evolves_def)

text \<open>After the sweep every live attempt of the provider belongs to a live session, so the
  clock-free counts and the joined counts agree.\<close>

definition swept :: "provider_name \<Rightarrow> time \<Rightarrow> db \<Rightarrow> bool" where
  "swept p now d \<longleftrightarrow> (\<forall>a \<in> set (db_attempts d).
     aq_provider a = p \<longrightarrow> live_attempt_state (aq_state a) \<longrightarrow> attempt_session_live d now a)"

lemma attempt_session_live_cong:
  "db_sessions d' = db_sessions d \<Longrightarrow> attempt_session_live d' now a = attempt_session_live d now a"
  by (simp add: attempt_session_live_def session_of_def)

lemma attempt_session_live_fields:
  "aq_session_id b = aq_session_id a \<Longrightarrow> attempt_session_live d now b = attempt_session_live d now a"
  by (simp add: attempt_session_live_def)

lemma session_of_known:
  "wf_db d \<Longrightarrow> a \<in> set (db_attempts d) \<Longrightarrow> \<exists>s. session_of d (aq_session_id a) = Some s"
  using wf_dbD(8) [of d a] lookup_None [of gs_id "aq_session_id a" "db_sessions d"]
  by (cases "session_of d (aq_session_id a)") (auto simp: session_of_def)

lemma swept_expire:
  assumes wf: "wf_db d"
  shows "swept p now (expire_stale_attempts p now d)"
  unfolding swept_def
proof (intro ballI impI)
  fix b assume b: "b \<in> set (db_attempts (expire_stale_attempts p now d))"
    "aq_provider b = p" "live_attempt_state (aq_state b)"
  then obtain a where a: "a \<in> set (db_attempts d)"
    "b = (if stale_attempt d p now a then ended_row (db_rates d) now True ''session_lease_expired'' a else a)"
    by (auto simp: expire_stale_attempts_table [OF wf] set_upd_where)
  from b(3) a(2) have ns: "\<not> stale_attempt d p now a" by (cases "stale_attempt d p now a") simp_all
  with a(2) have ba: "b = a" by simp
  obtain s where s: "session_of d (aq_session_id a) = Some s"
    using session_of_known [OF wf a(1)] by blast
  have "attempt_session_live d now b"
    using ns b(2,3) unfolding ba stale_attempt_def attempt_session_live_def s option.case by blast
  then show "attempt_session_live (expire_stale_attempts p now d) now b"
    by (simp add: attempt_session_live_cong [OF expire_stale_attempts_same(1)])
qed

definition active_attempts :: "db \<Rightarrow> provider_name \<Rightarrow> nat" where
  "active_attempts d p = count_where (\<lambda>a. aq_provider a = p \<and> active_attempt_state (aq_state a)) (db_attempts d)"

lemma swept_active_count: "swept p now d \<Longrightarrow> attempt_count d p active_attempt_state now = active_attempts d p"
  unfolding attempt_count_def active_attempts_def
  by (rule count_where_cong) (auto simp: swept_def active_imp_live)

lemma swept_occupied:
  assumes wf: "wf_db d" and sw: "swept p now d" and i: "inst \<in> set (db_instances d)" "pi_provider inst = p"
  shows "count_where (holds_slot (pi_id inst)) (db_attempts d) = instance_occupied d now (pi_id inst)"
  unfolding instance_occupied_def
proof (rule count_where_cong)
  fix a assume a: "a \<in> set (db_attempts d)"
  have "aq_provider a = p" if "aq_instance_id a = Some (pi_id inst)"
  proof -
    from that wf_dbD(6) [OF wf a] obtain j where j: "j \<in> set (db_instances d)" "pi_id j = pi_id inst" "pi_provider j = aq_provider a"
      by (auto simp: slot_link_def)
    with wf_dbD(3) [OF wf] i have "j = inst" by (auto simp: distinct_map inj_on_def)
    with j i show ?thesis by simp
  qed
  with a sw show "holds_slot (pi_id inst) a =
      (aq_instance_id a = Some (pi_id inst) \<and> active_attempt_state (aq_state a) \<and> attempt_session_live d now a)"
    by (auto simp: holds_slot_def swept_def active_imp_live)
qed

section \<open>Instance selection\<close>

lemma select_instance_Some:
  assumes "select_instance d p now = Some i"
  shows "i \<in> set (db_instances d)" "pi_provider i = p" "pi_state i = FI_Ready"
    "now < pi_observation_expires_at i" "int (instance_occupied d now (pi_id i)) < pi_capacity i"
proof -
  from assms obtain n where "max_by (\<lambda>(occupied, i). (occupied, pi_id i))
      (filter (\<lambda>(occupied, i). int occupied < pi_capacity i)
        (map (\<lambda>i. (instance_occupied d now (pi_id i), i))
          (sort_key pi_id (filter (\<lambda>i. pi_provider i = p \<and> pi_state i = FI_Ready \<and> now < pi_observation_expires_at i)
               (db_instances d))))) = Some (n, i)"
    by (auto simp: select_instance_def Let_def)
  from max_by_Some [OF this, THEN conjunct1]
  show "i \<in> set (db_instances d)" "pi_provider i = p" "pi_state i = FI_Ready"
    "now < pi_observation_expires_at i" "int (instance_occupied d now (pi_id i)) < pi_capacity i"
    by auto
qed

lemma select_instance_fullest:
  assumes sel: "select_instance d p now = Some i"
    and j: "j \<in> set (db_instances d)" "pi_provider j = p" "pi_state j = FI_Ready"
      "now < pi_observation_expires_at j" "int (instance_occupied d now (pi_id j)) < pi_capacity j"
  shows "(instance_occupied d now (pi_id j), pi_id j) \<le> (instance_occupied d now (pi_id i), pi_id i)"
proof -
  let ?c = "filter (\<lambda>(occupied, i). int occupied < pi_capacity i)
        (map (\<lambda>i. (instance_occupied d now (pi_id i), i))
          (sort_key pi_id (filter (\<lambda>i. pi_provider i = p \<and> pi_state i = FI_Ready \<and> now < pi_observation_expires_at i)
               (db_instances d))))"
  from sel obtain n where n: "max_by (\<lambda>(occupied, i). (occupied, pi_id i)) ?c = Some (n, i)"
    by (auto simp: select_instance_def Let_def)
  note m = max_by_Some [OF n]
  from m have "n = instance_occupied d now (pi_id i)" by auto
  moreover from j have "(instance_occupied d now (pi_id j), j) \<in> set ?c" by auto
  ultimately show ?thesis using m by fastforce
qed

lemma select_instance_None:
  assumes "select_instance d p now = None" "j \<in> set (db_instances d)" "pi_provider j = p"
    "pi_state j = FI_Ready" "now < pi_observation_expires_at j"
  shows "pi_capacity j \<le> int (instance_occupied d now (pi_id j))"
  using assms by (force simp: select_instance_def Let_def filter_empty_conv)

section \<open>What enqueue does\<close>

text \<open>The placement decision: the instance chosen and whether the new attempt acquires at once.\<close>

definition chosen_instance :: "db \<Rightarrow> provider_name \<Rightarrow> time \<Rightarrow> bool \<times> bool \<times> int \<times> int \<Rightarrow> provider_instance option" where
  "chosen_instance d p now cap =
     (if fst cap \<and> fst (snd cap) \<and> attempt_count d p (\<lambda>s. s = A_Queued) now = 0 then select_instance d p now else None)"

definition acquires :: "db \<Rightarrow> provider_name \<Rightarrow> time \<Rightarrow> bool \<times> bool \<times> int \<times> int \<Rightarrow> bool" where
  "acquires d p now cap \<longleftrightarrow> attempt_count d p (\<lambda>s. s = A_Queued) now = 0
     \<and> (if fst cap then chosen_instance d p now cap \<noteq> None
        else int (attempt_count d p active_attempt_state now) < fst (snd (snd cap)))"

fun placed_row :: "admission_status \<Rightarrow> time \<Rightarrow> provider_instance option \<Rightarrow> acquisition_attempt \<Rightarrow> acquisition_attempt" where
  "placed_row ADM_ACQUIRING now inst r = acquire_row now inst r"
| "placed_row ADM_QUEUED now inst r = queue_row now r"
| "placed_row ADM_FULL now inst r = full_row now r"

lemma insert_attempt_tables [simp]:
  "db_attempts (insert_attempt row d) = db_attempts d @ [row]" "db_sessions (insert_attempt row d) = db_sessions d"
  "db_instances (insert_attempt row d) = db_instances d" "db_fleets (insert_attempt row d) = db_fleets d"
  "db_limits (insert_attempt row d) = db_limits d" "db_events (insert_attempt row d) = db_events d"
  "db_next_queue (insert_attempt row d) = db_next_queue d + 1"
  by (simp_all add: insert_attempt_def)

lemma insert_attempt_live [simp]: "attempt_session_live (insert_attempt row d) now a = attempt_session_live d now a"
  by (simp add: attempt_session_live_def session_of_def)

lemma insert_attempt_counts [simp]:
  "\<not> states (aq_state row) \<Longrightarrow> attempt_count (insert_attempt row d) p states now = attempt_count d p states now"
  "\<not> active_attempt_state (aq_state row) \<Longrightarrow> instance_occupied (insert_attempt row d) now i = instance_occupied d now i"
  "\<not> active_attempt_state (aq_state row) \<Longrightarrow> select_instance (insert_attempt row d) p now = select_instance d p now"
  "provider_capacity (insert_attempt row d) p = provider_capacity d p"
  by (simp_all add: attempt_count_def instance_occupied_def select_instance_def provider_capacity_def
      fleet_of_def limit_of_def split: option.split)

lemma new_row_fields [simp]:
  "aq_id (new_attempt_row d s aid p res src now) = aid"
  "aq_session_id (new_attempt_row d s aid p res src now) = ss_session_id s"
  "aq_provider (new_attempt_row d s aid p res src now) = p"
  "aq_state (new_attempt_row d s aid p res src now) = A_Requested"
  "aq_instance_id (new_attempt_row d s aid p res src now) = None"
  "aq_acquiring_at (new_attempt_row d s aid p res src now) = None"
  "aq_active_at (new_attempt_row d s aid p res src now) = None"
  "aq_finished_at (new_attempt_row d s aid p res src now) = None"
  "aq_queue_sequence (new_attempt_row d s aid p res src now) = db_next_queue d"
  "aq_modeled_cost_units (new_attempt_row d s aid p res src now) = None"
  "aq_chargeable_time_ms (new_attempt_row d s aid p res src now) = None"
  "aq_capacity_occupied_ms (new_attempt_row d s aid p res src now) = None"
  by (simp_all add: new_attempt_row_def)

lemma placed_fields [simp]:
  "aq_id (placed_row st now inst r) = aq_id r" "aq_session_id (placed_row st now inst r) = aq_session_id r"
  "aq_provider (placed_row st now inst r) = aq_provider r" "aq_queue_sequence (placed_row st now inst r) = aq_queue_sequence r"
  "aq_ordinal (placed_row st now inst r) = aq_ordinal r"
  "aq_state (placed_row st now inst r) =
     (case st of ADM_ACQUIRING \<Rightarrow> A_Acquiring | ADM_QUEUED \<Rightarrow> A_Queued | ADM_FULL \<Rightarrow> A_Failed)"
  "aq_instance_id (placed_row st now inst r) =
     (case st of ADM_ACQUIRING \<Rightarrow> map_option pi_id inst | _ \<Rightarrow> aq_instance_id r)"
  by (cases st; simp add: acquire_row_def queue_row_def full_row_def)+

lemma enqueue_cases:
  fixes resolved sources :: json
  assumes enq: "enqueue s aid p resolved sources replacement now d = Inr (d', st, att)"
  defines "d1 \<equiv> expire_stale_attempts p now (lock_provider p d)"
  defines "row \<equiv> new_attempt_row d1 s aid p resolved sources now"
  obtains cap where "owned_session d s now \<noteq> None"
    "source_error replacement (live_attempts_of d1 (ss_session_id s)) = None"
    "aid \<notin> aq_id ` set (db_attempts d1)" "provider_capacity d1 p = Some cap"
    "st = ADM_ACQUIRING \<longleftrightarrow> acquires d1 p now cap"
    "st = ADM_FULL \<longleftrightarrow> \<not> acquires d1 p now cap
       \<and> snd (snd (snd cap)) \<le> int (attempt_count d1 p (\<lambda>s. s = A_Queued) now)"
    "db_attempts d' = db_attempts d1 @ [placed_row st now (chosen_instance d1 p now cap) row]"
    "db_sessions d' = db_sessions d1" "db_instances d' = db_instances d1"
    "db_next_queue d' = db_next_queue d1 + 1" "\<exists>es. db_events d' = db_events d1 @ es"
    "att = attempt_contract (placed_row st now (chosen_instance d1 p now cap) row)
       (map_option pi_endpoint (chosen_instance d1 p now cap))"
proof -
  have own: "owned_session d s now \<noteq> None" using enq by (auto simp: enqueue_def split: if_splits)
  have src: "source_error replacement (live_attempts_of d1 (ss_session_id s)) = None"
    using enq own by (auto simp: enqueue_def Let_def d1_def [symmetric] split: option.splits if_splits)
  have fresh: "aid \<notin> aq_id ` set (db_attempts d1)"
    using enq own src by (auto simp: enqueue_def Let_def d1_def [symmetric] list_ex_iff split: option.splits if_splits)
  from enq own src obtain cap where cap: "provider_capacity d1 p = Some cap"
    and pl: "place_attempt (insert_attempt row d1) row now cap = (d', st, att)"
    by (auto simp: enqueue_def Let_def d1_def [symmetric] row_def [symmetric] split: option.splits if_splits)
  have snoc: "upd_where (\<lambda>r. aq_id r = aid) f (db_attempts d1) = db_attempts d1" for f
    by (rule upd_where_none) (use fresh in \<open>metis imageI\<close>)
  have rp: "aq_id row = aid" "aq_provider row = p" "aq_state row = A_Requested" by (simp_all add: row_def)
  let ?inst = "chosen_instance d1 p now cap"
  obtain m e ma mq where c: "cap = (m, e, ma, mq)" by (cases cap) auto
  have ins: "(if m \<and> e \<and> attempt_count d1 p (\<lambda>s. s = A_Queued) now = 0 then select_instance d1 p now else None) = ?inst"
    by (simp add: chosen_instance_def c)
  have acq: "(attempt_count d1 p (\<lambda>s. s = A_Queued) now = 0 \<and>
      (if m then ?inst \<noteq> None else int (attempt_count d1 p active_attempt_state now) < ma)) = acquires d1 p now cap"
    by (simp add: acquires_def c)
  have eqs: "attempt_count (insert_attempt row d1) p (\<lambda>s. s = A_Queued) now = attempt_count d1 p (\<lambda>s. s = A_Queued) now"
    "attempt_count (insert_attempt row d1) p active_attempt_state now = attempt_count d1 p active_attempt_state now"
    "select_instance (insert_attempt row d1) p now = select_instance d1 p now"
    by (simp_all add: rp)
  have res: "(d', st, att) =
     (if acquires d1 p now cap
      then (set_attempt aid (acquire_row now ?inst) (insert_attempt row d1), ADM_ACQUIRING,
            attempt_contract (acquire_row now ?inst row) (map_option pi_endpoint ?inst))
      else if int (attempt_count d1 p (\<lambda>s. s = A_Queued) now) < mq
      then (set_attempt aid (queue_row now) (insert_attempt row d1), ADM_QUEUED,
            attempt_contract (queue_row now row) (map_option pi_endpoint ?inst))
      else (write_attempt (full_row now) ''attempt.failed'' now (Some ''provider_queue_full'') row (insert_attempt row d1), ADM_FULL,
            attempt_contract (full_row now row) (map_option pi_endpoint ?inst)))"
    using pl [symmetric] unfolding place_attempt_def c Let_def prod.case rp eqs ins [unfolded c] acq [unfolded c] .
  have ev: "\<exists>es. db_events (write_attempt f ty n why a d) = db_events d @ es" for f ty n why a d
    by (rule write_attempt_events)
  show ?thesis
  proof (rule that [OF own src fresh cap])
    show "\<exists>es. db_events d' = db_events d1 @ es"
      using res ev [of "full_row now" "''attempt.failed''" now "Some ''provider_queue_full''" row "insert_attempt row d1"]
      by (auto split: if_splits)
  qed (use res in \<open>auto simp: c snoc rp split: if_splits\<close>)
qed

lemma holds_slot_row: "holds_slot i a \<longleftrightarrow> aq_instance_id a = Some i \<and> active_attempt_state (aq_state a)"
  by (simp add: holds_slot_def)

lemma owned_session_Some:
  "owned_session d s now = Some r \<Longrightarrow> r \<in> set (db_sessions d) \<and> gs_id r = ss_session_id s
     \<and> attempt_live_session_state (gs_state r) \<and> later (gs_lease_expires_at r) now"
  unfolding owned_session_def find_Some_iff owned_row_def by (metis nth_mem)

lemma wf_sweep: "wf_db d \<Longrightarrow> wf_db (expire_stale_attempts p now (lock_provider p d))"
  using evolvesD(1) [OF evolves_expire_stale_attempts] by simp

lemma swept_sweep: "wf_db d \<Longrightarrow> swept p now (expire_stale_attempts p now (lock_provider p d))"
  by (rule swept_expire) simp

lemma evolves_sweep: "evolves d (expire_stale_attempts p now (lock_provider p d))"
  by (meson evolves_trans evolves_lock(1) evolves_expire_stale_attempts)

text \<open>A slot selected on a swept database is free whatever the clock says.\<close>

lemma selected_free:
  assumes wf: "wf_db d" and sw: "swept p now d" and sel: "select_instance d p now = Some i"
    and x: "x \<in> set (db_instances d)" "pi_id x = pi_id i"
  shows "int (count_where (holds_slot (pi_id x)) (db_attempts d)) < pi_capacity x"
proof -
  note i = select_instance_Some [OF sel]
  have "x = i" using wf_dbD(3) [OF wf] x i(1) by (auto simp: distinct_map inj_on_def)
  with i swept_occupied [OF wf sw i(1,2)] show ?thesis by simp
qed

lemma chosen_instance_Some: "chosen_instance d p now cap = Some i \<Longrightarrow> select_instance d p now = Some i"
  by (simp add: chosen_instance_def split: if_splits)

lemma placed_ok: "attempt_ok (placed_row st now inst (new_attempt_row d s aid p res src now))"
  by (cases st) (simp_all add: attempt_ok_def acquire_row_def queue_row_def full_row_def)

lemma evolves_enqueue:
  assumes enq: "enqueue s aid p resolved sources replacement now d = Inr (d', st, att)"
  shows "evolves d d'"
proof (cases "wf_db d")
  case wf: True
  let ?d1 = "expire_stale_attempts p now (lock_provider p d)"
  let ?row = "new_attempt_row ?d1 s aid p resolved sources now"
  from enq show ?thesis
  proof (cases rule: enqueue_cases)
    case (1 cap)
    let ?inst = "chosen_instance ?d1 p now cap"
    obtain es where es: "db_events d' = db_events ?d1 @ es" using 1(11) by blast
    note wf1 = wf_sweep [OF wf, of p now]
    have sel: "select_instance ?d1 p now = Some i" if "?inst = Some i" for i
      using that by (rule chosen_instance_Some)
    have "evolves ?d1 d'"
    proof (rule evolves_insert_attempt [OF _ _ _ _ _ 1(7,10,8,9) es])
      show "slot_link (db_instances ?d1) (placed_row st now ?inst ?row)"
        using select_instance_Some(1,2) [OF sel]
        by (auto simp: slot_link_def split: admission_status.splits)
      from 1(1) obtain r where "owned_session d s now = Some r" by blast
      then show "aq_session_id (placed_row st now ?inst ?row) \<in> gs_id ` set (db_sessions ?d1)"
        using owned_session_Some [of d s now r] by (auto intro: rev_image_eqI)
    qed (use 1(3) placed_ok in auto)
    then show ?thesis by (rule evolves_trans [OF evolves_sweep])
  qed
qed (simp add: evolves_def)

section \<open>What claim does\<close>

lemma queue_head_Some:
  assumes "queue_head d p now = Some i"
  obtains a where "a \<in> set (db_attempts d)" "aq_id a = i" "aq_provider a = p" "aq_state a = A_Queued"
    "attempt_session_live d now a"
    "\<And>b. b \<in> set (db_attempts d) \<Longrightarrow> aq_provider b = p \<Longrightarrow> aq_state b = A_Queued
       \<Longrightarrow> attempt_session_live d now b \<Longrightarrow> aq_queue_sequence a \<le> aq_queue_sequence b"
proof -
  from assms obtain a as where q: "queue_order d p now = a # as" "aq_id a = i"
    by (auto simp: queue_head_def split: list.splits)
  have st: "set (a # as) = set (filter (\<lambda>a. aq_provider a = p \<and> aq_state a = A_Queued \<and> attempt_session_live d now a) (db_attempts d))"
    unfolding q(1) [symmetric] queue_order_def by simp
  have "sorted (map aq_queue_sequence (a # as))"
    unfolding q(1) [symmetric] queue_order_def by simp
  then have least: "\<forall>b \<in> set (a # as). aq_queue_sequence a \<le> aq_queue_sequence b" by auto
  show ?thesis
    by (rule that [of a]) (use st least q(2) in auto)
qed

lemma claim_cases:
  assumes cl: "claim s att now d = Inr (d', res)"
  defines "d1 \<equiv> expire_stale_attempts (pa_provider att) now (lock_provider (pa_provider att) d)"
  obtains (none) "res = None" "d' = d \<or> d' = d1"
  | (claimed) row inst where "res = Some (attempt_contract (acquire_row now inst row) (map_option pi_endpoint inst))"
      "owned_session d s now \<noteq> None"
      "row \<in> set (db_attempts d1)" "aq_id row = pa_attempt_id att" "aq_session_id row = ss_session_id s"
      "aq_state row = A_Queued" "queue_head d1 (pa_provider att) now = Some (pa_attempt_id att)"
      "d' = set_attempt (aq_id row) (acquire_row now inst) d1"
      "(\<exists>f i. fleet_of d1 (pa_provider att) = Some f \<and> pf_enabled f \<and> inst = Some i
          \<and> select_instance d1 (pa_provider att) now = Some i)
       \<or> (\<exists>l. fleet_of d1 (pa_provider att) = None \<and> limit_of d1 (pa_provider att) = Some l \<and> xl_enabled l
          \<and> inst = None \<and> int (attempt_count d1 (pa_provider att) active_attempt_state now) < xl_max_active l)"
proof (cases res)
  case None
  have "d' = d \<or> d' = d1"
    using cl unfolding None claim_def Let_def d1_def [symmetric] claim_row_def
    by (auto split: if_splits option.splits)
  with None show ?thesis by (rule none)
next
  case (Some c)
  let ?p = "pa_provider att"
  have own: "owned_session d s now \<noteq> None" using cl Some by (auto simp: claim_def split: if_splits)
  obtain row where row: "find (\<lambda>a. aq_id a = pa_attempt_id att \<and> aq_session_id a = ss_session_id s) (db_attempts d1) = Some row"
    using cl own unfolding Some claim_def Let_def d1_def [symmetric]
    by (cases "find (\<lambda>a. aq_id a = pa_attempt_id att \<and> aq_session_id a = ss_session_id s) (db_attempts d1)") auto
  from row have r: "row \<in> set (db_attempts d1)" "aq_id row = pa_attempt_id att" "aq_session_id row = ss_session_id s"
    by (auto simp: find_Some_iff)
  have q: "aq_state row = A_Queued" "queue_head d1 ?p now = Some (pa_attempt_id att)"
    using cl own row unfolding Some claim_def Let_def d1_def [symmetric] by (auto split: if_splits)
  have core: "(case (fleet_of d1 ?p, limit_of d1 ?p) of
        (None, None) \<Rightarrow> Inl (RuntimeError (''Provider capacity is not configured for '' @ provider_value ?p))
      | (managed, external) \<Rightarrow>
          if (case external of Some l \<Rightarrow> \<not> xl_enabled l | None \<Rightarrow> False) then Inr (d1, None)
          else (case managed of
              Some f \<Rightarrow> (case (if pf_enabled f then select_instance d1 ?p now else None) of
                  None \<Rightarrow> Inr (d1, None) | Some i \<Rightarrow> Inr (claim_row d1 row ?p (Some i) now))
            | None \<Rightarrow> (case external of None \<Rightarrow> Inr (d1, None)
                | Some l \<Rightarrow> if xl_max_active l \<le> int (attempt_count d1 ?p active_attempt_state now)
                    then Inr (d1, None) else Inr (claim_row d1 row ?p None now)))) = Inr (d', Some c)"
    using cl own row q unfolding Some claim_def Let_def d1_def [symmetric] by simp
  show ?thesis
  proof (cases "fleet_of d1 ?p")
    case f: (Some f)
    then obtain i where "pf_enabled f" "select_instance d1 ?p now = Some i"
      "Inr (claim_row d1 row ?p (Some i) now) = Inr (d', Some c)"
      using core by (auto split: option.splits if_splits)
    with f show ?thesis
      using claimed [OF _ own r q, of "Some i"] by (auto simp: claim_row_def Some)
  next
    case f: None
    then obtain l where "limit_of d1 ?p = Some l" "xl_enabled l"
      "int (attempt_count d1 ?p active_attempt_state now) < xl_max_active l"
      "Inr (claim_row d1 row ?p None now) = Inr (d', Some c)"
      using core by (auto split: option.splits if_splits)
    with f show ?thesis
      using claimed [OF _ own r q, of None] by (auto simp: claim_row_def Some)
  qed
qed

lemma evolves_claim:
  assumes cl: "claim s att now d = Inr (d', res)"
  shows "evolves d d'"
proof (cases "wf_db d")
  case wf: True
  let ?p = "pa_provider att"
  let ?d1 = "expire_stale_attempts ?p now (lock_provider ?p d)"
  note wf1 = wf_sweep [OF wf, of ?p now]
  from cl show ?thesis
  proof (cases rule: claim_cases)
    case none
    then show ?thesis using evolves_sweep by auto
  next
    case (claimed row inst)
    from claimed(7) obtain h where h: "h \<in> set (db_attempts ?d1)" "aq_id h = aq_id row" "aq_provider h = ?p"
      using claimed(4) by (metis queue_head_Some)
    with attempt_key_unique [OF wf1 claimed(3)] have prov: "aq_provider row = ?p" by blast
    have sel: "select_instance ?d1 ?p now = Some i" if "inst = Some i" for i
      using claimed(9) that by auto
    have "evolves ?d1 d'"
    proof (rule evolves_take_slot [OF claimed(3) refl, where g = "acquire_row now inst" and es = "[]"])
      show "slot_link (db_instances ?d1) (acquire_row now inst row)"
        using select_instance_Some(1,2) [OF sel] prov by (auto simp: slot_link_def acquire_row_def)
      show "attempt_ok row \<Longrightarrow> attempt_ok (acquire_row now inst row)"
        using claimed(6) by (simp add: attempt_ok_def acquire_row_def)
      show "b = row" if "aq_id b = aq_id row" "b \<in> set (db_attempts ?d1)" for b
        using attempt_key_unique [OF wf1 claimed(3)] that by blast
      show "attempt_moves row (acquire_row now inst row)"
        using wf_dbD(5) [OF wf1 claimed(3)] claimed(6) by (simp add: attempt_moves_def acquire_row_def attempt_ok_def)
    qed (simp_all add: claimed(8))
    then show ?thesis by (rule evolves_trans [OF evolves_sweep])
  qed
qed (simp add: evolves_def)

section \<open>Activation, provider facts and the end\<close>

lemma attempt_of_Some: "attempt_of d i = Some a \<Longrightarrow> a \<in> set (db_attempts d) \<and> aq_id a = i"
  unfolding attempt_of_def by (rule lookup_Some)

lemma evolves_write_attempt:
  assumes "a \<in> set (db_attempts d)" "attempt_ok a \<Longrightarrow> attempt_harmless f a \<and> attempt_moves a (f a)"
  shows "evolves d (set_attempt (aq_id a) f d)"
proof (cases "wf_db d")
  case True
  show ?thesis by (rule evolves_set_attempt) (use attempt_key_unique [OF True assms(1)] assms(2) in blast)
qed (simp add: evolves_def)

lemma evolves_activate: "evolves d (fst (activate att now d))"
proof (cases "attempt_of d (pa_attempt_id att)")
  case None
  then show ?thesis by (simp add: activate_def)
next
  case (Some a)
  note in_d = attempt_of_Some [OF Some, THEN conjunct1]
  have "evolves d (set_attempt (aq_id a) (\<lambda>r. r\<lparr>aq_state := A_Active, aq_active_at := Some now\<rparr>) d)"
    if "aq_state a = A_Acquiring"
    by (rule evolves_write_attempt [OF in_d])
       (use that in \<open>simp add: attempt_harmless_def attempt_moves_def attempt_ok_def\<close>)
  then show ?thesis
    by (auto simp: activate_def Some write_attempt_def attempt_event_def intro: evolves_trans [OF _ evolves_add_event])
qed

lemma evolves_bind: "evolves d (bind_provider_session att psid started d)"
proof (cases "attempt_of d (pa_attempt_id att)")
  case None
  then show ?thesis by (simp add: bind_provider_session_def)
next
  case (Some a)
  note in_d = attempt_of_Some [OF Some, THEN conjunct1]
  show ?thesis
    unfolding bind_provider_session_def Some option.case
    by (rule evolves_write_attempt [OF in_d])
       (simp add: attempt_harmless_def attempt_moves_def attempt_ok_def bill_def)
qed

lemma evolves_usage: "evolves d (record_provider_usage att e now d)"
proof (cases "attempt_of d (pa_attempt_id att)")
  case None
  then show ?thesis by (simp add: record_provider_usage_def)
next
  case (Some a)
  note in_d = attempt_of_Some [OF Some, THEN conjunct1]
  show ?thesis
    unfolding record_provider_usage_def Some option.case Let_def
    by (rule evolves_write_attempt [OF in_d])
       (simp add: attempt_harmless_def attempt_moves_def attempt_ok_def bill_def)
qed

definition finished_row ::
  "cost_rate option \<Rightarrow> time \<Rightarrow> bool \<Rightarrow> string \<Rightarrow> json option \<Rightarrow> json option \<Rightarrow> acquisition_attempt \<Rightarrow> acquisition_attempt" where
  "finished_row rate now failed reason commands phases r =
     (end_attempt rate now (if failed then A_Failed else A_Completed) reason r)
       \<lparr>aq_command_summary := commands, aq_phase_summary := phases\<rparr>"

lemma finished_row_fields [simp]:
  "aq_id (finished_row rate now failed reason c ph r) = aq_id r"
  "aq_session_id (finished_row rate now failed reason c ph r) = aq_session_id r"
  "aq_provider (finished_row rate now failed reason c ph r) = aq_provider r"
  "aq_ordinal (finished_row rate now failed reason c ph r) = aq_ordinal r"
  "aq_instance_id (finished_row rate now failed reason c ph r) = aq_instance_id r"
  "aq_queue_sequence (finished_row rate now failed reason c ph r) = aq_queue_sequence r"
  "aq_queued_at (finished_row rate now failed reason c ph r) = aq_queued_at r"
  "aq_acquiring_at (finished_row rate now failed reason c ph r) = aq_acquiring_at r"
  "aq_active_at (finished_row rate now failed reason c ph r) = aq_active_at r"
  "aq_finished_at (finished_row rate now failed reason c ph r) = Some now"
  "aq_terminal_reason (finished_row rate now failed reason c ph r) = Some reason"
  "aq_state (finished_row rate now failed reason c ph r) = (if failed then A_Failed else A_Completed)"
  by (simp_all add: finished_row_def)

lemma finish_cases:
  fixes failed :: bool and reason :: string and c ph :: "json option" and now :: time
  defines "r \<equiv> \<lambda>att d. finish_attempt att failed reason c ph now d"
  shows "attempt_of d (pa_attempt_id att) = None \<Longrightarrow> r att d = (lock_provider (pa_provider att) d, False)"
    and "attempt_of d (pa_attempt_id att) = Some a \<Longrightarrow> \<not> live_attempt_state (aq_state a) \<Longrightarrow> aq_state a \<noteq> A_Requested
      \<Longrightarrow> r att d = (lock_provider (pa_provider att) d, True)"
    and "attempt_of d (pa_attempt_id att) = Some a \<Longrightarrow> live_attempt_state (aq_state a) \<Longrightarrow>
      snd (r att d) \<and> db_sessions (fst (r att d)) = db_sessions d \<and> db_instances (fst (r att d)) = db_instances d
      \<and> db_next_queue (fst (r att d)) = db_next_queue d
      \<and> (\<exists>es. db_events (fst (r att d)) = db_events d @ es)
      \<and> db_attempts (fst (r att d)) = upd_where (\<lambda>x. aq_id x = aq_id a)
          (\<lambda>x. finished_row (rate_of d (aq_provider x)) now failed reason c ph x) (db_attempts d)"
proof -
  have lk: "attempt_of (lock_provider q d) i = attempt_of d i" "rate_of (lock_provider q d) x = rate_of d x" for q i x
    by (simp_all add: attempt_of_def rate_of_def)
  show "attempt_of d (pa_attempt_id att) = None \<Longrightarrow> r att d = (lock_provider (pa_provider att) d, False)"
    by (simp add: r_def finish_attempt_def lk)
  show "attempt_of d (pa_attempt_id att) = Some a \<Longrightarrow> \<not> live_attempt_state (aq_state a) \<Longrightarrow> aq_state a \<noteq> A_Requested
      \<Longrightarrow> r att d = (lock_provider (pa_provider att) d, True)"
    by (cases "aq_state a") (simp_all add: r_def finish_attempt_def lk)
  show "attempt_of d (pa_attempt_id att) = Some a \<Longrightarrow> live_attempt_state (aq_state a) \<Longrightarrow>
      snd (r att d) \<and> db_sessions (fst (r att d)) = db_sessions d \<and> db_instances (fst (r att d)) = db_instances d
      \<and> db_next_queue (fst (r att d)) = db_next_queue d
      \<and> (\<exists>es. db_events (fst (r att d)) = db_events d @ es)
      \<and> db_attempts (fst (r att d)) = upd_where (\<lambda>x. aq_id x = aq_id a)
          (\<lambda>x. finished_row (rate_of d (aq_provider x)) now failed reason c ph x) (db_attempts d)"
    using write_attempt_events [of _ _ now _ a "lock_provider (pa_provider att) d"]
    by (cases "aq_state a") (simp_all add: r_def finish_attempt_def Let_def lk finished_row_def)
qed

lemma finished_row_ok: "attempt_ok a \<Longrightarrow> attempt_ok (finished_row rate now failed reason c ph a)"
  by (simp add: finished_row_def end_attempt_ok)

lemma finished_harmless:
  "live_attempt_state (aq_state a) \<Longrightarrow>
   attempt_harmless (\<lambda>x. finished_row (R x) now failed reason c ph x) a
     \<and> attempt_moves a (finished_row (R a) now failed reason c ph a)"
  using attempt_rank_le [of "aq_state a"]
  by (auto simp: attempt_harmless_def finished_row_ok attempt_moves_def live_rank)

lemma evolves_finish: "evolves d (fst (finish_attempt att failed reason c ph now d))"
proof (cases "wf_db d")
  case wf: True
  let ?d' = "fst (finish_attempt att failed reason c ph now d)"
  show ?thesis
  proof (cases "attempt_of d (pa_attempt_id att)")
    case None
    then show ?thesis using finish_cases(1) [OF None] by simp
  next
    case (Some a)
    note in_d = attempt_of_Some [OF Some, THEN conjunct1]
    have ok: "attempt_ok a" using wf_dbD(5) [OF wf in_d] .
    show ?thesis
    proof (cases "live_attempt_state (aq_state a)")
      case True
      note f = finish_cases(3) [OF Some True, of failed reason c ph now]
      then obtain es where es: "db_events ?d' = db_events d @ es" by blast
      have upd: "attempt_harmless (\<lambda>x. finished_row (rate_of d (aq_provider x)) now failed reason c ph x) b
          \<and> attempt_moves b (finished_row (rate_of d (aq_provider b)) now failed reason c ph b)"
        if "b \<in> set (db_attempts d)" "aq_id b = aq_id a" for b
        using finished_harmless [OF True, of "\<lambda>x. rate_of d (aq_provider x)"] attempt_key_unique [OF wf in_d that] by simp
      show ?thesis
        by (rule evolves_attempts [OF _ _ _ _ _ es, where Q = "\<lambda>x. aq_id x = aq_id a"
              and g = "\<lambda>x. finished_row (rate_of d (aq_provider x)) now failed reason c ph x"])
           (use f upd in simp_all)
    next
      case False
      with ok have "aq_state a \<noteq> A_Requested" by (simp add: attempt_ok_def)
      then show ?thesis using finish_cases(2) [OF Some False] by simp
    qed
  qed
qed (simp add: evolves_def)

end
