(* ===== verification/External_Capacity.thy ===== *)
theory External_Capacity
  imports Attempts
begin

text \<open>
  The capacity of providers that are not managed by a fleet
  (\<^verbatim>\<open>backend/proxy/external_capacity.py\<close>): the limit row, created once and then changed by an
  operator through a versioned, audited update that refuses unknown fields, negative limits and the
  enablement of a provider without credentials.
\<close>

record external_capacity =
  ec_provider :: provider_name
  ec_enabled :: bool
  ec_max_active_sessions :: int
  ec_max_queued_attempts :: int
  ec_configuration_version :: int

text \<open>The operator's partial update: the fields it names, and the names of unknown fields.\<close>

record limit_values =
  lv_unknown :: "string list"
  lv_enabled :: "bool option"
  lv_max_active :: "int option"
  lv_max_queued :: "int option"

definition limit_contract :: "external_limit \<Rightarrow> external_capacity" where
  "limit_contract r = \<lparr>ec_provider = xl_provider r, ec_enabled = xl_enabled r,
     ec_max_active_sessions = xl_max_active r, ec_max_queued_attempts = xl_max_queued r,
     ec_configuration_version = xl_configuration_version r\<rparr>"

definition validate_limits :: "int \<Rightarrow> int \<Rightarrow> db_error option" where
  "validate_limits max_active max_queued =
     (if max_active < 0 \<or> max_queued < 0
      then Some (ValueError ''External capacity limits must be non-negative'') else None)"

definition ensure_limit ::
  "provider_name \<Rightarrow> bool \<Rightarrow> int \<Rightarrow> int \<Rightarrow> time \<Rightarrow> db \<Rightarrow> (db \<times> external_capacity) result" where
  "ensure_limit p enabled max_active max_queued wall d =
     (case validate_limits max_active max_queued of
        Some e \<Rightarrow> Inl e
      | None \<Rightarrow>
          let d1 = lock_provider p d;
              d2 = (case limit_of d1 p of
                      Some _ \<Rightarrow> d1
                    | None \<Rightarrow> d1\<lparr>db_limits := db_limits d1 @
                        [\<lparr>xl_provider = p, xl_enabled = enabled, xl_max_active = max_active,
                          xl_max_queued = max_queued, xl_configuration_version = 1, xl_updated_at = wall\<rparr>]\<rparr>)
          in Inr (d2, limit_contract (the (limit_of d2 p))))"

definition list_limits :: "db \<Rightarrow> external_capacity list" where
  "list_limits d = map limit_contract (sort_key xl_provider (db_limits d))"

definition get_limit :: "db \<Rightarrow> provider_name \<Rightarrow> external_capacity option" where
  "get_limit d p = map_option limit_contract (limit_of d p)"

definition set_limit :: "provider_name \<Rightarrow> (external_limit \<Rightarrow> external_limit) \<Rightarrow> db \<Rightarrow> db" where
  "set_limit p f d = d\<lparr>db_limits := upd_where (\<lambda>r. xl_provider r = p) f (db_limits d)\<rparr>"

text \<open>\<open>credential and credential.strip()\<close>: a credential of blanks is no credential. Only
  Browserless cloud has an entry in the credential table. \<open>str.strip\<close> removes every character
  \<open>str.isspace\<close> accepts; those below code point 128 are listed, the others do not occur in a
  list of 8-bit characters that encodes ASCII.\<close>

definition python_space :: "char \<Rightarrow> bool" where
  "python_space c \<longleftrightarrow> of_char c \<in> {9, 10, 11, 12, 13, 28, 29, 30, 31, 32 :: nat}"

definition credential_ok :: "string option \<Rightarrow> bool" where
  "credential_ok c = (case c of None \<Rightarrow> False | Some s \<Rightarrow> list_ex (\<lambda>ch. \<not> python_space ch) s)"

definition enablement_error :: "string option \<Rightarrow> provider_name \<Rightarrow> limit_values \<Rightarrow> db_error option" where
  "enablement_error token p values =
     (if p = BROWSERLESS_CLOUD \<and> lv_enabled values = Some True \<and> \<not> credential_ok token
      then Some (ExternalCapacityEnablementError
        ''Cannot enable Browserless cloud because its token is not configured. Configure browserless_cloud_token and restart Stolosio.'')
      else None)"

fun given :: "'a option \<Rightarrow> 'a \<Rightarrow> 'a" where
  "given None x = x"
| "given (Some y) x = y"

definition update_limit ::
  "string option \<Rightarrow> provider_name \<Rightarrow> limit_values \<Rightarrow> string \<Rightarrow> time \<Rightarrow> db
     \<Rightarrow> (db \<times> external_capacity option) result" where
  "update_limit token p values actor wall d =
     (if lv_unknown values \<noteq> [] then Inl (ValueError ''Unknown external capacity fields'')
      else case enablement_error token p values of
        Some e \<Rightarrow> Inl e
      | None \<Rightarrow>
          let d1 = lock_provider p d
          in case limit_of d1 p of
               None \<Rightarrow> Inr (d1, None)
             | Some r \<Rightarrow>
                 let enabled = given (lv_enabled values) (xl_enabled r);
                     max_active = given (lv_max_active values) (xl_max_active r);
                     max_queued = given (lv_max_queued values) (xl_max_queued r)
                 in case validate_limits max_active max_queued of
                      Some e \<Rightarrow> Inl e
                    | None \<Rightarrow>
                        let r' = r\<lparr>xl_enabled := enabled, xl_max_active := max_active,
                                   xl_max_queued := max_queued,
                                   xl_configuration_version := xl_configuration_version r + 1,
                                   xl_updated_at := wall\<rparr>;
                            d2 = set_limit p (\<lambda>_. r') d1;
                            d3 = d2\<lparr>db_limit_events := db_limit_events d2 @
                              [\<lparr>le_provider = p, le_version = xl_configuration_version r',
                                le_previous = (xl_enabled r, xl_max_active r, xl_max_queued r),
                                le_new = (enabled, max_active, max_queued), le_actor = actor\<rparr>]\<rparr>
                        in Inr (d3, Some (limit_contract r')))"

section \<open>Lemmas\<close>

text \<open>Every stored limit is non-negative, and the limit table has one row per provider.\<close>

definition limits_ok :: "db \<Rightarrow> bool" where
  "limits_ok d \<longleftrightarrow> distinct (map xl_provider (db_limits d))
     \<and> (\<forall>l \<in> set (db_limits d). 0 \<le> xl_max_active l \<and> 0 \<le> xl_max_queued l)"

lemma validate_limits_None: "validate_limits a q = None \<longleftrightarrow> 0 \<le> a \<and> 0 \<le> q"
  by (auto simp: validate_limits_def)

lemma limit_of_lock [simp]: "limit_of (lock_provider p d) q = limit_of d q"
  by (simp add: limit_of_def)

lemma limit_of_fresh: "limit_of d p = None \<longleftrightarrow> p \<notin> xl_provider ` set (db_limits d)"
  by (auto simp: limit_of_def lookup_None)

lemma ensure_limit_ok: "limits_ok d \<Longrightarrow> ensure_limit p e a q wall d = Inr (d', c) \<Longrightarrow> limits_ok d'"
  by (auto simp: ensure_limit_def limits_ok_def limit_of_fresh validate_limits_None Let_def
      split: option.splits)

lemma update_limit_ok:
  assumes "limits_ok d" "update_limit token p values actor wall d = Inr (d', c)"
  shows "limits_ok d'"
proof (cases "limit_of d p")
  case None
  with assms show ?thesis
    by (auto simp: update_limit_def limits_ok_def Let_def split: if_splits option.splits)
next
  case (Some r)
  define r' where "r' = r\<lparr>xl_enabled := given (lv_enabled values) (xl_enabled r),
      xl_max_active := given (lv_max_active values) (xl_max_active r),
      xl_max_queued := given (lv_max_queued values) (xl_max_queued r),
      xl_configuration_version := xl_configuration_version r + 1, xl_updated_at := wall\<rparr>"
  have r': "xl_provider r' = xl_provider r" "0 \<le> xl_max_active r'" "0 \<le> xl_max_queued r'"
    and d': "db_limits d' = upd_where (\<lambda>x. xl_provider x = p) (\<lambda>_. r') (db_limits d)"
    using assms(2) Some
    by (auto simp: r'_def update_limit_def Let_def set_limit_def validate_limits_None split: if_splits option.splits)
  have "xl_provider r = p" using lookup_Some [of xl_provider p "db_limits d" r] Some by (simp add: limit_of_def)
  then have "map xl_provider (db_limits d') = map xl_provider (db_limits d)"
    unfolding d' using r' by (intro map_upd_where_key) simp
  with assms(1) r' show ?thesis by (auto simp: limits_ok_def d' set_upd_where)
qed

lemma limit_update_tables:
  "ensure_limit p e a q wall d = Inr (d', c) \<Longrightarrow> evolves d d' \<and> db_sessions d' = db_sessions d
     \<and> db_attempts d' = db_attempts d"
  "update_limit token p values actor wall d = Inr (d', c') \<Longrightarrow> evolves d d' \<and> db_sessions d' = db_sessions d
     \<and> db_attempts d' = db_attempts d"
proof -
  have ev: "evolves d d'" if "db_sessions d' = db_sessions d" "db_attempts d' = db_attempts d"
    "db_instances d' = db_instances d" "db_next_queue d' = db_next_queue d" "db_events d' = db_events d"
    using that wf_db_cong [OF that(1,2,3,4)] extends_cong [OF that(1,2), of "[]"] by (simp add: evolves_def)
  show "ensure_limit p e a q wall d = Inr (d', c) \<Longrightarrow> evolves d d' \<and> db_sessions d' = db_sessions d
     \<and> db_attempts d' = db_attempts d"
    using ev by (auto simp: ensure_limit_def Let_def split: option.splits)
  show "update_limit token p values actor wall d = Inr (d', c') \<Longrightarrow> evolves d d' \<and> db_sessions d' = db_sessions d
     \<and> db_attempts d' = db_attempts d"
    using ev by (auto simp: update_limit_def set_limit_def Let_def split: option.splits if_splits)
qed

end
