(* ===== verification/Costs.thy ===== *)
theory Costs
  imports Lifecycle
begin

text \<open>
  Cost rates and the cost overview (\<^verbatim>\<open>backend/proxy/costs.py\<close>). The overview aggregates the
  finished attempts of a time window four ways: per provider, per time bucket and provider, in
  total, and for the ten most expensive sessions. The lemmas show that the partitions account for
  every attempt exactly once.
\<close>

section \<open>Rates\<close>

definition default_cost_rates :: "(provider_name \<times> int) list" where
  "default_cost_rates = [(BROWSERLESS, 100), (BROWSERLESS_CLOUD, 300)]"

text \<open>\<open>INSERT ... ON CONFLICT DO NOTHING\<close> of the default rows.\<close>

definition ensure_default_rates :: "time \<Rightarrow> db \<Rightarrow> db" where
  "ensure_default_rates wall d =
     fold (\<lambda>(p, c) d. if rate_of d p \<noteq> None then d
             else d\<lparr>db_rates := db_rates d @
                     [\<lparr>cr_provider = p, cr_units_per_second = c, cr_updated_at = wall\<rparr>]\<rparr>)
       default_cost_rates d"

definition list_rates :: "db \<Rightarrow> cost_rate list" where
  "list_rates d = sort_key cr_provider (db_rates d)"

definition update_rate :: "provider_name \<Rightarrow> int \<Rightarrow> time \<Rightarrow> db \<Rightarrow> (db \<times> cost_rate option) result" where
  "update_rate p units wall d =
     (if units < 0 then Inl (ValueError ''Cost rates must be non-negative'')
      else case rate_of d p of
        None \<Rightarrow> Inr (d, None)
      | Some r \<Rightarrow>
          let r' = r\<lparr>cr_units_per_second := units, cr_updated_at := wall\<rparr>
          in Inr (d\<lparr>db_rates := upd_where (\<lambda>x. cr_provider x = p) (\<lambda>_. r') (db_rates d)\<rparr>, Some r'))"

definition rates_ok :: "db \<Rightarrow> bool" where
  "rates_ok d \<longleftrightarrow> distinct (map cr_provider (db_rates d)) \<and> (\<forall>r \<in> set (db_rates d). 0 \<le> cr_units_per_second r)"

section \<open>Windows and buckets\<close>

datatype cost_bucket = Hourly | Daily

record cost_window =
  cw_key :: string
  cw_duration :: time
  cw_bucket :: cost_bucket

definition hour :: time where "hour = 3600 * 1000000"
definition day :: time where "day = 24 * hour"

definition cost_windows :: "cost_window list" where
  "cost_windows =
     [\<lparr>cw_key = ''24h'', cw_duration = 24 * hour, cw_bucket = Hourly\<rparr>,
      \<lparr>cw_key = ''7d'', cw_duration = 7 * day, cw_bucket = Daily\<rparr>,
      \<lparr>cw_key = ''30d'', cw_duration = 30 * day, cw_bucket = Daily\<rparr>,
      \<lparr>cw_key = ''90d'', cw_duration = 90 * day, cw_bucket = Daily\<rparr>]"

text \<open>\<open>date_trunc\<close> in a database whose time zone is UTC.\<close>

definition date_trunc :: "cost_bucket \<Rightarrow> time \<Rightarrow> time" where
  "date_trunc b t = (let w = (case b of Hourly \<Rightarrow> hour | Daily \<Rightarrow> day) in t div w * w)"

section \<open>Grouping\<close>

definition group_by :: "('r \<Rightarrow> 'k::linorder) \<Rightarrow> 'r list \<Rightarrow> ('k \<times> 'r list) list" where
  "group_by key rows = map (\<lambda>k. (k, filter (\<lambda>r. key r = k) rows)) (sort (remdups (map key rows)))"

definition total_of :: "('r \<Rightarrow> int option) \<Rightarrow> 'r list \<Rightarrow> int" where
  "total_of f rows = sum_list (map (\<lambda>r. case f r of None \<Rightarrow> 0 | Some v \<Rightarrow> v) rows)"

text \<open>\<open>sum(...)\<close> without \<open>coalesce\<close>: null when no row has a value.\<close>

definition sql_sum :: "('r \<Rightarrow> int option) \<Rightarrow> 'r list \<Rightarrow> int option" where
  "sql_sum f rows = (if list_all (\<lambda>r. f r = None) rows then None else Some (total_of f rows))"

section \<open>The overview\<close>

record provider_cost =
  pc_provider :: provider_name
  pc_attempt_count :: nat
  pc_session_count :: nat
  pc_failed_attempt_count :: nat
  pc_modeled_cost_units :: int
  pc_chargeable_time_ms :: int
  pc_browser_connected_time_ms :: int
  pc_capacity_occupied_time_ms :: int

record bucket_cost =
  bc_started_at :: time
  bc_provider :: provider_name
  bc_attempt_count :: nat
  bc_modeled_cost_units :: int
  bc_chargeable_time_ms :: int

record session_cost =
  sc_session_id :: string
  sc_client_reference :: "string option"
  sc_closed_at :: "time option"
  sc_workload :: string
  sc_capture_hostname :: "string option"
  sc_providers :: "provider_name list"
  sc_modeled_cost_units :: int
  sc_chargeable_time_ms :: int

record cost_totals =
  ct_session_count :: nat
  ct_attempt_count :: nat
  ct_failed_attempt_count :: nat
  ct_modeled_cost_units :: int
  ct_chargeable_time_ms :: int
  ct_browser_connected_time_ms :: int
  ct_browserless_slot_time_ms :: int

record cost_overview =
  co_window :: string
  co_starts_at :: time
  co_ends_at :: time
  co_finalized_through :: "time option"
  co_totals :: cost_totals
  co_providers :: "provider_cost list"
  co_buckets :: "bucket_cost list"
  co_recent_sessions :: "session_cost list"

definition in_window :: "db \<Rightarrow> string option \<Rightarrow> time \<Rightarrow> time \<Rightarrow> acquisition_attempt \<Rightarrow> bool" where
  "in_window d workload starts ends a \<longleftrightarrow>
     (case aq_finished_at a of None \<Rightarrow> False | Some t \<Rightarrow> starts \<le> t \<and> t \<le> ends)
     \<and> (case workload of None \<Rightarrow> True
        | Some w \<Rightarrow> list_ex (\<lambda>s. gs_id s = aq_session_id a \<and> gs_workload s = w) (db_sessions d))"

definition provider_cost_row :: "provider_name \<times> acquisition_attempt list \<Rightarrow> provider_cost" where
  "provider_cost_row g = (case g of (p, rows) \<Rightarrow>
     \<lparr>pc_provider = p, pc_attempt_count = length rows,
      pc_session_count = length (remdups (map aq_session_id rows)),
      pc_failed_attempt_count = count_where (\<lambda>a. aq_state a = A_Failed) rows,
      pc_modeled_cost_units = total_of aq_modeled_cost_units rows,
      pc_chargeable_time_ms = total_of aq_chargeable_time_ms rows,
      pc_browser_connected_time_ms = total_of aq_browser_connected_ms rows,
      pc_capacity_occupied_time_ms = total_of aq_capacity_occupied_ms rows\<rparr>)"

definition bucket_cost_row :: "(time \<times> provider_name) \<times> acquisition_attempt list \<Rightarrow> bucket_cost" where
  "bucket_cost_row g = (case g of ((t, p), rows) \<Rightarrow>
     \<lparr>bc_started_at = t, bc_provider = p, bc_attempt_count = length rows,
      bc_modeled_cost_units = total_of aq_modeled_cost_units rows,
      bc_chargeable_time_ms = total_of aq_chargeable_time_ms rows\<rparr>)"

definition session_cost_row :: "gateway_session \<times> acquisition_attempt list \<Rightarrow> session_cost" where
  "session_cost_row g = (case g of (s, rows) \<Rightarrow>
     \<lparr>sc_session_id = gs_id s, sc_client_reference = gs_client_reference s, sc_closed_at = gs_closed_at s,
      sc_workload = gs_workload s, sc_capture_hostname = gs_capture_hostname s,
      sc_providers = sort (remdups (map aq_provider rows)),
      sc_modeled_cost_units = total_of aq_modeled_cost_units rows,
      sc_chargeable_time_ms = total_of aq_chargeable_time_ms rows\<rparr>)"

text \<open>\<open>DESC NULLS LAST\<close>.\<close>

definition desc_nulls_last :: "int option \<Rightarrow> nat \<times> int" where
  "desc_nulls_last v = (case v of None \<Rightarrow> (1, 0) | Some x \<Rightarrow> (0, - x))"

definition recent_sessions :: "db \<Rightarrow> acquisition_attempt list \<Rightarrow> session_cost list" where
  "recent_sessions d rows =
     map session_cost_row (take 10
       (sort_key (\<lambda>(s, rs). (desc_nulls_last (sql_sum aq_modeled_cost_units rs), desc_nulls_last (gs_closed_at s)))
         (concat (map (\<lambda>(sid, rs). case session_of d sid of None \<Rightarrow> [] | Some s \<Rightarrow> [(s, rs)])
            (group_by aq_session_id rows)))))"

definition finalized_through :: "acquisition_attempt list \<Rightarrow> time option" where
  "finalized_through rows =
     (case map (\<lambda>a. the (aq_finished_at a)) rows of [] \<Rightarrow> None | t # ts \<Rightarrow> Some (fold max ts t))"

definition cost_totals_of :: "acquisition_attempt list \<Rightarrow> provider_cost list \<Rightarrow> cost_totals" where
  "cost_totals_of rows providers =
     \<lparr>ct_session_count = length (remdups (map aq_session_id rows)),
      ct_attempt_count = sum_list (map pc_attempt_count providers),
      ct_failed_attempt_count = sum_list (map pc_failed_attempt_count providers),
      ct_modeled_cost_units = sum_list (map pc_modeled_cost_units providers),
      ct_chargeable_time_ms = sum_list (map pc_chargeable_time_ms providers),
      ct_browser_connected_time_ms = sum_list (map pc_browser_connected_time_ms providers),
      ct_browserless_slot_time_ms =
        sum_list (map pc_capacity_occupied_time_ms (filter (\<lambda>r. pc_provider r = BROWSERLESS) providers))\<rparr>"

definition overview :: "string \<Rightarrow> string option \<Rightarrow> time \<Rightarrow> db \<Rightarrow> cost_overview result" where
  "overview window_key workload ends d =
     (case find (\<lambda>w. cw_key w = window_key) cost_windows of
        None \<Rightarrow> Inl (ValueError ''invalid cost window'')
      | Some w \<Rightarrow>
          let starts = ends - cw_duration w;
              rows = filter (in_window d workload starts ends) (db_attempts d);
              providers = map provider_cost_row (group_by aq_provider rows);
              buckets = map bucket_cost_row
                (group_by (\<lambda>a. (date_trunc (cw_bucket w) (the (aq_finished_at a)), aq_provider a)) rows)
          in Inr \<lparr>co_window = cw_key w, co_starts_at = starts, co_ends_at = ends,
                  co_finalized_through = finalized_through rows,
                  co_totals = cost_totals_of rows providers, co_providers = providers,
                  co_buckets = buckets, co_recent_sessions = recent_sessions d rows\<rparr>)"

section \<open>Lemmas\<close>

lemma sum_groups:
  "sum_list (map (\<lambda>k. sum_list (map f (filter (\<lambda>r. key r = k) rows))) ks) =
     (sum_list (map f (filter (\<lambda>r. key r \<in> set ks) rows)) :: 'b::comm_monoid_add)" if "distinct ks"
  using that
proof (induction ks)
  case Nil
  show ?case by simp
next
  case (Cons k ks)
  have "sum_list (map f (filter (\<lambda>r. key r = k) rows)) + sum_list (map f (filter (\<lambda>r. key r \<in> set ks) rows)) =
      sum_list (map f (filter (\<lambda>r. key r \<in> set (k # ks)) rows))"
    using Cons.prems by (induction rows) (auto simp: ac_simps)
  with Cons show ?case by simp
qed

lemma sum_group_by:
  "sum_list (map (\<lambda>(k, rs). sum_list (map f rs)) (group_by key rows)) = (sum_list (map f rows) :: 'b::comm_monoid_add)"
proof -
  let ?ks = "sort (remdups (map key rows))"
  have "sum_list (map (\<lambda>(k, rs). sum_list (map f rs)) (group_by key rows)) =
      sum_list (map (\<lambda>k. sum_list (map f (filter (\<lambda>r. key r = k) rows))) ?ks)"
    by (simp add: group_by_def comp_def)
  also have "\<dots> = sum_list (map f (filter (\<lambda>r. key r \<in> set ?ks) rows))" by (rule sum_groups) simp
  also have "filter (\<lambda>r. key r \<in> set ?ks) rows = rows" by (rule filter_True) auto
  finally show ?thesis .
qed

lemma total_group_by: "sum_list (map (\<lambda>(k, rs). total_of f rs) (group_by key rows)) = total_of f rows"
  unfolding total_of_def by (rule sum_group_by)

lemma length_group_by: "sum_list (map (\<lambda>(k, rs). length rs) (group_by key rows)) = length rows"
  using sum_group_by [of "\<lambda>_. 1::nat" key rows] by (simp add: sum_list_triv)

lemma count_group_by: "sum_list (map (\<lambda>(k, rs). count_where P rs) (group_by key rows)) = count_where P rows"
proof -
  have "count_where P rs = sum_list (map (\<lambda>r. if P r then 1 else 0) rs)" for rs
    by (induction rs) simp_all
  then show ?thesis using sum_group_by [of "\<lambda>r. if P r then 1 else (0::nat)" key rows] by simp
qed

lemma map_provider_rows:
  "map pc_attempt_count (map provider_cost_row g) = map (\<lambda>(k, rs). length rs) g"
  "map pc_failed_attempt_count (map provider_cost_row g) = map (\<lambda>(k, rs). count_where (\<lambda>a. aq_state a = A_Failed) rs) g"
  "map pc_modeled_cost_units (map provider_cost_row g) = map (\<lambda>(k, rs). total_of aq_modeled_cost_units rs) g"
  "map pc_chargeable_time_ms (map provider_cost_row g) = map (\<lambda>(k, rs). total_of aq_chargeable_time_ms rs) g"
  by (simp_all add: provider_cost_row_def split: prod.split)

lemma map_bucket_rows:
  "map bc_attempt_count (map bucket_cost_row g) = map (\<lambda>(k, rs). length rs) g"
  "map bc_modeled_cost_units (map bucket_cost_row g) = map (\<lambda>(k, rs). total_of aq_modeled_cost_units rs) g"
  by (simp_all add: bucket_cost_row_def split: prod.split)

lemma rates_ok_default: "rates_ok d \<Longrightarrow> rates_ok (ensure_default_rates wall d)"
  by (auto simp: rates_ok_def ensure_default_rates_def default_cost_rates_def rate_of_def lookup_None
      split: if_splits)

lemma update_rate_ok: "rates_ok d \<Longrightarrow> update_rate p u wall d = Inr (d', x) \<Longrightarrow> rates_ok d'"
proof (cases "rate_of d p")
  case None
  then show "rates_ok d \<Longrightarrow> update_rate p u wall d = Inr (d', x) \<Longrightarrow> ?thesis"
    by (auto simp: update_rate_def split: if_splits)
next
  case (Some r)
  assume ok: "rates_ok d" and up: "update_rate p u wall d = Inr (d', x)"
  have p: "cr_provider r = p" using Some lookup_Some by (fastforce simp: rate_of_def)
  from up Some have u: "0 \<le> u" and d': "db_rates d' = upd_where (\<lambda>x. cr_provider x = p)
      (\<lambda>_. r\<lparr>cr_units_per_second := u, cr_updated_at := wall\<rparr>) (db_rates d)"
    by (auto simp: update_rate_def Let_def split: if_splits)
  have "map cr_provider (db_rates d') = map cr_provider (db_rates d)"
    unfolding d' by (rule map_upd_where_key) (simp add: p)
  with ok u show ?thesis by (auto simp: rates_ok_def d' set_upd_where)
qed

lemma rate_tables:
  "db_sessions (ensure_default_rates wall d) = db_sessions d" "db_attempts (ensure_default_rates wall d) = db_attempts d"
  "db_instances (ensure_default_rates wall d) = db_instances d" "db_next_queue (ensure_default_rates wall d) = db_next_queue d"
  "db_events (ensure_default_rates wall d) = db_events d"
  by (simp_all add: ensure_default_rates_def default_cost_rates_def)

lemma update_rate_tables:
  "update_rate p u wall d = Inr (d', x) \<Longrightarrow> db_sessions d' = db_sessions d \<and> db_attempts d' = db_attempts d
     \<and> db_instances d' = db_instances d \<and> db_next_queue d' = db_next_queue d \<and> db_events d' = db_events d"
  by (auto simp: update_rate_def Let_def split: if_splits option.splits)

lemma evolves_same_tables:
  assumes "db_sessions d' = db_sessions d" "db_attempts d' = db_attempts d"
    "db_instances d' = db_instances d" "db_next_queue d' = db_next_queue d" "db_events d' = db_events d"
  shows "evolves d d'"
  using wf_db_cong [OF assms(1,2,3,4)] extends_cong [OF assms(1,2), of "[]"] assms(5) by (simp add: evolves_def)

lemma evolves_rates:
  "evolves d (ensure_default_rates wall d)"
  "update_rate p u wall d = Inr (d', x) \<Longrightarrow> evolves d d'"
  by (rule evolves_same_tables, simp_all add: rate_tables)
     (rule evolves_same_tables, auto dest: update_rate_tables)

end
