(* ===== verification/Fleet_Repository.thy ===== *)
theory Fleet_Repository
  imports Fleet_Policy External_Capacity Costs
begin

text \<open>
  The fleet repository (\<^verbatim>\<open>backend/fleet/repository.py\<close>): a managed provider's fleet row with
  its versioned configuration and the desired instance count, and the observed instances with the
  slots admission hands out. Observation, draining and the cancellation of a drain take the same
  provider lock as admission.
\<close>

section \<open>Configuration\<close>

definition fleet_configuration_of :: "provider_fleet \<Rightarrow> fleet_configuration" where
  "fleet_configuration_of r =
     \<lparr>fl_provider = pf_provider r, fl_minimum_instances = pf_minimum_instances r,
      fl_maximum_instances = pf_maximum_instances r, fl_session_capacity = pf_session_capacity r,
      fl_cooldown_seconds = pf_cooldown_seconds r, fl_max_queued = pf_max_queued r,
      fl_desired_instances = pf_desired_instances r,
      fl_configuration_version = pf_configuration_version r, fl_enabled = pf_enabled r,
      fl_idle_since = pf_idle_since r, fl_last_reconciled_at = pf_last_reconciled_at r,
      fl_controller_status = pf_controller_status r\<rparr>"

definition fleet_values :: "provider_fleet \<Rightarrow> fleet_config" where
  "fleet_values r = \<lparr>fc_minimum_instances = pf_minimum_instances r,
     fc_maximum_instances = pf_maximum_instances r, fc_session_capacity = pf_session_capacity r,
     fc_cooldown_seconds = pf_cooldown_seconds r, fc_max_queued = pf_max_queued r,
     fc_enabled = pf_enabled r\<rparr>"

definition validate_fleet :: "fleet_config \<Rightarrow> db_error option" where
  "validate_fleet c =
     (if fc_minimum_instances c < 0 \<or> fc_maximum_instances c < fc_minimum_instances c
      then Some (ValueError ''Fleet instance limits are invalid'')
      else if fc_maximum_instances c > 100
      then Some (ValueError ''Fleet maximum_instances cannot exceed 100'')
      else if fc_session_capacity c < 1
      then Some (ValueError ''Fleet session capacity must be positive'')
      else if fc_cooldown_seconds c < 1
      then Some (ValueError ''Fleet scale-down cooldown must be positive'')
      else if fc_max_queued c < 0
      then Some (ValueError ''Fleet queue limit must be non-negative'')
      else None)"

definition set_fleet :: "provider_name \<Rightarrow> (provider_fleet \<Rightarrow> provider_fleet) \<Rightarrow> db \<Rightarrow> db" where
  "set_fleet p f d = d\<lparr>db_fleets := upd_where (\<lambda>r. pf_provider r = p) f (db_fleets d)\<rparr>"

definition new_fleet_row :: "provider_name \<Rightarrow> fleet_config \<Rightarrow> time \<Rightarrow> provider_fleet" where
  "new_fleet_row p c now =
     \<lparr>pf_provider = p, pf_minimum_instances = fc_minimum_instances c,
      pf_maximum_instances = fc_maximum_instances c, pf_session_capacity = fc_session_capacity c,
      pf_cooldown_seconds = fc_cooldown_seconds c, pf_max_queued = fc_max_queued c,
      pf_desired_instances = fc_minimum_instances c, pf_configuration_version = 1,
      pf_enabled = True, pf_last_scale_up_at = None, pf_last_scale_down_at = None,
      pf_idle_since = None, pf_last_reconciled_at = None, pf_controller_status = None,
      pf_updated_at = now\<rparr>"

text \<open>\<open>ensure_fleet\<close> takes the five values; its \<open>enabled\<close> is the default \<open>True\<close>.\<close>

definition ensure_fleet ::
  "provider_name \<Rightarrow> fleet_config \<Rightarrow> time \<Rightarrow> db \<Rightarrow> (db \<times> fleet_configuration) result" where
  "ensure_fleet p c now d =
     (case validate_fleet c of
        Some e \<Rightarrow> Inl e
      | None \<Rightarrow>
          let d1 = (case fleet_of d p of
                      Some _ \<Rightarrow> d
                    | None \<Rightarrow> d\<lparr>db_fleets := db_fleets d @ [new_fleet_row p c now]\<rparr>)
          in Inr (d1, fleet_configuration_of (the (fleet_of d1 p))))"

definition list_configurations :: "db \<Rightarrow> fleet_configuration list" where
  "list_configurations d = map fleet_configuration_of (sort_key pf_provider (db_fleets d))"

definition configuration :: "db \<Rightarrow> provider_name \<Rightarrow> fleet_configuration option" where
  "configuration d p = map_option fleet_configuration_of (fleet_of d p)"

record fleet_update =
  fu_unknown :: "string list"
  fu_minimum_instances :: "int option"
  fu_maximum_instances :: "int option"
  fu_session_capacity :: "int option"
  fu_cooldown_seconds :: "int option"
  fu_max_queued :: "int option"
  fu_enabled :: "bool option"

definition apply_fleet_update :: "fleet_update \<Rightarrow> fleet_config \<Rightarrow> fleet_config" where
  "apply_fleet_update u c =
     \<lparr>fc_minimum_instances = given (fu_minimum_instances u) (fc_minimum_instances c),
      fc_maximum_instances = given (fu_maximum_instances u) (fc_maximum_instances c),
      fc_session_capacity = given (fu_session_capacity u) (fc_session_capacity c),
      fc_cooldown_seconds = given (fu_cooldown_seconds u) (fc_cooldown_seconds c),
      fc_max_queued = given (fu_max_queued u) (fc_max_queued c),
      fc_enabled = given (fu_enabled u) (fc_enabled c)\<rparr>"

definition configured_row :: "fleet_config \<Rightarrow> time \<Rightarrow> provider_fleet \<Rightarrow> provider_fleet" where
  "configured_row c now r =
     r\<lparr>pf_minimum_instances := fc_minimum_instances c, pf_maximum_instances := fc_maximum_instances c,
       pf_session_capacity := fc_session_capacity c, pf_cooldown_seconds := fc_cooldown_seconds c,
       pf_max_queued := fc_max_queued c, pf_enabled := fc_enabled c,
       pf_configuration_version := pf_configuration_version r + 1, pf_updated_at := now\<rparr>"

definition update_configuration ::
  "provider_name \<Rightarrow> fleet_update \<Rightarrow> string \<Rightarrow> time \<Rightarrow> db \<Rightarrow> (db \<times> fleet_configuration option) result" where
  "update_configuration p u actor now d =
     (if fu_unknown u \<noteq> [] then Inl (ValueError ''Unknown fleet configuration fields'')
      else case fleet_of d p of
        None \<Rightarrow> Inr (d, None)
      | Some r \<Rightarrow>
          let updated = apply_fleet_update u (fleet_values r)
          in case validate_fleet updated of
               Some e \<Rightarrow> Inl e
             | None \<Rightarrow>
                 let r' = configured_row updated now r;
                     d1 = set_fleet p (\<lambda>_. r') d;
                     d2 = d1\<lparr>db_fleet_events := db_fleet_events d1 @
                       [\<lparr>fe_provider = pf_provider r, fe_version = pf_configuration_version r',
                         fe_previous = fleet_values r, fe_new = updated, fe_actor = actor\<rparr>]\<rparr>
                 in Inr (d2, Some (fleet_configuration_of r')))"

section \<open>Evaluation\<close>

text \<open>The fleet repository counts the attempts of closing sessions too.\<close>

definition fleet_session_live :: "db \<Rightarrow> time \<Rightarrow> acquisition_attempt \<Rightarrow> bool" where
  "fleet_session_live d now a \<longleftrightarrow>
     (case session_of d (aq_session_id a) of
        None \<Rightarrow> False
      | Some s \<Rightarrow> live_session_state (gs_state s) \<and> later (gs_lease_expires_at s) now)"

definition fleet_attempt_count :: "db \<Rightarrow> provider_name \<Rightarrow> (attempt_state \<Rightarrow> bool) \<Rightarrow> time \<Rightarrow> nat" where
  "fleet_attempt_count d p states now =
     count_where (\<lambda>a. aq_provider a = p \<and> states (aq_state a) \<and> fleet_session_live d now a) (db_attempts d)"

definition provisioned_capacities :: "db \<Rightarrow> provider_name \<Rightarrow> time \<Rightarrow> int list" where
  "provisioned_capacities d p now =
     map pi_capacity (filter (\<lambda>i. pi_provider i = p \<and> pi_state i \<in> {FI_Starting, FI_Ready}
        \<and> now < pi_observation_expires_at i) (db_instances d))"

definition evaluate ::
  "provider_name \<Rightarrow> time \<Rightarrow> db \<Rightarrow> (db \<times> fleet_configuration \<times> scaling_decision_result) result" where
  "evaluate p now d =
     (case fleet_of d p of
        None \<Rightarrow> Inl (LookupError (''No managed fleet for '' @ provider_value p))
      | Some r \<Rightarrow>
          let demand = fleet_attempt_count d p live_attempt_state now;
              caps = provisioned_capacities d p now;
              decision = scaling_decision (fleet_configuration_of r) (int demand) now
                (Some (int (length caps))) (Some (sum_list caps));
              r1 = (if sd_desired_instances decision \<noteq> pf_desired_instances r
                    then (case sd_direction decision of
                            Some Scale_Up \<Rightarrow> r\<lparr>pf_last_scale_up_at := Some now\<rparr>
                          | Some Scale_Down \<Rightarrow> r\<lparr>pf_last_scale_down_at := Some now\<rparr>
                          | None \<Rightarrow> r)
                         \<lparr>pf_desired_instances := sd_desired_instances decision\<rparr>
                    else r);
              r2 = r1\<lparr>pf_idle_since := sd_idle_since decision, pf_updated_at := now\<rparr>
          in Inr (set_fleet p (\<lambda>_. r2) d, fleet_configuration_of r2, decision))"

section \<open>Observation\<close>

definition observed_capacity :: "provider_fleet \<Rightarrow> observed_instance \<Rightarrow> int" where
  "observed_capacity f ob =
     (case ob_session_capacity ob of
        Some c \<Rightarrow> if c \<noteq> 0 then c else pf_session_capacity f
      | None \<Rightarrow> pf_session_capacity f)"

text \<open>The two stamps written after the row is created or updated.\<close>

definition stamp_observation ::
  "time \<Rightarrow> observed_instance \<Rightarrow> fleet_instance_state option \<Rightarrow> provider_instance \<Rightarrow> provider_instance" where
  "stamp_observation now ob previous r =
     (let r1 = (if ob_state ob = FI_Ready \<and> previous \<noteq> Some FI_Ready then r\<lparr>pi_ready_at := Some now\<rparr> else r)
      in if ob_state ob = FI_Draining \<and> previous \<noteq> Some FI_Draining
         then r1\<lparr>pi_draining_at := Some now\<rparr> else r1)"

definition observed_row ::
  "provider_fleet \<Rightarrow> string \<Rightarrow> time \<Rightarrow> time \<Rightarrow> observed_instance \<Rightarrow> provider_instance \<Rightarrow> provider_instance" where
  "observed_row f platform now expires ob r =
     stamp_observation now ob (Some (pi_state r))
       (r\<lparr>pi_platform := platform, pi_endpoint := ob_endpoint ob,
          pi_state := (if pi_state r = FI_Draining \<and> ob_state ob = FI_Ready then pi_state r else ob_state ob),
          pi_capacity := observed_capacity f ob, pi_observed_at := now,
          pi_observation_expires_at := expires, pi_stopped_at := None,
          pi_started_at := (case ob_started_at ob of None \<Rightarrow> pi_started_at r | Some t \<Rightarrow> Some t)\<rparr>)"

definition new_instance_row ::
  "provider_fleet \<Rightarrow> provider_name \<Rightarrow> string \<Rightarrow> time \<Rightarrow> time \<Rightarrow> observed_instance \<Rightarrow> provider_instance" where
  "new_instance_row f p platform now expires ob =
     stamp_observation now ob None
       \<lparr>pi_id = ob_instance_id ob, pi_provider = p, pi_platform = platform, pi_endpoint = ob_endpoint ob,
        pi_state = ob_state ob, pi_capacity = observed_capacity f ob, pi_observed_at = now,
        pi_observation_expires_at = expires,
        pi_started_at = Some (case ob_started_at ob of None \<Rightarrow> now | Some t \<Rightarrow> t),
        pi_ready_at = None, pi_draining_at = None, pi_stopped_at = None\<rparr>"

text \<open>\<open>locked\<close> holds the identifiers of the rows that existed when the transaction locked them. A
  new identifier listed twice is inserted twice, which the primary key refuses; a capacity below one
  is refused by the table's check constraint.\<close>

definition observe_one ::
  "provider_fleet \<Rightarrow> provider_name \<Rightarrow> string \<Rightarrow> time \<Rightarrow> time \<Rightarrow> string list \<Rightarrow> observed_instance \<Rightarrow> db \<Rightarrow> db result" where
  "observe_one f p platform now expires locked ob d =
     (if observed_capacity f ob < 1 then Inl IntegrityError
      else if ob_instance_id ob \<in> set locked then
        Inr (d\<lparr>db_instances := upd_where (\<lambda>r. pi_id r = ob_instance_id ob)
                 (observed_row f platform now expires ob) (db_instances d)\<rparr>)
      else if instance_of d (ob_instance_id ob) \<noteq> None then Inl IntegrityError
      else Inr (d\<lparr>db_instances := db_instances d @ [new_instance_row f p platform now expires ob]\<rparr>))"

fun observe_all ::
  "provider_fleet \<Rightarrow> provider_name \<Rightarrow> string \<Rightarrow> time \<Rightarrow> time \<Rightarrow> string list \<Rightarrow> observed_instance list \<Rightarrow> db \<Rightarrow> db result" where
  "observe_all f p platform now expires locked [] d = Inr d"
| "observe_all f p platform now expires locked (ob # obs) d =
     (case observe_one f p platform now expires locked ob d of
        Inl e \<Rightarrow> Inl e
      | Inr d1 \<Rightarrow> observe_all f p platform now expires locked obs d1)"

definition stop_row :: "time \<Rightarrow> provider_instance \<Rightarrow> provider_instance" where
  "stop_row now r = r\<lparr>pi_state := FI_Stopped, pi_stopped_at := Some now, pi_observation_expires_at := now\<rparr>"

definition observe_instances ::
  "provider_name \<Rightarrow> observed_instance list \<Rightarrow> string \<Rightarrow> rat \<Rightarrow> time \<Rightarrow> db \<Rightarrow> db result" where
  "observe_instances p obs platform ttl now d =
     (case fleet_of d p of
        None \<Rightarrow> Inl (LookupError (''No managed fleet for '' @ provider_value p))
      | Some f \<Rightarrow>
          let d1 = lock_provider p d;
              expires = now + timedelta ttl;
              seen = map ob_instance_id obs;
              locked = map pi_id (sort_key pi_id (filter (\<lambda>r. pi_id r \<in> set seen
                         \<or> pi_provider r = p \<and> pi_state r \<noteq> FI_Stopped) (db_instances d1)))
          in case observe_all f p platform now expires locked obs d1 of
               Inl e \<Rightarrow> Inl e
             | Inr d2 \<Rightarrow>
                 Inr (d2\<lparr>db_instances := upd_where
                        (\<lambda>r. pi_id r \<in> set locked \<and> pi_provider r = p \<and> pi_id r \<notin> set seen)
                        (stop_row now) (db_instances d2)\<rparr>))"

section \<open>Draining\<close>

definition fleet_instance_occupied :: "db \<Rightarrow> time \<Rightarrow> string \<Rightarrow> nat" where
  "fleet_instance_occupied d now i =
     count_where (\<lambda>a. aq_instance_id a = Some i \<and> active_attempt_state (aq_state a)
        \<and> fleet_session_live d now a) (db_attempts d)"

definition set_instance :: "string \<Rightarrow> (provider_instance \<Rightarrow> provider_instance) \<Rightarrow> db \<Rightarrow> db" where
  "set_instance i f d = d\<lparr>db_instances := upd_where (\<lambda>r. pi_id r = i) f (db_instances d)\<rparr>"

definition prepare_scale_down :: "provider_name \<Rightarrow> string \<Rightarrow> time \<Rightarrow> db \<Rightarrow> db \<times> bool" where
  "prepare_scale_down p i now d =
     (let d1 = lock_provider p d
      in case instance_of d1 i of
           None \<Rightarrow> (d1, False)
         | Some r \<Rightarrow>
             if pi_provider r \<noteq> p then (d1, False)
             else
               let d2 = set_instance i (\<lambda>r. r\<lparr>pi_state := FI_Draining,
                          pi_draining_at := (case pi_draining_at r of None \<Rightarrow> Some now | Some t \<Rightarrow> Some t)\<rparr>) d1
               in (d2, fleet_instance_occupied d2 now i = 0))"

definition cancel_scale_down :: "provider_name \<Rightarrow> db \<Rightarrow> db" where
  "cancel_scale_down p d =
     (let d1 = lock_provider p d
      in d1\<lparr>db_instances := upd_where (\<lambda>r. pi_provider r = p \<and> pi_state r = FI_Draining)
              (\<lambda>r. r\<lparr>pi_state := FI_Starting, pi_draining_at := None\<rparr>) (db_instances d1)\<rparr>)"

definition record_reconciliation :: "provider_name \<Rightarrow> string \<Rightarrow> time \<Rightarrow> db \<Rightarrow> db" where
  "record_reconciliation p status now d =
     (case fleet_of d p of
        None \<Rightarrow> d
      | Some _ \<Rightarrow> set_fleet p (\<lambda>r. r\<lparr>pf_controller_status := Some status,
          pf_last_reconciled_at := Some now, pf_updated_at := now\<rparr>) d)"

section \<open>Reads\<close>

record fleet_instance =
  fi_instance_id :: string
  fi_provider :: provider_name
  fi_platform :: string
  fi_endpoint :: string
  fi_state :: fleet_instance_state
  fi_capacity :: int
  fi_observed_at :: time
  fi_observation_expires_at :: time

definition instance_contract :: "provider_instance \<Rightarrow> fleet_instance" where
  "instance_contract r = \<lparr>fi_instance_id = pi_id r, fi_provider = pi_provider r,
     fi_platform = pi_platform r, fi_endpoint = pi_endpoint r, fi_state = pi_state r,
     fi_capacity = pi_capacity r, fi_observed_at = pi_observed_at r,
     fi_observation_expires_at = pi_observation_expires_at r\<rparr>"

definition fleet_instances :: "db \<Rightarrow> provider_name \<Rightarrow> fleet_instance list" where
  "fleet_instances d p =
     map instance_contract (sort_key pi_id (filter (\<lambda>i. pi_provider i = p) (db_instances d)))"

text \<open>The dictionary from instance to its first assignment, as a lookup.\<close>

definition first_assignment_times :: "db \<Rightarrow> provider_name \<Rightarrow> string list \<Rightarrow> string \<Rightarrow> time option" where
  "first_assignment_times d p ids i =
     (if i \<notin> set ids then None
      else case map (\<lambda>a. the (aq_acquiring_at a))
             (filter (\<lambda>a. aq_provider a = p \<and> aq_instance_id a = Some i \<and> aq_acquiring_at a \<noteq> None)
                (db_attempts d)) of
             [] \<Rightarrow> None
           | t # ts \<Rightarrow> Some (fold min ts t))"

record fleet_snapshot =
  fs_configuration :: fleet_configuration
  fs_observed_instances :: nat
  fs_ready_instances :: nat
  fs_draining_instances :: nat
  fs_unhealthy_instances :: nat
  fs_total_slots :: int
  fs_occupied_slots :: nat
  fs_available_slots :: int
  fs_active_attempts :: nat
  fs_queued_attempts :: nat

definition snapshot :: "db \<Rightarrow> provider_name \<Rightarrow> time \<Rightarrow> fleet_snapshot option" where
  "snapshot d p now =
     (case fleet_of d p of
        None \<Rightarrow> None
      | Some r \<Rightarrow>
          let rows = filter (\<lambda>i. pi_provider i = p) (db_instances d);
              active = fleet_attempt_count d p active_attempt_state now;
              queued = fleet_attempt_count d p (\<lambda>s. s = A_Queued) now;
              ready = filter (\<lambda>i. pi_state i = FI_Ready \<and> now < pi_observation_expires_at i) rows;
              total = sum_list (map pi_capacity ready)
          in Some \<lparr>fs_configuration = fleet_configuration_of r,
               fs_observed_instances = count_where (\<lambda>i. pi_state i \<noteq> FI_Stopped) rows,
               fs_ready_instances = length ready,
               fs_draining_instances = count_where (\<lambda>i. pi_state i = FI_Draining) rows,
               fs_unhealthy_instances = count_where (\<lambda>i. pi_state i = FI_Unhealthy) rows,
               fs_total_slots = total, fs_occupied_slots = active,
               fs_available_slots = max 0 (total - int active),
               fs_active_attempts = active, fs_queued_attempts = queued\<rparr>)"

section \<open>Which operations keep the invariant\<close>

lemma set_fleet_tables [simp]:
  "db_sessions (set_fleet p f d) = db_sessions d" "db_attempts (set_fleet p f d) = db_attempts d"
  "db_instances (set_fleet p f d) = db_instances d" "db_next_queue (set_fleet p f d) = db_next_queue d"
  "db_events (set_fleet p f d) = db_events d" "db_limits (set_fleet p f d) = db_limits d"
  "db_fleets (set_fleet p f d) = upd_where (\<lambda>r. pf_provider r = p) f (db_fleets d)"
  by (simp_all add: set_fleet_def)

lemma evolves_ensure_fleet: "ensure_fleet p c now d = Inr (d', x) \<Longrightarrow> evolves d d'"
  by (rule evolves_same_tables) (auto simp: ensure_fleet_def Let_def split: option.splits)

lemma evolves_update_configuration: "update_configuration p u actor now d = Inr (d', x) \<Longrightarrow> evolves d d'"
  by (rule evolves_same_tables)
     (auto simp: update_configuration_def Let_def split: option.splits if_splits)

lemma evolves_evaluate: "evaluate p now d = Inr (d', x) \<Longrightarrow> evolves d d'"
  by (rule evolves_same_tables) (auto simp: evaluate_def Let_def split: option.splits if_splits)

lemma evolves_record_reconciliation: "evolves d (record_reconciliation p status now d)"
  by (rule evolves_same_tables) (auto simp: record_reconciliation_def split: option.splits)

text \<open>A change of the instance table keeps the invariant when the rows keep their identity and
  provider.\<close>

definition same_instance :: "provider_instance \<Rightarrow> provider_instance \<Rightarrow> bool" where
  "same_instance i j \<longleftrightarrow> pi_id j = pi_id i \<and> pi_provider j = pi_provider i"

lemma evolves_instances:
  assumes g: "grows same_instance (db_instances d) (db_instances d')"
    and dis: "distinct (map pi_id (db_instances d'))"
    and same: "db_sessions d' = db_sessions d" "db_attempts d' = db_attempts d"
      "db_next_queue d' = db_next_queue d" "db_events d' = db_events d"
  shows "evolves d d'"
  unfolding evolves_def
proof (intro impI conjI)
  assume wf: "wf_db d"
  have "slot_link (db_instances d') a" if "a \<in> set (db_attempts d)" for a
  proof -
    have "\<exists>j \<in> set (db_instances d'). same_instance i j" if "i \<in> set (db_instances d)" for i
      using grows_mem [OF g that] .
    with wf_dbD(6) [OF wf that] show ?thesis by (fastforce simp: slot_link_def same_instance_def)
  qed
  with wf dis show "wf_db d'" by (auto simp: wf_db_def same)
  show "extends d d'" using extends_cong [OF same(1,2), of "[]"] same(4) by simp
qed

lemma grows_same_upd:
  "(\<And>r. pi_id (f r) = pi_id r \<and> pi_provider (f r) = pi_provider r) \<Longrightarrow>
   grows same_instance xs (upd_where P f xs)"
  by (rule grows_upd) (simp_all add: same_instance_def)

lemma evolves_upd_instances:
  assumes f: "\<And>r. pi_id (f r) = pi_id r \<and> pi_provider (f r) = pi_provider r"
    and d': "db_instances d' = upd_where P f (db_instances d)"
    and same: "db_sessions d' = db_sessions d" "db_attempts d' = db_attempts d"
      "db_next_queue d' = db_next_queue d" "db_events d' = db_events d"
  shows "evolves d d'"
proof (cases "wf_db d")
  case wf: True
  show ?thesis
  proof (rule evolves_instances [OF _ _ same])
    show "grows same_instance (db_instances d) (db_instances d')"
      unfolding d' by (rule grows_same_upd) (rule f)
    show "distinct (map pi_id (db_instances d'))"
      unfolding d' using wf_dbD(3) [OF wf] map_upd_where_key [of P pi_id f] f by simp
  qed
qed (simp add: evolves_def)

lemma evolves_prepare_scale_down: "evolves d (fst (prepare_scale_down p i now d))"
proof -
  let ?f = "\<lambda>r. r\<lparr>pi_state := FI_Draining, pi_draining_at := (case pi_draining_at r of None \<Rightarrow> Some now | Some t \<Rightarrow> Some t)\<rparr>"
  have "evolves (lock_provider p d) (set_instance i ?f (lock_provider p d))"
    by (rule evolves_upd_instances [where P = "\<lambda>r. pi_id r = i" and f = ?f])
       (auto simp: set_instance_def)
  then have "evolves d (set_instance i ?f (lock_provider p d))"
    by (rule evolves_trans [OF evolves_lock(1)])
  then show ?thesis by (simp add: prepare_scale_down_def Let_def split: option.split)
qed

lemma evolves_cancel_scale_down: "evolves d (cancel_scale_down p d)"
  by (rule evolves_upd_instances [where P = "\<lambda>r. pi_provider r = p \<and> pi_state r = FI_Draining"
        and f = "\<lambda>r. r\<lparr>pi_state := FI_Starting, pi_draining_at := None\<rparr>"])
     (auto simp: cancel_scale_down_def Let_def)

section \<open>Observation\<close>

lemma stamp_fields [simp]:
  "pi_id (stamp_observation now ob prev r) = pi_id r" "pi_provider (stamp_observation now ob prev r) = pi_provider r"
  "pi_state (stamp_observation now ob prev r) = pi_state r" "pi_capacity (stamp_observation now ob prev r) = pi_capacity r"
  "pi_observation_expires_at (stamp_observation now ob prev r) = pi_observation_expires_at r"
  by (simp_all add: stamp_observation_def Let_def)

lemma observed_row_fields [simp]:
  "pi_id (observed_row f pl now ex ob r) = pi_id r" "pi_provider (observed_row f pl now ex ob r) = pi_provider r"
  "pi_capacity (observed_row f pl now ex ob r) = observed_capacity f ob"
  "pi_state (observed_row f pl now ex ob r) =
     (if pi_state r = FI_Draining \<and> ob_state ob = FI_Ready then pi_state r else ob_state ob)"
  by (simp_all add: observed_row_def)

lemma new_instance_fields [simp]:
  "pi_id (new_instance_row f p pl now ex ob) = ob_instance_id ob"
  "pi_provider (new_instance_row f p pl now ex ob) = p"
  "pi_capacity (new_instance_row f p pl now ex ob) = observed_capacity f ob"
  "pi_state (new_instance_row f p pl now ex ob) = ob_state ob"
  by (simp_all add: new_instance_row_def)

lemma observe_one_tables:
  "observe_one f p pl now ex locked ob d = Inr d' \<Longrightarrow>
     db_sessions d' = db_sessions d \<and> db_attempts d' = db_attempts d \<and> db_next_queue d' = db_next_queue d
     \<and> db_events d' = db_events d \<and> db_fleets d' = db_fleets d"
  by (auto simp: observe_one_def split: if_splits)

lemma evolves_observe_one:
  assumes ob: "observe_one f p pl now ex locked ob d = Inr d'"
  shows "evolves d d'"
proof (cases "ob_instance_id ob \<in> set locked")
  case True
  with ob have d': "d' = d\<lparr>db_instances := upd_where (\<lambda>r. pi_id r = ob_instance_id ob) (observed_row f pl now ex ob) (db_instances d)\<rparr>"
    by (simp add: observe_one_def split: if_splits)
  show ?thesis
    by (rule evolves_upd_instances [where P = "\<lambda>r. pi_id r = ob_instance_id ob" and f = "observed_row f pl now ex ob"])
       (auto simp: d')
next
  case False
  with ob have fresh: "instance_of d (ob_instance_id ob) = None" and cap: "1 \<le> observed_capacity f ob"
    and d': "d' = d\<lparr>db_instances := db_instances d @ [new_instance_row f p pl now ex ob]\<rparr>"
    by (auto simp: observe_one_def split: if_splits)
  have fr: "ob_instance_id ob \<notin> pi_id ` set (db_instances d)"
    using fresh by (auto simp: instance_of_def lookup_None)
  show ?thesis
  proof (cases "wf_db d")
    case wf: True
    show ?thesis
    proof (rule evolves_instances)
      show "grows same_instance (db_instances d) (db_instances d')"
        by (simp add: d') (rule grows_append, rule grows_refl, simp add: same_instance_def)
      show "distinct (map pi_id (db_instances d'))" using wf_dbD(3) [OF wf] fr by (simp add: d')
    qed (simp_all add: d')
  qed (simp add: evolves_def)
qed

lemma evolves_observe_all:
  assumes "observe_all f p pl now ex locked obs d = Inr d'"
  shows "evolves d d' \<and> db_attempts d' = db_attempts d"
  using assms
proof (induction obs arbitrary: d)
  case Nil
  then show ?case by simp
next
  case (Cons ob obs)
  from Cons.prems obtain d1 where d1: "observe_one f p pl now ex locked ob d = Inr d1"
    "observe_all f p pl now ex locked obs d1 = Inr d'" by (auto split: sum.splits)
  note t = observe_one_tables [OF d1(1)]
  have "evolves d1 d' \<and> db_attempts d' = db_attempts d1"
    by (rule Cons.IH [OF d1(2)])
  moreover have "evolves d d1" by (rule evolves_observe_one [OF d1(1)])
  ultimately show ?case using t evolves_trans by auto
qed

lemma evolves_observe:
  assumes ob: "observe_instances p obs platform ttl now d = Inr d'"
  shows "evolves d d'"
proof -
  from ob obtain f where f: "fleet_of d p = Some f" by (auto simp: observe_instances_def split: option.splits)
  define locked where "locked = map pi_id (sort_key pi_id (filter (\<lambda>r. pi_id r \<in> set (map ob_instance_id obs)
    \<or> pi_provider r = p \<and> pi_state r \<noteq> FI_Stopped) (db_instances d)))"
  from ob f obtain d2 where d2: "observe_all f p platform now (now + timedelta ttl) locked obs (lock_provider p d) = Inr d2"
    and d': "d' = d2\<lparr>db_instances := upd_where
        (\<lambda>r. pi_id r \<in> set locked \<and> pi_provider r = p \<and> pi_id r \<notin> set (map ob_instance_id obs))
        (stop_row now) (db_instances d2)\<rparr>"
    by (auto simp: observe_instances_def Let_def locked_def split: sum.splits)
  have "evolves (lock_provider p d) d2 \<and> db_attempts d2 = db_attempts (lock_provider p d)"
    by (rule evolves_observe_all [OF d2])
  moreover have "evolves d2 d'"
    by (rule evolves_upd_instances [where P = "\<lambda>r. pi_id r \<in> set locked \<and> pi_provider r = p \<and> pi_id r \<notin> set (map ob_instance_id obs)"
          and f = "stop_row now"])
       (auto simp: d' stop_row_def)
  ultimately show ?thesis using evolves_lock(1) evolves_trans by blast
qed

section \<open>A drained instance\<close>

lemma instance_of_upd:
  "(\<And>r. pi_id (f r) = pi_id r) \<Longrightarrow> instance_of (d\<lparr>db_instances := upd_where P f (db_instances d)\<rparr>) i =
     map_option (\<lambda>r. if P r then f r else r) (instance_of d i)"
  by (simp add: instance_of_def lookup_upd_where)

definition instance_state :: "db \<Rightarrow> string \<Rightarrow> fleet_instance_state option" where
  "instance_state d i = map_option pi_state (instance_of d i)"

lemma prepare_drains:
  assumes "instance_of d i = Some r" "pi_provider r = p"
  shows "instance_state (fst (prepare_scale_down p i now d)) i = Some FI_Draining"
proof -
  have "pi_id r = i" using lookup_Some [of pi_id i "db_instances d" r] assms(1) by (simp add: instance_of_def)
  with assms show ?thesis
    by (simp add: prepare_scale_down_def Let_def set_instance_def instance_of_def lookup_upd_where instance_state_def)
qed

lemma observe_one_drained:
  assumes "observe_one f p pl now ex locked ob d = Inr d'" "instance_state d i = Some FI_Draining"
    "ob_instance_id ob = i \<Longrightarrow> ob_state ob \<in> {FI_Ready, FI_Draining}"
  shows "instance_state d' i = Some FI_Draining"
proof -
  from assms(2) obtain z where z: "lookup pi_id i (db_instances d) = Some z" "pi_state z = FI_Draining"
    by (auto simp: instance_state_def instance_of_def)
  then have "pi_id z = i" by (auto dest: lookup_Some)
  with z assms(1,3) show ?thesis
    by (cases "ob_instance_id ob = i")
       (auto simp: observe_one_def instance_state_def instance_of_def lookup_upd_where lookup_append split: if_splits)
qed

lemma observe_all_drained:
  assumes "observe_all f p pl now ex locked obs d = Inr d'" "instance_state d i = Some FI_Draining"
    "\<forall>ob \<in> set obs. ob_instance_id ob = i \<longrightarrow> ob_state ob \<in> {FI_Ready, FI_Draining}"
  shows "instance_state d' i = Some FI_Draining"
  using assms
proof (induction obs arbitrary: d)
  case Nil
  then show ?case by simp
next
  case (Cons ob obs)
  from Cons.prems(1) obtain d1 where d1: "observe_one f p pl now ex locked ob d = Inr d1"
    "observe_all f p pl now ex locked obs d1 = Inr d'" by (auto split: sum.splits)
  have "instance_state d1 i = Some FI_Draining"
    by (rule observe_one_drained [OF d1(1) Cons.prems(2)]) (use Cons.prems(3) in auto)
  with Cons.IH [OF d1(2)] Cons.prems(3) show ?case by simp
qed

lemma observe_keeps_drained:
  assumes ob: "observe_instances p obs platform ttl now d = Inr d'" and dr: "instance_state d i = Some FI_Draining"
    and ready: "\<forall>ob \<in> set obs. ob_instance_id ob = i \<longrightarrow> ob_state ob \<in> {FI_Ready, FI_Draining}"
  shows "instance_state d' i \<in> {Some FI_Draining, Some FI_Stopped}"
proof -
  from ob obtain f where f: "fleet_of d p = Some f" by (auto simp: observe_instances_def split: option.splits)
  from ob f obtain locked d2 where d2: "observe_all f p platform now (now + timedelta ttl) locked obs (lock_provider p d) = Inr d2"
    and d': "d' = d2\<lparr>db_instances := upd_where
        (\<lambda>r. pi_id r \<in> set locked \<and> pi_provider r = p \<and> pi_id r \<notin> set (map ob_instance_id obs))
        (stop_row now) (db_instances d2)\<rparr>"
    by (auto simp: observe_instances_def Let_def split: sum.splits)
  have "instance_state d2 i = Some FI_Draining"
    by (rule observe_all_drained [OF d2]) (use dr ready in \<open>simp_all add: instance_state_def instance_of_def\<close>)
  then obtain z where "lookup pi_id i (db_instances d2) = Some z" "pi_state z = FI_Draining"
    by (auto simp: instance_state_def instance_of_def)
  then show ?thesis
    by (simp add: d' instance_state_def instance_of_def lookup_upd_where stop_row_def)
qed

text \<open>Admission never selects an instance that is not ready.\<close>

lemma not_ready_not_selected:
  assumes wf: "wf_db d" and st: "instance_state d i \<noteq> Some FI_Ready" and sel: "select_instance d p now = Some j"
  shows "pi_id j \<noteq> i"
proof
  assume "pi_id j = i"
  moreover from select_instance_Some [OF sel] have "j \<in> set (db_instances d)" "pi_state j = FI_Ready" by auto
  ultimately have "instance_of d i = Some j"
    unfolding instance_of_def using lookup_distinct [OF wf_dbD(3) [OF wf]] by blast
  with \<open>pi_state j = FI_Ready\<close> st show False by (simp add: instance_state_def)
qed

end
