(* ===== verification/Gateway_System.thy ===== *)
theory Gateway_System
  imports Fleet_Repository Costs
begin

text \<open>
  The gateway as one transition system: every transaction of the session, attempt, external
  capacity, cost rate and fleet repositories is a label, with the instant its clock read returned. Transactions
  of concurrent gateways and of the fleet controller interleave in any order and with clocks that
  need not agree; a transaction that raises leaves the database as it was. The invariant of
  \<^verbatim>\<open>Db_Invariant\<close> and the growth order of \<^verbatim>\<open>Lifecycle\<close> are lifted to all reachable states by
  the contracts of \<^verbatim>\<open>Prelude\<close>.
\<close>

datatype gw_op =
    Op_Admit rat stolosio_session int json "string option"
  | Op_Heartbeat rat stolosio_session
  | Op_Open rat stolosio_session
  | Op_Release stolosio_session bool string
  | Op_Enqueue stolosio_session string provider_name json json "string option"
  | Op_Claim stolosio_session provider_attempt
  | Op_Activate provider_attempt
  | Op_Bind provider_attempt "string option" "time option"
  | Op_Usage provider_attempt "time option"
  | Op_Finish provider_attempt bool string "json option" "json option"
  | Op_Ensure_Limit provider_name bool int int
  | Op_Update_Limit "string option" provider_name limit_values string
  | Op_Ensure_Fleet provider_name fleet_config
  | Op_Update_Fleet provider_name fleet_update string
  | Op_Evaluate provider_name
  | Op_Observe provider_name "observed_instance list" string rat
  | Op_Drain provider_name string
  | Op_Cancel_Drain provider_name
  | Op_Reconciled provider_name string
  | Op_Default_Rates
  | Op_Update_Rate provider_name int

text \<open>The database after a transaction: the committed one, or the old one after a rollback.\<close>

definition commit :: "db \<Rightarrow> (db \<times> 'a) result \<Rightarrow> db" where
  "commit d r = (case r of Inl _ \<Rightarrow> d | Inr (d', _) \<Rightarrow> d')"

fun gw_apply :: "gw_op \<Rightarrow> time \<Rightarrow> db \<Rightarrow> db" where
  "gw_apply (Op_Admit lease s m req ref) now d = commit d (admit lease s m req ref now d)"
| "gw_apply (Op_Heartbeat lease s) now d = fst (heartbeat lease s now d)"
| "gw_apply (Op_Open lease s) now d = fst (open_session lease s now d)"
| "gw_apply (Op_Release s failed reason) now d = fst (release_session s failed reason now d)"
| "gw_apply (Op_Enqueue s aid p res src repl) now d = commit d (enqueue s aid p res src repl now d)"
| "gw_apply (Op_Claim s att) now d = commit d (claim s att now d)"
| "gw_apply (Op_Activate att) now d = fst (activate att now d)"
| "gw_apply (Op_Bind att psid started) now d = bind_provider_session att psid started d"
| "gw_apply (Op_Usage att ended) now d = record_provider_usage att ended now d"
| "gw_apply (Op_Finish att failed reason c ph) now d = fst (finish_attempt att failed reason c ph now d)"
| "gw_apply (Op_Ensure_Limit p e a q) now d = commit d (ensure_limit p e a q now d)"
| "gw_apply (Op_Update_Limit token p values actor) now d = commit d (update_limit token p values actor now d)"
| "gw_apply (Op_Ensure_Fleet p c) now d = commit d (ensure_fleet p c now d)"
| "gw_apply (Op_Update_Fleet p u actor) now d = commit d (update_configuration p u actor now d)"
| "gw_apply (Op_Evaluate p) now d = commit d (evaluate p now d)"
| "gw_apply (Op_Observe p obs platform ttl) now d =
     (case observe_instances p obs platform ttl now d of Inl _ \<Rightarrow> d | Inr d' \<Rightarrow> d')"
| "gw_apply (Op_Drain p i) now d = fst (prepare_scale_down p i now d)"
| "gw_apply (Op_Cancel_Drain p) now d = cancel_scale_down p d"
| "gw_apply (Op_Reconciled p status) now d = record_reconciliation p status now d"
| "gw_apply Op_Default_Rates now d = ensure_default_rates now d"
| "gw_apply (Op_Update_Rate p units) now d = commit d (update_rate p units now d)"

inductive gw_step :: "db \<Rightarrow> gw_op \<times> time \<Rightarrow> db \<Rightarrow> bool" where
  gw_transaction: "gw_step d (op, now) (gw_apply op now d)"

inductive_cases gw_stepE: "gw_step d l d'"
inductive_simps gw_step_simps: "gw_step d (op, now) d'"

definition gw_init :: "db \<Rightarrow> bool" where
  "gw_init d \<longleftrightarrow> d = empty_db"

abbreviation gw_reachable :: "db \<Rightarrow> bool" where
  "gw_reachable \<equiv> reach gw_init gw_step"

section \<open>Every step evolves the database\<close>

lemma evolves_commit: "(\<And>d' x. r = Inr (d', x) \<Longrightarrow> evolves d d') \<Longrightarrow> evolves d (commit d r)"
  by (auto simp: commit_def split: sum.split)

lemma evolves_apply: "evolves d (gw_apply op now d)"
proof (cases op)
  case (Op_Observe p obs platform ttl)
  then show ?thesis using evolves_observe [of p obs platform ttl now d] by (auto split: sum.split)
qed (auto simp: evolves_heartbeat evolves_open evolves_release evolves_activate evolves_bind evolves_usage
    evolves_finish evolves_prepare_scale_down evolves_cancel_scale_down evolves_record_reconciliation evolves_rates(1)
    intro!: evolves_commit
    intro: evolves_admit evolves_enqueue evolves_claim limit_update_tables [THEN conjunct1]
      evolves_ensure_fleet evolves_update_configuration evolves_evaluate evolves_rates(2))

lemma evolves_step: "gw_step d l d' \<Longrightarrow> evolves d d'"
  by (auto elim!: gw_stepE intro: evolves_apply)

interpretation gateway: monotone_system gw_init gw_step wf_db extends
proof unfold_locales
  show "gw_init s \<Longrightarrow> wf_db s" for s by (simp add: gw_init_def wf_empty)
  show "wf_db s \<Longrightarrow> gw_step s l t \<Longrightarrow> wf_db t" for s l t
    using evolves_step by (simp add: evolves_def)
  show "wf_db s \<Longrightarrow> gw_step s l t \<Longrightarrow> extends s t" for s l t
    using evolves_step by (simp add: evolves_def)
qed (auto intro: extends_trans)

end
