(* ===== verification/Gateway_Invariants.thy ===== *)
theory Gateway_Invariants
  imports Gateway_System
begin

text \<open>
  Two further invariants of the gateway system: a session never has more than two live attempts,
  and the live sessions never exceed the largest admission limit in use. Both rest on one fact
  about all other operations: they rewrite rows in place, and a row that was not live does not
  become live.
\<close>

section \<open>Tables rewritten in place\<close>

definition inplace :: "db \<Rightarrow> db \<Rightarrow> bool" where
  "inplace d d' \<longleftrightarrow> length (db_attempts d') = length (db_attempts d)"

definition inplace_sessions :: "db \<Rightarrow> db \<Rightarrow> bool" where
  "inplace_sessions d d' \<longleftrightarrow> length (db_sessions d') = length (db_sessions d)"

lemma length_upd_where [simp]: "length (upd_where P f rows) = length rows"
  by (simp add: upd_where_def)

lemma inplace_tables:
  assumes "wf_db d"
  shows "length (db_attempts (expire_stale_sessions now d)) = length (db_attempts d)"
    "length (db_attempts (expire_stale_attempts p now d)) = length (db_attempts d)"
    "length (db_sessions (expire_stale_sessions now d)) = length (db_sessions d)"
  using assms by (simp_all add: expire_stale_sessions_tables expire_stale_attempts_table)

lemma inplace_release:
  "wf_db d \<Longrightarrow> length (db_attempts (fst (release_session s failed reason now d))) = length (db_attempts d)
     \<and> length (db_sessions (fst (release_session s failed reason now d))) = length (db_sessions d)"
  by (cases "owned d s")
     (simp_all add: release_sessions_attempts(1) release_sessions, simp_all add: release_session_def)

lemma inplace_claim:
  assumes "wf_db d" "claim s att now d = Inr (d', res)"
  shows "length (db_attempts d') = length (db_attempts d) \<and> db_sessions d' = db_sessions d"
  using assms(2) by (cases rule: claim_cases) (use assms(1) in \<open>auto simp: inplace_tables(2)\<close>)

lemma inplace_finish:
  "length (db_attempts (fst (finish_attempt att failed reason c ph now d))) = length (db_attempts d)
     \<and> db_sessions (fst (finish_attempt att failed reason c ph now d)) = db_sessions d"
  by (simp add: finish_attempt_def Let_def split: option.split)

lemma inplace_observe_all:
  "observe_all f p pl now ex locked obs d = Inr d' \<Longrightarrow>
     db_sessions d' = db_sessions d \<and> db_attempts d' = db_attempts d"
  by (induction obs arbitrary: d) (auto split: sum.splits dest!: observe_one_tables)

lemma inplace_observe:
  "observe_instances p obs platform ttl now d = Inr d' \<Longrightarrow> db_sessions d' = db_sessions d \<and> db_attempts d' = db_attempts d"
  by (auto simp: observe_instances_def Let_def split: option.splits sum.splits dest!: inplace_observe_all)

lemma fleet_tables:
  "db_sessions (fst (prepare_scale_down p i now d)) = db_sessions d"
  "db_attempts (fst (prepare_scale_down p i now d)) = db_attempts d"
  "db_sessions (cancel_scale_down p d) = db_sessions d" "db_attempts (cancel_scale_down p d) = db_attempts d"
  "db_sessions (record_reconciliation p status now d) = db_sessions d"
  "db_attempts (record_reconciliation p status now d) = db_attempts d"
  "ensure_fleet p c now d = Inr (d', x) \<Longrightarrow> db_sessions d' = db_sessions d \<and> db_attempts d' = db_attempts d"
  "update_configuration p u actor now d = Inr (d', y) \<Longrightarrow> db_sessions d' = db_sessions d \<and> db_attempts d' = db_attempts d"
  "evaluate p now d = Inr (d', z) \<Longrightarrow> db_sessions d' = db_sessions d \<and> db_attempts d' = db_attempts d"
  by (auto simp: prepare_scale_down_def cancel_scale_down_def record_reconciliation_def set_instance_def
      ensure_fleet_def update_configuration_def evaluate_def Let_def split: option.splits if_splits)

lemma row_op_tables:
  "db_sessions (fst (activate att now d)) = db_sessions d" "length (db_attempts (fst (activate att now d))) = length (db_attempts d)"
  "db_sessions (bind_provider_session att ps st d) = db_sessions d"
  "length (db_attempts (bind_provider_session att ps st d)) = length (db_attempts d)"
  "db_sessions (record_provider_usage att e now d) = db_sessions d"
  "length (db_attempts (record_provider_usage att e now d)) = length (db_attempts d)"
  "length (db_sessions (fst (heartbeat lease s now d))) = length (db_sessions d)"
  "db_attempts (fst (heartbeat lease s now d)) = db_attempts d"
  "length (db_sessions (fst (open_session lease s now d))) = length (db_sessions d)"
  "db_attempts (fst (open_session lease s now d)) = db_attempts d"
  by (simp_all add: activate_def bind_provider_session_def record_provider_usage_def heartbeat_def
      open_session_def Let_def split: option.split)

text \<open>Only \<open>enqueue\<close> inserts an attempt and only \<open>admit\<close> inserts a session.\<close>

fun inserts_attempt :: "gw_op \<Rightarrow> bool" where
  "inserts_attempt (Op_Enqueue s aid p res src repl) = True"
| "inserts_attempt _ = False"

fun inserts_session :: "gw_op \<Rightarrow> bool" where
  "inserts_session (Op_Admit lease s m req ref) = True"
| "inserts_session _ = False"

lemma commit_table:
  "(\<And>d' x. r = Inr (d', x) \<Longrightarrow> f d' = f d) \<Longrightarrow> f (commit d r) = f d"
  by (auto simp: commit_def split: sum.split)

lemma enqueue_sessions: "enqueue s aid p res src repl now d = Inr (d', x) \<Longrightarrow> db_sessions d' = db_sessions d"
proof -
  assume "enqueue s aid p res src repl now d = Inr (d', x)"
  then have "enqueue s aid p res src repl now d = Inr (d', fst x, snd x)" by simp
  then show ?thesis by (cases rule: enqueue_cases) simp
qed

lemma admit_attempts_length:
  "wf_db d \<Longrightarrow> admit lease s m req ref now d = Inr (d', x) \<Longrightarrow> length (db_attempts d') = length (db_attempts d)"
  by (simp add: admit_cases(4) inplace_tables(1))

lemma op_keeps_attempt_count:
  assumes wf: "wf_db d" and op: "\<not> inserts_attempt op"
  shows "length (db_attempts (gw_apply op now d)) = length (db_attempts d)"
  using op
proof (cases op)
  case (Op_Observe p obs platform ttl)
  then show ?thesis
    using inplace_observe [of p obs platform ttl now d] by (auto split: sum.split)
qed (auto simp: row_op_tables fleet_tables(1-6) inplace_finish inplace_release [OF wf] rate_tables
    intro!: commit_table [where f = "\<lambda>d. length (db_attempts d)"]
    dest: fleet_tables(7-9) limit_update_tables update_rate_tables admit_attempts_length [OF wf] inplace_claim [OF wf])

lemma op_keeps_session_count:
  assumes wf: "wf_db d" and op: "\<not> inserts_session op"
  shows "length (db_sessions (gw_apply op now d)) = length (db_sessions d)"
  using op
proof (cases op)
  case (Op_Observe p obs platform ttl)
  then show ?thesis
    using inplace_observe [of p obs platform ttl now d] by (auto split: sum.split)
qed (auto simp: row_op_tables fleet_tables(1-6) inplace_finish inplace_release [OF wf] rate_tables
    intro!: commit_table [where f = "\<lambda>d. length (db_sessions d)"]
    dest: fleet_tables(7-9) limit_update_tables update_rate_tables enqueue_sessions inplace_claim [OF wf])

section \<open>Liveness only fades\<close>

lemma grows_same_length: "grows rel xs ys \<Longrightarrow> length ys = length xs \<Longrightarrow> list_all2 rel xs ys"
proof -
  assume "grows rel xs ys" and len: "length ys = length xs"
  then obtain us vs where "ys = us @ vs" "list_all2 rel xs us" by (auto simp: grows_def)
  with len list_all2_lengthD [of rel xs us] show ?thesis by simp
qed

lemma count_list_all2_le:
  assumes "list_all2 rel xs ys" "\<And>x y. x \<in> set xs \<Longrightarrow> rel x y \<Longrightarrow> P y \<Longrightarrow> P x"
  shows "count_where P ys \<le> count_where P xs"
  using assms by (induction rule: list_all2_induct) (auto simp: le_SucI)

definition live_of :: "string \<Rightarrow> acquisition_attempt \<Rightarrow> bool" where
  "live_of sid a \<longleftrightarrow> aq_session_id a = sid \<and> live_attempt_state (aq_state a)"

lemma attempt_liveness_fades:
  "attempt_ok a \<Longrightarrow> attempt_moves a b \<Longrightarrow> live_of sid b \<Longrightarrow> live_of sid a"
  using attempt_rank_le [of "aq_state a"]
  by (cases "aq_state a") (auto simp: live_of_def attempt_moves_def attempt_ok_def live_rank)

lemma session_liveness_fades:
  "session_ok r \<Longrightarrow> session_moves r s \<Longrightarrow> live_session_state (gs_state s) \<Longrightarrow> live_session_state (gs_state r)"
  by (cases "gs_state r") (auto simp: session_moves_def session_ok_def)

lemma live_of_fades:
  assumes wf: "wf_db d" and ex: "extends d d'" and len: "length (db_attempts d') = length (db_attempts d)"
  shows "count_where (live_of sid) (db_attempts d') \<le> count_where (live_of sid) (db_attempts d)"
  by (rule count_list_all2_le [OF grows_same_length [OF _ len], of attempt_moves])
     (use ex wf_dbD(5) [OF wf] attempt_liveness_fades in \<open>auto simp: extends_def\<close>)

lemma live_sessions_fade:
  assumes wf: "wf_db d" and ex: "extends d d'" and len: "length (db_sessions d') = length (db_sessions d)"
  shows "live_sessions d' \<le> live_sessions d"
  unfolding live_sessions_def
  by (rule count_list_all2_le [OF grows_same_length [OF _ len], of session_moves])
     (use ex wf_dbD(4) [OF wf] session_liveness_fades in \<open>auto simp: extends_def\<close>)

section \<open>At most two live attempts per session\<close>

definition pairs_ok :: "db \<Rightarrow> bool" where
  "pairs_ok d \<longleftrightarrow> (\<forall>sid. count_where (live_of sid) (db_attempts d) \<le> 2)"

lemma live_attempts_count: "length (live_attempts_of d sid) = count_where (live_of sid) (db_attempts d)"
  by (simp add: live_attempts_of_def count_where_def live_of_def [abs_def])

lemma source_error_single: "source_error repl live = None \<Longrightarrow> length live \<le> 1"
  by (auto simp: source_error_def split: option.splits if_splits list.splits)

lemma enqueue_pairs:
  assumes wf: "wf_db d" and pk: "pairs_ok d" and enq: "enqueue s aid p res src repl now d = Inr (d', st, att)"
  shows "pairs_ok d'"
  unfolding pairs_ok_def
proof
  fix sid
  let ?d1 = "expire_stale_attempts p now (lock_provider p d)"
  have fade: "count_where (live_of i) (db_attempts ?d1) \<le> count_where (live_of i) (db_attempts d)" for i
    by (rule live_of_fades [OF wf evolvesD(2) [OF evolves_sweep wf]])
       (use inplace_tables(2) [of "lock_provider p d"] wf in simp)
  from enq show "count_where (live_of sid) (db_attempts d') \<le> 2"
  proof (cases rule: enqueue_cases)
    case (1 cap)
    have "count_where (live_of (ss_session_id s)) (db_attempts ?d1) \<le> 1"
      using source_error_single [OF 1(2)] by (simp add: live_attempts_count)
    moreover have "count_where (live_of sid) (db_attempts ?d1) \<le> 2"
      using fade [of sid] pk by (simp add: pairs_ok_def le_trans)
    ultimately show ?thesis
      unfolding 1(7) by (cases "sid = ss_session_id s") (simp_all add: live_of_def)
  qed
qed

lemma pairs_step:
  assumes wf: "wf_db d" and pk: "pairs_ok d" and st: "gw_step d l d'"
  shows "pairs_ok d'"
proof -
  from st obtain op now where l: "l = (op, now)" and d': "d' = gw_apply op now d"
    by (auto elim: gw_stepE)
  show ?thesis
  proof (cases "inserts_attempt op")
    case True
    then obtain s aid p res src repl where op: "op = Op_Enqueue s aid p res src repl"
      by (cases op) auto
    show ?thesis
    proof (cases "enqueue s aid p res src repl now d")
      case (Inl e)
      with pk show ?thesis by (simp add: d' op commit_def)
    next
      case (Inr r)
      then have "pairs_ok (fst r)"
        using enqueue_pairs [OF wf pk, of s aid p res src repl now "fst r" "fst (snd r)" "snd (snd r)"] by simp
      with Inr show ?thesis by (cases r) (simp add: d' op commit_def)
    qed
  next
    case False
    have "extends d d'" using evolves_step [OF st] wf by (simp add: evolves_def)
    with live_of_fades [OF wf this] op_keeps_attempt_count [OF wf False] pk show ?thesis
      unfolding pairs_ok_def d' by (meson le_trans)
  qed
qed

interpretation pairs: invariant_system gw_init gw_step "\<lambda>d. wf_db d \<and> pairs_ok d"
proof unfold_locales
  show "gw_init s \<Longrightarrow> wf_db s \<and> pairs_ok s" for s
    using wf_empty by (auto simp: gw_init_def pairs_ok_def empty_db_def)
  show "wf_db s \<and> pairs_ok s \<Longrightarrow> gw_step s l t \<Longrightarrow> wf_db t \<and> pairs_ok t" for s l t
    using pairs_step [of s l t] evolvesD(1) [OF evolves_step [of s l t]] by blast
qed

section \<open>The session limit\<close>

fun admits_within :: "int \<Rightarrow> gw_op \<Rightarrow> bool" where
  "admits_within M (Op_Admit lease s m req ref) \<longleftrightarrow> m \<le> M"
| "admits_within M _ \<longleftrightarrow> True"

definition capped_step :: "int \<Rightarrow> db \<Rightarrow> gw_op \<times> time \<Rightarrow> db \<Rightarrow> bool" where
  "capped_step M d l d' \<longleftrightarrow> gw_step d l d' \<and> admits_within M (fst l)"

lemma capped_live_sessions:
  assumes wf: "wf_db d" and le: "int (live_sessions d) \<le> M" and st: "capped_step M d l d'"
  shows "int (live_sessions d') \<le> M"
proof -
  from st obtain op now where l: "l = (op, now)" "admits_within M op" and d': "d' = gw_apply op now d"
    and gs: "gw_step d l d'"
    by (cases l) (auto simp: capped_step_def gw_step_simps)
  show ?thesis
  proof (cases "inserts_session op")
    case True
    then obtain lease s m req ref where op: "op = Op_Admit lease s m req ref" by (cases op) auto
    show ?thesis
    proof (cases "admit lease s m req ref now d")
      case (Inl e)
      with le show ?thesis by (simp add: d' op commit_def)
    next
      case (Inr r)
      then have a: "admit lease s m req ref now d = Inr (fst r, snd r)" by simp
      have "live_sessions (expire_stale_sessions now (lock_gateway d)) \<le> live_sessions (lock_gateway d)"
        by (rule live_sessions_sweep) (simp add: wf)
      then have "live_sessions (expire_stale_sessions now (lock_gateway d)) \<le> live_sessions d"
        by (simp add: live_sessions_def)
      with admit_live_sessions [OF wf a] le l op have "int (live_sessions (fst r)) \<le> M" by auto
      with Inr show ?thesis by (cases r) (simp add: d' op commit_def)
    qed
  next
    case False
    have "extends d d'" using evolves_step [OF gs] wf by (simp add: evolves_def)
    with live_sessions_fade [OF wf this] op_keeps_session_count [OF wf False] le show ?thesis
      unfolding d' by fastforce
  qed
qed

interpretation capped: invariant_system "\<lambda>d. gw_init d \<and> 0 \<le> M" "capped_step M"
  "\<lambda>d. wf_db d \<and> int (live_sessions d) \<le> M" for M
proof unfold_locales
  show "gw_init s \<and> 0 \<le> M \<Longrightarrow> wf_db s \<and> int (live_sessions s) \<le> M" for s
    using wf_empty by (auto simp: gw_init_def live_sessions_def empty_db_def)
  show "wf_db s \<and> int (live_sessions s) \<le> M \<Longrightarrow> capped_step M s l t \<Longrightarrow> wf_db t \<and> int (live_sessions t) \<le> M" for s l t
    using capped_live_sessions [of s M l t] evolvesD(1) [OF evolves_step [of s l t]]
    unfolding capped_step_def by blast
qed

end
