(* ===== verification/Gateway_Runs.thy ===== *)
theory Gateway_Runs
  imports Gateway_Invariants
begin

text \<open>
  Facts about runs of the gateway: which operations assign a slot, what happens to an instance that
  is being drained, and what happens to a session whose lease has run out; executable traces for
  concrete examples.
\<close>

section \<open>Traces\<close>

definition run_trace :: "(gw_op \<times> time) list \<Rightarrow> db \<Rightarrow> db" where
  "run_trace tr d = fold (\<lambda>(op, now) d. gw_apply op now d) tr d"

lemma trace_steps: "steps gw_step d tr (run_trace tr d)"
proof (induction tr arbitrary: d)
  case (Cons l tr)
  obtain op now where l: "l = (op, now)" by (cases l)
  show ?case using steps_Cons [OF gw_transaction Cons.IH, of d op now] by (simp add: l run_trace_def)
qed (simp add: run_trace_def steps_Nil)

lemma steps_reach: "steps step d ls d' \<Longrightarrow> reach init step d \<Longrightarrow> reach init step d'"
  by (induction rule: steps.induct) (auto intro: reach_step)

lemma trace_reachable: "gw_reachable (run_trace tr empty_db)"
  by (rule steps_reach [OF trace_steps]) (auto intro: reach_init simp: gw_init_def)

section \<open>Slot assignments\<close>

text \<open>Only \<open>enqueue\<close> and \<open>claim\<close> write the instance of an attempt.\<close>

fun assigns :: "gw_op \<Rightarrow> bool" where
  "assigns (Op_Enqueue s aid p res src repl) = True"
| "assigns (Op_Claim s att) = True"
| "assigns _ = False"

definition assignments :: "db \<Rightarrow> (string \<times> string option) list" where
  "assignments d = map (\<lambda>a. (aq_id a, aq_instance_id a)) (db_attempts d)"

lemma ended_row_instance [simp]: "aq_instance_id (ended_row rates now failed reason r) = aq_instance_id r"
  by (simp add: ended_row_def)

lemma assignments_upd:
  assumes "db_attempts d' = upd_where P f (db_attempts d)" "\<And>a. aq_id (f a) = aq_id a \<and> aq_instance_id (f a) = aq_instance_id a"
  shows "assignments d' = assignments d"
  unfolding assignments_def assms(1) by (rule map_upd_where_key) (simp add: assms(2))

lemma assignments_same: "db_attempts d' = db_attempts d \<Longrightarrow> assignments d' = assignments d"
  by (simp add: assignments_def)

lemma assignments_expiry:
  assumes "wf_db d"
  shows "assignments (expire_stale_sessions now d) = assignments d"
    "assignments (expire_stale_attempts p now d) = assignments d"
  by (rule assignments_upd [OF expire_stale_sessions_tables(2) [OF assms]], simp)
     (rule assignments_upd [OF expire_stale_attempts_table [OF assms]], simp)

lemma assignments_lock [simp]: "assignments (lock_provider p d) = assignments d" "assignments (lock_gateway d) = assignments d"
  by (simp_all add: assignments_def)

lemma assignments_release: "wf_db d \<Longrightarrow> assignments (fst (release_session s failed reason now d)) = assignments d"
proof (cases "owned d s")
  case None
  then show ?thesis by (simp add: release_session_def)
next
  case (Some r)
  show "wf_db d \<Longrightarrow> ?thesis"
    by (rule assignments_upd [OF release_sessions_attempts(1) [OF _ Some]]) simp_all
qed

lemma assignments_rows:
  "assignments (fst (activate att now d)) = assignments d"
  "assignments (bind_provider_session att ps st d) = assignments d"
  "assignments (record_provider_usage att e now d) = assignments d"
  "assignments (fst (finish_attempt att failed reason c ph now d)) = assignments d"
  by (simp_all add: activate_def bind_provider_session_def record_provider_usage_def finish_attempt_def Let_def
      assignments_def map_upd_where_key split: option.split)

lemma assignments_kept:
  "assignments (fst (heartbeat lease s now d)) = assignments d"
  "assignments (fst (open_session lease s now d)) = assignments d"
  "assignments (fst (prepare_scale_down p i now d)) = assignments d"
  "assignments (cancel_scale_down p d) = assignments d"
  "assignments (record_reconciliation p status now d) = assignments d"
  "assignments (ensure_default_rates now d) = assignments d"
  by (simp_all add: assignments_def row_op_tables fleet_tables(1-6) rate_tables)

lemma op_keeps_assignments:
  assumes wf: "wf_db d" and op: "\<not> assigns op"
  shows "assignments (gw_apply op now d) = assignments d"
  using op
proof (cases op)
  case (Op_Observe p obs platform ttl)
  then show ?thesis
    using inplace_observe [of p obs platform ttl now d] by (auto simp: assignments_def split: sum.split)
next
  case (Op_Admit lease s m req ref)
  have "assignments d' = assignments d" if "admit lease s m req ref now d = Inr (d', x)" for d' x
    using assignments_same [OF admit_cases(4) [OF that]] assignments_expiry(1) [of "lock_gateway d" now] wf by simp
  then show ?thesis unfolding Op_Admit gw_apply.simps by (rule commit_table)
qed (auto simp: assignments_kept assignments_rows assignments_release [OF wf]
    intro!: assignments_same commit_table [where f = db_attempts]
    dest: fleet_tables(7-9) limit_update_tables update_rate_tables)

lemma take_slot_of:
  assumes wf: "wf_db d" and st: "instance_state d i \<noteq> Some FI_Ready"
    and a: "(x, Some i) \<in> set (assignments (gw_apply op now d))"
  shows "(x, Some i) \<in> set (assignments d)"
proof (cases "assigns op")
  case False
  with a op_keeps_assignments [OF wf] show ?thesis by simp
next
  case True
  have sweep: "assignments (expire_stale_attempts p now (lock_provider p d)) = assignments d" for p
    using assignments_expiry(2) [of "lock_provider p d"] wf by simp
  have nosel: "pi_id j \<noteq> i" if "select_instance (expire_stale_attempts p now (lock_provider p d)) p now = Some j" for p j
    by (rule not_ready_not_selected [OF wf_sweep [OF wf] _ that])
       (use st in \<open>simp add: instance_state_def instance_of_def\<close>)
  from True consider (enq) s aid p res src repl where "op = Op_Enqueue s aid p res src repl"
    | (cl) s att where "op = Op_Claim s att" by (cases op) auto
  then show ?thesis
  proof cases
    case enq
    show ?thesis
    proof (cases "enqueue s aid p res src repl now d")
      case (Inl e)
      with a show ?thesis by (simp add: enq commit_def)
    next
      case (Inr r)
      obtain d' st' att where r: "r = (d', st', att)" by (cases r) auto
      from Inr r a have a': "(x, Some i) \<in> set (assignments d')" by (simp add: enq commit_def)
      from Inr [unfolded r] show ?thesis
      proof (cases rule: enqueue_cases)
        case (1 cap)
        have "aq_instance_id (placed_row st' now (chosen_instance (expire_stale_attempts p now (lock_provider p d)) p now cap)
            (new_attempt_row (expire_stale_attempts p now (lock_provider p d)) s aid p res src now)) \<noteq> Some i"
          using nosel [OF chosen_instance_Some]
          by (cases st'; cases "chosen_instance (expire_stale_attempts p now (lock_provider p d)) p now cap")
             (simp_all add: acquire_row_def queue_row_def full_row_def)
        moreover have "assignments d' = assignments (expire_stale_attempts p now (lock_provider p d)) @
            [(aid, aq_instance_id (placed_row st' now
              (chosen_instance (expire_stale_attempts p now (lock_provider p d)) p now cap)
              (new_attempt_row (expire_stale_attempts p now (lock_provider p d)) s aid p res src now)))]"
          by (simp add: assignments_def 1(7))
        then have "assignments d' = assignments d @ [(aid, aq_instance_id (placed_row st' now
              (chosen_instance (expire_stale_attempts p now (lock_provider p d)) p now cap)
              (new_attempt_row (expire_stale_attempts p now (lock_provider p d)) s aid p res src now)))]"
          unfolding sweep .
        ultimately show ?thesis using a' by simp
      qed
    qed
  next
    case cl
    let ?p = "pa_provider att" let ?d1 = "expire_stale_attempts ?p now (lock_provider ?p d)"
    show ?thesis
    proof (cases "claim s att now d")
      case (Inl e)
      with a show ?thesis by (simp add: cl commit_def)
    next
      case (Inr r)
      obtain d' res where r: "r = (d', res)" by (cases r) auto
      from Inr r a have a': "(x, Some i) \<in> set (assignments d')" by (simp add: cl commit_def)
      from Inr [unfolded r] show ?thesis
      proof (cases rule: claim_cases)
        case none
        then show ?thesis using a' sweep by auto
      next
        case (claimed row inst)
        have "map_option pi_id inst \<noteq> Some i" using claimed(9) nosel by auto
        with a' claimed(8) have "(x, Some i) \<in> set (assignments ?d1)"
          by (cases inst) (auto simp: assignments_def set_upd_where acquire_row_def split: if_splits)
        then show ?thesis by (simp add: sweep)
      qed
    qed
  qed
qed

section \<open>Slots in use\<close>

text \<open>The attempts that hold a slot of an instance, whether or not their session's lease has run out.\<close>

definition slots_held :: "db \<Rightarrow> string \<Rightarrow> nat" where
  "slots_held d i = count_where (holds_slot i) (db_attempts d)"

lemma count_where_rows:
  "list_all2 (\<lambda>a b. P b \<longrightarrow> P a) xs ys \<Longrightarrow> count_where P ys \<le> count_where P xs"
  by (induction rule: list_all2_induct) (auto simp: count_where_def)

lemma slots_held_same_assignments:
  assumes wf: "wf_db d" and ev: "evolves d d'" and same: "assignments d' = assignments d"
  shows "slots_held d' i \<le> slots_held d i"
proof -
  have len: "length (db_attempts d') = length (db_attempts d)"
    using arg_cong [OF same, of length] by (simp add: assignments_def)
  have rows: "holds_slot i (db_attempts d ! n)" if n: "n < length (db_attempts d)" "holds_slot i (db_attempts d' ! n)" for n
  proof -
    let ?a = "db_attempts d ! n" and ?b = "db_attempts d' ! n"
    have ab: "aq_id ?b = aq_id ?a" "aq_instance_id ?b = aq_instance_id ?a"
      using arg_cong [OF same, of "\<lambda>xs. xs ! n"] n(1) len by (simp_all add: assignments_def)
    have "attempt_of d (aq_id ?a) = Some ?a"
      unfolding attempt_of_def using n(1) by (intro lookup_distinct [OF wf_dbD(2) [OF wf]]) simp_all
    then obtain c where c: "attempt_of d' (aq_id ?a) = Some c" "attempt_moves ?a c"
      using extends_attempt [OF evolvesD(2) [OF ev wf]] by blast
    have "attempt_of d' (aq_id ?a) = Some ?b"
      unfolding attempt_of_def using n(1) len ab by (intro lookup_distinct [OF wf_dbD(2) [OF evolvesD(1) [OF ev wf]]]) simp_all
    with c have m: "attempt_moves ?a ?b" by simp
    have i: "aq_instance_id ?a = Some i" using n(2) ab by (simp add: holds_slot_def)
    have "attempt_ok ?a" using wf_dbD(5) [OF wf] n(1) by simp
    then have "aq_state ?a \<noteq> A_Requested" "aq_state ?a \<noteq> A_Queued" using i by (auto simp: attempt_ok_def)
    moreover have "attempt_rank (aq_state ?a) < 4"
      using n(2) m by (cases "aq_state ?b") (auto simp: holds_slot_def attempt_moves_def)
    ultimately show ?thesis using i by (cases "aq_state ?a") (auto simp: holds_slot_def)
  qed
  show ?thesis unfolding slots_held_def
    by (rule count_where_rows) (use len rows in \<open>auto simp: list_all2_conv_all_nth\<close>)
qed

lemma slots_held_sweep:
  assumes "wf_db d" shows "slots_held (expire_stale_attempts p now (lock_provider p d)) i \<le> slots_held d i"
  by (rule slots_held_same_assignments [OF assms evolves_sweep])
     (use assignments_expiry(2) [of "lock_provider p d"] assms in simp)

text \<open>An attempt that newly holds a slot was placed on an instance with room, by enqueue or by claim; no other
  operation adds to the slots in use.\<close>

lemma enqueue_slots:
  assumes wf: "wf_db d" and enq: "enqueue s aid p res src repl now d = Inr (d', st, att)"
    and inst: "inst \<in> set (db_instances d')"
  shows "int (slots_held d' (pi_id inst)) \<le> pi_capacity inst \<or> slots_held d' (pi_id inst) \<le> slots_held d (pi_id inst)"
  using enq
proof (cases rule: enqueue_cases)
  case (1 cap)
  let ?d1 = "expire_stale_attempts p now (lock_provider p d)"
  let ?ch = "chosen_instance ?d1 p now cap"
  let ?row = "placed_row st now ?ch (new_attempt_row ?d1 s aid p res src now)"
  have sum: "slots_held d' i = slots_held ?d1 i + (if holds_slot i ?row then 1 else 0)" for i
    by (simp add: slots_held_def 1(7))
  show ?thesis
  proof (cases "holds_slot (pi_id inst) ?row")
    case True
    then obtain j where j: "?ch = Some j" "pi_id inst = pi_id j" by (auto simp: holds_slot_def split: admission_status.splits)
    have "int (count_where (holds_slot (pi_id inst)) (db_attempts ?d1)) < pi_capacity inst"
      by (rule selected_free [OF wf_sweep [OF wf] swept_sweep [OF wf] chosen_instance_Some [OF j(1)] _ j(2)])
        (use inst 1 in simp)
    then show ?thesis using True by (simp add: sum) (simp add: slots_held_def)
  next
    case False
    then show ?thesis using slots_held_sweep [OF wf, of p now "pi_id inst"] by (simp add: sum)
  qed
qed

lemma claim_slots:
  assumes wf: "wf_db d" and cl: "claim s att now d = Inr (d', res)" and inst: "inst \<in> set (db_instances d')"
  shows "int (slots_held d' (pi_id inst)) \<le> pi_capacity inst \<or> slots_held d' (pi_id inst) \<le> slots_held d (pi_id inst)"
  using cl
proof (cases rule: claim_cases)
  case none
  then show ?thesis using slots_held_sweep [OF wf] by auto
next
  case (claimed row ch)
  let ?p = "pa_provider att" let ?d1 = "expire_stale_attempts ?p now (lock_provider ?p d)"
  note wf1 = wf_sweep [OF wf, of ?p now]
  have at: "db_attempts d' = upd_where (\<lambda>b. aq_id b = aq_id row) (acquire_row now ch) (db_attempts ?d1)"
    by (simp add: claimed(8))
  show ?thesis
  proof (cases "holds_slot (pi_id inst) (acquire_row now ch row)")
    case True
    then obtain j where j: "ch = Some j" "pi_id inst = pi_id j" by (auto simp: holds_slot_def acquire_row_def)
    have sel: "select_instance ?d1 ?p now = Some j" using claimed(9) j(1) by auto
    have "int (count_where (holds_slot (pi_id inst)) (db_attempts ?d1)) < pi_capacity inst"
      by (rule selected_free [OF wf1 swept_sweep [OF wf] sel _ j(2)]) (use inst claimed(8) in simp)
    moreover have "slots_held d' (pi_id inst) \<le> Suc (slots_held ?d1 (pi_id inst))"
      unfolding slots_held_def at by (rule count_upd_key_le_Suc [OF wf_dbD(2) [OF wf1]])
    ultimately show ?thesis by (simp add: slots_held_def)
  next
    case False
    have "slots_held d' (pi_id inst) \<le> slots_held ?d1 (pi_id inst)"
      unfolding slots_held_def at
      by (rule count_upd_where_le) (use False attempt_key_unique [OF wf1 claimed(3)] in blast)
    then show ?thesis using slots_held_sweep [OF wf, of ?p now "pi_id inst"] by simp
  qed
qed

lemma slots_step:
  assumes wf: "wf_db d" and inst: "inst \<in> set (db_instances (gw_apply op now d))"
  shows "int (slots_held (gw_apply op now d) (pi_id inst)) \<le> pi_capacity inst
    \<or> slots_held (gw_apply op now d) (pi_id inst) \<le> slots_held d (pi_id inst)"
proof (cases "assigns op")
  case False
  then show ?thesis using slots_held_same_assignments [OF wf evolves_apply op_keeps_assignments [OF wf False]] by blast
next
  case True
  then consider (enq) s aid p res src repl where "op = Op_Enqueue s aid p res src repl"
    | (cl) s att where "op = Op_Claim s att" by (cases op) auto
  then show ?thesis
  proof cases
    case enq
    show ?thesis
    proof (cases "enqueue s aid p res src repl now d")
      case (Inr r)
      obtain d' st att where r: "r = (d', st, att)" by (cases r)
      show ?thesis using enqueue_slots [OF wf Inr [unfolded r]] inst Inr by (simp add: enq commit_def r)
    qed (simp add: enq commit_def)
  next
    case cl
    show ?thesis
    proof (cases "claim s att now d")
      case (Inr r)
      obtain d' res where r: "r = (d', res)" by (cases r)
      show ?thesis using claim_slots [OF wf Inr [unfolded r]] inst Inr by (simp add: cl commit_def r)
    qed (simp add: cl commit_def)
  qed
qed

section \<open>Draining\<close>

text \<open>A step is quiet for an instance when no controller cancels a drain of its fleet, none reports
  the instance as anything but ready or draining, and a stopped instance is not reported again.\<close>

fun quiet :: "string \<Rightarrow> db \<Rightarrow> gw_op \<Rightarrow> bool" where
  "quiet i d (Op_Observe p obs platform ttl) \<longleftrightarrow>
     list_all (\<lambda>ob. ob_instance_id ob = i \<longrightarrow>
        ob_state ob \<in> {FI_Ready, FI_Draining} \<and> instance_state d i \<noteq> Some FI_Stopped) obs"
| "quiet i d (Op_Cancel_Drain p) \<longleftrightarrow> False"
| "quiet i d _ \<longleftrightarrow> True"

definition quiet_step :: "string \<Rightarrow> db \<Rightarrow> gw_op \<times> time \<Rightarrow> db \<Rightarrow> bool" where
  "quiet_step i d l d' \<longleftrightarrow> gw_step d l d' \<and> quiet i d (fst l)"

definition retired :: "string \<Rightarrow> db \<Rightarrow> bool" where
  "retired i d \<longleftrightarrow> instance_state d i \<in> {Some FI_Draining, Some FI_Stopped}"

lemma observe_all_stopped:
  assumes "observe_all f p pl now ex locked obs d = Inr d'" "\<forall>ob \<in> set obs. ob_instance_id ob \<noteq> i"
  shows "instance_of d' i = instance_of d i"
  using assms
proof (induction obs arbitrary: d)
  case (Cons ob obs)
  from Cons.prems(1) obtain d1 where d1: "observe_one f p pl now ex locked ob d = Inr d1"
    "observe_all f p pl now ex locked obs d1 = Inr d'" by (auto split: sum.splits)
  have "instance_of d1 i = instance_of d i"
    using d1(1) Cons.prems(2) lookup_Some [of pi_id i "db_instances d"]
    by (auto simp: observe_one_def instance_of_def lookup_upd_where lookup_append split: if_splits option.splits
        intro!: option.map_ident_strong)
  with Cons.IH [OF d1(2)] Cons.prems(2) show ?case by simp
qed simp

lemma observe_keeps_stopped:
  assumes ob: "observe_instances p obs platform ttl now d = Inr d'" and st: "instance_state d i = Some FI_Stopped"
    and no: "\<forall>ob \<in> set obs. ob_instance_id ob \<noteq> i"
  shows "instance_state d' i = Some FI_Stopped"
proof -
  from ob obtain f where f: "fleet_of d p = Some f" by (auto simp: observe_instances_def split: option.splits)
  from ob f obtain locked d2 where d2: "observe_all f p platform now (now + timedelta ttl) locked obs (lock_provider p d) = Inr d2"
    and d': "d' = d2\<lparr>db_instances := upd_where
        (\<lambda>r. pi_id r \<in> set locked \<and> pi_provider r = p \<and> pi_id r \<notin> set (map ob_instance_id obs))
        (stop_row now) (db_instances d2)\<rparr>"
    by (auto simp: observe_instances_def Let_def split: sum.splits)
  have "instance_of d2 i = instance_of (lock_provider p d) i" by (rule observe_all_stopped [OF d2 no])
  with st obtain z where "lookup pi_id i (db_instances d2) = Some z" "pi_state z = FI_Stopped"
    by (auto simp: instance_state_def instance_of_def)
  then show ?thesis
    by (simp add: d' instance_state_def instance_of_def lookup_upd_where stop_row_def)
qed

lemma retired_same_instances: "db_instances d' = db_instances d \<Longrightarrow> retired i d \<Longrightarrow> retired i d'"
  by (simp add: retired_def instance_state_def instance_of_def)

lemma op_instances:
  "db_instances (fst (heartbeat lease s now d)) = db_instances d"
  "db_instances (fst (open_session lease s now d)) = db_instances d"
  "db_instances (fst (activate att now d)) = db_instances d"
  "db_instances (bind_provider_session att ps st d) = db_instances d"
  "db_instances (record_provider_usage att e now d) = db_instances d"
  "db_instances (fst (finish_attempt att failed reason c ph now d)) = db_instances d"
  "db_instances (record_reconciliation p status now d) = db_instances d"
  "db_instances (ensure_default_rates now d) = db_instances d"
  by (simp_all add: rate_tables heartbeat_def open_session_def activate_def bind_provider_session_def record_provider_usage_def
      finish_attempt_def record_reconciliation_def Let_def split: option.split)

lemma commit_instances:
  "admit lease s m req ref now d = Inr (d', x1) \<Longrightarrow> db_instances d' = db_instances d"
  "ensure_limit p e a q now d = Inr (d', x2) \<Longrightarrow> db_instances d' = db_instances d"
  "update_limit token p values actor now d = Inr (d', x3) \<Longrightarrow> db_instances d' = db_instances d"
  "ensure_fleet p c now d = Inr (d', x4) \<Longrightarrow> db_instances d' = db_instances d"
  "update_configuration p u actor now d = Inr (d', x5) \<Longrightarrow> db_instances d' = db_instances d"
  "evaluate p now d = Inr (d', x6) \<Longrightarrow> db_instances d' = db_instances d"
proof -
  show "admit lease s m req ref now d = Inr (d', x1) \<Longrightarrow> db_instances d' = db_instances d"
    by (simp add: admit_cases(5))
qed (auto simp: ensure_limit_def update_limit_def ensure_fleet_def update_configuration_def evaluate_def set_limit_def Let_def
    split: option.splits if_splits)

lemma enqueue_instances: "enqueue s aid p res src repl now d = Inr (d', x) \<Longrightarrow> db_instances d' = db_instances d"
proof -
  assume "enqueue s aid p res src repl now d = Inr (d', x)"
  then have "enqueue s aid p res src repl now d = Inr (d', fst x, snd x)" by simp
  then show ?thesis by (cases rule: enqueue_cases) simp
qed

lemma claim_instances: "claim s att now d = Inr (d', x) \<Longrightarrow> db_instances d' = db_instances d"
  by (erule claim_cases) auto

lemma release_instances: "wf_db d \<Longrightarrow> db_instances (fst (release_session s failed reason now d)) = db_instances d"
  by (cases "owned d s") (simp_all add: release_sessions_attempts(2), simp add: release_session_def)

text \<open>Where the capacity of an instance comes from: the last observation of it that a committed transaction
  reports, or else it is what it was.\<close>

fun reports :: "db \<Rightarrow> gw_op \<Rightarrow> time \<Rightarrow> string \<Rightarrow> int list" where
  "reports d (Op_Observe p obs platform ttl) now i =
     (case (fleet_of d p, observe_instances p obs platform ttl now d) of
        (Some f, Inr _) \<Rightarrow>
          map (\<lambda>ob. case ob_session_capacity ob of
                Some c \<Rightarrow> if c = 0 then pf_session_capacity f else c
              | None \<Rightarrow> pf_session_capacity f) (filter (\<lambda>ob. ob_instance_id ob = i) obs)
      | _ \<Rightarrow> [])"
| "reports d op now i = []"

lemma reports_observe:
  "fleet_of d p = Some f \<Longrightarrow> observe_instances p obs platform ttl now d = Inr d' \<Longrightarrow>
   reports d (Op_Observe p obs platform ttl) now i = map (observed_capacity f) (filter (\<lambda>ob. ob_instance_id ob = i) obs)"
  by (simp add: observed_capacity_def split: option.split)

lemma op_keeps_instances:
  assumes "wf_db d" "\<And>p obs platform ttl. op \<noteq> Op_Observe p obs platform ttl" "\<And>p i. op \<noteq> Op_Drain p i"
    "\<And>p. op \<noteq> Op_Cancel_Drain p"
  shows "db_instances (gw_apply op now d) = db_instances d"
  using assms
  by (cases op)
     (auto simp: op_instances release_instances intro!: commit_table [where f = db_instances]
       dest: commit_instances enqueue_instances claim_instances update_rate_tables)

lemma observe_one_capacity:
  assumes "observe_one f p pl now ex locked ob d = Inr d'" "x \<in> set (db_instances d')"
  shows "if ob_instance_id ob = pi_id x then pi_capacity x = observed_capacity f ob
    else \<exists>old \<in> set (db_instances d). pi_id old = pi_id x \<and> pi_capacity old = pi_capacity x"
proof (cases "ob_instance_id ob \<in> set locked")
  case True
  with assms(1) have d': "db_instances d' = upd_where (\<lambda>r. pi_id r = ob_instance_id ob) (observed_row f pl now ex ob) (db_instances d)"
    by (auto simp: observe_one_def split: if_splits)
  from assms(2) [unfolded d' set_upd_where] obtain y where y: "y \<in> set (db_instances d)"
    "x = (if pi_id y = ob_instance_id ob then observed_row f pl now ex ob y else y)" by blast
  then show ?thesis by (cases "pi_id y = ob_instance_id ob") auto
next
  case False
  with assms(1) have d': "db_instances d' = db_instances d @ [new_instance_row f p pl now ex ob]"
    and fresh: "instance_of d (ob_instance_id ob) = None"
    by (auto simp: observe_one_def split: if_splits)
  from assms(2) consider "x \<in> set (db_instances d)" | "x = new_instance_row f p pl now ex ob" by (auto simp: d')
  then show ?thesis
  proof cases
    case 1
    then have "ob_instance_id ob \<noteq> pi_id x" using fresh by (auto simp: instance_of_def lookup_None)
    with 1 show ?thesis by auto
  qed simp
qed

lemma observe_all_capacity:
  assumes "observe_all f p pl now ex locked obs d = Inr d'" "x \<in> set (db_instances d')"
  shows "if filter (\<lambda>ob. ob_instance_id ob = pi_id x) obs = []
    then \<exists>old \<in> set (db_instances d). pi_id old = pi_id x \<and> pi_capacity old = pi_capacity x
    else pi_capacity x = observed_capacity f (last (filter (\<lambda>ob. ob_instance_id ob = pi_id x) obs))"
  using assms
proof (induction obs arbitrary: d)
  case (Cons ob obs)
  from Cons.prems(1) obtain d1 where d1: "observe_one f p pl now ex locked ob d = Inr d1"
    "observe_all f p pl now ex locked obs d1 = Inr d'" by (auto split: sum.splits)
  note rest = Cons.IH [OF d1(2) Cons.prems(2)]
  show ?case
  proof (cases "filter (\<lambda>ob. ob_instance_id ob = pi_id x) obs = []")
    case True
    then obtain old where old: "old \<in> set (db_instances d1)" "pi_id old = pi_id x" "pi_capacity old = pi_capacity x"
      using rest by auto
    show ?thesis using observe_one_capacity [OF d1(1) old(1)] old(2,3) True by (auto split: if_splits)
  qed (use rest in simp)
qed auto

lemma capacity_step:
  assumes wf: "wf_db d" and x: "x \<in> set (db_instances (gw_apply op now d))"
  shows "if reports d op now (pi_id x) = []
    then \<exists>old \<in> set (db_instances d). pi_id old = pi_id x \<and> pi_capacity old = pi_capacity x
    else pi_capacity x = last (reports d op now (pi_id x))"
proof -
  consider (obs) p obs platform ttl where "op = Op_Observe p obs platform ttl" | (drain) p i where "op = Op_Drain p i"
    | (cancel) p where "op = Op_Cancel_Drain p"
    | (other) "db_instances (gw_apply op now d) = db_instances d" "reports d op now (pi_id x) = []"
    using op_keeps_instances [OF wf, of op now] by (cases op) auto
  then show ?thesis
  proof cases
    case obs
    show ?thesis
    proof (cases "observe_instances p obs platform ttl now d")
      case (Inl e)
      then show ?thesis using x by (auto simp: obs split: option.splits)
    next
      case (Inr d')
      then obtain f where f: "fleet_of d p = Some f" by (auto simp: observe_instances_def split: option.splits)
      from Inr f obtain locked d2 where d2: "observe_all f p platform now (now + timedelta ttl) locked obs (lock_provider p d) = Inr d2"
        and d': "d' = d2\<lparr>db_instances := upd_where
            (\<lambda>r. pi_id r \<in> set locked \<and> pi_provider r = p \<and> pi_id r \<notin> set (map ob_instance_id obs))
            (stop_row now) (db_instances d2)\<rparr>"
        by (auto simp: observe_instances_def Let_def split: sum.splits)
      have "x \<in> set (db_instances d')" using x Inr by (simp add: obs)
      then obtain y where y: "y \<in> set (db_instances d2)" "pi_id y = pi_id x" "pi_capacity y = pi_capacity x"
        by (auto simp: d' set_upd_where stop_row_def)
      define mine where "mine = filter (\<lambda>ob. ob_instance_id ob = pi_id x) obs"
      have "reports d op now (pi_id x) = map (observed_capacity f) mine"
        unfolding obs mine_def by (rule reports_observe [OF f Inr])
      then show ?thesis
        using observe_all_capacity [OF d2 y(1)] unfolding y(2,3) mine_def [symmetric] by (auto simp: last_map split: if_splits)
    qed
  next
    case drain
    then show ?thesis using x
      by (auto simp: prepare_scale_down_def Let_def set_instance_def set_upd_where split: option.splits if_splits)
  next
    case cancel
    then show ?thesis using x by (auto simp: cancel_scale_down_def Let_def set_upd_where)
  next
    case other
    then show ?thesis using x by auto
  qed
qed

lemma reports_positive:
  assumes "c \<in> set (reports d op now i)"
  shows "1 \<le> c"
proof -
  have ge: "1 \<le> observed_capacity f ob" if "observe_all f p pl now ex locked obs d1 = Inr d2" "ob \<in> set obs" for f p pl ex locked obs d1 d2 ob
    using that by (induction obs arbitrary: d1) (auto simp: observe_one_def split: sum.splits if_splits)
  from assms obtain p obs platform ttl where op: "op = Op_Observe p obs platform ttl" by (cases op) auto
  from assms obtain f d' where f: "fleet_of d p = Some f" "observe_instances p obs platform ttl now d = Inr d'"
    by (cases "fleet_of d p"; cases "observe_instances p obs platform ttl now d") (auto simp: op)
  from assms obtain ob where ob: "ob \<in> set obs" "c = observed_capacity f ob" unfolding op reports_observe [OF f] by auto
  from f obtain locked d2 where "observe_all f p platform now (now + timedelta ttl) locked obs (lock_provider p d) = Inr d2"
    by (auto simp: observe_instances_def Let_def split: sum.splits)
  from ge [OF this ob(1)] show ?thesis by (simp add: ob(2))
qed

lemma steps_snoc: "steps step s ls t \<Longrightarrow> step t l u \<Longrightarrow> steps step s (ls @ [l]) u"
  by (induction rule: steps.induct) (auto intro: steps.intros)

text \<open>In every run the slots held of an instance are at most a capacity the instance had at some moment of the
  run, since which they have not grown.\<close>

lemma slots_history:
  assumes "gw_reachable d" "inst \<in> set (db_instances d)"
  shows "\<exists>d0 ls inst0. gw_reachable d0 \<and> steps gw_step d0 ls d \<and> inst0 \<in> set (db_instances d0) \<and> pi_id inst0 = pi_id inst
    \<and> slots_held d (pi_id inst) \<le> slots_held d0 (pi_id inst) \<and> int (slots_held d0 (pi_id inst)) \<le> pi_capacity inst0"
  using assms
proof (induction arbitrary: inst rule: reach.induct)
  case (reach_init d)
  then show ?case by (simp add: gw_init_def empty_db_def)
next
  case (reach_step d l d')
  obtain op now where l: "l = (op, now)" by (cases l)
  have d': "d' = gw_apply op now d" using reach_step.hyps(2) by (simp add: l gw_step_simps)
  have wf: "wf_db d" by (rule gateway.reach_inv [OF reach_step.hyps(1)])
  have r': "gw_reachable d'" by (rule reach.reach_step [OF reach_step.hyps(1,2)])
  have wf': "wf_db d'" by (rule gateway.reach_inv [OF r'])
  show ?case
  proof (cases "int (slots_held d' (pi_id inst)) \<le> pi_capacity inst")
    case True
    then show ?thesis using r' reach_step.prems
      by (intro exI [of _ d'] exI [of _ "[]"] exI [of _ inst]) (simp add: steps_Nil)
  next
    case False
    then have le: "slots_held d' (pi_id inst) \<le> slots_held d (pi_id inst)"
      using slots_step [OF wf, of inst op now] reach_step.prems by (simp add: d')
    show ?thesis
    proof (cases "\<exists>old \<in> set (db_instances d). pi_id old = pi_id inst")
      case True
      then obtain old where old: "old \<in> set (db_instances d)" "pi_id old = pi_id inst" by blast
      obtain d0 ls inst0 where "gw_reachable d0" "steps gw_step d0 ls d" "inst0 \<in> set (db_instances d0)" "pi_id inst0 = pi_id inst"
        "slots_held d (pi_id inst) \<le> slots_held d0 (pi_id inst)" "int (slots_held d0 (pi_id inst)) \<le> pi_capacity inst0"
        using reach_step.IH [OF old(1)] unfolding old(2) by blast
      moreover from this(2) have "steps gw_step d0 (ls @ [l]) d'" by (rule steps_snoc) (rule reach_step.hyps(2))
      moreover have "slots_held d' (pi_id inst) \<le> slots_held d0 (pi_id inst)"
        using le \<open>slots_held d (pi_id inst) \<le> slots_held d0 (pi_id inst)\<close> by simp
      ultimately show ?thesis by blast
    next
      case False
      then have "reports d op now (pi_id inst) \<noteq> []"
        using capacity_step [OF wf, of inst op now] reach_step.prems by (auto simp: d' split: if_splits)
      moreover from this have "pi_capacity inst = last (reports d op now (pi_id inst))"
        using capacity_step [OF wf, of inst op now] reach_step.prems by (simp add: d')
      ultimately have "1 \<le> pi_capacity inst" using reports_positive last_in_set by metis
      moreover have "slots_held d (pi_id inst) = 0"
        using wf_dbD(6) [OF wf] False by (auto simp: slots_held_def count_where_0 holds_slot_def slot_link_def)
      ultimately show ?thesis using le \<open>\<not> int (slots_held d' (pi_id inst)) \<le> pi_capacity inst\<close> by simp
    qed
  qed
qed

lemma prepare_retires: "retired i d \<Longrightarrow> retired i (fst (prepare_scale_down p j now d))"
proof -
  assume "retired i d"
  then obtain z where "lookup pi_id i (db_instances d) = Some z" "pi_state z = FI_Draining \<or> pi_state z = FI_Stopped"
    by (auto simp: retired_def instance_state_def instance_of_def)
  then show ?thesis
    by (simp add: retired_def prepare_scale_down_def Let_def set_instance_def instance_state_def instance_of_def
        lookup_upd_where split: option.split)
qed

lemma retired_step:
  assumes wf: "wf_db d" and rt: "retired i d" and st: "quiet_step i d l d'"
  shows "retired i d'"
proof -
  from st obtain op now where l: "l = (op, now)" "quiet i d op" and d': "d' = gw_apply op now d"
    by (cases l) (auto simp: quiet_step_def gw_step_simps)
  have com: "retired i (commit d r)" if "\<And>d' x. r = Inr (d', x) \<Longrightarrow> db_instances d' = db_instances d"
    for r :: "(db \<times> 'z) result"
    by (rule retired_same_instances [OF commit_table [where f = db_instances] rt]) (rule that)
  show ?thesis
  proof (cases op)
    case (Op_Observe p obs platform ttl)
    show ?thesis
    proof (cases "observe_instances p obs platform ttl now d")
      case (Inl e)
      with rt show ?thesis by (simp add: d' Op_Observe)
    next
      case (Inr d2)
      have dd: "d' = d2" using Inr by (simp add: d' Op_Observe)
      from rt consider "instance_state d i = Some FI_Draining" | "instance_state d i = Some FI_Stopped"
        by (auto simp: retired_def)
      then show ?thesis
      proof cases
        case 1
        then show ?thesis unfolding dd retired_def
          using observe_keeps_drained [OF Inr 1] l(2) by (auto simp: Op_Observe list_all_iff)
      next
        case 2
        then show ?thesis unfolding dd retired_def
          using observe_keeps_stopped [OF Inr 2] l(2) by (auto simp: Op_Observe list_all_iff)
      qed
    qed
  qed (use l(2) rt retired_same_instances [OF _ rt] prepare_retires [OF rt] in
      \<open>auto simp: d' op_instances release_instances [OF wf]
        intro!: com dest: commit_instances enqueue_instances claim_instances update_rate_tables\<close>)
qed

lemma wf_quiet: "wf_db d \<Longrightarrow> quiet_step i d l d' \<Longrightarrow> wf_db d'"
  using evolvesD(1) [OF evolves_step [of d l d']] by (simp add: quiet_step_def)

interpretation retirement: monotone_system "\<lambda>d. wf_db d \<and> retired i d" "quiet_step i"
  "\<lambda>d. wf_db d \<and> retired i d"
  "\<lambda>d d'. \<forall>x. (x, Some i) \<in> set (assignments d') \<longrightarrow> (x, Some i) \<in> set (assignments d)" for i
proof unfold_locales
  show "wf_db s \<and> retired i s \<Longrightarrow> quiet_step i s l t \<Longrightarrow> wf_db t \<and> retired i t" for s l t
    using wf_quiet [of s i l t] retired_step [of s i l t] by blast
  show "wf_db s \<and> retired i s \<Longrightarrow> quiet_step i s l t \<Longrightarrow>
      \<forall>x. (x, Some i) \<in> set (assignments t) \<longrightarrow> (x, Some i) \<in> set (assignments s)" for s l t
    by (cases l) (auto simp: quiet_step_def gw_step_simps retired_def dest: take_slot_of [rotated 2])
qed blast+

section \<open>An expired lease is final\<close>

text \<open>The session exists and, at instant \<open>t\<close>, is not live.\<close>

definition dead :: "time \<Rightarrow> string \<Rightarrow> db \<Rightarrow> bool" where
  "dead t i d \<longleftrightarrow> (\<exists>r. session_of d i = Some r \<and> \<not> session_live t r)"

lemma session_live_mono: "session_live now r \<Longrightarrow> t \<le> now \<Longrightarrow> session_live t r"
  by (auto simp: session_live_def intro: later_mono)

lemma dead_same: "db_sessions d' = db_sessions d \<Longrightarrow> dead t i d \<Longrightarrow> dead t i d'"
  by (simp add: dead_def session_of_def)

text \<open>Rewriting rows that are live at \<open>t\<close> does not touch a dead session, and neither does a rewrite
  that leaves the rows it touches dead.\<close>

lemma dead_upd:
  assumes dd: "dead t i d" and d': "db_sessions d' = upd_where P f (db_sessions d)"
    and key: "\<And>r. P r \<Longrightarrow> gs_id (f r) = gs_id r"
    and f: "\<And>r. r \<in> set (db_sessions d) \<Longrightarrow> P r \<Longrightarrow> \<not> session_live t r \<Longrightarrow> \<not> session_live t (f r)"
  shows "dead t i d'"
proof -
  from dd obtain r where r: "session_of d i = Some r" "\<not> session_live t r" by (auto simp: dead_def)
  then have "r \<in> set (db_sessions d)" using lookup_Some by (fastforce simp: session_of_def)
  with f r show ?thesis
    using lookup_upd_where [of P gs_id f i "db_sessions d", OF key]
    by (simp add: dead_def session_of_def d')
qed

lemma dead_terminal: "\<not> live_session_state (gs_state r) \<Longrightarrow> \<not> session_live t r"
  by (simp add: session_live_def)

lemma dead_renewal:
  assumes wf: "wf_db d" and dd: "dead t i d" and r: "r \<in> set (db_sessions d)" "session_live now r" and t: "t \<le> now"
    and d': "db_sessions d' = upd_where (\<lambda>x. gs_id x = gs_id r) f (db_sessions d)" and key: "\<And>x. gs_id (f x) = gs_id x"
  shows "dead t i d'"
proof (rule dead_upd [OF dd d'])
  fix x assume "x \<in> set (db_sessions d)" "gs_id x = gs_id r" "\<not> session_live t x"
  with session_key_unique [OF wf r(1)] session_live_mono [OF r(2) t] show "\<not> session_live t (f x)" by blast
qed (rule key)

lemma dead_heartbeat:
  assumes "wf_db d" "dead t i d" "t \<le> now"
  shows "dead t i (fst (heartbeat lease s now d))"
proof (cases "\<exists>r. owned d s = Some r \<and> session_live now r")
  case True
  then obtain r where r: "owned d s = Some r" "session_live now r" by blast
  show ?thesis
    by (rule dead_renewal [OF assms(1,2) owned_Some [OF r(1), THEN conjunct1] r(2) assms(3),
          where f = "\<lambda>r. r\<lparr>gs_lease_expires_at := Some (now + timedelta lease)\<rparr>"])
       (use r in \<open>simp_all add: heartbeat_def session_live_def\<close>)
next
  case False
  then have "fst (heartbeat lease s now d) = d"
    by (auto simp: heartbeat_def session_live_def split: option.split)
  with assms show ?thesis by simp
qed

lemma dead_open:
  assumes "wf_db d" "dead t i d" "t \<le> now"
  shows "dead t i (fst (open_session lease s now d))"
proof (cases "\<exists>r. owned d s = Some r \<and> gs_state r = S_Admitted \<and> session_live now r")
  case True
  then obtain r where r: "owned d s = Some r" "gs_state r = S_Admitted" "session_live now r" by blast
  show ?thesis
    by (rule dead_renewal [OF assms(1,2) owned_Some [OF r(1), THEN conjunct1] r(3) assms(3),
          where f = "\<lambda>r. r\<lparr>gs_state := S_Open, gs_opened_at := Some now,
            gs_lease_expires_at := Some (now + timedelta lease)\<rparr>"])
       (use r in \<open>simp_all add: open_session_def session_live_def\<close>)
next
  case False
  then have "fst (open_session lease s now d) = d"
    by (auto simp: open_session_def session_live_def split: option.split)
  with assms show ?thesis by simp
qed

lemma dead_release:
  assumes wf: "wf_db d" and dd: "dead t i d"
  shows "dead t i (fst (release_session s failed reason now d))"
proof (cases "owned d s")
  case None
  with dd show ?thesis by (simp add: release_session_def)
next
  case (Some r)
  have id: "gs_id (released_row failed reason now x) = gs_id x" for x by (simp add: released_row_def)
  have over: "\<not> session_live t x \<Longrightarrow> \<not> session_live t (released_row failed reason now x)" for x
    by (auto simp: released_row_def session_live_def)
  show ?thesis by (rule dead_upd [OF dd release_sessions [OF wf Some] id over])
qed

lemma dead_admit:
  assumes wf: "wf_db d" and dd: "dead t i d" and a: "admit lease s m req ref now d = Inr (d', st)"
  shows "dead t i d'"
proof -
  let ?d1 = "expire_stale_sessions now (lock_gateway d)"
  have wf1: "wf_db (lock_gateway d)" using wf by simp
  have "dead t i (lock_gateway d)" using dead_same [OF _ dd] by simp
  then have "dead t i ?d1"
    by (rule dead_upd [OF _ expire_stale_sessions_tables(1) [OF wf1]]) (simp_all add: dead_terminal)
  then obtain r where "session_of ?d1 i = Some r" "\<not> session_live t r" by (auto simp: dead_def)
  then show ?thesis by (simp add: dead_def session_of_def admit_cases(3) [OF a] lookup_append)
qed

lemma dead_step:
  assumes wf: "wf_db d" and dd: "dead t i d" and st: "gw_step d (op, now) d'" and t: "t \<le> now"
  shows "dead t i d'"
proof -
  have d': "d' = gw_apply op now d" using st by (simp add: gw_step_simps)
  have com: "dead t i (commit d r)" if "\<And>d' x. r = Inr (d', x) \<Longrightarrow> db_sessions d' = db_sessions d"
    for r :: "(db \<times> 'z) result"
    by (rule dead_same [OF commit_table [where f = db_sessions] dd]) (rule that)
  show ?thesis
  proof (cases op)
    case (Op_Observe p obs platform ttl)
    then show ?thesis
      using inplace_observe [of p obs platform ttl now d] dead_same [OF _ dd] by (auto simp: d' dd split: sum.split)
  next
    case (Op_Admit lease s m req ref)
    then show ?thesis
      using dead_admit [OF wf dd] dd by (auto simp: d' commit_def split: sum.split prod.split)
  qed (use dead_heartbeat [OF wf dd t] dead_open [OF wf dd t] dead_release [OF wf dd] dead_same [OF _ dd] in
      \<open>auto simp: d' row_op_tables fleet_tables(1-6) inplace_finish rate_tables
        intro!: com dest: fleet_tables(7-9) limit_update_tables update_rate_tables enqueue_sessions inplace_claim [OF wf]\<close>)
qed

definition timed_step :: "time \<Rightarrow> db \<Rightarrow> gw_op \<times> time \<Rightarrow> db \<Rightarrow> bool" where
  "timed_step t d l d' \<longleftrightarrow> gw_step d l d' \<and> t \<le> snd l"

interpretation expiry: invariant_system "\<lambda>d. wf_db d \<and> dead t i d" "timed_step t" "\<lambda>d. wf_db d \<and> dead t i d" for t i
proof unfold_locales
  show "wf_db s \<and> dead t i s \<Longrightarrow> timed_step t s l u \<Longrightarrow> wf_db u \<and> dead t i u" for s l u
    using evolvesD(1) [OF evolves_step [of s l u]] dead_step [of s t i "fst l" "snd l" u] by (simp add: timed_step_def)
qed blast

end
