(* ===== verification/Gateway_Properties.thy ===== *)
theory Gateway_Properties
  imports Gateway_Runs
begin

text \<open>
  What the gateway promises, stated over the reachable databases of the transition system, with a
  concrete trace as the example: one managed instance with one slot, two sessions, the first
  acquiring the slot and the second queueing behind it.
\<close>

section \<open>An example trace\<close>

definition demo_fleet :: fleet_config where
  "demo_fleet = \<lparr>fc_minimum_instances = 1, fc_maximum_instances = 3, fc_session_capacity = 1,
     fc_cooldown_seconds = 60, fc_max_queued = 2, fc_enabled = True\<rparr>"

definition demo_session :: "string \<Rightarrow> stolosio_session" where
  "demo_session i = \<lparr>ss_session_id = i, ss_owner_id = ''gateway'', ss_lease_token = ''token'',
     ss_state = S_Requested, ss_workload = ''cdp'', ss_capture_hostname = None\<rparr>"

definition demo_attempt :: "string \<Rightarrow> string \<Rightarrow> provider_name \<Rightarrow> provider_attempt" where
  "demo_attempt i s p = \<lparr>pa_attempt_id = i, pa_session_id = s, pa_ordinal = 1, pa_provider = p,
     pa_state = A_Queued, pa_instance_id = None, pa_endpoint = None\<rparr>"

definition demo_ready :: observed_instance where
  "demo_ready = \<lparr>ob_instance_id = ''b1'', ob_endpoint = ''ws://b1'', ob_state = FI_Ready,
     ob_started_at = None, ob_session_capacity = None\<rparr>"

definition demo_trace :: "(gw_op \<times> time) list" where
  "demo_trace =
    [(Op_Ensure_Fleet BROWSERLESS demo_fleet, 0),
     (Op_Observe BROWSERLESS [demo_ready] ''docker'' 30, 1000),
     (Op_Admit 10 (demo_session ''s1'') 5 JNull None, 2000),
     (Op_Admit 10 (demo_session ''s2'') 5 JNull None, 3000),
     (Op_Enqueue (demo_session ''s1'') ''a1'' BROWSERLESS JNull JNull None, 4000),
     (Op_Enqueue (demo_session ''s2'') ''a2'' BROWSERLESS JNull JNull None, 5000)]"

definition demo_db :: db where
  "demo_db = run_trace demo_trace empty_db"

text \<open>The same with the external provider: a limit of one active session.\<close>

definition demo_external :: "(gw_op \<times> time) list" where
  "demo_external =
    [(Op_Ensure_Limit BROWSERLESS_CLOUD True 1 4, 0),
     (Op_Admit 10 (demo_session ''s1'') 5 JNull None, 2000),
     (Op_Admit 10 (demo_session ''s2'') 5 JNull None, 3000),
     (Op_Enqueue (demo_session ''s1'') ''a1'' BROWSERLESS_CLOUD JNull JNull None, 4000),
     (Op_Enqueue (demo_session ''s2'') ''a2'' BROWSERLESS_CLOUD JNull JNull None, 5000),
     (Op_Finish (demo_attempt ''a1'' ''s1'' BROWSERLESS_CLOUD) False ''done'' None None, 9000)]"

definition demo_external_db :: db where
  "demo_external_db = run_trace demo_external empty_db"

lemma demo_reachable: "gw_reachable demo_db"
  unfolding demo_db_def by (rule trace_reachable)

lemma demo_external_reachable: "gw_reachable demo_external_db"
  unfolding demo_external_db_def by (rule trace_reachable)

lemma reachable_wf: "gw_reachable d \<Longrightarrow> wf_db d"
  by (rule gateway.reach_inv)

section \<open>Slots\<close>

text \<open>C1: no transaction puts an attempt on a full browser instance. Whatever transaction runs next on a reachable
  database, and whatever the interleaving and the clocks, the attempts that hold a slot of an instance are within
  its capacity, or they are no more than before the transaction: where an observation reports a capacity below the
  slots in use, the instance takes nothing until enough of them end. A capacity is the one the last observation of
  the instance in the transaction reports, the fleet's configured one when it reports none, or what it was
  before. And the slots held are always within a capacity the instance had at some moment of the run, since which
  they have not grown.\<close>

theorem slot_safety:
  assumes "gw_reachable d" "gw_step d (op, now) d'" "inst \<in> set (db_instances d')"
  shows "(int (slots_held d' (pi_id inst)) \<le> pi_capacity inst \<or> slots_held d' (pi_id inst) \<le> slots_held d (pi_id inst))
    \<and> (if reports d op now (pi_id inst) = []
       then \<exists>old \<in> set (db_instances d). pi_id old = pi_id inst \<and> pi_capacity old = pi_capacity inst
       else pi_capacity inst = last (reports d op now (pi_id inst)))
    \<and> (\<exists>d0 ls inst0. gw_reachable d0 \<and> steps gw_step d0 ls d' \<and> inst0 \<in> set (db_instances d0) \<and> pi_id inst0 = pi_id inst
       \<and> slots_held d' (pi_id inst) \<le> slots_held d0 (pi_id inst)
       \<and> int (slots_held d0 (pi_id inst)) \<le> pi_capacity inst0)"
proof (intro conjI)
  have d': "d' = gw_apply op now d" using assms(2) by (simp add: gw_step_simps)
  note wf = reachable_wf [OF assms(1)]
  show "int (slots_held d' (pi_id inst)) \<le> pi_capacity inst \<or> slots_held d' (pi_id inst) \<le> slots_held d (pi_id inst)"
    using slots_step [OF wf assms(3) [unfolded d']] by (simp only: d')
  show "if reports d op now (pi_id inst) = []
       then \<exists>old \<in> set (db_instances d). pi_id old = pi_id inst \<and> pi_capacity old = pi_capacity inst
       else pi_capacity inst = last (reports d op now (pi_id inst))"
    by (rule capacity_step [OF wf assms(3) [unfolded d']])
qed (rule slots_history [OF reach_step [OF assms(1,2)] assms(3)])

text \<open>An instance with two slots in use is observed with a capacity of one: the next attempt has to wait.\<close>

definition shrunk_trace :: "(gw_op \<times> time) list" where
  "shrunk_trace =
    [(Op_Ensure_Fleet BROWSERLESS demo_fleet, 0),
     (Op_Observe BROWSERLESS [demo_ready\<lparr>ob_session_capacity := Some 2\<rparr>] ''docker'' 30, 1000),
     (Op_Admit 10 (demo_session ''s1'') 5 JNull None, 2000),
     (Op_Admit 10 (demo_session ''s2'') 5 JNull None, 2001),
     (Op_Admit 10 (demo_session ''s3'') 5 JNull None, 2002),
     (Op_Enqueue (demo_session ''s1'') ''a1'' BROWSERLESS JNull JNull None, 4000),
     (Op_Enqueue (demo_session ''s2'') ''a2'' BROWSERLESS JNull JNull None, 4001),
     (Op_Observe BROWSERLESS [demo_ready] ''docker'' 30, 5000)]"

theorem slot_safety_witness:
  "\<exists>inst \<in> set (db_instances (gw_apply (Op_Enqueue (demo_session ''s3'') ''a3'' BROWSERLESS JNull JNull None) 6000
       (run_trace shrunk_trace empty_db))).
     pi_id inst = ''b1'' \<and> pi_capacity inst = 1
     \<and> slots_held (gw_apply (Op_Enqueue (demo_session ''s3'') ''a3'' BROWSERLESS JNull JNull None) 6000
          (run_trace shrunk_trace empty_db)) ''b1'' \<le> 2"
proof -
  let ?d = "run_trace shrunk_trace empty_db"
  let ?op = "Op_Enqueue (demo_session ''s3'') ''a3'' BROWSERLESS JNull JNull None"
  let ?d' = "gw_apply ?op 6000 ?d"
  have i: "map (\<lambda>i. (pi_id i, pi_capacity i)) (db_instances ?d') = [(''b1'', 1)]" by code_simp
  then obtain inst where inst: "inst \<in> set (db_instances ?d')" "pi_id inst = ''b1''" "pi_capacity inst = 1"
    by (cases "db_instances ?d'") auto
  have two: "slots_held ?d ''b1'' = 2" by code_simp
  have st: "gw_step ?d (?op, 6000) ?d'" by (rule gw_transaction)
  have "int (slots_held ?d' ''b1'') \<le> 1 \<or> slots_held ?d' ''b1'' \<le> 2"
    using slot_safety [OF trace_reachable [of shrunk_trace] st inst(1), THEN conjunct1] unfolding inst(2,3) two .
  then have "slots_held ?d' ''b1'' \<le> 2" by linarith
  with inst show ?thesis by blast
qed

text \<open>An instance that could take one more attempt at this instant.\<close>

definition eligible :: "db \<Rightarrow> provider_name \<Rightarrow> time \<Rightarrow> provider_instance \<Rightarrow> bool" where
  "eligible d p now i \<longleftrightarrow> pi_provider i = p \<and> pi_state i = FI_Ready \<and> now < pi_observation_expires_at i
     \<and> int (instance_occupied d now (pi_id i)) < pi_capacity i"

text \<open>admission packs: an instance is chosen exactly when an eligible one exists (ready, freshly
  observed, with a free slot), the choice is eligible, and no eligible instance is fuller.\<close>

theorem packing_choice:
  "(select_instance d p now = None \<longleftrightarrow> (\<forall>j \<in> set (db_instances d). \<not> eligible d p now j))
   \<and> (\<forall>i. select_instance d p now = Some i \<longrightarrow> i \<in> set (db_instances d) \<and> eligible d p now i
        \<and> (\<forall>j \<in> set (db_instances d). eligible d p now j \<longrightarrow>
             instance_occupied d now (pi_id j) \<le> instance_occupied d now (pi_id i)))"
proof (cases "select_instance d p now")
  case None
  have "\<not> eligible d p now j" if "j \<in> set (db_instances d)" for j
    using select_instance_None [OF None that] by (auto simp: eligible_def simp flip: not_le)
  with None show ?thesis by simp
next
  case (Some i)
  have "instance_occupied d now (pi_id j) \<le> instance_occupied d now (pi_id i)"
    if "j \<in> set (db_instances d)" "eligible d p now j" for j
    using select_instance_fullest [OF Some, of j] that by (auto simp: eligible_def)
  then show ?thesis using Some select_instance_Some [OF Some] by (auto simp: eligible_def)
qed

definition demo_idle :: db where
  "demo_idle = run_trace (take 2 demo_trace) empty_db"

theorem packing_choice_witness:
  "\<exists>i. select_instance demo_idle BROWSERLESS 1500 = Some i \<and> eligible demo_idle BROWSERLESS 1500 i \<and> pi_id i = ''b1''"
proof -
  have n: "map_option pi_id (select_instance demo_idle BROWSERLESS 1500) = Some ''b1''" by code_simp
  then obtain i where i: "select_instance demo_idle BROWSERLESS 1500 = Some i" "pi_id i = ''b1''" by auto
  with packing_choice [of demo_idle BROWSERLESS 1500] show ?thesis by blast
qed

section \<open>Queues\<close>

text \<open>C11: a new attempt acquires at once only when no attempt with a live session waits for the
  provider; for an external provider the active attempts then stay within the enabled limit, and for
  a managed fleet the attempt names the instance it was given.\<close>

theorem enqueue_acquires:
  assumes r: "gw_reachable d" and enq: "enqueue s aid p res src repl now d = Inr (d', ADM_ACQUIRING, att)"
  shows "queue_ids (expire_stale_attempts p now (lock_provider p d)) p now = []
    \<and> (case fleet_of d p of
         Some f \<Rightarrow> pf_enabled f \<and> pa_instance_id att \<noteq> None
       | None \<Rightarrow> (\<exists>l. limit_of d p = Some l \<and> xl_enabled l \<and> int (active_attempts d' p) \<le> xl_max_active l))"
proof -
  let ?d1 = "expire_stale_attempts p now (lock_provider p d)"
  note wf = reachable_wf [OF r]
  from enq show ?thesis
  proof (cases rule: enqueue_cases)
    case (1 cap)
    have acq: "acquires ?d1 p now cap" using 1(5) by simp
    then have q: "attempt_count ?d1 p (\<lambda>s. s = A_Queued) now = 0" by (simp add: acquires_def)
    then have q0: "queue_ids ?d1 p now = []"
      by (auto simp: queue_ids_def queue_order_def attempt_count_def count_where_0 filter_empty_conv)
    have fl: "fleet_of ?d1 p = fleet_of d p" "limit_of ?d1 p = limit_of d p" by (simp_all add: fleet_of_def limit_of_def)
    from 1(4) have cap: "provider_capacity d p = Some cap" unfolding provider_capacity_def fl .
    show ?thesis
    proof (cases "fleet_of d p")
      case (Some f)
      with cap have c: "cap = (True, pf_enabled f, 0, if pf_enabled f then pf_max_queued f else 0)"
        by (simp add: provider_capacity_def)
      with acq obtain i where "chosen_instance ?d1 p now cap = Some i" "pf_enabled f"
        by (auto simp: acquires_def chosen_instance_def split: if_splits)
      with Some q0 show ?thesis by (simp add: 1(12) attempt_contract_def acquire_row_def)
    next
      case None
      with cap obtain l where l: "limit_of d p = Some l"
        and c: "cap = (False, xl_enabled l, if xl_enabled l then xl_max_active l else 0, if xl_enabled l then xl_max_queued l else 0)"
        by (auto simp: provider_capacity_def split: option.splits)
      from acq c have lt: "int (active_attempts ?d1 p) < (if xl_enabled l then xl_max_active l else 0)"
        by (simp add: acquires_def swept_active_count [OF swept_sweep [OF wf]])
      then have "xl_enabled l" by (auto split: if_splits)
      moreover have "active_attempts d' p = Suc (active_attempts ?d1 p)"
        by (simp add: active_attempts_def 1(7) acquire_row_def)
      ultimately show ?thesis using None l lt q0 by simp
    qed
  qed
qed

theorem enqueue_acquires_witness:
  "\<exists>d' att. enqueue (demo_session ''s3'') ''a3'' BROWSERLESS_CLOUD JNull JNull None 12000
      (run_trace [(Op_Claim (demo_session ''s2'') (demo_attempt ''a2'' ''s2'' BROWSERLESS_CLOUD), 10000),
         (Op_Finish (demo_attempt ''a2'' ''s2'' BROWSERLESS_CLOUD) False ''done'' None None, 11000),
         (Op_Admit 10 (demo_session ''s3'') 5 JNull None, 11500)] demo_external_db) = Inr (d', ADM_ACQUIRING, att)
    \<and> active_attempts d' BROWSERLESS_CLOUD \<le> 1"
proof -
  let ?tr = "[(Op_Claim (demo_session ''s2'') (demo_attempt ''a2'' ''s2'' BROWSERLESS_CLOUD), 10000),
         (Op_Finish (demo_attempt ''a2'' ''s2'' BROWSERLESS_CLOUD) False ''done'' None None, 11000),
         (Op_Admit 10 (demo_session ''s3'') 5 JNull None, 11500)] :: (gw_op \<times> time) list"
  let ?d = "run_trace ?tr demo_external_db"
  let ?r = "enqueue (demo_session ''s3'') ''a3'' BROWSERLESS_CLOUD JNull JNull None 12000 ?d"
  have r: "gw_reachable ?d" by (rule steps_reach [OF trace_steps demo_external_reachable])
  have "(case ?r of Inr (_, ADM_ACQUIRING, _) \<Rightarrow> True | _ \<Rightarrow> False)" by code_simp
  then obtain d' att where e: "?r = Inr (d', ADM_ACQUIRING, att)"
    by (auto split: sum.splits admission_status.splits)
  have f: "fleet_of ?d BROWSERLESS_CLOUD = None" by code_simp
  have l: "map_option xl_max_active (limit_of ?d BROWSERLESS_CLOUD) = Some 1" by code_simp
  have "\<exists>l. limit_of ?d BROWSERLESS_CLOUD = Some l \<and> xl_enabled l
      \<and> int (active_attempts d' BROWSERLESS_CLOUD) \<le> xl_max_active l"
    using enqueue_acquires [OF r e] unfolding f by simp
  with l have "active_attempts d' BROWSERLESS_CLOUD \<le> 1" by auto
  with e show ?thesis by blast
qed

text \<open>C12: the queue is first come, first served: a claim that succeeds is made by the waiting attempt
  with the smallest queue sequence among those whose session is alive, and it respects the capacity:
  a selected ready instance of an enabled fleet, or an enabled external limit.\<close>

theorem claim_fifo:
  assumes r: "gw_reachable d" and cl: "claim s att now d = Inr (d', Some c)"
  shows "\<exists>a \<in> set (db_attempts d). aq_id a = pa_attempt_id att \<and> aq_provider a = pa_provider att
      \<and> aq_state a = A_Queued
      \<and> list_all (\<lambda>b. \<not> (aq_provider b = pa_provider att \<and> aq_state b = A_Queued \<and> attempt_session_live d now b)
           \<or> aq_queue_sequence a \<le> aq_queue_sequence b) (db_attempts d)
      \<and> (case fleet_of d (pa_provider att) of
           Some f \<Rightarrow> pf_enabled f \<and> pa_instance_id c \<noteq> None
         | None \<Rightarrow> (\<exists>l. limit_of d (pa_provider att) = Some l \<and> xl_enabled l
              \<and> int (active_attempts d' (pa_provider att)) \<le> xl_max_active l))"
proof -
  let ?p = "pa_provider att" let ?d1 = "expire_stale_attempts ?p now (lock_provider ?p d)"
  note wf = reachable_wf [OF r]
  have wf0: "wf_db (lock_provider ?p d)" using wf by simp
  have tab: "db_attempts ?d1 = upd_where (stale_attempt (lock_provider ?p d) ?p now)
      (ended_row (db_rates d) now True ''session_lease_expired'') (db_attempts d)"
    using expire_stale_attempts_table [OF wf0, of ?p now] by simp
  have live: "attempt_session_live ?d1 now b = attempt_session_live d now b" for b
    by (simp add: attempt_session_live_def session_of_def)
  from cl show ?thesis
  proof (cases rule: claim_cases)
    case (claimed row inst)
    from claimed(7) obtain h where h: "h \<in> set (db_attempts ?d1)" "aq_id h = pa_attempt_id att" "aq_provider h = ?p"
      "aq_state h = A_Queued" "attempt_session_live ?d1 now h"
      and least: "\<And>b. b \<in> set (db_attempts ?d1) \<Longrightarrow> aq_provider b = ?p \<Longrightarrow> aq_state b = A_Queued
        \<Longrightarrow> attempt_session_live ?d1 now b \<Longrightarrow> aq_queue_sequence h \<le> aq_queue_sequence b"
      by (rule queue_head_Some) blast
    have row: "row = h" using attempt_key_unique [OF wf_sweep [OF wf] h(1) claimed(3)] h(2) claimed(4) by simp
    from h(1) obtain a where a: "a \<in> set (db_attempts d)" "h = a"
      using h(4) by (auto simp: tab set_upd_where split: if_splits)
    have kept: "b \<in> set (db_attempts ?d1)"
      if "b \<in> set (db_attempts d)" "attempt_session_live d now b" for b
    proof -
      have "\<not> stale_attempt (lock_provider ?p d) ?p now b"
        using that(2) by (auto simp: stale_attempt_def attempt_session_live_def session_of_def later_def split: option.splits)
      with that(1) show ?thesis unfolding tab set_upd_where by (auto intro: rev_image_eqI)
    qed
    have fifo: "list_all (\<lambda>b. \<not> (aq_provider b = ?p \<and> aq_state b = A_Queued \<and> attempt_session_live d now b)
        \<or> aq_queue_sequence a \<le> aq_queue_sequence b) (db_attempts d)"
      using least kept live a(2) unfolding list_all_iff by blast
    have one: "active_attempts d' ?p \<le> Suc (active_attempts ?d1 ?p)"
      unfolding active_attempts_def claimed(8) set_attempt_tables(2)
      by (rule count_upd_key_le_Suc [OF wf_dbD(2) [OF wf_sweep [OF wf]]])
    have cap: "case fleet_of d ?p of Some f \<Rightarrow> pf_enabled f \<and> pa_instance_id c \<noteq> None
         | None \<Rightarrow> (\<exists>l. limit_of d ?p = Some l \<and> xl_enabled l \<and> int (active_attempts d' ?p) \<le> xl_max_active l)"
      using claimed(9)
    proof
      assume "\<exists>f i. fleet_of ?d1 ?p = Some f \<and> pf_enabled f \<and> inst = Some i \<and> select_instance ?d1 ?p now = Some i"
      then show ?thesis using claimed(1) by (auto simp: fleet_of_def attempt_contract_def acquire_row_def)
    next
      assume "\<exists>l. fleet_of ?d1 ?p = None \<and> limit_of ?d1 ?p = Some l \<and> xl_enabled l \<and> inst = None
          \<and> int (attempt_count ?d1 ?p active_attempt_state now) < xl_max_active l"
      then show ?thesis
        using one by (auto simp: fleet_of_def limit_of_def swept_active_count [OF swept_sweep [OF wf]])
    qed
    show ?thesis using a h fifo cap by (intro bexI [of _ a]) auto
  qed simp
qed

theorem claim_fifo_witness:
  "\<exists>d' c. claim (demo_session ''s2'') (demo_attempt ''a2'' ''s2'' BROWSERLESS_CLOUD) 10000 demo_external_db = Inr (d', Some c)
     \<and> active_attempts d' BROWSERLESS_CLOUD \<le> 1"
proof -
  let ?r = "claim (demo_session ''s2'') (demo_attempt ''a2'' ''s2'' BROWSERLESS_CLOUD) 10000 demo_external_db"
  have "(case ?r of Inr (_, Some _) \<Rightarrow> True | _ \<Rightarrow> False)" by code_simp
  then obtain d' c where e: "?r = Inr (d', Some c)" by (auto split: sum.splits option.splits)
  have f: "fleet_of demo_external_db BROWSERLESS_CLOUD = None" by code_simp
  have l: "map_option xl_max_active (limit_of demo_external_db BROWSERLESS_CLOUD) = Some 1" by code_simp
  have p: "pa_provider (demo_attempt ''a2'' ''s2'' BROWSERLESS_CLOUD) = BROWSERLESS_CLOUD" by (simp add: demo_attempt_def)
  have "\<exists>l. limit_of demo_external_db BROWSERLESS_CLOUD = Some l \<and> xl_enabled l
      \<and> int (active_attempts d' BROWSERLESS_CLOUD) \<le> xl_max_active l"
    using claim_fifo [OF demo_external_reachable e] unfolding p f by auto
  with l have "active_attempts d' BROWSERLESS_CLOUD \<le> 1" by auto
  with e show ?thesis by blast
qed

section \<open>Sessions\<close>

text \<open>C13: if every admission uses a limit of at most \<open>M\<close>, the sessions in a live state never exceed
  \<open>M\<close>, in any interleaving: the limit bounds the rows, not only those whose lease is current.\<close>

theorem session_cap:
  assumes "reach (\<lambda>d. gw_init d \<and> 0 \<le> M) (capped_step M) d"
  shows "int (live_sessions d) \<le> M"
  using capped.reach_inv [OF assms] by simp

theorem session_cap_witness:
  "int (live_sessions (gw_apply (Op_Admit 10 (demo_session ''s1'') 1 JNull None) 2000 empty_db)) \<le> 1
   \<and> live_sessions (gw_apply (Op_Admit 10 (demo_session ''s1'') 1 JNull None) 2000 empty_db) = 1"
proof
  let ?op = "Op_Admit 10 (demo_session ''s1'') 1 JNull None"
  have "reach (\<lambda>d. gw_init d \<and> 0 \<le> (1::int)) (capped_step 1) empty_db"
    by (rule reach_init) (simp add: gw_init_def)
  moreover have "capped_step 1 empty_db (?op, 2000) (gw_apply ?op 2000 empty_db)"
    by (simp add: capped_step_def gw_step_simps)
  ultimately have "reach (\<lambda>d. gw_init d \<and> 0 \<le> (1::int)) (capped_step 1) (gw_apply ?op 2000 empty_db)"
    by (rule reach_step)
  then show "int (live_sessions (gw_apply ?op 2000 empty_db)) \<le> 1" by (rule session_cap)
  show "live_sessions (gw_apply ?op 2000 empty_db) = 1" by code_simp
qed

text \<open>C15: an expired lease is final. A session that is not live at an instant stays dead at that
  instant through every run of transactions whose clocks do not precede it: no heartbeat, opening
  or other operation revives it.\<close>

theorem expired_lease_final:
  assumes "gw_reachable d" "dead t i d" "steps (timed_step t) d ls d'"
  shows "dead t i d'"
  using expiry.steps_inv [OF assms(3)] reachable_wf [OF assms(1)] assms(2) by blast

theorem expired_lease_final_witness:
  "dead 10002000 ''s1'' (gw_apply (Op_Heartbeat 10 (demo_session ''s1'')) 10002000 demo_db)
   \<and> \<not> dead 10001999 ''s1'' demo_db"
proof
  let ?op = "Op_Heartbeat 10 (demo_session ''s1'')"
  have "(case session_of demo_db ''s1'' of None \<Rightarrow> False | Some r \<Rightarrow> \<not> session_live 10002000 r)" by code_simp
  then have "dead 10002000 ''s1'' demo_db" by (auto simp: dead_def split: option.splits)
  moreover have "steps (timed_step 10002000) demo_db [(?op, 10002000)] (gw_apply ?op 10002000 demo_db)"
    by (rule steps_Cons [OF _ steps_Nil]) (simp add: timed_step_def gw_step_simps)
  ultimately show "dead 10002000 ''s1'' (gw_apply ?op 10002000 demo_db)"
    by (rule expired_lease_final [OF demo_reachable])
  have "(case session_of demo_db ''s1'' of None \<Rightarrow> False | Some r \<Rightarrow> session_live 10001999 r)" by code_simp
  then show "\<not> dead 10001999 ''s1'' demo_db" by (auto simp: dead_def split: option.splits)
qed

text \<open>Releasing a session ends it: the row is terminal, no attempt of the session is left alive,
  and releasing it again, for whatever reason and at whatever time, changes nothing.\<close>

theorem release_ends_session:
  assumes r: "gw_reachable d" and rel: "release_session s failed reason now d = (d', True)"
  shows "(\<exists>x. session_of d' (ss_session_id s) = Some x \<and> terminal_session_state (gs_state x))
     \<and> live_attempts_of d' (ss_session_id s) = []
     \<and> release_session s failed' reason' now' d' = (d', True)"
proof -
  note wf = reachable_wf [OF r]
  from rel obtain x where x: "owned d s = Some x" by (auto simp: release_session_def split: option.splits)
  have d': "d' = fst (release_session s failed reason now d)" using rel by simp
  note ox = owned_Some [OF x]
  have id: "gs_id (released_row failed reason now y) = gs_id y" "gs_owner_id (released_row failed reason now y) = gs_owner_id y"
    "gs_lease_token (released_row failed reason now y) = gs_lease_token y" for y
    by (simp_all add: released_row_def)
  have term': "terminal_session_state (gs_state (released_row failed reason now x))"
    by (simp add: released_row_def terminal_session_state_def)
  have ses: "db_sessions d' = upd_where (\<lambda>y. gs_id y = gs_id x) (released_row failed reason now) (db_sessions d)"
    unfolding d' by (rule release_sessions [OF wf x])
  have att: "db_attempts d' = upd_where (live_in (\<lambda>i. i = gs_id x)) (ended_row (db_rates d) now (failed \<or> gs_state x = S_Failed)
      (if truthy (gs_terminal_reason x) then the (gs_terminal_reason x) else reason)) (db_attempts d)"
    unfolding d' by (rule release_sessions_attempts(1) [OF wf x])
  have noatt: "live_attempts_of d' (ss_session_id s) = []"
    using ox by (auto simp: live_attempts_of_def filter_empty_conv att set_upd_where live_in_def split: if_splits)
  have "session_of d (ss_session_id s) = Some x"
    unfolding session_of_def using lookup_distinct [OF wf_dbD(1) [OF wf]] ox by blast
  then have s': "session_of d' (ss_session_id s) = Some (released_row failed reason now x)"
    using ox by (simp add: session_of_def ses lookup_upd_where id)
  have own': "owned d' s = Some (released_row failed reason now x)"
  proof -
    have wf': "wf_db d'" using evolvesD(1) [OF evolves_release wf] by (simp add: d')
    from s' have in': "released_row failed reason now x \<in> set (db_sessions d')"
      using lookup_Some by (fastforce simp: session_of_def)
    have "owned_row s (released_row failed reason now x)" using ox by (simp add: owned_row_def id)
    with in' have "owned d' s \<noteq> None" by (auto simp: owned_def find_None_iff)
    then obtain y where y: "owned d' s = Some y" by blast
    with owned_Some [OF y] session_key_unique [OF wf' in'] ox show ?thesis by (auto simp: id)
  qed
  have "release_session s failed' reason' now' d' = (d', True)"
    using noatt term' ox by (simp add: release_session_def own' Let_def id)
  with s' term' noatt show ?thesis by blast
qed

theorem release_ends_session_witness:
  "live_attempts_of (fst (release_session (demo_session ''s1'') False ''client_closed'' 6000 demo_db)) ''s1'' = []
   \<and> live_attempts_of demo_db ''s1'' \<noteq> []"
proof
  have b: "snd (release_session (demo_session ''s1'') False ''client_closed'' 6000 demo_db)" by code_simp
  then have e: "release_session (demo_session ''s1'') False ''client_closed'' 6000 demo_db =
      (fst (release_session (demo_session ''s1'') False ''client_closed'' 6000 demo_db), True)"
    by (metis prod.collapse)
  have "ss_session_id (demo_session ''s1'') = ''s1''" by (simp add: demo_session_def)
  with release_ends_session [OF demo_reachable e]
  show "live_attempts_of (fst (release_session (demo_session ''s1'') False ''client_closed'' 6000 demo_db)) ''s1'' = []"
    by simp
  show "live_attempts_of demo_db ''s1'' \<noteq> []" by code_simp
qed

text \<open>a session has at most two live attempts: the one it uses and the one that replaces it.\<close>

theorem live_attempts_bound:
  assumes "gw_reachable d"
  shows "length (live_attempts_of d sid) \<le> 2"
  using pairs.reach_inv [OF assms] by (simp add: live_attempts_count pairs_ok_def)

theorem live_attempts_bound_witness: "length (live_attempts_of demo_db ''s1'') \<le> 2"
  by (rule live_attempts_bound [OF demo_reachable])

section \<open>Lifecycles\<close>

text \<open>C14: along every run an attempt keeps its identity, session, provider and queue position, moves
  only forward through queued, acquiring, active and a terminal state, never changes the instance it
  was given, and once finished keeps its state, its end and its bill.\<close>

theorem attempt_lifecycle:
  assumes "gw_reachable d" "steps gw_step d ls d'" "attempt_of d i = Some a"
  shows "\<exists>b. attempt_of d' i = Some b \<and> aq_session_id b = aq_session_id a \<and> aq_provider b = aq_provider a
     \<and> aq_queue_sequence b = aq_queue_sequence a
     \<and> attempt_rank (aq_state a) \<le> attempt_rank (aq_state b)
     \<and> (aq_instance_id a \<noteq> None \<longrightarrow> aq_instance_id b = aq_instance_id a)
     \<and> (aq_state a \<in> {A_Completed, A_Failed} \<longrightarrow> bill b = bill a)"
proof -
  have "extends d d'" by (rule gateway.steps_below [OF assms(2) reachable_wf [OF assms(1)]])
  from extends_attempt [OF this assms(3)] obtain b where "attempt_of d' i = Some b" "attempt_moves a b" by blast
  moreover have "aq_state a \<in> {A_Completed, A_Failed} \<Longrightarrow> attempt_rank (aq_state a) = 4" by auto
  ultimately show ?thesis by (auto simp: attempt_moves_def)
qed

theorem attempt_lifecycle_witness:
  "\<exists>b. attempt_of (gw_apply (Op_Activate (demo_attempt ''a1'' ''s1'' BROWSERLESS)) 7000 demo_db) ''a1'' = Some b
     \<and> 2 \<le> attempt_rank (aq_state b)"
proof -
  let ?op = "Op_Activate (demo_attempt ''a1'' ''s1'' BROWSERLESS)"
  have "map_option aq_state (attempt_of demo_db ''a1'') = Some A_Acquiring" by code_simp
  then obtain a where a: "attempt_of demo_db ''a1'' = Some a" "aq_state a = A_Acquiring" by auto
  have "steps gw_step demo_db [(?op, 7000)] (gw_apply ?op 7000 demo_db)"
    by (rule steps_Cons [OF _ steps_Nil]) (simp add: gw_step_simps)
  from attempt_lifecycle [OF demo_reachable this a(1)] a(2) show ?thesis by auto
qed

text \<open>along every run a session keeps its owner and lease token and moves only forward through
  admitted, open and a terminal state, and a terminal session row never changes again.\<close>

theorem session_lifecycle:
  assumes "gw_reachable d" "steps gw_step d ls d'" "session_of d i = Some r"
  shows "\<exists>q. session_of d' i = Some q \<and> gs_owner_id q = gs_owner_id r \<and> gs_lease_token q = gs_lease_token r
     \<and> session_rank (gs_state r) \<le> session_rank (gs_state q)
     \<and> (terminal_session_state (gs_state r) \<longrightarrow> q = r)"
proof -
  have "extends d d'" by (rule gateway.steps_below [OF assms(2) reachable_wf [OF assms(1)]])
  from extends_session [OF this assms(3)] obtain q where "session_of d' i = Some q" "session_moves r q" by blast
  moreover have "terminal_session_state (gs_state r) \<Longrightarrow> session_rank (gs_state r) = 4"
    by (auto simp: terminal_session_state_def)
  ultimately show ?thesis by (auto simp: session_moves_def)
qed

theorem session_lifecycle_witness:
  "\<exists>q. session_of (gw_apply (Op_Open 10 (demo_session ''s1'')) 7000 demo_db) ''s1'' = Some q \<and> 1 \<le> session_rank (gs_state q)"
proof -
  let ?op = "Op_Open 10 (demo_session ''s1'')"
  have "map_option gs_state (session_of demo_db ''s1'') = Some S_Admitted" by code_simp
  then obtain r where r: "session_of demo_db ''s1'' = Some r" "gs_state r = S_Admitted" by auto
  have "steps gw_step demo_db [(?op, 7000)] (gw_apply ?op 7000 demo_db)"
    by (rule steps_Cons [OF _ steps_Nil]) (simp add: gw_step_simps)
  from session_lifecycle [OF demo_reachable this r(1)] r(2) show ?thesis by auto
qed

section \<open>The bill\<close>

text \<open>C16: finishing an attempt that held a browser bills the whole time from its acquisition in
  milliseconds, rounded up to whole cost units at the provider's rate; the time the browser was
  connected never exceeds it when the connection followed the acquisition; finishing a second time
  changes nothing.\<close>

theorem finish_bills_occupancy:
  assumes r: "gw_reachable d" and a: "attempt_of d (pa_attempt_id att) = Some a" and live: "live_attempt_state (aq_state a)"
    and acq: "aq_acquiring_at a = Some t" and rate: "rate_of d (aq_provider a) = Some c" "0 \<le> cr_units_per_second c"
    and order: "\<forall>u. aq_active_at a = Some u \<longrightarrow> t \<le> u"
  shows "\<exists>b units. attempt_of (fst (finish_attempt att failed reason cs ps now d)) (pa_attempt_id att) = Some b
     \<and> aq_state b = (if failed then A_Failed else A_Completed) \<and> aq_finished_at b = Some now
     \<and> aq_chargeable_time_ms b = Some (max 0 (elapsed_ms t now))
     \<and> aq_modeled_cost_units b = Some units
     \<and> max 0 (elapsed_ms t now) * cr_units_per_second c \<le> 1000 * units
     \<and> 1000 * units < max 0 (elapsed_ms t now) * cr_units_per_second c + 1000
     \<and> (\<forall>u. aq_active_at a = Some u \<longrightarrow>
          (\<exists>ms. aq_browser_connected_ms b = Some ms \<and> ms \<le> max 0 (elapsed_ms t now)))
     \<and> finish_attempt att failed' reason' cs' ps' now' (fst (finish_attempt att failed reason cs ps now d))
         = (fst (finish_attempt att failed reason cs ps now d), True)"
proof -
  let ?d' = "fst (finish_attempt att failed reason cs ps now d)"
  let ?b = "finished_row (Some c) now failed reason cs ps a"
  note f = finish_cases(3) [OF a live, of failed reason cs ps now]
  have at: "db_attempts ?d' = upd_where (\<lambda>x. aq_id x = aq_id a)
      (\<lambda>x. finished_row (rate_of d (aq_provider x)) now failed reason cs ps x) (db_attempts d)" using f by blast
  have id: "aq_id a = pa_attempt_id att" using attempt_of_Some [OF a] by simp
  have b: "attempt_of ?d' (pa_attempt_id att) = Some ?b"
    using a rate(1) id by (simp add: attempt_of_def at lookup_upd_where)
  have occ: "aq_chargeable_time_ms ?b = Some (max 0 (elapsed_ms t now))"
    by (simp add: finished_row_def acq)
  have cost: "aq_modeled_cost_units ?b = Some ((max 0 (elapsed_ms t now) * cr_units_per_second c + 999) div 1000)"
    by (simp add: finished_row_def finalize_cost acq)
  have con: "\<exists>ms. aq_browser_connected_ms ?b = Some ms \<and> ms \<le> max 0 (elapsed_ms t now)" if "aq_active_at a = Some u" for u
    using order that elapsed_ms_mono [of t u now] by (auto simp: finished_row_def)
  have lk: "lock_provider (pa_provider att) ?d' = ?d'"
    by (simp add: finish_attempt_def Let_def lock_provider_def write_attempt_def attempt_event_def add_event_def
        set_attempt_def split: option.split)
  have "finish_attempt att failed' reason' cs' ps' now' ?d' = (?d', True)"
    using finish_cases(2) [OF b, of failed' reason' cs' ps' now'] lk by (cases failed) simp_all
  with b occ cost con cost_units_ceiling [of "max 0 (elapsed_ms t now) * cr_units_per_second c"]
  show ?thesis by (intro exI [of _ ?b] exI [of _ "(max 0 (elapsed_ms t now) * cr_units_per_second c + 999) div 1000"]) simp
qed

definition demo_billed :: db where
  "demo_billed = run_trace ((Op_Default_Rates, 0) # demo_trace) empty_db"

lemma demo_billed_reachable: "gw_reachable demo_billed"
  unfolding demo_billed_def by (rule trace_reachable)

theorem finish_bills_occupancy_witness:
  "\<exists>b. attempt_of (fst (finish_attempt (demo_attempt ''a1'' ''s1'' BROWSERLESS) False ''done'' None None 1254000 demo_billed)) ''a1'' = Some b
     \<and> aq_chargeable_time_ms b = Some 1250 \<and> aq_modeled_cost_units b = Some 125"
proof -
  let ?att = "demo_attempt ''a1'' ''s1'' BROWSERLESS"
  have id: "pa_attempt_id ?att = ''a1''" by (simp add: demo_attempt_def)
  have "map_option (\<lambda>a. (aq_state a, aq_acquiring_at a, aq_active_at a, aq_provider a)) (attempt_of demo_billed ''a1'')
      = Some (A_Acquiring, Some 4000, None, BROWSERLESS)" by code_simp
  then obtain a where a: "attempt_of demo_billed (pa_attempt_id ?att) = Some a" "aq_state a = A_Acquiring"
    "aq_acquiring_at a = Some 4000" "aq_active_at a = None" "aq_provider a = BROWSERLESS" by (auto simp: id)
  have "map_option cr_units_per_second (rate_of demo_billed BROWSERLESS) = Some 100" by code_simp
  then obtain c where c: "rate_of demo_billed (aq_provider a) = Some c" "cr_units_per_second c = 100" using a(5) by auto
  have ms: "max 0 (elapsed_ms 4000 1254000) = 1250" by (simp add: elapsed_ms_def)
  have live: "live_attempt_state (aq_state a)" using a(2) by simp
  have rate0: "0 \<le> cr_units_per_second c" using c(2) by simp
  have ord: "\<forall>u. aq_active_at a = Some u \<longrightarrow> 4000 \<le> u" using a(4) by simp
  obtain b units where "attempt_of (fst (finish_attempt ?att False ''done'' None None 1254000 demo_billed)) ''a1'' = Some b"
    "aq_chargeable_time_ms b = Some 1250" "aq_modeled_cost_units b = Some units" "125000 \<le> 1000 * units" "1000 * units < 126000"
    using finish_bills_occupancy [OF demo_billed_reachable a(1) live a(3) c(1) rate0 ord,
        where failed = False and reason = "''done''" and cs = None and ps = None and now = 1254000
          and failed' = False and reason' = "[]" and cs' = None and ps' = None and now' = 0]
    unfolding ms id c(2) by auto
  moreover from this have "units = 125" by simp
  ultimately show ?thesis by blast
qed

text \<open>an attempt that never held a browser is never charged: without an acquisition instant it has
  no chargeable time and no cost, in any state and however it ended.\<close>

theorem unacquired_never_charged:
  assumes "gw_reachable d" "a \<in> set (db_attempts d)" "aq_acquiring_at a = None"
  shows "aq_chargeable_time_ms a = None \<and> aq_modeled_cost_units a = None"
  using wf_dbD(5) [OF reachable_wf [OF assms(1)] assms(2)] assms(3) by (simp add: attempt_ok_def)

theorem unacquired_never_charged_witness:
  "\<exists>a \<in> set (db_attempts demo_billed). aq_id a = ''a2'' \<and> aq_modeled_cost_units a = None"
proof -
  have "list_ex (\<lambda>a. aq_id a = ''a2'' \<and> aq_acquiring_at a = None) (db_attempts demo_billed)" by code_simp
  then obtain a where "a \<in> set (db_attempts demo_billed)" "aq_id a = ''a2''" "aq_acquiring_at a = None"
    by (auto simp: list_ex_iff)
  with unacquired_never_charged [OF demo_billed_reachable] show ?thesis by blast
qed

text \<open>the cost overview accounts for every finished attempt of its window exactly once: the
  totals are the sums over those attempts, the provider rows and the time buckets each partition
  them, and at most ten sessions are listed.\<close>

theorem overview_accounts:
  assumes "overview window_key workload ends d = Inr v"
  shows "\<exists>w rows. rows = filter (in_window d workload (ends - cw_duration w) ends) (db_attempts d)
      \<and> find (\<lambda>w. cw_key w = window_key) cost_windows = Some w
      \<and> ct_attempt_count (co_totals v) = length rows
      \<and> ct_failed_attempt_count (co_totals v) = count_where (\<lambda>a. aq_state a = A_Failed) rows
      \<and> ct_modeled_cost_units (co_totals v) = total_of aq_modeled_cost_units rows
      \<and> ct_chargeable_time_ms (co_totals v) = total_of aq_chargeable_time_ms rows
      \<and> ct_session_count (co_totals v) = card (aq_session_id ` set rows)
      \<and> sum_list (map bc_attempt_count (co_buckets v)) = length rows
      \<and> sum_list (map bc_modeled_cost_units (co_buckets v)) = total_of aq_modeled_cost_units rows
      \<and> length (co_recent_sessions v) \<le> 10"
proof -
  from assms obtain w where w: "find (\<lambda>w. cw_key w = window_key) cost_windows = Some w"
    by (auto simp: overview_def split: option.splits)
  let ?rows = "filter (in_window d workload (ends - cw_duration w) ends) (db_attempts d)"
  have v: "co_totals v = cost_totals_of ?rows (map provider_cost_row (group_by aq_provider ?rows))"
    "co_buckets v = map bucket_cost_row
       (group_by (\<lambda>a. (date_trunc (cw_bucket w) (the (aq_finished_at a)), aq_provider a)) ?rows)"
    "co_recent_sessions v = recent_sessions d ?rows"
    using assms w by (auto simp: overview_def Let_def)
  have card: "length (remdups (map aq_session_id ?rows)) = card (aq_session_id ` set ?rows)"
    by (metis distinct_card distinct_remdups list.set_map set_remdups)
  show ?thesis
    by (rule exI [of _ w], rule exI [of _ ?rows])
       (simp add: w v cost_totals_of_def map_provider_rows map_bucket_rows total_group_by length_group_by
          count_group_by card recent_sessions_def del: map_map)
qed

theorem overview_accounts_witness:
  "\<exists>v. overview ''24h'' None 10000 demo_external_db = Inr v \<and> ct_attempt_count (co_totals v) = 1"
proof -
  have "(case overview ''24h'' None 10000 demo_external_db of Inl _ \<Rightarrow> False | Inr _ \<Rightarrow> True)" by code_simp
  then obtain v where v: "overview ''24h'' None 10000 demo_external_db = Inr v" by (auto split: sum.splits)
  have w: "map_option cw_duration (find (\<lambda>w. cw_key w = ''24h'') cost_windows) = Some (24 * hour)" by code_simp
  have n: "length (filter (in_window demo_external_db None (10000 - 24 * hour) 10000) (db_attempts demo_external_db)) = 1"
    by code_simp
  from overview_accounts [OF v] w have "ct_attempt_count (co_totals v) =
      length (filter (in_window demo_external_db None (10000 - 24 * hour) 10000) (db_attempts demo_external_db))" by auto
  with v n show ?thesis by auto
qed

section \<open>The fleet\<close>

text \<open>Draining is effective: from a reachable database in which an instance is draining or
  stopped, along every run in which no controller cancels drains and the instance is not reported as
  restarted, no attempt is assigned to it that was not assigned before.\<close>

theorem drained_gets_no_attempt:
  assumes "gw_reachable d" "retired i d" "steps (quiet_step i) d ls d'"
  shows "\<forall>x. (x, Some i) \<in> set (assignments d') \<longrightarrow> (x, Some i) \<in> set (assignments d)"
  by (rule retirement.steps_below [OF assms(3)]) (use reachable_wf [OF assms(1)] assms(2) in blast)

theorem drained_gets_no_attempt_witness:
  "(''a1'', Some ''b1'') \<notin> set (assignments (gw_apply (fst (demo_trace ! 4)) 4000
      (run_trace (take 4 demo_trace @ [(Op_Drain BROWSERLESS ''b1'', 3500)]) empty_db)))"
proof -
  let ?tr = "take 4 demo_trace @ [(Op_Drain BROWSERLESS ''b1'', 3500)]"
  let ?d = "run_trace ?tr empty_db" and ?op = "fst (demo_trace ! 4)"
  have r: "gw_reachable ?d" by (rule trace_reachable)
  have "instance_state ?d ''b1'' = Some FI_Draining" by code_simp
  then have rt: "retired ''b1'' ?d" by (simp add: retired_def)
  have op: "?op = Op_Enqueue (demo_session ''s1'') ''a1'' BROWSERLESS JNull JNull None" by (simp add: demo_trace_def)
  have "steps (quiet_step ''b1'') ?d [(?op, 4000)] (gw_apply ?op 4000 ?d)"
    by (rule steps_Cons [OF _ steps_Nil]) (simp add: quiet_step_def gw_step_simps op)
  from drained_gets_no_attempt [OF r rt this]
  have "(''a1'', Some ''b1'') \<in> set (assignments (gw_apply ?op 4000 ?d)) \<longrightarrow> (''a1'', Some ''b1'') \<in> set (assignments ?d)" by blast
  moreover have "assignments ?d = []" by code_simp
  ultimately show ?thesis by simp
qed

end
