(* ===== verification/Pacing_Controller.thy ===== *)
theory Pacing_Controller
  imports Prelude
begin

text \<open>
  The feedback rules of domain pacing (\<^verbatim>\<open>backend/proxy/domain_pacing/controller.py\<close> and
  \<^verbatim>\<open>contracts.py\<close>): additive increase after a run of healthy captures at the limit,
  multiplicative decrease with a cooldown after an explicit refusal or repeated overload. A
  generation number ties every capture to the allowance it started under.
\<close>

section \<open>Settings and policies\<close>

record pacing_settings =
  ps_default_concurrency :: int
  ps_default_spacing :: rat
  ps_maximum_concurrency :: int
  ps_minimum_spacing :: rat
  ps_maximum_spacing :: rat
  ps_learned_ttl :: int
  ps_healthy_samples :: int
  ps_overload_samples :: int
  ps_cooldown :: int

definition default_pacing_settings :: pacing_settings where
  "default_pacing_settings = \<lparr>ps_default_concurrency = 2, ps_default_spacing = 1, ps_maximum_concurrency = 8,
     ps_minimum_spacing = 1/10, ps_maximum_spacing = 60, ps_learned_ttl = 86400, ps_healthy_samples = 10,
     ps_overload_samples = 3, ps_cooldown = 30\<rparr>"

text \<open>The field bounds and the model validator of \<open>PacingSettings\<close>.\<close>

definition pacing_settings_ok :: "pacing_settings \<Rightarrow> bool" where
  "pacing_settings_ok s \<longleftrightarrow>
     1 \<le> ps_default_concurrency s \<and> ps_default_concurrency s \<le> 100
     \<and> 1/100 \<le> ps_default_spacing s \<and> ps_default_spacing s \<le> 60
     \<and> 1 \<le> ps_maximum_concurrency s \<and> ps_maximum_concurrency s \<le> 100
     \<and> 1/100 \<le> ps_minimum_spacing s \<and> ps_minimum_spacing s \<le> 60
     \<and> 1/100 \<le> ps_maximum_spacing s \<and> ps_maximum_spacing s \<le> 3600
     \<and> 60 \<le> ps_learned_ttl s \<and> ps_learned_ttl s \<le> 2592000
     \<and> 2 \<le> ps_healthy_samples s \<and> ps_healthy_samples s \<le> 1000
     \<and> 2 \<le> ps_overload_samples s \<and> ps_overload_samples s \<le> 100
     \<and> 1 \<le> ps_cooldown s \<and> ps_cooldown s \<le> 3600
     \<and> ps_default_concurrency s \<le> ps_maximum_concurrency s
     \<and> ps_minimum_spacing s \<le> ps_default_spacing s \<and> ps_default_spacing s \<le> ps_maximum_spacing s"

record policy =
  po_concurrency :: int
  po_spacing :: rat
  po_expires_at :: time
  po_cooldown_until :: "time option"
  po_healthy_samples :: int
  po_concurrency_samples :: int
  po_overload_samples :: int
  po_generation :: int
  po_reason :: string
  po_adjusted_at :: "time option"

datatype pacing_outcome = Healthy | Throttled | Overload | Neutral

text \<open>A float the code tests with \<open>math.isfinite\<close>.\<close>

datatype py_float = Finite rat | NonFinite

record observation =
  obs_outcome :: pacing_outcome
  obs_retry_after :: "py_float option"

section \<open>Rules\<close>

definition reset_policy :: "pacing_settings \<Rightarrow> policy \<Rightarrow> time \<Rightarrow> policy" where
  "reset_policy s p now =
     \<lparr>po_concurrency = ps_default_concurrency s, po_spacing = ps_default_spacing s,
      po_expires_at = now + timedelta (of_int (ps_learned_ttl s)), po_cooldown_until = po_cooldown_until p,
      po_healthy_samples = 0, po_concurrency_samples = 0, po_overload_samples = 0,
      po_generation = po_generation p + 1, po_reason = ''ttl_expired'', po_adjusted_at = Some now\<rparr>"

text \<open>\<open>round(x, 6)\<close>.\<close>

definition round6 :: "rat \<Rightarrow> rat" where
  "round6 x = of_int (py_round (x * 1000000)) / 1000000"

definition healthy_update ::
  "pacing_settings \<Rightarrow> policy \<Rightarrow> time \<Rightarrow> bool \<Rightarrow> bool \<Rightarrow> int \<Rightarrow> policy" where
  "healthy_update s p now at_limit concurrency_at_limit generation =
     (if generation \<noteq> po_generation p \<or> later (po_cooldown_until p) now then p
      else
        let p1 = p\<lparr>po_overload_samples := 0\<rparr>
        in if \<not> at_limit then p1
           else
             let p2 = p1\<lparr>po_healthy_samples := po_healthy_samples p1 + 1,
                         po_concurrency_samples := po_concurrency_samples p1 + (if concurrency_at_limit then 1 else 0),
                         po_expires_at := now + timedelta (of_int (ps_learned_ttl s))\<rparr>
             in if po_healthy_samples p2 < ps_healthy_samples s then p2
                else
                  let raise = (po_concurrency_samples p2 \<ge> ps_healthy_samples s div 2
                               \<and> po_concurrency p2 < ps_maximum_concurrency s);
                      concurrency = (if raise then min (ps_maximum_concurrency s) (po_concurrency p2 + 1) else po_concurrency p2);
                      spacing = (if raise then po_spacing p2
                                 else max (ps_minimum_spacing s) (round6 (po_spacing p2 * (8/10))));
                      changed = (concurrency \<noteq> po_concurrency p2 \<or> spacing \<noteq> po_spacing p2)
                  in p2\<lparr>po_concurrency := concurrency, po_spacing := spacing, po_healthy_samples := 0,
                        po_concurrency_samples := 0,
                        po_generation := po_generation p2 + (if changed then 1 else 0),
                        po_reason := (if changed then ''healthy_at_limit'' else po_reason p2),
                        po_adjusted_at := (if changed then Some now else po_adjusted_at p2)\<rparr>)"

definition retry_seconds :: "pacing_settings \<Rightarrow> observation \<Rightarrow> rat" where
  "retry_seconds s ob =
     (case obs_retry_after ob of
        Some (Finite r) \<Rightarrow> if r < 0 then of_int (ps_cooldown s) else r
      | _ \<Rightarrow> of_int (ps_cooldown s))"

definition failure_cooldown :: "pacing_settings \<Rightarrow> policy \<Rightarrow> observation \<Rightarrow> time \<Rightarrow> time" where
  "failure_cooldown s p ob now =
     (let c = now + timedelta (min (retry_seconds s ob) 31536000)
      in case po_cooldown_until p of None \<Rightarrow> c | Some u \<Rightarrow> max c u)"

definition failure_update ::
  "pacing_settings \<Rightarrow> policy \<Rightarrow> observation \<Rightarrow> time \<Rightarrow> int \<Rightarrow> policy" where
  "failure_update s p ob now generation =
     (let count = po_overload_samples p + 1
      in if obs_outcome ob = Overload \<and> count < ps_overload_samples s
         then p\<lparr>po_overload_samples := count, po_healthy_samples := 0, po_concurrency_samples := 0\<rparr>
         else
           let cooldown = failure_cooldown s p ob now
           in if generation \<noteq> po_generation p then
                if obs_outcome ob \<noteq> Throttled \<or> Some cooldown = po_cooldown_until p then p
                else p\<lparr>po_cooldown_until := Some cooldown, po_generation := po_generation p + 1,
                       po_reason := ''origin_throttled'', po_adjusted_at := Some now\<rparr>
              else p\<lparr>po_concurrency := max 1 (po_concurrency p div 2),
                     po_spacing := min (ps_maximum_spacing s) (po_spacing p * 2),
                     po_cooldown_until := Some cooldown,
                     po_expires_at := now + timedelta (of_int (ps_learned_ttl s)),
                     po_healthy_samples := 0, po_concurrency_samples := 0, po_overload_samples := 0,
                     po_generation := po_generation p + 1,
                     po_reason := (if obs_outcome ob = Throttled then ''origin_throttled'' else ''origin_overload''),
                     po_adjusted_at := Some now\<rparr>)"

definition update_policy ::
  "pacing_settings \<Rightarrow> policy \<Rightarrow> observation \<Rightarrow> time \<Rightarrow> bool \<Rightarrow> bool \<Rightarrow> int \<Rightarrow> policy" where
  "update_policy s p ob now at_limit concurrency_at_limit generation =
     (if obs_outcome ob = Neutral then p
      else if obs_outcome ob = Overload \<and> generation \<noteq> po_generation p then p
      else if obs_outcome ob = Healthy then healthy_update s p now at_limit concurrency_at_limit generation
      else failure_update s p ob now generation)"

section \<open>The allowance stays within the settings\<close>

definition bounded_by :: "pacing_settings \<Rightarrow> policy \<Rightarrow> bool" where
  "bounded_by s p \<longleftrightarrow> 1 \<le> po_concurrency p \<and> po_concurrency p \<le> ps_maximum_concurrency s
     \<and> ps_minimum_spacing s \<le> po_spacing p \<and> po_spacing p \<le> ps_maximum_spacing s"

lemma bounded_by_cong:
  "po_concurrency q = po_concurrency p \<Longrightarrow> po_spacing q = po_spacing p \<Longrightarrow> bounded_by s q = bounded_by s p"
  by (simp add: bounded_by_def)

lemma bounded_by_reset: "pacing_settings_ok s \<Longrightarrow> bounded_by s (reset_policy s p now)"
  by (simp add: pacing_settings_ok_def bounded_by_def reset_policy_def)

text \<open>Rounding four fifths of a spacing of at least a hundredth of a second never raises it.\<close>

lemma round6_shrinks: "1/100 \<le> x \<Longrightarrow> round6 (x * (8/10)) \<le> x"
proof -
  assume "1/100 \<le> x"
  then have "x * (8/10) * 1000000 + 1/2 \<le> x * 1000000" by simp
  then have "of_int (py_round (x * (8/10) * 1000000)) \<le> x * 1000000"
    using py_round_upper [of "x * (8/10) * 1000000"] by linarith
  then show ?thesis by (simp add: round6_def pos_divide_le_eq)
qed

lemma bounded_by_spacing: "pacing_settings_ok s \<Longrightarrow> bounded_by s p \<Longrightarrow> 1/100 \<le> po_spacing p"
  by (auto simp: pacing_settings_ok_def bounded_by_def)

definition relaxes :: "policy \<Rightarrow> policy \<Rightarrow> bool" where
  "relaxes p q \<longleftrightarrow> po_concurrency p \<le> po_concurrency q \<and> po_spacing q \<le> po_spacing p"

definition cooldown_le :: "time option \<Rightarrow> time option \<Rightarrow> bool" where
  "cooldown_le a b \<longleftrightarrow> (case a of None \<Rightarrow> True | Some t \<Rightarrow> (case b of None \<Rightarrow> False | Some u \<Rightarrow> t \<le> u))"

lemma cooldown_le_refl [simp]: "cooldown_le a a"
  by (simp add: cooldown_le_def split: option.split)

lemma cooldown_le_trans: "cooldown_le a b \<Longrightarrow> cooldown_le b c \<Longrightarrow> cooldown_le a c"
  by (auto simp: cooldown_le_def split: option.splits)

lemma cooldown_later: "cooldown_le a b \<Longrightarrow> later a t \<Longrightarrow> later b t"
  by (auto simp: cooldown_le_def split: option.splits)

lemma healthy_relaxes:
  assumes ok: "pacing_settings_ok s" and w: "bounded_by s p"
  shows "bounded_by s (healthy_update s p now al cal g) \<and> relaxes p (healthy_update s p now al cal g)
     \<and> po_cooldown_until (healthy_update s p now al cal g) = po_cooldown_until p
     \<and> po_generation p \<le> po_generation (healthy_update s p now al cal g)"
proof -
  have sp: "round6 (po_spacing p * (8/10)) \<le> po_spacing p"
    by (rule round6_shrinks) (rule bounded_by_spacing [OF ok w])
  from w have b: "1 \<le> po_concurrency p" "po_concurrency p \<le> ps_maximum_concurrency s"
    "ps_minimum_spacing s \<le> po_spacing p" "po_spacing p \<le> ps_maximum_spacing s"
    by (simp_all add: bounded_by_def)
  then have mx: "max (ps_minimum_spacing s) (round6 (po_spacing p * (8/10))) \<le> po_spacing p"
    "max (ps_minimum_spacing s) (round6 (po_spacing p * (8/10))) \<le> ps_maximum_spacing s"
    using sp by linarith+
  show ?thesis
    unfolding healthy_update_def Let_def using b mx
    by (simp add: bounded_by_def relaxes_def)
qed

lemma failure_cooldown_le: "cooldown_le (po_cooldown_until p) (Some (failure_cooldown s p ob now))"
  by (simp add: failure_cooldown_def cooldown_le_def Let_def split: option.split)

lemma failure_tightens:
  assumes ok: "pacing_settings_ok s" and w: "bounded_by s p"
  shows "bounded_by s (failure_update s p ob now g) \<and> relaxes (failure_update s p ob now g) p
     \<and> cooldown_le (po_cooldown_until p) (po_cooldown_until (failure_update s p ob now g))
     \<and> po_generation p \<le> po_generation (failure_update s p ob now g)"
proof -
  from w have b: "1 \<le> po_concurrency p" "po_concurrency p \<le> ps_maximum_concurrency s"
    "ps_minimum_spacing s \<le> po_spacing p" "po_spacing p \<le> ps_maximum_spacing s"
    by (simp_all add: bounded_by_def)
  have half: "max 1 (po_concurrency p div 2) \<le> po_concurrency p" using b by auto
  have sp0: "0 \<le> po_spacing p" using bounded_by_spacing [OF ok w] by simp
  have dbl: "po_spacing p \<le> min (ps_maximum_spacing s) (po_spacing p * 2)" using b sp0 by simp
  show ?thesis
    unfolding failure_update_def Let_def using b half dbl failure_cooldown_le
    by (auto simp: bounded_by_def relaxes_def)
qed

text \<open>Whatever is observed, the learned allowance stays within the operator's settings: at least
  one concurrent capture and at most the maximum, spacing between the bounds.\<close>

theorem allowance_within_settings:
  assumes "pacing_settings_ok s" "bounded_by s p"
  shows "bounded_by s (update_policy s p ob now al cal g) \<and> bounded_by s (reset_policy s p now)"
  using healthy_relaxes [OF assms] failure_tightens [OF assms] bounded_by_reset [OF assms(1)] assms(2)
  by (simp add: update_policy_def)

definition demo_policy :: policy where
  "demo_policy = \<lparr>po_concurrency = 2, po_spacing = 1, po_expires_at = 86400000000, po_cooldown_until = None,
     po_healthy_samples = 9, po_concurrency_samples = 9, po_overload_samples = 0, po_generation = 4,
     po_reason = ''default'', po_adjusted_at = None\<rparr>"

lemma demo_policy_ok: "pacing_settings_ok default_pacing_settings" "bounded_by default_pacing_settings demo_policy"
  by (simp_all add: pacing_settings_ok_def default_pacing_settings_def bounded_by_def demo_policy_def)

theorem allowance_within_settings_witness:
  "bounded_by default_pacing_settings
     (update_policy default_pacing_settings demo_policy \<lparr>obs_outcome = Healthy, obs_retry_after = None\<rparr> 0 True True 4)
   \<and> po_concurrency (update_policy default_pacing_settings demo_policy
       \<lparr>obs_outcome = Healthy, obs_retry_after = None\<rparr> 0 True True 4) = 3"
proof
  show "bounded_by default_pacing_settings
     (update_policy default_pacing_settings demo_policy \<lparr>obs_outcome = Healthy, obs_retry_after = None\<rparr> 0 True True 4)"
    using allowance_within_settings [OF demo_policy_ok] by blast
  show "po_concurrency (update_policy default_pacing_settings demo_policy
       \<lparr>obs_outcome = Healthy, obs_retry_after = None\<rparr> 0 True True 4) = 3" by code_simp
qed

text \<open>Feedback has the right sign and one burst causes one reduction: a healthy capture never
  tightens the allowance and never moves the cooldown, a refusal or overload never relaxes it and
  never shortens the cooldown, and an observation from an older generation changes neither
  concurrency nor spacing.\<close>

theorem feedback_sign:
  assumes "pacing_settings_ok s" "bounded_by s p"
  shows "(obs_outcome ob = Healthy \<longrightarrow> relaxes p (update_policy s p ob now al cal g)
            \<and> po_cooldown_until (update_policy s p ob now al cal g) = po_cooldown_until p)
    \<and> (obs_outcome ob \<in> {Throttled, Overload} \<longrightarrow> relaxes (update_policy s p ob now al cal g) p)
    \<and> cooldown_le (po_cooldown_until p) (po_cooldown_until (update_policy s p ob now al cal g))
    \<and> po_generation p \<le> po_generation (update_policy s p ob now al cal g)
    \<and> (g \<noteq> po_generation p \<longrightarrow> po_concurrency (update_policy s p ob now al cal g) = po_concurrency p
          \<and> po_spacing (update_policy s p ob now al cal g) = po_spacing p)"
proof -
  have rr: "relaxes p p" by (simp add: relaxes_def)
  have stale: "po_concurrency (update_policy s p ob now al cal g) = po_concurrency p
          \<and> po_spacing (update_policy s p ob now al cal g) = po_spacing p" if "g \<noteq> po_generation p"
    using that by (simp add: update_policy_def healthy_update_def failure_update_def Let_def)
  show ?thesis
  proof (cases "obs_outcome ob")
    case Healthy
    then show ?thesis using healthy_relaxes [OF assms, of now al cal g] stale
      by (simp add: update_policy_def)
  next
    case Neutral
    then show ?thesis by (simp add: update_policy_def)
  next
    case Throttled
    then show ?thesis using failure_tightens [OF assms, of ob now g] stale by (simp add: update_policy_def)
  next
    case Overload
    then show ?thesis using failure_tightens [OF assms, of ob now g] stale rr by (auto simp: update_policy_def)
  qed
qed

theorem feedback_sign_witness:
  "relaxes (update_policy default_pacing_settings demo_policy \<lparr>obs_outcome = Throttled, obs_retry_after = Some (Finite 5)\<rparr> 7 True True 4) demo_policy
   \<and> po_concurrency (update_policy default_pacing_settings demo_policy \<lparr>obs_outcome = Throttled, obs_retry_after = Some (Finite 5)\<rparr> 7 True True 4) = 1"
proof
  show "relaxes (update_policy default_pacing_settings demo_policy \<lparr>obs_outcome = Throttled, obs_retry_after = Some (Finite 5)\<rparr> 7 True True 4) demo_policy"
    using feedback_sign [OF demo_policy_ok, of "\<lparr>obs_outcome = Throttled, obs_retry_after = Some (Finite 5)\<rparr>" 7 True True 4] by simp
  show "po_concurrency (update_policy default_pacing_settings demo_policy \<lparr>obs_outcome = Throttled, obs_retry_after = Some (Finite 5)\<rparr> 7 True True 4) = 1"
    by code_simp
qed

end
