(* ===== verification/Pacing_Repository.thy ===== *)
theory Pacing_Repository
  imports Pacing_Controller Contracts
begin

text \<open>
  Domain pacing in PostgreSQL (\<^verbatim>\<open>backend/proxy/domain_pacing/repository.py\<close>, with the purge of
  \<^verbatim>\<open>backend/workers/maintenance/retention.py\<close>): one state row per hostname with the learned
  policy, the next permitted start and the leases of running captures. \<open>acquire\<close> commits its
  bookkeeping even when it refuses. The lemmas show what one transaction guarantees and what
  survives any run of transactions under the database clock.
\<close>

section \<open>Tables\<close>

record pacing_state =
  st_hostname :: string
  st_policy :: policy
  st_next_start_at :: time
  st_last_started_at :: "time option"
  st_reset_requested :: bool
  st_spacing_refused_at :: "time option"
  st_settings_version :: int

record pacing_lease =
  pl_id :: string
  pl_hostname :: string
  pl_session_id :: string
  pl_expires_at :: time
  pl_generation :: int
  pl_at_limit :: bool
  pl_concurrency_at_limit :: bool

record pacing_request =
  pr_id :: string
  pr_hostname :: string
  pr_started_at :: time
  pr_finished_at :: "time option"
  pr_lease_expires_at :: "time option"
  pr_refusal :: "string option"
  pr_outcome :: "string option"
  pr_active_captures :: nat
  pr_concurrency :: int
  pr_spacing :: rat

record pacing_event =
  pe_session_id :: string
  pe_hostname :: string
  pe_concurrency :: int
  pe_spacing :: rat
  pe_reason :: string
  pe_generation :: int
  pe_occurred_at :: time

record pacing_configuration =
  pc_settings :: pacing_settings
  pc_version :: int

record pacing_db =
  pd_settings :: "pacing_configuration option"
  pd_states :: "pacing_state list"
  pd_leases :: "pacing_lease list"
  pd_requests :: "pacing_request list"
  pd_events :: "pacing_event list"

record lease_handle =
  lh_id :: string
  lh_hostname :: string

record domain_throttled =
  dt_reason :: string
  dt_retry_after :: int

section \<open>Settings\<close>

text \<open>\<open>_settings\<close> inserts the default row the first time it is needed.\<close>

definition pacing_configuration_of :: "pacing_db \<Rightarrow> pacing_db \<times> pacing_configuration" where
  "pacing_configuration_of d =
     (case pd_settings d of
        Some c \<Rightarrow> (d, c)
      | None \<Rightarrow>
          let c = \<lparr>pc_settings = default_pacing_settings, pc_version = 1\<rparr>
          in (d\<lparr>pd_settings := Some c\<rparr>, c))"

record pacing_changes =
  ch_unknown :: "string list"
  ch_default_concurrency :: "int option"
  ch_default_spacing :: "rat option"
  ch_maximum_concurrency :: "int option"
  ch_minimum_spacing :: "rat option"
  ch_maximum_spacing :: "rat option"
  ch_learned_ttl :: "int option"
  ch_healthy_samples :: "int option"
  ch_overload_samples :: "int option"
  ch_cooldown :: "int option"

fun overridden :: "'a option \<Rightarrow> 'a \<Rightarrow> 'a" where
  "overridden None x = x"
| "overridden (Some y) x = y"

definition apply_changes :: "pacing_changes \<Rightarrow> pacing_settings \<Rightarrow> pacing_settings" where
  "apply_changes c s =
     \<lparr>ps_default_concurrency = overridden (ch_default_concurrency c) (ps_default_concurrency s),
      ps_default_spacing = overridden (ch_default_spacing c) (ps_default_spacing s),
      ps_maximum_concurrency = overridden (ch_maximum_concurrency c) (ps_maximum_concurrency s),
      ps_minimum_spacing = overridden (ch_minimum_spacing c) (ps_minimum_spacing s),
      ps_maximum_spacing = overridden (ch_maximum_spacing c) (ps_maximum_spacing s),
      ps_learned_ttl = overridden (ch_learned_ttl c) (ps_learned_ttl s),
      ps_healthy_samples = overridden (ch_healthy_samples c) (ps_healthy_samples s),
      ps_overload_samples = overridden (ch_overload_samples c) (ps_overload_samples s),
      ps_cooldown = overridden (ch_cooldown c) (ps_cooldown s)\<rparr>"

text \<open>\<open>update_settings\<close>: unknown fields (\<open>extra="forbid"\<close>) and values outside the bounds raise
  and roll back.\<close>

definition update_pacing_settings ::
  "pacing_changes \<Rightarrow> pacing_db \<Rightarrow> (pacing_db \<times> pacing_configuration) result" where
  "update_pacing_settings changes d =
     (let (d1, c) = pacing_configuration_of d;
          s = apply_changes changes (pc_settings c)
      in if ch_unknown changes \<noteq> [] \<or> \<not> pacing_settings_ok s then Inl (ValueError ''Invalid pacing settings'')
         else let c' = \<lparr>pc_settings = s, pc_version = pc_version c + 1\<rparr>
              in Inr (d1\<lparr>pd_settings := Some c'\<rparr>, c'))"

section \<open>Helpers\<close>

definition state_of :: "pacing_db \<Rightarrow> string \<Rightarrow> pacing_state option" where
  "state_of d h = lookup st_hostname h (pd_states d)"

definition set_state :: "string \<Rightarrow> pacing_state \<Rightarrow> pacing_db \<Rightarrow> pacing_db" where
  "set_state h r d = d\<lparr>pd_states := upd_where (\<lambda>x. st_hostname x = h) (\<lambda>_. r) (pd_states d)\<rparr>"

text \<open>\<open>record_adjustment\<close> validates the payload of the event before adding it.\<close>

definition hostname_char :: "char \<Rightarrow> bool" where
  "hostname_char c \<longleftrightarrow> (CHR ''a'' \<le> c \<and> c \<le> CHR ''z'') \<or> (CHR ''0'' \<le> c \<and> c \<le> CHR ''9'')
     \<or> c = CHR ''.'' \<or> c = CHR '':'' \<or> c = CHR ''-''"

definition adjustment_ok :: "pacing_state \<Rightarrow> bool" where
  "adjustment_ok r \<longleftrightarrow>
     1 \<le> length (st_hostname r) \<and> length (st_hostname r) \<le> 253 \<and> list_all hostname_char (st_hostname r)
     \<and> 1 \<le> po_concurrency (st_policy r) \<and> po_concurrency (st_policy r) \<le> 100
     \<and> 0 < po_spacing (st_policy r) \<and> po_spacing (st_policy r) \<le> 3600
     \<and> po_reason (st_policy r) \<in> {''ttl_expired'', ''settings_changed'', ''healthy_at_limit'',
         ''origin_throttled'', ''origin_overload'', ''operator_reset''}
     \<and> 1 \<le> po_generation (st_policy r)"

definition record_adjustment :: "string \<Rightarrow> pacing_state \<Rightarrow> time \<Rightarrow> pacing_db \<Rightarrow> pacing_db result" where
  "record_adjustment sid r now d =
     (if \<not> adjustment_ok r then Inl (ValueError ''Invalid event payload'')
      else Inr (d\<lparr>pd_events := pd_events d @
        [\<lparr>pe_session_id = sid, pe_hostname = st_hostname r, pe_concurrency = po_concurrency (st_policy r),
          pe_spacing = po_spacing (st_policy r), pe_reason = po_reason (st_policy r),
          pe_generation = po_generation (st_policy r), pe_occurred_at = now\<rparr>]\<rparr>))"

definition needs_reset :: "pacing_configuration \<Rightarrow> time \<Rightarrow> pacing_state \<Rightarrow> bool" where
  "needs_reset c now r \<longleftrightarrow> st_reset_requested r \<or> po_expires_at (st_policy r) \<le> now
     \<or> st_settings_version r \<noteq> pc_version c"

definition reset_state :: "pacing_configuration \<Rightarrow> time \<Rightarrow> pacing_state \<Rightarrow> pacing_state" where
  "reset_state c now r =
     (let p = reset_policy (pc_settings c) (st_policy r) now;
          p1 = (if st_settings_version r \<noteq> pc_version c then p\<lparr>po_reason := ''settings_changed''\<rparr> else p);
          p2 = (if st_reset_requested r then p1\<lparr>po_reason := ''operator_reset''\<rparr> else p1)
      in r\<lparr>st_reset_requested := False, st_policy := p2, st_spacing_refused_at := None,
           st_settings_version := pc_version c\<rparr>)"

text \<open>The reset both transactions make before they use a stale policy, with its event.\<close>

definition refresh ::
  "pacing_configuration \<Rightarrow> string \<Rightarrow> time \<Rightarrow> pacing_state \<Rightarrow> pacing_db \<Rightarrow> (pacing_db \<times> pacing_state) result" where
  "refresh c sid now r d =
     (if needs_reset c now r then
        let r1 = reset_state c now r
        in case record_adjustment sid r1 now (set_state (st_hostname r) r1 d) of
             Inl e \<Rightarrow> Inl e
           | Inr d1 \<Rightarrow> Inr (d1, r1)
      else Inr (d, r))"

section \<open>Acquire\<close>

definition new_state_row :: "pacing_configuration \<Rightarrow> string \<Rightarrow> time \<Rightarrow> pacing_state" where
  "new_state_row c h now =
     \<lparr>st_hostname = h,
      st_policy = \<lparr>po_concurrency = ps_default_concurrency (pc_settings c),
        po_spacing = ps_default_spacing (pc_settings c),
        po_expires_at = now + timedelta (of_int (ps_learned_ttl (pc_settings c))),
        po_cooldown_until = None, po_healthy_samples = 0, po_concurrency_samples = 0,
        po_overload_samples = 0, po_generation = 0, po_reason = ''default'', po_adjusted_at = None\<rparr>,
      st_next_start_at = now, st_last_started_at = None, st_reset_requested = False,
      st_spacing_refused_at = None, st_settings_version = pc_version c\<rparr>"

definition ceil_seconds :: "time \<Rightarrow> int" where
  "ceil_seconds us = \<lceil>(of_int us :: rat) / 1000000\<rceil>"

definition live_leases :: "pacing_db \<Rightarrow> string \<Rightarrow> time \<Rightarrow> pacing_lease list" where
  "live_leases d h now = filter (\<lambda>l. pl_hostname l = h \<and> now < pl_expires_at l) (pd_leases d)"

definition refusal_of :: "pacing_state \<Rightarrow> pacing_lease list \<Rightarrow> time \<Rightarrow> domain_throttled option" where
  "refusal_of r leases now =
     (if later (po_cooldown_until (st_policy r)) now then
        Some \<lparr>dt_reason = ''domain_cooldown'',
              dt_retry_after = max 1 (ceil_seconds (the (po_cooldown_until (st_policy r)) - now))\<rparr>
      else if now < st_next_start_at r then
        Some \<lparr>dt_reason = ''domain_spacing'', dt_retry_after = max 1 (ceil_seconds (st_next_start_at r - now))\<rparr>
      else if int (length leases) \<ge> po_concurrency (st_policy r) then
        Some \<lparr>dt_reason = ''domain_concurrency'',
              dt_retry_after = max 1 \<lceil>min 5 ((of_int (fold min (map pl_expires_at leases)
                  (pl_expires_at (hd leases)) - now) :: rat) / 1000000)\<rceil>\<rparr>
      else None)"

definition mark_limit :: "string \<Rightarrow> pacing_db \<Rightarrow> pacing_db" where
  "mark_limit h d = d\<lparr>pd_leases := upd_where (\<lambda>l. pl_hostname l = h)
     (\<lambda>l. l\<lparr>pl_at_limit := True, pl_concurrency_at_limit := True\<rparr>) (pd_leases d)\<rparr>"

definition new_lease ::
  "pacing_state \<Rightarrow> pacing_lease list \<Rightarrow> string \<Rightarrow> string \<Rightarrow> rat \<Rightarrow> time \<Rightarrow> pacing_lease" where
  "new_lease r leases sid lid seconds now =
     (let p = st_policy r;
          concurrency_at_limit = (leases \<noteq> [] \<and> int (length leases) + 1 \<ge> po_concurrency p);
          spacing_at_limit = (case st_last_started_at r of None \<Rightarrow> False
             | Some t \<Rightarrow> seconds_between t now \<le> po_spacing p * (3/2));
          recent = (case st_spacing_refused_at r of None \<Rightarrow> False
             | Some t \<Rightarrow> seconds_between t now \<le> max 2 (po_spacing p * (3/2)))
      in \<lparr>pl_id = lid, pl_hostname = st_hostname r, pl_session_id = sid,
          pl_expires_at = now + timedelta seconds, pl_generation = po_generation p,
          pl_at_limit = (concurrency_at_limit \<or> spacing_at_limit \<or> recent),
          pl_concurrency_at_limit = concurrency_at_limit\<rparr>)"

definition started_state :: "time \<Rightarrow> pacing_state \<Rightarrow> pacing_state" where
  "started_state now r = r\<lparr>st_next_start_at := now + timedelta (po_spacing (st_policy r)),
     st_last_started_at := Some now, st_spacing_refused_at := None\<rparr>"

definition request_row ::
  "string \<Rightarrow> pacing_state \<Rightarrow> nat \<Rightarrow> rat \<Rightarrow> time \<Rightarrow> domain_throttled option \<Rightarrow> pacing_request" where
  "request_row lid r n seconds now refusal =
     \<lparr>pr_id = lid, pr_hostname = st_hostname r, pr_started_at = now, pr_finished_at = None,
      pr_lease_expires_at = (case refusal of None \<Rightarrow> Some (now + timedelta seconds) | Some _ \<Rightarrow> None),
      pr_refusal = map_option dt_reason refusal, pr_outcome = None,
      pr_active_captures = n + (case refusal of None \<Rightarrow> 1 | Some _ \<Rightarrow> 0),
      pr_concurrency = po_concurrency (st_policy r), pr_spacing = po_spacing (st_policy r)\<rparr>"

text \<open>The decision on the locked, current row: expired leases go, then the capture is refused or
  started. The lease identifier is a primary key of the lease and of the request table. The session
  a lease names exists: the caller has admitted it.\<close>

definition admit_capture ::
  "pacing_state \<Rightarrow> string \<Rightarrow> string \<Rightarrow> rat \<Rightarrow> string \<Rightarrow> time \<Rightarrow> pacing_db
     \<Rightarrow> (pacing_db \<times> (domain_throttled + lease_handle)) result" where
  "admit_capture r h sid seconds lid now d2 =
     (let d3 = d2\<lparr>pd_leases := filter (\<lambda>l. \<not> (pl_hostname l = h \<and> pl_expires_at l \<le> now)) (pd_leases d2)\<rparr>;
          leases = live_leases d3 h now;
          refusal = refusal_of r leases now;
          taken = list_ex (\<lambda>q. pr_id q = lid) (pd_requests d3)
            \<or> refusal = None \<and> list_ex (\<lambda>l. pl_id l = lid) (pd_leases d3)
      in if taken then Inl IntegrityError
         else
           let d4 = (case refusal of
                       None \<Rightarrow> set_state h (started_state now r)
                          (d3\<lparr>pd_leases := pd_leases d3 @ [new_lease r leases sid lid seconds now]\<rparr>)
                     | Some x \<Rightarrow>
                         if dt_reason x = ''domain_spacing''
                         then set_state h (r\<lparr>st_spacing_refused_at := Some now\<rparr>) d3
                         else if dt_reason x = ''domain_concurrency'' then mark_limit h d3
                         else d3)
           in Inr (d4\<lparr>pd_requests := pd_requests d4 @ [request_row lid r (length leases) seconds now refusal]\<rparr>,
                   case refusal of Some x \<Rightarrow> Inl x | None \<Rightarrow> Inr \<lparr>lh_id = lid, lh_hostname = h\<rparr>))"

text \<open>\<open>now0\<close> is the clock before the row lock, \<open>now\<close> the clock after it.\<close>

definition pacing_acquire ::
  "string \<Rightarrow> string \<Rightarrow> rat \<Rightarrow> string \<Rightarrow> time \<Rightarrow> time \<Rightarrow> pacing_db
     \<Rightarrow> (pacing_db \<times> (domain_throttled + lease_handle)) result" where
  "pacing_acquire h sid seconds lid now0 now d =
     (let (d0, c) = pacing_configuration_of d;
          d1 = (case state_of d0 h of
                  Some _ \<Rightarrow> d0
                | None \<Rightarrow> d0\<lparr>pd_states := pd_states d0 @ [new_state_row c h now0]\<rparr>)
      in case refresh c sid now (the (state_of d1 h)) d1 of
           Inl e \<Rightarrow> Inl e
         | Inr (d2, r) \<Rightarrow> admit_capture r h sid seconds lid now d2)"

section \<open>Release\<close>

fun outcome_name :: "pacing_outcome \<Rightarrow> string" where
  "outcome_name Healthy = ''healthy''"
| "outcome_name Throttled = ''throttled''"
| "outcome_name Overload = ''overload''"
| "outcome_name Neutral = ''neutral''"

definition adjusted_state :: "policy \<Rightarrow> pacing_state \<Rightarrow> pacing_state" where
  "adjusted_state after r =
     r\<lparr>st_policy := after,
       st_next_start_at :=
         (if po_generation after = po_generation (st_policy r) then st_next_start_at r
          else case st_last_started_at r of
                 None \<Rightarrow> st_next_start_at r
               | Some t \<Rightarrow> max (st_next_start_at r) (t + timedelta (po_spacing after)))\<rparr>"

definition observe_release ::
  "pacing_configuration \<Rightarrow> pacing_lease \<Rightarrow> observation \<Rightarrow> time \<Rightarrow> pacing_state \<Rightarrow> pacing_db \<Rightarrow> pacing_db result" where
  "observe_release c held ob now r d =
     (case refresh c (pl_session_id held) now r d of
        Inl e \<Rightarrow> Inl e
      | Inr (d1, r1) \<Rightarrow>
          let after = update_policy (pc_settings c) (st_policy r1) ob now (pl_at_limit held)
                        (pl_concurrency_at_limit held) (pl_generation held);
              r2 = adjusted_state after r1;
              d2 = set_state (st_hostname r) r2 d1
          in if po_generation after \<noteq> po_generation (st_policy r1)
             then record_adjustment (pl_session_id held) r2 now d2
             else Inr d2)"

definition pacing_release ::
  "lease_handle \<Rightarrow> observation option \<Rightarrow> time \<Rightarrow> pacing_db \<Rightarrow> pacing_db result" where
  "pacing_release lease ob now d =
     (case state_of d (lh_hostname lease) of
        None \<Rightarrow> Inr d
      | Some r \<Rightarrow>
          (case lookup pl_id (lh_id lease) (pd_leases d) of
             None \<Rightarrow> Inr d
           | Some held \<Rightarrow>
               let (d0, c) = pacing_configuration_of d
               in case (case ob of
                          Some o' \<Rightarrow> if now < pl_expires_at held then observe_release c held o' now r d0 else Inr d0
                        | None \<Rightarrow> Inr d0) of
                    Inl e \<Rightarrow> Inl e
                  | Inr d1 \<Rightarrow>
                      Inr (d1\<lparr>pd_requests := upd_where (\<lambda>q. pr_id q = lh_id lease)
                                (\<lambda>q. q\<lparr>pr_finished_at := Some now,
                                       pr_outcome := Some (case ob of Some o' \<Rightarrow> outcome_name (obs_outcome o')
                                                           | None \<Rightarrow> ''interrupted'')\<rparr>) (pd_requests d1),
                              pd_leases := filter (\<lambda>l. pl_id l \<noteq> lh_id lease) (pd_leases d1)\<rparr>)))"

section \<open>Operator and maintenance operations\<close>

definition request_reset :: "string \<Rightarrow> pacing_db \<Rightarrow> pacing_db \<times> bool" where
  "request_reset h d =
     (case state_of d h of
        None \<Rightarrow> (d, False)
      | Some r \<Rightarrow> (set_state h (r\<lparr>st_reset_requested := True\<rparr>) d, True))"

record pacing_view =
  pv_hostname :: string
  pv_policy :: policy
  pv_expired :: bool
  pv_reset_requested :: bool
  pv_effective_concurrency :: int
  pv_effective_spacing :: rat
  pv_active_captures :: nat

definition list_states :: "string option \<Rightarrow> nat \<Rightarrow> time \<Rightarrow> pacing_db \<Rightarrow> pacing_db \<times> pacing_view list" where
  "list_states hostname limit now d =
     (let (d1, c) = pacing_configuration_of d;
          rows = take limit (sort_key st_hostname
            (filter (\<lambda>r. case hostname of None \<Rightarrow> True | Some h \<Rightarrow> h = [] \<or> st_hostname r = h) (pd_states d1)))
      in (d1, map (\<lambda>r.
            let expired = needs_reset c now r;
                effective = (if expired then reset_policy (pc_settings c) (st_policy r) now else st_policy r)
            in \<lparr>pv_hostname = st_hostname r, pv_policy = st_policy r, pv_expired = expired,
                pv_reset_requested = st_reset_requested r, pv_effective_concurrency = po_concurrency effective,
                pv_effective_spacing = po_spacing effective,
                pv_active_captures = length (live_leases d1 (st_hostname r) now)\<rparr>) rows))"

text \<open>The retention job's purge: states that have expired, may start, are not cooling down and hold no
  live lease, at most one batch (which rows a batch takes is up to the database; the model takes them in
  table order). Their leases go with them (\<open>ON DELETE CASCADE\<close>).\<close>

definition purgeable :: "pacing_db \<Rightarrow> time \<Rightarrow> pacing_state \<Rightarrow> bool" where
  "purgeable d now r \<longleftrightarrow> po_expires_at (st_policy r) \<le> now \<and> st_next_start_at r \<le> now
     \<and> \<not> later (po_cooldown_until (st_policy r)) now
     \<and> live_leases d (st_hostname r) now = []"

definition purge_states :: "nat \<Rightarrow> time \<Rightarrow> pacing_db \<Rightarrow> pacing_db" where
  "purge_states batch now d =
     (let gone = map st_hostname (take batch (filter (purgeable d now) (pd_states d)))
      in d\<lparr>pd_states := filter (\<lambda>r. st_hostname r \<notin> set gone) (pd_states d),
           pd_leases := filter (\<lambda>l. pl_hostname l \<notin> set gone) (pd_leases d)\<rparr>)"

definition purge_requests :: "nat \<Rightarrow> time \<Rightarrow> pacing_db \<Rightarrow> pacing_db" where
  "purge_requests batch now d =
     (let gone = map pr_id (take batch (filter (\<lambda>q. pr_started_at q < now - 7 * 86400 * 1000000) (pd_requests d)))
      in d\<lparr>pd_requests := filter (\<lambda>q. pr_id q \<notin> set gone) (pd_requests d)\<rparr>)"

section \<open>The invariant\<close>

definition state_ok :: "pacing_configuration \<Rightarrow> pacing_state \<Rightarrow> bool" where
  "state_ok c r \<longleftrightarrow> 1 \<le> po_concurrency (st_policy r) \<and> 1/100 \<le> po_spacing (st_policy r)
     \<and> st_settings_version r \<le> pc_version c
     \<and> (st_settings_version r = pc_version c \<longrightarrow> bounded_by (pc_settings c) (st_policy r))"

definition pacing_ok :: "pacing_db \<Rightarrow> bool" where
  "pacing_ok d \<longleftrightarrow> distinct (map st_hostname (pd_states d))
     \<and> (case pd_settings d of
          None \<Rightarrow> pd_states d = []
        | Some c \<Rightarrow> pacing_settings_ok (pc_settings c) \<and> (\<forall>r \<in> set (pd_states d). state_ok c r))"

lemma default_settings_ok: "pacing_settings_ok default_pacing_settings"
  by (simp add: pacing_settings_ok_def default_pacing_settings_def)

lemma configuration_cases:
  assumes "pacing_ok d" "pacing_configuration_of d = (d0, c)"
  shows "pacing_ok d0" "pd_settings d0 = Some c" "pacing_settings_ok (pc_settings c)"
    "pd_states d0 = pd_states d" "pd_leases d0 = pd_leases d" "pd_requests d0 = pd_requests d" "pd_events d0 = pd_events d"
  using assms default_settings_ok
  by (auto simp: pacing_configuration_of_def pacing_ok_def Let_def split: option.splits)

lemma state_of_Some: "state_of d h = Some r \<Longrightarrow> r \<in> set (pd_states d) \<and> st_hostname r = h"
  unfolding state_of_def by (rule lookup_Some)

lemma state_of_set:
  "state_of d h = Some r \<Longrightarrow> st_hostname q = h \<Longrightarrow> state_of (set_state h q d) h' = (if h' = h then Some q else state_of d h')"
proof -
  assume r: "state_of d h = Some r" and q: "st_hostname q = h"
  have "state_of (set_state h q d) h' = map_option (\<lambda>x. if st_hostname x = h then q else x) (state_of d h')"
    unfolding state_of_def set_state_def by (simp add: lookup_upd_where q)
  also have "\<dots> = (if h' = h then Some q else state_of d h')"
    using r state_of_Some [of d h'] by (cases "state_of d h'") auto
  finally show ?thesis .
qed

lemma set_state_tables [simp]:
  "pd_settings (set_state h q d) = pd_settings d" "pd_leases (set_state h q d) = pd_leases d"
  "pd_requests (set_state h q d) = pd_requests d" "pd_events (set_state h q d) = pd_events d"
  by (simp_all add: set_state_def)

lemma set_state_ok:
  assumes "pacing_ok d" "pd_settings d = Some c" "st_hostname q = h" "state_ok c q"
  shows "pacing_ok (set_state h q d)"
proof -
  have "map st_hostname (upd_where (\<lambda>x. st_hostname x = h) (\<lambda>_. q) (pd_states d)) = map st_hostname (pd_states d)"
    by (rule map_upd_where_key) (simp add: assms(3))
  with assms show ?thesis by (auto simp: pacing_ok_def set_state_def set_upd_where)
qed

lemma reset_state_ok:
  assumes "pacing_settings_ok (pc_settings c)"
  shows "state_ok c (reset_state c now r)" "st_hostname (reset_state c now r) = st_hostname r"
    "st_next_start_at (reset_state c now r) = st_next_start_at r"
    "po_cooldown_until (st_policy (reset_state c now r)) = po_cooldown_until (st_policy r)"
    "st_settings_version (reset_state c now r) = pc_version c"
  using assms by (auto simp: state_ok_def reset_state_def Let_def reset_policy_def bounded_by_def pacing_settings_ok_def)

lemma record_adjustment_tables:
  "record_adjustment sid r now d = Inr d' \<Longrightarrow> pd_states d' = pd_states d \<and> pd_leases d' = pd_leases d
     \<and> pd_settings d' = pd_settings d \<and> pd_requests d' = pd_requests d"
  by (auto simp: record_adjustment_def split: if_splits)

lemma pacing_ok_cong:
  "pd_states d' = pd_states d \<Longrightarrow> pd_settings d' = pd_settings d \<Longrightarrow> pacing_ok d' = pacing_ok d"
  by (simp add: pacing_ok_def split: option.split)

lemma state_of_cong: "pd_states d' = pd_states d \<Longrightarrow> state_of d' h = state_of d h"
  by (simp add: state_of_def)

text \<open>A refresh keeps the hostname, the next start and the cooldown, and leaves a policy learned under
  the current settings.\<close>

lemma refresh_cases:
  assumes ok: "pacing_ok d" "pd_settings d = Some c" and r: "state_of d h = Some r"
    and rf: "refresh c sid now r d = Inr (d1, r1)"
  shows "pacing_ok d1" "pd_settings d1 = Some c" "state_of d1 h' = (if h' = h then Some r1 else state_of d h')"
    "st_hostname r1 = h" "state_ok c r1" "st_settings_version r1 = pc_version c"
    "st_next_start_at r1 = st_next_start_at r"
    "po_cooldown_until (st_policy r1) = po_cooldown_until (st_policy r)"
    "pd_leases d1 = pd_leases d" "pd_requests d1 = pd_requests d"
proof -
  have sok: "pacing_settings_ok (pc_settings c)" using ok by (simp add: pacing_ok_def)
  note rh = state_of_Some [OF r]
  have rok: "state_ok c r" using ok rh by (simp add: pacing_ok_def)
  have "pacing_ok d1 \<and> pd_settings d1 = Some c \<and> (\<forall>h'. state_of d1 h' = (if h' = h then Some r1 else state_of d h'))
      \<and> st_hostname r1 = h \<and> state_ok c r1 \<and> st_settings_version r1 = pc_version c
      \<and> st_next_start_at r1 = st_next_start_at r \<and> po_cooldown_until (st_policy r1) = po_cooldown_until (st_policy r)
      \<and> pd_leases d1 = pd_leases d \<and> pd_requests d1 = pd_requests d"
  proof (cases "needs_reset c now r")
    case True
    define q where "q = reset_state c now r"
    note qs = reset_state_ok [OF sok, of now r, folded q_def]
    from rf True have rec: "record_adjustment sid q now (set_state h q d) = Inr d1" and r1: "r1 = q"
      using rh by (auto simp: refresh_def Let_def q_def split: sum.splits)
    note t = record_adjustment_tables [OF rec]
    have "pacing_ok (set_state h q d)" by (rule set_state_ok [OF ok]) (use qs rh in simp_all)
    then have "pacing_ok d1" using pacing_ok_cong [of d1 "set_state h q d"] t by simp
    moreover have "state_of d1 h' = (if h' = h then Some q else state_of d h')" for h'
      using state_of_cong [of d1 "set_state h q d"] t state_of_set [OF r, of q] qs(2) rh by simp
    ultimately show ?thesis using t qs ok(2) rh by (simp add: r1)
  next
    case False
    with rf have "d1 = d" "r1 = r" by (simp_all add: refresh_def)
    moreover have "st_settings_version r = pc_version c" using False by (simp add: needs_reset_def)
    ultimately show ?thesis using ok r rh rok by simp
  qed
  then show "pacing_ok d1" "pd_settings d1 = Some c" "state_of d1 h' = (if h' = h then Some r1 else state_of d h')"
    "st_hostname r1 = h" "state_ok c r1" "st_settings_version r1 = pc_version c"
    "st_next_start_at r1 = st_next_start_at r"
    "po_cooldown_until (st_policy r1) = po_cooldown_until (st_policy r)"
    "pd_leases d1 = pd_leases d" "pd_requests d1 = pd_requests d" by blast+
qed

section \<open>What acquire does\<close>

definition swept_leases :: "pacing_db \<Rightarrow> string \<Rightarrow> time \<Rightarrow> pacing_lease list" where
  "swept_leases d h now = filter (\<lambda>l. \<not> (pl_hostname l = h \<and> pl_expires_at l \<le> now)) (pd_leases d)"

lemma new_state_ok: "pacing_settings_ok (pc_settings c) \<Longrightarrow> state_ok c (new_state_row c h now)"
  by (auto simp: state_ok_def new_state_row_def bounded_by_def pacing_settings_ok_def)

lemma insert_state_ok:
  assumes "pacing_ok d" "pd_settings d = Some c" "state_of d h = None"
  shows "pacing_ok (d\<lparr>pd_states := pd_states d @ [new_state_row c h now]\<rparr>)"
    "state_of (d\<lparr>pd_states := pd_states d @ [new_state_row c h now]\<rparr>) h' =
       (if h' = h then Some (new_state_row c h now) else state_of d h')"
proof -
  have n: "st_hostname (new_state_row c h now) = h" by (simp add: new_state_row_def)
  have fresh: "h \<notin> st_hostname ` set (pd_states d)" using assms(3) by (auto simp: state_of_def lookup_None)
  show "pacing_ok (d\<lparr>pd_states := pd_states d @ [new_state_row c h now]\<rparr>)"
    using assms(1,2) fresh new_state_ok [of c h now] by (auto simp: pacing_ok_def n)
  show "state_of (d\<lparr>pd_states := pd_states d @ [new_state_row c h now]\<rparr>) h' =
       (if h' = h then Some (new_state_row c h now) else state_of d h')"
    using assms(3) by (auto simp: state_of_def lookup_append n split: option.split)
qed

lemma refusal_reasons:
  "refusal_of r leases now = Some x \<Longrightarrow> dt_reason x \<in> {''domain_cooldown'', ''domain_spacing'', ''domain_concurrency''}"
  by (auto simp: refusal_of_def split: if_splits)

lemma refusal_None:
  "refusal_of r leases now = None \<longleftrightarrow> \<not> later (po_cooldown_until (st_policy r)) now \<and> st_next_start_at r \<le> now
     \<and> int (length leases) < po_concurrency (st_policy r)"
  by (auto simp: refusal_of_def)

text \<open>The row \<open>acquire\<close> decides on: the stored one, possibly reset, or a new one.\<close>

definition decides_on :: "pacing_db \<Rightarrow> string \<Rightarrow> time \<Rightarrow> pacing_state \<Rightarrow> bool" where
  "decides_on d h now0 r \<longleftrightarrow> st_hostname r = h
     \<and> (case state_of d h of
          Some q \<Rightarrow> st_next_start_at r = st_next_start_at q
            \<and> po_cooldown_until (st_policy r) = po_cooldown_until (st_policy q)
        | None \<Rightarrow> st_next_start_at r = now0 \<and> po_cooldown_until (st_policy r) = None)"

lemma acquire_cases:
  assumes ok: "pacing_ok d" and acq: "pacing_acquire h sid seconds lid now0 now d = Inr (d', res)"
  obtains c r r' where "pacing_ok d'" "pd_settings d' = Some c" "decides_on d h now0 r" "state_ok c r"
    "st_settings_version r = pc_version c"
    "state_of d' h = Some r'" "\<And>h'. h' \<noteq> h \<Longrightarrow> state_of d' h' = state_of d h'"
    "refusal_of r (live_leases (d\<lparr>pd_leases := swept_leases d h now\<rparr>) h now) now = (case res of Inl x \<Rightarrow> Some x | Inr _ \<Rightarrow> None)"
    "\<And>l. res = Inr l \<Longrightarrow> r' = started_state now r \<and> l = \<lparr>lh_id = lid, lh_hostname = h\<rparr>
       \<and> pd_leases d' = swept_leases d h now @
           [new_lease r (live_leases (d\<lparr>pd_leases := swept_leases d h now\<rparr>) h now) sid lid seconds now]"
    "\<And>x. res = Inl x \<Longrightarrow> st_policy r' = st_policy r \<and> st_next_start_at r' = st_next_start_at r"
proof -
  obtain d0 c where dc: "pacing_configuration_of d = (d0, c)" by fastforce
  note c0 = configuration_cases [OF ok dc]
  define d1 where "d1 = (case state_of d0 h of Some _ \<Rightarrow> d0 | None \<Rightarrow> d0\<lparr>pd_states := pd_states d0 @ [new_state_row c h now0]\<rparr>)"
  have s0: "state_of d0 x = state_of d x" for x using c0(4) by (simp add: state_of_def)
  have d1: "pacing_ok d1 \<and> pd_settings d1 = Some c \<and> pd_leases d1 = pd_leases d \<and> pd_requests d1 = pd_requests d
      \<and> state_of d1 h = Some (case state_of d h of Some q \<Rightarrow> q | None \<Rightarrow> new_state_row c h now0)
      \<and> (\<forall>h'. h' \<noteq> h \<longrightarrow> state_of d1 h' = state_of d h')"
  proof (cases "state_of d h")
    case None
    with insert_state_ok [OF c0(1,2), of h now0] c0 s0 show ?thesis by (simp add: d1_def)
  next
    case (Some q)
    with c0 s0 show ?thesis by (simp add: d1_def)
  qed
  then obtain q where q: "state_of d1 h = Some q" "q = (case state_of d h of Some q \<Rightarrow> q | None \<Rightarrow> new_state_row c h now0)"
    by blast
  from acq dc q(1) obtain d2 r where rf: "refresh c sid now q d1 = Inr (d2, r)"
    and adm: "admit_capture r h sid seconds lid now d2 = Inr (d', res)"
    by (auto simp: pacing_acquire_def Let_def d1_def [symmetric] split: sum.splits)
  have pre: "pacing_ok d1" "pd_settings d1 = Some c" using d1 by blast+
  note R = refresh_cases [OF pre q(1) rf]
  have dec: "decides_on d h now0 r"
    using R(4,7,8) q(2) by (cases "state_of d h") (simp_all add: decides_on_def new_state_row_def)
  define d3 where "d3 = d2\<lparr>pd_leases := filter (\<lambda>l. \<not> (pl_hostname l = h \<and> pl_expires_at l \<le> now)) (pd_leases d2)\<rparr>"
  have l3: "pd_leases d3 = swept_leases d h now" using R(9) d1 by (simp add: d3_def swept_leases_def)
  let ?leases = "live_leases (d\<lparr>pd_leases := swept_leases d h now\<rparr>) h now"
  have leases: "live_leases d3 h now = ?leases" by (simp add: live_leases_def l3)
  have s3: "state_of d3 x = state_of d2 x" for x by (simp add: d3_def state_of_def)
  have ok3: "pacing_ok d3" using R(1) pacing_ok_cong [of d3 d2] by (simp add: d3_def)
  have set3: "pd_settings d3 = Some c" using R(2) by (simp add: d3_def)
  have st3: "state_of d3 h = Some r" "\<And>h'. h' \<noteq> h \<Longrightarrow> state_of d3 h' = state_of d h'" using R(3) s3 d1 by auto
  define d4 where "d4 = (case refusal_of r ?leases now of
      None \<Rightarrow> set_state h (started_state now r) (d3\<lparr>pd_leases := pd_leases d3 @ [new_lease r ?leases sid lid seconds now]\<rparr>)
    | Some x \<Rightarrow> if dt_reason x = ''domain_spacing'' then set_state h (r\<lparr>st_spacing_refused_at := Some now\<rparr>) d3
        else if dt_reason x = ''domain_concurrency'' then mark_limit h d3 else d3)"
  have fin: "d' = d4\<lparr>pd_requests := pd_requests d4 @ [request_row lid r (length ?leases) seconds now (refusal_of r ?leases now)]\<rparr>"
    and res: "res = (case refusal_of r ?leases now of Some x \<Rightarrow> Inl x | None \<Rightarrow> Inr \<lparr>lh_id = lid, lh_hostname = h\<rparr>)"
    using adm unfolding admit_capture_def Let_def d3_def [symmetric] leases d4_def [symmetric]
    by (simp_all split: if_splits)
  have sd': "state_of d' x = state_of d4 x" for x by (simp add: fin state_of_def)
  have okd': "pacing_ok d' = pacing_ok d4" by (rule pacing_ok_cong) (simp_all add: fin)
  show ?thesis
  proof (cases "refusal_of r ?leases now")
    case None
    let ?q = "started_state now r"
    have q': "st_hostname ?q = h" "state_ok c ?q" using R(4,5) by (simp_all add: started_state_def state_ok_def)
    let ?e = "d3\<lparr>pd_leases := pd_leases d3 @ [new_lease r ?leases sid lid seconds now]\<rparr>"
    have e: "pacing_ok ?e" "pd_settings ?e = Some c" "state_of ?e h = Some r" "\<And>x. state_of ?e x = state_of d3 x"
      using ok3 set3 st3 pacing_ok_cong [of ?e d3] by (simp_all add: state_of_def)
    have d4: "d4 = set_state h ?q ?e" by (simp add: d4_def None)
    have "pacing_ok d4" unfolding d4 by (rule set_state_ok [OF e(1,2) q'])
    show ?thesis
    proof (rule that [of c r ?q])
      show "state_of d' h = Some ?q" unfolding sd' d4 using state_of_set [OF e(3) q'(1)] by simp
      show "state_of d' h' = state_of d h'" if "h' \<noteq> h" for h'
        unfolding sd' d4 using state_of_set [OF e(3) q'(1)] that e(4) st3(2) by simp
    qed (use \<open>pacing_ok d4\<close> okd' dec R(5,6) None res l3 in \<open>auto simp: fin d4 set3\<close>)
  next
    case (Some x)
    define r' where "r' = (if dt_reason x = ''domain_spacing'' then r\<lparr>st_spacing_refused_at := Some now\<rparr> else r)"
    have r': "st_hostname r' = h" "state_ok c r'" "st_policy r' = st_policy r" "st_next_start_at r' = st_next_start_at r"
      using R(4,5) by (simp_all add: r'_def state_ok_def)
    have "pacing_ok (set_state h r' d3)" by (rule set_state_ok [OF ok3 set3 r'(1,2)])
    moreover have ml: "pd_states (mark_limit h d3) = pd_states d3" "pd_settings (mark_limit h d3) = pd_settings d3"
      by (simp_all add: mark_limit_def)
    ultimately have okd4: "pacing_ok d4"
      using ok3 pacing_ok_cong [OF ml] by (auto simp: d4_def Some r'_def)
    have st4: "state_of d4 h = Some r'" "\<And>h'. h' \<noteq> h \<Longrightarrow> state_of d4 h' = state_of d h'"
      using state_of_set [OF st3(1) r'(1)] st3 state_of_cong [OF ml(1)] by (auto simp: d4_def Some r'_def)
    show ?thesis
    proof (rule that [of c r r'])
      show "pd_settings d' = Some c" by (simp add: fin d4_def Some set3 ml)
    qed (use okd4 okd' dec R(5,6) Some res st4 sd' r' in auto)
  qed
qed

end
