(* ===== verification/Pacing_System.thy ===== *)
theory Pacing_System
  imports Pacing_Repository
begin

text \<open>
  Domain pacing as a transition system under the database clock, which never runs backwards: the
  transactions of the repository and the retention job, in any order. The lemmas lift the
  invariant of the pacing tables and the promise that a hostname is left alone until its next
  permitted start and the end of its cooldown, also across a purge of its row.
\<close>

section \<open>Release\<close>

definition not_before :: "pacing_state \<Rightarrow> time" where
  "not_before r = (case po_cooldown_until (st_policy r) of None \<Rightarrow> st_next_start_at r | Some u \<Rightarrow> max u (st_next_start_at r))"

lemma not_before_mono:
  "st_next_start_at r \<le> st_next_start_at q \<Longrightarrow>
   cooldown_le (po_cooldown_until (st_policy r)) (po_cooldown_until (st_policy q)) \<Longrightarrow> not_before r \<le> not_before q"
  by (auto simp: not_before_def cooldown_le_def split: option.splits)

lemma not_before_cong:
  "st_next_start_at r = st_next_start_at q \<Longrightarrow> po_cooldown_until (st_policy r) = po_cooldown_until (st_policy q) \<Longrightarrow>
   not_before r = not_before q"
  by (simp add: not_before_def split: option.split)

lemma adjusted_ok:
  fixes ob :: observation and now :: time and al cal :: bool and g :: int
  assumes ok: "pacing_settings_ok (pc_settings c)" and r: "state_ok c r" "st_settings_version r = pc_version c"
  defines "after \<equiv> update_policy (pc_settings c) (st_policy r) ob now al cal g"
  shows "state_ok c (adjusted_state after r)" "st_hostname (adjusted_state after r) = st_hostname r"
    "st_next_start_at r \<le> st_next_start_at (adjusted_state after r)"
    "cooldown_le (po_cooldown_until (st_policy r)) (po_cooldown_until (st_policy (adjusted_state after r)))"
    "st_policy (adjusted_state after r) = after"
    "st_settings_version (adjusted_state after r) = pc_version c"
proof -
  have b: "bounded_by (pc_settings c) (st_policy r)" using r by (simp add: state_ok_def)
  have al: "bounded_by (pc_settings c) after"
    using healthy_relaxes [OF ok b] failure_tightens [OF ok b] b by (simp add: after_def update_policy_def)
  show "st_hostname (adjusted_state after r) = st_hostname r" "st_policy (adjusted_state after r) = after"
    "st_settings_version (adjusted_state after r) = pc_version c"
    "st_next_start_at r \<le> st_next_start_at (adjusted_state after r)"
    using r(2) by (simp_all add: adjusted_state_def split: option.split)
  then show "state_ok c (adjusted_state after r)"
    using al ok by (auto simp: state_ok_def bounded_by_def pacing_settings_ok_def)
  show "cooldown_le (po_cooldown_until (st_policy r)) (po_cooldown_until (st_policy (adjusted_state after r)))"
    using healthy_relaxes [OF ok b, of now al cal g] failure_tightens [OF ok b, of ob now g]
    by (simp add: adjusted_state_def after_def update_policy_def)
qed

lemma observe_release_cases:
  assumes ok: "pacing_ok d" "pd_settings d = Some c" and r: "state_of d h = Some r"
    and rel: "observe_release c held ob now r d = Inr d'"
  obtains r1 where "pacing_ok d'" "pd_settings d' = Some c" "pd_leases d' = pd_leases d"
    "state_ok c r1" "st_settings_version r1 = pc_version c"
    "st_next_start_at r1 = st_next_start_at r" "po_cooldown_until (st_policy r1) = po_cooldown_until (st_policy r)"
    "state_of d' h = Some (adjusted_state (update_policy (pc_settings c) (st_policy r1) ob now (pl_at_limit held)
                        (pl_concurrency_at_limit held) (pl_generation held)) r1)"
    "\<And>h'. h' \<noteq> h \<Longrightarrow> state_of d' h' = state_of d h'"
proof -
  from rel obtain d1 r1 where rf: "refresh c (pl_session_id held) now r d = Inr (d1, r1)"
    by (auto simp: observe_release_def split: sum.splits)
  note R = refresh_cases [OF ok r rf]
  have sok: "pacing_settings_ok (pc_settings c)" using ok by (simp add: pacing_ok_def)
  define after where "after = update_policy (pc_settings c) (st_policy r1) ob now (pl_at_limit held)
                        (pl_concurrency_at_limit held) (pl_generation held)"
  note A = adjusted_ok [OF sok R(5,6), of ob now "pl_at_limit held" "pl_concurrency_at_limit held" "pl_generation held", folded after_def]
  define q where "q = adjusted_state after r1"
  have h: "st_hostname r = h" using state_of_Some [OF r] by simp
  have q: "st_hostname q = h" "state_ok c q" using A(1,2) R(4) by (simp_all add: q_def)
  have ok2: "pacing_ok (set_state h q d1)" by (rule set_state_ok [OF R(1,2) q])
  have d': "d' = set_state h q d1 \<or> record_adjustment (pl_session_id held) q now (set_state h q d1) = Inr d'"
    using rel rf by (auto simp: observe_release_def Let_def after_def [symmetric] q_def [symmetric] h split: if_splits)
  have t: "pd_states d' = pd_states (set_state h q d1) \<and> pd_leases d' = pd_leases d \<and> pd_settings d' = Some c"
    using d' R(2,9) by (auto dest: record_adjustment_tables)
  have "state_of d1 h = Some r1" using R(3) by simp
  note st = state_of_set [OF this q(1)]
  show ?thesis
  proof (rule that [of r1])
    show "pacing_ok d'" using pacing_ok_cong [of d' "set_state h q d1"] t ok2 R(2) by simp
    show "state_of d' h = Some (adjusted_state (update_policy (pc_settings c) (st_policy r1) ob now (pl_at_limit held)
                        (pl_concurrency_at_limit held) (pl_generation held)) r1)"
      using state_of_cong [of d' "set_state h q d1"] t st by (simp add: q_def after_def)
    show "state_of d' h' = state_of d h'" if "h' \<noteq> h" for h'
      using state_of_cong [of d' "set_state h q d1"] t st R(3) that by simp
  qed (use t R in auto)
qed

text \<open>A release leaves the invariant, and no hostname's next permitted start moves back.\<close>

definition defers :: "pacing_db \<Rightarrow> pacing_db \<Rightarrow> bool" where
  "defers d d' \<longleftrightarrow> (\<forall>h r. state_of d h = Some r \<longrightarrow> (\<exists>q. state_of d' h = Some q \<and> not_before r \<le> not_before q))"

lemma defers_refl [simp]: "defers d d"
  by (simp add: defers_def)

lemma defers_states: "pd_states d' = pd_states d \<Longrightarrow> defers d d'"
  by (auto simp: defers_def state_of_def)

lemma release_defers:
  assumes ok: "pacing_ok d" and rel: "pacing_release lease ob now d = Inr d'"
  shows "pacing_ok d' \<and> defers d d'"
proof (cases "state_of d (lh_hostname lease)")
  case None
  with rel ok show ?thesis by (simp add: pacing_release_def)
next
  case (Some r)
  show ?thesis
  proof (cases "lookup pl_id (lh_id lease) (pd_leases d)")
    case None
    with rel Some ok show ?thesis by (simp add: pacing_release_def)
  next
    case held: (Some held)
    obtain d0 c where dc: "pacing_configuration_of d = (d0, c)" by fastforce
    note c0 = configuration_cases [OF ok dc]
    have s0: "state_of d0 h = state_of d h" for h using c0(4) by (simp add: state_of_def)
    from rel Some held dc obtain d1 where
      d1: "(case ob of Some o' \<Rightarrow> if now < pl_expires_at held then observe_release c held o' now r d0 else Inr d0
            | None \<Rightarrow> Inr d0) = Inr d1"
      and d': "pd_states d' = pd_states d1" "pd_settings d' = pd_settings d1"
      by (auto simp: pacing_release_def split: sum.splits)
    have "pacing_ok d1 \<and> defers d d1"
    proof (cases "\<exists>o'. ob = Some o' \<and> now < pl_expires_at held")
      case False
      then have "d1 = d0" using d1 by (auto split: option.splits if_splits)
      then show ?thesis using c0 by (auto intro: defers_states)
    next
      case True
      then obtain o' where o: "observe_release c held o' now r d0 = Inr d1" using d1 by auto
      have sr: "state_of d0 (lh_hostname lease) = Some r" using Some s0 by simp
      show ?thesis
      proof (rule observe_release_cases [OF c0(1,2) sr o])
        fix r1 assume R: "pacing_ok d1" "state_ok c r1" "st_settings_version r1 = pc_version c"
          "st_next_start_at r1 = st_next_start_at r" "po_cooldown_until (st_policy r1) = po_cooldown_until (st_policy r)"
          "state_of d1 (lh_hostname lease) = Some (adjusted_state (update_policy (pc_settings c) (st_policy r1) o' now
             (pl_at_limit held) (pl_concurrency_at_limit held) (pl_generation held)) r1)"
          "\<And>h'. h' \<noteq> lh_hostname lease \<Longrightarrow> state_of d1 h' = state_of d0 h'"
        note A = adjusted_ok [OF c0(3) R(2,3)]
        have "not_before r \<le> not_before r1" by (rule not_before_mono) (simp_all add: R)
        moreover have "not_before r1 \<le> not_before (adjusted_state (update_policy (pc_settings c) (st_policy r1) o' now
             (pl_at_limit held) (pl_concurrency_at_limit held) (pl_generation held)) r1)"
          by (rule not_before_mono) (rule A(3), rule A(4))
        ultimately have "defers d d1"
          unfolding defers_def using R(6,7) s0 Some by (metis option.inject order_trans order_refl)
        with R(1) show ?thesis by blast
      qed
    qed
    then show ?thesis
      using pacing_ok_cong [OF d'] state_of_cong [OF d'(1)] by (simp add: defers_def)
  qed
qed

section \<open>The system\<close>

datatype pacing_op =
    P_Acquire string string rat string time
  | P_Release lease_handle "observation option"
  | P_Update_Settings pacing_changes
  | P_Request_Reset string
  | P_List "string option" nat
  | P_Purge_States nat
  | P_Purge_Requests nat

fun pacing_apply :: "pacing_op \<Rightarrow> time \<Rightarrow> pacing_db \<Rightarrow> pacing_db" where
  "pacing_apply (P_Acquire h sid secs lid now0) now d =
     (case pacing_acquire h sid secs lid now0 now d of Inl _ \<Rightarrow> d | Inr (d', _) \<Rightarrow> d')"
| "pacing_apply (P_Release lease ob) now d = (case pacing_release lease ob now d of Inl _ \<Rightarrow> d | Inr d' \<Rightarrow> d')"
| "pacing_apply (P_Update_Settings ch) now d = (case update_pacing_settings ch d of Inl _ \<Rightarrow> d | Inr (d', _) \<Rightarrow> d')"
| "pacing_apply (P_Request_Reset h) now d = fst (request_reset h d)"
| "pacing_apply (P_List h n) now d = fst (list_states h n now d)"
| "pacing_apply (P_Purge_States n) now d = purge_states n now d"
| "pacing_apply (P_Purge_Requests n) now d = purge_requests n now d"

text \<open>The clock read before the row lock lies between the previous transaction and the read after it.\<close>

fun timely :: "time \<Rightarrow> pacing_op \<Rightarrow> time \<Rightarrow> bool" where
  "timely clock (P_Acquire h sid secs lid now0) now \<longleftrightarrow> clock \<le> now \<and> now0 \<le> now"
| "timely clock _ now \<longleftrightarrow> clock \<le> now"

inductive pacing_step :: "time \<times> pacing_db \<Rightarrow> pacing_op \<times> time \<Rightarrow> time \<times> pacing_db \<Rightarrow> bool" where
  pacing_transaction: "timely clock op now \<Longrightarrow> pacing_step (clock, d) (op, now) (now, pacing_apply op now d)"

inductive_simps pacing_step_simps: "pacing_step (clock, d) (op, now) s"
inductive_cases pacing_stepE: "pacing_step s l s'"

definition pacing_empty :: pacing_db where
  "pacing_empty = \<lparr>pd_settings = None, pd_states = [], pd_leases = [], pd_requests = [], pd_events = []\<rparr>"

definition pacing_init :: "time \<times> pacing_db \<Rightarrow> bool" where
  "pacing_init s \<longleftrightarrow> snd s = pacing_empty"

lemma update_settings_ok:
  assumes ok: "pacing_ok d" and u: "update_pacing_settings ch d = Inr (d', c')"
  shows "pacing_ok d' \<and> pd_states d' = pd_states d"
proof -
  obtain d0 c where dc: "pacing_configuration_of d = (d0, c)" by fastforce
  note c0 = configuration_cases [OF ok dc]
  from u dc have s: "pacing_settings_ok (pc_settings c')" "pc_version c' = pc_version c + 1"
    and d': "d' = d0\<lparr>pd_settings := Some c'\<rparr>"
    by (auto simp: update_pacing_settings_def Let_def split: if_splits)
  from c0(1,2) s show ?thesis by (auto simp: d' pacing_ok_def state_ok_def c0(4) split: option.splits)
qed

lemma reset_ok: "pacing_ok d \<Longrightarrow> pacing_ok (fst (request_reset h d)) \<and> defers d (fst (request_reset h d))"
proof (cases "state_of d h")
  case None
  then show "pacing_ok d \<Longrightarrow> ?thesis" by (simp add: request_reset_def)
next
  case (Some r)
  assume ok: "pacing_ok d"
  let ?q = "r\<lparr>st_reset_requested := True\<rparr>"
  note rh = state_of_Some [OF Some]
  from ok rh obtain c where c: "pd_settings d = Some c" by (cases "pd_settings d") (auto simp: pacing_ok_def)
  have q: "st_hostname ?q = h" "state_ok c ?q" using ok c rh by (auto simp: pacing_ok_def state_ok_def)
  have "not_before ?q = not_before r" by (rule not_before_cong) simp_all
  then have "defers d (set_state h ?q d)" using state_of_set [OF Some q(1)] Some by (auto simp: defers_def)
  then show ?thesis using set_state_ok [OF ok c q] Some by (simp add: request_reset_def)
qed

lemma filter_states_ok: "pacing_ok d \<Longrightarrow> pd_settings d' = pd_settings d \<Longrightarrow> pd_states d' = filter P (pd_states d) \<Longrightarrow> pacing_ok d'"
  by (auto simp: pacing_ok_def distinct_map_filter split: option.splits)

lemma pacing_ok_step:
  assumes ok: "pacing_ok d" shows "pacing_ok (pacing_apply op now d)"
proof (cases op)
  case (P_Acquire h sid secs lid now0)
  then show ?thesis using ok acquire_cases [OF ok, of h sid secs lid now0 now]
    by (auto split: sum.split prod.split)
next
  case (P_Release lease ob)
  then show ?thesis using ok release_defers [OF ok] by (auto split: sum.split)
next
  case (P_Update_Settings ch)
  then show ?thesis using ok update_settings_ok [OF ok] by (auto split: sum.split prod.split)
next
  case (P_Request_Reset h)
  then show ?thesis using reset_ok [OF ok] by simp
next
  case (P_List h n)
  then show ?thesis using configuration_cases(1) [OF ok] by (auto simp: list_states_def Let_def split: prod.split)
next
  case (P_Purge_States n)
  then show ?thesis
    using filter_states_ok [OF ok, of "purge_states n now d"] by (auto simp: purge_states_def Let_def)
next
  case (P_Purge_Requests n)
  then show ?thesis using ok pacing_ok_cong [of "purge_requests n now d" d] by (simp add: purge_requests_def Let_def)
qed

interpretation pacing: invariant_system pacing_init pacing_step "\<lambda>s. pacing_ok (snd s)"
proof unfold_locales
  show "pacing_init s \<Longrightarrow> pacing_ok (snd s)" for s by (simp add: pacing_init_def pacing_empty_def pacing_ok_def)
  show "pacing_ok (snd s) \<Longrightarrow> pacing_step s l t \<Longrightarrow> pacing_ok (snd t)" for s l t
    by (auto elim!: pacing_stepE intro: pacing_ok_step)
qed

section \<open>Left alone until then\<close>

definition held_off :: "string \<Rightarrow> time \<Rightarrow> time \<times> pacing_db \<Rightarrow> bool" where
  "held_off h t s \<longleftrightarrow> t \<le> fst s \<or> (\<exists>r. state_of (snd s) h = Some r \<and> t \<le> not_before r)"

lemma started_not_before: "\<not> later (po_cooldown_until (st_policy r)) now \<Longrightarrow> st_next_start_at r \<le> now \<Longrightarrow> not_before r \<le> now"
  by (auto simp: not_before_def later_def split: option.splits)

lemma decides_not_before: "decides_on d h now0 r \<Longrightarrow> state_of d h = Some q \<Longrightarrow> not_before r = not_before q"
  by (auto simp: decides_on_def intro: not_before_cong)

lemma held_acquire:
  assumes ok: "pacing_ok d" and held: "held_off h t (clock, d)" and time: "clock \<le> now"
    and acq: "pacing_acquire h' sid secs lid now0 now d = Inr (d', res)"
  shows "held_off h t (now, d')" "h' = h \<Longrightarrow> (\<exists>l. res = Inr l) \<Longrightarrow> t \<le> now"
proof -
  have main: "held_off h t (now, d') \<and> (h' = h \<longrightarrow> (\<exists>l. res = Inr l) \<longrightarrow> t \<le> now)"
  proof (cases "t \<le> now")
    case True
    then show ?thesis by (simp add: held_off_def)
  next
    case False
    with held time obtain q where q: "state_of d h = Some q" "t \<le> not_before q" by (auto simp: held_off_def)
    show ?thesis
    proof (rule acquire_cases [OF ok acq])
      fix c r r'
      assume A: "decides_on d h' now0 r" "state_of d' h' = Some r'" "\<And>x. x \<noteq> h' \<Longrightarrow> state_of d' x = state_of d x"
        "refusal_of r (live_leases (d\<lparr>pd_leases := swept_leases d h' now\<rparr>) h' now) now = (case res of Inl x \<Rightarrow> Some x | Inr _ \<Rightarrow> None)"
        "\<And>x. res = Inl x \<Longrightarrow> st_policy r' = st_policy r \<and> st_next_start_at r' = st_next_start_at r"
      show ?thesis
      proof (cases "h' = h")
        case h: True
        have nb: "not_before r = not_before q" using A(1) q h by (simp add: decides_not_before)
        show ?thesis
        proof (cases res)
          case (Inl x)
          with A(5) have "not_before r' = not_before r" by (auto intro: not_before_cong)
          with q nb A(2) h Inl show ?thesis by (auto simp: held_off_def)
        next
          case (Inr l)
          with A(4) have "not_before r \<le> now" by (auto simp: refusal_None intro: started_not_before)
          with nb q False show ?thesis by simp
        qed
      next
        case h: False
        with A(3) [of h] q show ?thesis by (auto simp: held_off_def)
      qed
    qed
  qed
  then show "held_off h t (now, d')" "h' = h \<Longrightarrow> (\<exists>l. res = Inr l) \<Longrightarrow> t \<le> now" by blast+
qed

lemma held_defers: "defers d d' \<Longrightarrow> held_off h t (clock, d) \<Longrightarrow> clock \<le> now \<Longrightarrow> held_off h t (now, d')"
  by (fastforce simp: held_off_def defers_def)

lemma held_purge:
  assumes ok: "pacing_ok d" and held: "held_off h t (clock, d)" and time: "clock \<le> now"
  shows "held_off h t (now, purge_states n now d)"
proof (cases "t \<le> now")
  case True
  then show ?thesis by (simp add: held_off_def)
next
  case False
  with held time obtain q where q: "state_of d h = Some q" "t \<le> not_before q" by (auto simp: held_off_def)
  have np: "\<not> purgeable d now q"
    using started_not_before [of q now] q(2) False by (auto simp: purgeable_def)
  let ?gone = "set (map st_hostname (take n (filter (purgeable d now) (pd_states d))))"
  have keep: "lookup st_hostname h (filter (\<lambda>r. st_hostname r \<notin> ?gone) rows) = lookup st_hostname h rows"
    if "h \<notin> ?gone" for rows using that by (induction rows) auto
  show ?thesis
  proof (cases "h \<in> ?gone")
    case False
    then show ?thesis
      using q keep [OF False, of "pd_states d"] by (simp add: held_off_def purge_states_def state_of_def Let_def)
  next
    case True
    then obtain x where x: "x \<in> set (pd_states d)" "purgeable d now x" "st_hostname x = h"
      by (auto dest!: in_set_takeD)
    moreover have "distinct (map st_hostname (pd_states d))" using ok by (simp add: pacing_ok_def)
    ultimately have "x = q" using state_of_Some [OF q(1)] by (auto simp: distinct_map dest: inj_onD)
    with x np show ?thesis by simp
  qed
qed

lemma timely_clock: "timely clock op now \<Longrightarrow> clock \<le> now"
  by (cases op) auto

lemma held_step:
  assumes ok: "pacing_ok d" and held: "held_off h t (clock, d)" and time: "timely clock op now"
  shows "held_off h t (now, pacing_apply op now d)"
proof -
  note le = timely_clock [OF time]
  have same: "held_off h t (now, d)" by (rule held_defers [OF defers_refl held le])
  show ?thesis
  proof (cases op)
    case (P_Acquire h' sid secs lid now0)
    then show ?thesis using held_acquire(1) [OF ok held le] same by (auto split: sum.split prod.split)
  next
    case (P_Release lease ob)
    then show ?thesis using release_defers [OF ok] held_defers [OF _ held le] same by (auto split: sum.split)
  next
    case (P_Update_Settings ch)
    then show ?thesis
      using update_settings_ok [OF ok] held_defers [OF defers_states held le] same by (auto split: sum.split prod.split)
  next
    case (P_Request_Reset h')
    then show ?thesis using reset_ok [OF ok] held_defers [OF _ held le] by simp
  next
    case (P_List h' n)
    have "pd_states (fst (list_states h' n now d)) = pd_states d"
      using configuration_cases(4) [OF ok] by (auto simp: list_states_def Let_def split: prod.split)
    then show ?thesis using P_List held_defers [OF defers_states held le] by simp
  next
    case (P_Purge_States n)
    then show ?thesis using held_purge [OF ok held le] by simp
  next
    case (P_Purge_Requests n)
    have "pd_states (purge_requests n now d) = pd_states d" by (simp add: purge_requests_def Let_def)
    then show ?thesis using P_Purge_Requests held_defers [OF defers_states held le] by simp
  qed
qed

interpretation alone: invariant_system "\<lambda>s. pacing_ok (snd s) \<and> held_off h t s" pacing_step
  "\<lambda>s. pacing_ok (snd s) \<and> held_off h t s" for h t
proof unfold_locales
  show "pacing_ok (snd s) \<and> held_off h t s \<Longrightarrow> pacing_step s l s' \<Longrightarrow> pacing_ok (snd s') \<and> held_off h t s'" for s l s'
    by (auto elim!: pacing_stepE intro: pacing_ok_step held_step)
qed

text \<open>A hostname that is held off until \<open>t\<close> is granted no capture before \<open>t\<close>, whatever runs in between.\<close>

lemma granted_later:
  assumes ok: "pacing_ok d" and held: "held_off h t (clock, d)" and run: "steps pacing_step (clock, d) trace (clock', d')"
    and time: "timely clock' (P_Acquire h sid secs lid now0) now"
    and acq: "pacing_acquire h sid secs lid now0 now d' = Inr (d'', Inr l)"
  shows "t \<le> now"
proof -
  have "pacing_ok d' \<and> held_off h t (clock', d')" using alone.steps_inv [OF run] ok held by simp
  then show ?thesis using held_acquire(2) [OF _ _ timely_clock [OF time] acq] by blast
qed

section \<open>Properties\<close>

lemma throttled_cooldown:
  "obs_outcome ob = Throttled \<Longrightarrow> obs_retry_after ob = Some (Finite wait) \<Longrightarrow> 0 \<le> wait \<Longrightarrow>
   cooldown_le (Some (now + timedelta (min wait 31536000))) (po_cooldown_until (update_policy s p ob now al cal g))"
  by (auto simp: update_policy_def failure_update_def failure_cooldown_def retry_seconds_def cooldown_le_def Let_def
      split: option.splits)






text \<open>A run of the demonstration: two captures of one hostname, the second refused at once by the spacing
  and granted a second later.\<close>

definition demo_host :: string where "demo_host = ''example.com''"

definition demo_paced :: pacing_db where
  "demo_paced = pacing_apply (P_Acquire demo_host ''s1'' 60 ''l1'' 0) 0 pacing_empty"

definition demo_released :: pacing_db where
  "demo_released = pacing_apply (P_Release \<lparr>lh_id = ''l1'', lh_hostname = demo_host\<rparr>
     (Some \<lparr>obs_outcome = Throttled, obs_retry_after = Some (Finite 20)\<rparr>)) 500000 demo_paced"

definition granted :: "(pacing_db \<times> (domain_throttled + lease_handle)) result \<Rightarrow> bool" where
  "granted r = (case r of Inl _ \<Rightarrow> False | Inr (_, res) \<Rightarrow> (case res of Inl _ \<Rightarrow> False | Inr _ \<Rightarrow> True))"

lemma grantedE: "granted r \<Longrightarrow> \<exists>d l. r = Inr (d, Inr l)"
  using obj_sumE [of "snd (projr r)"] by (auto simp: granted_def split: sum.splits prod.splits)

lemma demo_reach: "reach pacing_init pacing_step (0, pacing_empty)"
  by (rule reach_init) (simp add: pacing_init_def)


text \<open>C19: two captures of one hostname never start closer together than the spacing in force at the first,
  and never within ten milliseconds, whatever other captures, observations, settings changes, resets
  and purges of the host's row run in between.\<close>

theorem starts_are_spaced:
  assumes first: "reach pacing_init pacing_step (clock, d)"
      "pacing_acquire h sid secs lid now0 now d = Inr (d', Inr l)"
    and run: "steps pacing_step (now, d') trace (clock', e)"
    and second: "timely clock' (P_Acquire h sid' secs' lid' now0') now'"
      "pacing_acquire h sid' secs' lid' now0' now' e = Inr (e', Inr l')"
  shows "\<exists>r. state_of d' h = Some r \<and> now + timedelta (po_spacing (st_policy r)) \<le> now' \<and> now + 10000 \<le> now'"
proof -
  have ok: "pacing_ok d" using pacing.reach_inv [OF first(1)] by simp
  show ?thesis
  proof (rule acquire_cases [OF ok first(2)], goal_cases)
    case (1 c r r')
    have r': "r' = started_state now r" using 1(9) by blast
    have sp: "1/100 \<le> po_spacing (st_policy r)" using 1(4) by (simp add: state_ok_def)
    have "now + timedelta (po_spacing (st_policy r)) \<le> not_before r'"
      by (auto simp: r' not_before_def started_state_def split: option.split)
    then have "held_off h (now + timedelta (po_spacing (st_policy r))) (now, d')" using 1(6) by (auto simp: held_off_def)
    then have "now + timedelta (po_spacing (st_policy r)) \<le> now'" using granted_later [OF 1(1) _ run second] by blast
    moreover have "10000 \<le> timedelta (po_spacing (st_policy r))" using timedelta_mono [OF sp] by (simp add: timedelta_def py_round_of_int)
    moreover have "st_policy r' = st_policy r" by (simp add: r' started_state_def)
    ultimately show ?thesis using 1(6) by auto
  qed
qed

theorem starts_are_spaced_witness:
  "\<exists>e' l'. pacing_acquire demo_host ''s2'' 60 ''l2'' 1000000 1000000 demo_paced = Inr (e', Inr l') \<and> 0 + 10000 \<le> (1000000 :: int)"
proof -
  have "granted (pacing_acquire demo_host ''s1'' 60 ''l1'' 0 0 pacing_empty)" by code_simp
  then obtain d l where a: "pacing_acquire demo_host ''s1'' 60 ''l1'' 0 0 pacing_empty = Inr (d, Inr l)"
    by (auto dest: grantedE)
  have "granted (pacing_acquire demo_host ''s2'' 60 ''l2'' 1000000 1000000 demo_paced)" by code_simp
  then obtain e l' where b: "pacing_acquire demo_host ''s2'' 60 ''l2'' 1000000 1000000 demo_paced = Inr (e, Inr l')"
    by (auto dest: grantedE)
  have "demo_paced = d" using a by (simp add: demo_paced_def)
  with starts_are_spaced [OF demo_reach a steps_Nil, of "''s2''" 60 "''l2''" 1000000 1000000 e l'] b show ?thesis by auto
qed

text \<open>C20: after a capture reports that the origin refused it and asked for a wait, no capture of that hostname
  starts before the wait (at most a year) is over, whatever runs in between: expiry of the learned
  policy, an operator reset, a settings change or a purge do not lift the cooldown.\<close>

theorem cooldown_is_honoured:
  assumes reach: "reach pacing_init pacing_step (clock, d)" and known: "state_of d (lh_hostname lease) \<noteq> None"
    and held: "lookup pl_id (lh_id lease) (pd_leases d) = Some held" "now < pl_expires_at held"
    and ob: "obs_outcome ob = Throttled" "obs_retry_after ob = Some (Finite wait)" "0 \<le> wait"
    and rel: "pacing_release lease (Some ob) now d = Inr d'"
    and run: "steps pacing_step (now, d') trace (clock', e)"
    and acq: "timely clock' (P_Acquire (lh_hostname lease) sid secs lid now0) now'"
      "pacing_acquire (lh_hostname lease) sid secs lid now0 now' e = Inr (e', Inr l)"
  shows "now + timedelta (min wait 31536000) \<le> now'"
proof -
  have ok: "pacing_ok d" using pacing.reach_inv [OF reach] by simp
  obtain r where r: "state_of d (lh_hostname lease) = Some r" using known by auto
  obtain d0 c where dc: "pacing_configuration_of d = (d0, c)" by fastforce
  note c0 = configuration_cases [OF ok dc]
  have r0: "state_of d0 (lh_hostname lease) = Some r" using r c0(4) by (simp add: state_of_def)
  from rel r held dc obtain d1 where o: "observe_release c held ob now r d0 = Inr d1" and s: "pd_states d' = pd_states d1"
    by (auto simp: pacing_release_def split: sum.splits)
  have ok': "pacing_ok d'" using release_defers [OF ok rel] by blast
  show ?thesis
  proof (rule observe_release_cases [OF c0(1,2) r0 o], goal_cases)
    case (1 r1)
    let ?p = "update_policy (pc_settings c) (st_policy r1) ob now (pl_at_limit held) (pl_concurrency_at_limit held) (pl_generation held)"
    have "cooldown_le (Some (now + timedelta (min wait 31536000))) (po_cooldown_until ?p)"
      by (rule throttled_cooldown) (use ob in simp_all)
    then have "now + timedelta (min wait 31536000) \<le> not_before (adjusted_state ?p r1)"
      by (auto simp: not_before_def adjusted_state_def cooldown_le_def split: option.splits)
    then have "held_off (lh_hostname lease) (now + timedelta (min wait 31536000)) (now, d')"
      using 1(8) state_of_cong [OF s] by (auto simp: held_off_def)
    then show ?thesis by (rule granted_later [OF ok' _ run acq])
  qed
qed

theorem cooldown_is_honoured_witness:
  "\<exists>e' l'. pacing_acquire demo_host ''s2'' 60 ''l2'' 20500000 20500000 demo_released = Inr (e', Inr l')
     \<and> 500000 + timedelta (min 20 31536000) \<le> 20500000"
proof -
  let ?lease = "\<lparr>lh_id = ''l1'', lh_hostname = demo_host\<rparr>"
  let ?ob = "\<lparr>obs_outcome = Throttled, obs_retry_after = Some (Finite 20)\<rparr>"
  have st: "pacing_step (0, pacing_empty) (P_Acquire demo_host ''s1'' 60 ''l1'' 0, 0) (0, demo_paced)"
    unfolding demo_paced_def by (rule pacing_transaction) simp
  have re: "reach pacing_init pacing_step (0, demo_paced)" 
    by (rule reach_step, rule demo_reach, rule st)
  have k: "state_of demo_paced (lh_hostname ?lease) \<noteq> None" by code_simp
  have "(case lookup pl_id (lh_id ?lease) (pd_leases demo_paced) of None \<Rightarrow> False | Some x \<Rightarrow> 500000 < pl_expires_at x)" by code_simp
  then obtain held where h: "lookup pl_id (lh_id ?lease) (pd_leases demo_paced) = Some held" "500000 < pl_expires_at held"
    by (auto split: option.splits)
  have "(case pacing_release ?lease (Some ?ob) 500000 demo_paced of Inl _ \<Rightarrow> False | Inr _ \<Rightarrow> True)" by code_simp
  then have rel: "pacing_release ?lease (Some ?ob) 500000 demo_paced = Inr demo_released"
    by (auto simp: demo_released_def split: sum.splits)
  have "granted (pacing_acquire demo_host ''s2'' 60 ''l2'' 20500000 20500000 demo_released)" by code_simp
  then obtain e l' where b: "pacing_acquire demo_host ''s2'' 60 ''l2'' 20500000 20500000 demo_released = Inr (e, Inr l')"
    by (auto dest: grantedE)
  have "500000 + timedelta (min 20 31536000) \<le> 20500000"
    by (rule cooldown_is_honoured [OF re k h _ _ _ rel steps_Nil, of 20 "''s2''" 60 "''l2''" 20500000]) (use b in simp_all)
  with b show ?thesis by blast
qed

text \<open>releasing a lease a second time changes nothing, so an observation is counted at most once however
  often the release is retried.\<close>

theorem release_once:
  assumes "pacing_release lease ob now d = Inr d'"
  shows "pacing_release lease ob' now' d' = Inr d'"
proof -
  have "state_of d' (lh_hostname lease) = None \<or> lookup pl_id (lh_id lease) (pd_leases d') = None"
  proof (cases "state_of d (lh_hostname lease) = None \<or> lookup pl_id (lh_id lease) (pd_leases d) = None")
    case True
    then have "d' = d" using assms by (auto simp: pacing_release_def split: option.splits)
    with True show ?thesis by simp
  next
    case False
    then have "\<forall>l \<in> set (pd_leases d'). pl_id l \<noteq> lh_id lease"
      using assms by (auto simp: pacing_release_def split: sum.splits prod.splits)
    then show ?thesis by (auto simp: lookup_None)
  qed
  then show ?thesis by (auto simp: pacing_release_def split: option.split)
qed

theorem release_once_witness:
  "pacing_release \<lparr>lh_id = ''l1'', lh_hostname = demo_host\<rparr> None 600000 demo_released = Inr demo_released"
proof -
  let ?lease = "\<lparr>lh_id = ''l1'', lh_hostname = demo_host\<rparr>"
  let ?ob = "\<lparr>obs_outcome = Throttled, obs_retry_after = Some (Finite 20)\<rparr>"
  have "(case pacing_release ?lease (Some ?ob) 500000 demo_paced of Inl _ \<Rightarrow> False | Inr _ \<Rightarrow> True)" by code_simp
  then have "pacing_release ?lease (Some ?ob) 500000 demo_paced = Inr demo_released"
    by (auto simp: demo_released_def split: sum.splits)
  then show ?thesis by (rule release_once)
qed

end
