(* ===== verification/Reconciler.thy ===== *)
theory Reconciler
  imports Gateway_Runs
begin

text \<open>
  The fleet reconciler (\<^verbatim>\<open>backend/fleet/reconciler.py\<close>). One pass is a program of calls: to the
  fleet repository, to the container runtime (\<^verbatim>\<open>FleetRuntime\<close>, whose answers are arbitrary) and to
  the clock. Gateways run their transactions between any two calls. The theorem is that the controller never shrinks the
  fleet below a browser that is in use.
\<close>

section \<open>Calls\<close>

datatype request =
    Q_Evaluate
  | Q_List
  | Q_Prepare string
  | Q_Cancel
  | Q_Clock
  | Q_Scale int int
  | Q_Remove string
  | Q_Port runtime_instance
  | Q_Observe "observed_instance list"
  | Q_Assignments "string list"
  | Q_Record string

datatype response =
    R_Evaluated fleet_configuration scaling_decision_result
  | R_Instances "runtime_instance list"
  | R_Bool bool
  | R_Time time
  | R_Unit
  | R_Assignments "string \<Rightarrow> time option"
  | R_Error

text \<open>A program makes a call and goes on with the answer. An exception is the answer \<open>R_Error\<close>.\<close>

datatype 'a prog = Return 'a | Call request "response \<Rightarrow> 'a prog"

section \<open>State\<close>

record scale_request =
  sr_requested_at :: time
  sr_ready_observed :: bool
  sr_assignment_observed :: bool

record recon_state =
  rs_unhealthy_since :: "string \<Rightarrow> time option"
  rs_known_instances :: "string list"
  rs_unbound :: "scale_request list"
  rs_scale_requests :: "(string \<times> scale_request) list"

definition recon_init :: recon_state where
  "recon_init = \<lparr>rs_unhealthy_since = (\<lambda>_. None), rs_known_instances = [], rs_unbound = [], rs_scale_requests = []\<rparr>"

datatype direction = Dir_Up | Dir_Down | Dir_Configure | Dir_Replace

datatype recon_error = Operation_Error direction | Raised

record reconciliation_result =
  rr_direction :: "direction option"
  rr_replaced :: nat
  rr_ready_latencies :: "rat list"
  rr_assignment_latencies :: "rat list"
  rr_unassigned :: nat

type_synonym recon_outcome = "recon_state \<times> (recon_error + reconciliation_result)"

record fleet_definition =
  fd_provider :: provider_name
  fd_connection_port :: nat
  fd_connection_path :: string

fun decimal :: "nat \<Rightarrow> string" where
  "decimal n = (if n < 10 then [char_of (48 + n)] else decimal (n div 10) @ [char_of (48 + n mod 10)])"

definition endpoint :: "fleet_definition \<Rightarrow> runtime_instance \<Rightarrow> string" where
  "endpoint fd i = ''ws://'' @ rt_address i @ '':'' @ decimal (fd_connection_port fd) @ fd_connection_path fd"

definition browserless_fleet :: fleet_definition where
  "browserless_fleet = \<lparr>fd_provider = BROWSERLESS, fd_connection_port = 3000, fd_connection_path = ''''\<rparr>"

section \<open>Scale requests and their latencies\<close>

text \<open>\<open>_scale_requests[id] = request\<close>: an entry keeps its place.\<close>

fun dict_set :: "'k \<Rightarrow> 'v \<Rightarrow> ('k \<times> 'v) list \<Rightarrow> ('k \<times> 'v) list" where
  "dict_set k v [] = [(k, v)]"
| "dict_set k v ((k', v') # xs) = (if k' = k then (k, v) # xs else (k', v') # dict_set k v xs)"

fun bind_new :: "string list \<Rightarrow> recon_state \<Rightarrow> recon_state" where
  "bind_new [] st = st"
| "bind_new (i # is) st =
     (case rs_unbound st of
        [] \<Rightarrow> st
      | r # rest \<Rightarrow> bind_new is (st\<lparr>rs_unbound := rest, rs_scale_requests := dict_set i r (rs_scale_requests st)\<rparr>))"

definition bind_scale_requests :: "runtime_instance list \<Rightarrow> recon_state \<Rightarrow> recon_state" where
  "bind_scale_requests instances st =
     (let live = remdups (map rt_instance_id instances);
          new = sort (filter (\<lambda>i. i \<notin> set (rs_known_instances st)) live)
      in (bind_new new st)\<lparr>rs_known_instances := live\<rparr>)"

record latency_acc =
  la_requests :: "(string \<times> scale_request) list"
  la_ready :: "rat list"
  la_assigned :: "rat list"
  la_unassigned :: nat

definition after_assignment ::
  "string list \<Rightarrow> (string \<Rightarrow> time option) \<Rightarrow> string \<Rightarrow> scale_request \<Rightarrow> latency_acc \<Rightarrow> latency_acc" where
  "after_assignment live assigned i r acc =
     (let (r1, acc1) = (case assigned i of
            Some t \<Rightarrow> if \<not> sr_assignment_observed r
              then (r\<lparr>sr_assignment_observed := True\<rparr>,
                    acc\<lparr>la_assigned := la_assigned acc @ [max 0 (seconds_between (sr_requested_at r) t)]\<rparr>)
              else (r, acc)
          | None \<Rightarrow> (r, acc))
      in if i \<notin> set live then
           (if sr_assignment_observed r1 then acc1 else acc1\<lparr>la_unassigned := la_unassigned acc1 + 1\<rparr>)
         else if sr_assignment_observed r1 then acc1
         else acc1\<lparr>la_requests := la_requests acc1 @ [(i, r1)]\<rparr>)"

definition raised :: "recon_state \<Rightarrow> recon_outcome prog" where
  "raised st = Return (st, Inl Raised)"

fun collect_latencies ::
  "string list \<Rightarrow> string list \<Rightarrow> (string \<Rightarrow> time option) \<Rightarrow> (string \<times> scale_request) list \<Rightarrow> recon_state \<Rightarrow> latency_acc
     \<Rightarrow> (latency_acc \<Rightarrow> recon_outcome prog) \<Rightarrow> recon_outcome prog" where
  "collect_latencies live ready assigned [] st acc k = k acc"
| "collect_latencies live ready assigned ((i, r) # rs) st acc k =
     (if i \<in> set ready \<and> \<not> sr_ready_observed r then
        Call Q_Clock (\<lambda>ans. case ans of
            R_Time now \<Rightarrow> collect_latencies live ready assigned rs st
              (after_assignment live assigned i (r\<lparr>sr_ready_observed := True\<rparr>)
                 (acc\<lparr>la_ready := la_ready acc @ [max 0 (seconds_between (sr_requested_at r) now)]\<rparr>)) k
          | _ \<Rightarrow> raised st)
      else collect_latencies live ready assigned rs st (after_assignment live assigned i r acc) k)"

definition lifecycle_latencies ::
  "string list \<Rightarrow> string list \<Rightarrow> recon_state
     \<Rightarrow> (recon_state \<Rightarrow> rat list \<Rightarrow> rat list \<Rightarrow> nat \<Rightarrow> recon_outcome prog) \<Rightarrow> recon_outcome prog" where
  "lifecycle_latencies live ready st k =
     (if rs_scale_requests st = [] then k st [] [] 0
      else Call (Q_Assignments (map fst (rs_scale_requests st))) (\<lambda>ans. case ans of
          R_Assignments assigned \<Rightarrow>
            collect_latencies live ready assigned (rs_scale_requests st) st
              \<lparr>la_requests = [], la_ready = [], la_assigned = [], la_unassigned = 0\<rparr>
              (\<lambda>acc. k (st\<lparr>rs_scale_requests := la_requests acc\<rparr>) (la_ready acc) (la_assigned acc) (la_unassigned acc))
        | _ \<Rightarrow> raised st))"

section \<open>Scaling\<close>

definition failed_operation :: "direction \<Rightarrow> string \<Rightarrow> recon_state \<Rightarrow> recon_outcome prog" where
  "failed_operation dir status st =
     Call (Q_Record status) (\<lambda>ans. case ans of
         R_Unit \<Rightarrow> Return (st, Inl (Operation_Error dir))
       | _ \<Rightarrow> raised st)"

type_synonym scaled = "recon_state \<Rightarrow> runtime_instance list \<Rightarrow> string \<Rightarrow> direction option \<Rightarrow> recon_outcome prog"

definition relist :: "recon_state \<Rightarrow> string \<Rightarrow> direction option \<Rightarrow> scaled \<Rightarrow> recon_outcome prog" where
  "relist st status dir k =
     Call Q_List (\<lambda>ans. case ans of
         R_Instances xs \<Rightarrow> k (bind_scale_requests xs st) xs status dir
       | _ \<Rightarrow> raised st)"

definition apply_scale :: "direction \<Rightarrow> int \<Rightarrow> int \<Rightarrow> string \<Rightarrow> recon_state \<Rightarrow> scaled \<Rightarrow> recon_outcome prog" where
  "apply_scale dir n capacity status st k =
     Call Q_Clock (\<lambda>ans. case ans of
         R_Time now \<Rightarrow>
           Call (Q_Scale n capacity) (\<lambda>ans. case ans of
               R_Unit \<Rightarrow>
                 relist (if dir = Dir_Up then
                           st\<lparr>rs_unbound := rs_unbound st @
                               [\<lparr>sr_requested_at = now, sr_ready_observed = False, sr_assignment_observed = False\<rparr>]\<rparr>
                         else st) status (Some dir) k
             | _ \<Rightarrow> failed_operation dir ''runtime_scale_failed'' st)
       | _ \<Rightarrow> raised st)"

type_synonym candidate = "runtime_instance list \<Rightarrow> runtime_instance option"

definition scale_phase ::
  "candidate \<Rightarrow> fleet_configuration \<Rightarrow> scaling_decision_result \<Rightarrow> runtime_instance list \<Rightarrow> recon_state \<Rightarrow> scaled
     \<Rightarrow> recon_outcome prog" where
  "scale_phase candidate conf decision instances st k =
     (let current = int (length instances);
          desired = fl_desired_instances conf;
          capacity_changed = list_ex (\<lambda>i. rt_configuration_stale i
            \<or> rt_session_capacity i \<noteq> Some (fl_session_capacity conf)) instances;
          current_capacity = (case List.map_filter rt_session_capacity instances of
            c # _ \<Rightarrow> c | [] \<Rightarrow> fl_session_capacity conf);
          reconfigure = (capacity_changed \<and> sd_demand decision = 0);
          status = (if capacity_changed \<and> sd_demand decision > 0 then ''waiting_for_zero_demand'' else ''ready'');
          capacity = (if sd_demand decision = 0 then fl_session_capacity conf else current_capacity)
      in if current = desired \<and> \<not> reconfigure then k st instances status None
         else if current > desired then
           (case candidate instances of
              None \<Rightarrow> relist st ''waiting_for_scale_down_drain'' None k
            | Some c \<Rightarrow>
                Call (Q_Prepare (rt_instance_id c)) (\<lambda>ans. case ans of
                    R_Bool True \<Rightarrow> apply_scale Dir_Down (current - 1) capacity status st k
                  | R_Bool False \<Rightarrow> relist st ''waiting_for_scale_down_drain'' None k
                  | _ \<Rightarrow> raised st))
         else
           Call Q_Cancel (\<lambda>ans. case ans of
               R_Unit \<Rightarrow> if current < desired then apply_scale Dir_Up (current + 1) capacity status st k
                 else apply_scale Dir_Configure current capacity status st k
             | _ \<Rightarrow> raised st))"

section \<open>Probing and replacing\<close>

record probe =
  pb_observations :: "observed_instance list"
  pb_ready :: "string list"
  pb_replaced :: nat
  pb_status :: string

definition observation_of ::
  "fleet_definition \<Rightarrow> runtime_instance \<Rightarrow> fleet_instance_state \<Rightarrow> observed_instance" where
  "observation_of fd i state = \<lparr>ob_instance_id = rt_instance_id i, ob_endpoint = endpoint fd i, ob_state = state,
     ob_started_at = rt_started_at i, ob_session_capacity = rt_session_capacity i\<rparr>"

fun probe_all ::
  "fleet_definition \<Rightarrow> rat \<Rightarrow> runtime_instance list \<Rightarrow> recon_state \<Rightarrow> probe
     \<Rightarrow> (recon_state \<Rightarrow> probe \<Rightarrow> recon_outcome prog) \<Rightarrow> recon_outcome prog" where
  "probe_all fd timeout [] st pb k = k st pb"
| "probe_all fd timeout (i # is) st pb k =
     Call (Q_Port i) (\<lambda>ans. case ans of
         R_Bool ready \<Rightarrow>
           Call Q_Clock (\<lambda>ans. case ans of
               R_Time now \<Rightarrow>
                 let x = rt_instance_id i;
                     since = (if ready then None
                              else Some (case rs_unhealthy_since st x of None \<Rightarrow> now | Some t \<Rightarrow> t));
                     st1 = st\<lparr>rs_unhealthy_since := (rs_unhealthy_since st)(x := since)\<rparr>;
                     pb1 = (if ready then pb\<lparr>pb_ready := pb_ready pb @ [x]\<rparr> else pb);
                     expired = (case since of None \<Rightarrow> False | Some t \<Rightarrow> timeout \<le> seconds_between t now)
                 in if expired then
                      Call (Q_Prepare x) (\<lambda>ans. case ans of
                          R_Bool True \<Rightarrow>
                            Call (Q_Remove x) (\<lambda>ans. case ans of
                                R_Unit \<Rightarrow> probe_all fd timeout is
                                  (st1\<lparr>rs_unhealthy_since := (rs_unhealthy_since st1)(x := None)\<rparr>)
                                  (pb1\<lparr>pb_replaced := pb_replaced pb1 + 1\<rparr>) k
                              | _ \<Rightarrow> failed_operation Dir_Replace ''runtime_replace_failed'' st1)
                        | R_Bool False \<Rightarrow> probe_all fd timeout is st1
                            (pb1\<lparr>pb_observations := pb_observations pb1 @ [observation_of fd i FI_Unhealthy],
                                 pb_status := ''waiting_for_unhealthy_instance_sessions''\<rparr>) k
                        | _ \<Rightarrow> raised st1)
                    else probe_all fd timeout is st1
                      (pb1\<lparr>pb_observations := pb_observations pb1 @
                            [observation_of fd i (if ready then FI_Ready else FI_Starting)]\<rparr>) k
             | _ \<Rightarrow> raised st)
       | _ \<Rightarrow> raised st)"

section \<open>One pass\<close>

definition observe_phase ::
  "fleet_definition \<Rightarrow> rat \<Rightarrow> recon_state \<Rightarrow> runtime_instance list \<Rightarrow> string \<Rightarrow> direction option \<Rightarrow> recon_outcome prog" where
  "observe_phase fd timeout st instances status dir =
     (let live = map rt_instance_id instances;
          st1 = st\<lparr>rs_unhealthy_since := (\<lambda>i. if i \<in> set live then rs_unhealthy_since st i else None)\<rparr>
      in probe_all fd timeout instances st1 \<lparr>pb_observations = [], pb_ready = [], pb_replaced = 0, pb_status = status\<rparr>
           (\<lambda>st2 pb. Call (Q_Observe (pb_observations pb)) (\<lambda>ans. case ans of
               R_Unit \<Rightarrow> lifecycle_latencies live (pb_ready pb) st2 (\<lambda>st3 ready assigned unassigned.
                 Call (Q_Record (pb_status pb)) (\<lambda>ans. case ans of
                     R_Unit \<Rightarrow> Return (st3, Inr \<lparr>rr_direction = dir, rr_replaced = pb_replaced pb,
                       rr_ready_latencies = ready, rr_assignment_latencies = assigned, rr_unassigned = unassigned\<rparr>)
                   | _ \<Rightarrow> raised st3))
             | _ \<Rightarrow> raised st2)))"

definition reconcile :: "candidate \<Rightarrow> fleet_definition \<Rightarrow> rat \<Rightarrow> recon_state \<Rightarrow> recon_outcome prog" where
  "reconcile candidate fd timeout st =
     Call Q_Evaluate (\<lambda>ans. case ans of
         R_Evaluated conf decision \<Rightarrow>
           Call Q_List (\<lambda>ans. case ans of
               R_Instances instances \<Rightarrow>
                 scale_phase candidate conf decision instances (bind_scale_requests instances st)
                   (observe_phase fd timeout)
             | _ \<Rightarrow> raised st)
       | _ \<Rightarrow> raised st)"

end
