(* ===== verification/Reconciler_System.thy ===== *)
theory Reconciler_System
  imports Reconciler
begin

text \<open>
  The reconciler beside the gateways. A configuration holds the database clock, the database, the instant and the
  database of the last evaluation of demand, the last listing the runtime returned and the rest of the controller's
  program. Between two calls of the controller any
  gateway transaction may run; runtime and clock answers are arbitrary, and any call may fail. There is one
  controller: drains, cancellations and observations come from it alone.
\<close>

section \<open>Runtimes\<close>

text \<open>The one pure operation of the \<^verbatim>\<open>FleetRuntime\<close> protocol, and what the reconciler relies on.\<close>

locale fleet_runtime =
  fixes candidate :: candidate
  assumes candidate_listed: "candidate xs = Some c \<Longrightarrow> c \<in> set xs"
    and candidate_exists: "xs \<noteq> [] \<Longrightarrow> candidate xs \<noteq> None"
begin

text \<open>A fleet larger than desired is always offered a listed instance to drain.\<close>

lemma too_many_prepares:
  assumes "0 \<le> fl_desired_instances conf" "fl_desired_instances conf < int (length instances)"
  shows "\<exists>c k'. c \<in> set instances \<and> scale_phase candidate conf decision instances st k = Call (Q_Prepare (rt_instance_id c)) k'
     \<and> (\<exists>capacity status. k' (R_Bool True) = apply_scale Dir_Down (int (length instances) - 1) capacity status st k)"
proof -
  have "instances \<noteq> []" using assms by auto
  then obtain c where c: "candidate instances = Some c" using candidate_exists by fastforce
  show ?thesis
    using c candidate_listed [OF c] assms by (auto simp: scale_phase_def Let_def)
qed

end

definition compose_candidate :: candidate where
  "compose_candidate xs = (if xs = [] then None else Some (last xs))"

fun digit_value :: "char \<Rightarrow> nat option" where
  "digit_value c = (if CHR ''0'' \<le> c \<and> c \<le> CHR ''9'' then Some (of_char c - 48) else None)"

fun parse_digits :: "nat \<Rightarrow> string \<Rightarrow> nat option" where
  "parse_digits n [] = Some n"
| "parse_digits n (c # cs) = (case digit_value c of None \<Rightarrow> None | Some v \<Rightarrow> parse_digits (10 * n + v) cs)"

text \<open>\<open>address.partition(".")[0]\<close>, then \<open>rpartition("-")\<close>: the part after the last hyphen, if there is one.\<close>

definition pod_ordinal :: "string \<Rightarrow> int" where
  "pod_ordinal address =
     (let pod = takeWhile (\<lambda>c. c \<noteq> CHR ''.'') address;
          raw = rev (takeWhile (\<lambda>c. c \<noteq> CHR ''-'') (rev pod))
      in if CHR ''-'' \<in> set pod \<and> raw \<noteq> [] then
           (case parse_digits 0 raw of Some n \<Rightarrow> int n | None \<Rightarrow> -1)
         else -1)"

text \<open>\<open>max(instances, key=...)\<close> returns the first maximal element.\<close>

fun first_max :: "('a \<Rightarrow> int) \<Rightarrow> 'a \<Rightarrow> 'a list \<Rightarrow> 'a" where
  "first_max f x [] = x"
| "first_max f x (y # ys) = first_max f (if f x < f y then y else x) ys"

definition kubernetes_candidate :: candidate where
  "kubernetes_candidate xs =
     (case xs of [] \<Rightarrow> None | x # rest \<Rightarrow> Some (first_max (\<lambda>i. pod_ordinal (rt_address i)) x rest))"

text \<open>What the Kubernetes runtime deletes when it scales: asked for as many instances as it lists, the candidate
  among those with an old configuration or another capacity.\<close>

definition kubernetes_scale_removes :: "runtime_instance list \<Rightarrow> int \<Rightarrow> int \<Rightarrow> runtime_instance option" where
  "kubernetes_scale_removes instances replicas capacity =
     (let stale = filter (\<lambda>i. rt_configuration_stale i \<or> rt_session_capacity i \<noteq> Some capacity) instances
      in if replicas = int (length instances) \<and> stale \<noteq> [] then kubernetes_candidate stale else None)"

lemma first_max_mem: "first_max f x ys \<in> set (x # ys)"
proof (induction ys arbitrary: x)
  case (Cons y ys)
  show ?case using Cons.IH [of "if f x < f y then y else x"] by (auto split: if_splits)
qed simp

interpretation compose: fleet_runtime compose_candidate
  by unfold_locales (auto simp: compose_candidate_def split: if_splits)

interpretation kubernetes: fleet_runtime kubernetes_candidate
proof unfold_locales
  show "kubernetes_candidate xs = Some c \<Longrightarrow> c \<in> set xs" for xs c
    using first_max_mem [of "\<lambda>i. pod_ordinal (rt_address i)"]
    by (auto simp: kubernetes_candidate_def simp del: first_max.simps split: list.splits)
  show "xs \<noteq> [] \<Longrightarrow> kubernetes_candidate xs \<noteq> None" for xs
    by (simp add: kubernetes_candidate_def split: list.split)
qed

section \<open>The system\<close>

record controller =
  ct_candidate :: candidate
  ct_definition :: fleet_definition
  ct_platform :: string
  ct_observation_ttl :: rat
  ct_startup_timeout :: rat

text \<open>The transaction behind a call, if it writes, and the answer the controller gets.\<close>

fun op_of :: "controller \<Rightarrow> request \<Rightarrow> gw_op option" where
  "op_of ct Q_Evaluate = Some (Op_Evaluate (fd_provider (ct_definition ct)))"
| "op_of ct (Q_Prepare i) = Some (Op_Drain (fd_provider (ct_definition ct)) i)"
| "op_of ct Q_Cancel = Some (Op_Cancel_Drain (fd_provider (ct_definition ct)))"
| "op_of ct (Q_Observe obs) = Some (Op_Observe (fd_provider (ct_definition ct)) obs (ct_platform ct) (ct_observation_ttl ct))"
| "op_of ct (Q_Record status) = Some (Op_Reconciled (fd_provider (ct_definition ct)) status)"
| "op_of ct _ = None"

fun answer :: "controller \<Rightarrow> request \<Rightarrow> time \<Rightarrow> db \<Rightarrow> response" where
  "answer ct Q_Evaluate now d =
     (case evaluate (fd_provider (ct_definition ct)) now d of Inl _ \<Rightarrow> R_Error | Inr (_, c, dec) \<Rightarrow> R_Evaluated c dec)"
| "answer ct (Q_Prepare i) now d = R_Bool (snd (prepare_scale_down (fd_provider (ct_definition ct)) i now d))"
| "answer ct (Q_Observe obs) now d =
     (case observe_instances (fd_provider (ct_definition ct)) obs (ct_platform ct) (ct_observation_ttl ct) now d of
        Inl _ \<Rightarrow> R_Error | Inr _ \<Rightarrow> R_Unit)"
| "answer ct _ now d = R_Unit"

fun outside :: "request \<Rightarrow> bool" where
  "outside Q_List = True"
| "outside Q_Clock = True"
| "outside (Q_Scale n c) = True"
| "outside (Q_Remove i) = True"
| "outside (Q_Port i) = True"
| "outside _ = False"

fun listed :: "request \<Rightarrow> response \<Rightarrow> runtime_instance list \<Rightarrow> runtime_instance list" where
  "listed Q_List (R_Instances xs) L = xs"
| "listed _ _ L = L"

fun controller_op :: "gw_op \<Rightarrow> bool" where
  "controller_op (Op_Observe p obs platform ttl) = True"
| "controller_op (Op_Drain p i) = True"
| "controller_op (Op_Cancel_Drain p) = True"
| "controller_op _ = False"

datatype move = M_Gateway gw_op | M_Answer response | M_Pass

type_synonym recon_config = "time \<times> db \<times> (time \<times> db) option \<times> runtime_instance list \<times> recon_outcome prog"

text \<open>The instant and the database an evaluation read.\<close>

definition evaluated :: "request \<Rightarrow> time \<Rightarrow> db \<Rightarrow> (time \<times> db) option \<Rightarrow> (time \<times> db) option" where
  "evaluated q now d ev = (if q = Q_Evaluate then Some (now, d) else ev)"

inductive recon_step :: "controller \<Rightarrow> recon_config \<Rightarrow> move \<times> time \<Rightarrow> recon_config \<Rightarrow> bool" for ct where
  gateway_move: "\<not> controller_op op \<Longrightarrow> clock \<le> now \<Longrightarrow>
    recon_step ct (clock, d, ev, L, pg) (M_Gateway op, now) (now, gw_apply op now d, ev, L, pg)"
| repository_move: "op_of ct q = Some op \<Longrightarrow> clock \<le> now \<Longrightarrow>
    recon_step ct (clock, d, ev, L, Call q k) (M_Answer (answer ct q now d), now)
      (now, gw_apply op now d, evaluated q now d ev, L, k (answer ct q now d))"
| read_move: "clock \<le> now \<Longrightarrow> r = R_Assignments (first_assignment_times d (fd_provider (ct_definition ct)) ids) \<Longrightarrow>
    recon_step ct (clock, d, ev, L, Call (Q_Assignments ids) k) (M_Answer r, now) (now, d, ev, L, k r)"
| outside_move: "outside q \<Longrightarrow> clock \<le> now \<Longrightarrow>
    recon_step ct (clock, d, ev, L, Call q k) (M_Answer r, now) (now, d, ev, listed q r L, k r)"
| failure_move: "clock \<le> now \<Longrightarrow>
    recon_step ct (clock, d, ev, L, Call q k) (M_Answer R_Error, now) (now, d, ev, L, k R_Error)"
| next_pass: "clock \<le> now \<Longrightarrow>
    recon_step ct (clock, d, ev, L, Return (st, res)) (M_Pass, now)
      (now, d, ev, L, reconcile (ct_candidate ct) (ct_definition ct) (ct_startup_timeout ct) st)"

inductive_cases recon_stepE: "recon_step ct s l t"

fun recon_start :: "controller \<Rightarrow> recon_config \<Rightarrow> bool" where
  "recon_start ct (clock, d, ev, L, pg) \<longleftrightarrow> gw_reachable d \<and> ev = None
     \<and> pg = reconcile (ct_candidate ct) (ct_definition ct) (ct_startup_timeout ct) recon_init"

section \<open>Guarded programs\<close>

text \<open>A program is guarded under a set of drained instances, a listing and whether the evaluation found no demand,
  when it removes drained instances only, and scales by at most one: down only when the candidate of the listing is
  drained, and to the listed number only when the evaluation found no demand.\<close>

fun guard :: "candidate \<Rightarrow> string set \<Rightarrow> runtime_instance list \<Rightarrow> bool \<Rightarrow> request \<Rightarrow> bool" where
  "guard cand D L z (Q_Remove i) \<longleftrightarrow> i \<in> D"
| "guard cand D L z (Q_Scale n capacity) \<longleftrightarrow>
     n = int (length L) \<and> z \<or> n = int (length L) + 1
     \<or> n = int (length L) - 1 \<and> (\<exists>c. cand L = Some c \<and> rt_instance_id c \<in> D)"
| "guard cand D L z _ \<longleftrightarrow> True"

fun drained :: "request \<Rightarrow> response \<Rightarrow> string set \<Rightarrow> string set" where
  "drained (Q_Prepare i) (R_Bool True) D = insert i D"
| "drained Q_Cancel r D = {}"
| "drained (Q_Observe obs) r D = {}"
| "drained q r D = D"

fun no_demand :: "request \<Rightarrow> response \<Rightarrow> bool \<Rightarrow> bool" where
  "no_demand Q_Evaluate (R_Evaluated conf decision) z \<longleftrightarrow> sd_demand decision = 0"
| "no_demand Q_Evaluate r z \<longleftrightarrow> False"
| "no_demand q r z \<longleftrightarrow> z"

primrec guarded :: "candidate \<Rightarrow> 'a prog \<Rightarrow> string set \<Rightarrow> runtime_instance list \<Rightarrow> bool \<Rightarrow> bool" where
  "guarded cand (Return x) = (\<lambda>D L z. True)"
| "guarded cand (Call q k) =
     (\<lambda>D L z. guard cand D L z q \<and> (\<forall>r. guarded cand (k r) (drained q r D) (listed q r L) (no_demand q r z)))"

lemma drained_mono: "D \<subseteq> E \<Longrightarrow> drained q r D \<subseteq> drained q r E"
  by (induction q r D rule: drained.induct) auto

lemma guard_mono: "guard cand D L z q \<Longrightarrow> D \<subseteq> E \<Longrightarrow> guard cand E L z q"
  by (cases q) auto

lemma guarded_mono: "guarded cand pg D L z \<Longrightarrow> D \<subseteq> E \<Longrightarrow> guarded cand pg E L z"
proof (induction pg arbitrary: D E L z)
  case (Call q k)
  from Call.prems have "guard cand E L z q" by (auto intro: guard_mono)
  moreover have "guarded cand (k r) (drained q r E) (listed q r L) (no_demand q r z)" for r
    by (rule Call.IH [OF rangeI _ drained_mono [OF Call.prems(2)]]) (use Call.prems(1) in simp)
  ultimately show ?case by simp
qed simp

lemma guarded_raised [simp]: "guarded cand (raised st) D L z"
  by (simp add: raised_def)

lemma guarded_failed [simp]: "guarded cand (failed_operation dir status st) D L z"
  by (simp add: failed_operation_def split: response.split)

text \<open>A continuation is free when it is guarded with nothing drained, whatever it is given.\<close>

lemma guarded_collect:
  assumes "\<And>acc. guarded cand (k acc) D L z"
  shows "guarded cand (collect_latencies live ready assigned rs st acc k) D L z"
  using assms by (induction live ready assigned rs st acc k rule: collect_latencies.induct) (auto split: response.split)

lemma guarded_lifecycle:
  assumes "\<And>st xs ys n. guarded cand (k st xs ys n) D L z"
  shows "guarded cand (lifecycle_latencies live ready st k) D L z"
  using assms by (auto simp: lifecycle_latencies_def intro!: guarded_collect split: response.split)

lemma guarded_probe:
  assumes "\<And>st pb D. guarded cand (k st pb) D L z"
  shows "guarded cand (probe_all fd timeout is st pb k) D L z"
  using assms
proof (induction "is" arbitrary: st pb D)
  case (Cons i "is")
  note IH = Cons.IH [OF Cons.prems]
  show ?case by (auto simp: Let_def IH split: response.split bool.split option.split)
qed simp

lemma guarded_observe: "guarded cand (observe_phase fd timeout st xs status dir) D L z"
  unfolding observe_phase_def Let_def
  by (rule guarded_probe) (auto intro!: guarded_lifecycle split: response.split)

lemma guarded_relist: "guarded cand (relist st status dir (observe_phase fd timeout)) D L z"
  by (auto simp: relist_def intro: guarded_observe split: response.split)

lemma guarded_apply_scale:
  assumes "guard cand D L z (Q_Scale n capacity)"
  shows "guarded cand (apply_scale dir n capacity status st (observe_phase fd timeout)) D L z"
  using assms by (auto simp: apply_scale_def simp del: guard.simps(2) intro: guarded_relist split: response.split)

lemma guarded_scale_phase:
  assumes "sd_demand decision = 0 \<Longrightarrow> z"
  shows "guarded cand (scale_phase cand conf decision L st (observe_phase fd timeout)) D L z"
  unfolding scale_phase_def Let_def
  using assms
  by (auto intro!: guarded_observe guarded_relist guarded_apply_scale split: response.split bool.split option.split)

lemma guarded_reconcile: "guarded cand (reconcile cand fd timeout st) D L z"
  by (auto simp: reconcile_def intro: guarded_scale_phase split: response.split)

section \<open>Drained instances stay unused\<close>

definition settled :: "time \<Rightarrow> db \<Rightarrow> string \<Rightarrow> bool" where
  "settled t d i \<longleftrightarrow> retired i d \<and> (\<forall>a \<in> set (db_attempts d). holds_slot i a \<longrightarrow> dead t (aq_session_id a) d)"

lemma dead_later: "dead t i d \<Longrightarrow> t \<le> now \<Longrightarrow> dead now i d"
  by (auto simp: dead_def dest: session_live_mono)

lemma settled_later: "settled t d i \<Longrightarrow> t \<le> now \<Longrightarrow> settled now d i"
  by (auto simp: settled_def dest: dead_later)

lemma settled_unoccupied: "settled t d i \<Longrightarrow> fleet_instance_occupied d t i = 0"
  by (auto simp: settled_def fleet_instance_occupied_def fleet_session_live_def count_where_def filter_empty_conv
      holds_slot_def dead_def session_live_def split: option.splits)

lemma prepare_attempts: "db_attempts (fst (prepare_scale_down p i now d)) = db_attempts d"
  "db_sessions (fst (prepare_scale_down p i now d)) = db_sessions d"
  by (simp_all add: fleet_tables)

lemma prepare_settles:
  assumes wf: "wf_db d" and ok: "snd (prepare_scale_down p i now d)"
  shows "settled now (fst (prepare_scale_down p i now d)) i"
proof -
  let ?d = "fst (prepare_scale_down p i now d)"
  from ok obtain r where r: "instance_of d i = Some r" "pi_provider r = p" and z: "fleet_instance_occupied ?d now i = 0"
    by (auto simp: prepare_scale_down_def Let_def instance_of_def split: option.splits if_splits)
  have "retired i ?d" using prepare_drains [OF r] by (simp add: retired_def)
  moreover have "dead now (aq_session_id a) ?d" if a: "a \<in> set (db_attempts ?d)" "holds_slot i a" for a
  proof -
    have "\<not> fleet_session_live ?d now a"
      using z a by (auto simp: fleet_instance_occupied_def count_where_def filter_empty_conv holds_slot_def)
    moreover have "aq_session_id a \<in> gs_id ` set (db_sessions ?d)" using wf_dbD(8) [OF wf] a by (simp add: prepare_attempts)
    then have "session_of ?d (aq_session_id a) \<noteq> None" by (auto simp: session_of_def lookup_None)
    ultimately show ?thesis by (auto simp: fleet_session_live_def dead_def session_live_def split: option.splits)
  qed
  ultimately show ?thesis by (simp add: settled_def)
qed

lemma settled_step:
  assumes wf: "wf_db d" and s: "settled t d i" and st: "gw_step d (op, now) d'" and q: "quiet i d op" and t: "t \<le> now"
  shows "settled t d' i"
proof -
  have qs: "quiet_step i d (op, now) d'" using st q by (simp add: quiet_step_def)
  have rt: "retired i d" using s by (simp add: settled_def)
  note ev = evolves_step [OF st]
  have "dead t (aq_session_id a') d'" if a': "a' \<in> set (db_attempts d')" "holds_slot i a'" for a'
  proof -
    have "(aq_id a', Some i) \<in> set (assignments d')" using a' by (force simp: assignments_def holds_slot_def)
    then have "(aq_id a', Some i) \<in> set (assignments d)"
      using retirement.below_step [OF conjI [OF wf rt] qs] by blast
    then obtain a where a: "a \<in> set (db_attempts d)" "aq_id a = aq_id a'" "aq_instance_id a = Some i"
      by (auto simp: assignments_def)
    have "attempt_of d (aq_id a') = Some a"
      unfolding attempt_of_def by (rule lookup_distinct [OF wf_dbD(2) [OF wf] a(1,2)])
    then obtain b where b: "attempt_of d' (aq_id a') = Some b" "attempt_moves a b"
      using extends_attempt [OF evolvesD(2) [OF ev wf]] by blast
    have "attempt_of d' (aq_id a') = Some a'"
      unfolding attempt_of_def by (rule lookup_distinct [OF wf_dbD(2) [OF evolvesD(1) [OF ev wf]] a'(1)]) simp
    with b have m: "attempt_moves a a'" by simp
    then have "attempt_rank (aq_state a) < 4" using a'(2) by (cases "aq_state a'") (auto simp: holds_slot_def attempt_moves_def)
    moreover have "aq_state a \<noteq> A_Requested" "aq_state a \<noteq> A_Queued"
      using wf_dbD(5) [OF wf a(1)] a(3) by (auto simp: attempt_ok_def)
    ultimately have "holds_slot i a" using a(3) by (cases "aq_state a") (auto simp: holds_slot_def)
    then have "dead t (aq_session_id a) d" using s a(1) by (simp add: settled_def)
    then show ?thesis using dead_step [OF wf _ st t] m by (simp add: attempt_moves_def)
  qed
  then show ?thesis using retired_step [OF wf rt qs] by (simp add: settled_def)
qed

section \<open>The invariant\<close>

text \<open>The demand a fleet has: its attempts in a live state, of live sessions.\<close>

definition demanded :: "controller \<Rightarrow> time \<times> db \<Rightarrow> nat" where
  "demanded ct e = fleet_attempt_count (snd e) (fd_provider (ct_definition ct)) live_attempt_state (fst e)"

fun recon_inv :: "controller \<Rightarrow> recon_config \<Rightarrow> bool" where
  "recon_inv ct (clock, d, ev, L, pg) \<longleftrightarrow>
     wf_db d \<and> (\<exists>D z. guarded (ct_candidate ct) pg D L z \<and> (\<forall>i \<in> D. settled clock d i)
       \<and> (z \<longrightarrow> (\<exists>e. ev = Some e \<and> demanded ct e = 0)))"

lemma recon_invE:
  assumes "recon_inv ct (clock, d, ev, L, pg)"
  obtains D z where "wf_db d" "guarded (ct_candidate ct) pg D L z" "\<forall>i \<in> D. settled clock d i"
    "z \<longrightarrow> (\<exists>e. ev = Some e \<and> demanded ct e = 0)"
  using assms by auto

lemma recon_inv_gw:
  assumes wf: "wf_db d" and le: "clock \<le> now"
    and g: "guarded (ct_candidate ct) pg E L z" and z: "z \<longrightarrow> (\<exists>e. ev = Some e \<and> demanded ct e = 0)"
    and E: "\<And>i. i \<in> E \<Longrightarrow> settled clock d i \<and> quiet i d op \<or> settled now (gw_apply op now d) i"
  shows "recon_inv ct (now, gw_apply op now d, ev, L, pg)"
proof -
  have st: "gw_step d (op, now) (gw_apply op now d)" by (rule gw_transaction)
  have "settled now (gw_apply op now d) i" if "i \<in> E" for i
    using E [OF that] settled_step [OF wf _ st _ le] settled_later [OF _ le] by blast
  then show ?thesis using evolvesD(1) [OF evolves_step [OF st] wf] g z by auto
qed

lemma recon_inv_wait:
  "wf_db d \<Longrightarrow> guarded (ct_candidate ct) pg D L z \<Longrightarrow> \<forall>i \<in> D. settled clock d i \<Longrightarrow>
   (z \<longrightarrow> (\<exists>e. ev = Some e \<and> demanded ct e = 0)) \<Longrightarrow> clock \<le> now \<Longrightarrow> recon_inv ct (now, d, ev, L, pg)"
  using settled_later unfolding recon_inv.simps by blast

lemma evaluated_demand:
  "no_demand Q_Evaluate (answer ct Q_Evaluate now d) z \<Longrightarrow> demanded ct (now, d) = 0"
  by (auto simp: demanded_def evaluate_def Let_def scaling_decision_def split: option.splits sum.splits if_splits)

lemma recon_inv_answer:
  assumes inv: "recon_inv ct (clock, d, ev, L, Call q k)" and op: "op_of ct q = Some op" and le: "clock \<le> now"
  shows "recon_inv ct (now, gw_apply op now d, evaluated q now d ev, L, k (answer ct q now d))"
proof -
  let ?r = "answer ct q now d"
  obtain D z where wf: "wf_db d" and g: "guarded (ct_candidate ct) (Call q k) D L z" and D: "\<forall>i \<in> D. settled clock d i"
    and z: "z \<longrightarrow> (\<exists>e. ev = Some e \<and> demanded ct e = 0)"
    by (rule recon_invE [OF inv])
  from op have "listed q ?r L = L" by (cases q) auto
  moreover from g have "guarded (ct_candidate ct) (k ?r) (drained q ?r D) (listed q ?r L) (no_demand q ?r z)" by simp
  ultimately have g': "guarded (ct_candidate ct) (k ?r) (drained q ?r D) L (no_demand q ?r z)" by simp
  show ?thesis
  proof (rule recon_inv_gw [OF wf le g'])
    show "no_demand q ?r z \<longrightarrow> (\<exists>e. evaluated q now d ev = Some e \<and> demanded ct e = 0)"
    proof (cases "q = Q_Evaluate")
      case True
      then show ?thesis using evaluated_demand by (simp add: evaluated_def)
    next
      case False
      then have "no_demand q ?r z = z" by (cases q) auto
      then show ?thesis using z False by (simp add: evaluated_def)
    qed
    fix i assume i: "i \<in> drained q ?r D"
    show "settled clock d i \<and> quiet i d op \<or> settled now (gw_apply op now d) i"
    proof (cases q)
      case (Q_Prepare j)
      with op have o: "op = Op_Drain (fd_provider (ct_definition ct)) j" by simp
      show ?thesis
        using i D prepare_settles [OF wf, of "fd_provider (ct_definition ct)" j now]
        by (cases "snd (prepare_scale_down (fd_provider (ct_definition ct)) j now d)") (auto simp: Q_Prepare o)
    qed (use i D op in auto)
  qed
qed

interpretation controller: invariant_system "recon_start ct" "recon_step ct" "recon_inv ct" for ct
proof unfold_locales
  show "recon_start ct s \<Longrightarrow> recon_inv ct s" for s
    by (cases s) (auto intro!: exI [of _ "{}"] exI [of _ False] guarded_reconcile gateway.reach_inv)
  show "recon_inv ct t" if inv: "recon_inv ct s" and st: "recon_step ct s l t" for s l t
    using st
  proof (cases rule: recon_step.cases)
    case (gateway_move op clock now d ev L pg)
    obtain D z where "wf_db d" "guarded (ct_candidate ct) pg D L z" "\<forall>i \<in> D. settled clock d i"
      "z \<longrightarrow> (\<exists>e. ev = Some e \<and> demanded ct e = 0)"
      using inv unfolding gateway_move(1) by (rule recon_invE)
    moreover have "quiet i d op" for i using gateway_move(4) by (cases op) auto
    ultimately show ?thesis unfolding gateway_move(3) using recon_inv_gw gateway_move(5) by blast
  next
    case (repository_move q op clock now d ev L k)
    then show ?thesis using recon_inv_answer inv by simp
  next
    case (read_move clock now r d ids ev L k)
    obtain D z where D: "wf_db d" "guarded (ct_candidate ct) (Call (Q_Assignments ids) k) D L z" "\<forall>i \<in> D. settled clock d i"
      "z \<longrightarrow> (\<exists>e. ev = Some e \<and> demanded ct e = 0)"
      using inv unfolding read_move(1) by (rule recon_invE)
    from D(2) have "guarded (ct_candidate ct) (k r) D L z" using read_move(5) by simp
    then show ?thesis unfolding read_move(3) using recon_inv_wait D read_move(4) by blast
  next
    case (outside_move q clock now d ev L k r)
    obtain D z where D: "wf_db d" "guarded (ct_candidate ct) (Call q k) D L z" "\<forall>i \<in> D. settled clock d i"
      "z \<longrightarrow> (\<exists>e. ev = Some e \<and> demanded ct e = 0)"
      using inv unfolding outside_move(1) by (rule recon_invE)
    have "drained q r D = D" "no_demand q r z = z" using outside_move(4) by (cases q; simp)+
    moreover from D(2) have "guarded (ct_candidate ct) (k r) (drained q r D) (listed q r L) (no_demand q r z)" by simp
    ultimately show ?thesis unfolding outside_move(3) using recon_inv_wait D outside_move(5) by metis
  next
    case (failure_move clock now d ev L q k)
    obtain D z where D: "wf_db d" "guarded (ct_candidate ct) (Call q k) D L z" "\<forall>i \<in> D. settled clock d i"
      "z \<longrightarrow> (\<exists>e. ev = Some e \<and> demanded ct e = 0)"
      using inv unfolding failure_move(1) by (rule recon_invE)
    have "listed q R_Error L = L" "drained q R_Error D \<subseteq> D" and z: "no_demand q R_Error z \<Longrightarrow> z" by (cases q; simp)+
    moreover from D(2) have "guarded (ct_candidate ct) (k R_Error) (drained q R_Error D) (listed q R_Error L) (no_demand q R_Error z)"
      unfolding guarded.simps by blast
    ultimately have "guarded (ct_candidate ct) (k R_Error) D L (no_demand q R_Error z)" by (auto intro: guarded_mono)
    then show ?thesis unfolding failure_move(3) using recon_inv_wait D z failure_move(4) by blast
  next
    case (next_pass clock now d ev L st res)
    then show ?thesis using inv by (auto intro!: exI [of _ "{}"] exI [of _ False] guarded_reconcile)
  qed
qed

section \<open>Property\<close>

text \<open>C7: whatever the gateways do between its calls, the controller takes away no browser in use by scaling down or
  by replacing: it removes an instance, or asks for one instance less with the runtime's candidate to go, only while
  no live session holds a slot of that instance. It asks for at most one instance more or less than listed, and for
  the listed number, to have instances with an old configuration recreated, only when its last evaluation found no
  demand: no attempt in a live state of a live session. That was true at that instant and is not enforced until the
  runtime acts, because nothing is drained for it; the theorem after this one shows what can come of that.\<close>

theorem controller_spares_browsers:
  assumes "reach (recon_start ct) (recon_step ct) (clock, d, ev, L, Call q k)"
  shows "(\<forall>i. q = Q_Remove i \<longrightarrow> fleet_instance_occupied d clock i = 0)
    \<and> (\<forall>n capacity. q = Q_Scale n capacity \<longrightarrow> \<bar>n - int (length L)\<bar> \<le> 1
         \<and> (n < int (length L) \<longrightarrow> (\<exists>c. ct_candidate ct L = Some c \<and> fleet_instance_occupied d clock (rt_instance_id c) = 0))
         \<and> (n = int (length L) \<longrightarrow> (\<exists>then_at d0. ev = Some (then_at, d0)
              \<and> fleet_attempt_count d0 (fd_provider (ct_definition ct)) live_attempt_state then_at = 0)))"
proof -
  obtain D z where g: "guard (ct_candidate ct) D L z q" and D: "\<forall>i \<in> D. settled clock d i"
    and z: "z \<longrightarrow> (\<exists>e. ev = Some e \<and> demanded ct e = 0)"
    using controller.reach_inv [OF assms] by auto
  have free: "fleet_instance_occupied d clock i = 0" if "i \<in> D" for i using D that by (blast intro: settled_unoccupied)
  from g z show ?thesis by (auto simp: free demanded_def)
qed

text \<open>An idle fleet of one instance that is no longer wanted.\<close>

definition idle_trace :: "(gw_op \<times> time) list" where
  "idle_trace =
    [(Op_Ensure_Fleet BROWSERLESS \<lparr>fc_minimum_instances = 0, fc_maximum_instances = 3, fc_session_capacity = 5,
        fc_cooldown_seconds = 60, fc_max_queued = 2, fc_enabled = True\<rparr>, 0),
     (Op_Observe BROWSERLESS [\<lparr>ob_instance_id = ''b1'', ob_endpoint = ''ws://b1:3000'', ob_state = FI_Ready,
        ob_started_at = None, ob_session_capacity = Some 5\<rparr>] ''docker-compose'' 30, 1000)]"

definition idle_db :: db where "idle_db = run_trace idle_trace empty_db"

definition idle_listing :: "runtime_instance list" where
  "idle_listing = [\<lparr>rt_instance_id = ''b1'', rt_address = ''b1'', rt_started_at = None,
     rt_session_capacity = Some 5, rt_configuration_stale = False\<rparr>]"

definition compose_controller :: controller where
  "compose_controller = \<lparr>ct_candidate = compose_candidate, ct_definition = browserless_fleet, ct_platform = ''docker-compose'',
     ct_observation_ttl = 30, ct_startup_timeout = 60\<rparr>"

fun pending :: "'a prog \<Rightarrow> request option" where
  "pending (Return x) = None"
| "pending (Call q k) = Some q"

fun resume :: "'a prog \<Rightarrow> response \<Rightarrow> 'a prog" where
  "resume (Return x) r = Return x"
| "resume (Call q k) r = k r"

lemma pending_Call: "pending pg = Some q \<Longrightarrow> pg = Call q (resume pg)"
  by (cases pg) auto

lemma reach_gateway:
  assumes "reach (recon_start ct) (recon_step ct) (clock, d, ev, L, pg)" "\<not> controller_op op" "clock \<le> now"
  shows "reach (recon_start ct) (recon_step ct) (now, gw_apply op now d, ev, L, pg)"
  using reach_step [OF assms(1)] gateway_move [OF assms(2,3)] by blast

lemma reach_repository:
  assumes "reach (recon_start ct) (recon_step ct) (clock, d, ev, L, pg)" "pending pg = Some q"
    "op_of ct q = Some op" "clock \<le> now"
  shows "reach (recon_start ct) (recon_step ct)
    (now, gw_apply op now d, evaluated q now d ev, L, resume pg (answer ct q now d))"
  using reach_step [OF assms(1)] pending_Call [OF assms(2)] repository_move [OF assms(3,4)] by metis

lemma reach_outside:
  assumes "reach (recon_start ct) (recon_step ct) (clock, d, ev, L, pg)" "pending pg = Some q" "outside q" "clock \<le> now"
  shows "reach (recon_start ct) (recon_step ct) (now, d, ev, listed q r L, resume pg r)"
  using reach_step [OF assms(1)] pending_Call [OF assms(2)] outside_move [OF assms(3,4)] by metis

theorem controller_spares_browsers_witness:
  "fleet_instance_occupied (gw_apply (Op_Drain BROWSERLESS ''b1'') 3000 (gw_apply (Op_Evaluate BROWSERLESS) 2000 idle_db)) 3000 ''b1'' = 0"
proof -
  let ?ct = compose_controller
  let ?d1 = "gw_apply (Op_Evaluate BROWSERLESS) 2000 idle_db"
  let ?d2 = "gw_apply (Op_Drain BROWSERLESS ''b1'') 3000 ?d1"
  let ?ev = "Some (2000, idle_db)"
  define p0 where "p0 = reconcile compose_candidate browserless_fleet 60 recon_init"
  define p1 where "p1 = resume p0 (answer ?ct Q_Evaluate 2000 idle_db)"
  define p2 where "p2 = resume p1 (R_Instances idle_listing)"
  define p3 where "p3 = resume p2 (answer ?ct (Q_Prepare ''b1'') 3000 ?d1)"
  define p4 where "p4 = resume p3 (R_Time 3000)"
  have q: "pending p0 = Some Q_Evaluate" "pending p1 = Some Q_List" "pending p2 = Some (Q_Prepare ''b1'')"
    "pending p3 = Some Q_Clock" "pending p4 = Some (Q_Scale 0 5)"
    unfolding p4_def p3_def p2_def p1_def p0_def by code_simp+
  have ct: "op_of ?ct Q_Evaluate = Some (Op_Evaluate BROWSERLESS)" "op_of ?ct (Q_Prepare ''b1'') = Some (Op_Drain BROWSERLESS ''b1'')"
    by (simp_all add: compose_controller_def browserless_fleet_def)
  have "gw_reachable idle_db" unfolding idle_db_def by (rule trace_reachable)
  then have "recon_start ?ct (1000, idle_db, None, [], p0)" by (simp add: p0_def compose_controller_def)
  then have r0: "reach (recon_start ?ct) (recon_step ?ct) (1000, idle_db, None, [], p0)" by (rule reach_init)
  have r1: "reach (recon_start ?ct) (recon_step ?ct) (2000, ?d1, ?ev, [], p1)"
    using reach_repository [OF r0 q(1) ct(1), of 2000] by (simp add: p1_def evaluated_def)
  have r2: "reach (recon_start ?ct) (recon_step ?ct) (2000, ?d1, ?ev, idle_listing, p2)"
    using reach_outside [OF r1 q(2), of 2000 "R_Instances idle_listing"] by (simp add: p2_def)
  have r3: "reach (recon_start ?ct) (recon_step ?ct) (3000, ?d2, ?ev, idle_listing, p3)"
    using reach_repository [OF r2 q(3) ct(2), of 3000] by (simp add: p3_def evaluated_def)
  have r4: "reach (recon_start ?ct) (recon_step ?ct) (3000, ?d2, ?ev, idle_listing, p4)"
    using reach_outside [OF r3 q(4), of 3000 "R_Time 3000"] by (simp add: p4_def)
  have r5: "reach (recon_start ?ct) (recon_step ?ct) (3000, ?d2, ?ev, idle_listing, Call (Q_Scale 0 5) (resume p4))"
    by (subst pending_Call [OF q(5), symmetric]) (rule r4)
  have l: "int (length idle_listing) = 1" "ct_candidate ?ct idle_listing = Some (hd idle_listing)" "rt_instance_id (hd idle_listing) = ''b1''"
    by (simp_all add: idle_listing_def compose_controller_def compose_candidate_def)
  from controller_spares_browsers [OF r5] l show ?thesis by simp
qed

text \<open>What can come of it on Kubernetes: an instance with an old configuration, no demand at the evaluation, a session
  that starts before the runtime is called, and the runtime, asked for as many instances as there are, deletes the
  instance the session has just been given.\<close>

definition busy_trace :: "(gw_op \<times> time) list" where
  "busy_trace =
    [(Op_Admit 10 \<lparr>ss_session_id = ''s1'', ss_owner_id = ''gateway'', ss_lease_token = ''token'', ss_state = S_Requested,
        ss_workload = ''cdp'', ss_capture_hostname = None\<rparr> 5 JNull None, 3000),
     (Op_Enqueue \<lparr>ss_session_id = ''s1'', ss_owner_id = ''gateway'', ss_lease_token = ''token'', ss_state = S_Requested,
        ss_workload = ''cdp'', ss_capture_hostname = None\<rparr> ''a1'' BROWSERLESS JNull JNull None, 3001)]"

definition stale_trace :: "(gw_op \<times> time) list" where
  "stale_trace =
    [(Op_Ensure_Fleet BROWSERLESS \<lparr>fc_minimum_instances = 1, fc_maximum_instances = 3, fc_session_capacity = 5,
        fc_cooldown_seconds = 60, fc_max_queued = 2, fc_enabled = True\<rparr>, 0),
     (Op_Observe BROWSERLESS [\<lparr>ob_instance_id = ''b1'', ob_endpoint = ''ws://b1:3000'', ob_state = FI_Ready,
        ob_started_at = None, ob_session_capacity = Some 5\<rparr>] ''kubernetes'' 30, 1000)]"

definition stale_listing :: "runtime_instance list" where
  "stale_listing = [\<lparr>rt_instance_id = ''b1'', rt_address = ''b-0.browsers'', rt_started_at = None,
     rt_session_capacity = Some 5, rt_configuration_stale = True\<rparr>]"

definition kubernetes_controller :: controller where
  "kubernetes_controller = compose_controller\<lparr>ct_candidate := kubernetes_candidate, ct_platform := ''kubernetes''\<rparr>"

theorem reconfiguration_hits_browser:
  "\<exists>clock d ev k instance. reach (recon_start kubernetes_controller) (recon_step kubernetes_controller)
       (clock, d, ev, stale_listing, Call (Q_Scale 1 5) k)
     \<and> kubernetes_scale_removes stale_listing 1 5 = Some instance
     \<and> fleet_instance_occupied d clock (rt_instance_id instance) = 1"
proof -
  let ?ct = kubernetes_controller
  let ?d0 = "run_trace stale_trace empty_db"
  let ?d1 = "gw_apply (Op_Evaluate BROWSERLESS) 2000 ?d0"
  let ?d2 = "gw_apply (Op_Cancel_Drain BROWSERLESS) 2500 ?d1"
  let ?d3 = "run_trace busy_trace ?d2"
  let ?ev = "Some (2000, ?d0)"
  define p0 where "p0 = reconcile kubernetes_candidate browserless_fleet 60 recon_init"
  define p1 where "p1 = resume p0 (answer ?ct Q_Evaluate 2000 ?d0)"
  define p2 where "p2 = resume p1 (R_Instances stale_listing)"
  define p3 where "p3 = resume p2 (answer ?ct Q_Cancel 2500 ?d1)"
  define p4 where "p4 = resume p3 (R_Time 2600)"
  have q: "pending p0 = Some Q_Evaluate" "pending p1 = Some Q_List" "pending p2 = Some Q_Cancel"
    "pending p3 = Some Q_Clock" "pending p4 = Some (Q_Scale 1 5)"
    unfolding p4_def p3_def p2_def p1_def p0_def by code_simp+
  have ct: "op_of ?ct Q_Evaluate = Some (Op_Evaluate BROWSERLESS)" "op_of ?ct Q_Cancel = Some (Op_Cancel_Drain BROWSERLESS)"
    by (simp_all add: kubernetes_controller_def compose_controller_def browserless_fleet_def)
  have "recon_start ?ct (1000, ?d0, None, [], p0)"
    using trace_reachable [of stale_trace] by (simp add: p0_def kubernetes_controller_def compose_controller_def)
  then have r0: "reach (recon_start ?ct) (recon_step ?ct) (1000, ?d0, None, [], p0)" by (rule reach_init)
  have r1: "reach (recon_start ?ct) (recon_step ?ct) (2000, ?d1, ?ev, [], p1)"
    using reach_repository [OF r0 q(1) ct(1), of 2000] by (simp add: p1_def evaluated_def)
  have r2: "reach (recon_start ?ct) (recon_step ?ct) (2000, ?d1, ?ev, stale_listing, p2)"
    using reach_outside [OF r1 q(2), of 2000 "R_Instances stale_listing"] by (simp add: p2_def)
  have r3: "reach (recon_start ?ct) (recon_step ?ct) (2500, ?d2, ?ev, stale_listing, p3)"
    using reach_repository [OF r2 q(3) ct(2), of 2500] by (simp add: p3_def evaluated_def)
  have r4: "reach (recon_start ?ct) (recon_step ?ct) (2600, ?d2, ?ev, stale_listing, p4)"
    using reach_outside [OF r3 q(4), of 2600 "R_Time 2600"] by (simp add: p4_def)
  have r5: "reach (recon_start ?ct) (recon_step ?ct) (3000, run_trace (take 1 busy_trace) ?d2, ?ev, stale_listing, p4)"
    using reach_gateway [OF r4, of "fst (hd busy_trace)" 3000] by (simp add: busy_trace_def run_trace_def)
  have r6: "reach (recon_start ?ct) (recon_step ?ct) (3001, ?d3, ?ev, stale_listing, p4)"
    using reach_gateway [OF r5, of "fst (busy_trace ! 1)" 3001] by (simp add: busy_trace_def run_trace_def)
  have r7: "reach (recon_start ?ct) (recon_step ?ct) (3001, ?d3, ?ev, stale_listing, Call (Q_Scale 1 5) (resume p4))"
    by (subst pending_Call [OF q(5), symmetric]) (rule r6)
  have removed: "kubernetes_scale_removes stale_listing 1 5 = Some (hd stale_listing)"
    by (simp add: kubernetes_scale_removes_def kubernetes_candidate_def stale_listing_def)
  have used: "fleet_instance_occupied ?d3 3001 (rt_instance_id (hd stale_listing)) = 1" by code_simp
  from r7 removed used show ?thesis by blast
qed

end
