(* ===== verification/Strings.thy ===== *)
theory Strings
  imports Prelude
begin

text \<open>
  The operations of Python's \<open>str\<close> the sources use, on character lists. Characters stand for the
  first 256 code points; \<open>is_space\<close>, \<open>lower_char\<close> and \<open>is_alnum\<close> follow \<open>str.isspace\<close>,
  \<open>str.lower\<close> and, on ASCII, \<open>str.isalnum\<close>. Names outside ASCII reach the IDNA codec only,
  whose slow path is a parameter.
\<close>

section \<open>Characters\<close>

definition is_space :: "char \<Rightarrow> bool" where
  "is_space c = (let n = of_char c :: nat in 9 \<le> n \<and> n \<le> 13 \<or> 28 \<le> n \<and> n \<le> 32 \<or> n = 133 \<or> n = 160)"

definition lower_char :: "char \<Rightarrow> char" where
  "lower_char c = (let n = of_char c :: nat
     in if 65 \<le> n \<and> n \<le> 90 \<or> 192 \<le> n \<and> n \<le> 222 \<and> n \<noteq> 215 then char_of (n + 32) else c)"

definition is_ascii :: "char \<Rightarrow> bool" where
  "is_ascii c \<longleftrightarrow> (of_char c :: nat) < 128"

definition is_digit :: "char \<Rightarrow> bool" where
  "is_digit c = (let n = of_char c :: nat in 48 \<le> n \<and> n \<le> 57)"

definition is_alnum :: "char \<Rightarrow> bool" where
  "is_alnum c = (let n = of_char c :: nat in 48 \<le> n \<and> n \<le> 57 \<or> 65 \<le> n \<and> n \<le> 90 \<or> 97 \<le> n \<and> n \<le> 122)"

definition lower :: "string \<Rightarrow> string" where
  "lower s = map lower_char s"

definition strip :: "string \<Rightarrow> string" where
  "strip s = rev (dropWhile is_space (rev (dropWhile is_space s)))"

definition rstrip :: "char \<Rightarrow> string \<Rightarrow> string" where
  "rstrip c s = rev (dropWhile (\<lambda>x. x = c) (rev s))"

definition startswith :: "string \<Rightarrow> string \<Rightarrow> bool" where
  "startswith p s \<longleftrightarrow> take (length p) s = p"

definition endswith :: "string \<Rightarrow> string \<Rightarrow> bool" where
  "endswith p s \<longleftrightarrow> length p \<le> length s \<and> drop (length s - length p) s = p"

text \<open>\<open>s.split(c)\<close> for a single character: never empty.\<close>

fun split_on :: "char \<Rightarrow> string \<Rightarrow> string list" where
  "split_on c [] = [[]]"
| "split_on c (x # xs) =
     (if x = c then [] # split_on c xs
      else case split_on c xs of [] \<Rightarrow> [[x]] | y # ys \<Rightarrow> (x # y) # ys)"

fun join_on :: "char \<Rightarrow> string list \<Rightarrow> string" where
  "join_on c [] = []"
| "join_on c [x] = x"
| "join_on c (x # y # ys) = x @ c # join_on c (y # ys)"

text \<open>\<open>str(n)\<close> of an integer.\<close>

function digits :: "int \<Rightarrow> string" where
  "digits n = (if n < 10 then [char_of (48 + n)] else digits (n div 10) @ [char_of (48 + n mod 10)])"
  by auto
termination by (relation "measure nat") auto

declare digits.simps [simp del]

definition str_int :: "int \<Rightarrow> string" where
  "str_int n = (if n < 0 then CHR ''-'' # digits (- n) else digits n)"

section \<open>Splitting and joining\<close>

lemma split_on_not_Nil [simp]: "split_on c s \<noteq> []"
  by (induction s) (auto split: list.split)

lemma join_split [simp]: "join_on c (split_on c s) = s"
proof (induction s)
  case (Cons x xs)
  obtain y ys where "split_on c xs = y # ys" by (cases "split_on c xs") auto
  with Cons show ?case by (cases ys) auto
qed simp

lemma split_on_free: "c \<notin> set s \<Longrightarrow> split_on c s = [s]"
  by (induction s) auto

lemma split_on_append: "c \<notin> set s \<Longrightarrow> split_on c (s @ c # t) = s # split_on c t"
  by (induction s) auto

lemma split_join: "xs \<noteq> [] \<Longrightarrow> \<forall>x \<in> set xs. c \<notin> set x \<Longrightarrow> split_on c (join_on c xs) = xs"
  by (induction c xs rule: join_on.induct) (auto simp: split_on_free split_on_append)

lemma split_on_parts: "x \<in> set (split_on c s) \<Longrightarrow> c \<notin> set x"
proof (induction s arbitrary: x)
  case (Cons y ys)
  then show ?case by (cases "split_on c ys") (auto split: if_splits)
qed simp

lemma split_on_chars: "set s \<subseteq> insert c (\<Union> (set ` set (split_on c s)))"
proof (induction s)
  case (Cons y ys)
  then show ?case by (cases "split_on c ys") (auto split: if_splits)
qed simp

lemma split_append: "split_on c (s @ t) = butlast (split_on c s) @ (last (split_on c s) @ hd (split_on c t)) # tl (split_on c t)"
proof (induction s)
  case Nil
  then show ?case by (cases "split_on c t") auto
next
  case (Cons y ys)
  show ?case
  proof (cases "split_on c ys")
    case Nil
    then show ?thesis by simp
  next
    case (Cons z zs)
    then show ?thesis using Cons.IH by (cases zs) auto
  qed
qed

lemma split_on_sep: "split_on c (s @ c # t) = split_on c s @ split_on c t"
proof -
  have "split_on c (s @ c # t) = butlast (split_on c s) @ [last (split_on c s)] @ split_on c t"
    using split_append [of c s "c # t"] by simp
  then show ?thesis by (simp add: append_assoc [symmetric] del: append_assoc)
qed

lemma endswith_append: "endswith p s \<longleftrightarrow> (\<exists>q. s = q @ p)"
  unfolding endswith_def
  by (metis append_eq_conv_conj append_take_drop_id diff_le_self le_add2 length_append add_diff_cancel_right')

lemma startswith_append: "startswith p s \<longleftrightarrow> (\<exists>q. s = p @ q)"
  unfolding startswith_def by (metis append_eq_conv_conj append_take_drop_id)

lemma startswith_simps [simp]: "startswith [] s" "startswith (x # xs) (y # ys) \<longleftrightarrow> x = y \<and> startswith xs ys"
  "\<not> startswith (x # xs) []"
  by (simp_all add: startswith_def) auto

section \<open>Stripping and lowering\<close>

lemma dropWhile_none: "s = [] \<or> \<not> P (hd s) \<Longrightarrow> dropWhile P s = s"
  by (cases s) auto

lemma strip_id: "\<forall>c \<in> set s. \<not> is_space c \<Longrightarrow> strip s = s"
proof -
  assume no: "\<forall>c \<in> set s. \<not> is_space c"
  have d: "\<forall>c \<in> set t. \<not> is_space c \<Longrightarrow> dropWhile is_space t = t" for t by (cases t) auto
  have "dropWhile is_space s = s" "dropWhile is_space (rev s) = rev s" by (rule d, use no in simp)+
  then show ?thesis by (simp add: strip_def)
qed

lemma rstrip_id: "s = [] \<or> last s \<noteq> c \<Longrightarrow> rstrip c s = s"
  unfolding rstrip_def by (cases s rule: rev_cases) auto

lemma rstrip_last: "rstrip c s \<noteq> [] \<Longrightarrow> last (rstrip c s) \<noteq> c"
  unfolding rstrip_def using hd_dropWhile [of "\<lambda>x. x = c" "rev s"] by (simp add: last_rev)

lemma lower_char_idem: "lower_char (lower_char c) = lower_char c"
proof -
  have "(of_char c :: nat) < 256" by (rule nat_of_char_less_256)
  then show ?thesis by (simp add: lower_char_def Let_def)
qed

lemma lower_idem [simp]: "lower (lower s) = lower s"
  by (simp add: lower_def lower_char_idem)

end
