(* ===== verification/Network_Policy.thy ===== *)
theory Network_Policy
  imports Strings Contracts
begin

text \<open>
  The outbound network policy (\<^verbatim>\<open>backend/proxy/network_policy.py\<close>): normalisation of blocked-domain
  patterns, their meaning, and the repository with its per-process cache. The slow path of Python's
  IDNA codec, for names outside ASCII, is the parameter \<open>puny\<close>; only that it returns ASCII, and lower case for a name
  that is in lower case, is ever assumed.
\<close>

section \<open>Patterns\<close>

text \<open>\<open>hostname.encode("idna").decode("ascii")\<close>: the ASCII path checks the label lengths.\<close>

definition idna_encode :: "(string \<Rightarrow> string option) \<Rightarrow> string \<Rightarrow> string option" where
  "idna_encode puny s =
     (if s = [] then Some []
      else if list_all is_ascii s then
        let labels = split_on CHR ''.'' s
        in if list_all (\<lambda>l. 0 < length l \<and> length l < 64) (butlast labels) \<and> length (last labels) < 64
           then Some s else None
      else puny s)"

definition label_ok :: "string \<Rightarrow> bool" where
  "label_ok l \<longleftrightarrow> l \<noteq> [] \<and> length l \<le> 63 \<and> hd l \<noteq> CHR ''-'' \<and> last l \<noteq> CHR ''-''
     \<and> list_all (\<lambda>c. is_alnum c \<or> c = CHR ''-'') l"

definition pattern_error :: db_error where
  "pattern_error = ValueError ''Blocked domain patterns must be hostnames or use one leading wildcard''"

definition normalize_domain_pattern :: "(string \<Rightarrow> string option) \<Rightarrow> string \<Rightarrow> string result" where
  "normalize_domain_pattern puny value =
     (let pattern = rstrip CHR ''.'' (lower (strip value));
          wildcard = startswith ''*.'' pattern;
          hostname = (if wildcard then drop 2 pattern else pattern)
      in if hostname = [] \<or> CHR ''*'' \<in> set hostname \<or> CHR ''/'' \<in> set hostname \<or> CHR '':'' \<in> set hostname
         then Inl pattern_error
         else case idna_encode puny hostname of
                None \<Rightarrow> Inl (ValueError ''Invalid blocked domain pattern'')
              | Some ascii \<Rightarrow>
                  if length ascii > 253 then Inl (ValueError ''Blocked domain pattern is too long'')
                  else if \<not> list_all label_ok (split_on CHR ''.'' ascii)
                  then Inl (ValueError ''Invalid blocked domain pattern'')
                  else Inr (if wildcard then ''*.'' @ ascii else ascii))"

fun normalize_each :: "(string \<Rightarrow> string option) \<Rightarrow> string list \<Rightarrow> string list result" where
  "normalize_each puny [] = Inr []"
| "normalize_each puny (v # vs) =
     (case normalize_domain_pattern puny v of
        Inl e \<Rightarrow> Inl e
      | Inr p \<Rightarrow> (case normalize_each puny vs of Inl e \<Rightarrow> Inl e | Inr ps \<Rightarrow> Inr (p # ps)))"

definition normalize_domain_patterns :: "(string \<Rightarrow> string option) \<Rightarrow> string list \<Rightarrow> string list result" where
  "normalize_domain_patterns puny values =
     (if length values > 1000 then Inl (ValueError ''At most 1000 blocked domain patterns are allowed'')
      else case normalize_each puny values of Inl e \<Rightarrow> Inl e | Inr ps \<Rightarrow> Inr (sort (remdups ps)))"

definition domain_matches_pattern :: "(string \<Rightarrow> string option) \<Rightarrow> string \<Rightarrow> string \<Rightarrow> bool option" where
  "domain_matches_pattern puny hostname pattern =
     (case idna_encode puny (rstrip CHR ''.'' hostname) of
        None \<Rightarrow> None
      | Some h \<Rightarrow>
          let normalized = lower h
          in Some (if startswith ''*.'' pattern then endswith (CHR ''.'' # drop 2 pattern) normalized
                   else normalized = pattern))"

definition blocked_url_patterns :: "string list \<Rightarrow> string list" where
  "blocked_url_patterns ps = map (\<lambda>p. ''*://'' @ p @ ''/*'') ps"

section \<open>Normal form\<close>

text \<open>A hostname in normal form: dot-separated labels of lower-case ASCII.\<close>

definition normal_host :: "string \<Rightarrow> bool" where
  "normal_host h \<longleftrightarrow> length h \<le> 253 \<and> list_all label_ok (split_on CHR ''.'' h) \<and> lower h = h"

definition normal_pattern :: "string \<Rightarrow> bool" where
  "normal_pattern p \<longleftrightarrow> normal_host p \<or> (\<exists>h. p = ''*.'' @ h \<and> normal_host h)"

text \<open>The one assumption on the codec's slow path. A label outside ASCII is folded to lower case, a label within ASCII is
  kept as it is, so a name with upper-case letters may keep them.\<close>

definition puny_ok :: "(string \<Rightarrow> string option) \<Rightarrow> bool" where
  "puny_ok puny \<longleftrightarrow> (\<forall>s t. puny s = Some t \<longrightarrow> list_all is_ascii t \<and> (lower s = s \<longrightarrow> lower t = t))"

lemma is_alnum_cases: "is_alnum c \<Longrightarrow> is_ascii c \<and> \<not> is_space c \<and> c \<noteq> CHR ''.'' \<and> c \<noteq> CHR ''*'' \<and> c \<noteq> CHR ''/'' \<and> c \<noteq> CHR '':''"
  by (auto simp: is_alnum_def is_ascii_def is_space_def Let_def)

lemma host_chars:
  assumes "list_all label_ok (split_on CHR ''.'' h)" "c \<in> set h"
  shows "is_alnum c \<or> c = CHR ''-'' \<or> c = CHR ''.''"
  using assms split_on_chars [of h "CHR ''.''"] by (auto simp: list_all_iff label_ok_def)

lemma host_facts:
  assumes "list_all label_ok (split_on CHR ''.'' h)"
  shows "h \<noteq> []" "last h \<noteq> CHR ''.''" "hd h \<noteq> CHR ''*''" "list_all is_ascii h" "\<forall>c \<in> set h. \<not> is_space c"
    "CHR ''*'' \<notin> set h" "CHR ''/'' \<notin> set h" "CHR '':'' \<notin> set h"
proof -
  show ne: "h \<noteq> []" using assms by (auto simp: label_ok_def)
  have c: "is_ascii c \<and> \<not> is_space c \<and> c \<noteq> CHR ''*'' \<and> c \<noteq> CHR ''/'' \<and> c \<noteq> CHR '':''" if "c \<in> set h" for c
    using host_chars [OF assms that] is_alnum_cases [of c] by (auto simp: is_ascii_def is_space_def)
  show "hd h \<noteq> CHR ''*''" using c hd_in_set [OF ne] by blast
  show "list_all is_ascii h" "\<forall>c \<in> set h. \<not> is_space c" "CHR ''*'' \<notin> set h" "CHR ''/'' \<notin> set h" "CHR '':'' \<notin> set h"
    using c by (auto simp: list_all_iff)
  show "last h \<noteq> CHR ''.''"
  proof
    assume lh: "last h = CHR ''.''"
    obtain g where "h = g @ [CHR ''.'']" using ne lh by (metis append_butlast_last_id)
    then have "split_on CHR ''.'' h = split_on CHR ''.'' g @ [[]]" using split_on_sep [of "CHR ''.''" g "[]"] by simp
    with assms show False by (simp add: label_ok_def)
  qed
qed

lemma label_ok_length: "label_ok l \<Longrightarrow> 0 < length l \<and> length l < 64"
  by (simp add: label_ok_def)

lemma idna_normal: "list_all label_ok (split_on CHR ''.'' h) \<Longrightarrow> idna_encode puny h = Some h"
proof -
  assume l: "list_all label_ok (split_on CHR ''.'' h)"
  then have len: "0 < length x \<and> length x < 64" if "x \<in> set (split_on CHR ''.'' h)" for x
    using that label_ok_length unfolding list_all_iff by blast
  have "length (last (split_on CHR ''.'' h)) < 64" by (rule len [THEN conjunct2]) simp
  moreover have "list_all (\<lambda>l. 0 < length l \<and> length l < 64) (butlast (split_on CHR ''.'' h))"
    using len in_set_butlastD by (fastforce simp: list_all_iff)
  ultimately show ?thesis using host_facts [OF l] by (simp add: idna_encode_def Let_def)
qed

lemma normalize_wildcard: "normal_host h \<Longrightarrow> normalize_domain_pattern puny (''*.'' @ h) = Inr (''*.'' @ h)"
proof -
  assume n: "normal_host h"
  then have l: "list_all label_ok (split_on CHR ''.'' h)" by (simp add: normal_host_def)
  note f = host_facts [OF l]
  have "strip (''*.'' @ h) = ''*.'' @ h" by (rule strip_id) (use f in \<open>auto simp: is_space_def\<close>)
  moreover have "lower (''*.'' @ h) = ''*.'' @ h" using n by (simp add: normal_host_def lower_def lower_char_def)
  moreover have "rstrip CHR ''.'' (''*.'' @ h) = ''*.'' @ h" by (rule rstrip_id) (use f in simp)
  ultimately show ?thesis using f n l idna_normal [OF l, of puny] by (simp add: normalize_domain_pattern_def normal_host_def Let_def)
qed

lemma normalize_host: "normal_host h \<Longrightarrow> normalize_domain_pattern puny h = Inr h"
proof -
  assume n: "normal_host h"
  then have l: "list_all label_ok (split_on CHR ''.'' h)" by (simp add: normal_host_def)
  note f = host_facts [OF l]
  have "strip h = h" by (rule strip_id) (use f in simp)
  moreover have "rstrip CHR ''.'' h = h" by (rule rstrip_id) (use f in simp)
  moreover have "\<not> startswith ''*.'' h" using f by (cases h) auto
  ultimately show ?thesis using f n l idna_normal [OF l, of puny] by (simp add: normalize_domain_pattern_def normal_host_def Let_def)
qed

lemma idna_lower: "puny_ok puny \<Longrightarrow> idna_encode puny s = Some t \<Longrightarrow> lower s = s \<Longrightarrow> lower t = t"
  by (auto simp: idna_encode_def puny_ok_def Let_def split: if_splits)

lemma lower_rstrip: "lower s = s \<Longrightarrow> lower (rstrip c s) = rstrip c s"
proof -
  assume "lower s = s"
  then have "\<forall>x \<in> set s. lower_char x = x" by (simp add: lower_def map_idI list_eq_iff_nth_eq set_conv_nth) (metis nth_map)
  then have "\<forall>x \<in> set (rstrip c s). lower_char x = x" by (auto simp: rstrip_def dest: set_dropWhileD)
  then show ?thesis by (simp add: lower_def map_idI)
qed

lemma lower_drop: "lower s = s \<Longrightarrow> lower (drop n s) = drop n s"
  by (metis drop_map lower_def)

lemma normalize_normal:
  assumes "puny_ok puny" "normalize_domain_pattern puny v = Inr p"
  shows "normal_pattern p"
proof -
  let ?pattern = "rstrip CHR ''.'' (lower (strip v))"
  let ?host = "if startswith ''*.'' ?pattern then drop 2 ?pattern else ?pattern"
  from assms(2) obtain a where a: "idna_encode puny ?host = Some a" "length a \<le> 253" "list_all label_ok (split_on CHR ''.'' a)"
    "p = (if startswith ''*.'' ?pattern then ''*.'' @ a else a)"
    by (auto simp: normalize_domain_pattern_def Let_def split: if_splits option.splits)
  have "lower ?pattern = ?pattern" by (rule lower_rstrip) simp
  then have "lower ?host = ?host" by (auto intro: lower_drop)
  then have "lower a = a" by (rule idna_lower [OF assms(1) a(1)])
  with a show ?thesis by (auto simp: normal_pattern_def normal_host_def)
qed

lemma normal_fixed: "normal_pattern p \<Longrightarrow> normalize_domain_pattern puny p = Inr p"
  unfolding normal_pattern_def using normalize_host normalize_wildcard by blast

lemma each_normal:
  "puny_ok puny \<Longrightarrow> normalize_each puny vs = Inr ps \<Longrightarrow> \<forall>p \<in> set ps. normal_pattern p"
  by (induction puny vs arbitrary: ps rule: normalize_each.induct) (auto split: sum.splits dest: normalize_normal)

lemma each_length: "normalize_each puny vs = Inr ps \<Longrightarrow> length ps = length vs"
  by (induction puny vs arbitrary: ps rule: normalize_each.induct) (auto split: sum.splits)

lemma each_fixed: "\<forall>p \<in> set ps. normal_pattern p \<Longrightarrow> normalize_each puny ps = Inr ps"
  by (induction ps) (auto simp: normal_fixed)

text \<open>C23: normalising a list of patterns returns a sorted list without repetitions of patterns in
  normal form, none of them new to the normaliser: normalising the result again changes nothing. Of the codec's slow path
  this needs only that its result is within ASCII, and in lower case when the name was.\<close>

theorem patterns_normal_form:
  assumes "puny_ok puny" "normalize_domain_patterns puny vs = Inr ps"
  shows "sorted ps \<and> distinct ps \<and> (\<forall>p \<in> set ps. normal_pattern p) \<and> length ps \<le> 1000
    \<and> normalize_domain_patterns puny ps = Inr ps"
proof -
  from assms(2) obtain qs where qs: "normalize_each puny vs = Inr qs" "ps = sort (remdups qs)" "length vs \<le> 1000"
    by (auto simp: normalize_domain_patterns_def split: if_splits sum.splits)
  have n: "\<forall>p \<in> set ps. normal_pattern p" using each_normal [OF assms(1) qs(1)] qs(2) by simp
  have len: "length ps \<le> 1000" using length_remdups_leq [of qs] each_length [OF qs(1)] qs(2,3) by simp
  have s: "sorted ps" "distinct ps" by (simp_all add: qs(2))
  then have "sort (remdups ps) = ps" by (simp add: distinct_remdups_id sorted_sort_id)
  then show ?thesis using n len s each_fixed [OF n, of puny] by (simp add: normalize_domain_patterns_def)
qed

definition umlaut_codec :: "string \<Rightarrow> string option" where
  "umlaut_codec s = (if s = CHR 0xFC # ''ber.de'' then Some ''xn--ber-goa.de''
     else if s = ''ABC.'' @ [CHR 0xFC] then Some ''ABC.xn--tda'' else None)"

theorem patterns_normal_form_witness:
  "normalize_domain_patterns umlaut_codec ['' Ads.Example.COM. '', ''*.tracker.io'', CHR 0xDC # ''ber.DE'']
     = Inr [''*.tracker.io'', ''ads.example.com'', ''xn--ber-goa.de'']
   \<and> normalize_domain_patterns umlaut_codec [''*.tracker.io'', ''ads.example.com'', ''xn--ber-goa.de'']
     = Inr [''*.tracker.io'', ''ads.example.com'', ''xn--ber-goa.de'']"
proof -
  have n: "normalize_domain_patterns umlaut_codec ['' Ads.Example.COM. '', ''*.tracker.io'', CHR 0xDC # ''ber.DE'']
     = Inr [''*.tracker.io'', ''ads.example.com'', ''xn--ber-goa.de'']"
    by code_simp
  have "list_all is_ascii ''xn--ber-goa.de'' \<and> lower ''xn--ber-goa.de'' = ''xn--ber-goa.de'' \<and> list_all is_ascii ''ABC.xn--tda''
      \<and> lower (''ABC.'' @ [CHR 0xFC]) \<noteq> ''ABC.'' @ [CHR 0xFC]" by code_simp
  then have "puny_ok umlaut_codec" by (auto simp: puny_ok_def umlaut_codec_def)
  from patterns_normal_form [OF this n] n show ?thesis by blast
qed

section \<open>Meaning\<close>

text \<open>The reference: names are lists of labels, a plain pattern means itself, a wildcard every name with at least one
  more label in front.\<close>

definition labels :: "string \<Rightarrow> string list" where
  "labels s = split_on CHR ''.'' s"

definition blocks :: "string \<Rightarrow> string \<Rightarrow> bool" where
  "blocks pattern host \<longleftrightarrow>
     (if startswith ''*.'' pattern
      then \<exists>front. front \<noteq> [] \<and> labels host = front @ labels (drop 2 pattern)
      else labels host = labels pattern)"

lemma labels_inj: "labels s = labels t \<longleftrightarrow> s = t"
  unfolding labels_def by (metis join_split)

lemma split_subdomain:
  "(\<exists>q. h = q @ CHR ''.'' # d) \<longleftrightarrow> (\<exists>front. front \<noteq> [] \<and> labels h = front @ labels d)"
proof
  assume "\<exists>q. h = q @ CHR ''.'' # d"
  then obtain q where "h = q @ CHR ''.'' # d" by blast
  then have "labels h = labels q @ labels d" by (simp add: labels_def split_on_sep)
  then show "\<exists>front. front \<noteq> [] \<and> labels h = front @ labels d" by (auto simp: labels_def)
next
  assume "\<exists>front. front \<noteq> [] \<and> labels h = front @ labels d"
  then obtain front where f: "front \<noteq> []" "labels h = front @ labels d" by blast
  have free: "\<forall>x \<in> set front. CHR ''.'' \<notin> set x" using f(2) split_on_parts [of _ "CHR ''.''" h] by (auto simp: labels_def)
  have "labels (join_on CHR ''.'' front @ CHR ''.'' # d) = front @ labels d"
    by (simp add: labels_def split_on_sep split_join [OF f(1) free])
  then show "\<exists>q. h = q @ CHR ''.'' # d" using f(2) labels_inj by metis
qed

text \<open>C24: suffix comparison decides exactly the label-wise meaning of a pattern: a wildcard blocks the
  proper subdomains of its name, never the name itself nor a name that merely ends in the same
  letters; a plain pattern blocks its own name, whatever the case or a trailing dot of the host.\<close>

theorem pattern_meaning:
  assumes "idna_encode puny (rstrip CHR ''.'' host) = Some h"
  shows "domain_matches_pattern puny host pattern = Some (blocks pattern (lower h))"
  using assms split_subdomain [of "lower h" "drop 2 pattern"] labels_inj [of "lower h" pattern]
  by (auto simp: domain_matches_pattern_def blocks_def Let_def endswith_append)

theorem pattern_meaning_witness:
  "domain_matches_pattern (\<lambda>_. None) ''CDN.Example.com.'' ''*.example.com'' = Some True
   \<and> domain_matches_pattern (\<lambda>_. None) ''badexample.com'' ''*.example.com'' = Some False
   \<and> blocks ''*.example.com'' ''cdn.example.com''"
proof -
  have m: "domain_matches_pattern (\<lambda>_. None) ''CDN.Example.com.'' ''*.example.com'' = Some True"
    "domain_matches_pattern (\<lambda>_. None) ''badexample.com'' ''*.example.com'' = Some False" by code_simp+
  have "idna_encode (\<lambda>_. None) (rstrip CHR ''.'' ''CDN.Example.com.'') = Some ''CDN.Example.com''" by code_simp
  from pattern_meaning [OF this, of "''*.example.com''"] m(1)
  have "blocks ''*.example.com'' (lower ''CDN.Example.com'')" by simp
  moreover have "lower ''CDN.Example.com'' = ''cdn.example.com''" by code_simp
  ultimately show ?thesis using m by simp
qed

end
