(* ===== verification/Network_Policy_Cache.thy ===== *)
theory Network_Policy_Cache
  imports Network_Policy
begin

text \<open>
  The network-policy repository of \<^verbatim>\<open>backend/proxy/network_policy.py\<close>: the row in the database, shared
  by all replicas, and the cache of one process. Other replicas may change the row at any time. The theorem bounds how old the policy
  a process works with can be.
\<close>

section \<open>Repository\<close>

record network_policy =
  np_patterns :: "string list"
  np_version :: int

record policy_cache =
  nc_cached :: "network_policy option"
  nc_expires_at :: time

record policy_world =
  nw_row :: "network_policy option"
  nw_cache :: policy_cache

definition default_policy :: network_policy where
  "default_policy = \<lparr>np_patterns = [], np_version = 1\<rparr>"

definition np_init :: policy_world where
  "np_init = \<lparr>nw_row = None, nw_cache = \<lparr>nc_cached = None, nc_expires_at = 0\<rparr>\<rparr>"

definition set_cache :: "time \<Rightarrow> network_policy \<Rightarrow> time \<Rightarrow> policy_world \<Rightarrow> policy_world" where
  "set_cache ttl v cached_at w = w\<lparr>nw_cache := \<lparr>nc_cached = Some v, nc_expires_at = cached_at + ttl\<rparr>\<rparr>"

text \<open>The value the process may use without asking the database.\<close>

definition fresh :: "time \<Rightarrow> policy_world \<Rightarrow> network_policy option" where
  "fresh now w = (case nc_cached (nw_cache w) of
       None \<Rightarrow> None
     | Some v \<Rightarrow> if now < nc_expires_at (nw_cache w) then Some v else None)"

definition np_ensure_defaults :: "time \<Rightarrow> time \<Rightarrow> policy_world \<Rightarrow> policy_world" where
  "np_ensure_defaults ttl stamp w =
     (let row = (case nw_row w of None \<Rightarrow> default_policy | Some r \<Rightarrow> r)
      in set_cache ttl row stamp (w\<lparr>nw_row := Some row\<rparr>))"

text \<open>\<open>settings\<close> reads the monotonic clock before and after it takes the cache lock.\<close>

definition np_settings :: "time \<Rightarrow> time \<Rightarrow> time \<Rightarrow> policy_world \<Rightarrow> policy_world \<times> network_policy" where
  "np_settings ttl now0 now w =
     (case fresh now0 w of
        Some v \<Rightarrow> (w, v)
      | None \<Rightarrow>
          (case fresh now w of
             Some v \<Rightarrow> (w, v)
           | None \<Rightarrow>
               let v = (case nw_row w of None \<Rightarrow> default_policy | Some r \<Rightarrow> r)
               in (set_cache ttl v now w, v)))"

definition np_update ::
  "(string \<Rightarrow> string option) \<Rightarrow> time \<Rightarrow> string list \<Rightarrow> time \<Rightarrow> policy_world \<Rightarrow> (policy_world \<times> network_policy) result" where
  "np_update puny ttl values stamp w =
     (case normalize_domain_patterns puny values of
        Inl e \<Rightarrow> Inl e
      | Inr ps \<Rightarrow>
          (case nw_row w of
             None \<Rightarrow> Inl (RuntimeError ''Network policy is not initialized'')
           | Some r \<Rightarrow>
               let v = \<lparr>np_patterns = ps, np_version = np_version r + 1\<rparr>
               in Inr (set_cache ttl v stamp (w\<lparr>nw_row := Some v\<rparr>), v)))"

section \<open>One process among others\<close>

text \<open>The history lists the row's values with the instants they were committed at, newest first. A step
  commits at \<open>now\<close>; the process stamps its own write at most \<open>lag\<close> later, and \<open>settings\<close>
  reads its clocks before the row.\<close>

datatype np_op =
    N_Ensure time
  | N_Settings time time
  | N_Update "string list" time
  | N_Foreign "string list"

record np_setup =
  ns_puny :: "string \<Rightarrow> string option"
  ns_ttl :: time
  ns_lag :: time

type_synonym np_state = "time \<times> (time \<times> network_policy) list \<times> policy_world"

definition current :: "policy_world \<Rightarrow> network_policy" where
  "current w = (case nw_row w of None \<Rightarrow> default_policy | Some r \<Rightarrow> r)"

definition foreign_update :: "string list \<Rightarrow> policy_world \<Rightarrow> policy_world" where
  "foreign_update ps w = w\<lparr>nw_row := Some \<lparr>np_patterns = ps, np_version = np_version (current w) + 1\<rparr>\<rparr>"

fun np_timely :: "np_setup \<Rightarrow> np_op \<Rightarrow> time \<Rightarrow> bool" where
  "np_timely su (N_Ensure stamp) now \<longleftrightarrow> stamp \<le> now + ns_lag su"
| "np_timely su (N_Settings now0 now1) now \<longleftrightarrow> now0 \<le> now1 \<and> now1 \<le> now"
| "np_timely su (N_Update vs stamp) now \<longleftrightarrow> stamp \<le> now + ns_lag su"
| "np_timely su (N_Foreign ps) now \<longleftrightarrow> True"

fun np_apply :: "np_setup \<Rightarrow> np_op \<Rightarrow> policy_world \<Rightarrow> policy_world" where
  "np_apply su (N_Ensure stamp) w = np_ensure_defaults (ns_ttl su) stamp w"
| "np_apply su (N_Settings now0 now1) w = fst (np_settings (ns_ttl su) now0 now1 w)"
| "np_apply su (N_Update vs stamp) w =
     (case np_update (ns_puny su) (ns_ttl su) vs stamp w of Inl _ \<Rightarrow> w | Inr (w', _) \<Rightarrow> w')"
| "np_apply su (N_Foreign ps) w = foreign_update ps w"

inductive np_step :: "np_setup \<Rightarrow> np_state \<Rightarrow> np_op \<times> time \<Rightarrow> np_state \<Rightarrow> bool" for su where
  np_commit: "clock \<le> now \<Longrightarrow> np_timely su op now \<Longrightarrow>
    np_step su (clock, h, w) (op, now) (now, (now, current (np_apply su op w)) # h, np_apply su op w)"

inductive_cases np_stepE: "np_step su s l t"

fun stored :: "(time \<times> network_policy) list \<Rightarrow> time \<Rightarrow> network_policy \<Rightarrow> time \<Rightarrow> bool" where
  "stored [] limit v t \<longleftrightarrow> v = default_policy \<and> t \<le> limit"
| "stored ((since, p) # h) limit v t \<longleftrightarrow> v = p \<and> since \<le> t \<and> t \<le> limit \<or> stored h since v t"

fun np_start :: "np_state \<Rightarrow> bool" where
  "np_start (clock, h, w) \<longleftrightarrow> h = [] \<and> w = np_init"

text \<open>What the process caches was the stored policy at most its lifetime plus the lag before it expires.\<close>

fun np_inv :: "np_setup \<Rightarrow> np_state \<Rightarrow> bool" where
  "np_inv su (clock, h, w) \<longleftrightarrow>
     (h = [] \<and> current w = default_policy \<or> (\<exists>t h'. h = (t, current w) # h' \<and> t \<le> clock))
     \<and> (\<forall>v. nc_cached (nw_cache w) = Some v \<longrightarrow>
          (\<exists>t. stored h clock v t \<and> t \<le> clock \<and> nc_expires_at (nw_cache w) \<le> t + ns_ttl su + ns_lag su))"

lemma stored_later: "stored h limit v t \<Longrightarrow> limit \<le> limit' \<Longrightarrow> stored h limit' v t"
  by (cases h) auto

lemma stored_now: "stored ((now, v) # h) now v now"
  by simp

lemma cached_after:
  assumes t: "np_timely su op now"
  shows "nw_cache (np_apply su op w) = nw_cache w
    \<or> nc_cached (nw_cache (np_apply su op w)) = Some (current (np_apply su op w))
      \<and> nc_expires_at (nw_cache (np_apply su op w)) \<le> now + ns_ttl su + max 0 (ns_lag su)"
  using t
  by (cases op) (auto simp: np_ensure_defaults_def np_settings_def np_update_def foreign_update_def set_cache_def
      current_def Let_def split: option.splits sum.splits)

interpretation policy_cache: invariant_system np_start "np_step su" "\<lambda>s. 0 \<le> ns_lag su \<longrightarrow> np_inv su s" for su
proof unfold_locales
  show "0 \<le> ns_lag su \<longrightarrow> np_inv su s" if "np_start s" for s
    using that by (cases s) (auto simp: np_init_def current_def)
  show "0 \<le> ns_lag su \<longrightarrow> np_inv su t" if inv: "0 \<le> ns_lag su \<longrightarrow> np_inv su s" and st: "np_step su s l t" for s l t
  proof
    assume lag: "0 \<le> ns_lag su"
    from st obtain clock h w op now where s: "s = (clock, h, w)" and le: "clock \<le> now" and ti: "np_timely su op now"
      and t: "t = (now, (now, current (np_apply su op w)) # h, np_apply su op w)" by (auto elim!: np_stepE)
    let ?w = "np_apply su op w"
    have "\<exists>u. stored ((now, current ?w) # h) now v u \<and> u \<le> now \<and> nc_expires_at (nw_cache ?w) \<le> u + ns_ttl su + ns_lag su"
      if v: "nc_cached (nw_cache ?w) = Some v" for v
      using cached_after [OF ti, of w]
    proof
      assume "nw_cache ?w = nw_cache w"
      with inv lag v obtain u where "stored h clock v u" "u \<le> clock" "nc_expires_at (nw_cache ?w) \<le> u + ns_ttl su + ns_lag su"
        by (auto simp: s)
      then show ?thesis using le stored_later [of h clock v u now] by (intro exI [of _ u]) auto
    next
      assume "nc_cached (nw_cache ?w) = Some (current ?w)
        \<and> nc_expires_at (nw_cache ?w) \<le> now + ns_ttl su + max 0 (ns_lag su)"
      then show ?thesis using v lag by (intro exI [of _ now]) auto
    qed
    then show "np_inv su t" by (auto simp: t)
  qed
qed

text \<open>C25: however the policy is changed by this and other replicas, the policy \<open>settings\<close> hands out was the
  stored one at some instant no longer ago than the cache lifetime plus the delay between a commit and
  its time stamp.\<close>

theorem bounded_staleness:
  assumes "reach np_start (np_step su) (clock, h, w)" "0 \<le> ns_lag su" "0 < ns_ttl su" "clock \<le> now"
    "np_timely su (N_Settings now0 now1) now"
  shows "\<exists>t. stored h now (snd (np_settings (ns_ttl su) now0 now1 w)) t \<and> t \<le> now \<and> now0 < t + ns_ttl su + ns_lag su"
proof -
  have inv: "np_inv su (clock, h, w)" using policy_cache.reach_inv [OF assms(1)] assms(2) by blast
  have le: "now0 \<le> now1" "now1 \<le> now" using assms(5) by simp_all
  have hit: ?thesis if f: "fresh k w = Some (snd (np_settings (ns_ttl su) now0 now1 w))" "now0 \<le> k" for k
  proof -
    let ?v = "snd (np_settings (ns_ttl su) now0 now1 w)"
    from f have "nc_cached (nw_cache w) = Some ?v" "k < nc_expires_at (nw_cache w)" by (auto simp: fresh_def split: option.splits if_splits)
    with inv obtain t where "stored h clock ?v t" "t \<le> clock" "nc_expires_at (nw_cache w) \<le> t + ns_ttl su + ns_lag su" by auto
    with \<open>k < nc_expires_at (nw_cache w)\<close> f(2) assms(4) stored_later [of h clock ?v t now] show ?thesis
      by (intro exI [of _ t]) auto
  qed
  show ?thesis
  proof (cases "fresh now0 w = None \<and> fresh now1 w = None")
    case True
    then have "snd (np_settings (ns_ttl su) now0 now1 w) = current w" by (simp add: np_settings_def current_def Let_def)
    moreover have "stored h now (current w) now" using inv assms(4) by auto
    ultimately show ?thesis using le assms(2,3) by (intro exI [of _ now]) auto
  next
    case False
    then show ?thesis using hit [of now0] hit [of now1] le by (auto simp: np_settings_def split: option.splits)
  qed
qed

theorem bounded_staleness_witness:
  "\<exists>t. stored [(5, \<lparr>np_patterns = [''ads.io''], np_version = 2\<rparr>), (0, default_policy)] 50
      (snd (np_settings 60 50 50 (foreign_update [''ads.io''] (np_ensure_defaults 60 1 np_init)))) t \<and> t \<le> 50 \<and> 50 < t + 60 + 1"
proof -
  let ?su = "\<lparr>ns_puny = (\<lambda>_. None), ns_ttl = 60, ns_lag = 1\<rparr>"
  let ?w1 = "np_ensure_defaults 60 1 np_init" and ?w2 = "foreign_update [''ads.io''] (np_ensure_defaults 60 1 np_init)"
  let ?n = "\<lparr>np_patterns = [''ads.io''], np_version = 2\<rparr>"
  have c: "current ?w1 = default_policy" "current ?w2 = ?n" by code_simp+
  have r0: "reach np_start (np_step ?su) (0, [], np_init)" by (rule reach_init) simp
  have s1: "np_step ?su (0, [], np_init) (N_Ensure 1, 0) (0, [(0, default_policy)], ?w1)"
    using np_commit [of 0 0 ?su "N_Ensure 1" "[]" np_init] c(1) by simp
  have r1: "reach np_start (np_step ?su) (0, [(0, default_policy)], ?w1)" by (rule reach_step, rule r0, rule s1)
  have s2: "np_step ?su (0, [(0, default_policy)], ?w1) (N_Foreign [''ads.io''], 5) (5, [(5, ?n), (0, default_policy)], ?w2)"
    using np_commit [of 0 5 ?su "N_Foreign [''ads.io'']" "[(0, default_policy)]" ?w1] c(2) by simp
  have r2: "reach np_start (np_step ?su) (5, [(5, ?n), (0, default_policy)], ?w2)" by (rule reach_step, rule r1, rule s2)
  from bounded_staleness [OF r2, of 50 50 50] show ?thesis by (simp del: stored.simps)
qed

end
