(* ===== verification/Domain_Blocking.thy ===== *)
theory Domain_Blocking
  imports Network_Policy
begin

text \<open>
  The domain-blocking proxy (\<^verbatim>\<open>backend/proxy/transport/domain_blocking.py\<close>): between a client and a
  browser it installs the URL blocklist in every new page target before the client hears of the
  target. The asyncio tasks (the upstream pump, one configuration task per target, the client's
  sends) interleave at their awaits; \<open>blocker_event\<close> lists what can happen between two awaits. A wire
  message is its decoded JSON value, or text that is not JSON.
\<close>

section \<open>Messages\<close>

datatype wire = Text string | Json json

type_synonym command_key = "string option \<times> int"

definition is_object :: "json \<Rightarrow> bool" where
  "is_object v = (case v of JObj _ \<Rightarrow> True | _ \<Rightarrow> False)"

definition value_command_key :: "json \<Rightarrow> command_key option" where
  "value_command_key v = map_option (\<lambda>i. (jstr (jget v ''sessionId''), i)) (jint (jget v ''id''))"

definition blockable_target_types :: "string list" where
  "blockable_target_types = [''background_page'', ''iframe'', ''page'', ''service_worker'', ''shared_worker'', ''webview'', ''worker'']"

definition attached_page_session :: "json \<Rightarrow> string option" where
  "attached_page_session v =
     (if jget v ''method'' \<noteq> Some (JStr ''Target.attachedToTarget'') then None
      else case jobj (jget v ''params'') of
        None \<Rightarrow> None
      | Some params \<Rightarrow>
          (case (jobj (jget params ''targetInfo''), jstr (jget params ''sessionId'')) of
             (Some target, Some s) \<Rightarrow>
               (case jstr (jget target ''type'') of
                  Some t \<Rightarrow> if t \<in> set blockable_target_types then Some s else None
                | None \<Rightarrow> None)
           | _ \<Rightarrow> None))"

text \<open>Looking up a list or an object in the set of types raises.\<close>

definition attach_raises :: "json \<Rightarrow> bool" where
  "attach_raises v \<longleftrightarrow> jget v ''method'' = Some (JStr ''Target.attachedToTarget'')
     \<and> (case jobj (jget v ''params'') of
          None \<Rightarrow> False
        | Some params \<Rightarrow>
            (case jobj (jget params ''targetInfo'') of
               None \<Rightarrow> False
             | Some target \<Rightarrow> (case jget target ''type'' of Some (JArr _) \<Rightarrow> True | Some (JObj _) \<Rightarrow> True | _ \<Rightarrow> False)))"

text \<open>The first container (\<open>params\<close>, then \<open>result\<close>) that names a session or a target decides;
  a named target whose session is unknown gives \<open>None\<close>.\<close>

definition container_target :: "(string \<times> string) list \<Rightarrow> json \<Rightarrow> string option option" where
  "container_target sessions c =
     (case jstr (jget c ''sessionId'') of
        Some s \<Rightarrow> Some (Some s)
      | None \<Rightarrow>
          (case (case jobj (jget c ''targetInfo'') of None \<Rightarrow> None | Some t \<Rightarrow> jstr (jget t ''targetId'')) of
             Some t \<Rightarrow> Some (map_of sessions t)
           | None \<Rightarrow>
               (case jstr (jget c ''targetId'') of
                  Some t \<Rightarrow> Some (map_of sessions t)
                | None \<Rightarrow> None)))"

definition message_target_session :: "(string \<times> string) list \<Rightarrow> json \<Rightarrow> string option" where
  "message_target_session sessions v =
     (case jstr (jget v ''sessionId'') of
        Some s \<Rightarrow> Some s
      | None \<Rightarrow>
          (case (case jobj (jget v ''params'') of None \<Rightarrow> None | Some c \<Rightarrow> container_target sessions c) of
             Some r \<Rightarrow> r
           | None \<Rightarrow>
               (case (case jobj (jget v ''result'') of None \<Rightarrow> None | Some c \<Rightarrow> container_target sessions c) of
                  Some r \<Rightarrow> r
                | None \<Rightarrow> None)))"

section \<open>State\<close>

text \<open>A queued message carries, for the record, the target it was routed for.\<close>

datatype item = I_Message "string option" wire | I_Closed | I_Error

datatype pump = P_Idle | P_Running | P_Attaching string wire | P_Stopped

text \<open>A configuration task: not started, handing its command to the browser, waiting for the answer.\<close>

datatype config_task = T_Created | T_Sending int | T_Waiting int

record blocker =
  bl_urls :: "string list"
  bl_next_id :: int
  bl_downstream :: "command_key list"
  bl_responses :: "(command_key \<times> json option) list"
  bl_queue :: "item list"
  bl_pump :: pump
  bl_tasks :: "(string \<times> config_task) list"
  bl_unconfigured :: "string list"
  bl_buffers :: "(string \<times> wire list) list"
  bl_target_sessions :: "(string \<times> string) list"
  bl_failed :: bool
  bl_failing :: bool
  bl_closed :: bool
  bl_terminal :: bool
  bl_waiting :: "wire list"
  bl_upstream_closed :: bool
  \<comment> \<open>what the outside has seen: commands handed to the browser, values received from it, messages routed,
      items the client has taken\<close>
  bl_sent :: "json list"
  bl_received :: "json list"
  bl_routed :: "(string option \<times> wire) list"
  bl_delivered :: "item list"

definition new_blocker :: "string list \<Rightarrow> blocker" where
  "new_blocker domain_patterns =
     \<lparr>bl_urls = blocked_url_patterns domain_patterns, bl_next_id = -1, bl_downstream = [], bl_responses = [],
      bl_queue = [], bl_pump = P_Idle, bl_tasks = [], bl_unconfigured = [], bl_buffers = [], bl_target_sessions = [],
      bl_failed = False, bl_failing = False, bl_closed = False, bl_terminal = False, bl_waiting = [], bl_upstream_closed = False,
      bl_sent = [], bl_received = [], bl_routed = [], bl_delivered = []\<rparr>"

definition enqueue_terminal :: "item \<Rightarrow> blocker \<Rightarrow> blocker" where
  "enqueue_terminal x b = (if bl_terminal b then b else b\<lparr>bl_terminal := True, bl_queue := bl_queue b @ [x]\<rparr>)"

section \<open>Failing closed\<close>

text \<open>\<open>_fail_closed\<close> up to the point where it waits for the cancelled tasks; \<open>current\<close> is the
  configuration task that runs it, if one does.\<close>

definition fail_closed :: "string option \<Rightarrow> blocker \<Rightarrow> blocker" where
  "fail_closed running b =
     (if bl_failed b \<or> bl_closed b then b
      else b\<lparr>bl_failed := True, bl_failing := True, bl_closed := True, bl_pump := P_Stopped,
             bl_tasks := filter (\<lambda>(s, _). Some s = running) (bl_tasks b),
             bl_responses := filter (\<lambda>((s, _), _). s = running \<and> s \<noteq> None) (bl_responses b)\<rparr>)"

text \<open>The rest: nothing that was held back is shown, what the client has not taken yet is dropped.\<close>

definition fail_finish :: "blocker \<Rightarrow> blocker" where
  "fail_finish b =
     enqueue_terminal I_Error
       (b\<lparr>bl_failing := False, bl_tasks := [], bl_responses := [], bl_buffers := [], bl_unconfigured := [], bl_queue := [],
          bl_upstream_closed := True\<rparr>)"

section \<open>The upstream pump\<close>

definition set_key :: "'k \<Rightarrow> 'v \<Rightarrow> ('k \<times> 'v) list \<Rightarrow> ('k \<times> 'v) list" where
  "set_key k v xs = (k, v) # filter (\<lambda>(k', _). k' \<noteq> k) xs"

definition begin_target_configuration :: "string \<Rightarrow> json \<Rightarrow> blocker \<Rightarrow> blocker" where
  "begin_target_configuration s v b =
     (if s \<in> fst ` set (bl_tasks b) then b
      else
        let target = (case jobj (jget v ''params'') of None \<Rightarrow> None | Some p \<Rightarrow> jobj (jget p ''targetInfo''));
            target_id = (case target of None \<Rightarrow> None | Some t \<Rightarrow> jstr (jget t ''targetId''))
        in b\<lparr>bl_target_sessions := (case target_id of None \<Rightarrow> bl_target_sessions b
                                    | Some t \<Rightarrow> set_key t s (bl_target_sessions b)),
             bl_unconfigured := List.insert s (bl_unconfigured b),
             bl_buffers := set_key s [] (bl_buffers b),
             bl_tasks := set_key s T_Created (bl_tasks b)\<rparr>)"

text \<open>The end of \<open>_route_upstream_message\<close>: hold the message back or pass it on.\<close>

definition route_to :: "string option \<Rightarrow> wire \<Rightarrow> blocker \<Rightarrow> blocker" where
  "route_to target m b =
     (let b1 = b\<lparr>bl_routed := bl_routed b @ [(target, m)]\<rparr>
      in case target of
           Some s \<Rightarrow>
             if s \<in> set (bl_unconfigured b)
             then b1\<lparr>bl_buffers := set_key s ((case map_of (bl_buffers b) s of None \<Rightarrow> [] | Some q \<Rightarrow> q) @ [m]) (bl_buffers b)\<rparr>
             else b1\<lparr>bl_queue := bl_queue b @ [I_Message target m]\<rparr>
         | None \<Rightarrow> b1\<lparr>bl_queue := bl_queue b @ [I_Message target m]\<rparr>)"

text \<open>The end of the pump: an error of the stream, or its end.\<close>

definition pump_ends :: "item \<Rightarrow> blocker \<Rightarrow> blocker" where
  "pump_ends x b =
     (if bl_unconfigured b \<noteq> [] then fail_closed None b
      else (enqueue_terminal x b)\<lparr>bl_pump := P_Stopped\<rparr>)"

text \<open>The answer to one of the proxy's own commands, if the value is one, with the state of its future.\<close>

definition own_answer :: "json \<Rightarrow> blocker \<Rightarrow> (command_key \<times> json option) option" where
  "own_answer v b =
     (case value_command_key v of None \<Rightarrow> None | Some k \<Rightarrow> map_option (Pair k) (map_of (bl_responses b) k))"

definition note_received :: "json \<Rightarrow> blocker \<Rightarrow> blocker" where
  "note_received v b =
     (let b0 = b\<lparr>bl_received := bl_received b @ [v]\<rparr>
      in case own_answer v b of
           Some (k, None) \<Rightarrow> b0\<lparr>bl_responses := set_key k (Some v) (bl_responses b)\<rparr>
         | Some (k, Some _) \<Rightarrow> b0
         | None \<Rightarrow> (case value_command_key v of
             None \<Rightarrow> b0 | Some k \<Rightarrow> b0\<lparr>bl_downstream := removeAll k (bl_downstream b)\<rparr>))"

definition route_upstream_message :: "wire \<Rightarrow> blocker \<Rightarrow> blocker" where
  "route_upstream_message m b =
     (case m of
        Text t \<Rightarrow> route_to None m b
      | Json v \<Rightarrow>
          if \<not> is_object v then pump_ends I_Error b
          else
            let b1 = note_received v b
            in if own_answer v b \<noteq> None then b1
               else if attach_raises v then pump_ends I_Error b1
               else case attached_page_session v of
                      Some s \<Rightarrow> (begin_target_configuration s v b1)\<lparr>bl_pump := P_Attaching s m\<rparr>
                    | None \<Rightarrow> route_to (message_target_session (bl_target_sessions b1) v) m b1)"

section \<open>Configuration tasks\<close>

definition used_below :: "command_key list \<Rightarrow> int \<Rightarrow> command_key set" where
  "used_below used i = {k \<in> set used. snd k \<le> i}"

text \<open>The loop that looks for an unused command identifier, going down from the last one.\<close>

function free_id :: "command_key list \<Rightarrow> string \<Rightarrow> int \<Rightarrow> int" where
  "free_id used s i = (if (Some s, i) \<in> set used then free_id used s (i - 1) else i)"
  by auto

termination
proof (relation "measure (\<lambda>(used, s, i). card (used_below used i))", simp)
  fix used :: "command_key list" and s i
  assume "(Some s, i) \<in> set used"
  then have "(Some s, i) \<in> used_below used i" "(Some s, i) \<notin> used_below used (i - 1)"
    "used_below used (i - 1) \<subseteq> used_below used i" by (auto simp: used_below_def)
  then have "used_below used (i - 1) \<subset> used_below used i" by blast
  moreover have "finite (used_below used i)" by (simp add: used_below_def)
  ultimately show "((used, s, i - 1), used, s, i) \<in> measure (\<lambda>(used, s, i). card (used_below used i))"
    by (simp add: psubset_card_mono)
qed

declare free_id.simps [simp del]

definition block_command :: "string list \<Rightarrow> string \<Rightarrow> int \<Rightarrow> json" where
  "block_command urls s i =
     JObj [(''id'', JInt i), (''method'', JStr ''Network.setBlockedURLs''),
           (''params'', JObj [(''urls'', JArr (map JStr urls))]), (''sessionId'', JStr s)]"

definition start_configuration :: "string \<Rightarrow> blocker \<Rightarrow> blocker" where
  "start_configuration s b =
     (let i = free_id (bl_downstream b @ map fst (bl_responses b)) s (bl_next_id b)
      in b\<lparr>bl_next_id := i - 1, bl_responses := set_key (Some s, i) None (bl_responses b),
           bl_tasks := set_key s (T_Sending i) (bl_tasks b),
           bl_sent := bl_sent b @ [block_command (bl_urls b) s i]\<rparr>)"

definition end_task :: "string \<Rightarrow> int \<Rightarrow> blocker \<Rightarrow> blocker" where
  "end_task s i b = b\<lparr>bl_responses := filter (\<lambda>(k, _). k \<noteq> (Some s, i)) (bl_responses b),
     bl_tasks := filter (\<lambda>(s', _). s' \<noteq> s) (bl_tasks b)\<rparr>"

definition secure_target :: "string \<Rightarrow> blocker \<Rightarrow> blocker" where
  "secure_target s b =
     b\<lparr>bl_buffers := filter (\<lambda>(s', _). s' \<noteq> s) (bl_buffers b),
       bl_unconfigured := removeAll s (bl_unconfigured b),
       bl_queue := bl_queue b @ map (I_Message (Some s)) (case map_of (bl_buffers b) s of None \<Rightarrow> [] | Some q \<Rightarrow> q)\<rparr>"

section \<open>Events\<close>

datatype blocker_event =
    E_Listen
  | E_Upstream wire
  | E_Resume
  | E_Upstream_Ends
  | E_Upstream_Raises
  | E_Configure string
  | E_Command_Sent string
  | E_Command_Failed string
  | E_Answered string
  | E_Timeout string
  | E_Fail_Finish
  | E_Send wire
  | E_Send_Go wire
  | E_Send_Lost command_key
  | E_Take
  | E_Close bool

definition send_key :: "wire \<Rightarrow> command_key option" where
  "send_key m = (case m of Text _ \<Rightarrow> None | Json v \<Rightarrow> value_command_key v)"

text \<open>\<open>attached_session or self._message_target_session_id(value)\<close>: the empty string is false.\<close>

definition attached_or_target :: "string \<Rightarrow> wire \<Rightarrow> blocker \<Rightarrow> string option" where
  "attached_or_target s m b =
     (if s \<noteq> [] then Some s
      else case m of Text _ \<Rightarrow> None | Json v \<Rightarrow> message_target_session (bl_target_sessions b) v)"

text \<open>One event; \<open>None\<close> when it cannot happen in this state. A send that raises (after a failure, or on JSON
  that is not an object) changes nothing. The commands of the client itself are not recorded in \<open>bl_sent\<close>.\<close>

fun blocker_step :: "blocker_event \<Rightarrow> blocker \<Rightarrow> blocker option" where
  "blocker_step E_Listen b = (if bl_pump b = P_Idle \<and> \<not> bl_closed b then Some (b\<lparr>bl_pump := P_Running\<rparr>) else None)"
| "blocker_step (E_Upstream m) b = (if bl_pump b = P_Running then Some (route_upstream_message m b) else None)"
| "blocker_step E_Resume b =
     (case bl_pump b of
        P_Attaching s m \<Rightarrow> Some (route_to (attached_or_target s m b) m (b\<lparr>bl_pump := P_Running\<rparr>))
      | _ \<Rightarrow> None)"
| "blocker_step E_Upstream_Ends b = (if bl_pump b = P_Running then Some (pump_ends I_Closed b) else None)"
| "blocker_step E_Upstream_Raises b = (if bl_pump b = P_Running then Some (pump_ends I_Error b) else None)"
| "blocker_step (E_Configure s) b =
     (if map_of (bl_tasks b) s = Some T_Created \<and> \<not> bl_closed b then Some (start_configuration s b) else None)"
| "blocker_step (E_Command_Sent s) b =
     (case map_of (bl_tasks b) s of
        Some (T_Sending i) \<Rightarrow> if bl_closed b then None else Some (b\<lparr>bl_tasks := set_key s (T_Waiting i) (bl_tasks b)\<rparr>)
      | _ \<Rightarrow> None)"
| "blocker_step (E_Command_Failed s) b =
     (case map_of (bl_tasks b) s of
        Some (T_Sending i) \<Rightarrow> if bl_closed b then None else Some (fail_closed (Some s) b)
      | _ \<Rightarrow> None)"
| "blocker_step (E_Answered s) b =
     (case map_of (bl_tasks b) s of
        Some (T_Waiting i) \<Rightarrow>
          if bl_closed b then None
          else (case map_of (bl_responses b) (Some s, i) of
                  Some (Some v) \<Rightarrow>
                    Some (if jget v ''error'' \<noteq> None then fail_closed (Some s) b
                          else end_task s i (secure_target s b))
                | _ \<Rightarrow> None)
      | _ \<Rightarrow> None)"
| "blocker_step (E_Timeout s) b =
     (case map_of (bl_tasks b) s of
        Some (T_Waiting i) \<Rightarrow> if bl_closed b then None else Some (fail_closed (Some s) b)
      | _ \<Rightarrow> None)"
| "blocker_step E_Fail_Finish b = (if bl_failing b then Some (fail_finish b) else None)"
| "blocker_step (E_Send m) b =
     (if bl_failed b \<or> (case m of Json v \<Rightarrow> \<not> is_object v | Text _ \<Rightarrow> False) then Some b
      else Some (b\<lparr>bl_waiting := m # bl_waiting b\<rparr>))"
| "blocker_step (E_Send_Go m) b =
     (if m \<in> set (bl_waiting b) \<and> (case send_key m of None \<Rightarrow> True | Some k \<Rightarrow> map_of (bl_responses b) k = None)
      then Some (b\<lparr>bl_waiting := remove1 m (bl_waiting b),
                   bl_downstream := (case send_key m of None \<Rightarrow> bl_downstream b | Some k \<Rightarrow> List.insert k (bl_downstream b))\<rparr>)
      else None)"
| "blocker_step (E_Send_Lost k) b = Some (b\<lparr>bl_downstream := removeAll k (bl_downstream b)\<rparr>)"
| "blocker_step E_Take b =
     (case bl_queue b of
        [] \<Rightarrow> None
      | x # q \<Rightarrow> Some (b\<lparr>bl_queue := q, bl_delivered := bl_delivered b @ [x]\<rparr>))"
| "blocker_step (E_Close clean) b =
     (if bl_closed b then Some b
      else let b1 = b\<lparr>bl_closed := True, bl_pump := P_Stopped, bl_tasks := [], bl_responses := [], bl_upstream_closed := True\<rparr>
           in Some (if clean then enqueue_terminal I_Closed b1 else b1))"

inductive blocker_trans :: "blocker \<Rightarrow> blocker_event \<Rightarrow> blocker \<Rightarrow> bool" where
  blocker_event: "blocker_step e b = Some b' \<Longrightarrow> blocker_trans b e b'"

inductive_cases blocker_transE: "blocker_trans b e b'"

definition blocker_init :: "string list \<Rightarrow> blocker \<Rightarrow> bool" where
  "blocker_init patterns b \<longleftrightarrow> b = new_blocker patterns"

end
