(* ===== verification/Domain_Blocking_Proofs.thy ===== *)
theory Domain_Blocking_Proofs
  imports Domain_Blocking
begin

text \<open>
  Invariants of the domain-blocking proxy and what they give: no page target is shown before the browser
  has accepted the blocklist for it, messages of one target keep their order, failures close the
  connection, and the proxy's own commands are never confused with the client's.
\<close>

section \<open>Association lists\<close>

lemma map_of_filter_key: "map_of (filter (\<lambda>(k', _). P k') xs) k = (if P k then map_of xs k else None)"
  by (induction xs) auto

lemma map_of_drop: "map_of (filter (\<lambda>(k', _). k' \<noteq> k) xs) = (map_of xs)(k := None)"
  by (induction xs) (auto simp: fun_eq_iff)

lemma map_of_set_key [simp]: "map_of (set_key k v xs) = (map_of xs)(k \<mapsto> v)"
  by (simp add: set_key_def map_of_drop)

lemma fst_set_key [simp]: "fst ` set (set_key k v xs) = insert k (fst ` set xs)"
  by (force simp: set_key_def)

lemma fst_drop [simp]: "fst ` {x \<in> set xs. case x of (k', _) \<Rightarrow> k' \<noteq> k} = fst ` set xs - {k}"
  by force

lemma in_set_key: "x \<in> set (set_key k v xs) \<Longrightarrow> x = (k, v) \<or> x \<in> set xs \<and> fst x \<noteq> k"
  by (auto simp: set_key_def)

lemma map_of_None_fst: "map_of xs k = None \<longleftrightarrow> k \<notin> fst ` set xs"
  by (simp add: map_of_eq_None_iff)

lemma map_of_Some_fst: "map_of xs k = Some v \<Longrightarrow> k \<in> fst ` set xs"
  by (force dest: map_of_SomeD)

section \<open>Identifiers\<close>

lemma free_id_fresh: "(Some s, free_id used s i) \<notin> set used \<and> free_id used s i \<le> i
    \<and> (\<forall>j. free_id used s i < j \<longrightarrow> j \<le> i \<longrightarrow> (Some s, j) \<in> set used)"
proof (induction used s i rule: free_id.induct)
  case (1 used s i)
  show ?case
  proof (cases "(Some s, i) \<in> set used")
    case True
    then have f: "free_id used s i = free_id used s (i - 1)" by (subst free_id.simps) simp
    show ?thesis unfolding f using 1 [OF True] True by (metis dual_order.trans le_less linorder_not_le zle_diff1_eq diff_le_eq le_add_same_cancel1 zero_le_one)
  next
    case False
    then have "free_id used s i = i" by (subst free_id.simps) simp
    with False show ?thesis by simp
  qed
qed

text \<open>the search for a command identifier ends, at an identifier neither the client nor the proxy is using for
  the session, and none above the last one.\<close>

theorem free_id_unused: "(Some s, free_id used s i) \<notin> set used \<and> free_id used s i \<le> i
    \<and> (\<forall>j. free_id used s i < j \<longrightarrow> j \<le> i \<longrightarrow> (Some s, j) \<in> set used)"
  by (rule free_id_fresh)

theorem free_id_unused_witness:
  "free_id [(Some ''s'', -1), (None, -2), (Some ''s'', -2)] ''s'' (-1) = -3
   \<and> (Some ''s'', -3) \<notin> set [(Some ''s'', -1), (None, -2), (Some ''s'', -2 :: int)]"
proof -
  have f: "free_id [(Some ''s'', -1), (None, -2), (Some ''s'', -2)] ''s'' (-1) = -3" by code_simp
  with free_id_unused [of "''s''" "[(Some ''s'', -1), (None, -2), (Some ''s'', -2)]" "-1"] show ?thesis by simp
qed

section \<open>The structural invariant\<close>

definition blk_ok :: "blocker \<Rightarrow> bool" where
  "blk_ok b \<longleftrightarrow>
     (bl_closed b \<longrightarrow> bl_pump b = P_Stopped)
     \<and> (bl_failed b \<longrightarrow> bl_closed b) \<and> (bl_failing b \<longrightarrow> bl_failed b)
     \<and> (\<not> bl_closed b \<longrightarrow> fst ` set (bl_tasks b) = set (bl_unconfigured b) \<and> fst ` set (bl_buffers b) = set (bl_unconfigured b))
     \<and> (bl_terminal b \<and> \<not> bl_closed b \<longrightarrow> bl_pump b = P_Stopped \<and> bl_unconfigured b = [])
     \<and> (bl_failing b \<longrightarrow> \<not> bl_terminal b)"

lemmas event_defs = route_upstream_message_def route_to_def pump_ends_def begin_target_configuration_def
  start_configuration_def end_task_def secure_target_def fail_closed_def fail_finish_def enqueue_terminal_def

lemma blk_ok_init: "blk_ok (new_blocker ps)"
  by (simp add: blk_ok_def new_blocker_def)

lemma blk_ok_fail: "blk_ok b \<Longrightarrow> bl_terminal b \<longrightarrow> bl_closed b \<Longrightarrow> blk_ok (fail_closed r b)"
  by (auto simp: blk_ok_def fail_closed_def)

lemma blk_ok_route: "blk_ok b \<Longrightarrow> blk_ok (route_to t m b)"
  by (auto simp: blk_ok_def route_to_def Let_def split: option.split)

lemma blk_ok_begin: "blk_ok b \<Longrightarrow> \<not> bl_closed b \<Longrightarrow> \<not> bl_terminal b \<Longrightarrow> blk_ok (begin_target_configuration s v b)"
  by (auto simp: blk_ok_def begin_target_configuration_def Let_def)

lemma blk_ok_ends: "blk_ok b \<Longrightarrow> bl_pump b = P_Running \<Longrightarrow> blk_ok (pump_ends x b)"
  by (auto simp: blk_ok_def pump_ends_def fail_closed_def enqueue_terminal_def)

lemma running_open: "blk_ok b \<Longrightarrow> bl_pump b \<noteq> P_Stopped \<Longrightarrow> \<not> bl_closed b \<and> \<not> bl_terminal b \<and> \<not> bl_failed b"
  by (auto simp: blk_ok_def)

lemma task_open: "blk_ok b \<Longrightarrow> map_of (bl_tasks b) s = Some t \<Longrightarrow> \<not> bl_closed b \<Longrightarrow> \<not> bl_terminal b \<and> \<not> bl_failed b \<and> s \<in> set (bl_unconfigured b)"
  using map_of_Some_fst [of "bl_tasks b" s t] by (auto simp: blk_ok_def)

text \<open>What routing one message comes to.\<close>

lemma messageE:
  obtains (plain) t where "m = Text t" "route_upstream_message m b = route_to None m b"
  | (not_object) v where "m = Json v" "route_upstream_message m b = pump_ends I_Error b"
  | (own) v where "m = Json v" "own_answer v b \<noteq> None" "route_upstream_message m b = note_received v b"
  | (raises) v where "m = Json v" "own_answer v b = None" "route_upstream_message m b = pump_ends I_Error (note_received v b)"
  | (attach) v s where "m = Json v" "own_answer v b = None" "attached_page_session v = Some s"
      "route_upstream_message m b = begin_target_configuration s v (note_received v b)\<lparr>bl_pump := P_Attaching s m\<rparr>"
  | (pass) v t where "m = Json v" "own_answer v b = None" "attached_page_session v = None"
      "route_upstream_message m b = route_to t m (note_received v b)"
proof (cases m)
  case (Text t)
  then show ?thesis using plain by (simp add: route_upstream_message_def)
next
  case (Json v)
  show ?thesis
  proof (cases "is_object v \<and> own_answer v b = None \<and> \<not> attach_raises v")
    case True
    then show ?thesis using Json attach pass by (cases "attached_page_session v") (simp_all add: route_upstream_message_def Let_def)
  next
    case False
    then consider "\<not> is_object v" | "is_object v" "own_answer v b \<noteq> None" | "is_object v" "own_answer v b = None" "attach_raises v"
      by (cases "is_object v"; cases "own_answer v b = None") auto
    then show ?thesis
    proof cases
      case 1
      then show ?thesis by (rule_tac not_object [OF Json]) (simp add: Json route_upstream_message_def)
    next
      case 2
      show ?thesis by (rule own [OF Json 2(2)]) (use 2 in \<open>simp add: Json route_upstream_message_def Let_def\<close>)
    next
      case 3
      show ?thesis by (rule raises [OF Json 3(2)]) (use 3 in \<open>simp add: Json route_upstream_message_def Let_def\<close>)
    qed
  qed
qed

text \<open>Taking note of a value leaves everything but the received values, the futures and the client's identifiers.\<close>

lemma note_receivedE:
  obtains rs ks where "note_received v b = b\<lparr>bl_received := bl_received b @ [v], bl_responses := rs, bl_downstream := ks\<rparr>"
    "rs = bl_responses b \<or> (\<exists>k. value_command_key v = Some k \<and> map_of (bl_responses b) k = Some None \<and> rs = set_key k (Some v) (bl_responses b))"
    "set ks \<subseteq> set (bl_downstream b)"
proof -
  have "\<exists>rs ks. note_received v b = b\<lparr>bl_received := bl_received b @ [v], bl_responses := rs, bl_downstream := ks\<rparr>
    \<and> (rs = bl_responses b \<or> (\<exists>k. value_command_key v = Some k \<and> map_of (bl_responses b) k = Some None \<and> rs = set_key k (Some v) (bl_responses b)))
    \<and> set ks \<subseteq> set (bl_downstream b)"
  proof (cases "value_command_key v")
    case None
    then show ?thesis
      by (intro exI [of _ "bl_responses b"] exI [of _ "bl_downstream b"]) (simp add: note_received_def own_answer_def Let_def)
  next
    case (Some k)
    show ?thesis
    proof (cases "map_of (bl_responses b) k")
      case None
      with Some show ?thesis
        by (intro exI [of _ "bl_responses b"] exI [of _ "removeAll k (bl_downstream b)"])
           (simp add: note_received_def own_answer_def Let_def subset_iff)
    next
      case (Some f)
      show ?thesis
      proof (cases f)
        case None
        with Some \<open>value_command_key v = Some k\<close> show ?thesis
          by (intro exI [of _ "set_key k (Some v) (bl_responses b)"] exI [of _ "bl_downstream b"])
             (simp add: note_received_def own_answer_def Let_def)
      next
        case (Some w)
        with \<open>map_of (bl_responses b) k = Some f\<close> \<open>value_command_key v = Some k\<close> show ?thesis
          by (intro exI [of _ "bl_responses b"] exI [of _ "bl_downstream b"])
             (simp add: note_received_def own_answer_def Let_def)
      qed
    qed
  qed
  then show ?thesis using that by blast
qed

lemma blk_ok_note: "blk_ok (note_received v b) = blk_ok b" "bl_pump (note_received v b) = bl_pump b"
  "bl_closed (note_received v b) = bl_closed b" "bl_terminal (note_received v b) = bl_terminal b"
  "bl_unconfigured (note_received v b) = bl_unconfigured b"
  by (rule note_receivedE [of v b]; simp add: blk_ok_def)+

lemma blk_ok_message: "blk_ok b \<Longrightarrow> bl_pump b = P_Running \<Longrightarrow> blk_ok (route_upstream_message m b)"
proof -
  assume ok: "blk_ok b" and run: "bl_pump b = P_Running"
  note op = running_open [OF ok, unfolded run, simplified]
  show ?thesis
  proof (cases rule: messageE [of m b])
    case (attach v s)
    have "blk_ok (begin_target_configuration s v (note_received v b))"
      by (rule blk_ok_begin) (use ok op in \<open>simp_all add: blk_ok_note\<close>)
    moreover have "\<not> bl_closed (begin_target_configuration s v (note_received v b))"
      "\<not> bl_terminal (begin_target_configuration s v (note_received v b))"
      using op by (simp_all add: begin_target_configuration_def blk_ok_note Let_def)
    ultimately show ?thesis unfolding attach(4) by (auto simp: blk_ok_def)
  qed (use ok run in \<open>simp_all add: blk_ok_note blk_ok_route blk_ok_ends\<close>)
qed

lemma answeredE:
  assumes "blocker_step (E_Answered s) b = Some b'"
  obtains (refused) i where "map_of (bl_tasks b) s = Some (T_Waiting i)" "\<not> bl_closed b" "b' = fail_closed (Some s) b"
  | (accepted) i v where "map_of (bl_tasks b) s = Some (T_Waiting i)" "\<not> bl_closed b"
      "map_of (bl_responses b) (Some s, i) = Some (Some v)" "jget v ''error'' = None" "b' = end_task s i (secure_target s b)"
  using assms by (auto split: option.splits config_task.splits if_splits)

lemma blk_ok_step:
  assumes ok: "blk_ok b" and st: "blocker_step e b = Some b'"
  shows "blk_ok b'"
proof (cases e)
  case (E_Upstream m)
  then show ?thesis using st ok blk_ok_message by (auto split: if_splits)
next
  case E_Resume
  then obtain s m where p: "bl_pump b = P_Attaching s m" and b': "b' = route_to (attached_or_target s m b) m (b\<lparr>bl_pump := P_Running\<rparr>)"
    using st by (auto split: pump.splits)
  have "blk_ok (b\<lparr>bl_pump := P_Running\<rparr>)" using p running_open [OF ok] ok by (auto simp: blk_ok_def)
  then show ?thesis unfolding b' by (rule blk_ok_route)
next
  case (E_Configure s)
  then have t: "map_of (bl_tasks b) s = Some T_Created" "\<not> bl_closed b" and b': "b' = start_configuration s b"
    using st by (auto split: if_splits)
  show ?thesis unfolding b' using ok task_open [OF ok t] t(2)
    by (simp add: blk_ok_def start_configuration_def Let_def insert_absorb)
next
  case (E_Command_Sent s)
  then obtain i where t: "map_of (bl_tasks b) s = Some (T_Sending i)" "\<not> bl_closed b"
    and b': "b' = b\<lparr>bl_tasks := set_key s (T_Waiting i) (bl_tasks b)\<rparr>"
    using st by (auto split: option.splits config_task.splits if_splits)
  show ?thesis unfolding b' using ok task_open [OF ok t] t(2) by (simp add: blk_ok_def insert_absorb)
next
  case (E_Answered s)
  then have "blocker_step (E_Answered s) b = Some b'" using st by simp
  then show ?thesis
  proof (cases rule: answeredE)
    case (refused i)
    show ?thesis unfolding refused(3) by (rule blk_ok_fail [OF ok]) (use task_open [OF ok refused(1,2)] in simp)
  next
    case (accepted i v)
    show ?thesis unfolding accepted(5)
      using ok task_open [OF ok accepted(1,2)] accepted(2) by (auto simp: blk_ok_def end_task_def secure_target_def)
  qed
next
  case (E_Command_Failed s)
  then obtain i where t: "map_of (bl_tasks b) s = Some (T_Sending i)" "\<not> bl_closed b" and b': "b' = fail_closed (Some s) b"
    using st by (auto split: option.splits config_task.splits if_splits)
  show ?thesis unfolding b' by (rule blk_ok_fail [OF ok]) (use task_open [OF ok t] in simp)
next
  case (E_Timeout s)
  then obtain i where t: "map_of (bl_tasks b) s = Some (T_Waiting i)" "\<not> bl_closed b" and b': "b' = fail_closed (Some s) b"
    using st by (auto split: option.splits config_task.splits if_splits)
  show ?thesis unfolding b' by (rule blk_ok_fail [OF ok]) (use task_open [OF ok t] in simp)
next
  case E_Upstream_Ends
  then show ?thesis using st ok blk_ok_ends by (auto split: if_splits)
next
  case E_Upstream_Raises
  then show ?thesis using st ok blk_ok_ends by (auto split: if_splits)
next
  case E_Listen
  then have "b' = b\<lparr>bl_pump := P_Running\<rparr>" "bl_pump b = P_Idle" "\<not> bl_closed b" using st by (auto split: if_splits)
  then show ?thesis using ok by (auto simp: blk_ok_def)
next
  case E_Fail_Finish
  then have "b' = fail_finish b" "bl_failing b" using st by (auto split: if_splits)
  then show ?thesis using ok by (simp add: blk_ok_def fail_finish_def enqueue_terminal_def)
next
  case (E_Send m)
  then have "b' = b \<or> b' = b\<lparr>bl_waiting := m # bl_waiting b\<rparr>" using st by (cases m) (simp_all split: if_splits)
  then show ?thesis using ok by (elim disjE) (simp_all add: blk_ok_def)
next
  case (E_Send_Go m)
  then obtain ks ws where "b' = b\<lparr>bl_waiting := ws, bl_downstream := ks\<rparr>" using st by (auto split: if_splits)
  then show ?thesis using ok by (simp add: blk_ok_def)
next
  case (E_Send_Lost k)
  then have "b' = b\<lparr>bl_downstream := removeAll k (bl_downstream b)\<rparr>" using st by auto
  then show ?thesis using ok by (simp add: blk_ok_def)
next
  case E_Take
  then obtain x q where "b' = b\<lparr>bl_queue := q, bl_delivered := bl_delivered b @ [x]\<rparr>" using st by (auto split: list.splits)
  then show ?thesis using ok by (simp add: blk_ok_def)
next
  case (E_Close clean)
  show ?thesis
  proof (cases "bl_closed b")
    case True
    then have "b' = b" using E_Close st by simp
    with ok show ?thesis by simp
  next
    case False
    let ?b = "b\<lparr>bl_closed := True, bl_pump := P_Stopped, bl_tasks := [], bl_responses := [], bl_upstream_closed := True\<rparr>"
    have "blk_ok ?b" "blk_ok (enqueue_terminal I_Closed ?b)" using ok False by (auto simp: blk_ok_def enqueue_terminal_def)
    moreover have "b' = (if clean then enqueue_terminal I_Closed ?b else ?b)" using E_Close st False by (simp add: Let_def)
    ultimately show ?thesis by simp
  qed
qed

section \<open>Blocked before shown\<close>

text \<open>The browser has accepted the whole blocklist for the session.\<close>

definition accepted :: "blocker \<Rightarrow> string \<Rightarrow> bool" where
  "accepted b s \<longleftrightarrow> (\<exists>i. block_command (bl_urls b) s i \<in> set (bl_sent b)
     \<and> (\<exists>v \<in> set (bl_received b). value_command_key v = Some (Some s, i) \<and> jget v ''error'' = None))"

text \<open>The session a message announces; session identifiers of a browser are not empty.\<close>

fun announces :: "wire \<Rightarrow> string option" where
  "announces (Text t) = None"
| "announces (Json v) = (case attached_page_session v of Some s \<Rightarrow> if s = [] then None else Some s | None \<Rightarrow> None)"

definition shown_ok :: "blocker \<Rightarrow> item list \<Rightarrow> bool" where
  "shown_ok b xs \<longleftrightarrow> (\<forall>t m s. I_Message t m \<in> set xs \<longrightarrow> announces m = Some s \<longrightarrow> accepted b s)"

definition held_ok :: "blocker \<Rightarrow> bool" where
  "held_ok b \<longleftrightarrow> (\<forall>s q m. map_of (bl_buffers b) s = Some q \<longrightarrow> m \<in> set q \<longrightarrow> announces m = None \<or> announces m = Some s)"

definition attaching_ok :: "blocker \<Rightarrow> bool" where
  "attaching_ok b \<longleftrightarrow> (\<forall>s m. bl_pump b = P_Attaching s m \<longrightarrow>
     announces m = (if s = [] then None else Some s) \<and> (s \<in> set (bl_unconfigured b) \<or> accepted b s))"

definition answers_ok :: "blocker \<Rightarrow> bool" where
  "answers_ok b \<longleftrightarrow> (\<forall>k v. (k, Some v) \<in> set (bl_responses b) \<longrightarrow> v \<in> set (bl_received b) \<and> value_command_key v = Some k)"

definition commands_ok :: "blocker \<Rightarrow> bool" where
  "commands_ok b \<longleftrightarrow> (\<forall>s i. map_of (bl_tasks b) s = Some (T_Sending i) \<or> map_of (bl_tasks b) s = Some (T_Waiting i) \<longrightarrow>
     block_command (bl_urls b) s i \<in> set (bl_sent b))"

lemmas ack_defs = shown_ok_def held_ok_def attaching_ok_def answers_ok_def commands_ok_def

definition ack_ok :: "blocker \<Rightarrow> bool" where
  "ack_ok b \<longleftrightarrow> shown_ok b (bl_delivered b @ bl_queue b) \<and> held_ok b \<and> attaching_ok b \<and> answers_ok b \<and> commands_ok b"

lemma accepted_mono:
  "bl_urls b' = bl_urls b \<Longrightarrow> set (bl_sent b) \<subseteq> set (bl_sent b') \<Longrightarrow> set (bl_received b) \<subseteq> set (bl_received b') \<Longrightarrow>
   accepted b s \<Longrightarrow> accepted b' s"
  unfolding accepted_def by auto

lemma accepted_cong:
  "bl_urls b' = bl_urls b \<Longrightarrow> bl_sent b' = bl_sent b \<Longrightarrow> bl_received b' = bl_received b \<Longrightarrow> accepted b' = accepted b"
  by (auto simp: accepted_def fun_eq_iff)

lemma ack_init: "ack_ok (new_blocker ps)"
  by (simp add: ack_ok_def ack_defs new_blocker_def)

text \<open>Fields that do not matter.\<close>

lemma ack_frame [simp]:
  "ack_ok (b\<lparr>bl_downstream := x1\<rparr>) = ack_ok b" "ack_ok (b\<lparr>bl_waiting := x2\<rparr>) = ack_ok b"
  "ack_ok (b\<lparr>bl_routed := x3\<rparr>) = ack_ok b" "ack_ok (b\<lparr>bl_terminal := x4\<rparr>) = ack_ok b"
  "ack_ok (b\<lparr>bl_target_sessions := x5\<rparr>) = ack_ok b" "ack_ok (b\<lparr>bl_failing := x6\<rparr>) = ack_ok b"
  "ack_ok (b\<lparr>bl_upstream_closed := x7\<rparr>) = ack_ok b" "ack_ok (b\<lparr>bl_closed := x8\<rparr>) = ack_ok b"
  "ack_ok (b\<lparr>bl_failed := x9\<rparr>) = ack_ok b"
  by (simp_all add: ack_ok_def ack_defs accepted_def)

lemma ack_queue: "ack_ok (b\<lparr>bl_queue := q\<rparr>) \<longleftrightarrow> ack_ok (b\<lparr>bl_queue := []\<rparr>) \<and> shown_ok b q"
  by (auto simp: ack_ok_def ack_defs accepted_def)

lemma ack_stop: "ack_ok b \<Longrightarrow> ack_ok (b\<lparr>bl_pump := p\<rparr>)" if "\<forall>s m. p \<noteq> P_Attaching s m"
  using that by (auto simp: ack_ok_def ack_defs accepted_def)

lemma ack_drop_queue: "ack_ok b \<Longrightarrow> ack_ok (b\<lparr>bl_queue := []\<rparr>)"
  by (auto simp: ack_ok_def ack_defs accepted_def)

lemma ack_append: "ack_ok b \<Longrightarrow> shown_ok b xs \<Longrightarrow> ack_ok (b\<lparr>bl_queue := bl_queue b @ xs\<rparr>)"
  by (auto simp: ack_ok_def ack_defs accepted_def)

lemma ack_received: "ack_ok b \<Longrightarrow> ack_ok (b\<lparr>bl_received := bl_received b @ [v]\<rparr>)"
  unfolding ack_ok_def ack_defs accepted_def by simp blast

lemma ack_terminal: "ack_ok b \<Longrightarrow> x = I_Closed \<or> x = I_Error \<Longrightarrow> ack_ok (enqueue_terminal x b)"
  using ack_append [of "b\<lparr>bl_terminal := True\<rparr>" "[x]"] by (auto simp: enqueue_terminal_def shown_ok_def)

lemma ack_fail: "ack_ok b \<Longrightarrow> ack_ok (fail_closed r b)"
proof -
  assume ok: "ack_ok b"
  have "ack_ok (b\<lparr>bl_failed := True, bl_failing := True, bl_closed := True, bl_pump := P_Stopped,
      bl_tasks := filter (\<lambda>(s, _). Some s = r) (bl_tasks b),
      bl_responses := filter (\<lambda>((s, _), _). s = r \<and> s \<noteq> None) (bl_responses b)\<rparr>)"
    using ok unfolding ack_ok_def ack_defs accepted_def by (auto simp: map_of_filter_key split: if_splits)
  then show ?thesis using ok unfolding fail_closed_def by simp
qed

lemma ack_route:
  assumes ok: "ack_ok b" and m: "\<And>s. announces m = Some s \<Longrightarrow> t = Some s \<and> (s \<in> set (bl_unconfigured b) \<or> accepted b s)"
  shows "ack_ok (route_to t m b)"
proof -
  have q: "ack_ok (b\<lparr>bl_routed := r, bl_queue := bl_queue b @ [I_Message t m]\<rparr>)"
    if "\<And>s. t = Some s \<Longrightarrow> s \<notin> set (bl_unconfigured b)" for r
    using ack_append [of "b\<lparr>bl_routed := r\<rparr>" "[I_Message t m]"] ok that m by (auto simp: shown_ok_def accepted_def)
  have m': "announces m = Some s \<or> announces m = None" if "t = Some s" for s using m that by (cases "announces m") auto
  have h: "ack_ok (b\<lparr>bl_routed := r, bl_buffers := set_key s ((case map_of (bl_buffers b) s of None \<Rightarrow> [] | Some q \<Rightarrow> q) @ [m]) (bl_buffers b)\<rparr>)"
    if t: "t = Some s" for r s
  proof -
    let ?bs = "set_key s ((case map_of (bl_buffers b) s of None \<Rightarrow> [] | Some q \<Rightarrow> q) @ [m]) (bl_buffers b)"
    have "announces x = None \<or> announces x = Some u" if "map_of ?bs u = Some q" "x \<in> set q" for u q x
    proof (cases "u = s")
      case True
      with that(1) have "q = (case map_of (bl_buffers b) s of None \<Rightarrow> [] | Some q \<Rightarrow> q) @ [m]" by simp
      with that(2) consider "x = m" | q' where "map_of (bl_buffers b) s = Some q'" "x \<in> set q'"
        by (cases "map_of (bl_buffers b) s") auto
      then show ?thesis
      proof cases
        case 1
        then show ?thesis using m' [OF t] True by auto
      next
        case 2
        then show ?thesis using ok True unfolding ack_ok_def held_ok_def by blast
      qed
    next
      case False
      then show ?thesis using that ok unfolding ack_ok_def held_ok_def by auto
    qed
    then have "held_ok (b\<lparr>bl_routed := r, bl_buffers := ?bs\<rparr>)" by (auto simp: held_ok_def simp del: map_of_set_key)
    then show ?thesis using ok by (simp add: ack_ok_def shown_ok_def attaching_ok_def answers_ok_def commands_ok_def accepted_def)
  qed
  show ?thesis
  proof (cases t)
    case None
    then show ?thesis using q [of "bl_routed b @ [(t, m)]"] by (simp add: route_to_def Let_def)
  next
    case (Some s)
    then show ?thesis using q [of "bl_routed b @ [(t, m)]"] h [OF Some, of "bl_routed b @ [(t, m)]"]
      by (auto simp: route_to_def Let_def)
  qed
qed

lemma ack_begin:
  assumes ok: "ack_ok b" and b: "blk_ok b" "\<not> bl_closed b" and m: "announces m = (if s = [] then None else Some s)"
  shows "ack_ok (begin_target_configuration s v b\<lparr>bl_pump := P_Attaching s m\<rparr>)"
proof (cases "s \<in> fst ` set (bl_tasks b)")
  case True
  then have "s \<in> set (bl_unconfigured b)" using b by (simp add: blk_ok_def)
  then show ?thesis using True ok m unfolding begin_target_configuration_def ack_ok_def ack_defs accepted_def by simp
next
  case False
  have "ack_ok (b\<lparr>bl_target_sessions := x, bl_unconfigured := List.insert s (bl_unconfigured b),
      bl_buffers := set_key s [] (bl_buffers b), bl_tasks := set_key s T_Created (bl_tasks b), bl_pump := P_Attaching s m\<rparr>)" for x
    using ok m unfolding ack_ok_def ack_defs accepted_def by auto
  then show ?thesis using False by (simp add: begin_target_configuration_def Let_def)
qed

lemma ack_ends: "ack_ok b \<Longrightarrow> x = I_Closed \<or> x = I_Error \<Longrightarrow> ack_ok (pump_ends x b)"
  by (simp add: pump_ends_def ack_fail ack_stop ack_terminal)

lemma ack_note: "ack_ok b \<Longrightarrow> ack_ok (note_received v b)"
proof (rule note_receivedE [of v b])
  fix rs ks
  assume ok: "ack_ok b" and n: "note_received v b = b\<lparr>bl_received := bl_received b @ [v], bl_responses := rs, bl_downstream := ks\<rparr>"
    and rs: "rs = bl_responses b \<or> (\<exists>k. value_command_key v = Some k \<and> map_of (bl_responses b) k = Some None
        \<and> rs = set_key k (Some v) (bl_responses b))"
  have "ack_ok (b\<lparr>bl_received := bl_received b @ [v]\<rparr>)" by (rule ack_received [OF ok])
  moreover have "w \<in> set (bl_received b @ [v]) \<and> value_command_key w = Some k" if "(k, Some w) \<in> set rs" for k w
    using rs that ok in_set_key [of "(k, Some w)"] unfolding ack_ok_def answers_ok_def by fastforce
  ultimately show ?thesis unfolding n ack_ok_def ack_defs accepted_def by simp
qed

lemma ack_message:
  assumes ok: "ack_ok b" and b: "blk_ok b" "bl_pump b = P_Running"
  shows "ack_ok (route_upstream_message m b)"
proof (cases rule: messageE [of m b])
  case (attach v s)
  show ?thesis unfolding attach(4)
    by (rule ack_begin [OF ack_note [OF ok]])
       (use attach b running_open [OF b(1)] in \<open>simp_all add: blk_ok_note\<close>)
next
  case (pass v t)
  show ?thesis unfolding pass(4) by (rule ack_route [OF ack_note [OF ok]]) (use pass in simp)
next
  case (plain t)
  show ?thesis unfolding plain(2) by (rule ack_route [OF ok]) (use plain in simp)
qed (use ok ack_note ack_ends in simp_all)

lemma ack_tasks:
  assumes "ack_ok b" "commands_ok (b\<lparr>bl_tasks := ts\<rparr>)"
  shows "ack_ok (b\<lparr>bl_tasks := ts\<rparr>)"
  using assms unfolding ack_ok_def ack_defs accepted_def by simp

lemma ack_configure:
  assumes ok: "ack_ok b" shows "ack_ok (start_configuration s b)"
proof -
  let ?b = "start_configuration s b"
  have f: "bl_urls ?b = bl_urls b" "bl_received ?b = bl_received b" "bl_delivered ?b = bl_delivered b" "bl_queue ?b = bl_queue b"
    "bl_buffers ?b = bl_buffers b" "bl_pump ?b = bl_pump b" "bl_unconfigured ?b = bl_unconfigured b"
    "set (bl_sent b) \<subseteq> set (bl_sent ?b)"
    by (auto simp: start_configuration_def Let_def)
  have acc: "accepted b u \<Longrightarrow> accepted ?b u" for u by (rule accepted_mono) (use f in auto)
  have "shown_ok ?b (bl_delivered ?b @ bl_queue ?b)" "held_ok ?b" "attaching_ok ?b"
    using ok acc unfolding ack_ok_def shown_ok_def held_ok_def attaching_ok_def f by blast+
  moreover have "answers_ok ?b" using ok unfolding ack_ok_def answers_ok_def
    by (auto simp: start_configuration_def Let_def dest!: in_set_key)
  moreover have "commands_ok ?b" using ok unfolding ack_ok_def commands_ok_def
    by (auto simp: start_configuration_def Let_def)
  ultimately show ?thesis by (simp add: ack_ok_def)
qed

lemma ack_sent:
  assumes ok: "ack_ok b" and t: "map_of (bl_tasks b) s = Some (T_Sending i)"
  shows "ack_ok (b\<lparr>bl_tasks := set_key s (T_Waiting i) (bl_tasks b)\<rparr>)"
  by (rule ack_tasks [OF ok]) (use ok t in \<open>auto simp: ack_ok_def commands_ok_def\<close>)

lemma ack_accepted:
  assumes ok: "ack_ok b" and t: "map_of (bl_tasks b) s = Some (T_Waiting i)"
    and r: "map_of (bl_responses b) (Some s, i) = Some (Some v)" "jget v ''error'' = None"
  shows "ack_ok (end_task s i (secure_target s b))"
proof -
  have acc: "accepted b s"
    using ok t map_of_SomeD [OF r(1)] r(2) unfolding ack_ok_def answers_ok_def commands_ok_def accepted_def by blast
  let ?q = "case map_of (bl_buffers b) s of None \<Rightarrow> [] | Some q \<Rightarrow> q"
  have sh: "shown_ok b (map (I_Message (Some s)) ?q)"
  proof (cases "map_of (bl_buffers b) s")
    case (Some q)
    then have "announces m = None \<or> announces m = Some s" if "m \<in> set q" for m using ok that by (auto simp: ack_ok_def held_ok_def)
    then show ?thesis using acc Some by (force simp: shown_ok_def)
  qed (simp add: shown_ok_def)
  then have "ack_ok (b\<lparr>bl_queue := bl_queue b @ map (I_Message (Some s)) ?q\<rparr>)" by (rule ack_append [OF ok])
  then show ?thesis
    using acc unfolding end_task_def secure_target_def ack_ok_def ack_defs accepted_def
    by (auto simp: map_of_drop)
qed

lemma ack_finish: "ack_ok b \<Longrightarrow> blk_ok b \<Longrightarrow> bl_failing b \<Longrightarrow> ack_ok (fail_finish b)"
  unfolding fail_finish_def
  by (rule ack_terminal) (auto simp: ack_ok_def ack_defs accepted_def blk_ok_def)

lemma ack_step:
  assumes ok: "ack_ok b" and b: "blk_ok b" and st: "blocker_step e b = Some b'"
  shows "ack_ok b'"
proof (cases e)
  case (E_Upstream m)
  then show ?thesis using st ack_message [OF ok b] by (auto split: if_splits)
next
  case E_Resume
  then obtain s m where p: "bl_pump b = P_Attaching s m" and b': "b' = route_to (attached_or_target s m b) m (b\<lparr>bl_pump := P_Running\<rparr>)"
    using st by (auto split: pump.splits)
  have a: "announces m = (if s = [] then None else Some s)" "s \<in> set (bl_unconfigured b) \<or> accepted b s" using ok p by (auto simp: ack_ok_def attaching_ok_def)
  show ?thesis unfolding b'
    by (rule ack_route) (use a ack_stop [OF _ ok, of P_Running] in \<open>auto simp: accepted_def attached_or_target_def split: if_splits\<close>)
next
  case (E_Configure s)
  then show ?thesis using st ack_configure [OF ok] by (auto split: if_splits)
next
  case (E_Command_Sent s)
  then show ?thesis using st ack_sent [OF ok] by (auto split: option.splits config_task.splits if_splits)
next
  case (E_Command_Failed s)
  then show ?thesis using st ack_fail [OF ok] by (auto split: option.splits config_task.splits if_splits)
next
  case (E_Timeout s)
  then show ?thesis using st ack_fail [OF ok] by (auto split: option.splits config_task.splits if_splits)
next
  case (E_Answered s)
  then have "blocker_step (E_Answered s) b = Some b'" using st by simp
  then show ?thesis
  proof (cases rule: answeredE)
    case (refused i)
    then show ?thesis using ack_fail [OF ok] by simp
  next
    case (accepted i v)
    then show ?thesis using ack_accepted [OF ok accepted(1,3,4)] by simp
  qed
next
  case E_Upstream_Ends
  then show ?thesis using st ack_ends [OF ok] by (auto split: if_splits)
next
  case E_Upstream_Raises
  then show ?thesis using st ack_ends [OF ok] by (auto split: if_splits)
next
  case E_Listen
  then show ?thesis using st ack_stop [OF _ ok, of P_Running] by (auto split: if_splits)
next
  case E_Fail_Finish
  then show ?thesis using st ack_finish [OF ok b] by (auto split: if_splits)
next
  case (E_Send m)
  then have "b' = b \<or> b' = b\<lparr>bl_waiting := m # bl_waiting b\<rparr>" using st by (cases m) (simp_all split: if_splits)
  then show ?thesis using ok by (elim disjE) simp_all
next
  case (E_Send_Go m)
  then obtain ks ws where "b' = b\<lparr>bl_waiting := ws\<rparr>\<lparr>bl_downstream := ks\<rparr>" using st by (auto split: if_splits)
  then show ?thesis using ok by (simp only: ack_frame)
next
  case (E_Send_Lost k)
  then have "b' = b\<lparr>bl_downstream := removeAll k (bl_downstream b)\<rparr>" using st by auto
  then show ?thesis using ok by simp
next
  case E_Take
  then obtain x q where "bl_queue b = x # q" "b' = b\<lparr>bl_queue := q, bl_delivered := bl_delivered b @ [x]\<rparr>"
    using st by (auto split: list.splits)
  then show ?thesis using ok unfolding ack_ok_def ack_defs accepted_def by auto
next
  case (E_Close clean)
  let ?b = "b\<lparr>bl_closed := True, bl_pump := P_Stopped, bl_tasks := [], bl_responses := [], bl_upstream_closed := True\<rparr>"
  have "ack_ok ?b" using ok unfolding ack_ok_def ack_defs accepted_def by auto
  then show ?thesis using E_Close st ok ack_terminal [of ?b I_Closed] by (auto simp: Let_def split: if_splits)
qed

section \<open>Order\<close>

definition for_target :: "string option \<Rightarrow> item list \<Rightarrow> wire list" where
  "for_target t xs = concat (map (\<lambda>x. case x of I_Message t' m \<Rightarrow> if t' = t then [m] else [] | _ \<Rightarrow> []) xs)"

definition held_back :: "string option \<Rightarrow> (string \<times> wire list) list \<Rightarrow> wire list" where
  "held_back t bs = (case t of None \<Rightarrow> [] | Some s \<Rightarrow> (case map_of bs s of None \<Rightarrow> [] | Some q \<Rightarrow> q))"

definition arrived :: "string option \<Rightarrow> (string option \<times> wire) list \<Rightarrow> wire list" where
  "arrived t rs = map snd (filter (\<lambda>(t', _). t' = t) rs)"

definition order_ok :: "blocker \<Rightarrow> bool" where
  "order_ok b \<longleftrightarrow> (\<not> bl_closed b \<longrightarrow> (\<forall>t. for_target t (bl_delivered b @ bl_queue b) @ held_back t (bl_buffers b) = arrived t (bl_routed b)))"

lemma for_target_simps [simp]:
  "for_target t [] = []"
  "for_target t (xs @ ys) = for_target t xs @ for_target t ys"
  "for_target t [I_Message t' m] = (if t' = t then [m] else [])" "for_target t [I_Closed] = []" "for_target t [I_Error] = []"
  by (simp_all add: for_target_def)

lemma for_target_map: "for_target t (map (I_Message t') q) = (if t' = t then q else [])"
  by (induction q) (simp_all add: for_target_def)

lemma order_cong:
  "order_ok b \<Longrightarrow> bl_closed b' = bl_closed b \<Longrightarrow> bl_delivered b' = bl_delivered b \<Longrightarrow> bl_queue b' = bl_queue b \<Longrightarrow>
   bl_buffers b' = bl_buffers b \<Longrightarrow> bl_routed b' = bl_routed b \<Longrightarrow> order_ok b'"
  by (simp add: order_ok_def)

lemma order_closed: "bl_closed b \<Longrightarrow> order_ok b"
  by (simp add: order_ok_def)

lemma order_fail: "order_ok b \<Longrightarrow> order_ok (fail_closed r b)"
  by (simp add: fail_closed_def order_ok_def)

lemma order_terminal: "order_ok b \<Longrightarrow> x = I_Closed \<or> x = I_Error \<Longrightarrow> order_ok (enqueue_terminal x b)"
  by (auto simp: order_ok_def enqueue_terminal_def)

lemma order_ends: "order_ok b \<Longrightarrow> x = I_Closed \<or> x = I_Error \<Longrightarrow> order_ok (pump_ends x b)"
proof -
  assume "order_ok b" "x = I_Closed \<or> x = I_Error"
  then have "order_ok (fail_closed None b)" "order_ok (enqueue_terminal x b\<lparr>bl_pump := P_Stopped\<rparr>)"
    by (simp add: order_fail, rule_tac order_cong [OF order_terminal]) simp_all
  then show ?thesis by (simp add: pump_ends_def)
qed

lemma order_route: "order_ok b \<Longrightarrow> blk_ok b \<Longrightarrow> order_ok (route_to t m b)"
proof (cases "bl_closed b")
  case True
  then show ?thesis by (auto simp: route_to_def Let_def split: option.split intro!: order_closed)
next
  case False
  assume ok: "order_ok b" and b: "blk_ok b"
  have free: "map_of (bl_buffers b) s = None" if "s \<notin> set (bl_unconfigured b)" for s
    using b False that by (simp add: map_of_None_fst blk_ok_def)
  have eq: "for_target u (bl_delivered b) @ for_target u (bl_queue b) @ held_back u (bl_buffers b) = arrived u (bl_routed b)" for u
    using ok False by (simp add: order_ok_def)
  have empty: "held_back t (bl_buffers b) = []" if "\<And>s. t = Some s \<Longrightarrow> s \<notin> set (bl_unconfigured b)"
    using that free by (cases t) (auto simp: held_back_def)
  show ?thesis
  proof (cases "\<exists>s. t = Some s \<and> s \<in> set (bl_unconfigured b)")
    case True
    then obtain s where s: "t = Some s" "s \<in> set (bl_unconfigured b)" by blast
    have "for_target u (bl_delivered b) @ for_target u (bl_queue b) @ held_back u (bl_buffers (route_to t m b)) = arrived u (bl_routed (route_to t m b))" for u
      using eq [of u, symmetric] s by (auto simp: route_to_def Let_def held_back_def arrived_def split: option.splits)
    then show ?thesis using s by (simp add: order_ok_def route_to_def Let_def)
  next
    case no: False
    then have r: "route_to t m b = b\<lparr>bl_routed := bl_routed b @ [(t, m)], bl_queue := bl_queue b @ [I_Message t m]\<rparr>"
      by (cases t) (auto simp: route_to_def Let_def)
    have "arrived u (bl_routed b @ [(t, m)]) = arrived u (bl_routed b) @ (if t = u then [m] else [])" for u by (simp add: arrived_def)
    then show ?thesis unfolding r order_ok_def using eq [symmetric] empty no by auto
  qed
qed

lemma order_begin: "order_ok b \<Longrightarrow> blk_ok b \<Longrightarrow> \<not> bl_closed b \<Longrightarrow> order_ok (begin_target_configuration s v b)"
proof (cases "s \<in> fst ` set (bl_tasks b)")
  case True
  then show "order_ok b \<Longrightarrow> ?thesis" by (simp add: begin_target_configuration_def)
next
  case False
  assume ok: "order_ok b" and b: "blk_ok b" "\<not> bl_closed b"
  have "map_of (bl_buffers b) s = None" using b False by (simp add: map_of_None_fst blk_ok_def)
  then have "held_back u (bl_buffers (begin_target_configuration s v b)) = held_back u (bl_buffers b)" for u
    using False by (auto simp: held_back_def begin_target_configuration_def Let_def split: option.split)
  then show ?thesis using ok False by (simp add: order_ok_def begin_target_configuration_def Let_def)
qed

lemma order_note: "order_ok b \<Longrightarrow> order_ok (note_received v b)"
  by (rule note_receivedE [of v b]) (auto intro: order_cong)

lemma order_secure: "order_ok b \<Longrightarrow> order_ok (end_task s i (secure_target s b))"
proof -
  assume ok: "order_ok b"
  let ?b = "end_task s i (secure_target s b)"
  let ?q = "case map_of (bl_buffers b) s of None \<Rightarrow> [] | Some q \<Rightarrow> q"
  have "for_target u (map (I_Message (Some s)) ?q) @ held_back u (bl_buffers ?b) = held_back u (bl_buffers b)" for u
    unfolding for_target_map
    by (cases u) (auto simp: held_back_def end_task_def secure_target_def map_of_drop split: option.split)
  then show ?thesis using ok by (simp add: order_ok_def end_task_def secure_target_def)
qed

lemma order_message:
  assumes ok: "order_ok b" and b: "blk_ok b" "bl_pump b = P_Running"
  shows "order_ok (route_upstream_message m b)"
proof (cases rule: messageE [of m b])
  case (attach v s)
  have "order_ok (begin_target_configuration s v (note_received v b))"
    by (rule order_begin [OF order_note [OF ok]]) (use b running_open [OF b(1)] in \<open>simp_all add: blk_ok_note\<close>)
  then show ?thesis unfolding attach(4) by (rule order_cong) simp_all
qed (use ok b order_note order_ends order_route blk_ok_note in simp_all)

text \<open>The events other than routing and the configuration tasks, each with the fields it touches.\<close>

lemma quiet_eventE:
  assumes st: "blocker_step e b = Some b'"
    and e: "e \<in> {E_Listen} \<union> range E_Configure \<union> range E_Command_Sent \<union> range E_Send \<union> range E_Send_Go \<union> range E_Send_Lost"
  shows "bl_closed b' = bl_closed b \<and> bl_delivered b' = bl_delivered b \<and> bl_queue b' = bl_queue b
    \<and> bl_buffers b' = bl_buffers b \<and> bl_routed b' = bl_routed b \<and> bl_failed b' = bl_failed b \<and> bl_failing b' = bl_failing b
    \<and> bl_upstream_closed b' = bl_upstream_closed b"
proof (cases e)
  case (E_Send m)
  then have "b' = b \<or> b' = b\<lparr>bl_waiting := m # bl_waiting b\<rparr>" using st by (cases m) (simp_all split: if_splits)
  then show ?thesis by (elim disjE) simp_all
next
  case (E_Send_Go m)
  then obtain ks ws where "b' = b\<lparr>bl_waiting := ws, bl_downstream := ks\<rparr>" using st by (auto split: if_splits)
  then show ?thesis by simp
next
  case (E_Configure s)
  then have "b' = start_configuration s b" using st by (auto split: if_splits)
  then show ?thesis by (simp add: start_configuration_def Let_def)
next
  case (E_Command_Sent s)
  then obtain ts where "b' = b\<lparr>bl_tasks := ts\<rparr>" using st by (auto split: option.splits config_task.splits if_splits)
  then show ?thesis by simp
next
  case (E_Send_Lost k)
  then have "b' = b\<lparr>bl_downstream := removeAll k (bl_downstream b)\<rparr>" using st by simp
  then show ?thesis by simp
next
  case E_Listen
  then have "b' = b\<lparr>bl_pump := P_Running\<rparr>" using st by (auto split: if_splits)
  then show ?thesis by simp
qed (use e in auto)

lemma failing_eventE:
  assumes "blocker_step e b = Some b'" "e \<in> range E_Command_Failed \<union> range E_Timeout"
  shows "\<exists>s. b' = fail_closed (Some s) b \<and> \<not> bl_closed b"
  using assms by (auto split: option.splits config_task.splits if_splits)

lemma order_step:
  assumes ok: "order_ok b" and b: "blk_ok b" and st: "blocker_step e b = Some b'"
  shows "order_ok b'"
proof (cases e)
  case (E_Upstream m)
  then show ?thesis using st order_message [OF ok b] by (auto split: if_splits)
next
  case E_Resume
  then obtain s m where p: "bl_pump b = P_Attaching s m" and b': "b' = route_to (attached_or_target s m b) m (b\<lparr>bl_pump := P_Running\<rparr>)"
    using st by (auto split: pump.splits)
  have "order_ok (b\<lparr>bl_pump := P_Running\<rparr>)" by (rule order_cong [OF ok]) simp_all
  moreover have "blk_ok (b\<lparr>bl_pump := P_Running\<rparr>)" using p running_open [OF b] b by (auto simp: blk_ok_def)
  ultimately show ?thesis unfolding b' by (rule order_route)
next
  case (E_Answered s)
  then have "blocker_step (E_Answered s) b = Some b'" using st by simp
  then show ?thesis by (cases rule: answeredE) (use order_fail [OF ok] order_secure [OF ok] in simp_all)
next
  case (E_Command_Failed s)
  then show ?thesis using failing_eventE [OF st] order_fail [OF ok] by auto
next
  case (E_Timeout s)
  then show ?thesis using failing_eventE [OF st] order_fail [OF ok] by auto
next
  case E_Upstream_Ends
  then show ?thesis using st order_ends [OF ok] by (auto split: if_splits)
next
  case E_Upstream_Raises
  then show ?thesis using st order_ends [OF ok] by (auto split: if_splits)
next
  case E_Fail_Finish
  then have "b' = fail_finish b" "bl_closed b" using st b by (auto simp: blk_ok_def split: if_splits)
  then show ?thesis by (simp add: order_ok_def fail_finish_def enqueue_terminal_def)
next
  case E_Take
  then obtain x q where x: "bl_queue b = x # q" "b' = b\<lparr>bl_queue := q, bl_delivered := bl_delivered b @ [x]\<rparr>"
    using st by (auto split: list.splits)
  then have "for_target t (bl_delivered b' @ bl_queue b') = for_target t (bl_delivered b @ bl_queue b)" for t by (simp add: for_target_def)
  then show ?thesis using ok x(2) by (simp add: order_ok_def del: for_target_simps)
next
  case (E_Close clean)
  then have "bl_closed b'" using st by (auto simp: Let_def enqueue_terminal_def split: if_splits)
  then show ?thesis by (rule order_closed)
qed (rule order_cong [OF ok]; use quiet_eventE [OF st] in simp)+

section \<open>Runs\<close>

fun blocker_run :: "blocker_event list \<Rightarrow> blocker \<Rightarrow> blocker option" where
  "blocker_run [] b = Some b"
| "blocker_run (e # es) b = (case blocker_step e b of None \<Rightarrow> None | Some b' \<Rightarrow> blocker_run es b')"

text \<open>The messages of a run that are for the client: all that come in, but for the answers to the proxy's own commands and
  for a value that makes the routing raise (it is not an object, or the kind of its target cannot be looked up).\<close>

definition meant_for_client :: "wire \<Rightarrow> blocker \<Rightarrow> bool" where
  "meant_for_client m b \<longleftrightarrow> (case m of Text t \<Rightarrow> True | Json v \<Rightarrow> is_object v \<and> own_answer v b = None \<and> \<not> attach_raises v)"

definition comes_in :: "blocker_event \<Rightarrow> blocker \<Rightarrow> wire list" where
  "comes_in e b = (case e of E_Upstream m \<Rightarrow> if meant_for_client m b then [m] else [] | _ \<Rightarrow> [])"

fun for_client :: "blocker_event list \<Rightarrow> blocker \<Rightarrow> wire list" where
  "for_client [] b = []"
| "for_client (e # es) b = comes_in e b @ (case blocker_step e b of None \<Rightarrow> [] | Some b' \<Rightarrow> for_client es b')"

definition pump_holds :: "blocker \<Rightarrow> wire list" where
  "pump_holds b = (case bl_pump b of P_Attaching s m \<Rightarrow> [m] | _ \<Rightarrow> [])"

definition session_named :: "wire \<Rightarrow> string option" where
  "session_named m = (case m of Text t \<Rightarrow> None | Json v \<Rightarrow> jstr (jget v ''sessionId''))"

definition filed_right :: "string option \<Rightarrow> wire \<Rightarrow> bool" where
  "filed_right t m \<longleftrightarrow> (case m of Text x \<Rightarrow> t = None
     | Json v \<Rightarrow> (case announces m of Some s \<Rightarrow> t = Some s
         | None \<Rightarrow> (case session_named m of Some s \<Rightarrow> t = Some s | None \<Rightarrow> True)))"

lemma filed_message: "announces (Json v) = None \<Longrightarrow> filed_right (message_target_session ts v) (Json v)"
  by (simp add: filed_right_def session_named_def message_target_session_def split: option.split)

text \<open>What the pump is attaching is an attach event; the session it is filed under is the one it announces.\<close>

definition attach_known :: "blocker \<Rightarrow> bool" where
  "attach_known b \<longleftrightarrow> (\<forall>s m. bl_pump b = P_Attaching s m \<longrightarrow> (\<exists>v. m = Json v \<and> attached_page_session v = Some s))"

lemma filed_attaching:
  "attached_page_session v = Some s \<Longrightarrow> filed_right (attached_or_target s (Json v) b) (Json v)"
  by (cases "s = []") (simp_all add: attached_or_target_def filed_message, simp add: filed_right_def)

lemma route_routed: "bl_routed (route_to t m b) = bl_routed b @ [(t, m)]" "bl_pump (route_to t m b) = bl_pump b"
  by (simp_all add: route_to_def Let_def split: option.split)

lemma meant_cases:
  "meant_for_client m b \<Longrightarrow> (\<exists>t. m = Text t \<and> route_upstream_message m b = route_to None m b)
   \<or> (\<exists>v s. m = Json v \<and> attached_page_session v = Some s
        \<and> route_upstream_message m b = begin_target_configuration s v (note_received v b)\<lparr>bl_pump := P_Attaching s m\<rparr>)
   \<or> (\<exists>v. m = Json v \<and> attached_page_session v = None
        \<and> route_upstream_message m b = route_to (message_target_session (bl_target_sessions (note_received v b)) v) m (note_received v b))"
  by (cases m; cases "attached_page_session (case m of Json v \<Rightarrow> v)")
    (auto simp: meant_for_client_def route_upstream_message_def Let_def)

lemma note_routed: "bl_routed (note_received v b) = bl_routed b"
  by (rule note_receivedE [of v b]) simp

lemma begin_routed: "bl_routed (begin_target_configuration s v b) = bl_routed b"
  by (simp add: begin_target_configuration_def Let_def)

lemma ends_routed: "bl_routed (pump_ends x b) = bl_routed b" "bl_pump (pump_ends x b) = P_Stopped \<or> bl_pump (pump_ends x b) = bl_pump b"
  by (simp_all add: pump_ends_def fail_closed_def enqueue_terminal_def)

lemma not_meant:
  "\<not> meant_for_client m b \<Longrightarrow> bl_routed (route_upstream_message m b) = bl_routed b
    \<and> (bl_pump (route_upstream_message m b) = P_Stopped \<or> bl_pump (route_upstream_message m b) = bl_pump b)"
proof (cases m)
  case (Json v)
  assume "\<not> meant_for_client m b"
  then show ?thesis
    using ends_routed [of I_Error b] ends_routed [of I_Error "note_received v b"]
    by (auto simp: Json meant_for_client_def route_upstream_message_def Let_def note_routed blk_ok_note)
qed (simp add: meant_for_client_def)

text \<open>One event files what came in before, and takes in at most one message.\<close>

definition files :: "blocker \<Rightarrow> blocker_event \<Rightarrow> blocker \<Rightarrow> bool" where
  "files b e b' \<longleftrightarrow> (\<exists>new. bl_routed b' = bl_routed b @ new \<and> (\<forall>(t, m) \<in> set new. filed_right t m)
     \<and> map snd new @ pump_holds b' = pump_holds b @ comes_in e b) \<and> attach_known b'"

lemma files_message:
  assumes run: "bl_pump b = P_Running"
  shows "files b (E_Upstream m) (route_upstream_message m b)"
proof (cases "meant_for_client m b")
  case False
  from not_meant [OF this] show ?thesis
    by (elim conjE disjE) (simp_all add: files_def False comes_in_def pump_holds_def attach_known_def run)
next
  case True
  have held: "pump_holds b = []" "comes_in (E_Upstream m) b = [m]" by (simp_all add: pump_holds_def run comes_in_def True)
  from meant_cases [OF True] show ?thesis
  proof (elim disjE exE conjE)
    fix t assume "m = Text t" "route_upstream_message m b = route_to None m b"
    then show ?thesis unfolding files_def held
      by (intro conjI exI [of _ "[(None, m)]"]) (simp_all add: route_routed filed_right_def pump_holds_def attach_known_def run)
  next
    fix v s assume "m = Json v" "attached_page_session v = Some s"
      "route_upstream_message m b = begin_target_configuration s v (note_received v b)\<lparr>bl_pump := P_Attaching s m\<rparr>"
    then show ?thesis unfolding files_def held
      by (intro conjI exI [of _ "[]"]) (simp_all add: begin_routed note_routed pump_holds_def attach_known_def)
  next
    fix v assume v: "m = Json v" "attached_page_session v = None"
      "route_upstream_message m b = route_to (message_target_session (bl_target_sessions (note_received v b)) v) m (note_received v b)"
    then have "filed_right (message_target_session (bl_target_sessions (note_received v b)) v) m" by (simp add: filed_message)
    with v(3) show ?thesis unfolding files_def held
      by (intro conjI exI [of _ "[(message_target_session (bl_target_sessions (note_received v b)) v, m)]"])
        (simp_all add: route_routed note_routed blk_ok_note pump_holds_def attach_known_def run)
  qed
qed

lemma files_quiet:
  assumes "attach_known b" "bl_routed b' = bl_routed b" "comes_in e b = []"
    and "bl_pump b' = bl_pump b \<or> pump_holds b = [] \<and> pump_holds b' = []"
  shows "files b e b'"
proof -
  have "pump_holds b' = pump_holds b" using assms(4) by (elim disjE) (simp_all add: pump_holds_def)
  moreover have "attach_known b'" using assms(1,4) by (auto simp: attach_known_def pump_holds_def split: pump.splits)
  ultimately show ?thesis using assms(2,3) by (simp add: files_def)
qed

lemma fail_closed_open: "\<not> bl_closed (fail_closed r b) \<Longrightarrow> fail_closed r b = b"
  by (auto simp: fail_closed_def split: if_splits)

lemma quiet_pump:
  assumes st: "blocker_step e b = Some b'"
    and e: "e \<in> range E_Configure \<union> range E_Command_Sent \<union> range E_Send \<union> range E_Send_Go \<union> range E_Send_Lost"
  shows "bl_pump b' = bl_pump b"
proof (cases e)
  case (E_Send m)
  then have "b' = b \<or> b' = b\<lparr>bl_waiting := m # bl_waiting b\<rparr>" using st by (cases m) (simp_all split: if_splits)
  then show ?thesis by (elim disjE) simp_all
qed (use assms in \<open>auto simp: start_configuration_def Let_def split: option.splits config_task.splits if_splits\<close>)

lemma files_step:
  assumes b: "blk_ok b" "attach_known b" and st: "blocker_step e b = Some b'" and op: "\<not> bl_closed b'"
  shows "files b e b'"
proof (cases e)
  case (E_Upstream m)
  then show ?thesis using st files_message by (auto split: if_splits)
next
  case E_Resume
  then obtain s m where p: "bl_pump b = P_Attaching s m" and b': "b' = route_to (attached_or_target s m b) m (b\<lparr>bl_pump := P_Running\<rparr>)"
    using st by (auto split: pump.splits)
  obtain v where "m = Json v" "attached_page_session v = Some s" using b(2) p by (auto simp: attach_known_def)
  then have "filed_right (attached_or_target s m b) m" by (simp add: filed_attaching)
  then show ?thesis unfolding files_def
    by (intro conjI exI [of _ "[(attached_or_target s m b, m)]"])
      (simp_all add: b' route_routed pump_holds_def attach_known_def p comes_in_def E_Resume)
next
  case E_Listen
  then show ?thesis using st b(2) by (intro files_quiet) (auto simp: comes_in_def pump_holds_def split: if_splits)
next
  case (E_Answered s)
  then have "blocker_step (E_Answered s) b = Some b'" using st by simp
  then have "bl_pump b' = bl_pump b \<and> bl_routed b' = bl_routed b"
  proof (cases rule: answeredE)
    case (refused i)
    then show ?thesis using fail_closed_open op by metis
  next
    case (accepted i v)
    then show ?thesis by (simp add: end_task_def secure_target_def)
  qed
  then show ?thesis using b(2) by (intro files_quiet) (simp_all add: comes_in_def E_Answered)
next
  case (E_Command_Failed s)
  then have "b' = b" using failing_eventE [OF st] fail_closed_open op by blast
  then show ?thesis using b(2) by (intro files_quiet) (simp_all add: comes_in_def E_Command_Failed)
next
  case (E_Timeout s)
  then have "b' = b" using failing_eventE [OF st] fail_closed_open op by blast
  then show ?thesis using b(2) by (intro files_quiet) (simp_all add: comes_in_def E_Timeout)
next
  case E_Upstream_Ends
  then have "bl_pump b = P_Running" "b' = pump_ends I_Closed b" using st by (auto split: if_splits)
  then show ?thesis using ends_routed [of I_Closed b] b(2)
    by (intro files_quiet) (auto simp: comes_in_def E_Upstream_Ends pump_holds_def)
next
  case E_Upstream_Raises
  then have "bl_pump b = P_Running" "b' = pump_ends I_Error b" using st by (auto split: if_splits)
  then show ?thesis using ends_routed [of I_Error b] b(2)
    by (intro files_quiet) (auto simp: comes_in_def E_Upstream_Raises pump_holds_def)
next
  case E_Fail_Finish
  then have "b' = fail_finish b" "bl_closed b" using st b by (auto simp: blk_ok_def split: if_splits)
  moreover have "bl_closed (fail_finish b) = bl_closed b" by (simp add: fail_finish_def enqueue_terminal_def)
  ultimately show ?thesis using op by simp
next
  case E_Take
  then show ?thesis using st b(2) by (intro files_quiet) (auto simp: comes_in_def split: list.splits)
next
  case (E_Close clean)
  then show ?thesis using st op by (auto simp: Let_def enqueue_terminal_def split: if_splits)
qed (intro files_quiet; use quiet_eventE [OF st] quiet_pump [OF st] b(2) in \<open>simp add: comes_in_def\<close>)+

lemma closed_stays: "blocker_step e b = Some b' \<Longrightarrow> blk_ok b \<Longrightarrow> bl_closed b \<Longrightarrow> bl_closed b'"
proof (cases e)
  case (E_Send m)
  assume "blocker_step e b = Some b'" "bl_closed b"
  then show ?thesis using E_Send by (cases m) (auto split: if_splits)
qed (auto simp: blk_ok_def fail_finish_def enqueue_terminal_def split: if_splits option.splits list.splits config_task.splits pump.splits)

lemma run_closed: "blocker_run es b = Some b' \<Longrightarrow> blk_ok b \<Longrightarrow> bl_closed b \<Longrightarrow> bl_closed b'"
  by (induction es arbitrary: b) (auto split: option.splits dest: closed_stays blk_ok_step)

lemma run_routes_from:
  assumes "blocker_run es b = Some b'" "\<not> bl_closed b'" "blk_ok b" "attach_known b"
  shows "\<exists>new. bl_routed b' = bl_routed b @ new \<and> (\<forall>(t, m) \<in> set new. filed_right t m)
    \<and> map snd new @ pump_holds b' = pump_holds b @ for_client es b"
  using assms
proof (induction es arbitrary: b)
  case (Cons e es)
  from Cons.prems(1) obtain b1 where b1: "blocker_step e b = Some b1" "blocker_run es b1 = Some b'"
    by (auto split: option.splits)
  have ok1: "blk_ok b1" by (rule blk_ok_step [OF Cons.prems(3) b1(1)])
  have op: "\<not> bl_closed b1" using run_closed [OF b1(2) ok1] Cons.prems(2) by blast
  from files_step [OF Cons.prems(3,4) b1(1) op] obtain n1 where n1: "bl_routed b1 = bl_routed b @ n1"
    "\<forall>(t, m) \<in> set n1. filed_right t m" "map snd n1 @ pump_holds b1 = pump_holds b @ comes_in e b" and at: "attach_known b1"
    unfolding files_def by blast
  from Cons.IH [OF b1(2) Cons.prems(2) ok1 at] obtain n2 where n2: "bl_routed b' = bl_routed b1 @ n2"
    "\<forall>(t, m) \<in> set n2. filed_right t m" "map snd n2 @ pump_holds b' = pump_holds b1 @ for_client es b1" by blast
  have "map snd (n1 @ n2) @ pump_holds b' = (map snd n1 @ pump_holds b1) @ for_client es b1" by (simp add: n2(3))
  also have "\<dots> = pump_holds b @ for_client (e # es) b" unfolding n1(3) by (simp add: b1(1))
  finally have "map snd (n1 @ n2) @ pump_holds b' = pump_holds b @ for_client (e # es) b" .
  then show ?case using n1 n2 by (intro exI [of _ "n1 @ n2"]) auto
qed simp

lemma run_routes:
  assumes "blocker_run es b = Some b'" "\<not> bl_closed b'" "blk_ok b"
    and "bl_routed b = []" "bl_pump b = P_Idle"
  shows "map snd (bl_routed b') @ pump_holds b' = for_client es b" "\<forall>(t, m) \<in> set (bl_routed b'). filed_right t m"
  using run_routes_from [OF assms(1-3)] assms(4,5) by (auto simp: attach_known_def pump_holds_def)

section \<open>After a failure\<close>

text \<open>The events by which the installation of the blocklist fails.\<close>

definition blocklist_fails :: "blocker_event \<Rightarrow> blocker \<Rightarrow> bool" where
  "blocklist_fails e b \<longleftrightarrow>
     (case e of
        E_Command_Failed s \<Rightarrow> True
      | E_Timeout s \<Rightarrow> True
      | E_Answered s \<Rightarrow> list_ex (\<lambda>((s', i), a). s' = Some s \<and> map_of (bl_tasks b) s = Some (T_Waiting i)
            \<and> map_of (bl_responses b) (s', i) = Some a \<and> (case a of Some v \<Rightarrow> jget v ''error'' \<noteq> None | None \<Rightarrow> False)) (bl_responses b)
      | E_Upstream_Ends \<Rightarrow> bl_unconfigured b \<noteq> []
      | E_Upstream_Raises \<Rightarrow> bl_unconfigured b \<noteq> []
      | _ \<Rightarrow> False)"

definition fail_shape :: "item list \<Rightarrow> item list \<Rightarrow> blocker \<Rightarrow> bool" where
  "fail_shape shown waiting b \<longleftrightarrow> blk_ok b \<and> bl_closed b \<and> bl_failed b \<and> (\<exists>taken rest. waiting = taken @ rest
     \<and> (if bl_failing b then bl_delivered b = shown @ taken \<and> bl_queue b = rest
        else bl_upstream_closed b \<and> bl_delivered b @ bl_queue b = shown @ taken @ [I_Error] \<and> length (bl_queue b) \<le> 1))"

lemma fail_begins:
  assumes ok: "blk_ok b" and f: "blocklist_fails e b" and st: "blocker_step e b = Some b'"
  shows "fail_shape (bl_delivered b) (bl_queue b) b'"
proof -
  have "\<exists>r. b' = fail_closed r b \<and> \<not> bl_closed b"
  proof (cases e)
    case (E_Answered s)
    then have "blocker_step (E_Answered s) b = Some b'" using st by simp
    then show ?thesis by (cases rule: answeredE) (use f E_Answered in \<open>auto simp: blocklist_fails_def list_ex_iff split: option.splits\<close>)
  next
    case (E_Command_Failed s)
    then show ?thesis using failing_eventE [OF st] by auto
  next
    case (E_Timeout s)
    then show ?thesis using failing_eventE [OF st] by auto
  next
    case E_Upstream_Ends
    then show ?thesis using st f running_open [OF ok] by (auto simp: blocklist_fails_def pump_ends_def split: if_splits)
  next
    case E_Upstream_Raises
    then show ?thesis using st f running_open [OF ok] by (auto simp: blocklist_fails_def pump_ends_def split: if_splits)
  qed (use f in \<open>simp_all add: blocklist_fails_def\<close>)
  then obtain r where r: "b' = fail_closed r b" "\<not> bl_closed b" by blast
  then have "bl_failed b'" "bl_failing b'" "bl_closed b'" "bl_delivered b' = bl_delivered b" "bl_queue b' = bl_queue b"
    using ok by (auto simp: fail_closed_def blk_ok_def)
  then show ?thesis using blk_ok_step [OF ok st] by (auto simp: fail_shape_def)
qed

lemma fail_shape_step:
  assumes sh: "fail_shape shown waiting b" and st: "blocker_step e b = Some b'"
  shows "fail_shape shown waiting b'"
proof -
  have ok: "blk_ok b" "bl_closed b" "bl_failed b" and stop: "bl_pump b = P_Stopped" and nt: "bl_failing b \<Longrightarrow> \<not> bl_terminal b"
    using sh by (auto simp: fail_shape_def blk_ok_def)
  have ok': "blk_ok b'" "bl_closed b'" using blk_ok_step [OF ok(1) st] closed_stays [OF st ok(1,2)] by blast+
  obtain taken rest where t: "waiting = taken @ rest" and c: "if bl_failing b then bl_delivered b = shown @ taken \<and> bl_queue b = rest
      else bl_upstream_closed b \<and> bl_delivered b @ bl_queue b = shown @ taken @ [I_Error] \<and> length (bl_queue b) \<le> 1"
    using sh unfolding fail_shape_def by blast
  show ?thesis
  proof (cases e)
    case E_Take
    then obtain x q where x: "bl_queue b = x # q" "b' = b\<lparr>bl_queue := q, bl_delivered := bl_delivered b @ [x]\<rparr>"
      using st by (auto split: list.splits)
    show ?thesis
    proof (cases "bl_failing b")
      case True
      have "waiting = (taken @ [x]) @ q \<and> bl_delivered b' = shown @ (taken @ [x]) \<and> bl_queue b' = q \<and> bl_failing b'"
        using x c t True by simp
      then show ?thesis using ok ok' x(2) by (auto simp: fail_shape_def)
    next
      case False
      have "bl_upstream_closed b' \<and> bl_delivered b' @ bl_queue b' = shown @ taken @ [I_Error] \<and> length (bl_queue b') \<le> 1 \<and> \<not> bl_failing b'"
        using x c False by auto
      then show ?thesis using ok ok' t x(2) by (auto simp: fail_shape_def)
    qed
  next
    case E_Fail_Finish
    then have b': "b' = fail_finish b" "bl_failing b" using st by (auto split: if_splits)
    then have "bl_upstream_closed b' \<and> bl_delivered b' @ bl_queue b' = shown @ taken @ [I_Error] \<and> length (bl_queue b') \<le> 1
        \<and> \<not> bl_failing b' \<and> bl_failed b'"
      using c nt ok(3) by (simp add: fail_finish_def enqueue_terminal_def)
    then show ?thesis using ok' t unfolding fail_shape_def by auto
  next
    case (E_Close clean)
    then show ?thesis using st sh ok(2) by simp
  next
    case (E_Answered s)
    then show ?thesis using st ok(2) by (auto split: option.splits config_task.splits)
  next
    case (E_Command_Failed s)
    then show ?thesis using st ok(2) by (auto split: option.splits config_task.splits)
  next
    case (E_Timeout s)
    then show ?thesis using st ok(2) by (auto split: option.splits config_task.splits)
  next
    case E_Resume
    then show ?thesis using st stop by simp
  next
    case (E_Upstream m)
    then show ?thesis using st stop by simp
  next
    case E_Upstream_Ends
    then show ?thesis using st stop by simp
  next
    case E_Upstream_Raises
    then show ?thesis using st stop by simp
  qed (use quiet_eventE [OF st] c t ok ok' in \<open>auto simp: fail_shape_def\<close>)
qed

lemma fail_shape_steps: "steps blocker_trans b es b' \<Longrightarrow> fail_shape shown waiting b \<Longrightarrow> fail_shape shown waiting b'"
  by (induction rule: steps.induct) (auto elim!: blocker_transE dest: fail_shape_step)

section \<open>The proxy's commands and the client's\<close>

definition keys_ok :: "blocker \<Rightarrow> bool" where
  "keys_ok b \<longleftrightarrow> set (bl_downstream b) \<inter> fst ` set (bl_responses b) = {}"

lemma keys_shrink:
  "keys_ok b \<Longrightarrow> set (bl_downstream b') \<subseteq> set (bl_downstream b) \<Longrightarrow> fst ` set (bl_responses b') \<subseteq> fst ` set (bl_responses b) \<Longrightarrow> keys_ok b'"
  unfolding keys_ok_def by blast

lemma keys_fail: "keys_ok b \<Longrightarrow> keys_ok (fail_closed r b)"
  by (rule keys_shrink) (auto simp: fail_closed_def)

lemma keys_same:
  "bl_downstream (pump_ends x b) = bl_downstream b" "fst ` set (bl_responses (pump_ends x b)) \<subseteq> fst ` set (bl_responses b)"
  "bl_downstream (route_to t m b) = bl_downstream b" "bl_responses (route_to t m b) = bl_responses b"
  "bl_downstream (begin_target_configuration s v b) = bl_downstream b"
  "bl_responses (begin_target_configuration s v b) = bl_responses b"
proof -
  show "fst ` set (bl_responses (pump_ends x b)) \<subseteq> fst ` set (bl_responses b)"
    by (auto simp: pump_ends_def fail_closed_def enqueue_terminal_def)
qed (simp_all add: pump_ends_def fail_closed_def enqueue_terminal_def route_to_def begin_target_configuration_def Let_def
    split: option.split)

lemma keys_note: "keys_ok b \<Longrightarrow> keys_ok (note_received v b)"
proof (rule note_receivedE [of v b])
  fix rs ks
  assume ok: "keys_ok b" and n: "note_received v b = b\<lparr>bl_received := bl_received b @ [v], bl_responses := rs, bl_downstream := ks\<rparr>"
    and rs: "rs = bl_responses b \<or> (\<exists>k. value_command_key v = Some k \<and> map_of (bl_responses b) k = Some None
        \<and> rs = set_key k (Some v) (bl_responses b))" and ks: "set ks \<subseteq> set (bl_downstream b)"
  have "fst ` set rs \<subseteq> fst ` set (bl_responses b)" using rs
  proof
    assume "\<exists>k. value_command_key v = Some k \<and> map_of (bl_responses b) k = Some None \<and> rs = set_key k (Some v) (bl_responses b)"
    then obtain k where "k \<in> fst ` set (bl_responses b)" "rs = set_key k (Some v) (bl_responses b)"
      using map_of_Some_fst by metis
    then show ?thesis by (simp add: insert_absorb)
  qed simp
  with ks show ?thesis unfolding n by (intro keys_shrink [OF ok]) simp_all
qed

lemma keys_message: "keys_ok b \<Longrightarrow> keys_ok (route_upstream_message m b)"
proof -
  assume ok: "keys_ok b"
  note n = keys_note [OF ok]
  have e: "keys_ok c \<Longrightarrow> keys_ok (pump_ends x c)" for c x by (erule keys_shrink) (simp_all add: keys_same)
  have r: "keys_ok c \<Longrightarrow> keys_ok (route_to t w c)" for c t w by (erule keys_shrink) (simp_all add: keys_same)
  have a: "keys_ok c \<Longrightarrow> keys_ok (begin_target_configuration s v c\<lparr>bl_pump := p\<rparr>)" for c s v p
    by (erule keys_shrink) (simp_all add: keys_same)
  show ?thesis by (cases rule: messageE [of m b]) (use ok n in \<open>simp_all add: e r a\<close>)
qed

lemma keys_configure: "keys_ok b \<Longrightarrow> keys_ok (start_configuration s b)"
  using free_id_fresh [of s "bl_downstream b @ map fst (bl_responses b)" "bl_next_id b"]
  by (simp add: keys_ok_def start_configuration_def Let_def)

lemma keys_step:
  assumes ok: "keys_ok b" and st: "blocker_step e b = Some b'"
  shows "keys_ok b'"
proof (cases e)
  case (E_Upstream m)
  then show ?thesis using st keys_message [OF ok] by (auto split: if_splits)
next
  case E_Resume
  then obtain s m where "b' = route_to (attached_or_target s m b) m (b\<lparr>bl_pump := P_Running\<rparr>)" using st by (auto split: pump.splits)
  then show ?thesis using ok by (simp add: keys_ok_def keys_same)
next
  case (E_Configure s)
  then show ?thesis using st keys_configure [OF ok] by (auto split: if_splits)
next
  case (E_Command_Sent s)
  then obtain ts where "b' = b\<lparr>bl_tasks := ts\<rparr>" using st by (auto split: option.splits config_task.splits if_splits)
  then show ?thesis using ok by (simp add: keys_ok_def)
next
  case (E_Answered s)
  then have "blocker_step (E_Answered s) b = Some b'" using st by simp
  then show ?thesis
  proof (cases rule: answeredE)
    case (accepted i v)
    show ?thesis unfolding accepted(5) by (rule keys_shrink [OF ok]) (auto simp: end_task_def secure_target_def)
  qed (simp add: keys_fail [OF ok])
next
  case (E_Command_Failed s)
  then show ?thesis using failing_eventE [OF st] keys_fail [OF ok] by auto
next
  case (E_Timeout s)
  then show ?thesis using failing_eventE [OF st] keys_fail [OF ok] by auto
next
  case E_Upstream_Ends
  then have "b' = pump_ends I_Closed b" using st by (auto split: if_splits)
  then show ?thesis by (simp add: keys_same keys_shrink [OF ok])
next
  case E_Upstream_Raises
  then have "b' = pump_ends I_Error b" using st by (auto split: if_splits)
  then show ?thesis by (simp add: keys_same keys_shrink [OF ok])
next
  case E_Fail_Finish
  then have "b' = fail_finish b" using st by (auto split: if_splits)
  then show ?thesis by (simp add: keys_ok_def fail_finish_def enqueue_terminal_def)
next
  case (E_Send m)
  then have "b' = b \<or> b' = b\<lparr>bl_waiting := m # bl_waiting b\<rparr>" using st by (cases m) (simp_all split: if_splits)
  then show ?thesis using ok by (elim disjE) (simp_all add: keys_ok_def)
next
  case (E_Send_Go m)
  show ?thesis
  proof (cases "send_key m")
    case None
    then have "bl_downstream b' = bl_downstream b" "bl_responses b' = bl_responses b" using E_Send_Go st by (auto split: if_splits)
    then show ?thesis using ok by (simp add: keys_ok_def)
  next
    case (Some k)
    then have "bl_downstream b' = List.insert k (bl_downstream b)" "bl_responses b' = bl_responses b" "k \<notin> fst ` set (bl_responses b)"
      using E_Send_Go st by (auto simp: map_of_None_fst split: if_splits)
    then show ?thesis using ok by (simp add: keys_ok_def)
  qed
next
  case (E_Send_Lost k)
  then have "b' = b\<lparr>bl_downstream := removeAll k (bl_downstream b)\<rparr>" using st by simp
  then show ?thesis using ok by (auto simp: keys_ok_def)
next
  case E_Take
  then obtain x q where "b' = b\<lparr>bl_queue := q, bl_delivered := bl_delivered b @ [x]\<rparr>" using st by (auto split: list.splits)
  then show ?thesis using ok by (simp add: keys_ok_def)
next
  case E_Listen
  then have "b' = b\<lparr>bl_pump := P_Running\<rparr>" using st by (auto split: if_splits)
  then show ?thesis using ok by (simp add: keys_ok_def)
next
  case (E_Close clean)
  have "b' = b \<or> bl_responses b' = []"
    using st E_Close by (cases "bl_closed b"; cases clean) (auto simp: Let_def enqueue_terminal_def)
  then show ?thesis using ok by (elim disjE) (simp_all add: keys_ok_def)
qed

section \<open>The proxy keeps its invariants\<close>

interpretation blocker: invariant_system "blocker_init ps" blocker_trans
  "\<lambda>b. blk_ok b \<and> ack_ok b \<and> order_ok b \<and> keys_ok b" for ps
proof unfold_locales
  show "blocker_init ps b \<Longrightarrow> blk_ok b \<and> ack_ok b \<and> order_ok b \<and> keys_ok b" for b
    by (simp add: blocker_init_def blk_ok_init ack_init)
       (simp add: new_blocker_def order_ok_def keys_ok_def held_back_def arrived_def split: option.split)
  show "blk_ok b \<and> ack_ok b \<and> order_ok b \<and> keys_ok b \<Longrightarrow> blocker_trans b e b' \<Longrightarrow>
      blk_ok b' \<and> ack_ok b' \<and> order_ok b' \<and> keys_ok b'" for b e b'
    using blk_ok_step ack_step order_step keys_step by (auto elim!: blocker_transE)
qed

lemma blocker_reach:
  assumes "reach (blocker_init ps) blocker_trans b"
  shows "blk_ok b" "ack_ok b" "order_ok b" "keys_ok b"
  using blocker.reach_inv [OF assms] by blast+

section \<open>Properties\<close>

lemma blocker_run_reach:
  "blocker_run es b = Some b' \<Longrightarrow> reach (blocker_init ps) blocker_trans b \<Longrightarrow> reach (blocker_init ps) blocker_trans b'"
  by (induction es arbitrary: b) (auto split: option.splits intro: reach_step blocker_event)

lemma blocker_demo: "blocker_run es (new_blocker ps) = Some b \<Longrightarrow> reach (blocker_init ps) blocker_trans b"
  by (erule blocker_run_reach) (auto intro: reach_init simp: blocker_init_def)

text \<open>A run: a page attaches, its load event arrives while the blocklist is being installed, the browser accepts.\<close>

definition demo_attached :: wire where
  "demo_attached = Json (JObj [(''method'', JStr ''Target.attachedToTarget''),
     (''params'', JObj [(''sessionId'', JStr ''s1''),
        (''targetInfo'', JObj [(''type'', JStr ''page''), (''targetId'', JStr ''t1'')])])])"

definition demo_load :: wire where
  "demo_load = Json (JObj [(''method'', JStr ''Page.loadEventFired''), (''sessionId'', JStr ''s1'')])"

definition demo_answer :: "bool \<Rightarrow> wire" where
  "demo_answer fine = Json (JObj ([(''id'', JInt (-1)), (''sessionId'', JStr ''s1'')]
     @ (if fine then [(''result'', JObj [])] else [(''error'', JObj [])])))"

definition demo_events :: "blocker_event list" where
  "demo_events = [E_Listen, E_Upstream demo_attached, E_Configure ''s1'', E_Resume, E_Command_Sent ''s1'',
     E_Upstream demo_load, E_Upstream (demo_answer True), E_Answered ''s1'', E_Take]"

definition demo_blocker :: blocker where
  "demo_blocker = the (blocker_run demo_events (new_blocker [''*.ads.io'']))"

lemma demo_run: "blocker_run demo_events (new_blocker [''*.ads.io'']) \<noteq> None"
  by code_simp

lemma demo_blocker_reach: "reach (blocker_init [''*.ads.io'']) blocker_trans demo_blocker"
proof -
  have "blocker_run demo_events (new_blocker [''*.ads.io'']) \<noteq> None" by code_simp
  then show ?thesis unfolding demo_blocker_def by (intro blocker_demo) auto
qed

text \<open>C10: a page target is announced to the client, or queued for it, only after the browser has been sent the
  complete blocklist for the target's session and has accepted it, whatever the interleaving of
  attach events, commands, answers, timeouts and closes.\<close>

theorem announced_after_blocking:
  assumes "reach (blocker_init ps) blocker_trans b" "I_Message t m \<in> set (bl_delivered b @ bl_queue b)" "announces m = Some s"
  shows "\<exists>i. block_command (bl_urls b) s i \<in> set (bl_sent b)
    \<and> (\<exists>v \<in> set (bl_received b). value_command_key v = Some (Some s, i) \<and> jget v ''error'' = None)"
  using blocker_reach(2) [OF assms(1)] assms(2,3) unfolding ack_ok_def shown_ok_def accepted_def by blast

theorem announced_after_blocking_witness:
  "announces demo_attached = Some ''s1'' \<and> bl_delivered demo_blocker = [I_Message (Some ''s1'') demo_attached]
   \<and> (\<exists>i. block_command (bl_urls demo_blocker) ''s1'' i \<in> set (bl_sent demo_blocker))"
proof -
  have a: "announces demo_attached = Some ''s1''" and d: "bl_delivered demo_blocker = [I_Message (Some ''s1'') demo_attached]" by code_simp+
  from announced_after_blocking [OF demo_blocker_reach _ a, of "Some ''s1''"] d
  have "\<exists>i. block_command (bl_urls demo_blocker) ''s1'' i \<in> set (bl_sent demo_blocker)" by auto
  with a d show ?thesis by blast
qed

text \<open>C21: while the connection is open no message is lost, duplicated or reordered within its target: take any run of events
  and the messages that came in during it, in their order (without the answers to the proxy's own commands, and without a
  message that raises); for every target, what the client has received and what is queued or held back for it, in this
  order, are those of the messages that name the target, but for the one message the pump may still be holding. A
  message that announces a session or carries a session identifier belongs to that session, text that is not JSON
  to none.\<close>

theorem target_order_kept:
  assumes "blocker_run es (new_blocker ps) = Some b" "\<not> bl_closed b"
  shows "\<exists>filed. map snd filed @ pump_holds b = for_client es (new_blocker ps) \<and> (\<forall>(t, m) \<in> set filed. filed_right t m)
    \<and> (\<forall>t. for_target t (bl_delivered b @ bl_queue b) @ held_back t (bl_buffers b) = map snd (filter (\<lambda>(t', _). t' = t) filed))"
proof (intro exI conjI)
  have r: "reach (blocker_init ps) blocker_trans b" by (rule blocker_demo [OF assms(1)])
  have "blk_ok (new_blocker ps)" by (rule blk_ok_init)
  from run_routes [OF assms this] show "map snd (bl_routed b) @ pump_holds b = for_client es (new_blocker ps)"
    "\<forall>(t, m) \<in> set (bl_routed b). filed_right t m"
    by (simp_all add: new_blocker_def pump_holds_def)
  show "\<forall>t. for_target t (bl_delivered b @ bl_queue b) @ held_back t (bl_buffers b) = map snd (filter (\<lambda>(t', _). t' = t) (bl_routed b))"
    using blocker_reach(3) [OF r] assms(2) by (simp add: order_ok_def arrived_def)
qed

theorem target_order_kept_witness:
  "for_target (Some ''s1'') (bl_delivered demo_blocker @ bl_queue demo_blocker) = [demo_attached, demo_load]
   \<and> for_client demo_events (new_blocker [''*.ads.io'']) = [demo_attached, demo_load]"
proof -
  have r: "blocker_run demo_events (new_blocker [''*.ads.io'']) = Some demo_blocker"
    using demo_run by (auto simp: demo_blocker_def)
  have c: "\<not> bl_closed demo_blocker" "held_back (Some ''s1'') (bl_buffers demo_blocker) = []" "pump_holds demo_blocker = []"
    "for_client demo_events (new_blocker [''*.ads.io'']) = [demo_attached, demo_load]" by code_simp+
  from target_order_kept [OF r c(1)] obtain filed where "map snd filed @ pump_holds demo_blocker = for_client demo_events (new_blocker [''*.ads.io''])"
    and right: "\<forall>(t, m) \<in> set filed. filed_right t m"
    and got: "\<And>t. for_target t (bl_delivered demo_blocker @ bl_queue demo_blocker) @ held_back t (bl_buffers demo_blocker)
        = map snd (filter (\<lambda>(t', _). t' = t) filed)"
    by blast
  then have f: "map snd filed = [demo_attached, demo_load]" "\<forall>(t, m) \<in> set filed. filed_right t m"
    "for_target (Some ''s1'') (bl_delivered demo_blocker @ bl_queue demo_blocker) = map snd (filter (\<lambda>(t', _). t' = Some ''s1'') filed)"
    using got [of "Some ''s1''"] c by simp_all
  have "announces demo_attached = Some ''s1''" "announces demo_load = None" "session_named demo_load = Some ''s1''" by code_simp+
  moreover have "\<exists>v. demo_attached = Json v" "\<exists>v. demo_load = Json v" by (simp_all add: demo_attached_def demo_load_def)
  ultimately have "filed = [(Some ''s1'', demo_attached), (Some ''s1'', demo_load)]"
    using f(1,2) by (auto simp: filed_right_def map_eq_Cons_conv split: wire.splits)
  with f(3) c(4) show ?thesis by simp
qed

text \<open>C22: when the browser refuses the blocklist of a target, or the command cannot be sent, or no answer comes in time, or the
  browser's stream ends while a target is still being configured, the session fails closed: from then on, whatever
  happens, nothing that was held back is shown; the client can at most take messages that were already queued, and then its
  stream ends with exactly one error; when the clean-up is done the browser connection is closed and only that error is left.\<close>

theorem fails_closed:
  assumes "reach (blocker_init ps) blocker_trans b" "blocklist_fails e b" "blocker_step e b = Some b1" "steps blocker_trans b1 es b2"
  shows "bl_failed b2 \<and> (\<exists>taken rest. bl_queue b = taken @ rest
    \<and> (if bl_failing b2 then bl_delivered b2 = bl_delivered b @ taken \<and> bl_queue b2 = rest
       else bl_upstream_closed b2 \<and> bl_delivered b2 @ bl_queue b2 = bl_delivered b @ taken @ [I_Error]
         \<and> length (bl_queue b2) \<le> 1))"
proof -
  have ok: "blk_ok b" by (rule blocker_reach(1) [OF assms(1)])
  from fail_begins [OF ok assms(2,3)] have "fail_shape (bl_delivered b) (bl_queue b) b1" .
  from fail_shape_steps [OF assms(4) this] show ?thesis unfolding fail_shape_def by blast
qed

theorem fails_closed_witness:
  "case blocker_run [E_Listen, E_Upstream demo_attached, E_Configure ''s1'', E_Resume, E_Command_Sent ''s1'', E_Upstream demo_load]
      (new_blocker [''*.ads.io'']) of None \<Rightarrow> False
    | Some b \<Rightarrow> (case blocker_step (E_Timeout ''s1'') b of None \<Rightarrow> False
        | Some b1 \<Rightarrow> (case blocker_step E_Fail_Finish b1 of None \<Rightarrow> False
            | Some b2 \<Rightarrow> bl_upstream_closed b2 \<and> bl_delivered b2 @ bl_queue b2 = [I_Error]))"
proof -
  let ?run = "blocker_run [E_Listen, E_Upstream demo_attached, E_Configure ''s1'', E_Resume, E_Command_Sent ''s1'', E_Upstream demo_load]
      (new_blocker [''*.ads.io''])"
  have "case ?run of None \<Rightarrow> False | Some b \<Rightarrow> blocklist_fails (E_Timeout ''s1'') b \<and> bl_queue b = [] \<and> bl_delivered b = []
      \<and> (case blocker_step (E_Timeout ''s1'') b of None \<Rightarrow> False
        | Some b1 \<Rightarrow> (case blocker_step E_Fail_Finish b1 of None \<Rightarrow> False | Some b2 \<Rightarrow> \<not> bl_failing b2))" by code_simp
  then obtain b b1 b2 where r: "?run = Some b" "blocklist_fails (E_Timeout ''s1'') b" "bl_queue b = []" "bl_delivered b = []"
    and b1: "blocker_step (E_Timeout ''s1'') b = Some b1" and b2: "blocker_step E_Fail_Finish b1 = Some b2" "\<not> bl_failing b2"
    by (auto split: option.splits simp del: blocker_step.simps)
  have "steps blocker_trans b1 [E_Fail_Finish] b2" by (blast intro: steps.intros blocker_event b2(1))
  from fails_closed [OF blocker_demo [OF r(1)] r(2) b1 this] r b1 b2 show ?thesis by (simp del: blocker_step.simps)
qed

text \<open>the proxy's own commands never share an identifier with a command of the client that awaits its answer,
  so no answer for the client is swallowed and none is mistaken for the browser's acceptance.\<close>

theorem answers_not_confused:
  assumes "reach (blocker_init ps) blocker_trans b"
  shows "set (bl_downstream b) \<inter> fst ` set (bl_responses b) = {}"
  using blocker_reach(4) [OF assms] by (simp add: keys_ok_def)

theorem answers_not_confused_witness:
  "\<exists>b. blocker_run [E_Listen, E_Send (demo_answer True), E_Send_Go (demo_answer True), E_Upstream demo_attached, E_Configure ''s1'']
        (new_blocker [''*.ads.io'']) = Some b
     \<and> bl_downstream b = [(Some ''s1'', -1)] \<and> (Some ''s1'', -1) \<notin> fst ` set (bl_responses b)"
proof -
  let ?r = "blocker_run [E_Listen, E_Send (demo_answer True), E_Send_Go (demo_answer True), E_Upstream demo_attached, E_Configure ''s1'']
        (new_blocker [''*.ads.io''])"
  have "(case ?r of None \<Rightarrow> False | Some b \<Rightarrow> bl_downstream b = [(Some ''s1'', -1)])" by code_simp
  then obtain b where r: "?r = Some b" "bl_downstream b = [(Some ''s1'', -1)]" by (auto split: option.splits)
  from answers_not_confused [OF blocker_demo [OF r(1)]] r show ?thesis by auto
qed

end
