(* ===== verification/Cdp_Observer.thy ===== *)
theory Cdp_Observer
  imports Urls Contracts
begin

text \<open>
  The protocol observer (\<^verbatim>\<open>backend/events/cdp.py\<close>): it watches the Chrome DevTools messages a
  relay forwards, matches answers with commands, accounts the commands of an attempt by method, measures
  how long commands were in flight, and publishes normalised evidence. Dictionaries are association
  lists in insertion order (\<open>AList.update\<close> replaces in place or appends, as Python does). An
  operation that publishes returns the observer and whether the payload failed its validation, which raises.
  The readings of the monotonic clock are arguments; events handed to the publisher are kept in
  \<open>ob_events\<close>. The SHA-256 digest and \<open>str\<close> of a JSON value are the fields of \<open>observer_env\<close>.
  Prometheus counters are left out.
\<close>

section \<open>Events and payloads\<close>

datatype event_type =
    SESSION_OPEN | SESSION_CLOSED | SESSION_FAILED | ATTEMPT_CONNECTED | ATTEMPT_FAILED | ATTEMPT_CLOSED
  | COMMAND_SUMMARY | COMMAND_FAILED | COMMAND_INTERRUPTED
  | NAVIGATION_REQUESTED | NAVIGATION_REDIRECTED | NAVIGATION_RESPONSE | NAVIGATION_FAILED
  | PAGE_CONTENT_OBSERVED | PAGE_CRASHED | CONSOLE_MESSAGE | JAVASCRIPT_EXCEPTION
  | PROVIDER_DISCONNECTED | CAPTURE_COMPLETED | DOMAIN_PACING_ADJUSTED

record command_usage =
  cu_count :: int
  cu_failed_count :: int
  cu_interrupted_count :: int
  cu_duration_ms :: int
  cu_provider_latency_ms :: int
  cu_stolosio_queue_ms :: int

definition no_usage :: command_usage where
  "no_usage = \<lparr>cu_count = 0, cu_failed_count = 0, cu_interrupted_count = 0, cu_duration_ms = 0,
     cu_provider_latency_ms = 0, cu_stolosio_queue_ms = 0\<rparr>"

record command_payload =
  cp_command_id :: int
  cp_command_sequence :: int
  cp_method :: string
  cp_domain :: "string option"
  cp_duration_ms :: int
  cp_provider_latency_ms :: int
  cp_stolosio_queue_ms :: int
  cp_reason :: "string option"
  cp_cdp_error_code :: "int option"

record observation_payload =
  op_url :: "string option"
  op_previous_url :: "string option"
  op_status :: "int option"
  op_mime_type :: "json option"
  op_resource_type :: "string option"
  op_selected_headers :: "(string \<times> string list) list option"
  op_error_type :: "string option"
  op_content_length :: "int option"
  op_level :: "string option"
  op_source :: "string option"
  op_message_fingerprint :: "string option"

definition no_observation :: observation_payload where
  "no_observation = \<lparr>op_url = None, op_previous_url = None, op_status = None, op_mime_type = None,
     op_resource_type = None, op_selected_headers = None, op_error_type = None, op_content_length = None,
     op_level = None, op_source = None, op_message_fingerprint = None\<rparr>"

datatype payload =
    Command_Payload command_payload
  | Summary_Payload "(string \<times> command_usage) list"
  | Observation_Payload observation_payload
  | Disconnect_Payload string

definition COMMAND_SUMMARY_METHOD_LIMIT :: nat where "COMMAND_SUMMARY_METHOD_LIMIT = 256"

definition OTHER_COMMAND_METHOD :: string where "OTHER_COMMAND_METHOD = ''__other__''"

definition at_most :: "nat \<Rightarrow> string option \<Rightarrow> bool" where
  "at_most n s = (case s of None \<Rightarrow> True | Some x \<Rightarrow> length x \<le> n)"

definition usage_payload_ok :: "command_usage \<Rightarrow> bool" where
  "usage_payload_ok u \<longleftrightarrow> 1 \<le> cu_count u \<and> 0 \<le> cu_failed_count u \<and> 0 \<le> cu_interrupted_count u
     \<and> 0 \<le> cu_duration_ms u \<and> 0 \<le> cu_provider_latency_ms u \<and> 0 \<le> cu_stolosio_queue_ms u"

definition payload_ok :: "payload \<Rightarrow> bool" where
  "payload_ok p =
     (case p of
        Command_Payload c \<Rightarrow> length (cp_method c) \<le> 128 \<and> at_most 253 (cp_domain c) \<and> at_most 64 (cp_reason c)
      | Summary_Payload ms \<Rightarrow> length ms \<le> COMMAND_SUMMARY_METHOD_LIMIT
          \<and> list_all (\<lambda>(m, u). length m \<le> 128 \<and> usage_payload_ok u) ms
      | Observation_Payload ob \<Rightarrow>
          (case op_mime_type ob of None \<Rightarrow> True | Some v \<Rightarrow> jstr (Some v) \<noteq> None)
          \<and> at_most 64 (op_error_type ob) \<and> at_most 16 (op_level ob) \<and> at_most 32 (op_source ob)
          \<and> at_most 64 (op_message_fingerprint ob)
      | Disconnect_Payload r \<Rightarrow> length r \<le> 64)"

record observed_event =
  ev_type :: event_type
  ev_session_id :: string
  ev_provider :: "provider_name option"
  ev_attempt_id :: "string option"
  ev_payload :: payload

section \<open>Time with commands in flight\<close>

record phase_usage =
  ph_started_at :: rat
  ph_first_command_at :: "rat option"
  ph_last_command_at :: "rat option"
  ph_active_started_at :: "rat option"
  ph_active_command_count :: int
  ph_command_active_seconds :: rat
  ph_provider_bootstrap_ms :: int
  ph_provider_close_ms :: int

definition new_phase :: "rat \<Rightarrow> phase_usage" where
  "new_phase now = \<lparr>ph_started_at = now, ph_first_command_at = None, ph_last_command_at = None,
     ph_active_started_at = None, ph_active_command_count = 0, ph_command_active_seconds = 0,
     ph_provider_bootstrap_ms = 0, ph_provider_close_ms = 0\<rparr>"

definition command_started :: "rat \<Rightarrow> phase_usage \<Rightarrow> phase_usage" where
  "command_started now u =
     u\<lparr>ph_first_command_at := (case ph_first_command_at u of None \<Rightarrow> Some now | Some t \<Rightarrow> Some t),
       ph_active_started_at := (if ph_active_command_count u = 0 then Some now else ph_active_started_at u),
       ph_active_command_count := ph_active_command_count u + 1\<rparr>"

definition command_finished :: "rat \<Rightarrow> phase_usage \<Rightarrow> phase_usage" where
  "command_finished now u =
     (if ph_active_command_count u \<le> 0 then u
      else
        let u1 = u\<lparr>ph_active_command_count := ph_active_command_count u - 1, ph_last_command_at := Some now\<rparr>
        in case (ph_active_command_count u1 = 0, ph_active_started_at u) of
             (True, Some t) \<Rightarrow>
               u1\<lparr>ph_command_active_seconds := ph_command_active_seconds u + max 0 (now - t),
                  ph_active_started_at := None\<rparr>
           | _ \<Rightarrow> u1)"

record phase_summary =
  sm_measurement_version :: int
  sm_observed_session_ms :: int
  sm_command_active_ms :: int
  sm_no_command_in_flight_ms :: int
  sm_pre_first_command_ms :: "int option"
  sm_post_last_command_ms :: "int option"
  sm_provider_bootstrap_ms :: int
  sm_provider_close_ms :: int

definition ms_between :: "rat \<Rightarrow> rat \<Rightarrow> int" where
  "ms_between a b = py_round ((b - a) * 1000)"

definition active_seconds :: "rat \<Rightarrow> phase_usage \<Rightarrow> rat" where
  "active_seconds now u =
     ph_command_active_seconds u
     + (case ph_active_started_at u of
          Some t \<Rightarrow> if ph_active_command_count u \<noteq> 0 then max 0 (now - t) else 0
        | None \<Rightarrow> 0)"

definition phase_snapshot :: "rat \<Rightarrow> phase_usage \<Rightarrow> phase_summary" where
  "phase_snapshot now u =
     (let observed_ms = max 0 (ms_between (ph_started_at u) now);
          command_active_ms = min observed_ms (max 0 (py_round (active_seconds now u * 1000)))
      in \<lparr>sm_measurement_version = 1, sm_observed_session_ms = observed_ms,
          sm_command_active_ms = command_active_ms,
          sm_no_command_in_flight_ms = max 0 (observed_ms - command_active_ms),
          sm_pre_first_command_ms = map_option (\<lambda>t. max 0 (ms_between (ph_started_at u) t)) (ph_first_command_at u),
          sm_post_last_command_ms = map_option (\<lambda>t. max 0 (ms_between t now)) (ph_last_command_at u),
          sm_provider_bootstrap_ms = ph_provider_bootstrap_ms u,
          sm_provider_close_ms = ph_provider_close_ms u\<rparr>)"

section \<open>The observer\<close>

type_synonym command_key = "string option \<times> int"
type_synonym phase_key = "provider_name \<times> string"

record pending_command =
  pc_sequence :: int
  pc_method :: string
  pc_domain :: "string option"
  pc_started_at :: rat
  pc_forwarded_at :: "rat option"
  pc_captures_content :: bool

record observer =
  ob_session_id :: string
  ob_attempt_id :: "string option"
  ob_provider :: "provider_name option"
  ob_pending :: "(command_key \<times> pending_command) list"
  ob_domain :: "string option"
  ob_command_sequence :: int
  ob_command_usage :: "(phase_key \<times> (string \<times> command_usage) list) list"
  ob_attempt_phases :: "(phase_key \<times> phase_usage) list"
  ob_pending_phase_keys :: "(command_key \<times> phase_key) list"
  ob_events :: "observed_event list"

record observer_env =
  oe_url :: url_env
  oe_sha256 :: "string \<Rightarrow> string"
  oe_str :: "json \<Rightarrow> string"

text \<open>\<open>d.setdefault(k, v)\<close> as a dictionary update.\<close>

definition setdefault :: "'k \<Rightarrow> 'v \<Rightarrow> ('k \<times> 'v) list \<Rightarrow> ('k \<times> 'v) list" where
  "setdefault k v d = (case map_of d k of None \<Rightarrow> d @ [(k, v)] | Some _ \<Rightarrow> d)"

definition attempt_key :: "observer \<Rightarrow> phase_key option" where
  "attempt_key b = (case (ob_provider b, ob_attempt_id b) of (Some p, Some a) \<Rightarrow> Some (p, a) | _ \<Rightarrow> None)"

definition start_attempt_phase :: "rat \<Rightarrow> provider_name \<Rightarrow> string \<Rightarrow> observer \<Rightarrow> observer" where
  "start_attempt_phase now p a b =
     b\<lparr>ob_attempt_phases := setdefault (p, a) (new_phase now) (ob_attempt_phases b)\<rparr>"

definition new_observer :: "rat \<Rightarrow> string \<Rightarrow> string option \<Rightarrow> provider_name option \<Rightarrow> observer" where
  "new_observer now sid aid prov =
     (let b = \<lparr>ob_session_id = sid, ob_attempt_id = aid, ob_provider = prov, ob_pending = [], ob_domain = None,
          ob_command_sequence = 0, ob_command_usage = [], ob_attempt_phases = [],
          ob_pending_phase_keys = [], ob_events = []\<rparr>
      in case (prov, aid) of (Some p, Some a) \<Rightarrow> start_attempt_phase now p a b | _ \<Rightarrow> b)"

definition unique_key :: "('k \<Rightarrow> bool) \<Rightarrow> ('k \<times> 'v) list \<Rightarrow> 'k option" where
  "unique_key P d = (case filter P (map fst d) of [k] \<Rightarrow> Some k | _ \<Rightarrow> None)"

definition phase_match :: "string \<Rightarrow> observer \<Rightarrow> phase_key option" where
  "phase_match a b = unique_key (\<lambda>k. snd k = a) (ob_attempt_phases b)"

datatype phase_name = Provider_Bootstrap_Ms | Provider_Close_Ms

definition phase_of_name :: "string \<Rightarrow> phase_name option" where
  "phase_of_name s = (if s = ''provider_bootstrap_ms'' then Some Provider_Bootstrap_Ms
     else if s = ''provider_close_ms'' then Some Provider_Close_Ms else None)"

definition add_phase :: "phase_name \<Rightarrow> int \<Rightarrow> phase_usage \<Rightarrow> phase_usage" where
  "add_phase n ms u =
     (case n of
        Provider_Bootstrap_Ms \<Rightarrow> u\<lparr>ph_provider_bootstrap_ms := ph_provider_bootstrap_ms u + max 0 ms\<rparr>
      | Provider_Close_Ms \<Rightarrow> u\<lparr>ph_provider_close_ms := ph_provider_close_ms u + max 0 ms\<rparr>)"

text \<open>\<open>None\<close>: an unknown phase raises \<open>ValueError\<close>.\<close>

definition record_attempt_phase :: "string \<Rightarrow> string \<Rightarrow> int \<Rightarrow> observer \<Rightarrow> observer option" where
  "record_attempt_phase a phase ms b =
     (case phase_of_name phase of
        None \<Rightarrow> None
      | Some n \<Rightarrow>
          Some (case phase_match a b of
                  None \<Rightarrow> b
                | Some k \<Rightarrow>
                    (case map_of (ob_attempt_phases b) k of
                       None \<Rightarrow> b
                     | Some u \<Rightarrow> b\<lparr>ob_attempt_phases := AList.update k (add_phase n ms u) (ob_attempt_phases b)\<rparr>)))"

definition record_attempt_phases :: "string \<Rightarrow> json option \<Rightarrow> observer \<Rightarrow> observer" where
  "record_attempt_phases a phases b =
     (case phases of
        Some (JObj kvs) \<Rightarrow>
          fold (\<lambda>(phase, v) b. case jint (Some v) of
              Some ms \<Rightarrow> (case record_attempt_phase a phase ms b of Some b' \<Rightarrow> b' | None \<Rightarrow> b)
            | None \<Rightarrow> b) kvs b
      | _ \<Rightarrow> b)"

definition phase_summary_of :: "rat \<Rightarrow> string \<Rightarrow> observer \<Rightarrow> phase_summary option" where
  "phase_summary_of now a b =
     (case phase_match a b of
        None \<Rightarrow> None
      | Some k \<Rightarrow> map_option (phase_snapshot now) (map_of (ob_attempt_phases b) k))"

section \<open>Publishing\<close>

type_synonym emitted = "observer \<times> bool"

definition emit_for_attempt ::
  "event_type \<Rightarrow> provider_name option \<Rightarrow> string option \<Rightarrow> payload \<Rightarrow> observer \<Rightarrow> emitted" where
  "emit_for_attempt ty prov aid p b =
     (if payload_ok p
      then (b\<lparr>ob_events := ob_events b @ [\<lparr>ev_type = ty, ev_session_id = ob_session_id b, ev_provider = prov,
              ev_attempt_id = aid, ev_payload = p\<rparr>]\<rparr>, False)
      else (b, True))"

definition emit :: "event_type \<Rightarrow> payload \<Rightarrow> observer \<Rightarrow> emitted" where
  "emit ty p b = emit_for_attempt ty (ob_provider b) (ob_attempt_id b) p b"

section \<open>Commands\<close>

definition content_expression :: string where
  "content_expression =
     (let nl = CHR 0x0A
      in ''() => {'' @ nl # ''        let retVal = \"\";'' @ nl # ''        if (document.doctype)'' @ nl #
         ''          retVal = new XMLSerializer().serializeToString(document.doctype);'' @ nl #
         ''        if (document.documentElement)'' @ nl #
         ''          retVal += document.documentElement.outerHTML;'' @ nl #
         ''        return retVal;'' @ nl # ''      }'')"

definition captures_page_content :: "string \<Rightarrow> json \<Rightarrow> bool" where
  "captures_page_content m params =
     (m = ''Runtime.callFunctionOn''
      \<and> (case jget params ''arguments'' of
           Some (JArr args) \<Rightarrow> 3 < length args
             \<and> (case args ! 3 of
                  JObj kvs \<Rightarrow> jget (JObj kvs) ''value'' = Some (JStr content_expression)
                    \<and> list_all (\<lambda>(k, _). k = ''value'') kvs
                | _ \<Rightarrow> False)
         | _ \<Rightarrow> False)
      \<and> jget params ''returnByValue'' = Some (JBool True))"

text \<open>What a command says about navigation: the URL to report and the domain the command is filed under.\<close>

definition navigation_of :: "observer_env \<Rightarrow> string \<Rightarrow> json \<Rightarrow> observer \<Rightarrow> string option \<times> string option" where
  "navigation_of e m params b =
     (case (m = ''Page.navigate'', jstr (jget params ''url'')) of
        (True, Some raw) \<Rightarrow> (sanitize_url (oe_url e) raw, normalize_domain (oe_url e) raw)
      | _ \<Rightarrow> (None, ob_domain b))"

definition register_command ::
  "rat \<Rightarrow> command_key \<Rightarrow> string \<Rightarrow> json \<Rightarrow> string option \<Rightarrow> observer \<Rightarrow> observer" where
  "register_command now key m params domain b =
     b\<lparr>ob_command_sequence := ob_command_sequence b + 1,
       ob_pending := AList.update key
         \<lparr>pc_sequence = ob_command_sequence b + 1, pc_method = m, pc_domain = domain, pc_started_at = now,
          pc_forwarded_at = None, pc_captures_content = captures_page_content m params\<rparr> (ob_pending b)\<rparr>"

definition params_of :: "json \<Rightarrow> json" where
  "params_of command = (case jobj (jget command ''params'') of Some p \<Rightarrow> p | None \<Rightarrow> JObj [])"

definition command_received :: "observer_env \<Rightarrow> rat \<Rightarrow> json \<Rightarrow> observer \<Rightarrow> emitted" where
  "command_received e now command b =
     (case (jint (jget command ''id''), jstr (jget command ''method'')) of
        (Some cid, Some m) \<Rightarrow>
          let params = params_of command;
              (url, domain) = navigation_of e m params b;
              (b1, raised) = (case url of
                 None \<Rightarrow> (b, False)
               | Some u \<Rightarrow> emit NAVIGATION_REQUESTED (Observation_Payload (no_observation\<lparr>op_url := Some u\<rparr>)) b)
          in if raised then (b1, True)
             else (register_command now (jstr (jget command ''sessionId''), cid) m params domain b1, False)
      | _ \<Rightarrow> (b, True))"

definition start_phase_command :: "phase_key \<Rightarrow> rat \<Rightarrow> observer \<Rightarrow> observer" where
  "start_phase_command k now b =
     (let phases = setdefault k (new_phase now) (ob_attempt_phases b)
      in b\<lparr>ob_attempt_phases := (case map_of phases k of
             None \<Rightarrow> phases | Some u \<Rightarrow> AList.update k (command_started now u) phases)\<rparr>)"

definition finish_phase_command :: "phase_key \<Rightarrow> rat \<Rightarrow> observer \<Rightarrow> observer" where
  "finish_phase_command k now b =
     (case map_of (ob_attempt_phases b) k of
        None \<Rightarrow> b
      | Some u \<Rightarrow> b\<lparr>ob_attempt_phases := AList.update k (command_finished now u) (ob_attempt_phases b)\<rparr>)"

definition forward_key :: "rat \<Rightarrow> command_key \<Rightarrow> observer \<Rightarrow> observer" where
  "forward_key now key b =
     (case map_of (ob_pending b) key of
        None \<Rightarrow> b
      | Some p \<Rightarrow>
          let b1 = b\<lparr>ob_pending := AList.update key (p\<lparr>pc_forwarded_at := Some now\<rparr>) (ob_pending b)\<rparr>
          in case attempt_key b of
               Some k \<Rightarrow>
                 if map_of (ob_pending_phase_keys b) key = None
                 then let b2 = start_phase_command k now b1
                      in b2\<lparr>ob_pending_phase_keys := AList.update key k (ob_pending_phase_keys b2)\<rparr>
                 else b1
             | None \<Rightarrow> b1)"

definition command_forwarded :: "rat \<Rightarrow> json \<Rightarrow> observer \<Rightarrow> observer" where
  "command_forwarded now command b =
     (case jint (jget command ''id'') of
        None \<Rightarrow> b
      | Some cid \<Rightarrow> forward_key now (jstr (jget command ''sessionId''), cid) b)"

text \<open>\<open>pop(key)\<close>, then the only entry with that identifier when the answer names no session.\<close>

definition pop_key :: "command_key \<Rightarrow> (command_key \<times> 'v) list \<Rightarrow> command_key option" where
  "pop_key key d =
     (if map_of d key \<noteq> None then Some key
      else if fst key = None then unique_key (\<lambda>k. snd k = snd key) d else None)"

definition pop_entry :: "command_key \<Rightarrow> (command_key \<times> 'v) list \<Rightarrow> ('v \<times> (command_key \<times> 'v) list) option" where
  "pop_entry key d =
     (case pop_key key d of
        None \<Rightarrow> None
      | Some k \<Rightarrow> map_option (\<lambda>v. (v, AList.delete k d)) (map_of d k))"

datatype command_outcome = Succeeded | Failed | Interrupted

definition outcome_of :: "event_type option \<Rightarrow> command_outcome" where
  "outcome_of ty = (if ty = Some COMMAND_FAILED then Failed
     else if ty = Some COMMAND_INTERRUPTED then Interrupted else Succeeded)"

definition duration_ms :: "rat \<Rightarrow> pending_command \<Rightarrow> int" where
  "duration_ms now p = ms_between (pc_started_at p) now"

definition provider_latency_ms :: "rat \<Rightarrow> pending_command \<Rightarrow> int" where
  "provider_latency_ms now p = (case pc_forwarded_at p of None \<Rightarrow> 0 | Some f \<Rightarrow> ms_between f now)"

definition stolosio_queue_ms :: "pending_command \<Rightarrow> int" where
  "stolosio_queue_ms p = (case pc_forwarded_at p of None \<Rightarrow> 0 | Some f \<Rightarrow> ms_between (pc_started_at p) f)"

definition add_usage :: "rat \<Rightarrow> command_outcome \<Rightarrow> pending_command \<Rightarrow> command_usage \<Rightarrow> command_usage" where
  "add_usage now oc p u =
     u\<lparr>cu_count := cu_count u + 1,
       cu_failed_count := cu_failed_count u + (if oc = Failed then 1 else 0),
       cu_interrupted_count := cu_interrupted_count u + (if oc = Interrupted then 1 else 0),
       cu_duration_ms := cu_duration_ms u + duration_ms now p,
       cu_provider_latency_ms := cu_provider_latency_ms u + provider_latency_ms now p,
       cu_stolosio_queue_ms := cu_stolosio_queue_ms u + stolosio_queue_ms p\<rparr>"

definition retained_method :: "string \<Rightarrow> (string \<times> command_usage) list \<Rightarrow> string" where
  "retained_method m methods =
     (let r = take 128 m
      in if r \<notin> fst ` set methods \<and> COMMAND_SUMMARY_METHOD_LIMIT - 1 \<le> length methods
         then OTHER_COMMAND_METHOD else r)"

definition account_method ::
  "rat \<Rightarrow> command_outcome \<Rightarrow> pending_command \<Rightarrow> (string \<times> command_usage) list \<Rightarrow> (string \<times> command_usage) list" where
  "account_method now oc p methods =
     (let r = retained_method (pc_method p) methods;
          u = (case map_of methods r of None \<Rightarrow> no_usage | Some u \<Rightarrow> u)
      in AList.update r (add_usage now oc p u) methods)"

definition account_command :: "rat \<Rightarrow> command_outcome \<Rightarrow> pending_command \<Rightarrow> observer \<Rightarrow> observer" where
  "account_command now oc p b =
     (case attempt_key b of
        None \<Rightarrow> b
      | Some k \<Rightarrow>
          let methods = (case map_of (ob_command_usage b) k of None \<Rightarrow> [] | Some ms \<Rightarrow> ms)
          in b\<lparr>ob_command_usage := AList.update k (account_method now oc p methods) (ob_command_usage b)\<rparr>)"

definition command_event :: "rat \<Rightarrow> int \<Rightarrow> string option \<Rightarrow> int option \<Rightarrow> pending_command \<Rightarrow> payload" where
  "command_event now cid reason code p =
     Command_Payload \<lparr>cp_command_id = cid, cp_command_sequence = pc_sequence p, cp_method = take 128 (pc_method p),
       cp_domain = pc_domain p, cp_duration_ms = duration_ms now p,
       cp_provider_latency_ms = provider_latency_ms now p, cp_stolosio_queue_ms = stolosio_queue_ms p,
       cp_reason = reason, cp_cdp_error_code = code\<rparr>"

text \<open>The part of \<open>_finish_command\<close> before the event is published.\<close>

definition settle_command ::
  "rat \<Rightarrow> command_key \<Rightarrow> command_outcome \<Rightarrow> observer \<Rightarrow> (pending_command \<times> observer) option" where
  "settle_command now key oc b =
     (case pop_entry key (ob_pending b) of
        None \<Rightarrow> None
      | Some (p, pending) \<Rightarrow>
          let b1 = b\<lparr>ob_pending := pending\<rparr>;
              b2 = (case pop_entry key (ob_pending_phase_keys b1) of
                      None \<Rightarrow> b1
                    | Some (k, keys) \<Rightarrow> finish_phase_command k now (b1\<lparr>ob_pending_phase_keys := keys\<rparr>))
          in Some (p, account_command now oc p b2))"

definition finish_command ::
  "rat \<Rightarrow> command_key \<Rightarrow> event_type option \<Rightarrow> string option \<Rightarrow> int option \<Rightarrow> observer \<Rightarrow> emitted" where
  "finish_command now key ty reason code b =
     (case settle_command now key (outcome_of ty) b of
        None \<Rightarrow> (b, False)
      | Some (p, b1) \<Rightarrow>
          (case ty of
             None \<Rightarrow> (b1, False)
           | Some t \<Rightarrow> emit t (command_event now (snd key) reason code p) b1))"

section \<open>Evidence from the browser\<close>

definition utf8_length :: "string \<Rightarrow> int" where
  "utf8_length s = sum_list (map (\<lambda>c. if is_ascii c then 1 else 2) s)"

definition observe_content :: "int \<Rightarrow> json \<Rightarrow> observer \<Rightarrow> emitted" where
  "observe_content cid v b =
     (case unique_key (\<lambda>k. snd k = cid) (ob_pending b) of
        None \<Rightarrow> (b, False)
      | Some k \<Rightarrow>
          (case map_of (ob_pending b) k of
             None \<Rightarrow> (b, False)
           | Some p \<Rightarrow>
               if \<not> pc_captures_content p then (b, False)
               else
                 (case jobj (jget v ''result'') of
                    None \<Rightarrow> (b, False)
                  | Some outer \<Rightarrow>
                      (case jobj (jget outer ''result'') of
                         None \<Rightarrow> (b, False)
                       | Some result \<Rightarrow>
                           (case jstr (jget result ''value'') of
                              None \<Rightarrow> (b, False)
                            | Some content \<Rightarrow>
                                emit PAGE_CONTENT_OBSERVED (Observation_Payload
                                  (no_observation\<lparr>op_content_length := Some (utf8_length content)\<rparr>)) b)))))"

definition console :: "observer_env \<Rightarrow> event_type \<Rightarrow> string \<Rightarrow> string \<Rightarrow> string \<Rightarrow> observer \<Rightarrow> emitted" where
  "console e ty level src body b =
     emit ty (Observation_Payload (no_observation\<lparr>op_level := Some (take 16 level), op_source := Some (take 32 src),
       op_message_fingerprint := Some (oe_sha256 e body)\<rparr>)) b"

text \<open>A URL argument that is not a string makes \<open>urlsplit\<close> fail or yields nothing; either way
  no event is published.\<close>

definition url_arg :: "observer_env \<Rightarrow> json option \<Rightarrow> string option" where
  "url_arg e v = (case jstr v of None \<Rightarrow> None | Some s \<Rightarrow> sanitize_url (oe_url e) s)"

definition obj_or_empty :: "json option \<Rightarrow> json" where
  "obj_or_empty v = (case jobj v of Some x \<Rightarrow> x | None \<Rightarrow> JObj [])"

definition truncate_rat :: "rat \<Rightarrow> int" where
  "truncate_rat r = (if 0 \<le> r then \<lfloor>r\<rfloor> else \<lceil>r\<rceil>)"

definition status_arg :: "json option \<Rightarrow> int option" where
  "status_arg v = (case v of Some (JFloat r) \<Rightarrow> Some (truncate_rat r) | _ \<Rightarrow> jint v)"

definition py_str :: "observer_env \<Rightarrow> json \<Rightarrow> string" where
  "py_str e v = (case v of JStr s \<Rightarrow> s | _ \<Rightarrow> oe_str e v)"

definition str_arg :: "observer_env \<Rightarrow> json option \<Rightarrow> string \<Rightarrow> string" where
  "str_arg e v default_text = (case v of None \<Rightarrow> default_text | Some x \<Rightarrow> py_str e x)"

text \<open>\<open>str(item.get("value", item.get("description", "")))\<close> of every object, joined by blanks.\<close>

definition console_text :: "observer_env \<Rightarrow> json option \<Rightarrow> string" where
  "console_text e v =
     (case v of
        Some (JArr items) \<Rightarrow>
          join_on CHR '' '' (map (\<lambda>i. case jget i ''value'' of
              Some x \<Rightarrow> py_str e x | None \<Rightarrow> str_arg e (jget i ''description'') [])
            (filter (\<lambda>i. jobj (Some i) \<noteq> None) items))
      | _ \<Rightarrow> [])"

definition present :: "json option \<Rightarrow> json option" where
  "present v = (if v = Some JNull then None else v)"

definition document_response :: "observer_env \<Rightarrow> json \<Rightarrow> observer \<Rightarrow> emitted" where
  "document_response e response b =
     (case jstr (jget response ''url'') of
        None \<Rightarrow> (b, False)
      | Some raw \<Rightarrow>
          (case sanitize_url (oe_url e) raw of
             None \<Rightarrow> (b, False)
           | Some url \<Rightarrow>
               emit NAVIGATION_RESPONSE (Observation_Payload (no_observation\<lparr>op_url := Some url,
                   op_status := status_arg (jget response ''status''),
                   op_mime_type := present (jget response ''mimeType''), op_resource_type := Some ''Document'',
                   op_selected_headers := Some (case jget response ''headers'' of
                     Some (JObj kvs) \<Rightarrow> filter_headers (oe_url e) kvs | _ \<Rightarrow> [])\<rparr>))
                 (b\<lparr>ob_domain := normalize_domain (oe_url e) raw\<rparr>)))"

definition observe_event :: "observer_env \<Rightarrow> json \<Rightarrow> observer \<Rightarrow> emitted" where
  "observe_event e v b =
     (let params = params_of v;
          document = (jget params ''type'' = Some (JStr ''Document''))
      in case jstr (jget v ''method'') of
           None \<Rightarrow> (b, False)
         | Some m \<Rightarrow>
             if m = ''Network.requestWillBeSent'' \<and> document then
               (case (url_arg e (jget (obj_or_empty (jget params ''redirectResponse'')) ''url''),
                      url_arg e (jget (obj_or_empty (jget params ''request'')) ''url'')) of
                  (Some previous, Some url) \<Rightarrow>
                    emit NAVIGATION_REDIRECTED (Observation_Payload
                      (no_observation\<lparr>op_previous_url := Some previous, op_url := Some url\<rparr>)) b
                | _ \<Rightarrow> (b, False))
             else if m = ''Network.responseReceived'' \<and> document then
               document_response e (obj_or_empty (jget params ''response'')) b
             else if m = ''Network.loadingFailed'' \<and> document then
               emit NAVIGATION_FAILED (Observation_Payload (no_observation\<lparr>op_error_type := Some ''network_error''\<rparr>)) b
             else if m \<in> {''Inspector.targetCrashed'', ''Page.crashed''} then
               emit PAGE_CRASHED (Observation_Payload no_observation) b
             else if m = ''Runtime.consoleAPICalled'' then
               console e CONSOLE_MESSAGE (str_arg e (jget params ''type'') ''log'') ''runtime''
                 (console_text e (jget params ''args'')) b
             else if m = ''Log.entryAdded'' then
               (case jobj (jget params ''entry'') of
                  None \<Rightarrow> (b, False)
                | Some entry \<Rightarrow>
                    console e CONSOLE_MESSAGE (str_arg e (jget entry ''level'') ''info'')
                      (str_arg e (jget entry ''source'') ''log'') (str_arg e (jget entry ''text'') []) b)
             else if m = ''Runtime.exceptionThrown'' then
               (case jobj (jget params ''exceptionDetails'') of
                  None \<Rightarrow> (b, False)
                | Some details \<Rightarrow>
                    console e JAVASCRIPT_EXCEPTION ''error'' ''runtime''
                      (case jobj (jget details ''exception'') of
                         Some x \<Rightarrow> str_arg e (jget x ''description'') []
                       | None \<Rightarrow> str_arg e (jget details ''text'') []) b)
             else (b, False))"

definition observe_upstream :: "observer_env \<Rightarrow> rat \<Rightarrow> json \<Rightarrow> observer \<Rightarrow> emitted" where
  "observe_upstream e now v b =
     (case jint (jget v ''id'') of
        Some cid \<Rightarrow>
          let key = (jstr (jget v ''sessionId''), cid)
          in (case jobj (jget v ''error'') of
                Some err \<Rightarrow>
                  finish_command now key (Some COMMAND_FAILED) (Some ''provider_command_error'')
                    (jint (jget err ''code'')) b
              | None \<Rightarrow>
                  (case observe_content cid v b of
                     (b1, True) \<Rightarrow> (b1, True)
                   | (b1, False) \<Rightarrow> finish_command now key None None None b1))
      | None \<Rightarrow> observe_event e v b)"

text \<open>A message that is not a JSON object is ignored, and an error of the observer never reaches the relay.\<close>

definition upstream_message :: "observer_env \<Rightarrow> rat \<Rightarrow> json option \<Rightarrow> observer \<Rightarrow> observer" where
  "upstream_message e now v b =
     (case jobj v of None \<Rightarrow> b | Some x \<Rightarrow> fst (observe_upstream e now x b))"

definition provider_disconnected :: "string \<Rightarrow> observer \<Rightarrow> emitted" where
  "provider_disconnected reason b = emit PROVIDER_DISCONNECTED (Disconnect_Payload reason) b"

section \<open>Ending\<close>

text \<open>The clock is read once per command.\<close>

fun interrupt_all :: "(nat \<Rightarrow> rat) \<Rightarrow> string \<Rightarrow> command_key list \<Rightarrow> observer \<Rightarrow> emitted" where
  "interrupt_all clock reason [] b = (b, False)"
| "interrupt_all clock reason (key # keys) b =
     (case finish_command (clock 0) key (Some COMMAND_INTERRUPTED) (Some reason) None b of
        (b1, True) \<Rightarrow> (b1, True)
      | (b1, False) \<Rightarrow> interrupt_all (\<lambda>i. clock (Suc i)) reason keys b1)"

definition interrupt_pending :: "(nat \<Rightarrow> rat) \<Rightarrow> string \<Rightarrow> observer \<Rightarrow> emitted" where
  "interrupt_pending clock reason b = interrupt_all clock reason (map fst (ob_pending b)) b"

fun flush_matches :: "(phase_key \<times> (string \<times> command_usage) list) list \<Rightarrow> observer \<Rightarrow> emitted" where
  "flush_matches [] b = (b, False)"
| "flush_matches (((p, a), methods) # rest) b =
     (case emit_for_attempt COMMAND_SUMMARY (Some p) (Some a) (Summary_Payload methods)
             (b\<lparr>ob_command_usage := AList.delete (p, a) (ob_command_usage b)\<rparr>) of
        (b1, True) \<Rightarrow> (b1, True)
      | (b1, False) \<Rightarrow> flush_matches rest b1)"

definition flush_command_summary :: "string \<Rightarrow> observer \<Rightarrow> emitted" where
  "flush_command_summary aid b =
     (case flush_matches (filter (\<lambda>(k, _). snd k = aid) (ob_command_usage b)) b of
        (b1, True) \<Rightarrow> (b1, True)
      | (b1, False) \<Rightarrow>
          (b1\<lparr>ob_attempt_phases := filter (\<lambda>(k, _). snd k \<noteq> aid) (ob_attempt_phases b1)\<rparr>, False))"

definition command_summary :: "string \<Rightarrow> observer \<Rightarrow> (string \<times> command_usage) list option" where
  "command_summary aid b =
     (case filter (\<lambda>(k, _). snd k = aid) (ob_command_usage b) of [] \<Rightarrow> None | (_, ms) # _ \<Rightarrow> Some ms)"

fun flush_each :: "string list \<Rightarrow> observer \<Rightarrow> emitted" where
  "flush_each [] b = (b, False)"
| "flush_each (a # as) b =
     (case flush_command_summary a b of (b1, True) \<Rightarrow> (b1, True) | (b1, False) \<Rightarrow> flush_each as b1)"

definition flush_command_summaries :: "observer \<Rightarrow> emitted" where
  "flush_command_summaries b =
     flush_each (remdups (map (snd \<circ> fst) (ob_command_usage b) @ map (snd \<circ> fst) (ob_attempt_phases b))) b"

end
