(* ===== verification/Cdp_Observer_Proofs.thy ===== *)
theory Cdp_Observer_Proofs
  imports Cdp_Observer
begin

text \<open>
  What the protocol observer measures and accounts. The time with commands in flight equals the
  measure of the union of the commands' intervals. Over every interleaving of the observer's atomic steps
  under a monotone clock, each settled command is counted exactly once, every table of usages is a valid
  summary payload, and every handler of the observer is a sequence of those atomic steps.
\<close>

section \<open>Time with commands in flight\<close>

text \<open>The reference: walk over the start and finish marks and add up the gaps in which at least one
  command is in flight.\<close>

fun in_flight :: "bool \<Rightarrow> int \<Rightarrow> int" where
  "in_flight True n = n + 1"
| "in_flight False n = (if n \<le> 0 then n else n - 1)"

fun busy :: "rat \<Rightarrow> int \<Rightarrow> (rat \<times> bool) list \<Rightarrow> rat \<Rightarrow> rat" where
  "busy t n [] end_at = (if 0 < n then end_at - t else 0)"
| "busy t n ((s, starts) # ms) end_at = (if 0 < n then s - t else 0) + busy s (in_flight starts n) ms end_at"

definition mark :: "rat \<times> bool \<Rightarrow> phase_usage \<Rightarrow> phase_usage" where
  "mark m u = (if snd m then command_started (fst m) u else command_finished (fst m) u)"

definition phase_ok :: "rat \<Rightarrow> phase_usage \<Rightarrow> bool" where
  "phase_ok t u \<longleftrightarrow> 0 \<le> ph_active_command_count u
     \<and> (0 < ph_active_command_count u \<longleftrightarrow> ph_active_started_at u \<noteq> None)
     \<and> (\<forall>a. ph_active_started_at u = Some a \<longrightarrow> a \<le> t)"

lemma phase_idle: "phase_ok t u \<Longrightarrow> ph_active_started_at u = None \<Longrightarrow> ph_active_command_count u = 0"
  by (simp add: phase_ok_def)

lemma phase_busy: "phase_ok t u \<Longrightarrow> ph_active_started_at u = Some a \<Longrightarrow> 0 < ph_active_command_count u \<and> a \<le> t"
  by (simp add: phase_ok_def)

lemma phase_ok_started:
  assumes "phase_ok t u" "t \<le> s"
  shows "phase_ok s (command_started s u)
    \<and> ph_active_command_count (command_started s u) = ph_active_command_count u + 1
    \<and> ph_started_at (command_started s u) = ph_started_at u
    \<and> active_seconds s (command_started s u)
        = active_seconds t u + (if 0 < ph_active_command_count u then s - t else 0)"
proof (cases "ph_active_started_at u")
  case None
  then show ?thesis using phase_idle [OF assms(1) None]
    by (simp add: phase_ok_def command_started_def active_seconds_def)
next
  case (Some a)
  then show ?thesis using phase_busy [OF assms(1) Some] assms(2)
    by (simp add: phase_ok_def command_started_def active_seconds_def)
qed

lemma phase_ok_finished:
  assumes "phase_ok t u" "t \<le> s"
  shows "phase_ok s (command_finished s u)
    \<and> ph_active_command_count (command_finished s u) = in_flight False (ph_active_command_count u)
    \<and> ph_started_at (command_finished s u) = ph_started_at u
    \<and> active_seconds s (command_finished s u)
        = active_seconds t u + (if 0 < ph_active_command_count u then s - t else 0)"
proof (cases "ph_active_started_at u")
  case None
  then show ?thesis using phase_idle [OF assms(1) None]
    by (simp add: phase_ok_def command_finished_def active_seconds_def)
next
  case (Some a)
  note b = phase_busy [OF assms(1) Some]
  show ?thesis
  proof (cases "ph_active_command_count u = 1")
    case True
    then show ?thesis using b assms(2) Some
      by (simp add: phase_ok_def command_finished_def active_seconds_def)
  next
    case False
    then show ?thesis using b assms(2) Some
      by (simp add: phase_ok_def command_finished_def active_seconds_def)
  qed
qed

lemma phase_ok_mark:
  assumes "phase_ok t u" "t \<le> fst m"
  shows "phase_ok (fst m) (mark m u)" "ph_active_command_count (mark m u) = in_flight (snd m) (ph_active_command_count u)"
    "ph_started_at (mark m u) = ph_started_at u"
    "active_seconds (fst m) (mark m u) = active_seconds t u + (if 0 < ph_active_command_count u then fst m - t else 0)"
  using phase_ok_started [OF assms] phase_ok_finished [OF assms]
  unfolding mark_def by (cases "snd m"; simp)+

lemma marks_measure_busy:
  "sorted (t # map fst ms @ [end_at]) \<Longrightarrow> phase_ok t u \<Longrightarrow>
   active_seconds end_at (fold mark ms u) = active_seconds t u + busy t (ph_active_command_count u) ms end_at
   \<and> ph_started_at (fold mark ms u) = ph_started_at u"
proof (induction ms arbitrary: t u)
  case Nil
  then show ?case
    by (cases "ph_active_started_at u") (auto simp: active_seconds_def phase_ok_def)
next
  case (Cons m ms)
  obtain s st where m: "m = (s, st)" by (cases m)
  have "t \<le> fst m" using Cons.prems(1) by (simp add: m)
  note step = phase_ok_mark [OF Cons.prems(2) this]
  have "sorted (s # map fst ms @ [end_at])" using Cons.prems(1) by (simp add: m)
  from Cons.IH [OF this, of "mark m u"] step show ?case by (simp add: m)
qed

lemma busy_bounds:
  "sorted (t # map fst ms @ [end_at]) \<Longrightarrow> 0 \<le> busy t n ms end_at \<and> busy t n ms end_at \<le> end_at - t"
proof (induction ms arbitrary: t n)
  case (Cons m ms)
  obtain s st where m: "m = (s, st)" by (cases m)
  have "sorted (s # map fst ms @ [end_at])" "t \<le> s" using Cons.prems by (simp_all add: m)
  with Cons.IH [OF this(1), of "in_flight st n"] show ?case by (simp add: m)
qed auto

text \<open>C28: The summary of an attempt's phases reports, as the time with a command in flight, exactly the
  time (rounded to milliseconds) during which the number of started and unfinished commands was positive,
  as defined by \<open>busy\<close>; what is left of the observed time is reported as idle, and the two add up.\<close>

theorem active_time_is_union:
  assumes "sorted (t # map fst ms @ [end_at])"
  defines "u \<equiv> fold mark ms (new_phase t)"
  shows "sm_command_active_ms (phase_snapshot end_at u) = py_round (busy t 0 ms end_at * 1000)
    \<and> sm_observed_session_ms (phase_snapshot end_at u) = ms_between t end_at
    \<and> sm_no_command_in_flight_ms (phase_snapshot end_at u)
        = ms_between t end_at - py_round (busy t 0 ms end_at * 1000)
    \<and> 0 \<le> sm_no_command_in_flight_ms (phase_snapshot end_at u)"
proof -
  have ok: "phase_ok t (new_phase t)" by (simp add: phase_ok_def new_phase_def)
  have u: "active_seconds end_at u = busy t 0 ms end_at" "ph_started_at u = t"
    using marks_measure_busy [OF assms(1) ok] by (simp_all add: u_def active_seconds_def new_phase_def)
  note b = busy_bounds [OF assms(1), of 0]
  then have r: "0 \<le> py_round (busy t 0 ms end_at * 1000)"
    "py_round (busy t 0 ms end_at * 1000) \<le> ms_between t end_at"
    unfolding ms_between_def by (auto intro!: py_round_nonneg py_round_mono)
  then show ?thesis by (simp add: phase_snapshot_def Let_def u)
qed

theorem active_time_is_union_witness:
  "sorted [0, 1, 2, 4, 7, 10 :: rat]
   \<and> sm_command_active_ms (phase_snapshot 10 (fold mark [(1, True), (2, True), (4, False), (7, False)] (new_phase 0)))
     = py_round (busy 0 0 [(1, True), (2, True), (4, False), (7, False)] 10 * 1000)
   \<and> py_round (busy 0 0 [(1, True), (2, True), (4, False), (7, False)] 10 * 1000) = 6000"
proof -
  have s: "sorted (0 # map fst [(1 :: rat, True), (2, True), (4, False), (7, False)] @ [10])" by simp
  show ?thesis using active_time_is_union [OF s] by simp
qed

section \<open>Dictionaries\<close>

definition dict_sum :: "('v \<Rightarrow> int) \<Rightarrow> ('k \<times> 'v) list \<Rightarrow> int" where
  "dict_sum f d = sum_list (map (f \<circ> snd) d)"

definition dict_value :: "('v \<Rightarrow> int) \<Rightarrow> 'k \<Rightarrow> ('k \<times> 'v) list \<Rightarrow> int" where
  "dict_value f k d = (case map_of d k of None \<Rightarrow> 0 | Some v \<Rightarrow> f v)"

lemma dict_sum_simps [simp]: "dict_sum f [] = 0" "dict_sum f (x # d) = f (snd x) + dict_sum f d"
  by (simp_all add: dict_sum_def)

lemma dict_sum_update: "dict_sum f (AList.update k v d) = dict_sum f d - dict_value f k d + f v"
  by (induction d) (auto simp: dict_value_def)

lemma dict_sum_delete: "distinct (map fst d) \<Longrightarrow> dict_sum f (AList.delete k d) = dict_sum f d - dict_value f k d"
proof (induction d)
  case (Cons x d)
  show ?case
  proof (cases "fst x = k")
    case True
    then have "k \<notin> fst ` set d" using Cons.prems by auto
    then have "AList.delete k d = d" by (simp add: AList.delete_id)
    with True show ?thesis by (simp add: AList.delete_eq dict_value_def split_beta)
  next
    case False
    with Cons show ?thesis by (simp add: AList.delete_eq dict_value_def split_beta)
  qed
qed (simp add: dict_value_def)

lemma fst_update: "fst ` set (AList.update k v d) = insert k (fst ` set d)"
  by (simp add: AList.dom_update)

lemma in_update: "x \<in> set (AList.update k v d) \<Longrightarrow> x = (k, v) \<or> x \<in> set d"
  by (induction d) (auto split: if_splits)

lemma length_update: "length (AList.update k v d) = (if k \<in> fst ` set d then length d else length d + 1)"
  by (induction d) auto

section \<open>Atomic steps\<close>

text \<open>The pieces a handler consists of; handlers interleave only between them, where the code awaits the
  publisher. A registered command is forwarded without an await in between.\<close>

datatype piece =
    Pc_Publish event_type payload
  | Pc_Domain "string option"
  | Pc_Command command_key string json "string option" rat rat
  | Pc_Finish command_key "event_type option" "string option" "int option" rat
  | Pc_Flush string
  | Pc_Phase string string int

record observer_sys =
  os_now :: rat
  os_obs :: observer
  os_done :: "(pending_command \<times> command_outcome \<times> rat) list"

definition is_summary :: "payload \<Rightarrow> bool" where
  "is_summary p = (case p of Summary_Payload _ \<Rightarrow> True | _ \<Rightarrow> False)"

text \<open>The clock never goes back.\<close>

fun piece_ok :: "rat \<Rightarrow> piece \<Rightarrow> bool" where
  "piece_ok now (Pc_Publish ty p) \<longleftrightarrow> \<not> is_summary p"
| "piece_ok now (Pc_Command key m params d t t') \<longleftrightarrow> now \<le> t \<and> t \<le> t'"
| "piece_ok now (Pc_Finish key ty reason code t) \<longleftrightarrow> now \<le> t"
| "piece_ok now _ \<longleftrightarrow> True"

definition settled :: "rat \<Rightarrow> command_key \<Rightarrow> event_type option \<Rightarrow> observer \<Rightarrow> (pending_command \<times> command_outcome \<times> rat) list" where
  "settled t key ty b =
     (case settle_command t key (outcome_of ty) b of None \<Rightarrow> [] | Some (p, _) \<Rightarrow> [(p, outcome_of ty, t)])"

fun apply_piece :: "piece \<Rightarrow> observer_sys \<Rightarrow> observer_sys" where
  "apply_piece (Pc_Publish ty p) s = s\<lparr>os_obs := fst (emit ty p (os_obs s))\<rparr>"
| "apply_piece (Pc_Domain d) s = s\<lparr>os_obs := (os_obs s)\<lparr>ob_domain := d\<rparr>\<rparr>"
| "apply_piece (Pc_Command key m params d t t') s =
     s\<lparr>os_now := t', os_obs := forward_key t' key (register_command t key m params d (os_obs s))\<rparr>"
| "apply_piece (Pc_Finish key ty reason code t) s =
     \<lparr>os_now = t, os_obs = fst (finish_command t key ty reason code (os_obs s)),
      os_done = os_done s @ settled t key ty (os_obs s)\<rparr>"
| "apply_piece (Pc_Flush a) s = s\<lparr>os_obs := fst (flush_command_summary a (os_obs s))\<rparr>"
| "apply_piece (Pc_Phase a phase ms) s =
     s\<lparr>os_obs := (case record_attempt_phase a phase ms (os_obs s) of Some b \<Rightarrow> b | None \<Rightarrow> os_obs s)\<rparr>"

definition observer_step :: "observer_sys \<Rightarrow> piece \<Rightarrow> observer_sys \<Rightarrow> bool" where
  "observer_step s l s' \<longleftrightarrow> piece_ok (os_now s) l \<and> s' = apply_piece l s"

definition observer_init :: "observer_sys \<Rightarrow> bool" where
  "observer_init s \<longleftrightarrow> (\<exists>sid aid prov. s = \<lparr>os_now = os_now s, os_obs = new_observer (os_now s) sid aid prov, os_done = []\<rparr>)"

section \<open>What the accounting sees\<close>

definition summaries :: "observer \<Rightarrow> (string \<times> command_usage) list list" where
  "summaries b = List.map_filter (\<lambda>ev. case ev_payload ev of Summary_Payload ms \<Rightarrow> Some ms | _ \<Rightarrow> None) (ob_events b)"

definition total :: "(command_usage \<Rightarrow> int) \<Rightarrow> observer \<Rightarrow> int" where
  "total f b = dict_sum (dict_sum f) (ob_command_usage b) + sum_list (map (dict_sum f) (summaries b))"

definition same_accounts :: "observer \<Rightarrow> observer \<Rightarrow> bool" where
  "same_accounts b b' \<longleftrightarrow> ob_command_usage b' = ob_command_usage b \<and> attempt_key b' = attempt_key b
     \<and> summaries b' = summaries b"

lemma attempt_key_updates [simp]:
  "attempt_key (b\<lparr>ob_pending := x1\<rparr>) = attempt_key b"
  "attempt_key (b\<lparr>ob_domain := x2\<rparr>) = attempt_key b"
  "attempt_key (b\<lparr>ob_command_sequence := x3\<rparr>) = attempt_key b"
  "attempt_key (b\<lparr>ob_command_usage := x4\<rparr>) = attempt_key b"
  "attempt_key (b\<lparr>ob_attempt_phases := x5\<rparr>) = attempt_key b"
  "attempt_key (b\<lparr>ob_pending_phase_keys := x6\<rparr>) = attempt_key b"
  "attempt_key (b\<lparr>ob_events := x7\<rparr>) = attempt_key b"
  by (simp_all add: attempt_key_def)

lemma emit_for_attempt_fields [row_simps]:
  "ob_pending (fst (emit_for_attempt ty pv a p b)) = ob_pending b"
  "ob_command_usage (fst (emit_for_attempt ty pv a p b)) = ob_command_usage b"
  "ob_command_sequence (fst (emit_for_attempt ty pv a p b)) = ob_command_sequence b"
  "ob_attempt_phases (fst (emit_for_attempt ty pv a p b)) = ob_attempt_phases b"
  "ob_pending_phase_keys (fst (emit_for_attempt ty pv a p b)) = ob_pending_phase_keys b"
  "ob_provider (fst (emit_for_attempt ty pv a p b)) = ob_provider b"
  "ob_attempt_id (fst (emit_for_attempt ty pv a p b)) = ob_attempt_id b"
  "attempt_key (fst (emit_for_attempt ty pv a p b)) = attempt_key b"
  "snd (emit_for_attempt ty pv a p b) \<longleftrightarrow> \<not> payload_ok p"
  by (simp_all add: emit_for_attempt_def)

lemma summaries_emit:
  "summaries (fst (emit_for_attempt ty pv a p b)) =
     (case p of Summary_Payload ms \<Rightarrow> if payload_ok p then summaries b @ [ms] else summaries b | _ \<Rightarrow> summaries b)"
  by (simp add: emit_for_attempt_def summaries_def List.map_filter_def split: payload.split)

lemma emit_fields [row_simps]:
  "ob_pending (fst (emit ty p b)) = ob_pending b"
  "ob_command_usage (fst (emit ty p b)) = ob_command_usage b"
  "ob_command_sequence (fst (emit ty p b)) = ob_command_sequence b"
  "ob_pending_phase_keys (fst (emit ty p b)) = ob_pending_phase_keys b"
  "attempt_key (fst (emit ty p b)) = attempt_key b"
  "snd (emit ty p b) \<longleftrightarrow> \<not> payload_ok p"
  by (simp_all add: emit_def row_simps)

lemma emit_same: "\<not> is_summary p \<Longrightarrow> same_accounts b (fst (emit ty p b))"
  by (simp add: same_accounts_def emit_def row_simps summaries_emit is_summary_def split: payload.splits)

lemma same_accounts_refl [simp]: "same_accounts b b" by (simp add: same_accounts_def)

lemma same_accounts_trans: "same_accounts a b \<Longrightarrow> same_accounts b c \<Longrightarrow> same_accounts a c"
  by (simp add: same_accounts_def)

lemma same_accounts_total: "same_accounts b b' \<Longrightarrow> total f b' = total f b"
  by (simp add: same_accounts_def total_def)

lemma start_phase_fields [row_simps]:
  "ob_pending (start_phase_command k t b) = ob_pending b"
  "ob_command_usage (start_phase_command k t b) = ob_command_usage b"
  "ob_command_sequence (start_phase_command k t b) = ob_command_sequence b"
  "ob_pending_phase_keys (start_phase_command k t b) = ob_pending_phase_keys b"
  "attempt_key (start_phase_command k t b) = attempt_key b"
  "ob_events (start_phase_command k t b) = ob_events b"
  by (simp_all add: start_phase_command_def Let_def)

lemma finish_phase_fields [row_simps]:
  "ob_pending (finish_phase_command k t b) = ob_pending b"
  "ob_command_usage (finish_phase_command k t b) = ob_command_usage b"
  "ob_command_sequence (finish_phase_command k t b) = ob_command_sequence b"
  "attempt_key (finish_phase_command k t b) = attempt_key b"
  "ob_events (finish_phase_command k t b) = ob_events b"
  by (simp_all add: finish_phase_command_def split: option.split)

lemma register_fields [row_simps]:
  "ob_command_usage (register_command t key m ps d b) = ob_command_usage b"
  "attempt_key (register_command t key m ps d b) = attempt_key b"
  "ob_events (register_command t key m ps d b) = ob_events b"
  "ob_command_sequence (register_command t key m ps d b) = ob_command_sequence b + 1"
  by (simp_all add: register_command_def)

lemma forward_fields [row_simps]:
  "ob_command_usage (forward_key t key b) = ob_command_usage b"
  "attempt_key (forward_key t key b) = attempt_key b"
  "ob_events (forward_key t key b) = ob_events b"
  "ob_command_sequence (forward_key t key b) = ob_command_sequence b"
  by (auto simp: forward_key_def row_simps Let_def split: option.split)

lemma forward_pending:
  "ob_pending (forward_key t key b) =
     (case map_of (ob_pending b) key of None \<Rightarrow> ob_pending b
      | Some p \<Rightarrow> AList.update key (p\<lparr>pc_forwarded_at := Some t\<rparr>) (ob_pending b))"
  by (auto simp: forward_key_def row_simps Let_def split: option.split)

lemma summaries_cong: "ob_events b = ob_events b' \<Longrightarrow> summaries b = summaries b'"
  by (simp add: summaries_def)

lemma record_phase_fields:
  "record_attempt_phase a ph ms b = Some b' \<Longrightarrow> same_accounts b b' \<and> ob_pending b' = ob_pending b
     \<and> ob_command_sequence b' = ob_command_sequence b"
  by (auto simp: record_attempt_phase_def same_accounts_def summaries_def split: option.splits)

section \<open>Settling a command\<close>

text \<open>One usage total and what one command contributes to it.\<close>

locale usage_measure =
  fixes f :: "command_usage \<Rightarrow> int" and g :: "rat \<Rightarrow> command_outcome \<Rightarrow> pending_command \<Rightarrow> int"
  assumes none: "f no_usage = 0"
    and adds: "f (add_usage t oc p u) = f u + g t oc p"
begin

lemma account_method_sum: "dict_sum f (account_method t oc p ms) = dict_sum f ms + g t oc p"
  by (simp add: account_method_def Let_def dict_sum_update adds dict_value_def none split: option.split)

lemma account_command_total:
  "attempt_key b \<noteq> None \<Longrightarrow> total f (account_command t oc p b) = total f b + g t oc p"
  by (auto simp: account_command_def Let_def total_def dict_sum_update dict_value_def account_method_sum
      summaries_def split: option.split)

lemma settle_total:
  assumes "settle_command t key oc b = Some (p, b')" "attempt_key b \<noteq> None"
  shows "total f b' = total f b + g t oc p"
proof -
  from assms(1) obtain pending b2 where b': "b' = account_command t oc p b2"
    and b2: "b2 = (case pop_entry key (ob_pending_phase_keys b) of
                     None \<Rightarrow> b\<lparr>ob_pending := pending\<rparr>
                   | Some (k, keys) \<Rightarrow> finish_phase_command k t (b\<lparr>ob_pending := pending, ob_pending_phase_keys := keys\<rparr>))"
    by (auto simp: settle_command_def Let_def split: option.splits prod.splits)
  have "same_accounts b b2"
    by (auto simp: b2 same_accounts_def row_simps summaries_def split: option.split)
  then have "attempt_key b2 \<noteq> None" "total f b2 = total f b"
    using assms(2) by (simp_all add: same_accounts_def total_def)
  then show ?thesis by (simp add: b' account_command_total)
qed

end

lemma pop_entry_Some:
  "pop_entry key d = Some (v, d') \<Longrightarrow> \<exists>k. map_of d k = Some v \<and> d' = AList.delete k d"
  by (auto simp: pop_entry_def split: option.splits)

lemma account_fields [row_simps]:
  "ob_pending (account_command t oc p b) = ob_pending b"
  "ob_command_sequence (account_command t oc p b) = ob_command_sequence b"
  "attempt_key (account_command t oc p b) = attempt_key b"
  "ob_events (account_command t oc p b) = ob_events b"
  "ob_pending_phase_keys (account_command t oc p b) = ob_pending_phase_keys b"
  by (simp_all add: account_command_def Let_def split: option.split)

definition accounted ::
  "rat \<Rightarrow> command_outcome \<Rightarrow> pending_command \<Rightarrow> observer \<Rightarrow> (phase_key \<times> (string \<times> command_usage) list) list" where
  "accounted t oc p b =
     (case attempt_key b of None \<Rightarrow> ob_command_usage b
      | Some k \<Rightarrow> AList.update k
          (account_method t oc p (case map_of (ob_command_usage b) k of None \<Rightarrow> [] | Some ms \<Rightarrow> ms)) (ob_command_usage b))"

lemma account_usage: "ob_command_usage (account_command t oc p b) = accounted t oc p b"
  by (simp add: account_command_def accounted_def Let_def split: option.split)

lemma settleE:
  assumes "settle_command t key oc b = Some (p, b')"
  obtains k where "map_of (ob_pending b) k = Some p" "ob_pending b' = AList.delete k (ob_pending b)"
    "ob_command_sequence b' = ob_command_sequence b" "attempt_key b' = attempt_key b" "ob_events b' = ob_events b"
    "ob_command_usage b' = accounted t oc p b"
proof -
  from assms obtain pending where pop: "pop_entry key (ob_pending b) = Some (p, pending)"
    and b': "b' = account_command t oc p (case pop_entry key (ob_pending_phase_keys b) of
                     None \<Rightarrow> b\<lparr>ob_pending := pending\<rparr>
                   | Some (k, keys) \<Rightarrow> finish_phase_command k t (b\<lparr>ob_pending := pending, ob_pending_phase_keys := keys\<rparr>))"
    by (auto simp: settle_command_def Let_def split: option.splits prod.splits)
  from pop_entry_Some [OF pop] obtain k where "map_of (ob_pending b) k = Some p" "pending = AList.delete k (ob_pending b)"
    by blast
  moreover have "ob_pending b' = pending \<and> ob_command_sequence b' = ob_command_sequence b
      \<and> attempt_key b' = attempt_key b \<and> ob_events b' = ob_events b \<and> ob_command_usage b' = accounted t oc p b"
    unfolding b' by (simp add: row_simps account_usage accounted_def split: option.split)
  ultimately show ?thesis using that by blast
qed

section \<open>Valid summaries\<close>

definition usage_ok :: "command_usage \<Rightarrow> bool" where
  "usage_ok u \<longleftrightarrow> usage_payload_ok u \<and> cu_failed_count u + cu_interrupted_count u \<le> cu_count u"

definition methods_ok :: "(string \<times> command_usage) list \<Rightarrow> bool" where
  "methods_ok ms \<longleftrightarrow> distinct (map fst ms)
     \<and> (length ms < COMMAND_SUMMARY_METHOD_LIMIT
        \<or> length ms = COMMAND_SUMMARY_METHOD_LIMIT \<and> OTHER_COMMAND_METHOD \<in> fst ` set ms)
     \<and> (\<forall>(m, u) \<in> set ms. length m \<le> 128 \<and> usage_ok u)"

definition timed :: "rat \<Rightarrow> pending_command \<Rightarrow> bool" where
  "timed t p \<longleftrightarrow> pc_started_at p \<le> t \<and> (\<forall>f. pc_forwarded_at p = Some f \<longrightarrow> pc_started_at p \<le> f \<and> f \<le> t)"

lemma ms_between_nonneg: "a \<le> b \<Longrightarrow> 0 \<le> ms_between a b"
  by (simp add: ms_between_def py_round_nonneg)

lemma timed_nonneg:
  "timed t p \<Longrightarrow> 0 \<le> duration_ms t p \<and> 0 \<le> provider_latency_ms t p \<and> 0 \<le> stolosio_queue_ms p"
  by (auto simp: timed_def duration_ms_def provider_latency_ms_def stolosio_queue_ms_def ms_between_nonneg
      split: option.split)

lemma timed_mono: "timed t p \<Longrightarrow> t \<le> t' \<Longrightarrow> timed t' p"
  by (force simp: timed_def)

lemma methods_ok_payload: "methods_ok ms \<Longrightarrow> payload_ok (Summary_Payload ms)"
  by (auto simp: methods_ok_def payload_ok_def usage_ok_def list_all_iff)

lemma add_usage_ok:
  assumes "timed t p" "u = no_usage \<or> usage_ok u"
  shows "usage_ok (add_usage t oc p u)"
  using timed_nonneg [OF assms(1)] assms(2)
  by (cases oc) (auto simp: usage_ok_def usage_payload_ok_def add_usage_def no_usage_def)

lemma retained_short: "length (retained_method m ms) \<le> 128"
  by (simp add: retained_method_def Let_def OTHER_COMMAND_METHOD_def)

lemma retained_cases:
  "retained_method m ms \<in> fst ` set ms \<or> length ms < COMMAND_SUMMARY_METHOD_LIMIT - 1
   \<or> retained_method m ms = OTHER_COMMAND_METHOD"
  by (auto simp: retained_method_def Let_def not_le)

lemma account_method_ok:
  assumes "methods_ok ms" "timed t p"
  shows "methods_ok (account_method t oc p ms)"
proof -
  define r where "r = retained_method (pc_method p) ms"
  define u where "u = (case map_of ms r of None \<Rightarrow> no_usage | Some u \<Rightarrow> u)"
  have ms: "account_method t oc p ms = AList.update r (add_usage t oc p u) ms"
    by (simp add: account_method_def r_def u_def Let_def)
  have "u = no_usage \<or> usage_ok u"
    using assms(1) by (auto simp: u_def methods_ok_def split: option.splits dest!: map_of_SomeD)
  note u = add_usage_ok [OF assms(2) this, of oc]
  have "\<forall>(m, u) \<in> set (AList.update r (add_usage t oc p u) ms). length m \<le> 128 \<and> usage_ok u"
    using u assms(1) retained_short [of "pc_method p" ms]
    by (auto simp: r_def methods_ok_def dest!: in_update)
  moreover have "distinct (map fst (AList.update r (add_usage t oc p u) ms))"
    using assms(1) by (simp add: methods_ok_def AList.distinct_update)
  moreover have "length (AList.update r (add_usage t oc p u) ms) < COMMAND_SUMMARY_METHOD_LIMIT
      \<or> length (AList.update r (add_usage t oc p u) ms) = COMMAND_SUMMARY_METHOD_LIMIT
        \<and> OTHER_COMMAND_METHOD \<in> fst ` set (AList.update r (add_usage t oc p u) ms)"
    using assms(1) retained_cases [of "pc_method p" ms]
    by (auto simp: methods_ok_def length_update fst_update r_def [symmetric])
  ultimately show ?thesis unfolding ms methods_ok_def by blast
qed

section \<open>The invariant\<close>

definition observer_ok :: "observer_sys \<Rightarrow> bool" where
  "observer_ok s \<longleftrightarrow>
     distinct (map fst (ob_command_usage (os_obs s)))
     \<and> (\<forall>(k, ms) \<in> set (ob_command_usage (os_obs s)). methods_ok ms)
     \<and> (\<forall>(k, p) \<in> set (ob_pending (os_obs s)). timed (os_now s) p)"

definition sequences :: "observer_sys \<Rightarrow> int list" where
  "sequences s = map (pc_sequence \<circ> snd) (ob_pending (os_obs s)) @ map (pc_sequence \<circ> fst) (os_done s)"

definition numbered :: "observer_sys \<Rightarrow> bool" where
  "numbered s \<longleftrightarrow> distinct (sequences s) \<and> (\<forall>n \<in> set (sequences s). n \<le> ob_command_sequence (os_obs s))"

lemma accounted_ok:
  assumes "distinct (map fst (ob_command_usage b))" "\<forall>(k, ms) \<in> set (ob_command_usage b). methods_ok ms" "timed t p"
  shows "distinct (map fst (accounted t oc p b)) \<and> (\<forall>(k, ms) \<in> set (accounted t oc p b). methods_ok ms)"
proof (cases "attempt_key b")
  case (Some k)
  have "methods_ok []" by (simp add: methods_ok_def COMMAND_SUMMARY_METHOD_LIMIT_def)
  then have "methods_ok (case map_of (ob_command_usage b) k of None \<Rightarrow> [] | Some ms \<Rightarrow> ms)"
    using assms(2) by (auto split: option.split dest: map_of_SomeD)
  from account_method_ok [OF this assms(3), of oc] show ?thesis
    using assms(1,2) by (auto simp: accounted_def Some AList.distinct_update dest!: in_update)
qed (simp add: accounted_def assms)

lemma command_finish_cases:
  obtains (none) "settle_command t key (outcome_of ty) b = None" "fst (finish_command t key ty reason code b) = b"
  | (settled) p b1 where "settle_command t key (outcome_of ty) b = Some (p, b1)"
      "same_accounts b1 (fst (finish_command t key ty reason code b))"
      "ob_pending (fst (finish_command t key ty reason code b)) = ob_pending b1"
      "ob_command_sequence (fst (finish_command t key ty reason code b)) = ob_command_sequence b1"
proof (cases "settle_command t key (outcome_of ty) b")
  case None
  then show ?thesis using none by (simp add: finish_command_def)
next
  case (Some x)
  obtain p b1 where x: "x = (p, b1)" by (cases x)
  have "\<not> is_summary (command_event t (snd key) reason code p)" by (simp add: is_summary_def command_event_def)
  then have "same_accounts b1 (fst (finish_command t key ty reason code b))
      \<and> ob_pending (fst (finish_command t key ty reason code b)) = ob_pending b1
      \<and> ob_command_sequence (fst (finish_command t key ty reason code b)) = ob_command_sequence b1"
    unfolding finish_command_def Some x option.case prod.case
    by (cases ty) (simp_all add: emit_same row_simps)
  with Some x show ?thesis using settled by blast
qed

lemma flush_matches_ok:
  assumes "distinct (map fst kms)" "\<forall>(k, ms) \<in> set kms. map_of (ob_command_usage b) k = Some ms \<and> methods_ok ms"
    "distinct (map fst (ob_command_usage b))"
  shows "\<exists>b'. flush_matches kms b = (b', False) \<and> (\<forall>f. total f b' = total f b)
    \<and> ob_command_usage b' = filter (\<lambda>(k, _). k \<notin> fst ` set kms) (ob_command_usage b)
    \<and> ob_pending b' = ob_pending b \<and> ob_command_sequence b' = ob_command_sequence b \<and> attempt_key b' = attempt_key b"
  using assms
proof (induction kms b rule: flush_matches.induct)
  case (1 b)
  then show ?case by simp
next
  case (2 p a ms rest b)
  let ?b = "b\<lparr>ob_command_usage := AList.delete (p, a) (ob_command_usage b)\<rparr>"
  let ?e = "emit_for_attempt COMMAND_SUMMARY (Some p) (Some a) (Summary_Payload ms) ?b"
  let ?b1 = "fst ?e"
  have ok: "payload_ok (Summary_Payload ms)" using 2(3) by (auto intro: methods_ok_payload)
  have e: "?e = (?b1, False)" using ok by (simp add: emit_for_attempt_def)
  have b1: "ob_pending ?b1 = ob_pending b" "ob_command_sequence ?b1 = ob_command_sequence b"
    "attempt_key ?b1 = attempt_key b" "ob_command_usage ?b1 = AList.delete (p, a) (ob_command_usage b)"
    "summaries ?b1 = summaries b @ [ms]"
    by (simp_all add: row_simps summaries_emit ok) (simp add: summaries_def)
  have tot: "total f ?b1 = total f b" for f
  proof -
    have "map_of (ob_command_usage b) (p, a) = Some ms" using 2(3) by simp
    then show ?thesis using 2(4) by (simp add: total_def b1 dict_sum_delete dict_value_def)
  qed
  have "(p, a) \<notin> fst ` set rest" using 2(2) by force
  then have rest: "\<forall>(k, ms) \<in> set rest. map_of (ob_command_usage ?b1) k = Some ms \<and> methods_ok ms"
    using 2(3) by (force simp: b1 AList.delete_conv')
  have "distinct (map fst (ob_command_usage ?b1))" using 2(4) by (simp add: b1 AList.distinct_delete)
  from 2(1) [OF e [symmetric] refl _ rest this] 2(2) obtain b' where b': "flush_matches rest ?b1 = (b', False)"
    "\<forall>f. total f b' = total f ?b1"
    "ob_command_usage b' = filter (\<lambda>(k, _). k \<notin> fst ` set rest) (ob_command_usage ?b1)"
    "ob_pending b' = ob_pending ?b1" "ob_command_sequence b' = ob_command_sequence ?b1" "attempt_key b' = attempt_key ?b1"
    by auto
  have "flush_matches (((p, a), ms) # rest) b = (b', False)" using b'(1) by (subst flush_matches.simps, subst e) simp
  moreover have "ob_command_usage b' = filter (\<lambda>(k, _). k \<notin> fst ` set (((p, a), ms) # rest)) (ob_command_usage b)"
    unfolding b'(3) b1(4) by (auto simp: AList.delete_eq intro!: filter_cong)
  ultimately show ?case using b' b1 tot by auto
qed

lemma flush_ok:
  assumes "distinct (map fst (ob_command_usage b))" "\<forall>(k, ms) \<in> set (ob_command_usage b). methods_ok ms"
  obtains b' where "flush_command_summary a b = (b', False)" "\<forall>f. total f b' = total f b"
    "ob_command_usage b' = filter (\<lambda>(k, _). snd k \<noteq> a) (ob_command_usage b)"
    "ob_pending b' = ob_pending b" "ob_command_sequence b' = ob_command_sequence b" "attempt_key b' = attempt_key b"
proof -
  let ?kms = "filter (\<lambda>(k, _). snd k = a) (ob_command_usage b)"
  have d: "distinct (map fst ?kms)" using assms(1) by (induction "ob_command_usage b") (auto simp: distinct_map_filter)
  have m: "\<forall>(k, ms) \<in> set ?kms. map_of (ob_command_usage b) k = Some ms \<and> methods_ok ms"
    using assms by (auto simp: map_of_eq_Some_iff)
  obtain b1 where b1: "flush_matches ?kms b = (b1, False)" "\<forall>f. total f b1 = total f b"
    "ob_command_usage b1 = filter (\<lambda>(k, _). k \<notin> fst ` set ?kms) (ob_command_usage b)"
    "ob_pending b1 = ob_pending b" "ob_command_sequence b1 = ob_command_sequence b" "attempt_key b1 = attempt_key b"
    using flush_matches_ok [OF d m assms(1)] by blast
  let ?b' = "b1\<lparr>ob_attempt_phases := filter (\<lambda>(k, _). snd k \<noteq> a) (ob_attempt_phases b1)\<rparr>"
  have "filter (\<lambda>(k, _). k \<notin> fst ` set ?kms) (ob_command_usage b) = filter (\<lambda>(k, _). snd k \<noteq> a) (ob_command_usage b)"
    by (rule filter_cong) force+
  then have "flush_command_summary a b = (?b', False)" "\<forall>f. total f ?b' = total f b"
    "ob_command_usage ?b' = filter (\<lambda>(k, _). snd k \<noteq> a) (ob_command_usage b)"
    "ob_pending ?b' = ob_pending b" "ob_command_sequence ?b' = ob_command_sequence b" "attempt_key ?b' = attempt_key b"
    using b1 by (simp_all add: flush_command_summary_def total_def summaries_def)
  then show ?thesis by (rule that)
qed

section \<open>Every step keeps the invariant\<close>

lemma update_twice: "AList.update k v (AList.update k w d) = AList.update k v d"
  by (induction d) auto

lemma register_forward_pending:
  "ob_pending (forward_key t' key (register_command t key m ps d b)) =
     AList.update key \<lparr>pc_sequence = ob_command_sequence b + 1, pc_method = m, pc_domain = d, pc_started_at = t,
       pc_forwarded_at = Some t', pc_captures_content = captures_page_content m ps\<rparr> (ob_pending b)"
  by (simp add: forward_pending register_command_def AList.update_conv' update_twice)

lemma observer_ok_step: "observer_ok s \<Longrightarrow> observer_step s l s' \<Longrightarrow> observer_ok s'"
proof -
  assume ok: "observer_ok s" and st: "observer_step s l s'"
  then have guard: "piece_ok (os_now s) l" and s': "s' = apply_piece l s" by (simp_all add: observer_step_def)
  show ?thesis
  proof (cases l)
    case (Pc_Publish ty p)
    then show ?thesis using ok by (simp add: s' observer_ok_def row_simps)
  next
    case (Pc_Domain d)
    then show ?thesis using ok by (simp add: s' observer_ok_def)
  next
    case (Pc_Command key m ps d t t')
    then have t: "os_now s \<le> t" "t \<le> t'" using guard by simp_all
    have "timed t' p" if "(k, p) \<in> set (ob_pending (os_obs s'))" for k p
    proof -
      have "(k, p) \<in> set (ob_pending (os_obs s)) \<or> pc_started_at p = t \<and> pc_forwarded_at p = Some t'"
        using that in_update by (fastforce simp: s' Pc_Command register_forward_pending)
      then show ?thesis
      proof
        assume "(k, p) \<in> set (ob_pending (os_obs s))"
        then have "timed (os_now s) p" using ok by (auto simp: observer_ok_def)
        then show ?thesis by (rule timed_mono) (use t in simp)
      qed (use t in \<open>simp add: timed_def\<close>)
    qed
    then show ?thesis using ok by (auto simp: s' Pc_Command observer_ok_def row_simps)
  next
    case (Pc_Finish key ty reason code t)
    then have t: "os_now s \<le> t" using guard by simp
    have old: "timed t p" if "(k, p) \<in> set (ob_pending (os_obs s))" for k p
    proof -
      have "timed (os_now s) p" using ok that by (auto simp: observer_ok_def)
      then show ?thesis using t by (rule timed_mono)
    qed
    show ?thesis
    proof (rule command_finish_cases [of t key ty "os_obs s" reason code])
      assume "fst (finish_command t key ty reason code (os_obs s)) = os_obs s"
      then show ?thesis using ok old by (auto simp: s' Pc_Finish observer_ok_def)
    next
      fix p b1
      assume a: "settle_command t key (outcome_of ty) (os_obs s) = Some (p, b1)"
        "same_accounts b1 (fst (finish_command t key ty reason code (os_obs s)))"
        "ob_pending (fst (finish_command t key ty reason code (os_obs s))) = ob_pending b1"
      from a(1) obtain k where k: "map_of (ob_pending (os_obs s)) k = Some p"
        "ob_pending b1 = AList.delete k (ob_pending (os_obs s))"
        "ob_command_usage b1 = accounted t (outcome_of ty) p (os_obs s)" by (rule settleE) blast
      have "timed t p" using old map_of_SomeD [OF k(1)] by blast
      with ok have "distinct (map fst (ob_command_usage b1)) \<and> (\<forall>(k, ms) \<in> set (ob_command_usage b1). methods_ok ms)"
        unfolding k(3) by (intro accounted_ok) (auto simp: observer_ok_def)
      moreover have "\<forall>(k, p) \<in> set (ob_pending b1). timed t p"
        using old by (auto simp: k(2) AList.delete_eq)
      ultimately show ?thesis using a(2,3) by (simp add: s' Pc_Finish observer_ok_def same_accounts_def)
    qed
  next
    case (Pc_Flush a)
    have u: "distinct (map fst (ob_command_usage (os_obs s)))" "\<forall>(k, ms) \<in> set (ob_command_usage (os_obs s)). methods_ok ms"
      using ok by (simp_all add: observer_ok_def)
    show ?thesis
      by (rule flush_ok [OF u, of a])
        (use ok in \<open>auto simp: s' Pc_Flush observer_ok_def distinct_map_filter\<close>)
  next
    case (Pc_Phase a phase ms)
    then show ?thesis using ok record_phase_fields [of a phase ms "os_obs s"]
      by (auto simp: s' observer_ok_def same_accounts_def split: option.split)
  qed
qed

lemma update_distinct:
  assumes "distinct (map (h \<circ> snd) d @ xs)" "h v \<notin> set (map (h \<circ> snd) d @ xs)"
  shows "distinct (map (h \<circ> snd) (AList.update k v d) @ xs)"
    and "set (map (h \<circ> snd) (AList.update k v d)) \<subseteq> insert (h v) (set (map (h \<circ> snd) d))"
  using assms by (induction d) auto

lemma delete_distinct:
  assumes "distinct (map (h \<circ> snd) d)" "map_of d k = Some v"
  shows "h v \<notin> set (map (h \<circ> snd) (AList.delete k d)) \<and> distinct (map (h \<circ> snd) (AList.delete k d))"
  using assms
proof (induction d)
  case (Cons x d)
  have sub: "set (map (h \<circ> snd) (AList.delete k d)) \<subseteq> set (map (h \<circ> snd) d)"
    by (auto simp: AList.delete_eq)
  show ?case
  proof (cases "fst x = k")
    case True
    then have "v = snd x" using Cons.prems(2) by simp
    then show ?thesis using Cons.prems(1) sub True
      by (auto simp: AList.delete_eq distinct_map_filter split_beta)
  next
    case False
    then have "map_of d k = Some v" using Cons.prems(2) by simp
    moreover from this have "h v \<in> set (map (h \<circ> snd) d)" using map_of_SomeD by force
    moreover have "h (snd x) \<notin> set (map (h \<circ> snd) d)" using Cons.prems(1) by simp
    ultimately have "map_of d k = Some v" "h v \<noteq> h (snd x)" by metis+
    then show ?thesis using Cons False sub by (auto simp: AList.delete_eq split_beta)
  qed
qed simp

lemma numbered_cong:
  "numbered s \<Longrightarrow> ob_pending (os_obs s') = ob_pending (os_obs s) \<Longrightarrow> os_done s' = os_done s
   \<Longrightarrow> ob_command_sequence (os_obs s') = ob_command_sequence (os_obs s) \<Longrightarrow> numbered s'"
  by (simp add: numbered_def sequences_def)

lemma numbered_finish:
  assumes "numbered s" "settle_command t key oc (os_obs s) = Some (p, b1)"
    "ob_pending (os_obs s') = ob_pending b1" "ob_command_sequence (os_obs s') = ob_command_sequence b1"
    "os_done s' = os_done s @ [(p, oc, t)]"
  shows "numbered s'"
proof -
  from assms(2) obtain k where k: "map_of (ob_pending (os_obs s)) k = Some p"
    "ob_pending b1 = AList.delete k (ob_pending (os_obs s))"
    "ob_command_sequence b1 = ob_command_sequence (os_obs s)" by (rule settleE) blast
  have d: "distinct (map (pc_sequence \<circ> snd) (ob_pending (os_obs s)))"
    using assms(1) by (simp add: numbered_def sequences_def)
  note del = delete_distinct [OF d k(1)]
  define P where "P = map (pc_sequence \<circ> snd) (ob_pending (os_obs s))"
  define P' where "P' = map (pc_sequence \<circ> snd) (ob_pending b1)"
  define D where "D = map (pc_sequence \<circ> fst) (os_done s)"
  have "set P' \<subseteq> set P" by (auto simp: P_def P'_def k(2) AList.delete_eq)
  moreover have "pc_sequence p \<in> set P" using map_of_SomeD [OF k(1)] by (force simp: P_def)
  moreover have "pc_sequence p \<notin> set P'" "distinct P'" using del by (simp_all add: P'_def k(2))
  moreover have "distinct (P @ D)" "\<forall>n \<in> set (P @ D). n \<le> ob_command_sequence (os_obs s)"
    using assms(1) by (simp_all add: numbered_def sequences_def P_def D_def)
  ultimately have "distinct (P' @ D @ [pc_sequence p])"
    "\<forall>n \<in> set (P' @ D @ [pc_sequence p]). n \<le> ob_command_sequence (os_obs s)" by auto
  moreover have "sequences s' = P' @ D @ [pc_sequence p]"
    by (simp add: sequences_def assms P'_def D_def)
  ultimately show ?thesis by (simp add: numbered_def assms(4) k(3))
qed

lemma numbered_step: "numbered s \<Longrightarrow> observer_ok s \<Longrightarrow> observer_step s l s' \<Longrightarrow> numbered s'"
proof -
  assume num: "numbered s" and ok: "observer_ok s" and "observer_step s l s'"
  then have s': "s' = apply_piece l s" by (simp add: observer_step_def)
  show ?thesis
  proof (cases l)
    case (Pc_Command key m ps d t t')
    let ?n = "ob_command_sequence (os_obs s)"
    let ?p = "\<lparr>pc_sequence = ?n + 1, pc_method = m, pc_domain = d, pc_started_at = t,
       pc_forwarded_at = Some t', pc_captures_content = captures_page_content m ps\<rparr>"
    have "?n + 1 \<notin> set (sequences s)" using num by (force simp: numbered_def)
    then have fresh: "pc_sequence ?p \<notin> set (map (pc_sequence \<circ> snd) (ob_pending (os_obs s)) @ map (pc_sequence \<circ> fst) (os_done s))"
      by (simp add: sequences_def)
    have dist: "distinct (map (pc_sequence \<circ> snd) (ob_pending (os_obs s)) @ map (pc_sequence \<circ> fst) (os_done s))"
      using num by (simp add: numbered_def sequences_def)
    note upd = update_distinct [OF dist fresh, of key]
    have seq: "sequences s' = map (pc_sequence \<circ> snd) (AList.update key ?p (ob_pending (os_obs s))) @ map (pc_sequence \<circ> fst) (os_done s)"
      by (simp add: s' Pc_Command sequences_def register_forward_pending)
    have "set (sequences s') \<subseteq> insert (?n + 1) (set (sequences s))"
      using upd(2) unfolding seq by (auto simp: sequences_def)
    moreover have "\<forall>n \<in> set (sequences s). n \<le> ?n + 1" using num by (force simp: numbered_def)
    ultimately have "\<forall>n \<in> set (sequences s'). n \<le> ?n + 1" by blast
    moreover have "ob_command_sequence (os_obs s') = ?n + 1" by (simp add: s' Pc_Command row_simps)
    ultimately show ?thesis using upd(1) unfolding numbered_def seq [symmetric] by simp
  next
    case (Pc_Finish key ty reason code t)
    show ?thesis
    proof (rule command_finish_cases [of t key ty "os_obs s" reason code])
      assume "settle_command t key (outcome_of ty) (os_obs s) = None"
        "fst (finish_command t key ty reason code (os_obs s)) = os_obs s"
      then show ?thesis by (intro numbered_cong [OF num]) (simp_all add: s' Pc_Finish settled_def)
    next
      fix p b1
      assume "settle_command t key (outcome_of ty) (os_obs s) = Some (p, b1)"
        "ob_pending (fst (finish_command t key ty reason code (os_obs s))) = ob_pending b1"
        "ob_command_sequence (fst (finish_command t key ty reason code (os_obs s))) = ob_command_sequence b1"
      then show ?thesis by (intro numbered_finish [OF num]) (simp_all add: s' Pc_Finish settled_def)
    qed
  next
    case (Pc_Flush a)
    have u: "distinct (map fst (ob_command_usage (os_obs s)))" "\<forall>(k, ms) \<in> set (ob_command_usage (os_obs s)). methods_ok ms"
      using ok by (simp_all add: observer_ok_def)
    show ?thesis by (rule flush_ok [OF u, of a]) (intro numbered_cong [OF num], simp_all add: s' Pc_Flush)
  next
    case (Pc_Phase a phase ms)
    then show ?thesis using record_phase_fields [of a phase ms "os_obs s"]
      by (intro numbered_cong [OF num]) (auto simp: s' split: option.split)
  qed (intro numbered_cong [OF num], simp_all add: s' row_simps)+
qed

section \<open>Every command counts once\<close>

definition owed ::
  "(rat \<Rightarrow> command_outcome \<Rightarrow> pending_command \<Rightarrow> int) \<Rightarrow> (pending_command \<times> command_outcome \<times> rat) list \<Rightarrow> int" where
  "owed g d = sum_list (map (\<lambda>(p, oc, t). g t oc p) d)"

lemma observer_ok_init: "observer_init s \<Longrightarrow> observer_ok s \<and> numbered s"
  and total_init: "observer_init s \<Longrightarrow> total f (os_obs s) = 0 \<and> os_done s = []"
proof -
  assume "observer_init s"
  then obtain sid aid prov where s: "os_obs s = new_observer (os_now s) sid aid prov" "os_done s = []"
    by (metis observer_init_def observer_sys.simps(2,3))
  have "ob_pending (os_obs s) = []" "ob_command_usage (os_obs s) = []" "ob_events (os_obs s) = []"
    by (simp_all add: s new_observer_def start_attempt_phase_def Let_def split: option.split)
  then show "observer_ok s \<and> numbered s" "total f (os_obs s) = 0 \<and> os_done s = []"
    by (simp_all add: observer_ok_def numbered_def sequences_def total_def summaries_def s List.map_filter_def)
qed

interpretation observer: invariant_system observer_init observer_step "\<lambda>s. observer_ok s \<and> numbered s"
  by unfold_locales (auto intro: observer_ok_step numbered_step dest: observer_ok_init)

context usage_measure
begin

definition balanced :: "observer_sys \<Rightarrow> bool" where
  "balanced s \<longleftrightarrow> attempt_key (os_obs s) \<noteq> None \<longrightarrow> total f (os_obs s) = owed g (os_done s)"

lemma balanced_init: "observer_init s \<Longrightarrow> balanced s"
  by (simp add: balanced_def total_init owed_def)

lemma balanced_same:
  "balanced s \<Longrightarrow> total f (os_obs s') = total f (os_obs s) \<Longrightarrow> attempt_key (os_obs s') = attempt_key (os_obs s)
   \<Longrightarrow> os_done s' = os_done s \<Longrightarrow> balanced s'"
  by (simp add: balanced_def)

lemma balanced_accounts:
  "balanced s \<Longrightarrow> same_accounts (os_obs s) (os_obs s') \<Longrightarrow> os_done s' = os_done s \<Longrightarrow> balanced s'"
  by (rule balanced_same, assumption, rule same_accounts_total, assumption) (simp_all add: same_accounts_def)

lemma balanced_step:
  assumes bal: "balanced s" and ok: "observer_ok s" and st: "observer_step s l s'"
  shows "balanced s'"
proof -
  have s': "s' = apply_piece l s" and guard: "piece_ok (os_now s) l" using st by (simp_all add: observer_step_def)
  show ?thesis
  proof (cases l)
    case (Pc_Publish ty p)
    then show ?thesis using emit_same [of p "os_obs s" ty] guard
      by (intro balanced_accounts [OF bal]) (simp_all add: s')
  next
    case (Pc_Domain d)
    then show ?thesis by (intro balanced_accounts [OF bal]) (simp_all add: s' same_accounts_def summaries_def)
  next
    case (Pc_Command key m ps d t t')
    then show ?thesis
      by (intro balanced_accounts [OF bal]) (simp_all add: s' same_accounts_def row_simps summaries_def)
  next
    case (Pc_Finish key ty reason code t)
    show ?thesis
    proof (rule command_finish_cases [of t key ty "os_obs s" reason code])
      assume "settle_command t key (outcome_of ty) (os_obs s) = None"
        "fst (finish_command t key ty reason code (os_obs s)) = os_obs s"
      then show ?thesis by (intro balanced_accounts [OF bal]) (simp_all add: s' Pc_Finish settled_def)
    next
      fix p b1
      assume a: "settle_command t key (outcome_of ty) (os_obs s) = Some (p, b1)"
        "same_accounts b1 (fst (finish_command t key ty reason code (os_obs s)))"
      from a(1) have key: "attempt_key b1 = attempt_key (os_obs s)" by (rule settleE) blast
      have "os_done s' = os_done s @ [(p, outcome_of ty, t)]" by (simp add: s' Pc_Finish settled_def a(1))
      then have owed: "owed g (os_done s') = owed g (os_done s) + g t (outcome_of ty) p" by (simp add: owed_def)
      show ?thesis unfolding balanced_def owed
        using bal a(2) key settle_total [OF a(1)] same_accounts_total [OF a(2), of f]
        by (simp add: balanced_def s' Pc_Finish same_accounts_def)
    qed
  next
    case (Pc_Flush a)
    have u: "distinct (map fst (ob_command_usage (os_obs s)))" "\<forall>(k, ms) \<in> set (ob_command_usage (os_obs s)). methods_ok ms"
      using ok by (simp_all add: observer_ok_def)
    show ?thesis by (rule flush_ok [OF u, of a]) (intro balanced_same [OF bal], simp_all add: s' Pc_Flush)
  next
    case (Pc_Phase a phase ms)
    then show ?thesis using record_phase_fields [of a phase ms "os_obs s"]
      by (intro balanced_accounts [OF bal]) (auto simp: s' split: option.split)
  qed
qed

end

sublocale usage_measure \<subseteq> accounts: invariant_system observer_init observer_step "\<lambda>s. observer_ok s \<and> balanced s"
  by unfold_locales (blast intro: observer_ok_step balanced_step balanced_init dest: observer_ok_init)+

lemmas usage_simps = add_usage_def no_usage_def

interpretation m_count: usage_measure cu_count "\<lambda>_ _ _. 1"
  by unfold_locales (simp_all add: usage_simps)

interpretation m_failed: usage_measure cu_failed_count "\<lambda>_ oc _. if oc = Failed then 1 else 0"
  by unfold_locales (simp_all add: usage_simps)

interpretation m_interrupted: usage_measure cu_interrupted_count "\<lambda>_ oc _. if oc = Interrupted then 1 else 0"
  by unfold_locales (simp_all add: usage_simps)

interpretation m_duration: usage_measure cu_duration_ms "\<lambda>t _ p. duration_ms t p"
  by unfold_locales (simp_all add: usage_simps)

interpretation m_latency: usage_measure cu_provider_latency_ms "\<lambda>t _ p. provider_latency_ms t p"
  by unfold_locales (simp_all add: usage_simps)

interpretation m_queue: usage_measure cu_stolosio_queue_ms "\<lambda>_ _ p. stolosio_queue_ms p"
  by unfold_locales (simp_all add: usage_simps)

text \<open>C9: In every run under a monotone clock, the usage tables the observer still holds and the summaries
  it has published account together for every settled command of the attempt exactly once: the counts add
  up to the number of settled commands, failures and interruptions to theirs, and the durations, provider
  latencies and queueing times to the sums over those commands. No command is settled twice.\<close>

theorem commands_counted_once:
  assumes "reach observer_init observer_step s" "attempt_key (os_obs s) \<noteq> None"
  shows "total cu_count (os_obs s) = int (length (os_done s))
    \<and> total cu_failed_count (os_obs s) = int (count_where (\<lambda>(p, oc, t). oc = Failed) (os_done s))
    \<and> total cu_interrupted_count (os_obs s) = int (count_where (\<lambda>(p, oc, t). oc = Interrupted) (os_done s))
    \<and> total cu_duration_ms (os_obs s) = (\<Sum>(p, oc, t) \<leftarrow> os_done s. duration_ms t p)
    \<and> total cu_provider_latency_ms (os_obs s) = (\<Sum>(p, oc, t) \<leftarrow> os_done s. provider_latency_ms t p)
    \<and> total cu_stolosio_queue_ms (os_obs s) = (\<Sum>(p, oc, t) \<leftarrow> os_done s. stolosio_queue_ms p)
    \<and> distinct (map (pc_sequence \<circ> fst) (os_done s))"
proof -
  have count: "(\<Sum>(p, oc, t) \<leftarrow> d. if P oc then 1 else 0) = int (count_where (\<lambda>(p, oc, t). P oc) d)"
    for P and d :: "(pending_command \<times> command_outcome \<times> rat) list"
    by (induction d) (auto simp: count_where_def)
  have "distinct (sequences s)" using observer.reach_inv [OF assms(1)] by (simp add: numbered_def)
  then have "distinct (map (pc_sequence \<circ> fst) (os_done s))" by (simp add: sequences_def)
  moreover have "owed (\<lambda>_ _ _. 1) (os_done s) = int (length (os_done s))"
  proof -
    have "(\<Sum>(p, oc, t) \<leftarrow> d. 1) = int (length d)" for d :: "(pending_command \<times> command_outcome \<times> rat) list"
      by (induction d) auto
    then show ?thesis by (simp add: owed_def)
  qed
  ultimately show ?thesis
    using m_count.accounts.reach_inv [OF assms(1)] m_failed.accounts.reach_inv [OF assms(1)]
      m_interrupted.accounts.reach_inv [OF assms(1)] m_duration.accounts.reach_inv [OF assms(1)]
      m_latency.accounts.reach_inv [OF assms(1)] m_queue.accounts.reach_inv [OF assms(1)]
      count [where P = "\<lambda>oc. oc = Failed"] count [where P = "\<lambda>oc. oc = Interrupted"] assms(2)
    by (simp add: m_count.balanced_def m_failed.balanced_def m_interrupted.balanced_def
        m_duration.balanced_def m_latency.balanced_def m_queue.balanced_def owed_def)
qed

fun run_pieces :: "piece list \<Rightarrow> observer_sys \<Rightarrow> observer_sys option" where
  "run_pieces [] s = Some s"
| "run_pieces (l # ls) s = (if piece_ok (os_now s) l then run_pieces ls (apply_piece l s) else None)"

lemma run_steps: "run_pieces ls s = Some s' \<Longrightarrow> steps observer_step s ls s'"
  by (induction ls arbitrary: s) (auto intro: steps.intros simp: observer_step_def split: if_splits)

lemma run_reach: "reach observer_init observer_step s \<Longrightarrow> run_pieces ls s = Some s' \<Longrightarrow> reach observer_init observer_step s'"
proof (induction ls arbitrary: s)
  case (Cons l ls)
  then have "observer_step s l (apply_piece l s)" and rest: "run_pieces ls (apply_piece l s) = Some s'"
    by (auto split: if_splits simp: observer_step_def)
  from reach_step [OF Cons.prems(1) this(1)] show ?case using rest by (rule Cons.IH)
qed simp

definition demo_start :: observer_sys where
  "demo_start = \<lparr>os_now = 0, os_obs = new_observer 0 ''session'' (Some ''attempt'') (Some BROWSERLESS), os_done = []\<rparr>"

definition demo_pieces :: "piece list" where
  "demo_pieces =
     [Pc_Command (None, 1) ''Page.navigate'' (JObj []) (Some ''example.com'') 1 1,
      Pc_Command (Some ''s'', 2) ''Runtime.evaluate'' (JObj []) None 2 3,
      Pc_Finish (None, 2) None None None 5,
      Pc_Flush ''attempt'',
      Pc_Finish (None, 1) (Some COMMAND_FAILED) (Some ''provider_command_error'') None 6]"

definition demo_end :: observer_sys where
  "demo_end = the (run_pieces demo_pieces demo_start)"

lemma demo_runs: "run_pieces demo_pieces demo_start = Some demo_end"
proof -
  have "run_pieces demo_pieces demo_start \<noteq> None" by code_simp
  then show ?thesis by (auto simp: demo_end_def)
qed

lemma demo_end_reach: "reach observer_init observer_step demo_end"
proof (rule run_reach [OF _ demo_runs], rule reach_init)
  show "observer_init demo_start" by (auto simp: observer_init_def demo_start_def)
qed

theorem commands_counted_once_witness:
  "attempt_key (os_obs demo_end) \<noteq> None
   \<and> total cu_count (os_obs demo_end) = int (length (os_done demo_end)) \<and> length (os_done demo_end) = 2
   \<and> total cu_duration_ms (os_obs demo_end) = 8000"
proof -
  have k: "attempt_key (os_obs demo_end) \<noteq> None" by code_simp
  have "length (os_done demo_end) = 2 \<and> (\<Sum>(p, oc, t) \<leftarrow> os_done demo_end. duration_ms t p) = 8000" by code_simp
  with commands_counted_once [OF demo_end_reach k] k show ?thesis by simp
qed

section \<open>Summaries and interruptions\<close>

text \<open>C26: Every usage table of a reachable observer is a valid summary payload (at most 256 methods,
  names of at most 128 characters, positive counts, no negative time, and no more failures and interruptions
  than commands), so publishing the summary of an attempt never fails; afterwards the observer holds
  nothing for the attempt.\<close>

theorem summaries_are_valid:
  assumes "reach observer_init observer_step s"
  shows "(\<forall>ms. command_summary a (os_obs s) = Some ms \<longrightarrow> payload_ok (Summary_Payload ms)
      \<and> (\<forall>(m, u) \<in> set ms. cu_failed_count u + cu_interrupted_count u \<le> cu_count u))
    \<and> (\<exists>b'. flush_command_summary a (os_obs s) = (b', False) \<and> command_summary a b' = None)"
proof -
  let ?b = "os_obs s"
  have u: "distinct (map fst (ob_command_usage ?b))" "\<forall>(k, ms) \<in> set (ob_command_usage ?b). methods_ok ms"
    using observer.reach_inv [OF assms] by (simp_all add: observer_ok_def)
  have "methods_ok ms" if "command_summary a ?b = Some ms" for ms
  proof -
    from that obtain k rest where "filter (\<lambda>(k, _). snd k = a) (ob_command_usage ?b) = (k, ms) # rest"
      by (auto simp: command_summary_def split: list.splits)
    then have "(k, ms) \<in> set (filter (\<lambda>(k, _). snd k = a) (ob_command_usage ?b))" by simp
    then have "(k, ms) \<in> set (ob_command_usage ?b)" by simp
    then show ?thesis using u(2) by blast
  qed
  then have "payload_ok (Summary_Payload ms) \<and> (\<forall>(m, u) \<in> set ms. cu_failed_count u + cu_interrupted_count u \<le> cu_count u)"
    if "command_summary a ?b = Some ms" for ms
    using that methods_ok_payload by (auto simp: methods_ok_def usage_ok_def)
  moreover obtain b' where b': "flush_command_summary a ?b = (b', False)"
    "ob_command_usage b' = filter (\<lambda>(k, _). snd k \<noteq> a) (ob_command_usage ?b)"
    using flush_ok [OF u, of a] by metis
  have "command_summary a b' = None"
    by (simp add: command_summary_def b'(2) split_beta split: list.splits)
  with b'(1) have "\<exists>b'. flush_command_summary a ?b = (b', False) \<and> command_summary a b' = None" by blast
  ultimately show ?thesis by blast
qed

theorem summaries_are_valid_witness:
  "command_summary ''attempt'' (os_obs demo_end)
     = Some [(''Page.navigate'', \<lparr>cu_count = 1, cu_failed_count = 1, cu_interrupted_count = 0, cu_duration_ms = 5000,
              cu_provider_latency_ms = 5000, cu_stolosio_queue_ms = 0\<rparr>)]
   \<and> (\<exists>b'. flush_command_summary ''attempt'' (os_obs demo_end) = (b', False) \<and> command_summary ''attempt'' b' = None)"
proof -
  have "command_summary ''attempt'' (os_obs demo_end)
     = Some [(''Page.navigate'', \<lparr>cu_count = 1, cu_failed_count = 1, cu_interrupted_count = 0, cu_duration_ms = 5000,
              cu_provider_latency_ms = 5000, cu_stolosio_queue_ms = 0\<rparr>)]" by code_simp
  with summaries_are_valid [OF demo_end_reach, of "''attempt''"] show ?thesis by blast
qed

lemma settle_exact:
  assumes "map_of (ob_pending b) key = Some p"
  obtains b1 where "settle_command t key oc b = Some (p, b1)" "ob_pending b1 = AList.delete key (ob_pending b)"
    "ob_events b1 = ob_events b"
proof -
  have "pop_entry key (ob_pending b) = Some (p, AList.delete key (ob_pending b))"
    by (simp add: pop_entry_def pop_key_def assms)
  then obtain b1 where s: "settle_command t key oc b = Some (p, b1)"
    and d: "ob_pending b1 = AList.delete key (ob_pending b)"
    by (simp add: settle_command_def Let_def row_simps split: option.split prod.split)
  from s have "ob_events b1 = ob_events b" by (rule settleE) blast
  with s d show ?thesis by (rule that)
qed

text \<open>The event that reports a pending command as interrupted at an instant.\<close>

definition interruption_event :: "string \<Rightarrow> observer \<Rightarrow> rat \<Rightarrow> command_key \<times> pending_command \<Rightarrow> observed_event" where
  "interruption_event reason b t = (\<lambda>(key, p).
     \<lparr>ev_type = COMMAND_INTERRUPTED, ev_session_id = ob_session_id b, ev_provider = ob_provider b, ev_attempt_id = ob_attempt_id b,
      ev_payload = Command_Payload \<lparr>cp_command_id = snd key, cp_command_sequence = pc_sequence p, cp_method = take 128 (pc_method p),
        cp_domain = pc_domain p, cp_duration_ms = duration_ms t p, cp_provider_latency_ms = provider_latency_ms t p,
        cp_stolosio_queue_ms = stolosio_queue_ms p, cp_reason = Some reason, cp_cdp_error_code = None\<rparr>\<rparr>)"

lemma settle_who:
  "settle_command t key oc b = Some (p, b1) \<Longrightarrow> ob_session_id b1 = ob_session_id b \<and> ob_provider b1 = ob_provider b \<and> ob_attempt_id b1 = ob_attempt_id b"
  by (auto simp: settle_command_def account_command_def finish_phase_command_def Let_def split: option.splits prod.splits)

lemma interrupt_all_outcome:
  assumes "length reason \<le> 64" "ob_pending b = d" "distinct (map fst d)"
  shows "(snd (interrupt_all clock reason (map fst d) b) \<longleftrightarrow> (\<exists>(k, p) \<in> set d. \<not> at_most 253 (pc_domain p)))
    \<and> (\<exists>n. (if snd (interrupt_all clock reason (map fst d) b) then n < length d \<and> \<not> at_most 253 (pc_domain (snd (d ! n))) else n = length d)
         \<and> ob_pending (fst (interrupt_all clock reason (map fst d) b)) = drop (if snd (interrupt_all clock reason (map fst d) b) then Suc n else n) d
         \<and> ob_events (fst (interrupt_all clock reason (map fst d) b)) = ob_events b @ map (\<lambda>i. interruption_event reason b (clock i) (d ! i)) [0..<n])"
  using assms(2,3)
proof (induction d arbitrary: b clock)
  case (Cons x d)
  obtain key p where x: "x = (key, p)" by (cases x)
  have "map_of (ob_pending b) key = Some p" using Cons.prems(1) by (simp add: x)
  then obtain b1 where b1: "settle_command (clock 0) key (outcome_of (Some COMMAND_INTERRUPTED)) b = Some (p, b1)"
    "ob_pending b1 = AList.delete key (ob_pending b)" "ob_events b1 = ob_events b" by (rule settle_exact)
  note who = settle_who [OF b1(1)]
  have "key \<notin> fst ` set d" using Cons.prems(2) by (auto simp: x)
  then have pend: "ob_pending b1 = d"
    by (simp add: b1(2) Cons.prems(1) x AList.delete_id)
  let ?e = "emit COMMAND_INTERRUPTED (command_event (clock 0) (snd key) (Some reason) None p) b1"
  have fin: "finish_command (clock 0) key (Some COMMAND_INTERRUPTED) (Some reason) None b = ?e"
    unfolding finish_command_def b1(1) by simp
  have ok: "payload_ok (command_event (clock 0) (snd key) (Some reason) None p) \<longleftrightarrow> at_most 253 (pc_domain p)"
    using assms(1) by (simp add: payload_ok_def command_event_def at_most_def)
  show ?case
  proof (cases "at_most 253 (pc_domain p)")
    case True
    let ?b2 = "fst ?e" and ?clock = "\<lambda>i. clock (Suc i)"
    have e: "?e = (?b2, False)" "ob_pending ?b2 = d"
      "ob_events ?b2 = ob_events b @ [interruption_event reason b (clock 0) x]"
      using True ok who by (simp_all add: emit_def emit_for_attempt_def pend b1(3) interruption_event_def command_event_def x)
    have same: "interruption_event reason ?b2 = interruption_event reason b"
      using True ok who by (simp add: fun_eq_iff interruption_event_def emit_def emit_for_attempt_def)
    have rec: "interrupt_all clock reason (map fst (x # d)) b = interrupt_all ?clock reason (map fst d) ?b2"
      unfolding x list.map fst_conv interrupt_all.simps fin by (subst e(1)) simp
    have "distinct (map fst d)" using Cons.prems(2) by simp
    from Cons.IH [OF e(2) this, of ?clock, unfolded same e(3)] obtain n where
      iff: "snd (interrupt_all ?clock reason (map fst d) ?b2) \<longleftrightarrow> (\<exists>(k, p) \<in> set d. \<not> at_most 253 (pc_domain p))"
      and n: "if snd (interrupt_all ?clock reason (map fst d) ?b2) then n < length d \<and> \<not> at_most 253 (pc_domain (snd (d ! n))) else n = length d"
        "ob_pending (fst (interrupt_all ?clock reason (map fst d) ?b2)) = drop (if snd (interrupt_all ?clock reason (map fst d) ?b2) then Suc n else n) d"
        "ob_events (fst (interrupt_all ?clock reason (map fst d) ?b2))
           = (ob_events b @ [interruption_event reason b (clock 0) x]) @ map (\<lambda>i. interruption_event reason b (?clock i) (d ! i)) [0..<n]" by blast
    have "map (\<lambda>i. interruption_event reason b (clock i) ((x # d) ! i)) [0..<Suc n]
        = interruption_event reason b (clock 0) x # map (\<lambda>i. interruption_event reason b (?clock i) (d ! i)) [0..<n]"
      unfolding upt_conv_Cons [OF zero_less_Suc] map_Suc_upt [symmetric] by simp
    with iff n True show ?thesis unfolding rec
      by (intro conjI exI [of _ "Suc n"]) (auto simp: x split: if_splits)
  next
    case False
    then have "?e = (b1, True)" using ok by (simp add: emit_def emit_for_attempt_def)
    then show ?thesis using False by (intro conjI exI [of _ 0]) (simp_all add: x fin pend b1(3))
  qed
qed simp

text \<open>C29: When a session ends, the commands that are still pending are reported as interrupted, one event for each and in
  their order, with the command's own identifier, sequence number, method and times and the given reason, and none stays pending,
  unless some pending command carries a domain of more than 253 characters: then, and only
  then, the payload of its event fails validation and the interruption stops with an error at such a
  command, with those before it reported and those after it still pending.\<close>

theorem interruption_settles_all:
  assumes "length reason \<le> 64" "distinct (map fst (ob_pending b))" "interrupt_pending clock reason b = (b', failed)"
  shows "(failed \<longleftrightarrow> (\<exists>(k, p) \<in> set (ob_pending b). \<not> at_most 253 (pc_domain p)))
    \<and> (\<exists>n. (if failed then n < length (ob_pending b) \<and> \<not> at_most 253 (pc_domain (snd (ob_pending b ! n))) else n = length (ob_pending b))
         \<and> ob_pending b' = drop (if failed then Suc n else n) (ob_pending b)
         \<and> ob_events b' = ob_events b @ map (\<lambda>i. interruption_event reason b (clock i) (ob_pending b ! i)) [0..<n])"
  using interrupt_all_outcome [OF assms(1) refl assms(2), of clock, folded interrupt_pending_def, unfolded assms(3) fst_conv snd_conv] .

definition demo_interrupted :: "string \<Rightarrow> observer" where
  "demo_interrupted domain =
     register_command 2 (None, 2) ''Page.enable'' (JObj []) (Some domain)
       (register_command 1 (None, 1) ''Page.navigate'' (JObj []) (Some ''a.io'')
          (new_observer 0 ''session'' (Some ''attempt'') (Some BROWSERLESS)))"

theorem interruption_settles_all_witness:
  "ob_pending (fst (interrupt_pending (\<lambda>_. 3) ''session_ended'' (demo_interrupted (replicate 254 CHR ''a'')))) = drop 2 (ob_pending (demo_interrupted (replicate 254 CHR ''a'')))
   \<and> map ev_type (ob_events (fst (interrupt_pending (\<lambda>_. 3) ''session_ended'' (demo_interrupted ''a.io'')))) = [COMMAND_INTERRUPTED, COMMAND_INTERRUPTED]"
proof -
  let ?bad = "demo_interrupted (replicate 254 CHR ''a'')" and ?good = "demo_interrupted ''a.io''"
  have r: "length ''session_ended'' \<le> 64" by code_simp
  have bad: "distinct (map fst (ob_pending ?bad))" "snd (interrupt_pending (\<lambda>_. 3) ''session_ended'' ?bad)"
    "length (ob_pending ?bad) = 2" "at_most 253 (pc_domain (snd (ob_pending ?bad ! 0)))" by code_simp+
  have good: "distinct (map fst (ob_pending ?good))" "\<not> snd (interrupt_pending (\<lambda>_. 3) ''session_ended'' ?good)"
    "length (ob_pending ?good) = 2" "ob_events ?good = []" by code_simp+
  from interruption_settles_all [OF r bad(1) prod.collapse [symmetric], of "\<lambda>_. 3"] bad(2) obtain n where
    n: "n < length (ob_pending ?bad)" "\<not> at_most 253 (pc_domain (snd (ob_pending ?bad ! n)))"
      "ob_pending (fst (interrupt_pending (\<lambda>_. 3) ''session_ended'' ?bad)) = drop (Suc n) (ob_pending ?bad)" by auto
  have "n \<noteq> 0" using n(2) bad(4) by metis
  then have "n = 1" using n(1) bad(3) by simp
  with n(3) have one: "ob_pending (fst (interrupt_pending (\<lambda>_. 3) ''session_ended'' ?bad)) = drop 2 (ob_pending ?bad)" by (simp add: numeral_2_eq_2)
  from interruption_settles_all [OF r good(1) prod.collapse [symmetric], of "\<lambda>_. 3"] good(2-4)
  have "ob_events (fst (interrupt_pending (\<lambda>_. 3) ''session_ended'' ?good)) = map (\<lambda>i. interruption_event ''session_ended'' ?good 3 (ob_pending ?good ! i)) [0..<2]"
    by simp
  then have "map ev_type (ob_events (fst (interrupt_pending (\<lambda>_. 3) ''session_ended'' ?good))) = [COMMAND_INTERRUPTED, COMMAND_INTERRUPTED]"
    by (simp add: interruption_event_def split_beta numeral_2_eq_2)
  with one show ?thesis by blast
qed

section \<open>Handlers are sequences of atomic steps\<close>

text \<open>What the relay and the gateway call, with the readings of the clock.\<close>

datatype handler =
    H_Command rat rat json
  | H_Upstream rat "json option"
  | H_Disconnected string
  | H_Interrupt "nat \<Rightarrow> rat" string
  | H_Flush string
  | H_Flush_All
  | H_Phase string string int
  | H_Phases string "json option"

fun handle :: "observer_env \<Rightarrow> handler \<Rightarrow> observer \<Rightarrow> observer" where
  "handle e (H_Command t t' command) b =
     (case command_received e t command b of
        (b1, True) \<Rightarrow> b1 | (b1, False) \<Rightarrow> command_forwarded t' command b1)"
| "handle e (H_Upstream t v) b = upstream_message e t v b"
| "handle e (H_Disconnected reason) b = fst (provider_disconnected reason b)"
| "handle e (H_Interrupt clock reason) b = fst (interrupt_pending clock reason b)"
| "handle e (H_Flush a) b = fst (flush_command_summary a b)"
| "handle e H_Flush_All b = fst (flush_command_summaries b)"
| "handle e (H_Phases a phases) b = record_attempt_phases a phases b"
| "handle e (H_Phase a phase ms) b = (case record_attempt_phase a phase ms b of Some b' \<Rightarrow> b' | None \<Rightarrow> b)"

fun handler_ok :: "rat \<Rightarrow> handler \<Rightarrow> bool" where
  "handler_ok now (H_Command t t' command) \<longleftrightarrow> now \<le> t \<and> t \<le> t'"
| "handler_ok now (H_Upstream t v) \<longleftrightarrow> now \<le> t"
| "handler_ok now (H_Interrupt clock reason) \<longleftrightarrow> now \<le> clock 0 \<and> (\<forall>i. clock i \<le> clock (Suc i))"
| "handler_ok now _ \<longleftrightarrow> True"

definition by_pieces :: "observer_sys \<Rightarrow> observer \<Rightarrow> bool" where
  "by_pieces s b \<longleftrightarrow> (\<exists>ls s'. steps observer_step s ls s' \<and> os_obs s' = b)"

lemma by_pieces_refl [simp]: "by_pieces s (os_obs s)"
  unfolding by_pieces_def by (blast intro: steps_Nil)

lemma by_pieces_step: "observer_step s l s' \<Longrightarrow> by_pieces s' b \<Longrightarrow> by_pieces s b"
  unfolding by_pieces_def by (blast intro: steps_Cons)

lemma by_pieces_one: "piece_ok (os_now s) l \<Longrightarrow> os_obs (apply_piece l s) = b \<Longrightarrow> by_pieces s b"
  using by_pieces_step [of s l "apply_piece l s"] by (auto simp: observer_step_def)

lemma by_pieces_emit: "\<not> is_summary p \<Longrightarrow> by_pieces s (fst (emit ty p (os_obs s)))"
  by (rule by_pieces_one [of _ "Pc_Publish ty p"]) (simp_all add: observer_step_def)

lemma by_pieces_finish: "os_now s \<le> t \<Longrightarrow> by_pieces s (fst (finish_command t key ty reason code (os_obs s)))"
  by (rule by_pieces_one [of _ "Pc_Finish key ty reason code t"]) (simp_all add: observer_step_def)

lemma by_pieces_interrupt:
  "os_now s \<le> clock 0 \<Longrightarrow> (\<forall>i. clock i \<le> clock (Suc i)) \<Longrightarrow>
   by_pieces s (fst (interrupt_all clock reason keys (os_obs s)))"
proof (induction keys arbitrary: s clock)
  case (Cons key keys)
  let ?l = "Pc_Finish key (Some COMMAND_INTERRUPTED) (Some reason) None (clock 0)"
  let ?f = "finish_command (clock 0) key (Some COMMAND_INTERRUPTED) (Some reason) None (os_obs s)"
  have st: "observer_step s ?l (apply_piece ?l s)" using Cons.prems by (simp add: observer_step_def)
  show ?case
  proof (cases "snd ?f")
    case True
    then have "interrupt_all clock reason (key # keys) (os_obs s) = (fst ?f, True)" by (cases ?f) simp
    then show ?thesis using by_pieces_step [OF st by_pieces_refl] by simp
  next
    case False
    then have "interrupt_all clock reason (key # keys) (os_obs s)
        = interrupt_all (\<lambda>i. clock (Suc i)) reason keys (os_obs (apply_piece ?l s))" by (cases ?f) simp
    moreover have "by_pieces (apply_piece ?l s) (fst (interrupt_all (\<lambda>i. clock (Suc i)) reason keys (os_obs (apply_piece ?l s))))"
      by (rule Cons.IH) (use Cons.prems in simp_all)
    ultimately show ?thesis using by_pieces_step [OF st] by metis
  qed
qed simp

lemma is_summary_simps [simp]: "\<not> is_summary (Observation_Payload x)" "\<not> is_summary (Disconnect_Payload r)"
  by (simp_all add: is_summary_def)

lemma observe_event_pieces: "by_pieces s (fst (observe_event e v (os_obs s)))"
proof -
  have resp: "by_pieces s (fst (document_response e r (os_obs s)))" for r
  proof -
    have "by_pieces s (fst (emit ty (Observation_Payload x) ((os_obs s)\<lparr>ob_domain := d\<rparr>)))" for ty x d
    proof (rule by_pieces_step [of _ "Pc_Domain d"])
      show "observer_step s (Pc_Domain d) (apply_piece (Pc_Domain d) s)" by (simp add: observer_step_def)
      show "by_pieces (apply_piece (Pc_Domain d) s) (fst (emit ty (Observation_Payload x) ((os_obs s)\<lparr>ob_domain := d\<rparr>)))"
        using by_pieces_emit [of "Observation_Payload x" "apply_piece (Pc_Domain d) s" ty] by simp
    qed
    then show ?thesis by (simp add: document_response_def split: option.split)
  qed
  show ?thesis
    by (auto simp: observe_event_def console_def Let_def resp by_pieces_emit split: option.split)
qed

lemma observe_content_pieces:
  obtains s1 where "s1 = s \<or> (\<exists>ty p. observer_step s (Pc_Publish ty p) s1)"
    "os_obs s1 = fst (observe_content cid v (os_obs s))" "os_now s1 = os_now s"
proof -
  have "fst (observe_content cid v (os_obs s)) = os_obs s
      \<or> (\<exists>ty x. fst (observe_content cid v (os_obs s)) = fst (emit ty (Observation_Payload x) (os_obs s)))"
    by (auto simp: observe_content_def split: option.split)
  then show ?thesis
  proof
    assume "\<exists>ty x. fst (observe_content cid v (os_obs s)) = fst (emit ty (Observation_Payload x) (os_obs s))"
    then obtain ty x where "fst (observe_content cid v (os_obs s)) = fst (emit ty (Observation_Payload x) (os_obs s))"
      by blast
    then show ?thesis
      using that [of "apply_piece (Pc_Publish ty (Observation_Payload x)) s"]
      by (metis (no_types) apply_piece.simps(1) is_summary_simps(1) observer_step_def observer_sys.select_convs(1,2)
          observer_sys.surjective observer_sys.update_convs(2) piece_ok.simps(1))
  qed (metis that)
qed

lemma upstream_pieces:
  assumes "os_now s \<le> t"
  shows "by_pieces s (upstream_message e t v (os_obs s))"
proof (cases "jobj v")
  case (Some x)
  show ?thesis
  proof (cases "jint (jget x ''id'')")
    case None
    then show ?thesis using observe_event_pieces by (simp add: upstream_message_def Some observe_upstream_def)
  next
    case id: (Some cid)
    let ?key = "(jstr (jget x ''sessionId''), cid)"
    show ?thesis
    proof (cases "jobj (jget x ''error'')")
      case (Some err)
      then show ?thesis using by_pieces_finish [OF assms]
        by (simp add: upstream_message_def \<open>jobj v = Some x\<close> observe_upstream_def id Let_def)
    next
      case None
      obtain s1 where s1: "s1 = s \<or> (\<exists>ty p. observer_step s (Pc_Publish ty p) s1)"
        "os_obs s1 = fst (observe_content cid x (os_obs s))" "os_now s1 = os_now s"
        by (rule observe_content_pieces)
      have "by_pieces s1 (upstream_message e t v (os_obs s))"
        using by_pieces_finish [of s1 t ?key None None None] assms s1(2,3) by_pieces_refl [of s1]
        by (cases "observe_content cid x (os_obs s)"; cases "snd (observe_content cid x (os_obs s))")
          (simp_all add: upstream_message_def \<open>jobj v = Some x\<close> observe_upstream_def id None Let_def)
      then show ?thesis using s1(1) by_pieces_step by blast
    qed
  qed
qed (simp add: upstream_message_def)

lemma command_pieces:
  assumes "os_now s \<le> t" "t \<le> t'"
  shows "by_pieces s (handle e (H_Command t t' command) (os_obs s))"
proof (cases "jint (jget command ''id'')"; cases "jstr (jget command ''method'')")
  fix cid m
  assume c: "jint (jget command ''id'') = Some cid" "jstr (jget command ''method'') = Some m"
  let ?key = "(jstr (jget command ''sessionId''), cid)"
  obtain url d where n: "navigation_of e m (params_of command) (os_obs s) = (url, d)"
    by (cases "navigation_of e m (params_of command) (os_obs s)")
  let ?l = "Pc_Command ?key m (params_of command) d t t'"
  have reg: "by_pieces s1 (forward_key t' ?key (register_command t ?key m (params_of command) d (os_obs s1)))"
    if "os_now s1 = os_now s" for s1
    by (rule by_pieces_one [of _ ?l]) (use assms that in \<open>simp_all add: observer_step_def\<close>)
  show ?thesis
  proof (cases url)
    case None
    then have "handle e (H_Command t t' command) (os_obs s)
        = forward_key t' ?key (register_command t ?key m (params_of command) d (os_obs s))"
      by (simp add: command_received_def c n command_forwarded_def)
    then show ?thesis using reg [of s] by simp
  next
    case (Some u)
    let ?p = "Observation_Payload (no_observation\<lparr>op_url := Some u\<rparr>)"
    let ?s1 = "apply_piece (Pc_Publish NAVIGATION_REQUESTED ?p) s"
    have ok: "payload_ok ?p" by (simp add: payload_ok_def no_observation_def at_most_def)
    have e: "emit NAVIGATION_REQUESTED ?p (os_obs s) = (os_obs ?s1, False)"
      using ok by (simp add: emit_def emit_for_attempt_def)
    have "handle e (H_Command t t' command) (os_obs s)
        = forward_key t' ?key (register_command t ?key m (params_of command) d (os_obs ?s1))"
      unfolding handle.simps command_received_def c n command_forwarded_def option.case prod.case Let_def Some e
      by simp
    moreover have "observer_step s (Pc_Publish NAVIGATION_REQUESTED ?p) ?s1" by (simp add: observer_step_def)
    ultimately show ?thesis using reg [of ?s1] by (metis by_pieces_step apply_piece.simps(1) observer_sys.select_convs(1) observer_sys.surjective observer_sys.update_convs(2))
  qed
qed (simp_all add: command_received_def)

lemma flush_each_pieces: "by_pieces s (fst (flush_each as (os_obs s)))"
proof (induction "as" arbitrary: s)
  case (Cons a "as")
  let ?s = "apply_piece (Pc_Flush a) s"
  have st: "observer_step s (Pc_Flush a) ?s" by (simp add: observer_step_def)
  have "fst (flush_each (a # as) (os_obs s)) = os_obs ?s \<or> fst (flush_each (a # as) (os_obs s)) = fst (flush_each as (os_obs ?s))"
    by (simp split: prod.split bool.split)
  then show ?case using by_pieces_step [OF st by_pieces_refl] by_pieces_step [OF st Cons.IH] by metis
qed simp

lemma phases_pieces:
  "by_pieces s (fold (\<lambda>(phase, v) b. case jint (Some v) of
       Some ms \<Rightarrow> (case record_attempt_phase a phase ms b of Some b' \<Rightarrow> b' | None \<Rightarrow> b) | None \<Rightarrow> b) kvs (os_obs s))"
proof (induction kvs arbitrary: s)
  case (Cons x kvs)
  obtain phase v where x: "x = (phase, v)" by (cases x)
  show ?case
  proof (cases "jint (Some v)")
    case None
    then show ?thesis using Cons.IH by (simp add: x)
  next
    case (Some ms)
    let ?s = "apply_piece (Pc_Phase a phase ms) s"
    have "observer_step s (Pc_Phase a phase ms) ?s" by (simp add: observer_step_def)
    then show ?thesis using by_pieces_step Cons.IH [of ?s] by (simp add: x Some)
  qed
qed simp

text \<open>Each handler the relay and the gateway call (a client command, a browser message, a lost
  connection, the interruption at the end, the flush of one attempt or of all, the phases a provider recorded) is a
  sequence of the atomic steps, so the invariants of runs of atomic steps hold whenever handlers interleave.\<close>

lemma handlers_refine_pieces:
  assumes "handler_ok (os_now s) h"
  shows "by_pieces s (handle e h (os_obs s))"
proof (cases h)
  case (H_Command t t' command)
  then show ?thesis using assms command_pieces by simp
next
  case (H_Upstream t v)
  then show ?thesis using assms upstream_pieces by simp
next
  case (H_Disconnected r)
  then show ?thesis by (simp add: provider_disconnected_def by_pieces_emit)
next
  case (H_Interrupt clock r)
  then show ?thesis using assms by (simp add: interrupt_pending_def by_pieces_interrupt)
next
  case (H_Flush a)
  then show ?thesis by (intro by_pieces_one [of _ "Pc_Flush a"]) (simp_all add: observer_step_def)
next
  case H_Flush_All
  then show ?thesis by (simp add: flush_command_summaries_def flush_each_pieces)
next
  case (H_Phase a phase ms)
  then show ?thesis by (intro by_pieces_one [of _ "Pc_Phase a phase ms"]) (simp_all add: observer_step_def)
next
  case (H_Phases a phases)
  then show ?thesis using phases_pieces by (simp add: record_attempt_phases_def split: option.split json.split)
qed

end
