(* ===== verification/Page.thy ===== *)
theory Page
  imports Strings
begin

text \<open>
  What the classifier knows of a page (\<^verbatim>\<open>pagecapture/document.py\<close>): facts of the response, which cost nothing,
  and facts of its parsed HTML, which the parser provides. What is computed from them is defined here. Text,
  title and markup are the bytes of the lower-cased text in UTF-8, so that a phrase of any script is a byte string; a
  match of a regular expression treats every byte outside ASCII as a letter, and ignores the case of ASCII letters only.
\<close>

section \<open>Searching\<close>

fun suffixes :: "string \<Rightarrow> string list" where
  "suffixes [] = [[]]"
| "suffixes (c # cs) = (c # cs) # suffixes cs"

definition contains :: "string \<Rightarrow> string \<Rightarrow> bool" where
  "contains p s \<longleftrightarrow> list_ex (startswith p) (suffixes s)"

definition contains_then :: "string \<Rightarrow> (char \<Rightarrow> bool) \<Rightarrow> string \<Rightarrow> bool" where
  "contains_then p ok s \<longleftrightarrow> list_ex (\<lambda>t. startswith p t \<and> drop (length p) t \<noteq> [] \<and> ok (hd (drop (length p) t))) (suffixes s)"

definition contains_word :: "string \<Rightarrow> string \<Rightarrow> bool" where
  "contains_word p s \<longleftrightarrow> list_ex (\<lambda>t. startswith p t
     \<and> (drop (length p) t = [] \<or> \<not> (is_alnum (hd (drop (length p) t)) \<or> hd (drop (length p) t) = CHR ''_''))) (suffixes s)"

definition has :: "string \<Rightarrow> string list \<Rightarrow> bool" where
  "has s phrases \<longleftrightarrow> list_ex (\<lambda>p. contains p s) phrases"

definition word_char :: "char \<Rightarrow> bool" where
  "word_char c \<longleftrightarrow> is_alnum c \<or> c = CHR ''_'' \<or> \<not> is_ascii c"

text \<open>\<open>\b\<close> after a word character.\<close>

definition word_ends :: "string \<Rightarrow> bool" where
  "word_ends rest \<longleftrightarrow> rest = [] \<or> \<not> word_char (hd rest)"

definition starts_word :: "string \<Rightarrow> string \<Rightarrow> bool" where
  "starts_word p s \<longleftrightarrow> startswith p s \<and> word_ends (drop (length p) s)"

definition bytes :: "nat list \<Rightarrow> string" where
  "bytes = map char_of"

definition quote :: string where
  "quote = [CHR 0x27]"

section \<open>Pages\<close>

record url_parts =
  up_netloc :: string
  up_path :: string
  up_query :: string

record page =
  pg_status :: int
  pg_requested :: url_parts
  pg_final :: url_parts
  pg_final_url :: string
  pg_redirected :: bool
  pg_headers :: "(string \<times> string) list"
  pg_empty_body :: bool
  pg_markup :: string
  pg_title :: string
  pg_text :: string
  pg_words :: int
  pg_main_words :: "int option"
  pg_body_words :: int
  pg_js_notice :: bool
  pg_empty_mount :: bool
  pg_template_placeholders :: int
  pg_meta_refresh :: bool
  pg_js_redirect :: bool
  pg_lander_redirect :: bool
  pg_password_inputs :: int

definition header :: "string \<Rightarrow> page \<Rightarrow> string option" where
  "header name doc = map_of (pg_headers doc) name"

definition content_type :: "page \<Rightarrow> string" where
  "content_type doc =
     (case header ''content-type'' doc of Some v \<Rightarrow> strip (hd (split_on (CHR '';'') v)) | None \<Rightarrow> [])"

definition MARKUP_TYPES :: "string list" where
  "MARKUP_TYPES = [''text/html'', ''application/xhtml+xml'', ''application/xml'', ''text/xml'']"

definition is_markup :: "page \<Rightarrow> bool" where
  "is_markup doc \<longleftrightarrow>
     (let ct = content_type doc in ct = [] \<or> ct \<in> set MARKUP_TYPES \<or> endswith ''+xml'' ct)"

definition small :: "page \<Rightarrow> bool" where
  "small doc \<longleftrightarrow> pg_words doc < 300"

section \<open>Redirects\<close>

definition site_host :: "url_parts \<Rightarrow> string" where
  "site_host u =
     (let h = hd (split_on (CHR '':'') (lower (up_netloc u)))
      in if startswith ''www.'' h then drop 4 h else h)"

definition same_site :: "page \<Rightarrow> bool" where
  "same_site doc \<longleftrightarrow> site_host (pg_final doc) = site_host (pg_requested doc)"

definition is_letter :: "char \<Rightarrow> bool" where
  "is_letter c \<longleftrightarrow> is_alnum c \<and> \<not> is_digit c"

text \<open>\<open>^/?([a-z]{2}([-_][a-z]{2})?)?/?$\<close>\<close>

definition front_path :: "string \<Rightarrow> bool" where
  "front_path p \<longleftrightarrow>
     (let s = (case p of c # cs \<Rightarrow> if c = CHR ''/'' then cs else p | [] \<Rightarrow> []);
          t = (if s \<noteq> [] \<and> last s = CHR ''/'' then butlast s else s)
      in t = []
         \<or> length t = 2 \<and> list_all is_letter t
         \<or> length t = 5 \<and> t ! 2 \<in> {CHR ''-'', CHR ''_''} \<and> list_all is_letter (take 2 t) \<and> list_all is_letter (drop 3 t))"

definition LOGIN_PATHS :: "string list" where
  "LOGIN_PATHS = [''/login'', ''/log-in'', ''/signin'', ''/sign-in'', ''/sign_in'', ''/signup'', ''/sign-up'', ''/auth'',
     ''/enter'', ''/account/login'', ''/users/sign_in'']"

definition login_path :: "string \<Rightarrow> bool" where
  "login_path s \<longleftrightarrow> list_ex (\<lambda>t. list_ex (\<lambda>p. starts_word p t) LOGIN_PATHS) (suffixes (lower s))"

definition redirected_to_login :: "page \<Rightarrow> bool" where
  "redirected_to_login doc \<longleftrightarrow> pg_redirected doc
     \<and> login_path (up_path (pg_final doc) @ ''?'' @ up_query (pg_final doc)) \<and> \<not> login_path (up_path (pg_requested doc))"

definition deep_link_to_front :: "page \<Rightarrow> bool" where
  "deep_link_to_front doc \<longleftrightarrow> pg_redirected doc \<and> front_path (up_path (pg_final doc))
     \<and> \<not> (front_path (up_path (pg_requested doc)) \<and> up_query (pg_requested doc) = [])"

definition deep_request :: "page \<Rightarrow> bool" where
  "deep_request doc \<longleftrightarrow>
     length (filter (\<lambda>s. s \<noteq> []) (split_on (CHR ''/'') (up_path (pg_requested doc)))) \<ge> 2 \<or> up_query (pg_requested doc) \<noteq> []"

definition moved_to_own_domain :: "page \<Rightarrow> bool" where
  "moved_to_own_domain doc \<longleftrightarrow>
     (let labels = filter (\<lambda>x. x \<notin> {''www'', ''com'', ''org'', ''net''})
            (split_on (CHR ''.'') (hd (split_on (CHR '':'') (lower (up_netloc (pg_final doc))))));
          path = lower (up_path (pg_requested doc) @ ''?'' @ up_query (pg_requested doc))
      in list_ex (\<lambda>x. length x \<ge> 4 \<and> contains x path) labels)"

text \<open>A small page, for examples.\<close>

definition sample_facts :: page where
  "sample_facts =
     (let u = \<lparr>up_netloc = ''shop.example'', up_path = ''/'', up_query = []\<rparr>
      in \<lparr>pg_status = 200, pg_requested = u, pg_final = u, pg_final_url = ''https://shop.example/'', pg_redirected = False,
          pg_headers = [], pg_empty_body = False, pg_markup = ''<p>x'', pg_title = [], pg_text = ''x'', pg_words = 90,
          pg_main_words = None, pg_body_words = 90, pg_js_notice = False, pg_empty_mount = False,
          pg_template_placeholders = 0, pg_meta_refresh = False, pg_js_redirect = False, pg_lander_redirect = False,
          pg_password_inputs = 0\<rparr>)"

end
