(* ===== verification/Classifier.thy ===== *)
theory Classifier
  imports Page
begin

text \<open>
  Response classification (\<^verbatim>\<open>pagecapture/labels.py\<close>, \<^verbatim>\<open>pagecapture/classify\<close>): reason columns in
  priority order, the loop over the rules with its early exit, and the verdict. The individual rules are an
  argument here; \<^verbatim>\<open>Page_Rules\<close> has those of the code. The main result is that the early exit
  never changes the reason of a verdict, whatever the rules.
\<close>

section \<open>Labels\<close>

datatype reason =
    Unreachable | Payload_Mismatch | Rate_Limited | Bot_Challenge | Geo_Blocked | Unsupported_Browser
  | Interstitial | Auth | Paywall | Parked | Gone | Not_Found | Client_Error | Server_Error | App_Shell | Partial

fun reason_value :: "reason \<Rightarrow> string" where
  "reason_value Unreachable = ''unreachable''"
| "reason_value Payload_Mismatch = ''payload_mismatch''"
| "reason_value Rate_Limited = ''rate_limited''"
| "reason_value Bot_Challenge = ''bot_challenge''"
| "reason_value Geo_Blocked = ''geo_blocked''"
| "reason_value Unsupported_Browser = ''unsupported_browser''"
| "reason_value Interstitial = ''interstitial''"
| "reason_value Auth = ''auth''"
| "reason_value Paywall = ''paywall''"
| "reason_value Parked = ''parked''"
| "reason_value Gone = ''gone''"
| "reason_value Not_Found = ''not_found''"
| "reason_value Client_Error = ''client_error''"
| "reason_value Server_Error = ''server_error''"
| "reason_value App_Shell = ''app_shell''"
| "reason_value Partial = ''partial''"

definition REASONS :: "reason list" where
  "REASONS = [Unreachable, Payload_Mismatch, Rate_Limited, Bot_Challenge, Geo_Blocked, Unsupported_Browser,
     Interstitial, Auth, Paywall, Parked, Gone, Not_Found, Client_Error, Server_Error, App_Shell, Partial]"

definition RENDER_NEED :: "reason list" where
  "RENDER_NEED = [App_Shell, Partial]"

definition NO_CONTENT :: "reason list" where
  "NO_CONTENT = [Unreachable, Payload_Mismatch, Bot_Challenge, Interstitial, Parked]"

record flag =
  fg_value :: bool
  fg_confidence :: rat
  fg_source :: string
  fg_detail :: string

definition rule_flag :: "bool \<Rightarrow> rat \<Rightarrow> string \<Rightarrow> flag" where
  "rule_flag v c d = \<lparr>fg_value = v, fg_confidence = c, fg_source = ''rule'', fg_detail = d\<rparr>"

definition na_flag :: "rat \<Rightarrow> string \<Rightarrow> flag" where
  "na_flag c d = \<lparr>fg_value = False, fg_confidence = c, fg_source = ''n/a'', fg_detail = d\<rparr>"

type_synonym flags = "(reason \<times> flag) list"

definition raised :: "flags \<Rightarrow> reason \<Rightarrow> bool" where
  "raised fs r = (case map_of fs r of Some f \<Rightarrow> fg_value f | None \<Rightarrow> False)"

definition primary :: "flags \<Rightarrow> reason option" where
  "primary fs = find (raised fs) REASONS"

definition true_reasons :: "flags \<Rightarrow> reason list" where
  "true_reasons fs = filter (raised fs) REASONS"

record verdict =
  vd_rejected :: bool
  vd_reason :: "reason option"
  vd_confidence :: rat
  vd_flags :: flags
  vd_notes :: "string list"

definition round4 :: "rat \<Rightarrow> rat" where
  "round4 x = of_int (py_round (x * 10000)) / 10000"

definition from_flags :: "flags \<Rightarrow> string list \<Rightarrow> verdict" where
  "from_flags fs notes =
     (let r = primary fs;
          confidence = (case r of
            Some c \<Rightarrow> (case map_of fs c of Some f \<Rightarrow> fg_confidence f | None \<Rightarrow> 0)
          | None \<Rightarrow> fold min (map (fg_confidence \<circ> snd) fs) (fg_confidence (snd (hd fs))))
      in \<lparr>vd_rejected = (r \<noteq> None), vd_reason = r, vd_confidence = round4 confidence, vd_flags = fs, vd_notes = notes\<rparr>)"

section \<open>Rules\<close>

type_synonym rules = "reason \<Rightarrow> page \<Rightarrow> flags \<Rightarrow> flag"

definition RULE_COLUMNS :: "reason list" where
  "RULE_COLUMNS = [Payload_Mismatch, Rate_Limited, Bot_Challenge, Geo_Blocked, Unsupported_Browser,
     Interstitial, Auth, Paywall, Parked, Gone, Not_Found, Client_Error, Server_Error]"

definition status_only :: "reason \<Rightarrow> page \<Rightarrow> flag" where
  "status_only column doc =
     (let st = pg_status doc;
          value = (case column of
              Rate_Limited \<Rightarrow> st = 429
            | Geo_Blocked \<Rightarrow> st = 451
            | Paywall \<Rightarrow> st = 402
            | Gone \<Rightarrow> st = 410
            | Not_Found \<Rightarrow> st = 404
            | Client_Error \<Rightarrow> 400 \<le> st \<and> st < 500 \<and> st \<notin> {402, 404, 410, 429}
            | Server_Error \<Rightarrow> st \<ge> 500
            | _ \<Rightarrow> False)
      in rule_flag value 1 (if value then ''HTTP '' @ str_int st else []))"

fun evaluate_columns ::
  "rules \<Rightarrow> rat option \<Rightarrow> page \<Rightarrow> reason list \<Rightarrow> bool \<Rightarrow> flags \<Rightarrow> flags \<times> bool" where
  "evaluate_columns rule stop doc [] no_page found = (found, False)"
| "evaluate_columns rule stop doc (column # columns) no_page found =
     (let flag = (if column = Payload_Mismatch \<or> \<not> no_page then rule column doc found else status_only column doc);
          found1 = found @ [(column, flag)]
      in if (case stop of Some c \<Rightarrow> fg_value flag \<and> c \<le> fg_confidence flag | None \<Rightarrow> False) then (found1, True)
         else evaluate_columns rule stop doc columns
                (if column = Payload_Mismatch \<and> fg_value flag then True else no_page) found1)"

definition evaluate :: "rules \<Rightarrow> rat option \<Rightarrow> page \<Rightarrow> flags \<times> bool" where
  "evaluate rule stop doc = evaluate_columns rule stop doc RULE_COLUMNS (\<not> is_markup doc) []"

definition render_evidence :: "page \<Rightarrow> string option" where
  "render_evidence doc =
     (if pg_js_notice doc \<and> pg_words doc < 50
      then Some ''noscript asks for JavaScript and almost no visible text''
      else if pg_empty_mount doc \<and> pg_words doc < 100
      then Some ''empty framework mount point and little visible text''
      else if pg_template_placeholders doc \<ge> 3 \<and> pg_words doc < 1500
      then Some (str_int (pg_template_placeholders doc) @ '' unrendered template placeholders'')
      else None)"

text \<open>The columns about render need, after the rules ran to their end.\<close>

definition render_flags :: "page \<Rightarrow> flags \<Rightarrow> flags" where
  "render_flags doc fs =
     (if \<not> is_markup doc \<or> list_ex (raised fs) NO_CONTENT
      then fs @ map (\<lambda>c. (c, na_flag 1 ''no page content of its own to render'')) RENDER_NEED
      else case render_evidence doc of
             None \<Rightarrow> fs @ map (\<lambda>c. (c, na_flag (1/2) ''not assessed: the page is rendered and compared'')) RENDER_NEED
           | Some ev \<Rightarrow> fs @ [(App_Shell, rule_flag True (9/10) ev),
                 (Partial, na_flag (1/2) ''not assessed: the page is rendered and compared'')])"

definition rules_primary :: "flags \<Rightarrow> string" where
  "rules_primary fs = (case find (\<lambda>(c, f). fg_value f) fs of
     Some (c, f) \<Rightarrow> reason_value c @ '': '' @ fg_detail f | None \<Rightarrow> [])"

definition classify :: "rules \<Rightarrow> rat \<Rightarrow> bool \<Rightarrow> string + page \<Rightarrow> verdict" where
  "classify rule early_exit full response =
     (case response of
        Inl error \<Rightarrow>
          from_flags ((Unreachable, rule_flag True 1 (if error = [] then ''no HTTP response'' else error))
              # (if full then map (\<lambda>r. (r, na_flag 1 [])) (tl REASONS) else []))
            (if full then [] else [''early exit: no HTTP response''])
      | Inr doc \<Rightarrow>
          let (found, stopped) = evaluate rule (if full then None else Some early_exit) doc;
              fs = (Unreachable, rule_flag False 1 []) # found
          in if stopped then from_flags fs [''early exit: rules are certain ('' @ rules_primary found @ '')'']
             else from_flags (render_flags doc fs) [])"

section \<open>The early exit\<close>

lemma evaluate_columns_append:
  "\<exists>rest. fst (evaluate_columns rule stop doc cols np found) = found @ rest \<and> map fst rest = take (length rest) cols"
proof (induction rule stop doc cols np found rule: evaluate_columns.induct)
  case (1 rule stop doc np found)
  show ?case by simp
next
  case (2 rule stop doc c cs np found)
  define fl where "fl = (if c = Payload_Mismatch \<or> \<not> np then rule c doc found else status_only c doc)"
  show ?case
  proof (cases "case stop of Some k \<Rightarrow> fg_value fl \<and> k \<le> fg_confidence fl | None \<Rightarrow> False")
    case True
    then show ?thesis by (intro exI [of _ "[(c, fl)]"]) (simp add: fl_def [symmetric] Let_def)
  next
    case False
    from 2 [OF fl_def refl] False obtain rest where
      "fst (evaluate_columns rule stop doc cs (if c = Payload_Mismatch \<and> fg_value fl then True else np) (found @ [(c, fl)]))
        = (found @ [(c, fl)]) @ rest" "map fst rest = take (length rest) cs" by blast
    with False show ?thesis
      by (intro exI [of _ "(c, fl) # rest"]) (simp add: fl_def [symmetric] Let_def)
  qed
qed

lemma early_exit_prefix:
  "evaluate_columns rule (Some k) doc cols np found = (fs, stopped) \<Longrightarrow>
   (\<not> stopped \<longrightarrow> evaluate_columns rule None doc cols np found = (fs, False))
   \<and> (stopped \<longrightarrow> (\<exists>rest c fl fs'. fs = fs' @ [(c, fl)] \<and> fg_value fl
        \<and> evaluate_columns rule None doc cols np found = (fs @ rest, False)))"
proof (induction cols arbitrary: np found)
  case (Cons c cs)
  define fl where "fl = (if c = Payload_Mismatch \<or> \<not> np then rule c doc found else status_only c doc)"
  let ?np = "if c = Payload_Mismatch \<and> fg_value fl then True else np"
  have full: "evaluate_columns rule None doc (c # cs) np found = evaluate_columns rule None doc cs ?np (found @ [(c, fl)])"
    by (simp add: fl_def [symmetric] Let_def)
  have none: "snd (evaluate_columns rule None doc cs np' f) = False" for np' f
    by (induction cs arbitrary: np' f) (simp_all add: Let_def)
  show ?case
  proof (cases "fg_value fl \<and> k \<le> fg_confidence fl")
    case True
    then have "fs = found @ [(c, fl)]" "stopped" using Cons.prems by (simp_all add: fl_def [symmetric] Let_def)
    moreover obtain rest where "fst (evaluate_columns rule None doc cs ?np (found @ [(c, fl)])) = (found @ [(c, fl)]) @ rest"
      using evaluate_columns_append by blast
    ultimately have "evaluate_columns rule None doc cs ?np (found @ [(c, fl)]) = (fs @ rest, False)"
      using none by (simp add: prod_eq_iff)
    then show ?thesis unfolding full using True \<open>fs = found @ [(c, fl)]\<close> \<open>stopped\<close> by blast
  next
    case False
    then have "evaluate_columns rule (Some k) doc cs ?np (found @ [(c, fl)]) = (fs, stopped)"
      using Cons.prems by (auto simp: fl_def [symmetric] Let_def split: if_splits)
    from Cons.IH [OF this] show ?thesis unfolding full .
  qed
qed simp

lemma find_agree: "(\<And>x. x \<in> set xs \<Longrightarrow> P x = Q x) \<Longrightarrow> find P xs = find Q xs"
  by (induction xs) auto

lemma find_append: "find P (xs @ ys) = (case find P xs of Some x \<Rightarrow> Some x | None \<Rightarrow> find P ys)"
  by (induction xs) auto

lemma find_first_part:
  assumes "\<And>x. x \<in> set xs \<Longrightarrow> P x = Q x" "\<exists>x \<in> set xs. P x"
  shows "find P (xs @ ys) = find Q (xs @ ys)"
proof -
  have "find P xs \<noteq> None" using assms(2) by (auto simp: find_None_iff)
  moreover have "find P xs = find Q xs" using assms(1) by (rule find_agree)
  ultimately show ?thesis by (auto simp: find_append)
qed

lemma REASONS_split: "REASONS = (Unreachable # take n RULE_COLUMNS) @ drop n RULE_COLUMNS @ RENDER_NEED"
proof -
  have "REASONS = Unreachable # (take n RULE_COLUMNS @ drop n RULE_COLUMNS) @ RENDER_NEED"
    unfolding append_take_drop_id by (simp add: REASONS_def RULE_COLUMNS_def RENDER_NEED_def)
  then show ?thesis by (simp only: append_assoc append_Cons)
qed

lemma primary_prefix:
  assumes "map fst fs = take n RULE_COLUMNS" "\<exists>(c, fl) \<in> set fs. fg_value fl"
  shows "primary ((Unreachable, u) # fs @ rest) = primary ((Unreachable, u) # fs)"
proof -
  have in_fs: "map_of ((Unreachable, u) # fs @ rest) r = map_of ((Unreachable, u) # fs) r"
    if "r \<in> set (Unreachable # take n RULE_COLUMNS)" for r
  proof (cases "r = Unreachable")
    case False
    then have "r \<in> fst ` set fs" using that by (metis assms(1) list.set_map set_ConsD)
    then have "map_of fs r \<noteq> None" by (simp add: map_of_eq_None_iff)
    then show ?thesis by (auto simp: map_add_def)
  qed simp
  have "distinct (map fst fs)" unfolding assms(1) by (rule distinct_take) (simp add: RULE_COLUMNS_def)
  obtain c fl where c: "(c, fl) \<in> set fs" "fg_value fl" using assms(2) by blast
  then have cs: "c \<in> set (take n RULE_COLUMNS)" by (metis assms(1) fst_conv image_eqI list.set_map)
  have "c \<in> set RULE_COLUMNS" using cs by (rule in_set_takeD)
  then have "c \<noteq> Unreachable" by (auto simp: RULE_COLUMNS_def)
  moreover have "map_of fs c = Some fl" using c(1) \<open>distinct (map fst fs)\<close> by simp
  ultimately have "raised ((Unreachable, u) # fs @ rest) c"
    using c(2) by (simp add: raised_def map_add_def)
  with cs have ex: "\<exists>x \<in> set (Unreachable # take n RULE_COLUMNS). raised ((Unreachable, u) # fs @ rest) x" by auto
  show ?thesis unfolding primary_def REASONS_split [of n]
    by (rule find_first_part [OF _ ex]) (simp only: raised_def in_fs)
qed

lemma early_exit_reason:
  "vd_reason (classify rule early_exit False response) = vd_reason (classify rule early_exit True response)"
proof (cases response)
  case (Inl error)
  have "primary [(Unreachable, rule_flag True 1 d)] = Some Unreachable"
    "primary ((Unreachable, rule_flag True 1 d) # fs) = Some Unreachable" for d fs
    by (simp_all add: primary_def REASONS_def raised_def rule_flag_def)
  then show ?thesis by (simp add: Inl classify_def from_flags_def Let_def)
next
  case (Inr doc)
  let ?u = "(Unreachable, rule_flag False 1 [])"
  obtain fs stopped where ev: "evaluate_columns rule (Some early_exit) doc RULE_COLUMNS (\<not> is_markup doc) [] = (fs, stopped)"
    by (cases "evaluate_columns rule (Some early_exit) doc RULE_COLUMNS (\<not> is_markup doc) []")
  note pre = early_exit_prefix [OF ev]
  show ?thesis
  proof (cases stopped)
    case False
    then show ?thesis using pre ev by (simp add: Inr classify_def evaluate_def Let_def)
  next
    case True
    with pre obtain rest c fl fs' where p: "fs = fs' @ [(c, fl)]" "fg_value fl"
      "evaluate_columns rule None doc RULE_COLUMNS (\<not> is_markup doc) [] = (fs @ rest, False)" by blast
    obtain n where n: "map fst fs = take n RULE_COLUMNS"
      using evaluate_columns_append [of rule "Some early_exit" doc RULE_COLUMNS "\<not> is_markup doc" "[]"] ev by auto
    have ex: "\<exists>(c, fl) \<in> set fs. fg_value fl" using p(1,2) by auto
    have rf: "\<exists>more. render_flags doc (?u # fs @ rest) = ?u # fs @ more"
      by (simp add: render_flags_def split: option.split)
    then obtain more where "render_flags doc (?u # fs @ rest) = ?u # fs @ more" by blast
    then show ?thesis using ev p(3) True primary_prefix [OF n ex]
      by (simp add: Inr classify_def evaluate_def from_flags_def Let_def)
  qed
qed

text \<open>C34: Stopping at the first rule that is sure enough gives the same reason as evaluating every rule:
  a verdict's reason is the first true column in priority order, and the columns the early exit leaves out come
  later than one that is true.\<close>

theorem early_exit_keeps_reason:
  "vd_reason (classify rule early_exit False response) = vd_reason (classify rule early_exit True response)"
  by (rule early_exit_reason)

end
