(* ===== verification/Page_Rules.thy ===== *)
theory Page_Rules
  imports Classifier
begin

text \<open>
  The rules of the classifier (\<^verbatim>\<open>pagecapture/classify/rules.py\<close>), one definition per column, with their phrases.
  Phrases outside ASCII are written as their UTF-8 bytes.
\<close>

section \<open>Phrases\<close>

definition RATE_PHRASES :: "string list" where
  "RATE_PHRASES =
    [''too many requests'', ''rate limit'', ''request rate'', ''rate threshold'']"

definition CHALLENGE_TITLES :: "string list" where
  "CHALLENGE_TITLES =
    [''just a moment'', ''attention required! | cloudflare'', ''vercel security checkpoint'', ''client challenge'',
    ''access denied'', ''access to this page has been denied'', ''are you a robot'', ''bot or not'', ''human
    verification'', ''security check'', ''security verification'', ''checking your browser'', ''making sure you'' @
    quote @ ''re not a bot'', ''please hold a moment'', ''it needs a human touch'', ''not to be a robot'',
    ''verifying your browser'', ''checking connection'', ''waf forbidden'']"

definition CHALLENGE_MARKUP :: "string list" where
  "CHALLENGE_MARKUP =
    [''cf_chl_opt'', ''awswafintegration'', ''px-captcha'', ''captcha-delivery.com'', ''_____tmd_____/punish'',
    ''_wafchallengeid'', ''sec-cpt'']"

definition CHALLENGE_PHRASES :: "string list" where
  "CHALLENGE_PHRASES =
    [''please enable js and disable any ad blocker'', ''you have been blocked'', ''ip address is blocked'', ''unusual
    traffic'', ''verify you are human'', ''not a robot'', ''security service to protect'', ''you don'' @ quote @ ''t
    have permission to access'', ''waf forbidden'', ''verifying your browser'', ''anubis'', ''that you are not a
    bot'', ''if you are not a bot'', ''complete the security check'', ''access from ip address'', ''cookies must be
    enabled'', ''v'' @ bytes [195, 169] @ ''rification de s'' @ bytes [195, 169] @ ''curit'' @ bytes [195, 169],
    ''verificaci'' @ bytes [195, 179] @ ''n de seguridad'', ''sicherheits'' @ bytes [195, 188] @ ''berpr'' @ bytes
    [195, 188] @ ''fung'', ''verifica di sicurezza'', ''the request could not be satisfied'', ''incapsula incident
    id'', ''request unsuccessful'', ''unable to give you access'', ''problem providing the content you requested'',
    ''accesso negato'', ''acceso bloqueado'', ''confirm that you are a human'', ''confirm you are a human'',
    ''complete the following challenge'', ''complete the challenge below'']"

definition GEO_PHRASES :: "string list" where
  "GEO_PHRASES =
    [''not available in your country'', ''not yet available in your country'', ''unavailable in your country'', ''not
    available in your region'', ''unavailable in your location'', ''not available in your location'', ''only
    accessible from'', ''only available from'', ''can only be accessed from'', ''not accessible from your country'',
    ''in ihrem land nicht verf'' @ bytes [195, 188] @ ''gbar'', ''in ihrer region nicht verf'' @ bytes [195, 188] @
    ''gbar'', ''aus deutschland aufrufbar'', ''pas disponible dans votre pays'', ''pas disponible dans votre r'' @
    bytes [195, 169] @ ''gion'', ''no est'' @ bytes [195, 161] @ '' disponible en tu pa'' @ bytes [195, 173] @ ''s'',
    ''no est'' @ bytes [195, 161] @ '' disponible en su pa'' @ bytes [195, 173] @ ''s'', ''non '' @ bytes [195, 168]
    @ '' disponibile nel tuo paese'', ''n'' @ bytes [195, 163] @ ''o est'' @ bytes [195, 161] @ '' dispon'' @ bytes
    [195, 173] @ ''vel no seu pa'' @ bytes [195, 173] @ ''s'', bytes [227, 129, 138, 228, 189, 143, 227, 129, 190,
    227, 129, 132, 227, 129, 174, 229, 156, 176, 229, 159, 159, 227, 129, 167, 227, 129, 175, 227, 129, 148, 229,
    136, 169, 231, 148, 168, 227, 129, 132, 227, 129, 159, 227, 129, 160, 227, 129, 145, 227, 129, 190, 227, 129,
    155, 227, 130, 147], bytes [230, 130, 168, 230, 137, 128, 229, 156, 168, 231, 154, 132, 229, 156, 176, 229, 140,
    186], bytes [230, 130, 168, 230, 137, 128, 229, 156, 168, 231, 154, 132, 229, 155, 189, 229, 174, 182], bytes
    [208, 189, 208, 181, 208, 180, 208, 190, 209, 129, 209, 130, 209, 131, 208, 191, 208, 181, 208, 189] @ '' '' @
    bytes [208, 178] @ '' '' @ bytes [208, 178, 208, 176, 209, 136, 208, 181, 208, 185] @ '' '' @ bytes [209, 129,
    209, 130, 209, 128, 208, 176, 208, 189, 208, 181]]"

definition BROWSER_PHRASES :: "string list" where
  "BROWSER_PHRASES =
    [''browser not supported'', ''browser is not supported'', ''browser isn'' @ quote @ ''t supported'',
    ''unsupported browser'', ''unsupported client'', ''not supported on your browser'', ''isn'' @ quote @ ''t
    supported on your browser'', ''browser version isn'' @ quote @ ''t supported'', ''update your browser'',
    ''upgrade your browser'', ''browser is deprecated'', ''isn'' @ quote @ ''t compatible with'', ''not optimized for
    your browser'', ''requires an up-to-date browser'', ''incompatible browser'', ''isn'' @ quote @ ''t supported on
    your device'', ''not supported on your device'', ''not supported on this device'']"

definition PAYWALL_PHRASES :: "string list" where
  "PAYWALL_PHRASES =
    [''this post is for paid subscribers'', ''subscribe to read'', ''subscribe to continue'', ''to continue
    reading'', ''subscriber-only'', ''subscribers only'', ''unlock this article'', ''keep reading with a'',
    ''stat+'']"

definition PAYWALL_STRONG :: "string list" where
  "PAYWALL_STRONG =
    [''this post is for paid subscribers'', ''subscribe to continue reading'', ''subscribe to read the full'', bytes
    [230, 156, 137, 230, 150, 153, 231, 153, 187, 233, 140, 178, 227, 129, 153, 227, 130, 139, 227, 129, 168, 231,
    182, 154, 227, 129, 141], bytes [231, 182, 154, 227, 129, 141, 227, 130, 146, 227, 129, 138, 232, 170, 173, 227,
    129, 191, 227, 129, 132, 227, 129, 159, 227, 129, 160, 227, 129, 145, 227, 129, 190, 227, 129, 153], ''r'' @
    bytes [195, 169] @ ''serv'' @ bytes [195, 169] @ '' aux abonn'' @ bytes [195, 169] @ ''s'', ''exclusivo para
    suscriptores'', ''exclusivo para assinantes'', ''riservato agli abbonati'', ''nur f'' @ bytes [195, 188] @ ''r
    abonnenten'', bytes [228, 187, 152, 232, 180, 185, 233, 152, 133, 232, 175, 187], bytes [232, 174, 162, 233, 152,
    133, 229, 144, 142, 233, 152, 133, 232, 175, 187]]"

definition PARKED_PHRASES :: "string list" where
  "PARKED_PHRASES =
    [''domain is for sale'', ''domain may be for sale'', ''domain for sale'', ''buy this domain'', ''this domain is
    parked'', ''domain parking'', ''parked free'', ''parked domain'', ''is coming soon'', ''this domain is managed
    at'']"

definition SERVER_DEFAULT_PAGES :: "string list" where
  "SERVER_DEFAULT_PAGES =
    [''domain default page'', ''default webpage generated'', ''default web page for this domain'', ''apache2 ubuntu
    default page'', ''apache2 debian default page'', ''welcome to nginx!'', ''test page for the apache'', ''test page
    for the nginx'', ''future home of something quite cool'', ''this site is currently under construction'']"

definition SERVER_DEFAULT_TITLES :: "string list" where
  "SERVER_DEFAULT_TITLES = SERVER_DEFAULT_PAGES @ [''iis windows server'', ''it works!'']"

definition PARKED_MARKUP :: "string list" where
  "PARKED_MARKUP =
    [''sedoparking'', ''parkingcrew'', ''bodis.com'', ''afternic'', ''hugedomains'', ''dan.com/'', ''namebright'']"

definition REQUEST_FAILED_PHRASES :: "string list" where
  "REQUEST_FAILED_PHRASES =
    [''request couldn'' @ quote @ ''t be processed'', ''request could not be processed'', ''couldn'' @ quote @ ''t
    process your request'', ''could not process your request'']"

definition MAINTENANCE_PHRASES :: "string list" where
  "MAINTENANCE_PHRASES =
    [''under maintenance'', ''down for maintenance'', ''scheduled maintenance'', ''temporarily unavailable'',
    ''extended downtime'', ''working to restore'', ''we'' @ quote @ ''ll be back soon'', ''we will be back soon'',
    ''en maintenance'', ''en mantenimiento'', ''wartungsarbeiten'', ''in manutenzione'', ''em manuten'' @ bytes [195,
    167, 195, 163] @ ''o'', bytes [227, 131, 161, 227, 131, 179, 227, 131, 134, 227, 131, 138, 227, 131, 179, 227,
    130, 185, 228, 184, 173], bytes [231, 187, 180, 230, 138, 164, 228, 184, 173], bytes [231, 182, 173, 232, 173,
    183, 228, 184, 173], bytes [209, 130, 208, 181, 209, 133, 208, 189, 208, 184, 209, 135, 208, 181, 209, 129, 208,
    186, 208, 184, 208, 181] @ '' '' @ bytes [209, 128, 208, 176, 208, 177, 208, 190, 209, 130, 209, 139]]"

definition QUEUE_PHRASES :: "string list" where
  "QUEUE_PHRASES =
    [''waiting room'', ''you are now in line'', ''routing to checkout'', ''queue-it'']"

definition STUB_OPENINGS :: "string list" where
  "STUB_OPENINGS =
    [''continue to'', ''transferring to'', ''redirecting to'', ''you are being redirected'', ''redirecting...'']"

definition AGE_GATE_PHRASES :: "string list" where
  "AGE_GATE_PHRASES =
    [''adult only'', ''adults only'', ''are you over 18'', ''are you 18'', ''i am over 18'', ''i am 18 or older'',
    ''you must be 18'', ''you must be at least 18'', ''age verification'', ''confirm your age'', ''verify your age'',
    ''enter your date of birth'']"

definition PICKER_PHRASES :: "string list" where
  "PICKER_PHRASES =
    [''choose a country'', ''choose your country'', ''select your country'', ''select country'']"

definition LOGIN_PHRASES :: "string list" where
  "LOGIN_PHRASES =
    [''you have to be logged in'', ''sign in to continue'', ''log in to continue'', ''please log in'']"

definition LOGIN_TITLES :: "string list" where
  "LOGIN_TITLES =
    [''sign in'', ''sign-in'', ''log in'', ''login'', ''log-in'', ''signin'']"

definition OAUTH_BUTTONS :: "string list" where
  "OAUTH_BUTTONS =
    [''continue with google'', ''continue with apple'', ''continue with facebook'', ''continue with microsoft'',
    ''sign in with google'', ''sign in with apple'', ''log in with google'', ''log in with apple'']"

definition NOT_FOUND_PHRASES :: "string list" where
  "NOT_FOUND_PHRASES =
    [''page not found'', ''not found'', ''cannot be found'', ''can'' @ quote @ ''t be found'', ''no such'', ''doesn''
    @ quote @ ''t exist'', ''does not exist'', ''error 404'', ''could not be found'', ''couldn'' @ quote @ ''t be
    found'']"

definition GONE_PHRASES :: "string list" where
  "GONE_PHRASES =
    [''no longer available'', ''has been removed'', ''has been deleted'', ''was removed'', ''was deleted'',
    ''permanently removed'', ''content removed'', ''this page has been retired'', ''has been discontinued'',
    ''service has ended'', bytes [227, 130, 181, 227, 131, 188, 227, 131, 147, 227, 130, 185, 231, 181, 130, 228,
    186, 134], bytes [230, 143, 144, 228, 190, 155, 227, 130, 146, 231, 181, 130, 228, 186, 134], bytes [230, 156,
    141, 229, 138, 161, 229, 183, 178, 229, 129, 156, 230, 173, 162], bytes [229, 129, 156, 230, 173, 162, 230, 156,
    141, 229, 138, 161], bytes [236, 132, 156, 235, 185, 132, 236, 138, 164] @ '' '' @ bytes [236, 162, 133, 235,
    163, 140], ''dienst wurde eingestellt'', ''service a '' @ bytes [195, 169] @ ''t'' @ bytes [195, 169] @ '' arr''
    @ bytes [195, 170] @ ''t'' @ bytes [195, 169], ''servicio ha finalizado'']"

definition BLOCK_PHRASES :: "string list" where
  "BLOCK_PHRASES =
    [''you have been blocked'', ''ip address is blocked'', ''your ip has been blocked'', ''access denied'', ''request
    unsuccessful. incapsula incident'', ''waf forbidden'', ''error 1020'', ''error 1005'', ''you don'' @ quote @ ''t
    have permission to access'']"

definition INTERACTIVE_MARKUP :: "string list" where
  "INTERACTIVE_MARKUP =
    [''cf_chl_opt'', ''captcha-delivery.com'', ''px-captcha'', ''awswafintegration'', ''_incapsula_resource'']"

definition BLOCK_HEADERS :: "string list" where
  "BLOCK_HEADERS =
    [''x-amzn-waf-action: block'', ''Akamai 403'']"

section \<open>Patterns\<close>

text \<open>\<open>/(403|access[-_]denied|forbidden)(\b|[-_/])\<close>, and the pages that ask for cookies.\<close>

definition forbidden_path :: "string \<Rightarrow> bool" where
  "forbidden_path s \<longleftrightarrow> list_ex (\<lambda>t. list_ex (\<lambda>p. startswith p t
       \<and> (let rest = drop (length p) t in word_ends rest \<or> hd rest = CHR ''_''))
     [''/403'', ''/access-denied'', ''/access_denied'', ''/forbidden'']) (suffixes (lower s))"

definition enable_cookies :: "string \<Rightarrow> bool" where
  "enable_cookies s \<longleftrightarrow> has (lower s)
     [''enable-cookies'', ''enable_cookies'', ''enable cookies'', ''cookies-required'', ''cookies_required'', ''cookies required'']"

text \<open>\<open>"isaccessibleforfree"\s*:\s*"?\<close> and a word.\<close>

definition ascii_space :: "char \<Rightarrow> bool" where
  "ascii_space c \<longleftrightarrow> is_ascii c \<and> is_space c"

definition accessible_for_free :: "string \<Rightarrow> string \<Rightarrow> bool" where
  "accessible_for_free word markup \<longleftrightarrow>
     (let key = CHR 0x22 # ''isaccessibleforfree'' @ [CHR 0x22]
      in list_ex (\<lambda>t. startswith key t
           \<and> (case dropWhile ascii_space (drop (length key) t) of
                c # cs \<Rightarrow> c = CHR '':''
                  \<and> (let v = dropWhile ascii_space cs
                     in startswith word v \<or> startswith (CHR 0x22 # word) v)
              | [] \<Rightarrow> False)) (suffixes markup))"

definition title_letters :: "string \<Rightarrow> string" where
  "title_letters t = strip (filter (\<lambda>c. is_ascii c \<and> is_letter c \<and> lower_char c = c \<or> c = CHR '' '' \<or> c = CHR ''-'') t)"

section \<open>Rules\<close>

definition yes :: "rat \<Rightarrow> string \<Rightarrow> flag" where
  "yes confidence detail = rule_flag True confidence detail"

definition no :: "page \<Rightarrow> flag" where
  "no doc = rule_flag False (if small doc then 9/10 else 19/20) []"

definition no_unparsed :: flag where
  "no_unparsed = rule_flag False 1 []"

definition payload_mismatch :: "page \<Rightarrow> flag" where
  "payload_mismatch doc =
     (if pg_status doc < 400 \<and> \<not> is_markup doc then yes (19/20) (''content type '' @ content_type doc)
      else if 200 \<le> pg_status doc \<and> pg_status doc < 300 \<and> pg_empty_body doc then yes (9/10) ''empty body''
      else rule_flag False 1 [])"

definition challenge_header :: "page \<Rightarrow> string option" where
  "challenge_header doc =
     (let waf = header ''x-amzn-waf-action'' doc; server = (case header ''server'' doc of Some s \<Rightarrow> s | None \<Rightarrow> [])
      in if header ''cf-mitigated'' doc = Some ''challenge'' then Some ''cf-mitigated: challenge''
         else if header ''x-vercel-mitigated'' doc \<noteq> None then Some ''x-vercel-mitigated''
         else if waf \<in> {Some ''challenge'', Some ''captcha'', Some ''block''} then Some (''x-amzn-waf-action: '' @ the waf)
         else if pg_status doc \<ge> 400
           \<and> (header ''x-datadome'' doc \<noteq> None \<or> header ''x-dd-b'' doc \<noteq> None \<or> header ''server'' doc = Some ''datadome'')
         then Some ''DataDome block''
         else if pg_status doc = 403 \<and> startswith ''akamaighost'' server then Some ''Akamai 403''
         else None)"

definition refused_by_bot_wall :: "page \<Rightarrow> bool" where
  "refused_by_bot_wall doc \<longleftrightarrow>
     small doc \<and> has (pg_text doc) [''botstopper'', ''anubis''] \<and> contains ''access denied'' (pg_text doc)"

definition block_page :: "page \<Rightarrow> string option" where
  "block_page doc =
     (if refused_by_bot_wall doc then Some ''block page: bot protection access denied''
      else if (case challenge_header doc of Some h \<Rightarrow> h \<in> set BLOCK_HEADERS | None \<Rightarrow> False) then challenge_header doc
      else if has (pg_markup doc) INTERACTIVE_MARKUP then None
      else map_option ((@) ''block page: '') (find (\<lambda>p. contains p (pg_text doc) \<or> contains p (pg_title doc)) BLOCK_PHRASES))"

definition bot_challenge :: "page \<Rightarrow> flag" where
  "bot_challenge doc =
     (case challenge_header doc of
        Some h \<Rightarrow> yes (99/100) h
      | None \<Rightarrow>
          if refused_by_bot_wall doc then yes (99/100) ''bot protection access denied''
          else if has (pg_title doc) CHALLENGE_TITLES
            \<or> (small doc \<or> pg_status doc \<ge> 400) \<and> has (pg_markup doc) CHALLENGE_MARKUP
            \<or> small doc \<and> has (pg_text doc) CHALLENGE_PHRASES
            \<or> pg_status doc \<noteq> 200 \<and> pg_words doc < 50 \<and> (pg_js_notice doc \<or> contains ''cookies'' (pg_text doc))
          then yes (19/20) ''challenge page markers''
          else no doc)"

definition rate_limited :: "page \<Rightarrow> flag" where
  "rate_limited doc =
     (if pg_status doc = 429 then yes 1 ''HTTP 429''
      else if challenge_header doc \<noteq> None then no_unparsed
      else if small doc \<and> has (pg_text doc) RATE_PHRASES then yes (3/4) ''rate limit message''
      else no doc)"

definition geo_blocked :: "page \<Rightarrow> flag" where
  "geo_blocked doc =
     (if pg_status doc = 451 then yes 1 ''HTTP 451''
      else
        let thin_main = (small doc \<or> (case pg_main_words doc of Some n \<Rightarrow> n < 100 | None \<Rightarrow> False))
        in if contains ''unavailable-in-your-location'' (pg_final_url doc) \<or> thin_main \<and> has (pg_text doc) GEO_PHRASES
           then yes (17/20) ''not available in this region'' else no doc)"

definition unsupported_browser :: "page \<Rightarrow> flag" where
  "unsupported_browser doc =
     (if pg_words doc < 120 \<and> has (pg_text doc @ '' '' @ pg_title doc) BROWSER_PHRASES
         \<or> contains ''unsupported'' (lower (up_path (pg_final doc)))
      then yes (17/20) ''unsupported browser message'' else no doc)"

definition interstitial :: "page \<Rightarrow> flags \<Rightarrow> flag" where
  "interstitial doc found =
     (let text = pg_text doc @ '' '' @ pg_title doc; path = up_path (pg_final doc)
      in if contains ''<frameset'' (pg_markup doc) then yes (9/10) ''frameset''
         else if pg_redirected doc \<and> (enable_cookies path \<or> enable_cookies (pg_title doc))
         then yes (17/20) (''redirected to a cookies-required page ('' @ path @ '')'')
         else if small doc \<and> has text QUEUE_PHRASES then yes (17/20) ''queue / waiting room''
         else if small doc \<and> (contains ''before you continue'' (pg_text doc) \<or> startswith ''consent.'' (up_netloc (pg_final doc)))
         then yes (4/5) ''consent wall''
         else if \<not> raised found Bot_Challenge \<and> pg_words doc < 15 \<and> \<not> pg_empty_mount doc
           \<and> (pg_meta_refresh doc \<or> pg_js_redirect doc \<or> list_ex (\<lambda>p. startswith p (pg_text doc)) STUB_OPENINGS)
         then yes (3/4) ''redirect stub''
         else if small doc \<and> has text AGE_GATE_PHRASES then yes (3/4) ''age gate''
         else if pg_words doc < 400 \<and> has text PICKER_PHRASES then yes (7/10) ''country picker''
         else no doc)"

definition auth :: "page \<Rightarrow> flag" where
  "auth doc =
     (let path = up_path (pg_final doc);
          login_title = has (pg_title doc) [''log in'', ''login'', ''sign in'', ''sign-in'']
      in if redirected_to_login doc then yes (9/10) (''redirected to '' @ path)
         else if pg_redirected doc \<and> same_site doc \<and> title_letters (pg_title doc) \<in> set LOGIN_TITLES
         then yes (17/20) (''redirected to a sign-in page ('' @ path @ '')'')
         else if small doc \<and> (has (pg_text doc) LOGIN_PHRASES
             \<or> pg_password_inputs doc \<noteq> 0 \<and> (pg_words doc < 120 \<or> login_title))
         then yes (4/5) ''login form on a small page''
         else if pg_words doc < 150 \<and> length (filter (\<lambda>p. contains p (pg_text doc)) OAUTH_BUTTONS) \<ge> 2
         then yes (3/4) ''sign-in buttons on a small page''
         else if pg_status doc = 401 then yes (3/5) ''HTTP 401''
         else no doc)"

definition paywall :: "page \<Rightarrow> flag" where
  "paywall doc =
     (if pg_status doc = 402 then yes 1 ''HTTP 402 Payment Required''
      else if accessible_for_free ''false'' (pg_markup doc) \<and> \<not> accessible_for_free ''true'' (pg_markup doc)
        \<and> (has (pg_text doc) PAYWALL_PHRASES \<or> pg_body_words doc < 400)
      then yes (17/20) ''isAccessibleForFree: false with a teaser or subscription wording''
      else if has (pg_text doc) PAYWALL_STRONG \<and> pg_body_words doc < 600
      then yes (4/5) (''short article with '' @ quote @ ''subscribe to keep reading'' @ quote @ '' wording'')
      else no doc)"

definition parked :: "page \<Rightarrow> flag" where
  "parked doc =
     (if small doc \<and> (has (pg_text doc @ '' '' @ pg_title doc) PARKED_PHRASES \<or> has (pg_markup doc) PARKED_MARKUP)
      then yes (17/20) ''parked / for-sale domain''
      else if pg_words doc < 15 \<and> pg_lander_redirect doc
      then yes (4/5) ''script redirect to /lander (domain-parking pattern)''
      else if startswith ''index of /'' (pg_title doc) \<and> pg_words doc < 60
      then yes (4/5) ''an empty directory listing instead of a site''
      else if small doc \<and> (has (pg_title doc) SERVER_DEFAULT_TITLES
          \<or> pg_words doc < 60 \<and> has (pg_text doc) SERVER_DEFAULT_PAGES)
      then yes (4/5) (''the web server'' @ quote @ ''s default page: no site on this domain'')
      else no doc)"

definition gone :: "page \<Rightarrow> flag" where
  "gone doc =
     (if pg_status doc = 410 then yes 1 ''HTTP 410''
      else if pg_status doc \<noteq> 404 \<and> small doc \<and> pg_words doc < 150 \<and> has (pg_text doc @ '' '' @ pg_title doc) GONE_PHRASES
      then yes (3/4) ''page says the content was removed''
      else no doc)"

definition not_found :: "page \<Rightarrow> flag" where
  "not_found doc =
     (if pg_status doc = 404 then yes 1 ''HTTP 404''
      else if has (pg_title doc) NOT_FOUND_PHRASES
        \<or> small doc \<and> pg_words doc < 60 \<and> has (pg_text doc) NOT_FOUND_PHRASES
      then yes (4/5) (quote @ ''not found'' @ quote @ '' page'')
      else if deep_link_to_front doc \<and> same_site doc then yes (3/5) ''deep URL redirected to the front page''
      else if deep_link_to_front doc \<and> deep_request doc \<and> \<not> moved_to_own_domain doc
      then yes (3/5) (''deep URL redirected to another site'' @ quote @ ''s front page ('' @ up_netloc (pg_final doc) @ '')'')
      else no doc)"

definition client_error :: "page \<Rightarrow> flag" where
  "client_error doc =
     (if 400 \<le> pg_status doc \<and> pg_status doc < 500 \<and> pg_status doc \<notin> {402, 404, 410, 429}
      then yes 1 (''HTTP '' @ str_int (pg_status doc))
      else if pg_redirected doc \<and> (forbidden_path (up_path (pg_final doc))
          \<or> starts_word ''403'' (pg_title doc) \<or> starts_word ''access denied'' (pg_title doc))
      then yes (4/5) (''redirected to an access-denied page ('' @ up_path (pg_final doc) @ '')'')
      else rule_flag False 1 [])"

definition server_error :: "page \<Rightarrow> flag" where
  "server_error doc =
     (if pg_status doc \<ge> 500 then yes 1 (''HTTP '' @ str_int (pg_status doc))
      else if small doc \<and> has (pg_text doc @ '' '' @ pg_title doc) MAINTENANCE_PHRASES
      then yes (4/5) ''maintenance or downtime notice''
      else if pg_words doc < 100 \<and> has (pg_text doc @ '' '' @ pg_title doc) REQUEST_FAILED_PHRASES
      then yes (3/4) (''the site says it couldn'' @ quote @ ''t process the request'')
      else no doc)"

text \<open>The table of the rules; a column without a rule is never asked.\<close>

fun RULES :: rules where
  "RULES Payload_Mismatch doc found = payload_mismatch doc"
| "RULES Rate_Limited doc found = rate_limited doc"
| "RULES Bot_Challenge doc found = bot_challenge doc"
| "RULES Geo_Blocked doc found = geo_blocked doc"
| "RULES Unsupported_Browser doc found = unsupported_browser doc"
| "RULES Interstitial doc found = interstitial doc found"
| "RULES Auth doc found = auth doc"
| "RULES Paywall doc found = paywall doc"
| "RULES Parked doc found = parked doc"
| "RULES Gone doc found = gone doc"
| "RULES Not_Found doc found = not_found doc"
| "RULES Client_Error doc found = client_error doc"
| "RULES Server_Error doc found = server_error doc"
| "RULES _ doc found = no doc"

end
