(* ===== verification/Method_Cache.thy ===== *)
theory Method_Cache
  imports Prelude "HOL-Library.AList"
begin

text \<open>
  The method cache (\<^verbatim>\<open>pagecapture/cache.py\<close>, \<^verbatim>\<open>backend/proxy/capture/cache.py\<close>): the evidence
  under which a page may be captured over plain HTTP without a browser. The interface \<open>MethodCache\<close>
  is the locale \<open>method_cache\<close>; the policy's guarantees are proved in it once and hold for the
  in-memory, the SQLite and the PostgreSQL implementation. Times are seconds, sizes bytes; the smoothed size is an exact
  rational. The keys of a URL, an exact one and a pattern, are opaque strings that differ.
\<close>

section \<open>Entries\<close>

record method_entry =
  me_comparisons :: int
  me_sufficient :: int
  me_contradictions :: int
  me_last_seen :: rat
  me_typical_bytes :: rat
  me_last_sufficient :: bool

definition new_entry :: method_entry where
  "new_entry = \<lparr>me_comparisons = 0, me_sufficient = 0, me_contradictions = 0, me_last_seen = 0,
     me_typical_bytes = 0, me_last_sufficient = False\<rparr>"

definition record_comparison :: "method_entry option \<Rightarrow> bool \<Rightarrow> int \<Rightarrow> rat \<Rightarrow> rat \<Rightarrow> method_entry" where
  "record_comparison entry sufficient http_bytes now ttl =
     (let e = (case entry of Some e \<Rightarrow> if now - me_last_seen e \<le> ttl then e else new_entry | None \<Rightarrow> new_entry)
      in \<lparr>me_comparisons = me_comparisons e + 1,
          me_sufficient = me_sufficient e + (if sufficient then 1 else 0),
          me_contradictions = me_contradictions e + (if sufficient then 0 else 1),
          me_last_seen = now,
          me_typical_bytes = (if me_typical_bytes e \<le> 0 then of_int http_bytes
                              else 8/10 * me_typical_bytes e + 2/10 * of_int http_bytes),
          me_last_sufficient = sufficient\<rparr>)"

section \<open>The three stores\<close>

type_synonym memory_cache = "(string \<times> method_entry) list"

definition memory_get :: "memory_cache \<Rightarrow> string \<Rightarrow> method_entry option" where
  "memory_get c k = map_of c k"

definition memory_record :: "string \<times> string \<Rightarrow> bool \<Rightarrow> int \<Rightarrow> rat \<Rightarrow> rat \<Rightarrow> memory_cache \<Rightarrow> memory_cache" where
  "memory_record keys sufficient http_bytes now ttl c =
     fold (\<lambda>k c. AList.update k (record_comparison (map_of c k) sufficient http_bytes now ttl) c) [fst keys, snd keys] c"

text \<open>\<open>asdict(entry)\<close> and \<open>MethodEntry(**value)\<close>; JSON keeps Python's floats exactly.\<close>

definition entry_to_json :: "method_entry \<Rightarrow> json" where
  "entry_to_json e = JObj [(''comparisons'', JInt (me_comparisons e)), (''sufficient'', JInt (me_sufficient e)),
     (''contradictions'', JInt (me_contradictions e)), (''last_seen'', JFloat (me_last_seen e)),
     (''typical_bytes'', JFloat (me_typical_bytes e)), (''last_sufficient'', JBool (me_last_sufficient e))]"

definition jnum :: "json option \<Rightarrow> rat" where
  "jnum v = (case v of Some (JFloat r) \<Rightarrow> r | Some (JInt i) \<Rightarrow> of_int i | _ \<Rightarrow> 0)"

definition entry_from_json :: "json \<Rightarrow> method_entry" where
  "entry_from_json v = \<lparr>me_comparisons = \<lfloor>jnum (jget v ''comparisons'')\<rfloor>, me_sufficient = \<lfloor>jnum (jget v ''sufficient'')\<rfloor>,
     me_contradictions = \<lfloor>jnum (jget v ''contradictions'')\<rfloor>, me_last_seen = jnum (jget v ''last_seen''),
     me_typical_bytes = jnum (jget v ''typical_bytes''),
     me_last_sufficient = (jget v ''last_sufficient'' = Some (JBool True))\<rparr>"

text \<open>SQLite keeps the JSON text of an entry under its primary key.\<close>

type_synonym sqlite_cache = "(string \<times> json) list"

definition sqlite_get :: "sqlite_cache \<Rightarrow> string \<Rightarrow> method_entry option" where
  "sqlite_get c k = map_option entry_from_json (map_of c k)"

definition sqlite_record :: "string \<times> string \<Rightarrow> bool \<Rightarrow> int \<Rightarrow> rat \<Rightarrow> rat \<Rightarrow> sqlite_cache \<Rightarrow> sqlite_cache" where
  "sqlite_record keys sufficient http_bytes now ttl c =
     fold (\<lambda>k c. AList.update k (entry_to_json (record_comparison (sqlite_get c k) sufficient http_bytes now ttl)) c)
       (sort [fst keys, snd keys]) c"

text \<open>PostgreSQL: the row is inserted empty when missing, locked, read and rewritten, key by key in
  order, in one transaction.\<close>

record cache_row =
  cw_entry :: json
  cw_last_seen :: rat

type_synonym postgres_cache = "(string \<times> cache_row) list"

definition postgres_get :: "postgres_cache \<Rightarrow> string \<Rightarrow> method_entry option" where
  "postgres_get c k = map_option (entry_from_json \<circ> cw_entry) (map_of c k)"

definition insert_if_missing :: "string \<Rightarrow> rat \<Rightarrow> postgres_cache \<Rightarrow> postgres_cache" where
  "insert_if_missing k now c =
     (case map_of c k of
        None \<Rightarrow> c @ [(k, \<lparr>cw_entry = entry_to_json new_entry, cw_last_seen = now\<rparr>)]
      | Some _ \<Rightarrow> c)"

definition postgres_record_key :: "bool \<Rightarrow> int \<Rightarrow> rat \<Rightarrow> rat \<Rightarrow> string \<Rightarrow> postgres_cache \<Rightarrow> postgres_cache" where
  "postgres_record_key sufficient http_bytes now ttl k c =
     (let c1 = insert_if_missing k now c
      in case map_of c1 k of
           None \<Rightarrow> c1
         | Some r \<Rightarrow>
             AList.update k \<lparr>cw_entry = entry_to_json
                 (record_comparison (Some (entry_from_json (cw_entry r))) sufficient http_bytes now ttl),
               cw_last_seen = now\<rparr> c1)"

definition postgres_record :: "string \<times> string \<Rightarrow> bool \<Rightarrow> int \<Rightarrow> rat \<Rightarrow> rat \<Rightarrow> postgres_cache \<Rightarrow> postgres_cache" where
  "postgres_record keys sufficient http_bytes now ttl c =
     fold (postgres_record_key sufficient http_bytes now ttl) (sort [fst keys, snd keys]) c"

section \<open>The policy\<close>

record cache_settings =
  cs_cache_ttl_days :: rat
  cs_pattern_min_comparisons :: int
  cs_pattern_max_contradictions :: int

definition cache_ttl :: "cache_settings \<Rightarrow> rat" where
  "cache_ttl s = cs_cache_ttl_days s * 86400"

datatype cache_decision = Cache_Url | Cache_Pattern

definition fresh_entry :: "cache_settings \<Rightarrow> rat \<Rightarrow> method_entry option \<Rightarrow> method_entry option" where
  "fresh_entry s now entry =
     (case entry of
        Some e \<Rightarrow> if now - me_last_seen e > cache_ttl s then None else Some e
      | None \<Rightarrow> None)"

definition usual :: "int \<Rightarrow> method_entry \<Rightarrow> bool" where
  "usual http_bytes e \<longleftrightarrow> me_typical_bytes e \<le> 0
     \<or> 5/10 * me_typical_bytes e \<le> of_int http_bytes \<and> of_int http_bytes \<le> 2 * me_typical_bytes e"

definition http_sufficient ::
  "cache_settings \<Rightarrow> (string \<Rightarrow> method_entry option) \<Rightarrow> string \<times> string \<Rightarrow> int \<Rightarrow> rat \<Rightarrow> cache_decision option" where
  "http_sufficient s get keys http_bytes now =
     (let exact = fresh_entry s now (get (fst keys));
          pattern_rule =
            (case fresh_entry s now (get (snd keys)) of
               Some p \<Rightarrow>
                 if cs_pattern_min_comparisons s \<le> me_sufficient p
                    \<and> me_contradictions p < cs_pattern_max_contradictions s \<and> usual http_bytes p
                 then Some Cache_Pattern else None
             | None \<Rightarrow> None)
      in case exact of
           Some e \<Rightarrow>
             if me_contradictions e \<noteq> 0 then None
             else if me_last_sufficient e \<and> usual http_bytes e then Some Cache_Url
             else pattern_rule
         | None \<Rightarrow> pattern_rule)"

section \<open>Evidence accumulated for one key\<close>

type_synonym recording = "bool \<times> int \<times> rat"

fun evolve :: "rat \<Rightarrow> recording list \<Rightarrow> method_entry option \<Rightarrow> method_entry option" where
  "evolve ttl [] e = e"
| "evolve ttl ((suf, n, t) # rs) e = evolve ttl rs (Some (record_comparison e suf n t ttl))"

lemma evolve_append: "evolve ttl (rs @ rs') e = evolve ttl rs' (evolve ttl rs e)"
  by (induction ttl rs e rule: evolve.induct) simp_all

lemma evolve_snoc:
  "evolve ttl (rs @ [(suf, n, t)]) e = Some (record_comparison (evolve ttl rs e) suf n t ttl)"
  by (simp add: evolve_append)

lemma evolve_Some: "rs \<noteq> [] \<Longrightarrow> \<exists>e. evolve ttl rs e0 = Some e"
  by (cases rs rule: rev_cases) (auto simp: evolve_snoc)

lemma evolve_bounds:
  "evolve ttl rs None = Some e \<Longrightarrow> 0 \<le> me_contradictions e \<and> 0 \<le> me_sufficient e
     \<and> me_sufficient e \<le> int (count_where fst rs)
     \<and> (\<exists>rs' n. rs = rs' @ [(me_last_sufficient e, n, me_last_seen e)])"
proof (induction rs arbitrary: e rule: rev_induct)
  case (snoc r rs)
  obtain suf n t where r: "r = (suf, n, t)" by (cases r)
  have e: "e = record_comparison (evolve ttl rs None) suf n t ttl" using snoc.prems by (simp add: r evolve_snoc)
  show ?case using snoc.IH
    by (cases "evolve ttl rs None") (auto simp: e r record_comparison_def new_entry_def Let_def)
qed simp

text \<open>A contradiction stays until the entry expires.\<close>

lemma contradiction_sticks:
  assumes "\<forall>(suf, n, t') \<in> set rs'. t \<le> t' \<and> t' - t \<le> ttl"
    and "evolve ttl (rs @ (False, m, t) # rs') None = Some e"
  shows "1 \<le> me_contradictions e \<and> t \<le> me_last_seen e"
  using assms
proof (induction rs' arbitrary: e rule: rev_induct)
  case Nil
  have "0 \<le> me_contradictions (case evolve ttl rs None of Some e \<Rightarrow> if t - me_last_seen e \<le> ttl then e else new_entry | None \<Rightarrow> new_entry)"
    using evolve_bounds [of ttl rs] by (auto simp: new_entry_def split: option.split)
  then show ?case using Nil.prems(2) by (auto simp: evolve_snoc record_comparison_def Let_def)
next
  case (snoc r rs')
  obtain suf n t' where r: "r = (suf, n, t')" by (cases r)
  let ?rs = "rs @ (False, m, t) # rs'"
  have e: "e = record_comparison (evolve ttl ?rs None) suf n t' ttl"
    using snoc.prems(2) evolve_snoc [of ttl ?rs suf n t' None] by (simp add: r)
  obtain e' where e': "evolve ttl ?rs None = Some e'" using evolve_Some [of ?rs ttl None] by auto
  have ih: "1 \<le> me_contradictions e' \<and> t \<le> me_last_seen e'" using snoc.IH [OF _ e'] snoc.prems(1) by auto
  have "t \<le> t'" "t' - t \<le> ttl" using snoc.prems(1) by (auto simp: r)
  then show ?case using ih by (simp add: e e' record_comparison_def)
qed

text \<open>A history of recordings, the latest last: exact key, pattern key, result, size, time.\<close>

type_synonym history = "(string \<times> string \<times> recording) list"

definition recorded ::
  "(string \<times> string \<Rightarrow> bool \<Rightarrow> int \<Rightarrow> rat \<Rightarrow> rat \<Rightarrow> 'c \<Rightarrow> 'c) \<Rightarrow> rat \<Rightarrow> history \<Rightarrow> 'c \<Rightarrow> 'c" where
  "recorded rec ttl h c = fold (\<lambda>(x, p, suf, n, t). rec (x, p) suf n t ttl) h c"

definition touches :: "string \<Rightarrow> string \<times> string \<times> recording \<Rightarrow> bool" where
  "touches k r = (case r of (x, p, _) \<Rightarrow> k = x \<or> k = p)"

definition recordings :: "string \<Rightarrow> history \<Rightarrow> recording list" where
  "recordings k h = map (\<lambda>(x, p, r). r) (filter (touches k) h)"

section \<open>The interface\<close>

text \<open>What the policy relies on: a recording updates exactly the two keys it names.\<close>

locale method_cache =
  fixes cache_get :: "'c \<Rightarrow> string \<Rightarrow> method_entry option"
    and cache_record :: "string \<times> string \<Rightarrow> bool \<Rightarrow> int \<Rightarrow> rat \<Rightarrow> rat \<Rightarrow> 'c \<Rightarrow> 'c"
  assumes get_record: "fst keys \<noteq> snd keys \<Longrightarrow>
    cache_get (cache_record keys sufficient http_bytes now ttl c) k =
      (if k = fst keys \<or> k = snd keys
       then Some (record_comparison (cache_get c k) sufficient http_bytes now ttl) else cache_get c k)"
begin

lemma recorded_snoc:
  "recorded cache_record ttl (h @ [(x, p, suf, n, t)]) c = cache_record (x, p) suf n t ttl (recorded cache_record ttl h c)"
  by (simp add: recorded_def)

lemma get_recorded:
  assumes "\<forall>(x, p, r) \<in> set h. x \<noteq> p"
  shows "cache_get (recorded cache_record ttl h c) k = evolve ttl (recordings k h) (cache_get c k)"
  using assms
proof (induction h rule: rev_induct)
  case (snoc r h)
  obtain x p suf n t where r: "r = (x, p, suf, n, t)" by (cases r)
  show ?case using snoc get_record [of "(x, p)" suf n t ttl "recorded cache_record ttl h c" k]
    by (simp add: r recorded_snoc recordings_def touches_def evolve_snoc)
qed (simp add: recorded_def recordings_def)

lemma recordings_append: "recordings k (h @ h') = recordings k h @ recordings k h'"
  by (simp add: recordings_def)

lemma contradicted:
  assumes keys: "\<forall>(x, p, r) \<in> set (h @ (x, p, False, m, t) # h'). x \<noteq> p"
    and empty: "cache_get c x = None"
    and later: "\<forall>(x, p, suf, n, t') \<in> set h'. t \<le> t' \<and> t' \<le> now"
    and young: "now - t \<le> cache_ttl s"
  shows "http_sufficient s (cache_get (recorded cache_record (cache_ttl s) (h @ (x, p, False, m, t) # h') c)) (x, q) n now = None"
proof -
  let ?h = "h @ (x, p, False, m, t) # h'"
  have rec: "recordings x ?h = recordings x h @ (False, m, t) # recordings x h'"
    by (simp add: recordings_append) (simp add: recordings_def touches_def)
  have "\<forall>(suf, n, t') \<in> set (recordings x h'). t \<le> t' \<and> t' - t \<le> cache_ttl s"
    using later young by (fastforce simp: recordings_def)
  note sticky = contradiction_sticks [OF this, of "recordings x h" m]
  obtain e where e: "evolve (cache_ttl s) (recordings x ?h) None = Some e"
    using evolve_Some [of "recordings x ?h" "cache_ttl s" None] rec by auto
  then have "1 \<le> me_contradictions e \<and> t \<le> me_last_seen e" unfolding rec by (rule sticky)
  then have "fresh_entry s now (Some e) = Some e" "me_contradictions e \<noteq> 0"
    using young by (auto simp: fresh_entry_def)
  then show ?thesis using get_recorded [OF keys, of "cache_ttl s" c x]
    by (simp add: http_sufficient_def empty e)
qed

lemma trusted:
  assumes keys: "\<forall>(x, p, r) \<in> set h. x \<noteq> p"
    and empty: "cache_get c x = None" "cache_get c q = None"
    and trust: "http_sufficient s (cache_get (recorded cache_record (cache_ttl s) h c)) (x, q) n now = Some d"
  shows "case d of
      Cache_Url \<Rightarrow> (\<exists>rs m t. recordings x h = rs @ [(True, m, t)] \<and> now - t \<le> cache_ttl s)
    | Cache_Pattern \<Rightarrow> cs_pattern_min_comparisons s \<le> int (count_where fst (recordings q h))"
proof -
  have x: "cache_get (recorded cache_record (cache_ttl s) h c) x = evolve (cache_ttl s) (recordings x h) None"
    and q: "cache_get (recorded cache_record (cache_ttl s) h c) q = evolve (cache_ttl s) (recordings q h) None"
    using get_recorded [OF keys] by (simp_all add: empty)
  show ?thesis
  proof (cases d)
    case Cache_Url
    then obtain e where "evolve (cache_ttl s) (recordings x h) None = Some e"
      "me_last_sufficient e" "now - me_last_seen e \<le> cache_ttl s"
      using trust by (auto simp: http_sufficient_def x q fresh_entry_def Let_def split: option.splits if_splits)
    with evolve_bounds [OF this(1)] show ?thesis by (auto simp: Cache_Url)
  next
    case Cache_Pattern
    then obtain e where "evolve (cache_ttl s) (recordings q h) None = Some e"
      "cs_pattern_min_comparisons s \<le> me_sufficient e"
      using trust by (auto simp: http_sufficient_def x q fresh_entry_def Let_def split: option.splits if_splits)
    with evolve_bounds [OF this(1)] show ?thesis by (auto simp: Cache_Pattern)
  qed
qed

end

section \<open>The implementations\<close>

lemma entry_round_trip [simp]: "entry_from_json (entry_to_json e) = e"
  by (cases e) (simp add: entry_from_json_def entry_to_json_def jget_def jnum_def)

lemma record_new_entry: "record_comparison (Some new_entry) = record_comparison None"
  by (rule ext)+ (simp add: record_comparison_def)

text \<open>Recording two distinct keys one after the other, in either order.\<close>

lemma fold_two:
  assumes "\<And>k c k'. get (f k c) k' = (if k' = k then Some (g (get c k)) else get c k')" "a \<noteq> b"
  shows "get (fold f [a, b] c) k = (if k = a \<or> k = b then Some (g (get c k)) else get c k)"
  using assms by simp

lemma fold_sorted:
  fixes a :: string
  assumes f: "\<And>k c k'. get (f k c) k' = (if k' = k then Some (g (get c k)) else get c k')" and ne: "a \<noteq> b"
  shows "get (fold f (sort [a, b]) c) k = (if k = a \<or> k = b then Some (g (get c k)) else get c k)"
proof -
  have "sort [a, b] = [a, b] \<or> sort [a, b] = [b, a]" by simp
  then show ?thesis
  proof
    assume "sort [a, b] = [b, a]"
    then show ?thesis using fold_two [of get f g b a c k, OF f] ne by (simp add: disj_commute)
  next
    assume "sort [a, b] = [a, b]"
    then show ?thesis using fold_two [of get f g a b c k, OF f] ne by simp
  qed
qed

interpretation memory: method_cache memory_get memory_record
proof unfold_locales
  fix keys :: "string \<times> string" and sufficient http_bytes now ttl c k
  assume "fst keys \<noteq> snd keys"
  then show "memory_get (memory_record keys sufficient http_bytes now ttl c) k =
      (if k = fst keys \<or> k = snd keys
       then Some (record_comparison (memory_get c k) sufficient http_bytes now ttl) else memory_get c k)"
    unfolding memory_record_def memory_get_def
    by (intro fold_two [where get = map_of]) (simp_all add: AList.update_conv')
qed

interpretation sqlite: method_cache sqlite_get sqlite_record
proof unfold_locales
  fix keys :: "string \<times> string" and sufficient http_bytes now ttl c k
  assume ne: "fst keys \<noteq> snd keys"
  let ?f = "\<lambda>k c. AList.update k (entry_to_json (record_comparison (sqlite_get c k) sufficient http_bytes now ttl)) c"
  have f: "sqlite_get (?f k c) k' = (if k' = k then Some (record_comparison (sqlite_get c k) sufficient http_bytes now ttl) else sqlite_get c k')"
    for k c k' by (simp add: sqlite_get_def AList.update_conv')
  show "sqlite_get (sqlite_record keys sufficient http_bytes now ttl c) k =
      (if k = fst keys \<or> k = snd keys
       then Some (record_comparison (sqlite_get c k) sufficient http_bytes now ttl) else sqlite_get c k)"
    unfolding sqlite_record_def by (rule fold_sorted [where get = sqlite_get and f = ?f, OF f ne])
qed

lemma postgres_record_key_get:
  "postgres_get (postgres_record_key sufficient http_bytes now ttl k c) k' =
     (if k' = k then Some (record_comparison (postgres_get c k) sufficient http_bytes now ttl) else postgres_get c k')"
proof (cases "map_of c k")
  case None
  then have "map_of (insert_if_missing k now c) k' =
      (if k' = k then Some \<lparr>cw_entry = entry_to_json new_entry, cw_last_seen = now\<rparr> else map_of c k')" for k'
    by (simp add: insert_if_missing_def map_add_def split: option.split)
  with None show ?thesis
    by (simp add: postgres_record_key_def postgres_get_def AList.update_conv' record_new_entry)
next
  case (Some r)
  then show ?thesis by (simp add: postgres_record_key_def insert_if_missing_def postgres_get_def AList.update_conv')
qed

interpretation postgres: method_cache postgres_get postgres_record
proof unfold_locales
  fix keys :: "string \<times> string" and sufficient http_bytes now ttl c k
  assume ne: "fst keys \<noteq> snd keys"
  show "postgres_get (postgres_record keys sufficient http_bytes now ttl c) k =
      (if k = fst keys \<or> k = snd keys
       then Some (record_comparison (postgres_get c k) sufficient http_bytes now ttl) else postgres_get c k)"
    unfolding postgres_record_def by (rule fold_sorted [where get = postgres_get, OF postgres_record_key_get ne])
qed

text \<open>C33: After a comparison found plain HTTP insufficient for a URL, the policy never skips the browser
  for that URL while the comparison is younger than the cache lifetime, whatever was recorded before and
  since and whatever its pattern says. And whenever the policy does skip the browser, there is evidence: the last comparison of
  the URL, within the lifetime, was sufficient, or its pattern has the required number of sufficient
  comparisons.\<close>

theorem skipping_needs_evidence:
  assumes keys: "\<forall>(x, p, r) \<in> set h. x \<noteq> p"
  shows "(\<forall>h1 p m t h2. h = h1 @ (x, p, False, m, t) # h2 \<longrightarrow> now - t \<le> cache_ttl s
        \<longrightarrow> (\<forall>(x, p, suf, n, t') \<in> set h2. t \<le> t' \<and> t' \<le> now)
        \<longrightarrow> http_sufficient s (postgres_get (recorded postgres_record (cache_ttl s) h [])) (x, q) n now = None)
    \<and> (\<forall>d. http_sufficient s (postgres_get (recorded postgres_record (cache_ttl s) h [])) (x, q) n now = Some d
        \<longrightarrow> (case d of
               Cache_Url \<Rightarrow> (\<exists>rs m t. recordings x h = rs @ [(True, m, t)] \<and> now - t \<le> cache_ttl s)
             | Cache_Pattern \<Rightarrow> cs_pattern_min_comparisons s \<le> int (count_where fst (recordings q h))))"
proof (intro conjI allI impI)
  have empty: "postgres_get [] k = None" for k by (simp add: postgres_get_def)
  fix h1 p m t h2
  assume h: "h = h1 @ (x, p, False, m, t) # h2" and y: "now - t \<le> cache_ttl s"
    and l: "\<forall>(x, p, suf, n, t') \<in> set h2. t \<le> t' \<and> t' \<le> now"
  show "http_sufficient s (postgres_get (recorded postgres_record (cache_ttl s) h [])) (x, q) n now = None"
    unfolding h by (rule postgres.contradicted [OF keys [unfolded h] empty l y])
next
  fix d
  assume "http_sufficient s (postgres_get (recorded postgres_record (cache_ttl s) h [])) (x, q) n now = Some d"
  then show "case d of
               Cache_Url \<Rightarrow> (\<exists>rs m t. recordings x h = rs @ [(True, m, t)] \<and> now - t \<le> cache_ttl s)
             | Cache_Pattern \<Rightarrow> cs_pattern_min_comparisons s \<le> int (count_where fst (recordings q h))"
    by (intro postgres.trusted [OF keys, of "[]" x q s n now d]) (simp_all add: postgres_get_def)
qed

definition demo_cache_settings :: cache_settings where
  "demo_cache_settings = \<lparr>cs_cache_ttl_days = 30, cs_pattern_min_comparisons = 3, cs_pattern_max_contradictions = 2\<rparr>"

definition demo_history :: history where
  "demo_history = [(''url:a/1'', ''pattern:a/*'', True, 100, 10), (''url:a/2'', ''pattern:a/*'', True, 110, 20),
     (''url:a/3'', ''pattern:a/*'', False, 90, 30), (''url:a/4'', ''pattern:a/*'', True, 100, 40)]"

theorem skipping_needs_evidence_witness:
  "http_sufficient demo_cache_settings
      (postgres_get (recorded postgres_record (cache_ttl demo_cache_settings) demo_history [])) (''url:a/3'', ''pattern:a/*'') 100 50 = None
   \<and> http_sufficient demo_cache_settings
      (postgres_get (recorded postgres_record (cache_ttl demo_cache_settings) demo_history [])) (''url:a/5'', ''pattern:a/*'') 100 50
      = Some Cache_Pattern
   \<and> 3 \<le> count_where fst (recordings ''pattern:a/*'' demo_history)"
proof -
  have k: "\<forall>(x, p, r) \<in> set demo_history. x \<noteq> p" by code_simp
  have split: "demo_history = [(''url:a/1'', ''pattern:a/*'', True, 100, 10), (''url:a/2'', ''pattern:a/*'', True, 110, 20)]
      @ (''url:a/3'', ''pattern:a/*'', False, 90, 30) # [(''url:a/4'', ''pattern:a/*'', True, 100, 40)]"
    by (simp add: demo_history_def)
  have "(50 :: rat) - 30 \<le> cache_ttl demo_cache_settings" by code_simp
  then have "http_sufficient demo_cache_settings
      (postgres_get (recorded postgres_record (cache_ttl demo_cache_settings) demo_history [])) (''url:a/3'', ''pattern:a/*'') 100 50 = None"
    using skipping_needs_evidence [OF k, of "''url:a/3''" 50 demo_cache_settings "''pattern:a/*''" 100] split by fastforce
  moreover have p: "http_sufficient demo_cache_settings
      (postgres_get (recorded postgres_record (cache_ttl demo_cache_settings) demo_history [])) (''url:a/5'', ''pattern:a/*'') 100 50
      = Some Cache_Pattern" by code_simp
  moreover have "3 \<le> int (count_where fst (recordings ''pattern:a/*'' demo_history))"
    using skipping_needs_evidence [OF k, of "''url:a/5''" 50 demo_cache_settings "''pattern:a/*''" 100] p
    by (auto simp: demo_cache_settings_def)
  ultimately show ?thesis by simp
qed

end
