(* ===== verification/Capture_Service.thy ===== *)
theory Capture_Service
  imports Classifier Method_Cache
begin

text \<open>
  The capture service (\<^verbatim>\<open>pagecapture/service.py\<close> with the types of \<^verbatim>\<open>api.py\<close> and
  \<^verbatim>\<open>failures.py\<close>): plain HTTP first, then managed rendering, then, only when the caller permits it, local
  and paid challenge resolution. A capture is a program: it ends with a result or an uncaught error, or waits for the
  fetcher, the classifier, the method cache, the clock or a browser tier and goes on with the answer. Every wait
  carries the result object as it is then, because the capture deadline can expire there. Left out: the
  explanatory prose (decision reasons, messages, notes, render steps), durations, version strings and timestamps.
\<close>

section \<open>The contract\<close>

datatype tier_name = Direct | Managed | Local_Resolution | Challenge_Resolution

datatype capture_path = Http_Path | Browser_Path

datatype decision = Accept | Escalate | Fail

datatype decision_code =
    C_Cache_Url | C_Cache_Pattern | C_Canary | C_Verify_Http | C_Assessment | C_Content_Comparison
  | C_Acquisition | C_Media_Type

datatype completeness = Complete | Incomplete | Empty

record assessment =
  as_primary :: "reason option"
  as_reasons :: "(reason \<times> rat) list"
  as_completeness :: "completeness option"
  as_confidence :: "rat option"

definition only_primary :: "reason option \<Rightarrow> assessment" where
  "only_primary p = \<lparr>as_primary = p, as_reasons = [], as_completeness = None, as_confidence = None\<rparr>"

record attempt =
  at_path :: capture_path
  at_tier :: tier_name
  at_status_code :: "int option"
  at_assessment :: assessment
  at_decision :: decision
  at_reason_code :: decision_code
  at_comparison :: "(rat \<times> bool) option"
  at_final_url :: "string option"
  at_retry_after_seconds :: "rat option"

datatype representation = Response_Body | Rendered_Html

record document =
  do_representation :: representation
  do_media_type :: string
  do_charset :: "string option"
  do_body :: string

record response =
  rs_status_code :: int
  rs_headers :: "(string \<times> string) list"
  rs_redirects :: "(int \<times> string \<times> string) list"

datatype failure_code =
    F_Rate_Limited | F_Website_Error | F_Not_Found | F_Gone | F_Access_Denied | F_Request_Rejected | F_Paywall
  | F_Parked | F_Geo_Blocked | F_Bot_Challenge | F_Bot_Blocked | F_Redirect_Loop | F_Unreachable
  | F_Host_Not_Found | F_Capacity | F_Domain_Throttled | F_Browser_Unavailable | F_Deadline_Exceeded
  | F_Incomplete_Content | F_Interstitial | F_Unsupported_Browser | F_Excluded | F_Unsupported_Media_Type

datatype failure_category = Website | Network | Gateway | Content

fun FAILURES :: "failure_code \<Rightarrow> failure_category \<times> bool" where
  "FAILURES F_Rate_Limited = (Website, True)"
| "FAILURES F_Website_Error = (Website, True)"
| "FAILURES F_Not_Found = (Website, False)"
| "FAILURES F_Gone = (Website, False)"
| "FAILURES F_Access_Denied = (Website, False)"
| "FAILURES F_Request_Rejected = (Website, False)"
| "FAILURES F_Paywall = (Website, False)"
| "FAILURES F_Parked = (Website, False)"
| "FAILURES F_Geo_Blocked = (Website, False)"
| "FAILURES F_Bot_Challenge = (Website, False)"
| "FAILURES F_Bot_Blocked = (Website, False)"
| "FAILURES F_Redirect_Loop = (Website, False)"
| "FAILURES F_Unreachable = (Network, True)"
| "FAILURES F_Host_Not_Found = (Network, False)"
| "FAILURES F_Capacity = (Gateway, True)"
| "FAILURES F_Domain_Throttled = (Gateway, True)"
| "FAILURES F_Browser_Unavailable = (Gateway, True)"
| "FAILURES F_Deadline_Exceeded = (Gateway, True)"
| "FAILURES F_Incomplete_Content = (Content, True)"
| "FAILURES F_Interstitial = (Content, True)"
| "FAILURES F_Unsupported_Browser = (Content, False)"
| "FAILURES F_Excluded = (Content, False)"
| "FAILURES F_Unsupported_Media_Type = (Content, False)"

record failure =
  fa_code :: failure_code
  fa_category :: failure_category
  fa_transient :: bool
  fa_retry_after_seconds :: "rat option"
  fa_resolution_attempted :: "bool option"

definition failure_of :: "failure_code \<Rightarrow> rat option \<Rightarrow> bool option \<Rightarrow> failure" where
  "failure_of code retry_after attempted =
     \<lparr>fa_code = code, fa_category = fst (FAILURES code), fa_transient = snd (FAILURES code),
      fa_retry_after_seconds = retry_after, fa_resolution_attempted = attempted\<rparr>"

abbreviation plain_failure :: "failure_code \<Rightarrow> failure" where
  "plain_failure code \<equiv> failure_of code None None"

text \<open>\<open>None\<close>: a reason that is not in the table is a \<open>KeyError\<close>.\<close>

fun REASON_FAILURE :: "reason \<Rightarrow> failure_code option" where
  "REASON_FAILURE Rate_Limited = Some F_Rate_Limited"
| "REASON_FAILURE Geo_Blocked = Some F_Geo_Blocked"
| "REASON_FAILURE Unsupported_Browser = Some F_Unsupported_Browser"
| "REASON_FAILURE Interstitial = Some F_Interstitial"
| "REASON_FAILURE Auth = Some F_Access_Denied"
| "REASON_FAILURE Paywall = Some F_Paywall"
| "REASON_FAILURE Parked = Some F_Parked"
| "REASON_FAILURE Gone = Some F_Gone"
| "REASON_FAILURE Not_Found = Some F_Not_Found"
| "REASON_FAILURE Server_Error = Some F_Website_Error"
| "REASON_FAILURE _ = None"

definition from_reason :: "reason \<Rightarrow> int option \<Rightarrow> rat option \<Rightarrow> failure option" where
  "from_reason r status retry_after =
     map_option (\<lambda>code. failure_of code (if snd (FAILURES code) then retry_after else None) None)
       (if r = Client_Error
        then Some (if status = Some 401 \<or> status = Some 403 then F_Access_Denied else F_Request_Rejected)
        else REASON_FAILURE r)"

datatype outcome = Captured | Not_Captured

record capture_result =
  cr_outcome :: outcome
  cr_final_url :: string
  cr_response :: "response option"
  cr_document :: "document option"
  cr_failure :: "failure option"
  cr_attempts :: "attempt list"
  cr_browser_seconds :: rat
  cr_paid :: bool
  cr_bytes :: int

record capture_request =
  rq_url :: string
  rq_resolve_bot_challenges :: bool
  rq_accept :: "string list option"

section \<open>Media types\<close>

definition media_type :: "(string \<times> string) list \<Rightarrow> string option \<times> string option" where
  "media_type headers =
     (let value = (case find (\<lambda>(k, _). lower k = ''content-type'') headers of Some (_, v) \<Rightarrow> v | None \<Rightarrow> []);
          parts = map strip (split_on CHR '';'' value);
          charset = map_option (\<lambda>p. rstrip CHR 0x22 (dropWhile (\<lambda>c. c = CHR 0x22) (drop 1 (dropWhile (\<lambda>c. c \<noteq> CHR ''='') p))))
            (find (\<lambda>p. startswith ''charset='' (lower p)) (tl parts))
      in (if lower (hd parts) = [] then None else Some (lower (hd parts)), charset))"

definition is_json :: "string \<Rightarrow> bool" where
  "is_json mt =
     (let media = strip (hd (split_on CHR '';'' (lower mt)))
      in media \<in> {''application/json'', ''text/json''} \<or> CHR ''/'' \<in> set media \<and> endswith ''+json'' media)"

definition is_xml :: "string \<Rightarrow> bool" where
  "is_xml mt =
     (let m = lower mt
      in m \<in> {''text/xml'', ''application/xml''} \<or> endswith ''+xml'' m \<and> m \<noteq> ''application/xhtml+xml'')"

definition json_candidate :: "string \<Rightarrow> bool" where
  "json_candidate body =
     (let bom = [CHR 0xEF, CHR 0xBB, CHR 0xBF];
          b = (if startswith bom body then drop 3 body else body);
          start = dropWhile (\<lambda>c. c \<in> {CHR '' '', CHR 0x09, CHR 0x0D, CHR 0x0A}) b
      in list_ex (\<lambda>p. startswith p start) [''{'', ''['', '')]}'' @ [CHR 0x27], ''while(1);''])"

definition is_byte_space :: "char \<Rightarrow> bool" where
  "is_byte_space c = (let n = of_char c :: nat in 9 \<le> n \<and> n \<le> 13 \<or> n = 32)"

definition sniffed_media_type :: "bool \<Rightarrow> string \<Rightarrow> string" where
  "sniffed_media_type sniffs_json body =
     (if sniffs_json then ''application/json''
      else let start = map (\<lambda>c. if is_ascii c then lower_char c else c) (dropWhile is_byte_space (take 512 body))
           in if startswith ''<!doctype html'' start \<or> startswith ''<html'' start then ''text/html''
              else if startswith ''<?xml'' start then ''application/xml''
              else ''application/octet-stream'')"

definition token :: "string \<Rightarrow> bool" where
  "token s \<longleftrightarrow> s \<noteq> [] \<and> list_all (\<lambda>c. is_alnum c \<and> lower_char c = c \<or> c \<in> set ''!#$&^_.+-'') s
     \<and> is_alnum (hd s) \<and> lower_char (hd s) = hd s"

definition media_range :: "string \<Rightarrow> (string \<times> string) option" where
  "media_range entry =
     (let family = takeWhile (\<lambda>c. c \<noteq> CHR ''/'') entry;
          subtype = drop 1 (dropWhile (\<lambda>c. c \<noteq> CHR ''/'') entry)
      in if (family = ''*'' \<or> token family) \<and> startswith ''*+'' subtype \<and> token (drop 2 subtype) then Some (family, drop 1 subtype) else None)"

text \<open>Entries of a request's accept list are media types or suffix ranges.\<close>

definition accepts :: "string list option \<Rightarrow> string \<Rightarrow> bool" where
  "accepts accept mt =
     (case accept of
        None \<Rightarrow> True
      | Some entries \<Rightarrow>
          mt \<in> set entries
          \<or> list_ex (\<lambda>entry. case media_range entry of
                None \<Rightarrow> False
              | Some (family, suffix) \<Rightarrow>
                  let f = takeWhile (\<lambda>c. c \<noteq> CHR ''/'') mt;
                      subtype = drop 1 (dropWhile (\<lambda>c. c \<noteq> CHR ''/'') mt)
                  in (family = ''*'' \<or> family = f) \<and> endswith suffix subtype \<and> length subtype > length suffix) entries)"

section \<open>What a capture waits for\<close>

record http_response =
  hp_final_url :: string
  hp_status_code :: int
  hp_headers :: "(string \<times> string) list"
  hp_body :: string
  hp_redirects :: "(int \<times> string \<times> string) list"
  hp_truncated :: bool
  hp_retry_after :: "rat option"

datatype fetch_outcome =
    Fetched http_response
  | Fetch_Error
  | Host_Not_Found
  | Redirect_Loop
  | Excluded_Url
  | Unsupported_Media http_response string

record browser_tier =
  bt_tier :: tier_name
  bt_paid :: bool
  bt_proxied :: bool

text \<open>A rendered page, with what parsing it gives: its page facts and its block page, if it is one.\<close>

record rendered =
  rd_status :: "int option"
  rd_final_url :: "string option"
  rd_html :: string
  rd_lines :: "string list"
  rd_error :: "string option"
  rd_excluded_url :: "string option"
  rd_seconds :: rat
  rd_bytes :: int
  rd_headers :: "(string \<times> string) list"
  rd_retry_after :: "rat option"
  rd_chars :: "int option"
  rd_mount :: bool
  rd_pending :: bool
  rd_page :: page
  rd_main_words :: int
  rd_content_words :: int
  rd_block :: "string option"

text \<open>The empty string and the status 0 count as absent.\<close>

definition non_empty :: "string option \<Rightarrow> string option" where
  "non_empty u = (if u = Some [] then None else u)"

definition non_zero :: "int option \<Rightarrow> int option" where
  "non_zero n = (if n = Some 0 then None else n)"

text \<open>A browser tier renders, or it tried and the protection held, or it is busy, timed out or unavailable.
  A failure takes some seconds.\<close>

datatype render_outcome =
    Page_Rendered rendered
  | Challenge_Not_Passed rat
  | Browser_Busy rat "rat option"
  | Render_Timeout rat
  | Render_Error rat

text \<open>\<open>Raised_Outside\<close> is an error of the fetcher, the classifier or the method cache that a capture does not
  expect, such as a database error of the cache: nothing catches it.\<close>

datatype capture_error = Attribute_Error | Key_Error | Raised_Outside | Out_Of_Fuel

datatype prog =
    Finished "capture_error + capture_result"
  | Await_Fetch capture_result "fetch_outcome \<Rightarrow> prog"
  | Await_Verdict capture_result "verdict \<Rightarrow> prog"
  | Await_Cache capture_result "cache_decision option \<times> bool \<Rightarrow> prog"
  | Check_Time "bool \<Rightarrow> prog"
  | Await_Render capture_result browser_tier "render_outcome \<Rightarrow> prog"
  | Await_Record capture_result bool prog

text \<open>Tiers and thresholds, and the functions of parsed pages the service calls: the rules, the kind of
  block page a response is, the words of its plain text, the share of the rendered content it already has,
  and whether a body is JSON.\<close>

record service =
  sv_managed :: "browser_tier option"
  sv_local_resolution :: "browser_tier option"
  sv_challenge_resolution :: "browser_tier option"
  sv_sufficient_coverage :: rat
  sv_rules :: rules
  sv_block_page :: "http_response \<Rightarrow> string option"
  sv_plain_words :: "http_response \<Rightarrow> int"
  sv_coverage :: "http_response \<Rightarrow> rendered \<Rightarrow> rat"
  sv_sniff_json :: "string \<Rightarrow> bool"

section \<open>Building the result\<close>

definition add_attempt :: "attempt \<Rightarrow> capture_result \<Rightarrow> capture_result" where
  "add_attempt a r = r\<lparr>cr_attempts := cr_attempts r @ [a]\<rparr>"

definition change_last :: "(attempt \<Rightarrow> attempt) \<Rightarrow> capture_result \<Rightarrow> capture_result" where
  "change_last f r = r\<lparr>cr_attempts := butlast (cr_attempts r) @ map f (drop (length (cr_attempts r) - 1) (cr_attempts r))\<rparr>"

definition decided :: "decision \<Rightarrow> capture_result \<Rightarrow> capture_result" where
  "decided d r = change_last (\<lambda>a. a\<lparr>at_decision := d\<rparr>) r"

definition decided_by :: "decision \<Rightarrow> decision_code \<Rightarrow> capture_result \<Rightarrow> capture_result" where
  "decided_by d c r = change_last (\<lambda>a. a\<lparr>at_decision := d, at_reason_code := c\<rparr>) r"

definition fails :: "failure \<Rightarrow> document option \<Rightarrow> capture_result \<Rightarrow> prog" where
  "fails f doc r = Finished (Inr (r\<lparr>cr_document := doc, cr_failure := Some f\<rparr>))"

definition captured :: "document \<Rightarrow> capture_result \<Rightarrow> prog" where
  "captured doc r = Finished (Inr (r\<lparr>cr_outcome := Captured, cr_document := Some doc, cr_failure := None\<rparr>))"

definition seen_response :: "http_response \<Rightarrow> capture_result \<Rightarrow> capture_result" where
  "seen_response http r = r\<lparr>cr_final_url := hp_final_url http,
     cr_response := Some \<lparr>rs_status_code = hp_status_code http, rs_headers = hp_headers http, rs_redirects = hp_redirects http\<rparr>\<rparr>"

definition no_response_attempt :: "reason option \<Rightarrow> attempt" where
  "no_response_attempt p = \<lparr>at_path = Http_Path, at_tier = Direct, at_status_code = None, at_assessment = only_primary p,
     at_decision = Fail, at_reason_code = C_Acquisition, at_comparison = None, at_final_url = None, at_retry_after_seconds = None\<rparr>"

definition http_attempt :: "http_response \<Rightarrow> assessment \<Rightarrow> decision \<Rightarrow> decision_code \<Rightarrow> attempt" where
  "http_attempt http assess d c = \<lparr>at_path = Http_Path, at_tier = Direct, at_status_code = Some (hp_status_code http),
     at_assessment = assess, at_decision = d, at_reason_code = c, at_comparison = None,
     at_final_url = Some (hp_final_url http), at_retry_after_seconds = hp_retry_after http\<rparr>"

definition failed_browser_attempt :: "browser_tier \<Rightarrow> int option \<Rightarrow> reason option \<Rightarrow> attempt" where
  "failed_browser_attempt t status p = \<lparr>at_path = Browser_Path, at_tier = bt_tier t, at_status_code = status,
     at_assessment = only_primary p, at_decision = Fail, at_reason_code = C_Acquisition, at_comparison = None,
     at_final_url = None, at_retry_after_seconds = None\<rparr>"

definition assessment_of :: "verdict \<Rightarrow> assessment" where
  "assessment_of v =
     \<lparr>as_primary = vd_reason v,
      as_reasons = map (\<lambda>c. (c, case map_of (vd_flags v) c of Some f \<Rightarrow> fg_confidence f | None \<Rightarrow> 0)) (true_reasons (vd_flags v)),
      as_completeness = (if \<not> vd_rejected v then Some Complete
        else if vd_reason v = Some Partial then Some Incomplete
        else if vd_reason v = Some App_Shell then Some Empty else None),
      as_confidence = Some (vd_confidence v)\<rparr>"

definition http_document :: "service \<Rightarrow> http_response \<Rightarrow> document" where
  "http_document sv http =
     (let (mt, charset) = media_type (hp_headers http);
          mt' = (if mt = Some ''text/plain'' \<and> sv_sniff_json sv (hp_body http) then Some ''application/json'' else mt)
      in \<lparr>do_representation = Response_Body,
          do_media_type = (case mt' of Some m \<Rightarrow> m | None \<Rightarrow> sniffed_media_type (sv_sniff_json sv (hp_body http)) (hp_body http)),
          do_charset = charset, do_body = hp_body http\<rparr>)"

section \<open>Challenge resolution\<close>

definition used_tiers :: "capture_result \<Rightarrow> tier_name set" where
  "used_tiers r = at_tier ` set (cr_attempts r)"

definition may_resolve :: "service \<Rightarrow> capture_request \<Rightarrow> string option \<Rightarrow> bool" where
  "may_resolve sv rq block =
     (rq_resolve_bot_challenges rq
      \<and> (case sv_challenge_resolution sv of None \<Rightarrow> False | Some t \<Rightarrow> block \<noteq> None \<longrightarrow> bt_proxied t))"

definition next_resolution :: "service \<Rightarrow> capture_request \<Rightarrow> capture_result \<Rightarrow> string option \<Rightarrow> browser_tier option" where
  "next_resolution sv rq r block =
     (if \<not> rq_resolve_bot_challenges rq then None
      else if sv_local_resolution sv \<noteq> None \<and> Local_Resolution \<notin> used_tiers r then sv_local_resolution sv
      else if Challenge_Resolution \<in> used_tiers r then None
      else if may_resolve sv rq block then sv_challenge_resolution sv else None)"

definition resolution_attempted :: "capture_result \<Rightarrow> bool" where
  "resolution_attempted r \<longleftrightarrow> list_ex (\<lambda>a. at_tier a \<in> {Local_Resolution, Challenge_Resolution}) (cr_attempts r)"

definition bot_failure :: "string option \<Rightarrow> bool \<Rightarrow> failure" where
  "bot_failure block attempted = failure_of (if block \<noteq> None then F_Bot_Blocked else F_Bot_Challenge) None (Some attempted)"

definition unverified_http :: "document option \<Rightarrow> capture_result \<Rightarrow> prog" where
  "unverified_http http_doc r = fails (plain_failure F_Incomplete_Content) http_doc r"

definition record_failed_render :: "browser_tier \<Rightarrow> rat \<Rightarrow> bool \<Rightarrow> capture_result \<Rightarrow> capture_result" where
  "record_failed_render t seconds acquired r =
     (if acquired then r\<lparr>cr_browser_seconds := cr_browser_seconds r + seconds, cr_paid := (cr_paid r \<or> bt_paid t)\<rparr> else r)"

section \<open>Rendered pages\<close>

definition MIN_RENDERED_CHARS :: int where "MIN_RENDERED_CHARS = 200"

definition assess_rendered :: "service \<Rightarrow> rendered \<Rightarrow> assessment" where
  "assess_rendered sv rd =
     (let fs = fst (evaluate (sv_rules sv) None (rd_page rd));
          reasons = map (\<lambda>(c, f). (c, fg_confidence f)) (filter (\<lambda>(c, f). fg_value f \<and> c \<noteq> Payload_Mismatch) fs);
          chars = (case rd_chars rd of Some n \<Rightarrow> n | None \<Rightarrow> int (length (join_on CHR '' '' (rd_lines rd))));
          empty = (chars < MIN_RENDERED_CHARS \<or> rd_mount rd
                   \<or> rd_main_words rd = 0 \<and> rd_content_words rd < 5 \<and> pg_words (rd_page rd) \<ge> 20)
      in \<lparr>as_primary = (case reasons of [] \<Rightarrow> None | (c, _) # _ \<Rightarrow> Some c), as_reasons = reasons,
          as_completeness = Some (if empty then Empty else Complete),
          as_confidence = Some (if rd_pending rd then 3/4 else 9/10)\<rparr>)"

definition proxy_failure :: "string \<Rightarrow> bool" where
  "proxy_failure s =
     (let caps = (\<lambda>c. is_alnum c \<and> \<not> is_digit c \<and> lower_char c \<noteq> c \<or> c = CHR ''_'')
      in contains ''ERR_TUNNEL_CONNECTION_FAILED'' s \<or> contains_then ''ERR_PROXY_'' caps s \<or> contains_then ''ERR_SOCKS_'' caps s)"

definition site_unreachable :: "string \<Rightarrow> bool" where
  "site_unreachable s = list_ex (\<lambda>p. contains_word p s)
     [''ERR_CONNECTION_REFUSED'', ''ERR_CONNECTION_RESET'', ''ERR_CONNECTION_CLOSED'', ''ERR_CONNECTION_TIMED_OUT'',
      ''ERR_CONNECTION_FAILED'', ''ERR_ADDRESS_UNREACHABLE'', ''ERR_NAME_NOT_RESOLVED'', ''ERR_EMPTY_RESPONSE'']"

definition BROWSER_REFUSED :: "reason list" where
  "BROWSER_REFUSED = [Client_Error, Server_Error, Rate_Limited]"

text \<open>Everything about one request that does not change while it is rendered.\<close>

record render_job =
  jb_service :: service
  jb_request :: capture_request
  jb_http :: http_response
  jb_http_doc :: "document option"
  jb_http_usable :: bool

type_synonym again = "browser_tier \<Rightarrow> capture_result \<Rightarrow> prog"

definition local_fallback :: "again \<Rightarrow> render_job \<Rightarrow> browser_tier \<Rightarrow> capture_result \<Rightarrow> prog option" where
  "local_fallback again j t r =
     (if bt_tier t \<noteq> Local_Resolution then None
      else map_option (\<lambda>t'. again t' (decided Escalate r))
             (next_resolution (jb_service j) (jb_request j) r (sv_block_page (jb_service j) (jb_http j))))"

definition or_else :: "prog option \<Rightarrow> prog \<Rightarrow> prog" where
  "or_else p q = (case p of Some x \<Rightarrow> x | None \<Rightarrow> q)"

definition render_attempt :: "render_job \<Rightarrow> browser_tier \<Rightarrow> rendered \<Rightarrow> assessment \<Rightarrow> attempt" where
  "render_attempt j t rd assess = \<lparr>at_path = Browser_Path, at_tier = bt_tier t, at_status_code = rd_status rd,
     at_assessment = assess, at_decision = Accept,
     at_reason_code = (if as_primary assess \<noteq> None then C_Assessment else C_Acquisition), at_comparison = None,
     at_final_url = Some (case non_empty (rd_final_url rd) of Some u \<Rightarrow> u | None \<Rightarrow> rq_url (jb_request j)),
     at_retry_after_seconds = rd_retry_after rd\<rparr>"

definition rendered_document :: "rendered \<Rightarrow> document" where
  "rendered_document rd = \<lparr>do_representation = Rendered_Html, do_media_type = ''text/html'', do_charset = Some ''utf-8'', do_body = rd_html rd\<rparr>"

text \<open>The render gave no page.\<close>

definition render_failed :: "again \<Rightarrow> render_job \<Rightarrow> browser_tier \<Rightarrow> rendered \<Rightarrow> capture_result \<Rightarrow> prog" where
  "render_failed again j t rd r =
     (let err = (case rd_error rd of Some e \<Rightarrow> if e = [] then ''no page content could be read'' else e
                 | None \<Rightarrow> ''no page content could be read'');
          r1 = decided Fail r;
          nav = startswith ''navigation failed'' err
      in or_else (local_fallback again j t r1)
           (if bt_tier t = Challenge_Resolution \<and> nav \<and> \<not> proxy_failure err
            then fails (bot_failure (Some ''connection refused'') True) (jb_http_doc j) r1
            else if nav \<and> site_unreachable err
            then fails (plain_failure F_Unreachable) (jb_http_doc j) r1
            else fails (plain_failure (if contains ''Timeout'' err then F_Deadline_Exceeded else F_Browser_Unavailable))
                   (jb_http_doc j) r1))"

definition render_compared :: "render_job \<Rightarrow> browser_tier \<Rightarrow> rendered \<Rightarrow> capture_result \<Rightarrow> prog" where
  "render_compared j t rd r =
     (let share = (if hp_body (jb_http j) \<noteq> [] then sv_coverage (jb_service j) (jb_http j) rd else 0);
          sufficient = (jb_http_usable j \<and> share \<ge> sv_sufficient_coverage (jb_service j));
          r1 = change_last (\<lambda>a. a\<lparr>at_reason_code := C_Content_Comparison,
                  at_comparison := Some (of_int (py_round (share * 1000)) / 1000, sufficient)\<rparr>) r
      in Await_Record r sufficient
           (if sufficient
            then (case jb_http_doc j of
                    Some d \<Rightarrow> captured d r1
                  | None \<Rightarrow> Finished (Inr (r1\<lparr>cr_outcome := Captured, cr_document := None, cr_failure := None\<rparr>)))
            else captured (rendered_document rd)
                   (r1\<lparr>cr_final_url := (case non_empty (rd_final_url rd) of Some u \<Rightarrow> u | None \<Rightarrow> cr_final_url r1),
                       cr_response := (case non_zero (rd_status rd) of
                          Some st \<Rightarrow> Some \<lparr>rs_status_code = st, rs_headers = rd_headers rd, rs_redirects = []\<rparr>
                        | None \<Rightarrow> cr_response r1)\<rparr>)))"

definition render_assessed :: "again \<Rightarrow> render_job \<Rightarrow> browser_tier \<Rightarrow> rendered \<Rightarrow> assessment \<Rightarrow> capture_result \<Rightarrow> prog" where
  "render_assessed again j t rd assess r =
     (case as_primary assess of
        Some p \<Rightarrow>
          if p = Bot_Challenge then
            (case next_resolution (jb_service j) (jb_request j) r (rd_block rd) of
               Some t' \<Rightarrow> again t' (decided Escalate r)
             | None \<Rightarrow> fails (bot_failure (rd_block rd) (resolution_attempted r)) (jb_http_doc j) (decided Fail r))
          else if p \<in> set BROWSER_REFUSED \<and> jb_http_usable j then unverified_http (jb_http_doc j) (decided Fail r)
          else
            (case from_reason p (rd_status rd) (rd_retry_after rd) of
               None \<Rightarrow> Finished (Inl Key_Error)
             | Some f \<Rightarrow>
                 fails f (Some (rendered_document rd))
                   ((decided Fail r)\<lparr>cr_final_url := (case non_empty (rd_final_url rd) of Some u \<Rightarrow> u | None \<Rightarrow> rq_url (jb_request j)),
                      cr_response := Some \<lparr>rs_status_code = (case non_zero (rd_status rd) of Some st \<Rightarrow> st | None \<Rightarrow> 200),
                        rs_headers = rd_headers rd, rs_redirects = []\<rparr>\<rparr>))
      | None \<Rightarrow>
          if as_completeness assess = Some Empty then
            (if jb_http_usable j \<and> sv_plain_words (jb_service j) (jb_http j) \<ge> 5
             then unverified_http (jb_http_doc j) (decided Fail r)
             else if jb_http_usable j \<and> (case rd_chars rd of Some n \<Rightarrow> n | None \<Rightarrow> 0) \<ge> 20
             then captured (rendered_document rd) (decided Accept r)
             else fails (plain_failure F_Incomplete_Content) (Some (rendered_document rd)) (decided Fail r))
          else render_compared j t rd r)"

definition render_page :: "again \<Rightarrow> render_job \<Rightarrow> browser_tier \<Rightarrow> rendered \<Rightarrow> capture_result \<Rightarrow> prog" where
  "render_page again j t rd r =
     (let r1 = r\<lparr>cr_browser_seconds := cr_browser_seconds r + rd_seconds rd, cr_bytes := cr_bytes r + rd_bytes rd,
                cr_paid := (cr_paid r \<or> bt_paid t)\<rparr>
      in case non_empty (rd_excluded_url rd) of
           Some u \<Rightarrow>
             fails (plain_failure F_Excluded) None
               ((add_attempt (failed_browser_attempt t (rd_status rd) None) r1)\<lparr>cr_final_url := u\<rparr>)
         | None \<Rightarrow>
             let assess = assess_rendered (jb_service j) rd;
                 r2 = add_attempt (render_attempt j t rd assess) r1
             in if rd_html rd = [] \<or> (rd_error rd \<noteq> None \<and> rd_error rd \<noteq> Some [] \<and> rd_lines rd = [])
                then render_failed again j t rd r2
                else render_assessed again j t rd assess r2)"

definition no_browser :: "again \<Rightarrow> render_job \<Rightarrow> browser_tier \<Rightarrow> reason option \<Rightarrow> rat \<Rightarrow> bool \<Rightarrow> failure \<Rightarrow> capture_result \<Rightarrow> prog" where
  "no_browser again j t p seconds acquired f r =
     (let r1 = record_failed_render t seconds acquired (add_attempt (failed_browser_attempt t None p) r)
      in or_else (local_fallback again j t r1) (fails f (jb_http_doc j) r1))"

definition render_step :: "again \<Rightarrow> render_job \<Rightarrow> browser_tier \<Rightarrow> capture_result \<Rightarrow> prog" where
  "render_step again j t r =
     Check_Time (\<lambda>enough.
       if \<not> enough then fails (plain_failure F_Deadline_Exceeded) (jb_http_doc j) r
       else Await_Render r t (\<lambda>ans. case ans of
           Challenge_Not_Passed s \<Rightarrow>
             no_browser again j t (Some Bot_Challenge) s True
               (bot_failure (sv_block_page (jb_service j) (jb_http j)) True) r
         | Browser_Busy s retry_after \<Rightarrow> no_browser again j t None s False (failure_of F_Capacity retry_after None) r
         | Render_Timeout s \<Rightarrow> no_browser again j t None s True (plain_failure F_Deadline_Exceeded) r
         | Render_Error s \<Rightarrow> no_browser again j t None s True (plain_failure F_Browser_Unavailable) r
         | Page_Rendered rd \<Rightarrow> render_page again j t rd r))"

text \<open>The renderer calls itself for the next tier; the tiers of a capture differ, so it is entered at
  most three times.\<close>

fun render :: "nat \<Rightarrow> render_job \<Rightarrow> again" where
  "render 0 j t r = Finished (Inl Out_Of_Fuel)"
| "render (Suc n) j t r = render_step (render n j) j t r"

section \<open>Plain HTTP\<close>

definition json_response :: "http_response \<Rightarrow> document \<Rightarrow> capture_result \<Rightarrow> prog" where
  "json_response http doc r =
     (let r1 = add_attempt (http_attempt http (only_primary None) Accept C_Media_Type) r;
          st = hp_status_code http
      in if \<not> (200 \<le> st \<and> st < 300) then
           (let why = (if st = 429 then Rate_Limited else if st = 404 then Not_Found else if st = 410 then Gone
                       else if st \<ge> 500 then Server_Error else Client_Error)
            in case from_reason why (Some st) (hp_retry_after http) of
                 None \<Rightarrow> Finished (Inl Key_Error)
               | Some f \<Rightarrow> fails f (cr_document r1) (decided Fail r1))
         else if list_all is_byte_space (hp_body http) then
           fails (plain_failure F_Incomplete_Content) None (decided Fail r1)
         else captured doc (change_last (\<lambda>a. a\<lparr>at_assessment := (at_assessment a)\<lparr>as_completeness := Some Complete\<rparr>\<rparr>) r1))"

definition unsupported :: "http_response \<Rightarrow> capture_result \<Rightarrow> prog" where
  "unsupported http r =
     fails (plain_failure F_Unsupported_Media_Type) (cr_document r)
       (add_attempt (http_attempt http (only_primary None) Fail C_Media_Type) (seen_response http r))"

definition too_large :: "service \<Rightarrow> capture_request \<Rightarrow> http_response \<Rightarrow> capture_result \<Rightarrow> prog" where
  "too_large sv rq http r =
     (let r0 = seen_response http r;
          r1 = add_attempt (http_attempt http (only_primary None) Escalate C_Acquisition)
                 (r0\<lparr>cr_bytes := cr_bytes r0 + int (length (hp_body http))\<rparr>)
      in if hp_status_code http = 429 then
           (case from_reason Rate_Limited (Some 429) (hp_retry_after http) of
              None \<Rightarrow> Finished (Inl Key_Error)
            | Some f \<Rightarrow>
                fails f (cr_document r1)
                  (change_last (\<lambda>a. a\<lparr>at_assessment := (only_primary (Some Rate_Limited))\<lparr>as_reasons := [(Rate_Limited, 1)]\<rparr>,
                     at_decision := Fail\<rparr>) r1))
         else
           (case fst (media_type (hp_headers http)) of
              None \<Rightarrow> Finished (Inl Attribute_Error)
            | Some declared \<Rightarrow>
                if is_json declared \<or> is_xml declared \<or> declared = ''text/plain'' \<and> json_candidate (hp_body http)
                then fails (plain_failure F_Incomplete_Content) (cr_document r1) (decided_by Fail C_Media_Type r1)
                else
                  (case sv_managed sv of
                     None \<Rightarrow> fails (plain_failure F_Browser_Unavailable) (cr_document r1) (decided Fail r1)
                   | Some t \<Rightarrow>
                       render 3 \<lparr>jb_service = sv, jb_request = rq, jb_http = http, jb_http_doc = None, jb_http_usable = False\<rparr> t r1)))"

definition ESCALATE_TO_BROWSER :: "reason list" where
  "ESCALATE_TO_BROWSER = RENDER_NEED @ [Interstitial]"

definition challenge :: "service \<Rightarrow> capture_request \<Rightarrow> http_response \<Rightarrow> document \<Rightarrow> capture_result \<Rightarrow> prog" where
  "challenge sv rq http doc r =
     (let block = sv_block_page sv http
      in case next_resolution sv rq r block of
           Some t \<Rightarrow>
             render 3 \<lparr>jb_service = sv, jb_request = rq, jb_http = http, jb_http_doc = Some doc, jb_http_usable = False\<rparr> t
               (decided Escalate r)
         | None \<Rightarrow> fails (bot_failure block (resolution_attempted r)) (Some doc) (decided Fail r))"

definition usable_response :: "service \<Rightarrow> capture_request \<Rightarrow> http_response \<Rightarrow> document \<Rightarrow> capture_result \<Rightarrow> prog" where
  "usable_response sv rq http doc r =
     Await_Cache r (\<lambda>(cached, skip_canary).
       case (cached, skip_canary) of
         (Some Cache_Url, True) \<Rightarrow> captured doc (decided_by Accept C_Cache_Url r)
       | (Some Cache_Pattern, True) \<Rightarrow> captured doc (decided_by Accept C_Cache_Pattern r)
       | _ \<Rightarrow>
           (case sv_managed sv of
              None \<Rightarrow> fails (plain_failure F_Browser_Unavailable) (Some doc) (decided Fail r)
            | Some t \<Rightarrow>
                render 3 \<lparr>jb_service = sv, jb_request = rq, jb_http = http, jb_http_doc = Some doc, jb_http_usable = True\<rparr> t
                  (decided_by Escalate (if cached \<noteq> None then C_Canary else C_Verify_Http) r)))"

definition classified :: "service \<Rightarrow> capture_request \<Rightarrow> http_response \<Rightarrow> document \<Rightarrow> verdict \<Rightarrow> capture_result \<Rightarrow> prog" where
  "classified sv rq http doc v r =
     (let r1 = add_attempt (http_attempt http (assessment_of v) Accept
                 (if vd_reason v \<noteq> None then C_Assessment else C_Acquisition)) r
      in case vd_reason v of
           None \<Rightarrow>
             if is_xml (do_media_type doc) then captured doc (decided_by Accept C_Media_Type r1)
             else usable_response sv rq http doc r1
         | Some p \<Rightarrow>
             if p \<in> set ESCALATE_TO_BROWSER \<and> is_xml (do_media_type doc)
             then captured doc (decided_by Accept C_Media_Type r1)
             else if p = Payload_Mismatch then
               (if \<not> list_all is_byte_space (hp_body http) then captured doc (decided_by Accept C_Media_Type r1)
                else fails (plain_failure F_Incomplete_Content) None (decided Fail r1))
             else if p = Bot_Challenge then challenge sv rq http doc r1
             else if p \<in> set ESCALATE_TO_BROWSER then
               (case sv_managed sv of
                  None \<Rightarrow> fails (plain_failure F_Browser_Unavailable) (Some doc) (decided Fail r1)
                | Some t \<Rightarrow>
                    render 3 \<lparr>jb_service = sv, jb_request = rq, jb_http = http, jb_http_doc = Some doc, jb_http_usable = False\<rparr> t
                      (decided Escalate r1))
             else
               (case from_reason p (Some (hp_status_code http)) (hp_retry_after http) of
                  None \<Rightarrow> Finished (Inl Key_Error)
                | Some f \<Rightarrow> fails f (Some doc) (decided Fail r1)))"

definition fetched_response :: "service \<Rightarrow> capture_request \<Rightarrow> http_response \<Rightarrow> capture_result \<Rightarrow> prog" where
  "fetched_response sv rq http r =
     (if hp_truncated http then too_large sv rq http r
      else
        let doc = http_document sv http;
            st = hp_status_code http;
            r1 = seen_response http (r\<lparr>cr_document := Some doc\<rparr>)
        in if 200 \<le> st \<and> st < 300 \<and> \<not> accepts (rq_accept rq) (do_media_type doc) then unsupported http r1
           else
             let r2 = r1\<lparr>cr_bytes := cr_bytes r1 + int (length (hp_body http))\<rparr>
             in if is_json (do_media_type doc) then json_response http doc r2
                else Await_Verdict r2 (\<lambda>v. classified sv rq http doc v r2))"

definition acquire :: "service \<Rightarrow> capture_request \<Rightarrow> capture_result \<Rightarrow> prog" where
  "acquire sv rq r =
     Await_Fetch r (\<lambda>ans. case ans of
         Fetch_Error \<Rightarrow>
           fails (plain_failure F_Unreachable) (cr_document r) (add_attempt (no_response_attempt (Some Unreachable)) r)
       | Host_Not_Found \<Rightarrow>
           fails (plain_failure F_Host_Not_Found) (cr_document r) (add_attempt (no_response_attempt (Some Unreachable)) r)
       | Redirect_Loop \<Rightarrow>
           fails (plain_failure F_Redirect_Loop) (cr_document r) (add_attempt (no_response_attempt (Some Unreachable)) r)
       | Excluded_Url \<Rightarrow>
           fails (plain_failure F_Excluded) (cr_document r) (add_attempt (no_response_attempt None) r)
       | Unsupported_Media http m \<Rightarrow> unsupported http r
       | Fetched http \<Rightarrow> fetched_response sv rq http r)"

section \<open>A capture\<close>

definition new_result :: "capture_request \<Rightarrow> capture_result" where
  "new_result rq = \<lparr>cr_outcome = Not_Captured, cr_final_url = rq_url rq, cr_response = None, cr_document = None,
     cr_failure = None, cr_attempts = [], cr_browser_seconds = 0, cr_paid = False, cr_bytes = 0\<rparr>"

definition deadline_expired :: "capture_result \<Rightarrow> capture_result" where
  "deadline_expired r =
     (decided_by Fail C_Acquisition r)\<lparr>cr_failure := Some (plain_failure F_Deadline_Exceeded)\<rparr>"

text \<open>How a wait ends: with an answer, with the deadline (or another \<open>TimeoutError\<close>), or with an error that
  nothing catches. A browser tier has no such error, because every error of a tier is an answer of it, a failed
  render. The number of answers given so far tells the calls apart.\<close>

datatype 'a reply = Answer 'a | Expired | Raises

record answers =
  an_fetch :: "fetch_outcome reply"
  an_verdict :: "verdict reply"
  an_cache :: "(cache_decision option \<times> bool) reply"
  an_time :: "nat \<Rightarrow> bool"
  an_render :: "nat \<Rightarrow> browser_tier \<Rightarrow> render_outcome option"
  an_record :: "unit reply"

primrec run :: "answers \<Rightarrow> prog \<Rightarrow> nat \<Rightarrow> capture_error + capture_result" where
  "run an (Finished x) n = x"
| "run an (Await_Fetch r k) n = (case an_fetch an of Answer x \<Rightarrow> run an (k x) (Suc n) | Expired \<Rightarrow> Inr (deadline_expired r) | Raises \<Rightarrow> Inl Raised_Outside)"
| "run an (Await_Verdict r k) n = (case an_verdict an of Answer v \<Rightarrow> run an (k v) (Suc n) | Expired \<Rightarrow> Inr (deadline_expired r) | Raises \<Rightarrow> Inl Raised_Outside)"
| "run an (Await_Cache r k) n =
     (case an_cache an of Answer x \<Rightarrow> run an (k x) (Suc n) | Expired \<Rightarrow> Inr (deadline_expired r) | Raises \<Rightarrow> Inl Raised_Outside)"
| "run an (Check_Time k) n = run an (k (an_time an n)) (Suc n)"
| "run an (Await_Render r t k) n =
     (case an_render an n t of Some x \<Rightarrow> run an (k x) (Suc n) | None \<Rightarrow> Inr (deadline_expired r))"
| "run an (Await_Record r s p) n = 
     (case an_record an of Answer _ \<Rightarrow> run an p (Suc n) | Expired \<Rightarrow> Inr (deadline_expired r) | Raises \<Rightarrow> Inl Raised_Outside)"

text \<open>A document in a media type the caller does not store is dropped from a failure.\<close>

definition filter_document :: "capture_request \<Rightarrow> capture_result \<Rightarrow> capture_result" where
  "filter_document rq r =
     (case cr_document r of
        Some d \<Rightarrow>
          if do_representation d = Response_Body \<and> \<not> accepts (rq_accept rq) (do_media_type d)
          then r\<lparr>cr_document := None\<rparr> else r
      | None \<Rightarrow> r)"

definition capture :: "service \<Rightarrow> capture_request \<Rightarrow> answers \<Rightarrow> capture_error + capture_result" where
  "capture sv rq an = map_sum id (filter_document rq) (run an (acquire sv rq (new_result rq)) 0)"

end
