(* ===== verification/Capture_Proofs.thy ===== *)
theory Capture_Proofs
  imports Capture_Service
begin

text \<open>
  What a capture guarantees whatever the fetcher, the classifier, the cache, the clock and the browsers
  answer and wherever the deadline expires: resolution tiers only on request, each tier at most once, local
  before paid; a result that is either captured on evidence or failed with a failure of the contract; and no
  uncaught error except in two situations that are named.
\<close>

section \<open>All ends of a program\<close>

primrec always :: "(capture_error + capture_result \<Rightarrow> bool) \<Rightarrow> prog \<Rightarrow> bool" where
  "always P (Finished x) \<longleftrightarrow> P x"
| "always P (Await_Fetch r k) \<longleftrightarrow> P (Inr (deadline_expired r)) \<and> (\<forall>x. always P (k x))"
| "always P (Await_Verdict r k) \<longleftrightarrow> P (Inr (deadline_expired r)) \<and> (\<forall>x. always P (k x))"
| "always P (Await_Cache r k) \<longleftrightarrow> P (Inr (deadline_expired r)) \<and> (\<forall>x. always P (k x))"
| "always P (Check_Time k) \<longleftrightarrow> (\<forall>x. always P (k x))"
| "always P (Await_Render r t k) \<longleftrightarrow> P (Inr (deadline_expired r)) \<and> (\<forall>x. always P (k x))"
| "always P (Await_Record r s p) \<longleftrightarrow> P (Inr (deadline_expired r)) \<and> always P p"

text \<open>An error of the fetcher, the classifier or the method cache, and a capture that ends with it.\<close>

definition raises :: "answers \<Rightarrow> bool" where
  "raises an \<longleftrightarrow> an_fetch an = Raises \<or> an_verdict an = Raises \<or> an_cache an = Raises \<or> an_record an = Raises"

definition escaped :: "answers \<Rightarrow> capture_error + capture_result \<Rightarrow> bool" where
  "escaped an x \<longleftrightarrow> x = Inl Raised_Outside \<and> raises an"

lemma raises_intros:
  "an_fetch an = Raises \<Longrightarrow> raises an" "an_verdict an = Raises \<Longrightarrow> raises an" "an_cache an = Raises \<Longrightarrow> raises an"
  "an_record an = Raises \<Longrightarrow> raises an"
  by (simp_all add: raises_def)

lemma run_always_unless: "always P p \<Longrightarrow> P (run an p n) \<or> escaped an (run an p n)"
  by (induction p arbitrary: n) (auto simp: escaped_def raises_intros split: option.split prod.split reply.split)

lemma run_always: "always P p \<Longrightarrow> P (Inl Raised_Outside) \<Longrightarrow> P (run an p n)"
  using run_always_unless [of P p an n] by (auto simp: escaped_def)

section \<open>Invariants of the result object\<close>

definition tiers_of :: "capture_result \<Rightarrow> tier_name list" where
  "tiers_of r = filter (\<lambda>t. t \<noteq> Direct) (map at_tier (cr_attempts r))"

definition service_ok :: "service \<Rightarrow> bool" where
  "service_ok sv \<longleftrightarrow>
     (\<forall>t. sv_managed sv = Some t \<longrightarrow> bt_tier t = Managed \<and> \<not> bt_paid t)
     \<and> (\<forall>t. sv_local_resolution sv = Some t \<longrightarrow> bt_tier t = Local_Resolution \<and> \<not> bt_paid t)
     \<and> (\<forall>t. sv_challenge_resolution sv = Some t \<longrightarrow> bt_tier t = Challenge_Resolution)"

definition tiers_ok :: "service \<Rightarrow> capture_request \<Rightarrow> capture_result \<Rightarrow> bool" where
  "tiers_ok sv rq r \<longleftrightarrow> distinct (tiers_of r)
     \<and> (set (tiers_of r) \<inter> {Local_Resolution, Challenge_Resolution} \<noteq> {} \<or> cr_paid r \<longrightarrow> rq_resolve_bot_challenges rq)
     \<and> (Challenge_Resolution \<in> set (tiers_of r) \<longrightarrow> sv_local_resolution sv \<noteq> None \<longrightarrow> Local_Resolution \<in> set (tiers_of r))"

definition evidence :: "attempt \<Rightarrow> bool" where
  "evidence a \<longleftrightarrow> at_reason_code a \<in> {C_Cache_Url, C_Cache_Pattern, C_Media_Type} \<or> (\<exists>c. at_comparison a = Some (c, True))"

definition consistent :: "capture_result \<Rightarrow> bool" where
  "consistent r \<longleftrightarrow> (case cr_failure r of
       Some f \<Rightarrow> cr_outcome r = Not_Captured \<and> (fa_category f, fa_transient f) = FAILURES (fa_code f)
     | None \<Rightarrow> cr_outcome r = Captured \<and> cr_attempts r \<noteq> [] \<and> at_decision (last (cr_attempts r)) = Accept
         \<and> (\<exists>d. cr_document r = Some d
              \<and> (do_representation d = Response_Body \<longrightarrow> evidence (last (cr_attempts r)))))"

definition open_result :: "service \<Rightarrow> capture_request \<Rightarrow> capture_result \<Rightarrow> bool" where
  "open_result sv rq r \<longleftrightarrow> tiers_ok sv rq r \<and> cr_outcome r = Not_Captured"

definition good :: "service \<Rightarrow> capture_request \<Rightarrow> capture_error + capture_result \<Rightarrow> bool" where
  "good sv rq x = (case x of Inl _ \<Rightarrow> False | Inr r \<Rightarrow> tiers_ok sv rq r \<and> consistent r)"

text \<open>The two situations in which a capture itself ends in an uncaught error.\<close>

definition oversized_without_type :: "answers \<Rightarrow> bool" where
  "oversized_without_type an \<longleftrightarrow> (\<exists>http. an_fetch an = Answer (Fetched http) \<and> hp_truncated http
     \<and> hp_status_code http \<noteq> 429 \<and> fst (media_type (hp_headers http)) = None)"

definition verdict_unreachable :: "answers \<Rightarrow> bool" where
  "verdict_unreachable an \<longleftrightarrow> (\<exists>v. an_verdict an = Answer v \<and> vd_reason v = Some Unreachable)"

section \<open>A sample capture\<close>

text \<open>A page behind a bot challenge: the classifier names the challenge, the local resolution tier fails and
  the paid one renders the page.\<close>

definition sample_http :: http_response where
  "sample_http = \<lparr>hp_final_url = ''https://a.b/'', hp_status_code = 200, hp_headers = [(''Content-Type'', ''text/html'')],
     hp_body = ''<p>'', hp_redirects = [], hp_truncated = False, hp_retry_after = None\<rparr>"

definition sample_page :: rendered where
  "sample_page = \<lparr>rd_status = Some 200, rd_final_url = None, rd_html = ''<p>x'', rd_lines = [''x''], rd_error = None,
     rd_excluded_url = None, rd_seconds = 2, rd_bytes = 9, rd_headers = [], rd_retry_after = None, rd_chars = Some 300,
     rd_mount = False, rd_pending = False,
     rd_page = sample_facts,
     rd_main_words = 60, rd_content_words = 90, rd_block = None\<rparr>"

definition sample_service :: service where
  "sample_service = \<lparr>sv_managed = Some \<lparr>bt_tier = Managed, bt_paid = False, bt_proxied = False\<rparr>,
     sv_local_resolution = Some \<lparr>bt_tier = Local_Resolution, bt_paid = False, bt_proxied = False\<rparr>,
     sv_challenge_resolution = Some \<lparr>bt_tier = Challenge_Resolution, bt_paid = True, bt_proxied = True\<rparr>,
     sv_sufficient_coverage = 9 / 10, sv_rules = (\<lambda>_ _ _. rule_flag False 1 []),
     sv_block_page = (\<lambda>_. None), sv_plain_words = (\<lambda>_. 1), sv_coverage = (\<lambda>_ _. 0), sv_sniff_json = (\<lambda>_. False)\<rparr>"

definition sample_request :: capture_request where
  "sample_request = \<lparr>rq_url = ''https://a.b/'', rq_resolve_bot_challenges = True, rq_accept = None\<rparr>"

definition sample_answers :: answers where
  "sample_answers = \<lparr>an_fetch = Answer (Fetched sample_http),
     an_verdict = Answer \<lparr>vd_rejected = True, vd_reason = Some Bot_Challenge, vd_confidence = 1, vd_flags = [], vd_notes = []\<rparr>,
     an_cache = Expired, an_time = (\<lambda>_. True),
     an_render = (\<lambda>_ t. Some (if bt_tier t = Local_Resolution then Challenge_Not_Passed 3 else Page_Rendered sample_page)),
     an_record = Answer ()\<rparr>"

lemma sample_good:
  "service_ok sample_service" "\<not> oversized_without_type sample_answers" "\<not> verdict_unreachable sample_answers"
  by (simp_all add: service_ok_def sample_service_def oversized_without_type_def verdict_unreachable_def sample_answers_def sample_http_def)


lemma lazy_awaits:
  "r = r' \<Longrightarrow> Await_Fetch r k = Await_Fetch r' k"
  "r = r' \<Longrightarrow> Await_Verdict r k1 = Await_Verdict r' k1"
  "Check_Time k2 = Check_Time k2"
  "r = r' \<Longrightarrow> t = t' \<Longrightarrow> Await_Render r t k3 = Await_Render r' t' k3"
  "r = r' \<Longrightarrow> Await_Cache r k4 = Await_Cache r' k4"
  by simp_all

lemma sample_media: "media_type [(''Content-Type'', ''text/html'')] = (Some ''text/html'', None)"
  "is_json ''text/html''= False" "is_xml ''text/html'' = False" by code_simp+

lemma sample_assessed: "assess_rendered sample_service sample_page =
   \<lparr>as_primary = None, as_reasons = [], as_completeness = Some Complete, as_confidence = Some (9/10)\<rparr>" by code_simp


lemma sample_simps:
  "an_fetch sample_answers = Answer (Fetched sample_http)"
  "an_verdict sample_answers = Answer \<lparr>vd_rejected = True, vd_reason = Some Bot_Challenge, vd_confidence = 1, vd_flags = [], vd_notes = []\<rparr>"
  "an_time sample_answers n = True" "an_record sample_answers = Answer ()"
  "an_render sample_answers n t = Some (if bt_tier t = Local_Resolution then Challenge_Not_Passed 3 else Page_Rendered sample_page)"
  "hp_truncated sample_http = False" "hp_status_code sample_http = 200" "hp_body sample_http = ''<p>''"
  "rq_accept sample_request = None" "rq_resolve_bot_challenges sample_request"
  "http_document sample_service sample_http = \<lparr>do_representation = Response_Body, do_media_type = ''text/html'', do_charset = None, do_body = ''<p>''\<rparr>"
  "sv_local_resolution sample_service = Some \<lparr>bt_tier = Local_Resolution, bt_paid = False, bt_proxied = False\<rparr>"
  "sv_challenge_resolution sample_service = Some \<lparr>bt_tier = Challenge_Resolution, bt_paid = True, bt_proxied = True\<rparr>"
  "sv_block_page sample_service h = None"
  "rd_html sample_page = ''<p>x''" "rd_error sample_page = None" "rd_excluded_url sample_page = None" "rd_status sample_page = Some 200"
  by (simp_all add: sample_answers_def sample_http_def sample_request_def http_document_def sample_service_def sample_page_def
     sample_media [unfolded sample_http_def])

lemma sample_run:
  "case capture sample_service sample_request sample_answers of
     Inr r \<Rightarrow> map at_tier (cr_attempts r) = [Direct, Local_Resolution, Challenge_Resolution] \<and> cr_paid r
       \<and> cr_failure r = None \<and> cr_outcome r = Captured
   | Inl _ \<Rightarrow> False"
  by (simp add: capture_def acquire_def new_result_def fetched_response_def sample_simps sample_media sample_assessed accepts_def Let_def
    classified_def ESCALATE_TO_BROWSER_def RENDER_NEED_def challenge_def next_resolution_def used_tiers_def add_attempt_def http_attempt_def
    seen_response_def decided_def change_last_def numeral_3_eq_3 render_step_def no_browser_def local_fallback_def or_else_def
    non_empty_def non_zero_def
    record_failed_render_def failed_browser_attempt_def may_resolve_def render_page_def render_assessed_def render_compared_def
    captured_def render_attempt_def filter_document_def rendered_document_def cong: lazy_awaits)

lemma sample_result:
  obtains r where "capture sample_service sample_request sample_answers = Inr r"
    "map at_tier (cr_attempts r) = [Direct, Local_Resolution, Challenge_Resolution]" "cr_paid r"
    "cr_failure r = None" "cr_outcome r = Captured"
proof (cases "capture sample_service sample_request sample_answers")
  case (Inr r)
  have "map at_tier (cr_attempts r) = [Direct, Local_Resolution, Challenge_Resolution] \<and> cr_paid r
    \<and> cr_failure r = None \<and> cr_outcome r = Captured"
    using sample_run unfolding Inr sum.case .
  then show ?thesis by (elim conjE) (rule that [OF Inr]; assumption)
next
  case (Inl e)
  have False using sample_run unfolding Inl sum.case .
  then show ?thesis ..
qed

section \<open>Preservation\<close>

lemma change_last_Nil: "cr_attempts r = [] \<Longrightarrow> change_last f r = r"
  by (simp add: change_last_def)

lemma change_last_snoc: "cr_attempts r = as @ [a] \<Longrightarrow> cr_attempts (change_last f r) = as @ [f a]"
  by (simp add: change_last_def)

lemma change_last_fields [simp]:
  "cr_outcome (change_last f r) = cr_outcome r" "cr_paid (change_last f r) = cr_paid r"
  "cr_document (change_last f r) = cr_document r" "cr_failure (change_last f r) = cr_failure r"
  by (simp_all add: change_last_def)

lemma change_last_tiers: "(\<And>a. at_tier (f a) = at_tier a) \<Longrightarrow> tiers_of (change_last f r) = tiers_of r"
proof (cases "cr_attempts r" rule: rev_cases)
  case (snoc as a)
  assume f: "\<And>a. at_tier (f a) = at_tier a"
  show ?thesis by (simp add: tiers_of_def change_last_snoc [OF snoc] snoc f)
qed (simp add: change_last_Nil)

lemma decided_tiers [simp]: "tiers_of (decided d r) = tiers_of r" "tiers_of (decided_by d c r) = tiers_of r"
  by (simp_all add: decided_def decided_by_def change_last_tiers)

lemma decided_fields [simp]:
  "cr_outcome (decided d r) = cr_outcome r" "cr_paid (decided d r) = cr_paid r"
  "cr_outcome (decided_by d c r) = cr_outcome r" "cr_paid (decided_by d c r) = cr_paid r"
  by (simp_all add: decided_def decided_by_def)

lemma tiers_of_updates [simp]:
  "tiers_of (r\<lparr>cr_final_url := x1\<rparr>) = tiers_of r" "tiers_of (r\<lparr>cr_response := x2\<rparr>) = tiers_of r"
  "tiers_of (r\<lparr>cr_document := x3\<rparr>) = tiers_of r" "tiers_of (r\<lparr>cr_failure := x4\<rparr>) = tiers_of r"
  "tiers_of (r\<lparr>cr_browser_seconds := x5\<rparr>) = tiers_of r" "tiers_of (r\<lparr>cr_paid := x6\<rparr>) = tiers_of r"
  "tiers_of (r\<lparr>cr_bytes := x7\<rparr>) = tiers_of r" "tiers_of (r\<lparr>cr_outcome := x8\<rparr>) = tiers_of r"
  by (simp_all add: tiers_of_def)

lemma add_attempt_simps [simp]:
  "cr_attempts (add_attempt a r) = cr_attempts r @ [a]" "cr_outcome (add_attempt a r) = cr_outcome r"
  "cr_paid (add_attempt a r) = cr_paid r"
  "tiers_of (add_attempt a r) = tiers_of r @ (if at_tier a = Direct then [] else [at_tier a])"
  by (simp_all add: add_attempt_def tiers_of_def)

lemma seen_simps [simp]:
  "cr_attempts (seen_response h r) = cr_attempts r" "cr_outcome (seen_response h r) = cr_outcome r"
  "cr_paid (seen_response h r) = cr_paid r" "tiers_of (seen_response h r) = tiers_of r"
  by (simp_all add: seen_response_def tiers_of_def)

lemma attempt_tiers [simp]:
  "at_tier (http_attempt h as d c) = Direct" "at_tier (no_response_attempt p) = Direct"
  "at_tier (failed_browser_attempt t s p) = bt_tier t" "at_tier (render_attempt j t rd a) = bt_tier t"
  by (simp_all add: http_attempt_def no_response_attempt_def failed_browser_attempt_def render_attempt_def)

lemma open_cong:
  "open_result sv rq r \<Longrightarrow> tiers_of r' = tiers_of r \<Longrightarrow> cr_paid r' = cr_paid r \<Longrightarrow> cr_outcome r' = cr_outcome r
   \<Longrightarrow> open_result sv rq r'"
  by (simp add: open_result_def tiers_ok_def)

lemma used_tiers_iff: "t \<noteq> Direct \<Longrightarrow> t \<in> used_tiers r \<longleftrightarrow> t \<in> set (tiers_of r)"
  by (auto simp: used_tiers_def tiers_of_def)

lemma failure_of_ok [simp]: "(fa_category (failure_of c ra res), fa_transient (failure_of c ra res)) = FAILURES (fa_code (failure_of c ra res))"
  by (simp add: failure_of_def)

lemma from_reason_ok: "from_reason p st ra = Some f \<Longrightarrow> (fa_category f, fa_transient f) = FAILURES (fa_code f)"
  by (auto simp: from_reason_def)

lemma good_fails:
  "open_result sv rq r \<Longrightarrow> (fa_category f, fa_transient f) = FAILURES (fa_code f) \<Longrightarrow> always (good sv rq) (fails f d r)"
  by (simp add: fails_def good_def open_result_def consistent_def tiers_ok_def)

lemma good_expired: "open_result sv rq r \<Longrightarrow> good sv rq (Inr (deadline_expired r))"
  using decided_tiers(2) [of Fail C_Acquisition r]
  by (simp add: good_def deadline_expired_def open_result_def consistent_def tiers_ok_def)

lemma good_captured:
  assumes "open_result sv rq r" "cr_attempts r = as @ [a]" "at_decision a = Accept"
    "do_representation d = Response_Body \<longrightarrow> evidence a"
  shows "always (good sv rq) (captured d r)"
  using assms by (simp add: captured_def good_def open_result_def consistent_def tiers_ok_def)

section \<open>Rendering\<close>

lemma rendered_primary:
  "as_primary (assess_rendered sv rd) = Some p \<Longrightarrow> p \<in> set RULE_COLUMNS \<and> p \<noteq> Payload_Mismatch"
proof -
  let ?fs = "fst (evaluate (sv_rules sv) None (rd_page rd))"
  assume "as_primary (assess_rendered sv rd) = Some p"
  then obtain c rest where "map (\<lambda>(c, f). (c, fg_confidence f)) (filter (\<lambda>(c, f). fg_value f \<and> c \<noteq> Payload_Mismatch) ?fs) = (p, c) # rest"
    by (auto simp: assess_rendered_def Let_def split: list.splits)
  then have "(p, c) \<in> set (map (\<lambda>(c, f). (c, fg_confidence f)) (filter (\<lambda>(c, f). fg_value f \<and> c \<noteq> Payload_Mismatch) ?fs))"
    by simp
  then have "p \<in> set (map fst ?fs)" "p \<noteq> Payload_Mismatch" by force+
  moreover obtain n where "map fst ?fs = take n RULE_COLUMNS"
    using evaluate_columns_append [of "sv_rules sv" None "rd_page rd" RULE_COLUMNS "\<not> is_markup (rd_page rd)" "[]"]
    by (auto simp: evaluate_def)
  ultimately show ?thesis by (metis in_set_takeD)
qed

lemma from_reason_known: "p \<in> set RULE_COLUMNS \<Longrightarrow> p \<noteq> Payload_Mismatch \<Longrightarrow> p \<noteq> Bot_Challenge \<Longrightarrow> from_reason p st ra \<noteq> None"
  by (cases p) (simp_all add: from_reason_def RULE_COLUMNS_def)

definition may_enter :: "service \<Rightarrow> capture_request \<Rightarrow> browser_tier \<Rightarrow> capture_result \<Rightarrow> bool" where
  "may_enter sv rq t r \<longleftrightarrow> open_result sv rq r \<and> bt_tier t \<noteq> Direct \<and> bt_tier t \<notin> set (tiers_of r)
     \<and> (bt_tier t \<in> {Local_Resolution, Challenge_Resolution} \<or> bt_paid t \<longrightarrow> rq_resolve_bot_challenges rq)
     \<and> (bt_tier t = Challenge_Resolution \<longrightarrow> sv_local_resolution sv \<noteq> None \<longrightarrow> Local_Resolution \<in> set (tiers_of r))"

text \<open>How many more tiers there can be.\<close>

definition tiers_left :: "browser_tier \<Rightarrow> capture_result \<Rightarrow> nat" where
  "tiers_left t r = card ({Local_Resolution, Challenge_Resolution} - insert (bt_tier t) (set (tiers_of r)))"

lemma entered:
  assumes "may_enter sv rq t r" "tiers_of r' = tiers_of r @ [bt_tier t]" "cr_outcome r' = cr_outcome r"
    "cr_paid r' \<longrightarrow> cr_paid r \<or> bt_paid t"
  shows "open_result sv rq r'"
  using assms by (auto simp: may_enter_def open_result_def tiers_ok_def)

lemma next_enters:
  assumes "service_ok sv" "next_resolution sv rq r b = Some t'" "open_result sv rq r" "tiers_of r' = tiers_of r"
    "cr_paid r' = cr_paid r" "cr_outcome r' = cr_outcome r"
  shows "may_enter sv rq t' r'" "tiers_of r = tiers_of r0 @ [bt_tier t] \<Longrightarrow> tiers_left t' r' < tiers_left t r0"
proof -
  have t': "rq_resolve_bot_challenges rq \<and> bt_tier t' \<in> {Local_Resolution, Challenge_Resolution}
      \<and> bt_tier t' \<notin> set (tiers_of r)
      \<and> (bt_tier t' = Challenge_Resolution \<longrightarrow> sv_local_resolution sv \<noteq> None \<longrightarrow> Local_Resolution \<in> set (tiers_of r))"
    using assms(1,2) by (auto simp: next_resolution_def service_ok_def used_tiers_iff split: if_splits)
  then show "may_enter sv rq t' r'"
    using open_cong [OF assms(3-6)] assms(4) by (auto simp: may_enter_def)
  assume "tiers_of r = tiers_of r0 @ [bt_tier t]"
  with t' have "{Local_Resolution, Challenge_Resolution} - insert (bt_tier t') (set (tiers_of r'))
      \<subset> {Local_Resolution, Challenge_Resolution} - insert (bt_tier t) (set (tiers_of r0))"
    using assms(4) by auto
  then show "tiers_left t' r' < tiers_left t r0" unfolding tiers_left_def by (rule psubset_card_mono [rotated]) simp
qed

definition job_ok :: "render_job \<Rightarrow> bool" where
  "job_ok j \<longleftrightarrow> service_ok (jb_service j)
     \<and> (jb_http_usable j \<longrightarrow> (\<exists>d. jb_http_doc j = Some d \<and> do_representation d = Response_Body))"

text \<open>The interface between one render and the renderer it hands on to: entered with fewer tiers left than
  \<open>limit\<close>, the renderer ends well.\<close>

locale renderer =
  fixes again :: again and j :: render_job and limit :: nat
  assumes next_tier: "job_ok j \<Longrightarrow> may_enter (jb_service j) (jb_request j) t r \<Longrightarrow> tiers_left t r < limit
    \<Longrightarrow> always (good (jb_service j) (jb_request j)) (again t r)"
begin

abbreviation ok :: "prog \<Rightarrow> bool" where
  "ok \<equiv> always (good (jb_service j) (jb_request j))"

definition entering :: "browser_tier \<Rightarrow> capture_result \<Rightarrow> bool" where
  "entering t r0 \<longleftrightarrow> job_ok j \<and> may_enter (jb_service j) (jb_request j) t r0 \<and> tiers_left t r0 \<le> limit"

definition tried :: "browser_tier \<Rightarrow> capture_result \<Rightarrow> capture_result \<Rightarrow> bool" where
  "tried t r0 r \<longleftrightarrow> job_ok j \<and> tiers_left t r0 \<le> limit
     \<and> tiers_of r = tiers_of r0 @ [bt_tier t] \<and> open_result (jb_service j) (jb_request j) r"

lemma triedI:
  "entering t r0 \<Longrightarrow> tiers_of r = tiers_of r0 @ [bt_tier t] \<Longrightarrow> cr_outcome r = cr_outcome r0 \<Longrightarrow> (cr_paid r \<longrightarrow> cr_paid r0 \<or> bt_paid t) \<Longrightarrow> tried t r0 r"
  unfolding tried_def entering_def using entered by blast

lemma tried_cong:
  "tried t r0 r \<Longrightarrow> tiers_of r' = tiers_of r \<Longrightarrow> cr_paid r' = cr_paid r \<Longrightarrow> cr_outcome r' = cr_outcome r \<Longrightarrow> tried t r0 r'"
  by (metis open_cong tried_def)

lemma tried_open: "tried t r0 r \<Longrightarrow> open_result (jb_service j) (jb_request j) r"
  by (simp add: tried_def)

lemma tried_decided [simp]: "tried t r0 r \<Longrightarrow> tried t r0 (decided d r)"
  by (erule tried_cong) simp_all

lemma escalates:
  assumes "tried t r0 r" "next_resolution (jb_service j) (jb_request j) r b = Some t'"
  shows "ok (again t' (decided Escalate r))"
proof -
  have sv: "service_ok (jb_service j)" using assms(1) by (simp add: job_ok_def tried_def)
  note n = next_enters [OF sv assms(2) tried_open [OF assms(1)], of "decided Escalate r"]
  have "job_ok j" "tiers_left t r0 \<le> limit" using assms(1) by (simp_all add: tried_def)
  moreover have "tiers_left t' (decided Escalate r) < tiers_left t r0" using n(2) assms(1) by (simp add: tried_def)
  ultimately show ?thesis using n(1) by (intro next_tier) simp_all
qed

lemma fallback_ok: "tried t r0 r \<Longrightarrow> ok q \<Longrightarrow> ok (or_else (local_fallback again j t r) q)"
  by (auto simp: or_else_def local_fallback_def escalates split: option.split)

lemma fails_ok: "open_result (jb_service j) (jb_request j) r \<Longrightarrow> ok (fails (failure_of c ra res) d r)"
  by (rule good_fails) simp_all

lemma bot_ok: "open_result (jb_service j) (jb_request j) r \<Longrightarrow> ok (fails (bot_failure b res) d r)"
  unfolding bot_failure_def by (rule fails_ok)

lemma render_failed_ok:
  assumes "tried t r0 r"
  shows "ok (render_failed again j t rd r)"
proof -
  have "open_result (jb_service j) (jb_request j) (decided Fail r)"
    using tried_decided [OF assms] by (rule tried_open)
  then show ?thesis unfolding render_failed_def Let_def
    by (intro fallback_ok [OF tried_decided [OF assms]]) (simp add: fails_ok bot_ok)
qed

lemma no_browser_ok:
  assumes enter: "entering t r0" and f: "(fa_category f, fa_transient f) = FAILURES (fa_code f)"
  shows "ok (no_browser again j t p s acquired f r0)"
proof -
  have dir: "bt_tier t \<noteq> Direct" using enter by (simp add: entering_def may_enter_def)
  have tr: "tried t r0 (record_failed_render t s acquired (add_attempt (failed_browser_attempt t None p) r0))"
    by (rule triedI [OF enter]) (use dir in \<open>simp_all add: record_failed_render_def\<close>)
  show ?thesis unfolding no_browser_def Let_def
    by (rule fallback_ok [OF tr], rule good_fails [OF tried_open [OF tr] f])
qed

lemma compared_ok:
  assumes "tried t r0 r" "cr_attempts r = as @ [a]" "at_decision a = Accept"
  shows "ok (render_compared j t rd r)"
proof -
  define share where "share = (if hp_body (jb_http j) \<noteq> [] then sv_coverage (jb_service j) (jb_http j) rd else 0)"
  define sufficient where "sufficient = (jb_http_usable j \<and> share \<ge> sv_sufficient_coverage (jb_service j))"
  define f where "f = (\<lambda>a :: attempt. a\<lparr>at_reason_code := C_Content_Comparison,
      at_comparison := Some (of_int (py_round (share * 1000)) / 1000, sufficient)\<rparr>)"
  define r1 where "r1 = change_last f r"
  have r1: "tried t r0 r1" "cr_attempts r1 = as @ [f a]" "at_decision (f a) = Accept"
    using assms by (auto simp: r1_def f_def change_last_tiers change_last_snoc intro: tried_cong)
  have exp: "good (jb_service j) (jb_request j) (Inr (deadline_expired r))"
    using assms(1) by (simp add: good_expired tried_def)
  have "ok (if sufficient
      then (case jb_http_doc j of Some d \<Rightarrow> captured d r1
            | None \<Rightarrow> Finished (Inr (r1\<lparr>cr_outcome := Captured, cr_document := None, cr_failure := None\<rparr>)))
      else captured (rendered_document rd)
             (r1\<lparr>cr_final_url := (case non_empty (rd_final_url rd) of Some u \<Rightarrow> u | None \<Rightarrow> cr_final_url r1),
                 cr_response := (case non_zero (rd_status rd) of
                    Some st \<Rightarrow> Some \<lparr>rs_status_code = st, rs_headers = rd_headers rd, rs_redirects = []\<rparr>
                  | None \<Rightarrow> cr_response r1)\<rparr>))"
  proof (cases sufficient)
    case True
    then obtain d where d: "jb_http_doc j = Some d" using assms(1) by (auto simp: sufficient_def job_ok_def tried_def)
    have "at_comparison (f a) = Some (of_int (py_round (share * 1000)) / 1000, True)" using True by (simp add: f_def)
    then have "evidence (f a)" unfolding evidence_def by blast
    then show ?thesis using True d r1 by (simp add: good_captured tried_open)
  next
    case False
    have "ok (captured (rendered_document rd) r')"
      if "tiers_of r' = tiers_of r1" "cr_paid r' = cr_paid r1" "cr_outcome r' = cr_outcome r1" "cr_attempts r' = cr_attempts r1" for r'
      using r1 that tried_cong [OF r1(1) that(1-3)] by (intro good_captured) (simp_all add: tried_open rendered_document_def)
    then show ?thesis using False by simp
  qed
  then show ?thesis using exp
    unfolding render_compared_def Let_def share_def [symmetric] sufficient_def [symmetric] f_def [symmetric] r1_def [symmetric]
    by simp
qed

lemma assessed_ok:
  assumes "tried t r0 r" "cr_attempts r = as @ [a]" "at_decision a = Accept" "assess = assess_rendered (jb_service j) rd"
  shows "ok (render_assessed again j t rd assess r)"
proof (cases "as_primary assess")
  case None
  have "cr_attempts (decided Accept r) = as @ [a\<lparr>at_decision := Accept\<rparr>]"
    unfolding decided_def by (rule change_last_snoc [OF assms(2)])
  then have acc: "ok (captured (rendered_document rd) (decided Accept r))"
    by (rule good_captured [OF tried_open [OF tried_decided [OF assms(1)]]]) (simp_all add: rendered_document_def)
  show ?thesis using acc compared_ok [OF assms(1-3)] fails_ok [OF tried_open [OF tried_decided [OF assms(1)]]]
    by (simp add: render_assessed_def None unverified_http_def)
next
  case (Some p)
  have p: "p \<in> set RULE_COLUMNS" "p \<noteq> Payload_Mismatch" using rendered_primary Some assms(4) by blast+
  show ?thesis
  proof (cases "p = Bot_Challenge")
    case True
    then show ?thesis
      using escalates [OF assms(1)] bot_ok [OF tried_open [OF tried_decided [OF assms(1)]]]
      by (simp add: render_assessed_def Some split: option.split)
  next
    case False
    obtain f where f: "from_reason p (rd_status rd) (rd_retry_after rd) = Some f"
      using from_reason_known [OF p False] by auto
    have "ok (fails f (Some (rendered_document rd))
                   ((decided Fail r)\<lparr>cr_final_url := x, cr_response := y\<rparr>))" for x y
      by (rule good_fails [OF tried_open [OF tried_cong [OF assms(1)]] from_reason_ok [OF f]]) simp_all
    then show ?thesis using fails_ok [OF tried_open [OF tried_decided [OF assms(1)]]] False
      by (simp add: render_assessed_def Some f unverified_http_def)
  qed
qed

lemma page_ok:
  assumes enter: "entering t r0"
  shows "ok (render_page again j t rd r0)"
proof -
  let ?r1 = "r0\<lparr>cr_browser_seconds := cr_browser_seconds r0 + rd_seconds rd, cr_bytes := cr_bytes r0 + rd_bytes rd,
                cr_paid := (cr_paid r0 \<or> bt_paid t)\<rparr>"
  have dir: "bt_tier t \<noteq> Direct" using enter by (simp add: entering_def may_enter_def)
  have added: "tried t r0 (add_attempt a ?r1)" if "at_tier a = bt_tier t" for a
    by (rule triedI [OF enter]) (use dir that in simp_all)
  have excl: "tried t r0 ((add_attempt (failed_browser_attempt t (rd_status rd) None) ?r1)\<lparr>cr_final_url := u\<rparr>)" for u
    by (rule tried_cong [OF added [of "failed_browser_attempt t (rd_status rd) None"]]) simp_all
  let ?a = "render_attempt j t rd (assess_rendered (jb_service j) rd)"
  have atts: "cr_attempts (add_attempt ?a ?r1) = cr_attempts ?r1 @ [?a]" by (rule add_attempt_simps)
  have acc: "at_decision ?a = Accept" by (simp add: render_attempt_def)
  have "ok (render_assessed again j t rd (assess_rendered (jb_service j) rd) (add_attempt ?a ?r1))"
    by (rule assessed_ok [OF added atts acc refl]) simp
  moreover have "ok (render_failed again j t rd (add_attempt ?a ?r1))"
    by (rule render_failed_ok [OF added]) simp
  ultimately show ?thesis using fails_ok [OF tried_open [OF excl]]
    by (simp add: render_page_def Let_def split: option.split)
qed

lemma step_ok:
  assumes enter: "entering t r0"
  shows "ok (render_step again j t r0)"
proof -
  have open0: "open_result (jb_service j) (jb_request j) r0" using enter by (simp add: entering_def may_enter_def)
  have bot: "(fa_category (bot_failure b at'), fa_transient (bot_failure b at')) = FAILURES (fa_code (bot_failure b at'))" for b at'
    by (simp add: bot_failure_def)
  show ?thesis unfolding render_step_def
    using good_expired [OF open0] good_fails [OF open0 failure_of_ok] page_ok [OF enter] no_browser_ok [OF enter bot] no_browser_ok [OF enter failure_of_ok]
    by (simp split: render_outcome.split)
qed

end

text \<open>The renderer with \<open>n\<close> entries left meets the contract for fewer than \<open>n\<close> tiers.\<close>

interpretation tiers: renderer "render n j" j n for n j
proof unfold_locales
  fix t r
  show "job_ok j \<Longrightarrow> may_enter (jb_service j) (jb_request j) t r \<Longrightarrow> tiers_left t r < n
    \<Longrightarrow> always (good (jb_service j) (jb_request j)) (render n j t r)"
  proof (induction n arbitrary: t r)
    case (Suc n)
    then have "renderer (render n j) j n" by unfold_locales blast
    then show ?case using Suc.prems by (simp add: renderer.step_ok renderer.entering_def)
  qed simp
qed

lemma tiers_left_le: "tiers_left t r \<le> 2"
proof -
  have "tiers_left t r \<le> card {Local_Resolution, Challenge_Resolution}" unfolding tiers_left_def by (rule card_mono) auto
  also have "\<dots> = 2" by simp
  finally show ?thesis .
qed

section \<open>The whole capture\<close>

lemma render_three:
  assumes "job_ok j" "may_enter (jb_service j) (jb_request j) t r" "jb_service j = sv" "jb_request j = rq"
  shows "always (good sv rq) (render 3 j t r)"
  using tiers.next_tier [OF assms(1,2), of 3] tiers_left_le [of t r] assms(3,4) by simp

lemma enter_first:
  assumes "service_ok sv" "open_result sv rq r" "tiers_of r = []" "sv_managed sv = Some t"
  shows "may_enter sv rq t r"
  using assms by (auto simp: may_enter_def service_ok_def)

lemma enter_resolution:
  assumes "service_ok sv" "open_result sv rq r" "next_resolution sv rq r b = Some t"
  shows "may_enter sv rq t (decided d r)"
  by (rule next_enters(1) [OF assms(1,3,2)]) simp_all

lemma new_open: "open_result sv rq (new_result rq)"
  by (simp add: open_result_def tiers_ok_def new_result_def tiers_of_def)

definition fresh_result :: "service \<Rightarrow> capture_request \<Rightarrow> capture_result \<Rightarrow> bool" where
  "fresh_result sv rq r \<longleftrightarrow> open_result sv rq r \<and> tiers_of r = []"

lemma fresh_cong:
  "fresh_result sv rq r \<Longrightarrow> tiers_of r' = tiers_of r \<Longrightarrow> cr_paid r' = cr_paid r \<Longrightarrow> cr_outcome r' = cr_outcome r \<Longrightarrow> fresh_result sv rq r'"
  using open_cong [of sv rq r r'] by (simp add: fresh_result_def)

lemma fresh_tiers [simp]: "fresh_result sv rq r \<Longrightarrow> tiers_of r = []"
  by (simp add: fresh_result_def)

lemma fresh_fails:
  "fresh_result sv rq r \<Longrightarrow> (fa_category f, fa_transient f) = FAILURES (fa_code f) \<Longrightarrow> always (good sv rq) (fails f d r)"
  by (simp add: good_fails fresh_result_def)

lemma fresh_decided: "fresh_result sv rq r \<Longrightarrow> fresh_result sv rq (decided d r)"
  and fresh_decided_by: "fresh_result sv rq r \<Longrightarrow> fresh_result sv rq (decided_by d c r)"
  by (rule fresh_cong, assumption, simp_all)+

lemma bot_failure_ok: "(fa_category (bot_failure b x), fa_transient (bot_failure b x)) = FAILURES (fa_code (bot_failure b x))"
  by (simp add: bot_failure_def)

lemma challenge_ok:
  assumes "service_ok sv" "fresh_result sv rq r"
  shows "always (good sv rq) (challenge sv rq http doc r)"
proof (cases "next_resolution sv rq r (sv_block_page sv http)")
  case None
  then show ?thesis by (simp add: challenge_def Let_def fresh_fails [OF fresh_decided [OF assms(2)] bot_failure_ok])
next
  case (Some t)
  let ?j = "\<lparr>jb_service = sv, jb_request = rq, jb_http = http, jb_http_doc = Some doc, jb_http_usable = False\<rparr>"
  have "may_enter sv rq t (decided Escalate r)"
    by (rule enter_resolution [OF assms(1) _ Some]) (use assms(2) in \<open>simp add: fresh_result_def\<close>)
  then have "always (good sv rq) (render 3 ?j t (decided Escalate r))"
    by (intro render_three) (simp_all add: job_ok_def assms(1))
  then show ?thesis by (simp add: challenge_def Some)
qed

lemma managed_ok:
  assumes "service_ok sv" "fresh_result sv rq r" "sv_managed sv = Some t"
    "usable \<longrightarrow> (\<exists>d. doc = Some d \<and> do_representation d = Response_Body)"
  shows "always (good sv rq) (render 3
    \<lparr>jb_service = sv, jb_request = rq, jb_http = http, jb_http_doc = doc, jb_http_usable = usable\<rparr> t r)"
  by (rule render_three) (use assms enter_first [OF assms(1) _ _ assms(3), of rq r] in \<open>simp_all add: job_ok_def fresh_result_def\<close>)

lemma captured_ok:
  assumes "fresh_result sv rq r" "cr_attempts r = xs @ [a]" "at_decision a = Accept" "evidence a"
  shows "always (good sv rq) (captured d r)"
  by (rule good_captured) (use assms in \<open>auto simp: fresh_result_def\<close>)

lemma evidence_codes: "at_reason_code a \<in> {C_Cache_Url, C_Cache_Pattern, C_Media_Type} \<Longrightarrow> evidence a"
  by (simp add: evidence_def)

lemma captured_by_ok:
  assumes "fresh_result sv rq r" "cr_attempts r = xs @ [a]" "c \<in> {C_Cache_Url, C_Cache_Pattern, C_Media_Type}"
  shows "always (good sv rq) (captured d (decided_by Accept c r))"
proof -
  let ?a = "a\<lparr>at_decision := Accept, at_reason_code := c\<rparr>"
  have a: "cr_attempts (decided_by Accept c r) = xs @ [?a]"
    unfolding decided_by_def by (rule change_last_snoc [OF assms(2)])
  have "at_decision ?a = Accept" "evidence ?a" using assms(3) by (simp_all add: evidence_def)
  then show ?thesis by (rule captured_ok [OF fresh_decided_by [OF assms(1)] a])
qed

lemma usable_ok:
  assumes "service_ok sv" "fresh_result sv rq r" "cr_attempts r = xs @ [a]" "do_representation doc = Response_Body"
  shows "always (good sv rq) (usable_response sv rq http doc r)"
proof -
  have exp: "good sv rq (Inr (deadline_expired r))" using assms(2) by (simp add: good_expired fresh_result_def)
  have hit: "always (good sv rq) (captured doc (decided_by Accept c r))" if "c \<in> {C_Cache_Url, C_Cache_Pattern}" for c
    using that by (intro captured_by_ok [OF assms(2,3)]) auto
  have miss: "always (good sv rq) (case sv_managed sv of
        None \<Rightarrow> fails (plain_failure F_Browser_Unavailable) (Some doc) (decided Fail r)
      | Some t \<Rightarrow> render 3 \<lparr>jb_service = sv, jb_request = rq, jb_http = http, jb_http_doc = Some doc, jb_http_usable = True\<rparr> t
          (decided_by Escalate c r))" for c
    using fresh_fails [OF fresh_decided [OF assms(2)] failure_of_ok]
      managed_ok [OF assms(1) fresh_decided_by [OF assms(2)]] assms(4) by (simp split: option.split)
  show ?thesis unfolding usable_response_def
    using exp hit miss by (auto split: option.split cache_decision.split bool.split)
qed

lemma json_ok:
  assumes "fresh_result sv rq r"
  shows "always (good sv rq) (json_response http doc r)"
proof -
  let ?r1 = "add_attempt (http_attempt http (only_primary None) Accept C_Media_Type) r"
  have r1: "fresh_result sv rq ?r1" by (rule fresh_cong [OF assms]) (use assms in simp_all)
  have why: "from_reason p st ra \<noteq> None" if "p \<in> {Rate_Limited, Not_Found, Gone, Server_Error, Client_Error}" for p st ra
    using that by (auto simp: from_reason_def)
  let ?f = "\<lambda>a :: attempt. a\<lparr>at_assessment := (at_assessment a)\<lparr>as_completeness := Some Complete\<rparr>\<rparr>"
  have last: "cr_attempts (change_last ?f ?r1) = cr_attempts r @ [?f (http_attempt http (only_primary None) Accept C_Media_Type)]"
    by (rule change_last_snoc) simp
  have finished: "always (good sv rq) (captured doc (change_last ?f ?r1))"
  proof (rule captured_ok [OF _ last])
    show "fresh_result sv rq (change_last ?f ?r1)" by (rule fresh_cong [OF r1]) (simp_all add: change_last_tiers)
  qed (simp_all add: http_attempt_def evidence_def)
  have "always (good sv rq) (case from_reason p (Some st) ra of None \<Rightarrow> Finished (Inl Key_Error) | Some f \<Rightarrow> fails f d (decided Fail ?r1))"
    if p: "p \<in> {Rate_Limited, Not_Found, Gone, Server_Error, Client_Error}" for p st ra d
  proof -
    obtain f where f: "from_reason p (Some st) ra = Some f" using why [OF p] by blast
    show ?thesis using fresh_fails [OF fresh_decided [OF r1] from_reason_ok [OF f]] by (simp add: f)
  qed
  then show ?thesis
    using finished fresh_fails [OF fresh_decided [OF r1] failure_of_ok]
    by (simp add: json_response_def Let_def)
qed

lemma unsupported_ok: "fresh_result sv rq r \<Longrightarrow> always (good sv rq) (unsupported http r)"
  unfolding unsupported_def by (rule fresh_fails, erule fresh_cong) simp_all

lemma too_large_ok:
  assumes "service_ok sv" "fresh_result sv rq r" "hp_status_code http = 429 \<or> fst (media_type (hp_headers http)) \<noteq> None"
  shows "always (good sv rq) (too_large sv rq http r)"
proof -
  let ?r0 = "seen_response http r"
  let ?r1 = "add_attempt (http_attempt http (only_primary None) Escalate C_Acquisition) (?r0\<lparr>cr_bytes := cr_bytes ?r0 + int (length (hp_body http))\<rparr>)"
  have r1: "fresh_result sv rq ?r1" by (rule fresh_cong [OF assms(2)]) (use assms(2) in simp_all)
  obtain f where f: "from_reason Rate_Limited (Some 429) (hp_retry_after http) = Some f" by (auto simp: from_reason_def)
  let ?g = "\<lambda>a :: attempt. a\<lparr>at_assessment := (only_primary (Some Rate_Limited))\<lparr>as_reasons := [(Rate_Limited, 1)]\<rparr>, at_decision := Fail\<rparr>"
  have "fresh_result sv rq (change_last ?g ?r1)"
    by (rule fresh_cong [OF r1]) (use r1 in \<open>simp_all add: change_last_tiers\<close>)
  note limited = fresh_fails [OF this from_reason_ok [OF f]]
  have rest: "always (good sv rq) (fails (plain_failure c) d (decided_by x y ?r1))"
    "always (good sv rq) (fails (plain_failure c) d (decided x ?r1))" for c d x y
    using fresh_fails [OF fresh_decided_by [OF r1] failure_of_ok] fresh_fails [OF fresh_decided [OF r1] failure_of_ok] by blast+
  have "always (good sv rq) (case sv_managed sv of
      None \<Rightarrow> fails (plain_failure F_Browser_Unavailable) d (decided Fail ?r1)
    | Some t \<Rightarrow> render 3 \<lparr>jb_service = sv, jb_request = rq, jb_http = http, jb_http_doc = None, jb_http_usable = False\<rparr> t ?r1)" for d
    using rest(2) managed_ok [OF assms(1) r1] by (simp split: option.split)
  then show ?thesis using limited rest assms(3)
    unfolding too_large_def Let_def f by (auto split: option.split)
qed

lemma classified_ok:
  assumes "service_ok sv" "fresh_result sv rq r" "do_representation doc = Response_Body" "vd_reason v \<noteq> Some Unreachable"
  shows "always (good sv rq) (classified sv rq http doc v r)"
proof -
  let ?a = "http_attempt http (assessment_of v) Accept (if vd_reason v \<noteq> None then C_Assessment else C_Acquisition)"
  define rr where "rr = add_attempt ?a r"
  have r1: "fresh_result sv rq rr" by (rule fresh_cong [OF assms(2)]) (simp_all add: rr_def)
  have atts: "cr_attempts rr = cr_attempts r @ [?a]" by (simp add: rr_def)
  have media: "always (good sv rq) (captured doc (decided_by Accept C_Media_Type rr))"
    by (rule captured_by_ok [OF r1 atts]) simp
  note failing = fresh_fails [OF fresh_decided [OF r1] failure_of_ok]
  have escalating: "always (good sv rq) (case sv_managed sv of
      None \<Rightarrow> fails (plain_failure F_Browser_Unavailable) (Some doc) (decided Fail rr)
    | Some t \<Rightarrow> render 3 \<lparr>jb_service = sv, jb_request = rq, jb_http = http, jb_http_doc = Some doc, jb_http_usable = False\<rparr> t (decided Escalate rr))"
  proof (cases "sv_managed sv")
    case None
    show ?thesis unfolding None option.case by (rule failing)
  next
    case (Some t)
    show ?thesis unfolding Some option.case by (rule managed_ok [OF assms(1) fresh_decided [OF r1] Some]) simp
  qed
  have broken: "always (good sv rq) (case from_reason p st ra of None \<Rightarrow> Finished (Inl Key_Error) | Some f \<Rightarrow> fails f d (decided Fail rr))"
    if "p \<notin> set ESCALATE_TO_BROWSER" "p \<noteq> Payload_Mismatch" "p \<noteq> Bot_Challenge" "p \<noteq> Unreachable" for p st ra d
  proof -
    have "from_reason p st ra \<noteq> None"
      using that by (cases p) (simp_all add: from_reason_def ESCALATE_TO_BROWSER_def RENDER_NEED_def)
    then obtain f where f: "from_reason p st ra = Some f" by blast
    show ?thesis using fresh_fails [OF fresh_decided [OF r1] from_reason_ok [OF f]] by (simp add: f)
  qed
  show ?thesis
  proof (cases "vd_reason v")
    case None
    show ?thesis
      unfolding classified_def Let_def rr_def [symmetric]

      using None media usable_ok [OF assms(1) r1 atts assms(3)] by simp
  next
    case (Some p)
    have fold: "add_attempt (http_attempt http (assessment_of v) Accept (if Some p \<noteq> None then C_Assessment else C_Acquisition)) r = rr"
      by (simp only: rr_def Some)
    have "p \<noteq> Unreachable" using assms(4) Some by simp
    then show ?thesis
      unfolding classified_def Let_def Some fold option.case
      using media failing escalating challenge_ok [OF assms(1) r1] broken [of p]
      by simp
  qed
qed

definition fine :: "answers \<Rightarrow> service \<Rightarrow> capture_request \<Rightarrow> capture_error + capture_result \<Rightarrow> bool" where
  "fine an sv rq x \<longleftrightarrow> good sv rq x \<or> escaped an x \<or> x = Inl Key_Error \<and> verdict_unreachable an"

lemma fine_run: "always (good sv rq) p \<Longrightarrow> fine an sv rq (run an p n)"
  using run_always_unless [of "good sv rq" p an n] by (auto simp: fine_def)

lemma fine_raised: "raises an \<Longrightarrow> fine an sv rq (Inl Raised_Outside)"
  by (simp add: fine_def escaped_def)

lemma classified_unreachable: "vd_reason v = Some Unreachable \<Longrightarrow> classified sv rq http doc v r = Finished (Inl Key_Error)"
  by (simp add: classified_def ESCALATE_TO_BROWSER_def RENDER_NEED_def from_reason_def Let_def)

lemma fetched_ok:
  assumes "service_ok sv" "fresh_result sv rq r"
    and "hp_truncated http \<Longrightarrow> hp_status_code http = 429 \<or> fst (media_type (hp_headers http)) \<noteq> None"
  shows "fine an sv rq (run an (fetched_response sv rq http r) n)"
proof (cases "hp_truncated http")
  case True
  then show ?thesis using fine_run [OF too_large_ok [OF assms(1,2) assms(3) [OF True]]] by (simp add: fetched_response_def)
next
  case False
  let ?doc = "http_document sv http"
  let ?r1 = "seen_response http (r\<lparr>cr_document := Some ?doc\<rparr>)"
  let ?r2 = "?r1\<lparr>cr_bytes := cr_bytes ?r1 + int (length (hp_body http))\<rparr>"
  have r1: "fresh_result sv rq ?r1" by (rule fresh_cong [OF assms(2)]) simp_all
  have r2: "fresh_result sv rq ?r2" by (rule fresh_cong [OF r1]) simp_all
  have rep: "do_representation ?doc = Response_Body" by (simp add: http_document_def Let_def split: prod.split)
  have exp: "fine an sv rq (Inr (deadline_expired ?r2))" using r2 by (simp add: fine_def good_expired fresh_result_def)
  have "fine an sv rq (run an (Await_Verdict ?r2 (\<lambda>v. classified sv rq http ?doc v ?r2)) n)"
  proof (cases "an_verdict an")
    case (Answer v)
    show ?thesis
    proof (cases "vd_reason v = Some Unreachable")
      case True
      then show ?thesis using Answer by (simp add: classified_unreachable fine_def verdict_unreachable_def)
    next
      case False
      then show ?thesis using fine_run [OF classified_ok [OF assms(1) r2 rep False]] Answer by simp
    qed
  qed (simp_all add: exp fine_raised raises_def)
  then show ?thesis
    using fine_run [OF unsupported_ok [OF r1]] fine_run [OF json_ok [OF r2]] False
    by (simp add: fetched_response_def Let_def)
qed

lemma capture_fine:
  assumes sv: "service_ok sv" and no: "\<not> oversized_without_type an"
  shows "fine an sv rq (run an (acquire sv rq (new_result rq)) 0)"
proof -
  let ?r = "new_result rq"
  have r: "fresh_result sv rq ?r" using new_open by (simp add: fresh_result_def new_result_def tiers_of_def)
  have exp: "fine an sv rq (Inr (deadline_expired ?r))" by (simp add: fine_def good_expired [OF new_open])
  have http: "fresh_result sv rq (add_attempt (no_response_attempt p) ?r)" for p
    by (rule fresh_cong [OF r]) simp_all
  note failing = fine_run [OF fresh_fails [OF http failure_of_ok]]
  show ?thesis
  proof (cases "an_fetch an")
    case Expired
    then show ?thesis using exp by (simp add: acquire_def)
  next
    case Raises
    then show ?thesis by (simp add: acquire_def fine_raised raises_def)
  next
    case (Answer x)
    have "fine an sv rq (run an (fetched_response sv rq h ?r) n)" if "x = Fetched h" for h n
      by (rule fetched_ok [OF sv r]) (use no Answer that in \<open>auto simp: oversized_without_type_def\<close>)
    then show ?thesis using failing fine_run [OF unsupported_ok [OF r]]
      by (simp add: acquire_def Answer split: fetch_outcome.split)
  qed
qed

lemma capture_good:
  assumes "service_ok sv" "\<not> oversized_without_type an" "\<not> verdict_unreachable an"
  shows "good sv rq (run an (acquire sv rq (new_result rq)) 0) \<or> escaped an (run an (acquire sv rq (new_result rq)) 0)"
  using capture_fine [OF assms(1,2), of rq] assms(3) by (simp add: fine_def)

lemma capture_result_good:
  assumes "service_ok sv" "\<not> oversized_without_type an" "\<not> verdict_unreachable an" "capture sv rq an = Inr r"
  obtains r' where "tiers_ok sv rq r'" "consistent r'" "r = filter_document rq r'"
  using capture_good [OF assms(1-3), of rq] assms(4)
  by (cases "run an (acquire sv rq (new_result rq)) 0") (auto simp: capture_def good_def escaped_def)

lemma filter_document_fields [simp]:
  "cr_attempts (filter_document rq r) = cr_attempts r" "cr_paid (filter_document rq r) = cr_paid r"
  "cr_outcome (filter_document rq r) = cr_outcome r" "cr_failure (filter_document rq r) = cr_failure r"
  by (simp_all add: filter_document_def split: option.split)

section \<open>The properties\<close>




text \<open>C31: Local and paid challenge resolution run, and a capture is marked as paid, only when the request
  permits it; every browser tier is tried at most once; and paid resolution never runs before local
  resolution when that is configured.\<close>

theorem resolution_only_on_request:
  assumes "service_ok sv" "\<not> oversized_without_type an" "\<not> verdict_unreachable an" "capture sv rq an = Inr r"
  shows "(cr_paid r \<or> (\<exists>a \<in> set (cr_attempts r). at_tier a \<in> {Local_Resolution, Challenge_Resolution})
      \<longrightarrow> rq_resolve_bot_challenges rq)
    \<and> distinct (tiers_of r)
    \<and> ((\<exists>a \<in> set (cr_attempts r). at_tier a = Challenge_Resolution) \<longrightarrow> sv_local_resolution sv \<noteq> None
        \<longrightarrow> (\<exists>a \<in> set (cr_attempts r). at_tier a = Local_Resolution))"
proof -
  obtain r' where r': "tiers_ok sv rq r'" "r = filter_document rq r'" by (rule capture_result_good [OF assms])
  have "tiers_of r = tiers_of r'" by (simp add: r'(2) tiers_of_def)
  moreover have "t \<in> set (tiers_of r) \<longleftrightarrow> t \<noteq> Direct \<and> (\<exists>a \<in> set (cr_attempts r). at_tier a = t)" for t
    by (auto simp: tiers_of_def)
  ultimately show ?thesis using r' by (auto simp: tiers_ok_def)
qed

theorem resolution_only_on_request_witness:
  "\<exists>r. capture sample_service sample_request sample_answers = Inr r
     \<and> map at_tier (cr_attempts r) = [Direct, Local_Resolution, Challenge_Resolution] \<and> cr_paid r
     \<and> distinct (tiers_of r)"
proof -
  obtain r where r: "capture sample_service sample_request sample_answers = Inr r"
      "map at_tier (cr_attempts r) = [Direct, Local_Resolution, Challenge_Resolution]" "cr_paid r"
    by (rule sample_result)
  note conj = resolution_only_on_request [OF sample_good r(1)]
  show ?thesis
    by (rule exI [of _ r]) (intro conjI r conj [THEN conjunct2, THEN conjunct1])
qed

text \<open>C8: A capture either fails with a failure whose category and transience are those of its code in the
  contract, or it is captured with an accepting last attempt; response bytes are returned as captured only on
  evidence: the media type (XML, JSON, not HTML), the method cache, or a comparison with a render that found the
  response sufficient. When the caller accepts every media type, a captured result has its document.\<close>

theorem captured_on_evidence:
  assumes "service_ok sv" "\<not> oversized_without_type an" "\<not> verdict_unreachable an" "capture sv rq an = Inr r"
  shows "case cr_failure r of
      Some f \<Rightarrow> cr_outcome r = Not_Captured \<and> (fa_category f, fa_transient f) = FAILURES (fa_code f)
    | None \<Rightarrow> cr_outcome r = Captured \<and> at_decision (last (cr_attempts r)) = Accept
        \<and> (rq_accept rq = None \<longrightarrow> cr_document r \<noteq> None)
        \<and> (\<forall>d. cr_document r = Some d \<longrightarrow> do_representation d = Response_Body \<longrightarrow> evidence (last (cr_attempts r)))"
proof -
  obtain r' where r': "consistent r'" "r = filter_document rq r'" by (rule capture_result_good [OF assms])
  have "cr_document r = cr_document r' \<or> cr_document r = None" "rq_accept rq = None \<longrightarrow> cr_document r = cr_document r'"
    by (auto simp: r'(2) filter_document_def accepts_def split: option.split)
  then show ?thesis using r' by (auto simp: consistent_def split: option.split)
qed

theorem captured_on_evidence_witness:
  "\<exists>r. capture sample_service sample_request sample_answers = Inr r \<and> cr_outcome r = Captured
     \<and> at_decision (last (cr_attempts r)) = Accept \<and> cr_document r \<noteq> None"
proof -
  obtain r where r: "capture sample_service sample_request sample_answers = Inr r" "cr_failure r = None"
    by (rule sample_result)
  have accept_all: "rq_accept sample_request = None" by (simp add: sample_request_def)
  note facts = captured_on_evidence [OF sample_good r(1), unfolded r(2) option.case]
  show ?thesis
    by (rule exI [of _ r], intro conjI)
      (rule r(1), rule facts [THEN conjunct1], rule facts [THEN conjunct2, THEN conjunct1],
       rule facts [THEN conjunct2, THEN conjunct2, THEN conjunct1, THEN mp, OF accept_all])
qed

end
