(* ===== verification/Page_Rules_Proofs.thy ===== *)
theory Page_Rules_Proofs
  imports Page_Rules Capture_Proofs
begin

text \<open>
  What the rules guarantee. A response with an error status always has a reason, at least as early as the one of its
  status, so its bytes are never captured as page content; a response that a bot-protection vendor marked in its
  headers is a challenge with a fixed certainty, and nothing of its HTML is looked at; every certainty
  the rules report is at least one half.
\<close>

section \<open>The first true column\<close>

lemma find_first: "s \<in> set xs \<Longrightarrow> P s \<Longrightarrow> \<exists>r. find P xs = Some r \<and> r \<in> set (takeWhile (\<lambda>x. x \<noteq> s) xs @ [s])"
  by (induction xs) auto

lemma evaluate_all:
  assumes "distinct cols" "c \<in> set cols" "c \<noteq> Payload_Mismatch"
    "\<forall>fs. fg_value (rule c doc fs)" "fg_value (status_only c doc)"
  shows "\<exists>fl. (c, fl) \<in> set (fst (evaluate_columns rule None doc cols np found)) \<and> fg_value fl"
  using assms
proof (induction cols arbitrary: np found)
  case (Cons k cols)
  define fl where "fl = (if k = Payload_Mismatch \<or> \<not> np then rule k doc found else status_only k doc)"
  let ?np = "if k = Payload_Mismatch \<and> fg_value fl then True else np"
  have step: "evaluate_columns rule None doc (k # cols) np found = evaluate_columns rule None doc cols ?np (found @ [(k, fl)])"
    by (simp add: fl_def [symmetric] Let_def)
  show ?case
  proof (cases "k = c")
    case True
    obtain rest where "fst (evaluate_columns rule None doc cols ?np (found @ [(k, fl)])) = (found @ [(k, fl)]) @ rest"
      using evaluate_columns_append by blast
    moreover have "fg_value fl" using Cons.prems True by (simp add: fl_def)
    ultimately show ?thesis unfolding step using True by auto
  next
    case False
    then show ?thesis unfolding step using Cons by auto
  qed
qed simp

lemma full_reason:
  assumes "c \<in> set RULE_COLUMNS" "c \<noteq> Payload_Mismatch" "\<forall>fs. fg_value (rule c doc fs)" "fg_value (status_only c doc)"
  shows "\<exists>r. vd_reason (classify rule e full (Inr doc)) = Some r \<and> r \<in> set (takeWhile (\<lambda>x. x \<noteq> c) REASONS @ [c])"
proof -
  let ?found = "fst (evaluate_columns rule None doc RULE_COLUMNS (\<not> is_markup doc) [])"
  let ?fs = "(Unreachable, rule_flag False 1 []) # ?found"
  have dis: "distinct RULE_COLUMNS" by (simp add: RULE_COLUMNS_def)
  obtain fl where fl: "(c, fl) \<in> set ?found" "fg_value fl"
    using evaluate_all [where rule = rule and doc = doc, OF dis assms] by blast
  obtain n where n: "map fst ?found = take n RULE_COLUMNS"
    using evaluate_columns_append [of rule None doc RULE_COLUMNS "\<not> is_markup doc" "[]"] by auto
  have "distinct (map fst ?found)" unfolding n by (rule distinct_take) (simp add: RULE_COLUMNS_def)
  then have m: "map_of ?found c = Some fl" using fl(1) by simp
  have "c \<noteq> Unreachable" using assms(1) by (auto simp: RULE_COLUMNS_def)
  have rf: "\<exists>more. render_flags doc ?fs = ?fs @ more" by (simp add: render_flags_def split: option.split)
  then obtain more where more: "render_flags doc ?fs = ?fs @ more" by blast
  have "raised (?fs @ more) c" using m fl(2) \<open>c \<noteq> Unreachable\<close> by (simp add: raised_def map_add_def)
  moreover have "c \<in> set REASONS" using assms(1) by (auto simp: RULE_COLUMNS_def REASONS_def)
  ultimately have "\<exists>r. primary (?fs @ more) = Some r \<and> r \<in> set (takeWhile (\<lambda>x. x \<noteq> c) REASONS @ [c])"
    unfolding primary_def by (intro find_first)
  then obtain r where r: "primary (?fs @ more) = Some r" "r \<in> set (takeWhile (\<lambda>x. x \<noteq> c) REASONS @ [c])"
    by (elim exE conjE)
  have never: "\<not> snd (evaluate_columns rule None doc cols np f)" for cols np f
    by (induction cols arbitrary: np f) (simp_all add: Let_def)
  have "vd_reason (classify rule e True (Inr doc)) = Some r"
    using more r(1) never by (simp add: classify_def evaluate_def from_flags_def Let_def split_beta)
  then show ?thesis using r(2) early_exit_reason [of rule e "Inr doc"] by (cases full) simp_all
qed

section \<open>Error statuses\<close>

text \<open>The column of an error status.\<close>

definition status_reason :: "int \<Rightarrow> reason" where
  "status_reason st =
     (if st = 429 then Rate_Limited else if st = 451 then Geo_Blocked else if st = 402 then Paywall
      else if st = 410 then Gone else if st = 404 then Not_Found else if st < 500 then Client_Error else Server_Error)"

lemma status_reason_raised:
  assumes "400 \<le> pg_status doc"
  shows "fg_value (RULES (status_reason (pg_status doc)) doc fs)" "fg_value (status_only (status_reason (pg_status doc)) doc)"
    "status_reason (pg_status doc) \<in> set RULE_COLUMNS" "status_reason (pg_status doc) \<noteq> Payload_Mismatch"
  using assms
  by (simp_all add: status_reason_def rate_limited_def geo_blocked_def paywall_def gone_def not_found_def client_error_def
      server_error_def yes_def rule_flag_def status_only_def Let_def RULE_COLUMNS_def)

lemma error_status_reason:
  assumes "400 \<le> pg_status doc"
  shows "\<exists>r. vd_reason (classify RULES e full (Inr doc)) = Some r
    \<and> r \<in> set (takeWhile (\<lambda>x. x \<noteq> status_reason (pg_status doc)) REASONS @ [status_reason (pg_status doc)])"
  using full_reason status_reason_raised [OF assms] by blast

section \<open>Bytes of an error page\<close>

definition no_body :: "capture_error + capture_result \<Rightarrow> bool" where
  "no_body x = (case x of Inl _ \<Rightarrow> True
     | Inr r \<Rightarrow> cr_outcome r = Captured \<longrightarrow> (\<exists>d. cr_document r = Some d \<and> do_representation d = Rendered_Html))"

lemma no_body_fails: "cr_outcome r = Not_Captured \<Longrightarrow> always no_body (fails f d r)"
  by (simp add: fails_def no_body_def)

lemma no_body_expired: "cr_outcome r = Not_Captured \<Longrightarrow> no_body (Inr (deadline_expired r))"
  by (simp add: no_body_def deadline_expired_def)

lemma no_body_rendered: "always no_body (captured (rendered_document rd) r)"
  by (simp add: captured_def no_body_def rendered_document_def)

lemma no_body_error [simp]: "no_body (Inl x)"
  by (simp add: no_body_def)

text \<open>A tier after the first is entered with the result still open.\<close>

definition body_free :: "again \<Rightarrow> bool" where
  "body_free again \<longleftrightarrow> (\<forall>t r. cr_outcome r = Not_Captured \<longrightarrow> always no_body (again t r))"

lemma fallback_no_body:
  assumes "body_free again" "cr_outcome r = Not_Captured" "always no_body p"
  shows "always no_body (or_else (local_fallback again j t r) p)"
proof -
  have "always no_body (again t' (decided Escalate r))" for t' using assms(1,2) by (simp add: body_free_def)
  then show ?thesis using assms(3) by (auto simp: or_else_def local_fallback_def split: option.split)
qed

lemma assessed_no_body:
  assumes "body_free again" "\<not> jb_http_usable j" "cr_outcome r = Not_Captured"
  shows "always no_body (render_assessed again j t rd a r)"
proof -
  have "always no_body (again t' (decided Escalate r))" for t' using assms by (simp add: body_free_def)
  moreover have "always no_body (fails f d (decided Fail r))" for f d using assms by (intro no_body_fails) simp
  moreover have "always no_body (fails f d ((decided Fail r)\<lparr>cr_final_url := u, cr_response := q\<rparr>))" for f d u q
    using assms by (intro no_body_fails) simp
  ultimately show ?thesis
    using assms(2) no_body_rendered no_body_expired [OF assms(3)]
    by (auto simp: render_assessed_def render_compared_def Let_def split: option.split)
qed

lemma render_step_no_body:
  assumes ag: "body_free again" and us: "\<not> jb_http_usable j" and r: "cr_outcome r = Not_Captured"
  shows "always no_body (render_step again j t r)"
proof -
  have nb: "always no_body (no_browser again j t p s acq f r)" for p s acq f
    unfolding no_browser_def Let_def
    by (intro fallback_no_body [OF ag] no_body_fails) (simp_all add: record_failed_render_def r)
  have failed: "always no_body (render_failed again j t rd r')" if "cr_outcome r' = Not_Captured" for rd r'
    unfolding render_failed_def Let_def using that by (auto intro!: fallback_no_body [OF ag] no_body_fails)
  have "always no_body (render_page again j t rd r)" for rd
    unfolding render_page_def Let_def
    by (auto simp: r intro!: failed assessed_no_body [OF ag us] no_body_fails split: option.split)
  then show ?thesis
    using nb no_body_fails [OF r] no_body_expired [OF r]
    by (auto simp: render_step_def split: render_outcome.split)
qed

lemma render_no_body:
  "\<not> jb_http_usable j \<Longrightarrow> cr_outcome r = Not_Captured \<Longrightarrow> always no_body (render n j t r)"
proof (induction n arbitrary: t r)
  case (Suc n)
  have "body_free (render n j)" using Suc.IH Suc.prems(1) by (simp add: body_free_def)
  from render_step_no_body [OF this Suc.prems] show ?case by simp
qed (simp add: no_body_def)

lemma open_http: "cr_outcome r = Not_Captured \<Longrightarrow> cr_outcome (add_attempt a (seen_response h r)) = Not_Captured"
  by simp

lemma too_large_no_body:
  assumes "cr_outcome r = Not_Captured"
  shows "always no_body (too_large sv rq http r)"
  unfolding too_large_def Let_def
  by (auto simp: assms intro!: no_body_fails render_no_body split: option.split)

lemma json_no_body:
  assumes "cr_outcome r = Not_Captured" "400 \<le> hp_status_code http"
  shows "always no_body (json_response http doc r)"
  unfolding json_response_def Let_def
  using assms(2) by (auto simp: assms(1) intro!: no_body_fails split: option.split)

lemma classified_no_body:
  assumes "cr_outcome r = Not_Captured" "\<not> is_xml (do_media_type doc)" "vd_reason v = Some p" "p \<noteq> Payload_Mismatch"
  shows "always no_body (classified sv rq http doc v r)"
  using assms(2-4) unfolding classified_def challenge_def Let_def
  by (auto simp: assms(1) intro!: no_body_fails render_no_body split: option.split)

lemma error_not_mismatch:
  assumes "400 \<le> pg_status doc"
  shows "vd_reason (classify RULES e full (Inr doc)) \<notin> {Some Payload_Mismatch, Some Unreachable}"
proof -
  let ?found = "fst (evaluate_columns RULES None doc RULE_COLUMNS (\<not> is_markup doc) [])"
  have pm: "\<not> fg_value (RULES Payload_Mismatch doc fs)" for fs
    using assms by (simp add: payload_mismatch_def rule_flag_def)
  obtain rest where "?found = [(Payload_Mismatch, RULES Payload_Mismatch doc [])] @ rest"
    using evaluate_columns_append [of RULES None doc "tl RULE_COLUMNS" _ "[(Payload_Mismatch, RULES Payload_Mismatch doc [])]"]
    by (auto simp: RULE_COLUMNS_def Let_def)
  moreover have "\<exists>more. render_flags doc ((Unreachable, rule_flag False 1 []) # ?found) = (Unreachable, rule_flag False 1 []) # ?found @ more"
    by (simp add: render_flags_def split: option.split)
  ultimately obtain more where more: "render_flags doc ((Unreachable, rule_flag False 1 []) # ?found)
      = (Unreachable, rule_flag False 1 []) # (Payload_Mismatch, RULES Payload_Mismatch doc []) # more" by force
  have never: "\<not> snd (evaluate_columns RULES None doc cols np f)" for cols np f
    by (induction cols arbitrary: np f) (simp_all add: Let_def)
  have "vd_reason (classify RULES e True (Inr doc)) = primary ((Unreachable, rule_flag False 1 []) # (Payload_Mismatch, RULES Payload_Mismatch doc []) # more)"
    using more never by (simp add: classify_def evaluate_def from_flags_def Let_def split_beta)
  moreover have "\<not> raised ((Unreachable, rule_flag False 1 []) # (Payload_Mismatch, RULES Payload_Mismatch doc []) # more) Payload_Mismatch"
    "\<not> raised ((Unreachable, rule_flag False 1 []) # (Payload_Mismatch, RULES Payload_Mismatch doc []) # more) Unreachable"
    using pm by (simp_all add: raised_def rule_flag_def)
  ultimately have "vd_reason (classify RULES e True (Inr doc)) \<notin> {Some Payload_Mismatch, Some Unreachable}"
    by (auto simp: primary_def find_Some_iff)
  then show ?thesis using early_exit_reason [of RULES e "Inr doc"] by (cases full) simp_all
qed

section \<open>Certainty\<close>

definition certain_enough :: "flag \<Rightarrow> bool" where
  "certain_enough f \<longleftrightarrow> 1/2 \<le> fg_confidence f \<and> fg_confidence f \<le> 1"

lemma simple_certain [simp]:
  "1/2 \<le> c \<Longrightarrow> c \<le> 1 \<Longrightarrow> certain_enough (rule_flag v c d)"
  "1/2 \<le> c \<Longrightarrow> c \<le> 1 \<Longrightarrow> certain_enough (na_flag c d)"
  "1/2 \<le> c \<Longrightarrow> c \<le> 1 \<Longrightarrow> certain_enough (yes c d)" "certain_enough (no doc)" "certain_enough no_unparsed"
  by (simp_all add: certain_enough_def rule_flag_def na_flag_def yes_def no_def no_unparsed_def)

lemma rules_certain: "certain_enough (RULES c doc fs)"
  by (cases c) (simp_all add: payload_mismatch_def rate_limited_def bot_challenge_def geo_blocked_def unsupported_browser_def
      interstitial_def auth_def paywall_def parked_def gone_def not_found_def client_error_def server_error_def Let_def
      split: option.split)

lemma evaluate_certain:
  "\<forall>x \<in> set found. certain_enough (snd x) \<Longrightarrow>
   \<forall>x \<in> set (fst (evaluate_columns RULES stop doc cols np found)). certain_enough (snd x)"
proof (induction cols arbitrary: np found)
  case (Cons c cols)
  define fl where "fl = (if c = Payload_Mismatch \<or> \<not> np then RULES c doc found else status_only c doc)"
  have "certain_enough fl" by (simp add: fl_def rules_certain status_only_def Let_def)
  then have f1: "\<forall>x \<in> set (found @ [(c, fl)]). certain_enough (snd x)" using Cons.prems by simp
  define np' where "np' = (if c = Payload_Mismatch \<and> fg_value fl then True else np)"
  have "evaluate_columns RULES stop doc (c # cols) np found =
      (if (case stop of Some k \<Rightarrow> fg_value fl \<and> k \<le> fg_confidence fl | None \<Rightarrow> False) then (found @ [(c, fl)], True)
       else evaluate_columns RULES stop doc cols np' (found @ [(c, fl)]))"
    unfolding np'_def fl_def by (simp only: evaluate_columns.simps Let_def)
  then show ?case using f1 Cons.IH [OF f1, of np'] by simp
qed simp

lemma verdict_certain:
  assumes "fs \<noteq> []" "\<forall>x \<in> set fs. certain_enough (snd x)"
  shows "1/2 \<le> vd_confidence (from_flags fs notes) \<and> vd_confidence (from_flags fs notes) \<le> 1"
proof -
  have low: "1/2 \<le> fold min xs (z :: rat) \<and> fold min xs z \<le> 1" if "1/2 \<le> z" "z \<le> 1" "\<forall>x \<in> set xs. 1/2 \<le> x \<and> x \<le> 1" for xs z
    using that by (induction xs arbitrary: z) auto
  have hd: "1/2 \<le> fg_confidence (snd (hd fs)) \<and> fg_confidence (snd (hd fs)) \<le> 1"
    using assms by (cases fs) (auto simp: certain_enough_def)
  have lowest: "1/2 \<le> fold min (map (fg_confidence \<circ> snd) fs) (fg_confidence (snd (hd fs)))
      \<and> fold min (map (fg_confidence \<circ> snd) fs) (fg_confidence (snd (hd fs))) \<le> 1"
    using assms(2) hd by (intro low) (auto simp: certain_enough_def)
  have known: "1/2 \<le> fg_confidence f \<and> fg_confidence f \<le> 1" if "map_of fs c = Some f" for c f
    using assms(2) map_of_SomeD [OF that] by (auto simp: certain_enough_def)
  have raised_known: "map_of fs c \<noteq> None" if "primary fs = Some c" for c
    using that by (auto simp: primary_def raised_def find_Some_iff split: option.splits)
  define conf where "conf = (case primary fs of
            Some c \<Rightarrow> (case map_of fs c of Some f \<Rightarrow> fg_confidence f | None \<Rightarrow> 0)
          | None \<Rightarrow> fold min (map (fg_confidence \<circ> snd) fs) (fg_confidence (snd (hd fs))))"
  have "1/2 \<le> conf \<and> conf \<le> 1"
    using lowest known raised_known unfolding conf_def by (auto split: option.split)
  then have "py_round (5000 :: rat) \<le> py_round (conf * 10000)" "py_round (conf * 10000) \<le> py_round (10000 :: rat)"
    by (intro py_round_mono; simp)+
  then have "5000 \<le> py_round (conf * 10000)" "py_round (conf * 10000) \<le> 10000" by simp_all
  then have "(5000 :: rat) \<le> of_int (py_round (conf * 10000))" "of_int (py_round (conf * 10000)) \<le> (10000 :: rat)" by simp_all
  moreover have "vd_confidence (from_flags fs notes) = round4 conf" by (simp add: from_flags_def Let_def conf_def)
  ultimately show ?thesis by (simp add: round4_def)
qed

section \<open>Properties\<close>

text \<open>A response with an error status always has a reason for rejection, the one of its status or an earlier
  one; and unless it is an XML document, a capture never returns its bytes as captured content, whatever the
  browser tiers answer: a captured page then comes from a render.\<close>

theorem error_pages_are_not_content:
  assumes "an_fetch an = Answer (Fetched http)" "400 \<le> hp_status_code http" "pg_status doc = hp_status_code http"
    and "an_verdict an = Answer (classify RULES e full (Inr doc))"
    and "\<not> is_xml (do_media_type (http_document sv http))" "capture sv rq an = Inr r"
  shows "(\<exists>p. vd_reason (classify RULES e full (Inr doc)) = Some p
      \<and> p \<in> set (takeWhile (\<lambda>x. x \<noteq> status_reason (pg_status doc)) REASONS @ [status_reason (pg_status doc)]))
    \<and> (cr_outcome r = Captured \<longrightarrow> (\<exists>d. cr_document r = Some d \<and> do_representation d = Rendered_Html))"
proof -
  let ?v = "classify RULES e full (Inr doc)" and ?r = "new_result rq"
  have st: "400 \<le> pg_status doc" using assms(2,3) by simp
  obtain p where p: "vd_reason ?v = Some p" "p \<noteq> Payload_Mismatch"
    using error_status_reason [OF st, of e full] error_not_mismatch [OF st, of e full] by auto
  let ?d = "http_document sv http"
  let ?r1 = "seen_response http (?r\<lparr>cr_document := Some ?d\<rparr>)"
  let ?r2 = "?r1\<lparr>cr_bytes := cr_bytes ?r1 + int (length (hp_body http))\<rparr>"
  have new: "cr_outcome ?r = Not_Captured" "cr_outcome ?r2 = Not_Captured" by (simp_all add: new_result_def)
  have raised: "no_body (Inl Raised_Outside)" by (simp add: no_body_def)
  have cl: "no_body (run an (classified sv rq http ?d ?v ?r2) n)" for n
    by (rule run_always [OF classified_no_body [OF new(2) assms(5) p] raised])
  have js: "no_body (run an (json_response http ?d ?r2) n)" for n by (rule run_always [OF json_no_body [OF new(2) assms(2)] raised])
  have tl: "no_body (run an (too_large sv rq http ?r) n)" for n by (rule run_always [OF too_large_no_body [OF new(1)] raised])
  have "no_body (run an (acquire sv rq ?r) 0)"
    using assms(1,2,4) cl js tl unfolding acquire_def fetched_response_def Let_def by simp
  then have "no_body (capture sv rq an)"
    by (auto simp: capture_def no_body_def filter_document_def split: sum.splits option.splits)
  then show ?thesis using error_status_reason [OF st, of e full] assms(6) by (simp add: no_body_def)
qed

text \<open>A missing page, served as HTML.\<close>

definition sample_missing :: page where
  "sample_missing = sample_facts\<lparr>pg_status := 404\<rparr>"

definition missing_answers :: answers where
  "missing_answers = sample_answers\<lparr>an_fetch := Answer (Fetched (sample_http\<lparr>hp_status_code := 404\<rparr>)),
     an_verdict := Answer (classify RULES (9/10) False (Inr sample_missing))\<rparr>"

theorem error_pages_are_not_content_witness:
  "\<exists>r. capture sample_service sample_request missing_answers = Inr r
     \<and> vd_reason (classify RULES (9/10) False (Inr sample_missing)) \<noteq> None
     \<and> \<not> (cr_outcome r = Captured \<and> map_option do_representation (cr_document r) = Some Response_Body)"
proof -
  have st: "400 \<le> pg_status sample_missing" by (simp add: sample_missing_def)
  have "vd_reason (classify RULES (9/10) False (Inr sample_missing)) \<noteq> Some Unreachable"
    using error_not_mismatch [OF st] by blast
  then have ok: "\<not> oversized_without_type missing_answers" "\<not> verdict_unreachable missing_answers"
    by (simp_all add: oversized_without_type_def verdict_unreachable_def missing_answers_def sample_http_def)
  have quiet: "\<not> raises missing_answers" by (simp add: raises_def missing_answers_def sample_answers_def)
  obtain r where r: "capture sample_service sample_request missing_answers = Inr r"
    using capture_good [OF sample_good(1) ok, of sample_request] quiet
    by (cases "run missing_answers (acquire sample_service sample_request (new_result sample_request)) 0")
      (auto simp: capture_def good_def escaped_def)
  have xml: "\<not> is_xml (do_media_type (http_document sample_service (sample_http\<lparr>hp_status_code := 404\<rparr>)))" by code_simp
  note facts = error_pages_are_not_content [where http = "sample_http\<lparr>hp_status_code := 404\<rparr>" and doc = sample_missing
      and e = "9/10" and full = False, OF _ _ _ _ xml r]
  have "(\<exists>p. vd_reason (classify RULES (9/10) False (Inr sample_missing)) = Some p
      \<and> p \<in> set (takeWhile (\<lambda>x. x \<noteq> status_reason (pg_status sample_missing)) REASONS @ [status_reason (pg_status sample_missing)]))
    \<and> (cr_outcome r = Captured \<longrightarrow> (\<exists>d. cr_document r = Some d \<and> do_representation d = Rendered_Html))"
    by (rule facts) (simp_all add: missing_answers_def sample_http_def sample_missing_def)
  then show ?thesis using r by (intro exI [of _ r]) auto
qed

text \<open>Every verdict on a page is at least half certain and at most certain, with the early exit and
  without.\<close>

theorem verdicts_are_certain:
  "1/2 \<le> vd_confidence (classify RULES e full response) \<and> vd_confidence (classify RULES e full response) \<le> 1"
proof (cases response)
  case (Inl err)
  have "\<forall>x \<in> set (if full then map (\<lambda>r. (r, na_flag 1 [])) (tl REASONS) else []). certain_enough (snd x)" by auto
  then show ?thesis unfolding Inl classify_def sum.case by (intro verdict_certain) auto
next
  case (Inr doc)
  obtain found stopped where ev: "evaluate RULES (if full then None else Some e) doc = (found, stopped)"
    by (cases "evaluate RULES (if full then None else Some e) doc")
  have "\<forall>x \<in> set found. certain_enough (snd x)"
    using evaluate_certain [of "[]" "if full then None else Some e" doc RULE_COLUMNS "\<not> is_markup doc"] ev
    by (simp add: evaluate_def)
  then have all: "\<forall>x \<in> set ((Unreachable, rule_flag False 1 []) # found). certain_enough (snd x)" by simp
  then have "\<forall>x \<in> set (render_flags doc ((Unreachable, rule_flag False 1 []) # found)). certain_enough (snd x)"
    by (auto simp: render_flags_def split: option.split)
  moreover have "render_flags doc ((Unreachable, rule_flag False 1 []) # found) \<noteq> []"
    by (simp add: render_flags_def split: option.split)
  ultimately have run: "1/2 \<le> vd_confidence (from_flags (render_flags doc ((Unreachable, rule_flag False 1 []) # found)) n)
      \<and> vd_confidence (from_flags (render_flags doc ((Unreachable, rule_flag False 1 []) # found)) n) \<le> 1" for n
    by (intro verdict_certain)
  have cut: "1/2 \<le> vd_confidence (from_flags ((Unreachable, rule_flag False 1 []) # found) n)
      \<and> vd_confidence (from_flags ((Unreachable, rule_flag False 1 []) # found) n) \<le> 1" for n
    using all by (intro verdict_certain) simp_all
  show ?thesis
    unfolding Inr classify_def sum.case ev prod.case Let_def
    using run cut by (cases stopped) (simp_all only: if_True if_False)
qed

lemma evaluate_pass:
  "rule c doc found = fl \<Longrightarrow> \<not> fg_value fl \<Longrightarrow>
   evaluate_columns rule stop doc (c # cs) False found = evaluate_columns rule stop doc cs False (found @ [(c, fl)])"
  by (simp add: Let_def split: option.split)

lemma evaluate_halt:
  "rule c doc found = fl \<Longrightarrow> fg_value fl \<Longrightarrow> k \<le> fg_confidence fl \<Longrightarrow>
   evaluate_columns rule (Some k) doc (c # cs) False found = (found @ [(c, fl)], True)"
  by (simp add: Let_def)

text \<open>A markup page that a bot-protection vendor marked in its headers is a challenge, with certainty 99/100;
  and since its reason is found in the headers, the verdict is the same whatever the HTML holds: it is never parsed.\<close>

theorem vendor_challenge_certain:
  assumes "challenge_header doc = Some h" "is_markup doc" "pg_status doc \<noteq> 429"
    and "\<not> (200 \<le> pg_status doc \<and> pg_status doc < 300 \<and> pg_empty_body doc)" "e \<le> 99/100"
    and "pg_status doc' = pg_status doc" "pg_headers doc' = pg_headers doc" "pg_empty_body doc' = pg_empty_body doc"
  shows "vd_reason (classify RULES e full (Inr doc)) = Some Bot_Challenge
    \<and> vd_confidence (classify RULES e False (Inr doc)) = 99/100
    \<and> classify RULES e False (Inr doc') = classify RULES e False (Inr doc)"
proof -
  have same: "header n doc' = header n doc" for n using assms(7) by (simp add: header_def)
  have "challenge_header doc' = challenge_header doc" "is_markup doc' = is_markup doc"
    by (simp_all only: challenge_header_def is_markup_def content_type_def same assms(6))
  then have same': "challenge_header doc' = Some h" "is_markup doc'" using assms(1,2) by simp_all
  note same_facts = assms(6-8)
  have cut: "classify RULES e False (Inr d) = from_flags [(Unreachable, rule_flag False 1 []),
        (Payload_Mismatch, rule_flag False 1 []), (Rate_Limited, no_unparsed), (Bot_Challenge, yes (99/100) h)]
      [''early exit: rules are certain ('' @ reason_value Bot_Challenge @ '': '' @ h @ '')'']"
    if "challenge_header d = Some h" "is_markup d" "pg_status d = pg_status doc" "pg_empty_body d = pg_empty_body doc" for d
  proof -
    have flags: "RULES Payload_Mismatch d fs = rule_flag False 1 []" "RULES Rate_Limited d fs = no_unparsed"
      "RULES Bot_Challenge d fs = yes (99/100) h" for fs
      using that assms(3,4) by (auto simp: payload_mismatch_def rate_limited_def bot_challenge_def)
    have false: "\<not> fg_value (rule_flag False 1 [])" "\<not> fg_value no_unparsed" "fg_value (yes (99/100) h)" "e \<le> fg_confidence (yes (99/100) h)"
      using assms(5) by (simp_all add: rule_flag_def no_unparsed_def yes_def)
    have "evaluate RULES (Some e) d = ([] @ [(Payload_Mismatch, rule_flag False 1 [])] @ [(Rate_Limited, no_unparsed)]
        @ [(Bot_Challenge, yes (99/100) h)], True)"
      unfolding evaluate_def RULE_COLUMNS_def using that(2)
      by (simp only: evaluate_pass [where rule = RULES and doc = d, OF flags(1) false(1)] evaluate_pass [where rule = RULES and doc = d, OF flags(2) false(2)]
          evaluate_halt [where rule = RULES and doc = d, OF flags(3) false(3,4)] append_assoc not_True_eq_False)
    then show ?thesis
      by (simp add: classify_def rules_primary_def) (simp add: yes_def no_unparsed_def rule_flag_def)
  qed
  have early: "vd_reason (classify RULES e False (Inr doc)) = Some Bot_Challenge" "vd_confidence (classify RULES e False (Inr doc)) = 99/100"
    unfolding cut [OF assms(1,2) refl refl]
    by (simp_all add: from_flags_def primary_def REASONS_def raised_def yes_def no_unparsed_def rule_flag_def round4_def)
  then have "vd_reason (classify RULES e full (Inr doc)) = Some Bot_Challenge"
    using early_exit_reason [of RULES e "Inr doc"] by (cases full) simp_all
  then show ?thesis using early(2) cut [OF assms(1,2) refl refl] cut [OF same' same_facts(1,3)] by simp
qed

theorem vendor_challenge_certain_witness:
  "vd_reason (classify RULES (9/10) True (Inr (sample_facts\<lparr>pg_headers := [(''cf-mitigated'', ''challenge'')]\<rparr>))) = Some Bot_Challenge
   \<and> classify RULES (9/10) False (Inr (sample_facts\<lparr>pg_headers := [(''cf-mitigated'', ''challenge'')], pg_text := ''shop''\<rparr>))
     = classify RULES (9/10) False (Inr (sample_facts\<lparr>pg_headers := [(''cf-mitigated'', ''challenge'')]\<rparr>))"
proof -
  let ?doc = "sample_facts\<lparr>pg_headers := [(''cf-mitigated'', ''challenge'')]\<rparr>"
  have pre: "challenge_header ?doc = Some ''cf-mitigated: challenge''" "is_markup ?doc" "pg_status ?doc \<noteq> 429"
    "\<not> (200 \<le> pg_status ?doc \<and> pg_status ?doc < 300 \<and> pg_empty_body ?doc)" by code_simp+
  have e: "9/10 \<le> (99/100 :: rat)" by simp
  note facts = vendor_challenge_certain [OF pre e, where full = True]
  show ?thesis using facts [where doc' = "?doc\<lparr>pg_text := ''shop''\<rparr>"] by simp
qed

end
