(* ===== verification/Effects.thy ===== *)
theory Effects
  imports Contracts
begin

text \<open>
  Coroutines that raise, catch and clean up. A computation asks the outside (the database, a browser, the clock) and
  goes on with the answer; every question is an \<open>await\<close>, at which the computation can be cancelled. A
  cancellation carries its origin: the task itself, or one of the \<open>asyncio.timeout\<close> blocks around it, which turns its
  own cancellation into a \<open>TimeoutError\<close>, or the event for which its owner stops it. An action is a computation over a state, with an exception or a value.
\<close>

section \<open>Exceptions\<close>

datatype scope =
    Outside | Policy_Wait | Admission_Wait | Setup_Wait | Slot_Wait | Switch_Wait | Queue_Wait | Cleanup_Wait
  | Render_Budget | Service_Deadline | Admission_Budget | Preparation_Wait | Acquisition_Wait | Disconnect | Lease_Watch

datatype exn =
    Cancelled scope
  | Timeout_Error
  | Db_Error "string option list"
  | Rejected rejection
  | Runtime_Error
  | Value_Error
  | Os_Error
  | Client_Gone
  | Domain_Throttled string
  | Browser_Capacity
  | Unavailable string
  | Uncaught

text \<open>\<open>CancelledError\<close> is not an \<open>Exception\<close>.\<close>

fun is_exception :: "exn \<Rightarrow> bool" where
  "is_exception (Cancelled c) \<longleftrightarrow> False"
| "is_exception e \<longleftrightarrow> True"

text \<open>The SQL states along the chain of causes (\<^verbatim>\<open>backend/db/errors.py\<close>).\<close>

definition transient_sqlstates :: "string list" where
  "transient_sqlstates = [''40001'', ''40P01'']"

fun is_transient_database_error :: "exn \<Rightarrow> bool" where
  "is_transient_database_error (Db_Error chain) \<longleftrightarrow> list_ex (\<lambda>s. case s of Some t \<Rightarrow> t \<in> set transient_sqlstates | None \<Rightarrow> False) chain"
| "is_transient_database_error e \<longleftrightarrow> False"

section \<open>Computations\<close>

datatype ('q, 'a, 'x) io = Done 'x | Ask 'q "'a \<Rightarrow> ('q, 'a, 'x) io"

primrec bind_io :: "('q, 'a, 'x) io \<Rightarrow> ('x \<Rightarrow> ('q, 'a, 'y) io) \<Rightarrow> ('q, 'a, 'y) io" where
  "bind_io (Done x) f = f x"
| "bind_io (Ask q k) f = Ask q (\<lambda>a. bind_io (k a) f)"

text \<open>The conversation with an outside that answers the \<open>n\<close>-th question by a function of the question.\<close>

primrec converse :: "(nat \<Rightarrow> 'q \<Rightarrow> 'a) \<Rightarrow> nat \<Rightarrow> ('q, 'a, 'x) io \<Rightarrow> ('q \<times> 'a) list \<times> 'x" where
  "converse outside n (Done x) = ([], x)"
| "converse outside n (Ask q k) =
     (let a = outside n q; (talk, x) = converse outside (Suc n) (k a) in ((q, a) # talk, x))"

type_synonym ('q, 'a, 's, 'x) act = "'s \<Rightarrow> ('q, 'a, (exn + 'x) \<times> 's) io"

definition give :: "'x \<Rightarrow> ('q, 'a, 's, 'x) act" where
  "give x s = Done (Inr x, s)"

definition throw :: "exn \<Rightarrow> ('q, 'a, 's, 'x) act" where
  "throw e s = Done (Inl e, s)"

definition call :: "'q \<Rightarrow> ('a \<Rightarrow> exn + 'x) \<Rightarrow> ('q, 'a, 's, 'x) act" where
  "call q read s = Ask q (\<lambda>a. Done (read a, s))"

definition get_state :: "('q, 'a, 's, 's) act" where
  "get_state s = Done (Inr s, s)"

definition change_state :: "('s \<Rightarrow> 's) \<Rightarrow> ('q, 'a, 's, unit) act" where
  "change_state f s = Done (Inr (), f s)"

definition and_then :: "('q, 'a, 's, 'x) act \<Rightarrow> ('x \<Rightarrow> ('q, 'a, 's, 'y) act) \<Rightarrow> ('q, 'a, 's, 'y) act" where
  "and_then m f s = bind_io (m s) (\<lambda>(r, s1). case r of Inl e \<Rightarrow> Done (Inl e, s1) | Inr x \<Rightarrow> f x s1)"

definition catching :: "('q, 'a, 's, 'x) act \<Rightarrow> (exn \<Rightarrow> ('q, 'a, 's, 'x) act) \<Rightarrow> ('q, 'a, 's, 'x) act" where
  "catching m h s = bind_io (m s) (\<lambda>(r, s1). case r of Inl e \<Rightarrow> h e s1 | Inr x \<Rightarrow> Done (Inr x, s1))"

text \<open>\<open>try: m finally: c\<close>, where the cleanup knows how the body ended. What the cleanup raises replaces the outcome.\<close>

definition finally_do :: "('q, 'a, 's, 'x) act \<Rightarrow> (exn + 'x \<Rightarrow> ('q, 'a, 's, unit) act) \<Rightarrow> ('q, 'a, 's, 'x) act" where
  "finally_do m c s = bind_io (m s) (\<lambda>(r, s1). bind_io (c r s1)
     (\<lambda>(r2, s2). Done (case r2 of Inl e \<Rightarrow> Inl e | Inr _ \<Rightarrow> r, s2)))"

text \<open>\<open>async with asyncio.timeout(...)\<close>\<close>

definition within_time :: "scope \<Rightarrow> ('q, 'a, 's, 'x) act \<Rightarrow> ('q, 'a, 's, 'x) act" where
  "within_time c m = catching m (\<lambda>e. throw (if e = Cancelled c then Timeout_Error else e))"

definition swallowing :: "('q, 'a, 's, unit) act \<Rightarrow> ('q, 'a, 's, unit) act" where
  "swallowing m = catching m (\<lambda>e. if is_exception e then give () else throw e)"

section \<open>Monitors\<close>

text \<open>A monitor follows a conversation with a state of its own. The rules say what holds of that state, and of the
  state of the action, when an action ends, for all answers the monitor allows.\<close>

locale monitor =
  fixes watch :: "'q \<Rightarrow> 'a \<Rightarrow> 'l \<Rightarrow> 'l" and allowed :: "'q \<Rightarrow> 'a \<Rightarrow> bool"
begin

primrec every :: "('l \<Rightarrow> 'x \<Rightarrow> bool) \<Rightarrow> 'l \<Rightarrow> ('q, 'a, 'x) io \<Rightarrow> bool" where
  "every Q l (Done x) \<longleftrightarrow> Q l x"
| "every Q l (Ask q k) \<longleftrightarrow> (\<forall>a. allowed q a \<longrightarrow> every Q (watch q a l) (k a))"

lemma every_bind: "every Q l (bind_io m f) \<longleftrightarrow> every (\<lambda>l x. every Q l (f x)) l m"
  by (induction m arbitrary: l) auto

lemma every_mono: "every Q l m \<Longrightarrow> (\<And>l x. Q l x \<Longrightarrow> Q' l x) \<Longrightarrow> every Q' l m"
  by (induction m arbitrary: l) auto

text \<open>\<open>leads P m Q\<close>: started where \<open>P\<close> holds, \<open>m\<close> ends where \<open>Q\<close> holds of its outcome.\<close>

definition leads :: "('l \<Rightarrow> 's \<Rightarrow> bool) \<Rightarrow> ('q, 'a, 's, 'x) act \<Rightarrow> (exn + 'x \<Rightarrow> 'l \<Rightarrow> 's \<Rightarrow> bool) \<Rightarrow> bool" where
  "leads P m Q \<longleftrightarrow> (\<forall>l s. P l s \<longrightarrow> every (\<lambda>l (r, s). Q r l s) l (m s))"

lemma leads_give: "(\<And>l s. P l s \<Longrightarrow> Q (Inr x) l s) \<Longrightarrow> leads P (give x) Q"
  by (simp add: leads_def give_def)

lemma leads_throw: "(\<And>l s. P l s \<Longrightarrow> Q (Inl e) l s) \<Longrightarrow> leads P (throw e) Q"
  by (simp add: leads_def throw_def)

lemma leads_call:
  "(\<And>l s a. P l s \<Longrightarrow> allowed q a \<Longrightarrow> Q (read a) (watch q a l) s) \<Longrightarrow> leads P (call q read) Q"
  by (simp add: leads_def call_def)

lemma leads_get: "(\<And>s. leads (\<lambda>l s'. P l s' \<and> s' = s) (f s) Q) \<Longrightarrow> leads P (and_then get_state f) Q"
  by (simp add: leads_def and_then_def get_state_def)

lemma leads_change: "(\<And>l s. P l s \<Longrightarrow> Q (Inr ()) l (f s)) \<Longrightarrow> leads P (change_state f) Q"
  by (simp add: leads_def change_state_def)

lemma leads_then:
  assumes "leads P m R" "\<And>x. leads (R (Inr x)) (f x) Q" "\<And>e l s. R (Inl e) l s \<Longrightarrow> Q (Inl e) l s"
  shows "leads P (and_then m f) Q"
  unfolding leads_def and_then_def every_bind
proof (intro allI impI)
  fix l s assume "P l s"
  then have "every (\<lambda>l (r, s). R r l s) l (m s)" using assms(1) by (simp add: leads_def)
  then show "every (\<lambda>l x. every (\<lambda>l (r, s). Q r l s) l (case x of (r, s1) \<Rightarrow> case r of Inl e \<Rightarrow> Done (Inl e, s1) | Inr x \<Rightarrow> f x s1)) l (m s)"
    by (rule every_mono) (use assms(2,3) in \<open>auto simp: leads_def split: sum.split prod.split\<close>)
qed

lemma leads_catching:
  assumes "leads P m R" "\<And>e. leads (R (Inl e)) (h e) Q" "\<And>x l s. R (Inr x) l s \<Longrightarrow> Q (Inr x) l s"
  shows "leads P (catching m h) Q"
  unfolding leads_def catching_def every_bind
proof (intro allI impI)
  fix l s assume "P l s"
  then have "every (\<lambda>l (r, s). R r l s) l (m s)" using assms(1) by (simp add: leads_def)
  then show "every (\<lambda>l x. every (\<lambda>l (r, s). Q r l s) l (case x of (r, s1) \<Rightarrow> case r of Inl e \<Rightarrow> h e s1 | Inr x \<Rightarrow> Done (Inr x, s1))) l (m s)"
    by (rule every_mono) (use assms(2,3) in \<open>auto simp: leads_def split: sum.split prod.split\<close>)
qed

lemma leads_finally:
  assumes "leads P m R" "\<And>r. leads (R r) (c r) (S r)"
    "\<And>r e l s. S r (Inl e) l s \<Longrightarrow> Q (Inl e) l s" "\<And>r u l s. S r (Inr u) l s \<Longrightarrow> Q r l s"
  shows "leads P (finally_do m c) Q"
  unfolding leads_def finally_do_def every_bind
proof (intro allI impI)
  fix l s assume "P l s"
  then have "every (\<lambda>l (r, s). R r l s) l (m s)" using assms(1) by (simp add: leads_def)
  then show "every (\<lambda>l x. every (\<lambda>l (r, s). Q r l s) l
      (case x of (r, s1) \<Rightarrow> bind_io (c r s1) (\<lambda>(r2, s2). Done (case r2 of Inl e \<Rightarrow> Inl e | Inr _ \<Rightarrow> r, s2)))) l (m s)"
  proof (rule every_mono, clarsimp simp: every_bind)
    fix l r s1 assume "R r l s1"
    then have "every (\<lambda>l (r2, s2). S r r2 l s2) l (c r s1)" using assms(2) by (simp add: leads_def)
    then show "every (\<lambda>l x. every (\<lambda>l (r, s). Q r l s) l (case x of (r2, s2) \<Rightarrow> Done (case r2 of Inl e \<Rightarrow> Inl e | Inr _ \<Rightarrow> r, s2))) l (c r s1)"
      by (rule every_mono) (use assms(3,4) in \<open>auto split: sum.split\<close>)
  qed
qed

lemma leads_weaken: "leads P' m Q' \<Longrightarrow> (\<And>l s. P l s \<Longrightarrow> P' l s) \<Longrightarrow> (\<And>r l s. Q' r l s \<Longrightarrow> Q r l s) \<Longrightarrow> leads P m Q"
  unfolding leads_def by (blast intro: every_mono)

lemma leads_within:
  "leads P m (\<lambda>r. Q (case r of Inl e \<Rightarrow> Inl (if e = Cancelled c then Timeout_Error else e) | Inr x \<Rightarrow> Inr x)) \<Longrightarrow>
   leads P (within_time c m) Q"
  unfolding within_time_def by (erule leads_catching) (auto intro: leads_throw)

text \<open>What a monitor says of a conversation.\<close>

lemma every_converse:
  "every Q l m \<Longrightarrow> converse outside n m = (talk, x) \<Longrightarrow> \<forall>(q, a) \<in> set talk. allowed q a \<Longrightarrow>
   Q (fold (\<lambda>(q, a). watch q a) talk l) x"
proof (induction m arbitrary: l n talk)
  case (Ask q k)
  obtain talk' where "converse outside (Suc n) (k (outside n q)) = (talk', x)" "talk = (q, outside n q) # talk'"
    using Ask.prems(2) by (auto simp: Let_def split: prod.splits)
  moreover have "allowed q (outside n q)" using Ask.prems(3) calculation(2) by auto
  ultimately show ?case
    using Ask.prems(1,3) Ask.IH [OF rangeI [of k "outside n q"], of "watch q (outside n q) l" "Suc n" talk'] by auto
qed auto

end

end
