(* ===== verification/Leases.thy ===== *)
theory Leases
  imports Effects Capture_Service Pacing_Controller
begin

text \<open>
  The lease managers (\<^verbatim>\<open>backend/proxy/attempts/manager.py\<close>, \<^verbatim>\<open>backend/proxy/sessions/manager.py\<close>): admission of an
  attempt with its queue and its retries, the release of an attempt and of a session, the heartbeat. The database is
  the outside; a transaction that raises has been rolled back, one that was cancelled may have committed. Here are also
  the questions and answers of the capture endpoint, which uses the managers. Left out: the settings
  written into an attempt, and logging.
\<close>

section \<open>Questions and answers\<close>

datatype request =
    Get_Policy
  | Get_Limit
  | Admit string
  | Open_Session string
  | Release_Session string bool string
  | Enqueue string provider_name "string option"
  | Claim string
  | Activate string
  | Finish string bool string
  | Backoff request
  | Notify provider_name
  | Wait_Capacity provider_name
  | Pace string
  | Unpace string "observation option"
  | Time_Left
  | Seconds
  | Fetch
  | Classify
  | Ask_Cache
  | Render_On tier_name
  | Record_Method bool
  | Record_Result
  | Resolve_Settings
  | Receive_First
  | Open_Provider
  | Bind_Provider string
  | Provider_Usage string
  | Close_Provider
  | Watch_Preparation
  | Accept_Client
  | Relay
  | Reject_Client rejection
  | Flush_Summary string
  | Flush_Summaries

datatype answer =
    Fine
  | Yes_No bool
  | Limit "bool option"
  | Admission session_admission_status
  | Placed admission_status "string option"
  | Claimed "string option option"
  | Took rat
  | Fetched_As fetch_outcome
  | Classified verdict
  | Cached "cache_decision option \<times> bool"
  | Rendered_As render_outcome
  | Raises exn
  | Interrupted scope answer

text \<open>An answer to another question does not occur; it counts as an uncaught error. \<open>Interrupted\<close>: the task that waits
  for a shielded task is cancelled, and the shielded task is drained and gives its own answer.\<close>

fun raised_by :: "answer \<Rightarrow> exn" where
  "raised_by (Raises e) = e"
| "raised_by _ = Uncaught"

fun as_unit :: "answer \<Rightarrow> exn + unit" where
  "as_unit Fine = Inr ()"
| "as_unit a = Inl (raised_by a)"

fun as_bool :: "answer \<Rightarrow> exn + bool" where
  "as_bool (Yes_No b) = Inr b"
| "as_bool a = Inl (raised_by a)"

fun as_placed :: "answer \<Rightarrow> exn + (admission_status \<times> string option)" where
  "as_placed (Placed st ep) = Inr (st, ep)"
| "as_placed a = Inl (raised_by a)"

fun as_claimed :: "answer \<Rightarrow> exn + string option option" where
  "as_claimed (Claimed c) = Inr c"
| "as_claimed a = Inl (raised_by a)"

section \<open>State\<close>

record lease =
  le_attempt :: string
  le_provider :: provider_name
  le_endpoint :: "string option"
  le_active :: bool
  le_released :: bool

text \<open>A capture's hold on capacity (\<open>_Capture\<close>), its pacing lease, and how many identifiers it has drawn; then
  what else a connection keeps in its local variables, whose attempt is in the slot.\<close>

record holding =
  ho_session :: string
  ho_session_released :: bool
  ho_slot :: "lease option"
  ho_cloud :: "lease option"
  ho_pacing :: "string option"
  ho_drawn :: nat
  ho_admitted :: bool
  ho_provider :: bool
  ho_accepted :: bool
  ho_observed :: bool
  ho_gone :: bool
  ho_expired :: bool
  ho_failed :: bool
  ho_reason :: string

type_synonym 'x task = "(request, answer, holding, 'x) act"

definition new_uuid :: "(nat \<Rightarrow> string) \<Rightarrow> string task" where
  "new_uuid uuid = and_then get_state (\<lambda>s. and_then (change_state (\<lambda>s. s\<lparr>ho_drawn := Suc (ho_drawn s)\<rparr>)) (\<lambda>_. give (uuid (ho_drawn s))))"

section \<open>Attempts\<close>

definition DATABASE_ATTEMPTS :: nat where "DATABASE_ATTEMPTS = 3"

primrec retry_runs :: "nat \<Rightarrow> request \<Rightarrow> 'x task \<Rightarrow> 'x task" where
  "retry_runs 0 q m = throw Uncaught"
| "retry_runs (Suc n) q m = catching m (\<lambda>e.
     if n = 0 \<or> \<not> is_transient_database_error e then throw e
     else and_then (call (Backoff q) as_unit) (\<lambda>_. retry_runs n q m))"

definition retry_transient :: "request \<Rightarrow> (answer \<Rightarrow> exn + 'x) \<Rightarrow> 'x task" where
  "retry_transient q read = retry_runs DATABASE_ATTEMPTS q (call q read)"

text \<open>\<open>_fail\<close>: what it raises is logged, unless it is a cancellation.\<close>

definition fail_attempt :: "string \<Rightarrow> string \<Rightarrow> unit task" where
  "fail_attempt i reason = swallowing (within_time Cleanup_Wait (call (Finish i True reason) as_unit))"

text \<open>Polling ends when the attempt is claimed or the timeout fires; \<open>polls\<close>: it fires after that many rounds at
  the latest.\<close>

primrec poll :: "nat \<Rightarrow> string \<Rightarrow> provider_name \<Rightarrow> string option task" where
  "poll 0 i p = throw (Cancelled Queue_Wait)"
| "poll (Suc n) i p = and_then (retry_transient (Claim i) as_claimed) (\<lambda>c.
     case c of Some ep \<Rightarrow> give ep
     | None \<Rightarrow> and_then (call (Wait_Capacity p) as_unit) (\<lambda>_. poll n i p))"

definition place :: "nat \<Rightarrow> string \<Rightarrow> provider_name \<Rightarrow> string option \<Rightarrow> string option task" where
  "place polls i p replacement = and_then (retry_transient (Enqueue i p replacement) as_placed) (\<lambda>(status, ep).
     case status of
       ADM_FULL \<Rightarrow> throw (Rejected ProviderQueueFull)
     | ADM_QUEUED \<Rightarrow> within_time Queue_Wait (poll polls i p)
     | ADM_ACQUIRING \<Rightarrow> give ep)"

definition acquire_attempt ::
  "(nat \<Rightarrow> string) \<Rightarrow> nat \<Rightarrow> provider_name \<Rightarrow> string option \<Rightarrow> lease task" where
  "acquire_attempt uuid polls p replacement = and_then (new_uuid uuid) (\<lambda>i.
     and_then
       (catching (place polls i p replacement) (\<lambda>e. case e of
           Timeout_Error \<Rightarrow> and_then (fail_attempt i ''provider_queue_timeout'') (\<lambda>_. throw (Rejected ProviderQueueTimeout))
         | Cancelled c \<Rightarrow> and_then (fail_attempt i ''client_disconnected'') (\<lambda>_. throw (Cancelled c))
         | _ \<Rightarrow> throw e))
       (\<lambda>ep. give \<lparr>le_attempt = i, le_provider = p, le_endpoint = ep, le_active = False, le_released = False\<rparr>))"

text \<open>A lease is an object: what it remembers is written through \<open>keep\<close>, also when an exception follows.\<close>

type_synonym keep = "lease \<Rightarrow> holding \<Rightarrow> holding"

definition activate_lease :: "keep \<Rightarrow> lease \<Rightarrow> unit task" where
  "activate_lease keep l = and_then (call (Activate (le_attempt l)) as_bool) (\<lambda>ok.
     if ok then change_state (keep (l\<lparr>le_active := True\<rparr>)) else throw Runtime_Error)"

definition release_lease :: "keep \<Rightarrow> lease \<Rightarrow> bool \<Rightarrow> string \<Rightarrow> unit task" where
  "release_lease keep l failed reason =
     (if le_released l then give ()
      else and_then (retry_transient (Finish (le_attempt l) failed reason) as_bool) (\<lambda>released.
        and_then (change_state (keep (l\<lparr>le_released := True\<rparr>))) (\<lambda>_.
          if released then swallowing (call (Notify (le_provider l)) as_unit) else give ())))"

section \<open>Sessions\<close>

fun as_admission :: "answer \<Rightarrow> exn + session_admission_status" where
  "as_admission (Admission st) = Inr st"
| "as_admission a = Inl (raised_by a)"

text \<open>\<open>admit\<close> raises when the gateway is full, and otherwise gives the lease.\<close>

fun admitted :: "answer \<Rightarrow> exn + unit" where
  "admitted (Admission SA_ADMITTED) = Inr ()"
| "admitted (Admission SA_FULL) = Inl (Rejected GatewayCapacityFull)"
| "admitted a = Inl (raised_by a)"

definition open_lease :: "unit task" where
  "open_lease = and_then get_state (\<lambda>s. and_then (call (Open_Session (ho_session s)) as_bool) (\<lambda>ok.
     if ok then give () else throw (Rejected SessionLeaseLost)))"

definition release_session_lease :: "bool \<Rightarrow> string \<Rightarrow> unit task" where
  "release_session_lease failed reason = and_then get_state (\<lambda>s.
     if ho_session_released s then give ()
     else and_then (change_state (\<lambda>s. s\<lparr>ho_session_released := True\<rparr>)) (\<lambda>_.
       call (Release_Session (ho_session s) failed reason) as_unit))"

text \<open>\<open>_heartbeat\<close>, on the answers of the repository in their order: how many heartbeats it sends, and whether it
  declares the lease lost. It goes on while they succeed, and stops silently when the task is cancelled.\<close>

fun heartbeat_task :: "answer list \<Rightarrow> nat \<times> bool" where
  "heartbeat_task [] = (0, False)"
| "heartbeat_task (a # as) =
     (case as_bool a of
        Inr True \<Rightarrow> (let (n, lost) = heartbeat_task as in (Suc n, lost))
      | Inr False \<Rightarrow> (1, True)
      | Inl e \<Rightarrow> (1, is_exception e))"

text \<open>What a capture and a connection start with.\<close>

definition empty_handed :: holding where
  "empty_handed = \<lparr>ho_session = [], ho_session_released = False, ho_slot = None, ho_cloud = None, ho_pacing = None, ho_drawn = 0,
     ho_admitted = False, ho_provider = False, ho_accepted = False, ho_observed = False, ho_gone = False, ho_expired = False,
     ho_failed = False, ho_reason = ''client_disconnected''\<rparr>"

section \<open>Cleanup\<close>

text \<open>\<open>_bounded\<close> of the capture endpoint and \<open>_bounded_cleanup\<close> of the gateway.\<close>

definition bounded :: "unit task \<Rightarrow> unit task" where
  "bounded m = swallowing (within_time Cleanup_Wait m)"

definition keep_slot :: keep where
  "keep_slot l s = s\<lparr>ho_slot := Some l\<rparr>"

end
