(* ===== verification/Capture_Endpoint.thy ===== *)
theory Capture_Endpoint
  imports Leases Urls
begin

text \<open>
  The capture endpoint (\<^verbatim>\<open>backend/proxy/capture/service.py\<close> with \<^verbatim>\<open>tiers.py\<close>, \<^verbatim>\<open>pacing.py\<close> and
  \<^verbatim>\<open>analytics.py\<close>): it admits a session and the site's pacing, runs the capture of \<^verbatim>\<open>Capture_Service\<close> with browser tiers
  that take capacity when rendering starts, and gives everything back in the end. Each await is a question to the
  outside, at which the task can be cancelled or a timeout can fire. Left out: the network policy's exclusions, which
  the outside applies, metrics, logs, and the summary event.
\<close>

section \<open>Host names\<close>

record capture_endpoint =
  ep_urls :: url_env
  ep_ip :: "string \<Rightarrow> string option"
  ep_uuid :: "nat \<Rightarrow> string"
  ep_polls :: nat
  ep_cloud :: bool
  ep_service :: service

text \<open>\<open>ip_address(value).compressed\<close> is a parameter. \<open>None\<close>: \<open>ValueError\<close>.\<close>

definition normalize_hostname :: "capture_endpoint \<Rightarrow> string \<Rightarrow> string option" where
  "normalize_hostname ep hostname =
     (case idna_encode (ue_puny (ep_urls ep)) (rstrip CHR ''.'' hostname) of
        None \<Rightarrow> None
      | Some ascii \<Rightarrow>
          let v = lower ascii
          in case ep_ip ep v of
               Some ip \<Rightarrow> Some ip
             | None \<Rightarrow>
                 if v = [] \<or> length v > 253 \<or> \<not> list_all label_ok (split_on CHR ''.'' v) then None else Some v)"

definition url_hostname :: "capture_endpoint \<Rightarrow> string \<Rightarrow> string option" where
  "url_hostname ep url =
     map_option (\<lambda>p. case hostname_of p of Some h \<Rightarrow> h | None \<Rightarrow> []) (urlsplit (ep_urls ep) url)"

definition normal_host_of :: "capture_endpoint \<Rightarrow> string \<Rightarrow> string option" where
  "normal_host_of ep url = (case url_hostname ep url of Some h \<Rightarrow> normalize_hostname ep h | None \<Rightarrow> None)"

section \<open>Evidence for pacing and accounting\<close>

definition same_host :: "capture_endpoint \<Rightarrow> string \<Rightarrow> string option \<Rightarrow> bool" where
  "same_host ep requested url =
     (case (normal_host_of ep requested, normal_host_of ep (case url of Some u \<Rightarrow> u | None \<Rightarrow> [])) of
        (Some a, Some b) \<Rightarrow> a = b
      | _ \<Rightarrow> False)"

definition observed :: "pacing_outcome \<Rightarrow> rat option \<Rightarrow> observation" where
  "observed out retry = \<lparr>obs_outcome = out, obs_retry_after = map_option Finite retry\<rparr>"

definition max_retry :: "attempt list \<Rightarrow> rat option" where
  "max_retry as =
     (case List.map_filter at_retry_after_seconds as of [] \<Rightarrow> None | q # qs \<Rightarrow> Some (fold max qs q))"

definition pacing_observation :: "capture_endpoint \<Rightarrow> capture_request \<Rightarrow> capture_result \<Rightarrow> observation" where
  "pacing_observation ep rq r =
     (let attempts = cr_attempts r;
          throttles = filter (\<lambda>a. at_status_code a = Some 429 \<and> same_host ep (rq_url rq) (at_final_url a)) attempts;
          latest = find (\<lambda>a. non_empty (at_final_url a) \<noteq> None) (rev attempts);
          latest_retry = (case latest of Some a \<Rightarrow> at_retry_after_seconds a | None \<Rightarrow> None)
      in if throttles \<noteq> [] then observed Throttled (max_retry throttles)
         else if \<not> same_host ep (rq_url rq) (case latest of Some a \<Rightarrow> at_final_url a | None \<Rightarrow> Some (cr_final_url r))
         then observed Neutral None
         else case cr_failure r of
           None \<Rightarrow> observed Healthy None
         | Some f \<Rightarrow>
             if fa_category f \<noteq> Website then
               (case latest of
                  Some a \<Rightarrow>
                    if fa_category f = Content
                       \<and> (at_status_code a = Some 401 \<or> at_status_code a = Some 403
                          \<or> (case at_status_code a of Some st \<Rightarrow> st \<ge> 500 | None \<Rightarrow> False))
                    then observed Overload (at_retry_after_seconds a) else observed Neutral None
                | None \<Rightarrow> observed Neutral None)
             else if fa_code f = F_Rate_Limited then observed Throttled (fa_retry_after_seconds f)
             else if fa_code f \<in> {F_Website_Error, F_Access_Denied, F_Bot_Blocked}
             then observed Overload (if latest_retry \<noteq> None then latest_retry else fa_retry_after_seconds f)
             else observed Neutral None)"

datatype acquisition_outcome = Default_Acquisition | Internally_Resolved | Externally_Resolved | Total_Failure

definition acquisition_outcome_of :: "capture_result \<Rightarrow> acquisition_outcome" where
  "acquisition_outcome_of r =
     (if cr_outcome r \<noteq> Captured then Total_Failure
      else if (case cr_document r of Some d \<Rightarrow> do_representation d = Response_Body | None \<Rightarrow> False) then Default_Acquisition
      else case find (\<lambda>a. at_decision a = Accept) (rev (cr_attempts r)) of
             Some a \<Rightarrow>
               if at_tier a = Local_Resolution then Internally_Resolved
               else if at_tier a = Challenge_Resolution then Externally_Resolved
               else Default_Acquisition
           | None \<Rightarrow> Default_Acquisition)"

record capture_facts =
  cf_acquisition_outcome :: acquisition_outcome
  cf_resolution_enabled :: bool
  cf_challenge_detected :: bool
  cf_local_attempted :: bool
  cf_external_attempted :: bool
  cf_paid :: bool

definition capture_facts_of :: "capture_result \<Rightarrow> bool \<Rightarrow> capture_facts" where
  "capture_facts_of r resolution_enabled =
     \<lparr>cf_acquisition_outcome = acquisition_outcome_of r, cf_resolution_enabled = resolution_enabled,
      cf_challenge_detected = list_ex (\<lambda>a. as_primary (at_assessment a) = Some Bot_Challenge) (cr_attempts r),
      cf_local_attempted = list_ex (\<lambda>a. at_tier a = Local_Resolution) (cr_attempts r),
      cf_external_attempted = list_ex (\<lambda>a. at_tier a = Challenge_Resolution) (cr_attempts r),
      cf_paid = cr_paid r\<rparr>"

section \<open>Capacity for rendering\<close>

definition keep_cloud :: keep where
  "keep_cloud l s = s\<lparr>ho_cloud := Some l\<rparr>"

definition no_capacity :: "exn \<Rightarrow> bool" where
  "no_capacity e \<longleftrightarrow> e \<in> {Rejected ProviderQueueFull, Rejected ProviderQueueTimeout, Timeout_Error}"

definition take_slot :: "capture_endpoint \<Rightarrow> unit task" where
  "take_slot ep = and_then (call Time_Left as_bool) (\<lambda>enough.
     if \<not> enough then throw Timeout_Error
     else catching
       (within_time Slot_Wait
         (and_then (acquire_attempt (ep_uuid ep) (ep_polls ep) BROWSERLESS None) (\<lambda>l.
            and_then (change_state (keep_slot l)) (\<lambda>_. activate_lease keep_slot l))))
       (\<lambda>e. throw (if no_capacity e \<or> is_transient_database_error e then Browser_Capacity else e)))"

definition local_slot :: "capture_endpoint \<Rightarrow> string task" where
  "local_slot ep = and_then get_state (\<lambda>s.
     and_then (case ho_slot s of Some _ \<Rightarrow> give () | None \<Rightarrow> take_slot ep) (\<lambda>_.
       and_then get_state (\<lambda>s. case ho_slot s of
           Some l \<Rightarrow> (case le_endpoint l of Some url \<Rightarrow> give url | None \<Rightarrow> throw Runtime_Error)
         | None \<Rightarrow> throw Uncaught)))"

fun as_rendered :: "answer \<Rightarrow> exn + render_outcome" where
  "as_rendered (Rendered_As x) = Inr x"
| "as_rendered a = Inl (raised_by a)"

definition slot_render :: "capture_endpoint \<Rightarrow> tier_name \<Rightarrow> render_outcome task" where
  "slot_render ep t = and_then (local_slot ep) (\<lambda>_. and_then (call Time_Left as_bool) (\<lambda>left.
     if \<not> left then throw Timeout_Error else call (Render_On t) as_rendered))"

text \<open>Paid resolution replaces the local slot: the cloud attempt is acquired in its place, then the slot is
  released.\<close>

definition switch_to_cloud :: "capture_endpoint \<Rightarrow> unit task" where
  "switch_to_cloud ep = and_then get_state (\<lambda>s.
     and_then
       (catching
         (within_time Switch_Wait
           (and_then (acquire_attempt (ep_uuid ep) (ep_polls ep) BROWSERLESS_CLOUD (map_option le_attempt (ho_slot s))) (\<lambda>l.
              change_state (keep_cloud l))))
         (\<lambda>e. throw (if no_capacity e then Browser_Capacity else e)))
       (\<lambda>_. and_then get_state (\<lambda>s.
         and_then (case ho_slot s of Some l \<Rightarrow> bounded (release_lease keep_slot l False ''challenge_resolution'') | None \<Rightarrow> give ()) (\<lambda>_.
           and_then get_state (\<lambda>s. case ho_cloud s of
               Some l \<Rightarrow> activate_lease keep_cloud l
             | None \<Rightarrow> throw Uncaught)))))"

definition cloud_render :: "capture_endpoint \<Rightarrow> render_outcome task" where
  "cloud_render ep = and_then (switch_to_cloud ep) (\<lambda>_. call (Render_On Challenge_Resolution) as_rendered)"

definition tier_render :: "capture_endpoint \<Rightarrow> browser_tier \<Rightarrow> render_outcome task" where
  "tier_render ep t = within_time Render_Budget
     (if bt_tier t = Challenge_Resolution then cloud_render ep else slot_render ep (bt_tier t))"

definition RETRY_AFTER_SECONDS :: rat where "RETRY_AFTER_SECONDS = 5"

fun as_seconds :: "answer \<Rightarrow> exn + rat" where
  "as_seconds (Took q) = Inr q"
| "as_seconds a = Inl (raised_by a)"

text \<open>What the capture service makes of a tier that raises.\<close>

definition attempt_render :: "capture_endpoint \<Rightarrow> browser_tier \<Rightarrow> render_outcome task" where
  "attempt_render ep t = catching (tier_render ep t) (\<lambda>e.
     if is_exception e then and_then (call Seconds as_seconds) (\<lambda>q. give
       (if e = Browser_Capacity then Browser_Busy q (Some RETRY_AFTER_SECONDS)
        else if e = Timeout_Error then Render_Timeout q else Render_Error q))
     else throw e)"

section \<open>The capture service at work\<close>

fun as_fetched :: "answer \<Rightarrow> exn + fetch_outcome" where
  "as_fetched (Fetched_As x) = Inr x"
| "as_fetched a = Inl (raised_by a)"

fun as_verdict :: "answer \<Rightarrow> exn + verdict" where
  "as_verdict (Classified v) = Inr v"
| "as_verdict a = Inl (raised_by a)"

fun as_cached :: "answer \<Rightarrow> exn + cache_decision option \<times> bool" where
  "as_cached (Cached x) = Inr x"
| "as_cached a = Inl (raised_by a)"

text \<open>The deadline of the service, or any \<open>TimeoutError\<close>, ends the capture with the result as it is.\<close>

definition wait_or_expire ::
  "capture_result \<Rightarrow> 'x task \<Rightarrow> ('x \<Rightarrow> capture_result task) \<Rightarrow> capture_result task" where
  "wait_or_expire r m k = and_then
     (catching (and_then m (\<lambda>x. give (Inr x))) (\<lambda>e.
        if e \<in> {Timeout_Error, Cancelled Service_Deadline} then give (Inl (deadline_expired r)) else throw e))
     (\<lambda>y. case y of Inl r' \<Rightarrow> give r' | Inr x \<Rightarrow> k x)"

primrec exec :: "capture_endpoint \<Rightarrow> prog \<Rightarrow> capture_result task" where
  "exec ep (Finished x) = (case x of Inl _ \<Rightarrow> throw Uncaught | Inr r \<Rightarrow> give r)"
| "exec ep (Await_Fetch r k) = wait_or_expire r (call Fetch as_fetched) (\<lambda>x. exec ep (k x))"
| "exec ep (Await_Verdict r k) = wait_or_expire r (call Classify as_verdict) (\<lambda>x. exec ep (k x))"
| "exec ep (Await_Cache r k) = wait_or_expire r (call Ask_Cache as_cached) (\<lambda>x. exec ep (k x))"
| "exec ep (Check_Time k) = and_then (call Time_Left as_bool) (\<lambda>x. exec ep (k x))"
| "exec ep (Await_Render r t k) = wait_or_expire r (attempt_render ep t) (\<lambda>x. exec ep (k x))"
| "exec ep (Await_Record r sufficient p) = wait_or_expire r (call (Record_Method sufficient) as_unit) (\<lambda>_. exec ep p)"

definition managed_tier :: browser_tier where
  "managed_tier = \<lparr>bt_tier = Managed, bt_paid = False, bt_proxied = False\<rparr>"

definition local_tier :: browser_tier where
  "local_tier = \<lparr>bt_tier = Local_Resolution, bt_paid = False, bt_proxied = False\<rparr>"

definition cloud_tier :: browser_tier where
  "cloud_tier = \<lparr>bt_tier = Challenge_Resolution, bt_paid = True, bt_proxied = True\<rparr>"

definition service_with :: "capture_endpoint \<Rightarrow> bool \<Rightarrow> service" where
  "service_with ep paid_ok =
     (ep_service ep)\<lparr>sv_managed := Some managed_tier, sv_local_resolution := Some local_tier,
        sv_challenge_resolution := (if paid_ok then Some cloud_tier else None)\<rparr>"

definition capture_page :: "capture_endpoint \<Rightarrow> capture_request \<Rightarrow> bool \<Rightarrow> capture_result task" where
  "capture_page ep rq paid_ok =
     and_then (exec ep (acquire (service_with ep paid_ok) rq (new_result rq))) (\<lambda>r. give (filter_document rq r))"

section \<open>Admission\<close>

definition read_policy :: "unit task" where
  "read_policy = catching (within_time Policy_Wait (call Get_Policy as_unit)) (\<lambda>e.
     throw (if e = Timeout_Error then Unavailable ''session_admission_timeout'' else e))"

text \<open>The admission is shielded: a caller that is cancelled drains it and gives a late session back.\<close>

definition after_admission :: "answer \<Rightarrow> unit task" where
  "after_admission a =
     (case a of
        Interrupted c late \<Rightarrow>
          and_then
            (if admitted late = Inr ()
             then bounded (release_session_lease True (if c = Admission_Wait then ''session_admission_timeout'' else ''client_disconnected''))
             else give ())
            (\<lambda>_. throw (if c = Admission_Wait then Unavailable ''session_admission_timeout'' else Cancelled c))
      | _ \<Rightarrow>
          (case admitted a of
             Inr _ \<Rightarrow> give ()
           | Inl e \<Rightarrow> throw (if e = Timeout_Error then Unavailable ''session_admission_timeout''
                              else if e = Rejected GatewayCapacityFull then Unavailable ''gateway_capacity_full'' else e)))"

definition admit_session :: "capture_endpoint \<Rightarrow> capture_request \<Rightarrow> unit task" where
  "admit_session ep rq =
     (if url_hostname ep (rq_url rq) = None then throw Value_Error
      else and_then (new_uuid (ep_uuid ep)) (\<lambda>i.
        and_then (change_state (\<lambda>s. s\<lparr>ho_session := i\<rparr>)) (\<lambda>_. and_then (call (Admit i) Inr) after_admission)))"

definition after_pacing :: "string \<Rightarrow> answer \<Rightarrow> unit task" where
  "after_pacing i a =
     (case a of
        Fine \<Rightarrow> change_state (\<lambda>s. s\<lparr>ho_pacing := Some i\<rparr>)
      | Interrupted c late \<Rightarrow> and_then (bounded (call (Unpace i None) as_unit)) (\<lambda>_. throw (Cancelled c))
      | _ \<Rightarrow> throw (raised_by a))"

definition admit_domain :: "capture_endpoint \<Rightarrow> capture_request \<Rightarrow> unit task" where
  "admit_domain ep rq = and_then (new_uuid (ep_uuid ep)) (\<lambda>i.
     if normal_host_of ep (rq_url rq) = None then throw Value_Error
     else and_then (call (Pace i) Inr) (after_pacing i))"

fun as_limit :: "answer \<Rightarrow> exn + bool option" where
  "as_limit (Limit l) = Inr l"
| "as_limit a = Inl (raised_by a)"

definition challenge_tier :: "capture_endpoint \<Rightarrow> capture_request \<Rightarrow> bool task" where
  "challenge_tier ep rq =
     (if \<not> rq_resolve_bot_challenges rq \<or> \<not> ep_cloud ep then give False
      else and_then (call Get_Limit as_limit) (\<lambda>l. give (l = Some True)))"

section \<open>A capture\<close>

definition set_up :: "capture_endpoint \<Rightarrow> capture_request \<Rightarrow> bool task" where
  "set_up ep rq = and_then open_lease (\<lambda>_. and_then (admit_domain ep rq) (\<lambda>_. challenge_tier ep rq))"

definition expired_early :: "capture_request \<Rightarrow> capture_result" where
  "expired_early rq = (new_result rq)\<lparr>cr_failure := Some (plain_failure F_Deadline_Exceeded)\<rparr>"

definition capture_body :: "capture_endpoint \<Rightarrow> capture_request \<Rightarrow> capture_result task" where
  "capture_body ep rq = and_then
     (catching (and_then (within_time Setup_Wait (set_up ep rq)) (\<lambda>c. give (Some c)))
        (\<lambda>e. if e = Timeout_Error then give None else throw e))
     (\<lambda>c. case c of None \<Rightarrow> give (expired_early rq) | Some paid_ok \<Rightarrow> capture_page ep rq paid_ok)"

text \<open>\<open>failed\<close> and \<open>reason\<close> as the body leaves them.\<close>

definition ending :: "exn + capture_result \<Rightarrow> bool \<times> string" where
  "ending r = (case r of
     Inr _ \<Rightarrow> (False, ''capture_completed'')
   | Inl (Domain_Throttled why) \<Rightarrow> (True, why)
   | Inl (Cancelled c) \<Rightarrow> (True, ''client_disconnected'')
   | Inl _ \<Rightarrow> (True, ''capture_failed''))"

definition release_held :: "keep \<Rightarrow> (holding \<Rightarrow> lease option) \<Rightarrow> bool \<Rightarrow> string \<Rightarrow> unit task" where
  "release_held keep held failed reason = and_then get_state (\<lambda>s.
     case held s of Some l \<Rightarrow> bounded (release_lease keep l failed reason) | None \<Rightarrow> give ())"

definition release_pacing :: "capture_endpoint \<Rightarrow> capture_request \<Rightarrow> exn + capture_result \<Rightarrow> unit task" where
  "release_pacing ep rq r = and_then get_state (\<lambda>s.
     case ho_pacing s of
       Some i \<Rightarrow> bounded (call (Unpace i (case r of Inr x \<Rightarrow> Some (pacing_observation ep rq x) | Inl _ \<Rightarrow> None)) as_unit)
     | None \<Rightarrow> give ())"

definition clean_up :: "capture_endpoint \<Rightarrow> capture_request \<Rightarrow> exn + capture_result \<Rightarrow> unit task" where
  "clean_up ep rq r =
     (let (failed, reason) = ending r
      in and_then (release_pacing ep rq r) (\<lambda>_.
         and_then (case r of Inr _ \<Rightarrow> bounded (call Record_Result as_unit) | Inl _ \<Rightarrow> give ()) (\<lambda>_.
         and_then (release_held keep_cloud ho_cloud failed reason) (\<lambda>_.
         and_then (release_held keep_slot ho_slot failed reason) (\<lambda>_.
         bounded (release_session_lease failed reason))))))"

definition capture_once :: "capture_endpoint \<Rightarrow> capture_request \<Rightarrow> capture_result task" where
  "capture_once ep rq = and_then read_policy (\<lambda>_. and_then (admit_session ep rq) (\<lambda>_.
     finally_do (capture_body ep rq) (clean_up ep rq)))"

definition capture_url :: "capture_endpoint \<Rightarrow> capture_request \<Rightarrow> capture_result task" where
  "capture_url ep rq = catching (capture_once ep rq) (\<lambda>e.
     throw (if is_transient_database_error e then Unavailable ''database_conflict'' else e))"

end
