(* ===== verification/Lease_Proofs.thy ===== *)
theory Lease_Proofs
  imports Leases
begin

text \<open>
  What the lease managers take and give back, for all answers of the outside. A ledger follows the requests and their
  answers from outside the program: the session lease whose heartbeat runs, the attempts that may have been granted, the
  pacing leases that may be held, the open browser connection. The monitor of \<^verbatim>\<open>Effects\<close> relates the ledger to
  what the program remembers.
\<close>

section \<open>The ledger\<close>

record ledger =
  lg_session :: bool
  lg_attempts :: "string set"
  lg_pacing :: "string set"
  lg_releases :: "(bool \<times> string) list"
  lg_provider :: bool
  lg_early :: bool
  lg_told :: "rejection option"

definition obtained :: "answer \<Rightarrow> bool" where
  "obtained a \<longleftrightarrow> (case a of Interrupted c late \<Rightarrow> admitted late = Inr () | _ \<Rightarrow> admitted a = Inr ())"

fun may_place :: "answer \<Rightarrow> bool" where
  "may_place (Placed ADM_ACQUIRING url) \<longleftrightarrow> True"
| "may_place (Raises (Cancelled c)) \<longleftrightarrow> True"
| "may_place _ \<longleftrightarrow> False"

fun may_claim :: "answer \<Rightarrow> bool" where
  "may_claim (Claimed (Some url)) \<longleftrightarrow> True"
| "may_claim (Raises (Cancelled c)) \<longleftrightarrow> True"
| "may_claim _ \<longleftrightarrow> False"

text \<open>What a request and its answer mean for the capacity of others. A release of an attempt counts when it is
  asked for: if the database refuses it, the release of the session ends the attempt.\<close>

fun entry :: "request \<Rightarrow> answer \<Rightarrow> ledger \<Rightarrow> ledger" where
  "entry (Admit i) a l = (if obtained a then l\<lparr>lg_session := True\<rparr> else l)"
| "entry (Release_Session i failed why) a l = l\<lparr>lg_session := False, lg_releases := lg_releases l @ [(failed, why)]\<rparr>"
| "entry (Enqueue i p old) a l = (if may_place a then l\<lparr>lg_attempts := insert i (lg_attempts l)\<rparr> else l)"
| "entry (Claim i) a l = (if may_claim a then l\<lparr>lg_attempts := insert i (lg_attempts l)\<rparr> else l)"
| "entry (Finish i failed why) a l = l\<lparr>lg_attempts := lg_attempts l - {i}, lg_early := (lg_early l \<or> lg_provider l)\<rparr>"
| "entry (Pace i) a l = (case a of Fine \<Rightarrow> l\<lparr>lg_pacing := insert i (lg_pacing l)\<rparr>
     | Interrupted c late \<Rightarrow> l\<lparr>lg_pacing := insert i (lg_pacing l)\<rparr> | _ \<Rightarrow> l)"
| "entry (Unpace i seen) a l = l\<lparr>lg_pacing := lg_pacing l - {i}\<rparr>"
| "entry Open_Provider a l = (if a = Fine then l\<lparr>lg_provider := True\<rparr> else l)"
| "entry Close_Provider a l = l\<lparr>lg_provider := False\<rparr>"
| "entry (Reject_Client x) a l = l\<lparr>lg_told := Some x\<rparr>"
| "entry _ a l = l"

text \<open>The ledger of a conversation.\<close>

definition tally :: "(request \<times> answer) list \<Rightarrow> ledger" where
  "tally talk = fold (\<lambda>(q, a). entry q a) talk \<lparr>lg_session = False, lg_attempts = {}, lg_pacing = {}, lg_releases = [], lg_provider = False, lg_early = False, lg_told = None\<rparr>"

text \<open>Cleanup is cancelled by its own timeout only.\<close>

fun cleans :: "request \<Rightarrow> bool" where
  "cleans (Release_Session i failed why) \<longleftrightarrow> True"
| "cleans (Finish i failed why) \<longleftrightarrow> True"
| "cleans (Unpace i seen) \<longleftrightarrow> True"
| "cleans (Backoff q) \<longleftrightarrow> cleans q"
| "cleans (Notify p) \<longleftrightarrow> True"
| "cleans Record_Result \<longleftrightarrow> True"
| "cleans (Provider_Usage i) \<longleftrightarrow> True"
| "cleans Close_Provider \<longleftrightarrow> True"
| "cleans (Flush_Summary i) \<longleftrightarrow> True"
| "cleans Flush_Summaries \<longleftrightarrow> True"
| "cleans _ \<longleftrightarrow> False"

definition own_timeout :: "exn \<Rightarrow> bool" where
  "own_timeout e \<longleftrightarrow> is_exception e \<or> e = Cancelled Cleanup_Wait"

definition undisturbed :: "request \<Rightarrow> answer \<Rightarrow> bool" where
  "undisturbed q a \<longleftrightarrow> (cleans q \<longrightarrow> (case a of Raises e \<Rightarrow> own_timeout e | _ \<Rightarrow> True))"

interpretation led: monitor entry undisturbed .

definition owed :: "lease option \<Rightarrow> string set" where
  "owed x = (case x of Some l \<Rightarrow> if le_released l then {} else {le_attempt l} | None \<Rightarrow> {})"

text \<open>The books agree while no browser connection is open: every granted attempt is in the slot, in the cloud lease or
  about to be, in \<open>E\<close>.\<close>

definition books ::
  "string set \<Rightarrow> lease option \<Rightarrow> lease option \<Rightarrow> string option \<Rightarrow> ledger \<Rightarrow> holding \<Rightarrow> bool" where
  "books E a b p l s \<longleftrightarrow> ho_slot s = a \<and> ho_cloud s = b \<and> ho_pacing s = p \<and> \<not> ho_session_released s
     \<and> \<not> ho_provider s \<and> \<not> lg_provider l \<and> \<not> lg_early l
     \<and> lg_session l \<and> lg_releases l = [] \<and> lg_attempts l \<subseteq> E \<union> owed a \<union> owed b \<and> lg_pacing l \<subseteq> set_option p"

lemma owed_released [simp]: "le_released x \<Longrightarrow> owed (Some x) = {}"
  by (simp add: owed_def)

lemma owed_at: "owed (Some x) \<subseteq> {le_attempt x}"
  by (simp add: owed_def)

lemma owed_in:
  "A \<subseteq> B \<union> owed (Some x) \<Longrightarrow> y \<in> A \<Longrightarrow> y \<notin> B \<Longrightarrow> y = le_attempt x"
  "A \<subseteq> owed (Some x) \<Longrightarrow> y \<in> A \<Longrightarrow> y = le_attempt x"
  using owed_at by blast+

lemma owed_active [simp]: "owed (Some (x\<lparr>le_active := True\<rparr>)) = owed (Some x)"
  by (simp add: owed_def)

lemma owed_None [simp]: "owed None = {}"
  by (simp add: owed_def)

lemma books_more: "books E a b p l s \<Longrightarrow> E \<subseteq> E' \<Longrightarrow> books E' a b p l s"
  by (auto simp: books_def)

lemma as_unit_own: "undisturbed q a \<Longrightarrow> cleans q \<Longrightarrow> as_unit a = Inl e \<Longrightarrow> own_timeout e"
  by (cases a) (auto simp: undisturbed_def own_timeout_def)

lemma as_bool_own: "undisturbed q a \<Longrightarrow> cleans q \<Longrightarrow> as_bool a = Inl e \<Longrightarrow> own_timeout e"
  by (cases a) (auto simp: undisturbed_def own_timeout_def)

lemma transient_own: "is_transient_database_error e \<Longrightarrow> own_timeout e"
  by (cases e) (simp_all add: own_timeout_def)

lemma leads_bounded:
  assumes "led.leads P m R" "\<And>l s. R (Inr ()) l s \<Longrightarrow> Q l s" "\<And>e l s. R (Inl e) l s \<Longrightarrow> own_timeout e \<and> Q l s"
  shows "led.leads P (bounded m) (\<lambda>r l s. r = Inr () \<and> Q l s)"
proof -
  have "led.leads P (within_time Cleanup_Wait m) (\<lambda>r l s. case r of Inl e \<Rightarrow> is_exception e \<and> Q l s | Inr x \<Rightarrow> Q l s)"
  proof (rule led.leads_within, rule led.leads_weaken [OF assms(1)])
    fix r l s assume r: "R r l s"
    show "case (case r of Inl e \<Rightarrow> Inl (if e = Cancelled Cleanup_Wait then Timeout_Error else e) | Inr x \<Rightarrow> Inr x) of
        Inl e \<Rightarrow> is_exception e \<and> Q l s | Inr x \<Rightarrow> Q l s"
      using assms(2) [of l s] assms(3) [of _ l s] r by (cases r) (auto simp: own_timeout_def)
  qed
  then show ?thesis unfolding bounded_def swallowing_def
  proof (rule led.leads_catching)
    fix e show "led.leads (\<lambda>l s. case Inl e :: exn + unit of Inl e \<Rightarrow> is_exception e \<and> Q l s | Inr x \<Rightarrow> Q l s)
        (if is_exception e then give () else throw e) (\<lambda>r l s. r = Inr () \<and> Q l s)"
      by (cases "is_exception e") (auto intro: led.leads_give led.leads_throw)
  qed simp
qed

lemma leads_quiet:
  assumes "cleans q" "\<And>a l. entry q a l = l"
  shows "led.leads P (bounded (call q as_unit)) (\<lambda>r l s. r = Inr () \<and> P l s)"
  by (rule leads_bounded [where R = "\<lambda>r l s. P l s \<and> (case r of Inl e \<Rightarrow> own_timeout e | Inr u \<Rightarrow> True)"], rule led.leads_call)
    (use assms in \<open>auto intro: as_unit_own split: sum.split\<close>)

text \<open>A request that is repeated after a transient error: the first time from \<open>P\<close>, then from \<open>P'\<close>.\<close>

lemma leads_retry_runs:
  assumes "\<And>l s a. P l s \<Longrightarrow> undisturbed q a \<Longrightarrow> Q (read a) (entry q a l) s"
    and "\<And>l s e. Q (Inl e) l s \<Longrightarrow> is_transient_database_error e \<Longrightarrow> P' l s" "\<And>l s. P' l s \<Longrightarrow> P l s"
    and "\<And>l s a e. P' l s \<Longrightarrow> undisturbed (Backoff q) a \<Longrightarrow> as_unit a = Inl e \<Longrightarrow> Q (Inl e) l s"
  shows "led.leads P (retry_runs (Suc n) q (call q read)) Q"
proof (induction n)
  case 0
  show ?case unfolding retry_runs.simps
    by (rule led.leads_catching [where R = Q], rule led.leads_call, erule (1) assms(1)) (auto intro: led.leads_throw)
next
  case (Suc n)
  show ?case unfolding retry_runs.simps(2) [of "Suc n"]
  proof (rule led.leads_catching [where R = Q], rule led.leads_call, erule (1) assms(1))
    fix e
    have "led.leads P' (and_then (call (Backoff q) as_unit) (\<lambda>_. retry_runs (Suc n) q (call q read))) Q"
      by (rule led.leads_then [where R = "\<lambda>r l s. case r of Inl e \<Rightarrow> Q (Inl e) l s | Inr _ \<Rightarrow> P' l s"], rule led.leads_call)
        (use assms(3,4) Suc in \<open>auto split: sum.split intro: led.leads_weaken\<close>)
    then show "led.leads (Q (Inl e)) (if Suc n = 0 \<or> \<not> is_transient_database_error e then throw e
        else and_then (call (Backoff q) as_unit) (\<lambda>_. retry_runs (Suc n) q (call q read))) Q"
      using assms(2) by (auto intro: led.leads_throw led.leads_weaken)
  qed auto
qed

lemma leads_retry:
  assumes "\<And>l s a. P l s \<Longrightarrow> undisturbed q a \<Longrightarrow> Q (read a) (entry q a l) s"
    and "\<And>l s e. Q (Inl e) l s \<Longrightarrow> is_transient_database_error e \<Longrightarrow> P' l s" "\<And>l s. P' l s \<Longrightarrow> P l s"
    and "\<And>l s a e. P' l s \<Longrightarrow> undisturbed (Backoff q) a \<Longrightarrow> as_unit a = Inl e \<Longrightarrow> Q (Inl e) l s"
  shows "led.leads P (retry_transient q read) Q"
  using leads_retry_runs [of P q Q read P' 2, OF assms] by (simp add: retry_transient_def DATABASE_ATTEMPTS_def eval_nat_numeral)

section \<open>Attempts\<close>

lemma books_drawn [simp]: "books E a b p l (s\<lparr>ho_drawn := n\<rparr>) \<longleftrightarrow> books E a b p l s"
  by (simp add: books_def)

lemma new_uuid_books: "led.leads (books E a b p) (new_uuid u) (\<lambda>r l s. (\<exists>i. r = Inr i) \<and> books E a b p l s)"
  by (simp add: led.leads_def new_uuid_def and_then_def get_state_def change_state_def give_def)

definition placing ::
  "lease option \<Rightarrow> lease option \<Rightarrow> string option \<Rightarrow> string \<Rightarrow> exn + 'x \<Rightarrow> ledger \<Rightarrow> holding \<Rightarrow> bool" where
  "placing a b p i r = books (case r of Inl e \<Rightarrow> if e = Timeout_Error \<or> \<not> is_exception e then {i} else {} | Inr x \<Rightarrow> {i}) a b p"

lemma placing_less: "books {} a b p l s \<Longrightarrow> placing a b p i r l s"
  unfolding placing_def by (erule books_more) simp

lemma placing_Inl: "placing a b p i (Inl e) l s \<Longrightarrow> is_transient_database_error e \<Longrightarrow> books {} a b p l s"
  by (cases e) (simp_all add: placing_def)

lemma enqueue_books:
  "led.leads (books {} a b p) (retry_transient (Enqueue i pr old) as_placed)
     (\<lambda>r. case r of Inl e \<Rightarrow> placing a b p i (Inl e :: exn + unit) | Inr (st, url) \<Rightarrow> books (if st = ADM_ACQUIRING then {i} else {}) a b p)"
proof (rule leads_retry [where P' = "books {} a b p"])
  fix l s ans assume "books {} a b p l s"
  then show "(case as_placed ans of Inl e \<Rightarrow> placing a b p i (Inl e :: exn + unit)
      | Inr (st, url) \<Rightarrow> books (if st = ADM_ACQUIRING then {i} else {}) a b p) (entry (Enqueue i pr old) ans l) s"
    by (cases ans rule: may_place.cases) (auto simp: placing_def books_def)
qed (auto intro: placing_less placing_Inl)

lemma claim_books:
  "led.leads (books {} a b p) (retry_transient (Claim i) as_claimed)
     (\<lambda>r. case r of Inl e \<Rightarrow> placing a b p i (Inl e :: exn + unit) | Inr c \<Rightarrow> books (if c = None then {} else {i}) a b p)"
proof (rule leads_retry [where P' = "books {} a b p"])
  fix l s ans assume "books {} a b p l s"
  then show "(case as_claimed ans of Inl e \<Rightarrow> placing a b p i (Inl e :: exn + unit)
      | Inr c \<Rightarrow> books (if c = None then {} else {i}) a b p) (entry (Claim i) ans l) s"
    by (cases ans rule: may_claim.cases) (auto simp: placing_def books_def)
qed (auto intro: placing_less placing_Inl)

lemma poll_books: "led.leads (books {} a b p) (poll n i pr) (placing a b p i)"
proof (induction n)
  case 0
  show ?case unfolding poll.simps by (rule led.leads_throw) (rule placing_less)
next
  case (Suc n)
  show ?case unfolding poll.simps
  proof (rule led.leads_then [OF claim_books])
    fix c :: "string option option"
    have "led.leads (books {} a b p) (and_then (call (Wait_Capacity pr) as_unit) (\<lambda>_. poll n i pr)) (placing a b p i)"
      by (rule led.leads_then [where R = "\<lambda>r. books {} a b p"], rule led.leads_call) (simp_all add: Suc placing_less)
    then show "led.leads (case Inr c of Inl e \<Rightarrow> placing a b p i (Inl e :: exn + unit) | Inr c \<Rightarrow> books (if c = None then {} else {i}) a b p)
        (case c of Some url \<Rightarrow> give url | None \<Rightarrow> and_then (call (Wait_Capacity pr) as_unit) (\<lambda>_. poll n i pr)) (placing a b p i)"
      by (cases c) (auto intro!: led.leads_give simp: placing_def)
  qed (simp add: placing_def)
qed

lemma place_books: "led.leads (books {} a b p) (place n i pr old) (placing a b p i)"
  unfolding place_def
proof (rule led.leads_then [OF enqueue_books])
  fix x :: "admission_status \<times> string option"
  have "led.leads (books {} a b p) (within_time Queue_Wait (poll n i pr)) (placing a b p i)"
    by (rule led.leads_within, rule led.leads_weaken [OF poll_books]) (auto simp: placing_def split: sum.splits)
  then show "led.leads (case Inr x of Inl e \<Rightarrow> placing a b p i (Inl e :: exn + unit) | Inr (st, url) \<Rightarrow> books (if st = ADM_ACQUIRING then {i} else {}) a b p)
      (case x of (status, url) \<Rightarrow> case status of ADM_FULL \<Rightarrow> throw (Rejected ProviderQueueFull) | ADM_QUEUED \<Rightarrow> within_time Queue_Wait (poll n i pr)
         | ADM_ACQUIRING \<Rightarrow> give url) (placing a b p i)"
    by (cases x; cases "fst x") (auto intro!: led.leads_give led.leads_throw simp: placing_def)
qed (simp add: placing_def)

lemma finish_books: "books (insert i E) a b p l s \<Longrightarrow> books E a b p (entry (Finish i f why) ans l) s"
  by (auto simp: books_def)

lemma fail_books: "led.leads (books {i} a b p) (fail_attempt i why) (\<lambda>r l s. r = Inr () \<and> books {} a b p l s)"
proof -
  have "led.leads (books {i} a b p) (bounded (call (Finish i True why) as_unit)) (\<lambda>r l s. r = Inr () \<and> books {} a b p l s)"
  proof (rule leads_bounded)
    show "led.leads (books {i} a b p) (call (Finish i True why) as_unit)
        (\<lambda>r l s. books {} a b p l s \<and> (case r of Inl e \<Rightarrow> own_timeout e | Inr u \<Rightarrow> True))"
      by (rule led.leads_call) (auto simp del: entry.simps intro: finish_books as_unit_own split: sum.split)
  qed auto
  then show ?thesis by (simp add: fail_attempt_def bounded_def)
qed

lemma acquire_books:
  "led.leads (books {} a b p) (acquire_attempt u n pr old)
     (\<lambda>r l s. case r of Inl e \<Rightarrow> books {} a b p l s | Inr x \<Rightarrow> \<not> le_released x \<and> books {le_attempt x} a b p l s)"
  unfolding acquire_attempt_def
proof (rule led.leads_then [OF new_uuid_books])
  fix i
  let ?h = "\<lambda>e. case e of Timeout_Error \<Rightarrow> and_then (fail_attempt i ''provider_queue_timeout'') (\<lambda>_. throw (Rejected ProviderQueueTimeout))
      | Cancelled c \<Rightarrow> and_then (fail_attempt i ''client_disconnected'') (\<lambda>_. throw (Cancelled c)) | _ \<Rightarrow> throw e"
  let ?Q = "\<lambda>r :: exn + string option. case r of Inl e \<Rightarrow> books {} a b p | Inr x \<Rightarrow> books {i} a b p"
  have "led.leads (books {} a b p) (catching (place n i pr old) ?h) ?Q"
  proof (rule led.leads_catching [OF place_books])
    fix e
    have "led.leads (books {i} a b p) (and_then (fail_attempt i why) (\<lambda>_. throw e')) ?Q" for why e'
      by (rule led.leads_then [OF fail_books]) (auto intro: led.leads_throw)
    then show "led.leads (placing a b p i (Inl e)) (?h e) ?Q"
      by (cases e) (auto intro!: led.leads_throw simp: placing_def)
  qed (simp add: placing_def)
  then show "led.leads (\<lambda>l s. (\<exists>j. Inr i = Inr j) \<and> books {} a b p l s) (and_then (catching (place n i pr old) ?h)
      (\<lambda>url. give \<lparr>le_attempt = i, le_provider = pr, le_endpoint = url, le_active = False, le_released = False\<rparr>))
      (\<lambda>r l s. case r of Inl e \<Rightarrow> books {} a b p l s | Inr x \<Rightarrow> \<not> le_released x \<and> books {le_attempt x} a b p l s)"
    by (intro led.leads_then [where R = ?Q]) (auto intro: led.leads_give elim: led.leads_weaken)
qed auto

lemma release_leads:
  assumes "\<And>l s. P l s \<Longrightarrow> le_released x \<Longrightarrow> Q l s"
    and "\<And>l s ans. P l s \<or> Q l s \<Longrightarrow> Q (entry (Finish (le_attempt x) f why) ans l) s"
    and "\<And>l s. Q l s \<Longrightarrow> Q l (keep (x\<lparr>le_released := True\<rparr>) s)"
  shows "led.leads P (bounded (release_lease keep x f why)) (\<lambda>r l s. r = Inr () \<and> Q l s)"
proof (rule leads_bounded)
  let ?R = "\<lambda>(r :: exn + unit) l s. Q l s \<and> (case r of Inl e \<Rightarrow> own_timeout e | Inr _ \<Rightarrow> True)"
  have ask: "led.leads P (retry_transient (Finish (le_attempt x) f why) as_bool)
      (\<lambda>r l s. Q l s \<and> (case r of Inl e \<Rightarrow> own_timeout e | Inr _ \<Rightarrow> True))"
  proof (rule led.leads_weaken [where P' = "\<lambda>l s. P l s \<or> Q l s"], rule leads_retry [where P' = Q])
    fix l s ans assume "P l s \<or> Q l s" "undisturbed (Finish (le_attempt x) f why) ans"
    then show "Q (entry (Finish (le_attempt x) f why) ans l) s \<and> (case as_bool ans of Inl e \<Rightarrow> own_timeout e | Inr _ \<Rightarrow> True)"
      using assms(2) as_bool_own by (auto simp del: entry.simps split: sum.split)
  next
    fix l s ans e assume "Q l s" "undisturbed (Backoff (Finish (le_attempt x) f why)) ans" "as_unit ans = Inl e"
    then show "Q l s \<and> (case Inl e :: exn + bool of Inl e \<Rightarrow> own_timeout e | Inr _ \<Rightarrow> True)"
      using as_unit_own by simp
  qed auto
  have notify: "led.leads Q (swallowing (call (Notify (le_provider x)) as_unit)) ?R"
    unfolding swallowing_def
    by (rule led.leads_catching [where R = ?R], rule led.leads_call)
      (auto intro!: led.leads_give led.leads_throw as_unit_own split: sum.split)
  have kept: "led.leads Q (change_state (keep (x\<lparr>le_released := True\<rparr>))) (\<lambda>r l s. r = Inr () \<and> Q l s)"
    by (rule led.leads_change) (simp add: assms(3))
  show "led.leads P (release_lease keep x f why) ?R"
  proof (cases "le_released x")
    case True
    then show ?thesis using assms(1) by (auto simp: release_lease_def intro!: led.leads_give)
  next
    case False
    have "led.leads Q (and_then (change_state (keep (x\<lparr>le_released := True\<rparr>)))
        (\<lambda>_. if ok then swallowing (call (Notify (le_provider x)) as_unit) else give ())) ?R" for ok
      by (rule led.leads_then [OF kept], cases ok) (simp_all add: notify led.leads_give)
    then show ?thesis using False
      by (auto simp: release_lease_def intro!: led.leads_then [OF ask] elim: led.leads_weaken)
  qed
qed auto

lemma activate_leads:
  assumes "\<And>l s. P l s \<Longrightarrow> Q l s" "\<And>l s. P l s \<Longrightarrow> Q l (keep (x\<lparr>le_active := True\<rparr>) s)"
  shows "led.leads P (activate_lease keep x) (\<lambda>r. Q)"
proof -
  have "led.leads P (call (Activate (le_attempt x)) as_bool) (\<lambda>r. P)" by (rule led.leads_call) simp
  then show ?thesis unfolding activate_lease_def
    by (rule led.leads_then) (auto intro: led.leads_change led.leads_throw assms)
qed

lemma leads_read: "(\<And>l s ans. P l s \<Longrightarrow> P (entry q ans l) s) \<Longrightarrow> led.leads P (call q read) (\<lambda>r. P)"
  by (rule led.leads_call)

lemma leads_never: "(\<And>l s. \<not> P l s) \<Longrightarrow> led.leads P m Q"
  by (simp add: led.leads_def)

lemma leads_ask: "led.leads P (call q Inr) (\<lambda>r l s. \<exists>a l0. r = Inr a \<and> P l0 s \<and> undisturbed q a \<and> l = entry q a l0)"
  by (rule led.leads_call) auto

lemma leads_ex: "(\<And>x. led.leads (P x) m Q) \<Longrightarrow> led.leads (\<lambda>l s. \<exists>x. P x l s) m Q"
  by (auto simp: led.leads_def)

lemma done_leads: "(\<And>l s. P l s \<Longrightarrow> Q l s) \<Longrightarrow> led.leads P (give ()) (\<lambda>r l s. r = Inr () \<and> Q l s)"
  by (rule led.leads_give) simp

section \<open>The end of a session\<close>

definition settled :: "(bool \<times> string) list \<Rightarrow> ledger \<Rightarrow> bool" where
  "settled fs l \<longleftrightarrow> \<not> lg_session l \<and> lg_attempts l = {} \<and> lg_pacing l = {} \<and> lg_releases l = fs
     \<and> \<not> lg_provider l \<and> \<not> lg_early l"

lemma session_leads:
  "led.leads (\<lambda>l s. \<not> ho_session_released s \<and> lg_attempts l = {} \<and> lg_pacing l = {} \<and> lg_releases l = [] \<and> \<not> lg_provider l \<and> \<not> lg_early l)
     (bounded (release_session_lease f why)) (\<lambda>r l s. r = Inr () \<and> settled [(f, why)] l)"
proof (rule leads_bounded)
  let ?R = "\<lambda>(r :: exn + unit) l (s :: holding). settled [(f, why)] l \<and> (case r of Inl e \<Rightarrow> own_timeout e | Inr u \<Rightarrow> True)"
  let ?P = "\<lambda>l (s :: holding). lg_attempts l = {} \<and> lg_pacing l = {} \<and> lg_releases l = [] \<and> \<not> lg_provider l \<and> \<not> lg_early l"
  have ask: "led.leads ?P (call (Release_Session i f why) as_unit) ?R" for i
    by (rule led.leads_call) (auto simp: settled_def intro: as_unit_own split: sum.split)
  have mark: "led.leads ?P (change_state (\<lambda>s. s\<lparr>ho_session_released := True\<rparr>)) (\<lambda>r. ?P)" by (rule led.leads_change) simp
  have both: "led.leads ?P (and_then (change_state (\<lambda>s. s\<lparr>ho_session_released := True\<rparr>)) (\<lambda>_. call (Release_Session i f why) as_unit)) ?R" for i
  proof (rule led.leads_then [where R = "\<lambda>r l s. (\<exists>u. r = Inr u) \<and> ?P l s"])
    show "led.leads ?P (change_state (\<lambda>s. s\<lparr>ho_session_released := True\<rparr>)) (\<lambda>r l s. (\<exists>u. r = Inr u) \<and> ?P l s)"
      by (rule led.leads_change) simp
  qed (auto intro: led.leads_weaken [OF ask])
  show "led.leads (\<lambda>l s. \<not> ho_session_released s \<and> lg_attempts l = {} \<and> lg_pacing l = {} \<and> lg_releases l = [] \<and> \<not> lg_provider l \<and> \<not> lg_early l)
      (release_session_lease f why) ?R"
    unfolding release_session_lease_def
  proof (rule led.leads_get)
    fix s :: holding
    show "led.leads (\<lambda>l s'. (\<not> ho_session_released s' \<and> lg_attempts l = {} \<and> lg_pacing l = {} \<and> lg_releases l = [] \<and> \<not> lg_provider l \<and> \<not> lg_early l) \<and> s' = s)
        (if ho_session_released s then give () else and_then (change_state (\<lambda>s. s\<lparr>ho_session_released := True\<rparr>))
          (\<lambda>_. call (Release_Session (ho_session s) f why) as_unit)) ?R"
      by (cases "ho_session_released s") (auto intro: leads_never led.leads_weaken [OF both])
  qed
qed auto

end
