(* ===== verification/Capture_Endpoint_Proofs.thy ===== *)
theory Capture_Endpoint_Proofs
  imports Capture_Endpoint Capture_Proofs Lease_Proofs
begin

text \<open>
  A capture gives back what it took, for all answers of the outside.
\<close>

section \<open>Each tier once\<close>

primrec once :: "tier_name set \<Rightarrow> prog \<Rightarrow> bool" where
  "once S (Finished x) \<longleftrightarrow> True"
| "once S (Await_Fetch r k) \<longleftrightarrow> (\<forall>x. once S (k x))"
| "once S (Await_Verdict r k) \<longleftrightarrow> (\<forall>x. once S (k x))"
| "once S (Await_Cache r k) \<longleftrightarrow> (\<forall>x. once S (k x))"
| "once S (Check_Time k) \<longleftrightarrow> (\<forall>x. once S (k x))"
| "once S (Await_Render r t k) \<longleftrightarrow> bt_tier t \<notin> S \<and> (\<forall>x. once (insert (bt_tier t) S) (k x))"
| "once S (Await_Record r s p) \<longleftrightarrow> once S p"

lemma once_ends [simp]: "once S (fails f doc r)" "once S (captured d r)" "once S (unverified_http doc r)"
  by (simp_all add: fails_def captured_def unverified_http_def)

lemma next_unused: "service_ok sv \<Longrightarrow> next_resolution sv rq r b = Some t \<Longrightarrow> bt_tier t \<notin> used_tiers r"
  by (auto simp: next_resolution_def service_ok_def split: if_splits)

lemma used_decided [simp]: "used_tiers (decided d r) = used_tiers r"
proof -
  have "map at_tier (cr_attempts (decided d r)) = map at_tier (cr_attempts r)"
    by (cases "cr_attempts r" rule: rev_cases) (simp_all add: decided_def change_last_def)
  then show ?thesis unfolding used_tiers_def by (metis list.set_map)
qed

text \<open>The interface between a render and the renderer it hands on to, as for \<open>renderer\<close>.\<close>

definition behind :: "render_job \<Rightarrow> tier_name set \<Rightarrow> capture_result \<Rightarrow> bool" where
  "behind j S r \<longleftrightarrow> service_ok (jb_service j) \<and> S \<subseteq> used_tiers r"

lemma behind_decided [simp]: "behind j S (decided d r) \<longleftrightarrow> behind j S r"
  by (simp add: behind_def)

lemma behind_added: "behind j S r \<Longrightarrow> cr_attempts r' = cr_attempts r @ [a] \<Longrightarrow> behind j (insert (at_tier a) S) r'"
  by (auto simp: behind_def used_tiers_def)

locale tier_chain =
  fixes again :: again and j :: render_job
  assumes again_once: "behind j S r \<Longrightarrow> bt_tier t \<notin> S \<Longrightarrow> once S (again t r)"
begin

lemma escalate_once:
  "next_resolution (jb_service j) (jb_request j) r b = Some t \<Longrightarrow> behind j S r \<Longrightarrow> once S (again t (decided Escalate r))"
  using next_unused by (intro again_once) (auto simp: behind_def)

lemma fallback_once: "behind j S r \<Longrightarrow> once S q \<Longrightarrow> once S (or_else (local_fallback again j t r) q)"
  by (auto simp: or_else_def local_fallback_def escalate_once split: option.split)

lemma failed_once: "behind j S r \<Longrightarrow> once S (render_failed again j t rd r)"
  by (simp add: render_failed_def Let_def fallback_once)

lemma assessed_once: "behind j S r \<Longrightarrow> once S (render_assessed again j t rd a r)"
  by (auto simp: render_assessed_def render_compared_def Let_def escalate_once split: option.split)

lemma page_once:
  assumes "behind j S r"
  shows "once (insert (bt_tier t) S) (render_page again j t rd r)"
proof -
  let ?a = "render_attempt j t rd (assess_rendered (jb_service j) rd)"
  have "behind j (insert (bt_tier t) S) (add_attempt ?a (r\<lparr>cr_browser_seconds := b, cr_bytes := c, cr_paid := d\<rparr>))" for b c d
    using behind_added [OF assms, of "add_attempt ?a (r\<lparr>cr_browser_seconds := b, cr_bytes := c, cr_paid := d\<rparr>)" ?a]
    by (simp add: render_attempt_def)
  then show ?thesis by (simp add: render_page_def Let_def failed_once assessed_once split: option.split)
qed

lemma missing_once:
  assumes "behind j S r"
  shows "once (insert (bt_tier t) S) (no_browser again j t p q b f r)"
proof -
  let ?a = "failed_browser_attempt t None p"
  have "behind j (insert (at_tier ?a) S) (record_failed_render t q b (add_attempt ?a r))"
    by (rule behind_added [OF assms]) (simp add: record_failed_render_def)
  then show ?thesis by (simp add: no_browser_def Let_def fallback_once)
qed

lemma step_once: "behind j S r \<Longrightarrow> bt_tier t \<notin> S \<Longrightarrow> once S (render_step again j t r)"
  by (auto simp: render_step_def page_once missing_once split: render_outcome.split)

end

interpretation visits: tier_chain "render n j" j for n j
proof unfold_locales
  fix S r t
  show "behind j S r \<Longrightarrow> bt_tier t \<notin> S \<Longrightarrow> once S (render n j t r)"
  proof (induction n arbitrary: S t r)
    case (Suc n)
    then have "tier_chain (render n j) j" by unfold_locales blast
    then show ?case using Suc.prems by (simp add: tier_chain.step_once)
  qed simp
qed

lemma first_once: "service_ok (jb_service j) \<Longrightarrow> once {} (render n j t r)"
  by (rule visits.again_once) (simp_all add: behind_def)

lemma challenge_once: "service_ok sv \<Longrightarrow> once {} (challenge sv rq http doc r)"
  by (simp add: challenge_def Let_def first_once split: option.split)

lemma usable_once: "service_ok sv \<Longrightarrow> once {} (usable_response sv rq http doc r)"
  unfolding usable_response_def by (auto simp: first_once split: option.split cache_decision.split bool.split)

lemma json_once: "once {} (json_response http doc r)"
  by (simp add: json_response_def Let_def split: option.split)

lemma large_once: "service_ok sv \<Longrightarrow> once {} (too_large sv rq http r)"
  by (simp add: too_large_def Let_def first_once split: option.split)

lemma classified_once: "service_ok sv \<Longrightarrow> once {} (classified sv rq http doc v r)"
  by (simp add: classified_def Let_def first_once challenge_once usable_once split: option.split)

lemma acquire_once: "service_ok sv \<Longrightarrow> once {} (acquire sv rq r)"
  by (simp add: acquire_def fetched_response_def unsupported_def Let_def large_once json_once classified_once split: fetch_outcome.split)

section \<open>Rendering\<close>

definition working :: "lease option \<Rightarrow> string option \<Rightarrow> ledger \<Rightarrow> holding \<Rightarrow> bool" where
  "working b p l s \<longleftrightarrow> (\<exists>a. books {} a b p l s)"

lemma workingI: "books {} a b p l s \<Longrightarrow> working b p l s"
  by (auto simp: working_def)

lemma take_slot_leads: "led.leads (books {} None b p) (take_slot ep) (\<lambda>r. working b p)"
proof -
  let ?acquire = "and_then (acquire_attempt (ep_uuid ep) (ep_polls ep) BROWSERLESS None) (\<lambda>l.
      and_then (change_state (keep_slot l)) (\<lambda>_. activate_lease keep_slot l))"
  have got: "led.leads (\<lambda>l s. \<not> le_released x \<and> books {le_attempt x} None b p l s)
      (and_then (change_state (keep_slot x)) (\<lambda>_. activate_lease keep_slot x)) (\<lambda>r. working b p)" for x
  proof (rule led.leads_then [where R = "\<lambda>r. books {} (Some x) b p"])
    show "led.leads (\<lambda>l s. \<not> le_released x \<and> books {le_attempt x} None b p l s) (change_state (keep_slot x)) (\<lambda>r. books {} (Some x) b p)"
      by (rule led.leads_change) (auto simp: books_def owed_def keep_slot_def)
    show "led.leads (books {} (Some x) b p) (activate_lease keep_slot x) (\<lambda>r. working b p)"
    proof (rule activate_leads)
      fix l s assume "books {} (Some x) b p l s"
      then have "books {} (Some (x\<lparr>le_active := True\<rparr>)) b p l (keep_slot (x\<lparr>le_active := True\<rparr>) s)"
        by (simp add: books_def keep_slot_def)
      then show "working b p l (keep_slot (x\<lparr>le_active := True\<rparr>) s)" unfolding working_def by blast
    qed (auto simp: working_def)
  qed (auto simp: working_def)
  have "led.leads (books {} None b p) ?acquire (\<lambda>r. working b p)"
    by (rule led.leads_then [OF acquire_books]) (use got in \<open>auto simp: working_def\<close>)
  then have "led.leads (books {} None b p) (within_time Slot_Wait ?acquire) (\<lambda>r. working b p)"
    by (rule led.leads_within)
  then have "led.leads (books {} None b p) (catching (within_time Slot_Wait ?acquire)
      (\<lambda>e. throw (if no_capacity e \<or> is_transient_database_error e then Browser_Capacity else e))) (\<lambda>r. working b p)"
    by (rule led.leads_catching) (auto intro: led.leads_throw)
  moreover have "led.leads (books {} None b p) (call Time_Left as_bool) (\<lambda>r. books {} None b p)" by (rule leads_read) simp
  ultimately show ?thesis unfolding take_slot_def
    by (auto intro!: led.leads_then [where P = "books {} None b p" and R = "\<lambda>r. books {} None b p"] led.leads_throw intro: workingI)
qed

lemma local_slot_leads: "led.leads (working b p) (local_slot ep) (\<lambda>r. working b p)"
  unfolding local_slot_def
proof (rule led.leads_get, rule led.leads_then [where R = "\<lambda>r. working b p"])
  fix s
  show "led.leads (\<lambda>l s'. working b p l s' \<and> s' = s) (case ho_slot s of Some _ \<Rightarrow> give () | None \<Rightarrow> take_slot ep) (\<lambda>r. working b p)"
  proof (cases "ho_slot s")
    case None
    then show ?thesis using take_slot_leads [of b p ep]
      by (auto simp: working_def books_def elim!: led.leads_weaken)
  qed (auto intro: led.leads_give)
qed (auto intro!: led.leads_get led.leads_give led.leads_throw split: option.split)

lemma slot_render_leads: "led.leads (working b p) (slot_render ep t) (\<lambda>r. working b p)"
  unfolding slot_render_def
proof (rule led.leads_then [OF local_slot_leads], rule led.leads_then)
  show "led.leads (working b p) (call Time_Left as_bool) (\<lambda>r. working b p)" by (rule leads_read) simp
  fix left
  show "led.leads (working b p) (if \<not> left then throw Timeout_Error else call (Render_On t) as_rendered) (\<lambda>r. working b p)"
    by (auto intro!: led.leads_throw leads_read)
qed auto

text \<open>The slot's lease is released for good when the cloud's is there.\<close>

definition with_cloud :: "string option \<Rightarrow> ledger \<Rightarrow> holding \<Rightarrow> bool" where
  "with_cloud p l s \<longleftrightarrow> (\<exists>a b. books {} a b p l s)"

lemma with_cloudI: "books {} a b p l s \<Longrightarrow> with_cloud p l s"
  by (auto simp: with_cloud_def)

lemma working_cloud: "working b p l s \<Longrightarrow> with_cloud p l s"
  by (auto simp: working_def with_cloud_def)

lemma acquire_cloud_leads:
  "led.leads (books {} a None p) (and_then (acquire_attempt u n BROWSERLESS_CLOUD old) (\<lambda>l. change_state (keep_cloud l)))
     (\<lambda>r. with_cloud p)"
proof (rule led.leads_then [OF acquire_books])
  fix x
  show "led.leads (\<lambda>l s. case Inr x of Inl e \<Rightarrow> books {} a None p l s | Inr x \<Rightarrow> \<not> le_released x \<and> books {le_attempt x} a None p l s)
      (change_state (keep_cloud x)) (\<lambda>r. with_cloud p)"
  proof (rule led.leads_change)
    fix l s assume "case Inr x of Inl e \<Rightarrow> books {} a None p l s | Inr x \<Rightarrow> \<not> le_released x \<and> books {le_attempt x} a None p l s"
    then have "books {} a (Some x) p l (keep_cloud x s)" by (auto simp: books_def owed_def keep_cloud_def)
    then show "with_cloud p l (keep_cloud x s)" by (rule with_cloudI)
  qed
qed (auto intro: with_cloudI)

definition slot_returned :: "string option \<Rightarrow> ledger \<Rightarrow> holding \<Rightarrow> bool" where
  "slot_returned p l s \<longleftrightarrow> (\<exists>a b. books {} a b p l s \<and> lg_attempts l \<subseteq> owed b)"

lemma slot_returnedI: "books {} a b p l s \<Longrightarrow> lg_attempts l \<subseteq> owed b \<Longrightarrow> slot_returned p l s"
  by (auto simp: slot_returned_def)

lemma return_slot_leads:
  "led.leads (\<lambda>l s. with_cloud p l s \<and> ho_slot s = Some x) (bounded (release_lease keep_slot x f why)) (\<lambda>r l s. r = Inr () \<and> slot_returned p l s)"
proof (rule release_leads)
  fix l s assume "with_cloud p l s \<and> ho_slot s = Some x" "le_released x"
  then show "slot_returned p l s" by (auto simp: with_cloud_def books_def slot_returned_def)
next
  fix l s ans
  assume "(with_cloud p l s \<and> ho_slot s = Some x) \<or> slot_returned p l s"
  then have "with_cloud p l s \<and> lg_attempts l \<subseteq> insert (le_attempt x) (owed (ho_cloud s))"
    using owed_at [of x] by (elim disjE conjE) (auto simp: with_cloud_def slot_returned_def books_def dest!: subset_trans [OF _ Un_mono [OF owed_at order_refl]])
  then show "slot_returned p (entry (Finish (le_attempt x) f why) ans l) s"
    by (auto simp: with_cloud_def books_def slot_returned_def)
next
  fix l s assume "slot_returned p l s"
  then obtain a b where "books {} a b p l s" "lg_attempts l \<subseteq> owed b" by (auto simp: slot_returned_def)
  then have "books {} (Some (x\<lparr>le_released := True\<rparr>)) b p l (keep_slot (x\<lparr>le_released := True\<rparr>) s)"
    by (auto simp: books_def keep_slot_def)
  then show "slot_returned p l (keep_slot (x\<lparr>le_released := True\<rparr>) s)"
    using \<open>lg_attempts l \<subseteq> owed b\<close> by (rule slot_returnedI)
qed

lemma activate_cloud_leads:
  "led.leads (with_cloud p) (and_then get_state (\<lambda>s :: holding. case ho_cloud s of Some l \<Rightarrow> activate_lease keep_cloud l | None \<Rightarrow> throw Uncaught))
     (\<lambda>r. with_cloud p)"
proof (rule led.leads_get)
  fix s :: holding
  show "led.leads (\<lambda>l s'. with_cloud p l s' \<and> s' = s) (case ho_cloud s of Some l \<Rightarrow> activate_lease keep_cloud l | None \<Rightarrow> throw Uncaught)
      (\<lambda>r. with_cloud p)"
  proof (cases "ho_cloud s")
    case (Some x)
    have "led.leads (\<lambda>l s'. with_cloud p l s' \<and> s' = s) (activate_lease keep_cloud x) (\<lambda>r. with_cloud p)"
    proof (rule activate_leads)
      fix l s' assume "with_cloud p l s' \<and> s' = s"
      then obtain a where "books {} a (Some x) p l s'" using Some by (auto simp: with_cloud_def books_def)
      then have "books {} a (Some (x\<lparr>le_active := True\<rparr>)) p l (keep_cloud (x\<lparr>le_active := True\<rparr>) s')"
        by (simp add: books_def keep_cloud_def)
      then show "with_cloud p l (keep_cloud (x\<lparr>le_active := True\<rparr>) s')" by (rule with_cloudI)
    qed simp
    then show ?thesis using Some by simp
  qed (auto intro: led.leads_throw)
qed

lemma switch_leads: "led.leads (books {} a None p) (switch_to_cloud ep) (\<lambda>r. with_cloud p)"
  unfolding switch_to_cloud_def
proof (rule led.leads_get, rule led.leads_then [where R = "\<lambda>r. with_cloud p"])
  fix s :: holding
  let ?acquire = "and_then (acquire_attempt (ep_uuid ep) (ep_polls ep) BROWSERLESS_CLOUD (map_option le_attempt (ho_slot s))) (\<lambda>l. change_state (keep_cloud l))"
  have "led.leads (books {} a None p) (within_time Switch_Wait ?acquire) (\<lambda>r. with_cloud p)"
    by (rule led.leads_within) (rule acquire_cloud_leads)
  then have "led.leads (\<lambda>l s'. books {} a None p l s' \<and> s' = s) (within_time Switch_Wait ?acquire) (\<lambda>r. with_cloud p)"
    by (rule led.leads_weaken) auto
  then show "led.leads (\<lambda>l s'. books {} a None p l s' \<and> s' = s) (catching (within_time Switch_Wait ?acquire)
      (\<lambda>e. throw (if no_capacity e then Browser_Capacity else e))) (\<lambda>r. with_cloud p)"
    by (rule led.leads_catching) (auto intro: led.leads_throw)
next
  fix u :: unit
  have "led.leads (\<lambda>l s'. with_cloud p l s' \<and> s' = s) (case ho_slot s of Some l \<Rightarrow> bounded (release_lease keep_slot l False ''challenge_resolution'') | None \<Rightarrow> give ())
      (\<lambda>r. with_cloud p)" for s :: holding
  proof (cases "ho_slot s")
    case (Some x)
    have "led.leads (\<lambda>l s'. with_cloud p l s' \<and> s' = s) (bounded (release_lease keep_slot x False ''challenge_resolution'')) (\<lambda>r. with_cloud p)"
      by (rule led.leads_weaken [OF return_slot_leads [of p x]]) (use Some in \<open>auto simp: slot_returned_def with_cloud_def\<close>)
    then show ?thesis using Some by simp
  qed (auto intro: led.leads_give)
  then show "led.leads (with_cloud p) (and_then get_state (\<lambda>s.
         and_then (case ho_slot s of Some l \<Rightarrow> bounded (release_lease keep_slot l False ''challenge_resolution'') | None \<Rightarrow> give ()) (\<lambda>_.
           and_then get_state (\<lambda>s. case ho_cloud s of Some l \<Rightarrow> activate_lease keep_cloud l | None \<Rightarrow> throw Uncaught))))
      (\<lambda>r. with_cloud p)"
    by (intro led.leads_get led.leads_then [where R = "\<lambda>r. with_cloud p"] activate_cloud_leads) auto
qed auto

lemma cloud_render_leads: "led.leads (working None p) (cloud_render ep) (\<lambda>r. with_cloud p)"
proof -
  have "led.leads (working None p) (switch_to_cloud ep) (\<lambda>r. with_cloud p)"
    using switch_leads [of _ p ep] by (fastforce simp: led.leads_def working_def)
  then show ?thesis unfolding cloud_render_def by (rule led.leads_then) (auto intro: leads_read)
qed

text \<open>After the tiers in \<open>S\<close> have been tried.\<close>

definition holds :: "tier_name set \<Rightarrow> string option \<Rightarrow> ledger \<Rightarrow> holding \<Rightarrow> bool" where
  "holds S p l s \<longleftrightarrow> (\<exists>b. working b p l s \<and> (Challenge_Resolution \<notin> S \<longrightarrow> b = None))"

lemma holds_cloud: "holds S p l s \<Longrightarrow> with_cloud p l s"
  by (auto simp: holds_def working_cloud)

lemma tier_leads:
  assumes "bt_tier t \<notin> S"
  shows "led.leads (holds S p) (tier_render ep t) (\<lambda>r. holds (insert (bt_tier t) S) p)"
  unfolding tier_render_def
proof (rule led.leads_within)
  show "led.leads (holds S p) (if bt_tier t = Challenge_Resolution then cloud_render ep else slot_render ep (bt_tier t))
      (\<lambda>r. holds (insert (bt_tier t) S) p)"
  proof (cases "bt_tier t = Challenge_Resolution")
    case True
    have "led.leads (holds S p) (cloud_render ep) (\<lambda>r. holds (insert (bt_tier t) S) p)"
      by (rule led.leads_weaken [OF cloud_render_leads]) (use assms True in \<open>auto simp: holds_def with_cloud_def working_def\<close>)
    then show ?thesis using True by simp
  next
    case False
    have "led.leads (\<lambda>l s. \<exists>b. working b p l s \<and> (Challenge_Resolution \<notin> S \<longrightarrow> b = None)) (slot_render ep (bt_tier t))
        (\<lambda>r. holds (insert (bt_tier t) S) p)"
    proof (rule leads_ex)
      fix b
      show "led.leads (\<lambda>l s. working b p l s \<and> (Challenge_Resolution \<notin> S \<longrightarrow> b = None)) (slot_render ep (bt_tier t))
          (\<lambda>r. holds (insert (bt_tier t) S) p)"
      proof (cases "Challenge_Resolution \<notin> S \<longrightarrow> b = None")
        case True
        show ?thesis by (rule led.leads_weaken [OF slot_render_leads [of b p]]) (use True False in \<open>auto simp: holds_def\<close>)
      qed (auto simp: led.leads_def)
    qed
    then show ?thesis using False by (simp add: holds_def [abs_def])
  qed
qed

lemma attempt_leads:
  assumes "bt_tier t \<notin> S"
  shows "led.leads (holds S p) (attempt_render ep t) (\<lambda>r. holds (insert (bt_tier t) S) p)"
  unfolding attempt_render_def
proof (rule led.leads_catching [OF tier_leads [OF assms]])
  fix e
  have "led.leads (holds (insert (bt_tier t) S) p) (call Seconds as_seconds) (\<lambda>r. holds (insert (bt_tier t) S) p)"
    by (rule leads_read) simp
  then show "led.leads (holds (insert (bt_tier t) S) p) (if is_exception e then and_then (call Seconds as_seconds) (\<lambda>q. give
       (if e = Browser_Capacity then Browser_Busy q (Some RETRY_AFTER_SECONDS)
        else if e = Timeout_Error then Render_Timeout q else Render_Error q)) else throw e) (\<lambda>r. holds (insert (bt_tier t) S) p)"
    by (auto intro!: led.leads_throw led.leads_then [where R = "\<lambda>r. holds (insert (bt_tier t) S) p"] led.leads_give)
qed

lemma leads_wait:
  assumes "led.leads P m (\<lambda>r. R)" "\<And>x. led.leads R (k x) (\<lambda>r. Q)" "\<And>l s. R l s \<Longrightarrow> Q l s"
  shows "led.leads P (wait_or_expire r m k) (\<lambda>r. Q)"
  unfolding wait_or_expire_def
proof (rule led.leads_then [where R = "\<lambda>r. R"])
  have "led.leads P (and_then m (\<lambda>x. give (Inr x))) (\<lambda>r. R)"
    by (rule led.leads_then [OF assms(1)]) (auto intro: led.leads_give)
  then show "led.leads P (catching (and_then m (\<lambda>x. give (Inr x))) (\<lambda>e. if e \<in> {Timeout_Error, Cancelled Service_Deadline}
      then give (Inl (deadline_expired r)) else throw e)) (\<lambda>r. R)"
    by (rule led.leads_catching) (auto intro: led.leads_give led.leads_throw)
  show "led.leads R (case y of Inl r' \<Rightarrow> give r' | Inr x \<Rightarrow> k x) (\<lambda>r. Q)" for y
    by (cases y) (auto intro: led.leads_give assms)
qed (rule assms(3))

lemma exec_leads: "once S prg \<Longrightarrow> led.leads (holds S p) (exec ep prg) (\<lambda>r. with_cloud p)"
proof (induction prg arbitrary: S)
  case (Finished x)
  show ?case by (cases x) (auto intro: led.leads_give led.leads_throw holds_cloud)
next
  case (Await_Fetch r k)
  then show ?case by (auto intro!: leads_wait [OF leads_read] intro: holds_cloud)
next
  case (Await_Verdict r k)
  then show ?case by (auto intro!: leads_wait [OF leads_read] intro: holds_cloud)
next
  case (Await_Cache r k)
  then show ?case by (auto intro!: leads_wait [OF leads_read] intro: holds_cloud)
next
  case (Check_Time k)
  then show ?case by (auto intro!: led.leads_then [where R = "\<lambda>r. holds S p"] leads_read intro: holds_cloud)
next
  case (Await_Render r t k)
  then have t: "bt_tier t \<notin> S" by simp
  show ?case unfolding exec.simps
  proof (rule leads_wait [OF attempt_leads [OF t]])
    show "led.leads (holds (insert (bt_tier t) S) p) (exec ep (k x)) (\<lambda>r. with_cloud p)" for x
      using Await_Render by auto
  qed (rule holds_cloud)
next
  case (Await_Record r ok prg)
  then show ?case by (auto intro!: leads_wait [OF leads_read] intro: holds_cloud)
qed

lemma service_with_ok: "service_ok (service_with ep paid_ok)"
  by (simp add: service_ok_def service_with_def managed_tier_def local_tier_def cloud_tier_def)

lemma page_leads: "led.leads (holds {} p) (capture_page ep rq paid_ok) (\<lambda>r. with_cloud p)"
proof -
  have "led.leads (holds {} p) (exec ep (acquire (service_with ep paid_ok) rq (new_result rq))) (\<lambda>r. with_cloud p)"
    by (rule exec_leads) (rule acquire_once [OF service_with_ok])
  then show ?thesis unfolding capture_page_def by (rule led.leads_then) (auto intro: led.leads_give)
qed

section \<open>Admission\<close>

abbreviation admitted_only :: "ledger \<Rightarrow> holding \<Rightarrow> bool" where
  "admitted_only \<equiv> books {} None None None"

definition ready :: "ledger \<Rightarrow> holding \<Rightarrow> bool" where
  "ready l s \<longleftrightarrow> (\<exists>p. holds {} p l s)"

lemma readyI: "books {} a None p l s \<Longrightarrow> ready l s"
  by (auto simp: ready_def holds_def working_def)

lemma paced_books:
  "admitted_only l s \<Longrightarrow> books {} None None (Some i) (entry (Pace i) a l) (s\<lparr>ho_pacing := Some i\<rparr>)"
  "admitted_only l s \<Longrightarrow> admitted_only (entry (Unpace i seen) a' (entry (Pace i) a l)) s"
  by (cases a; force simp: books_def)+

lemma pacing_leads:
  "led.leads (\<lambda>l s. \<exists>l0. admitted_only l0 s \<and> l = entry (Pace i) a l0) (after_pacing i a) (\<lambda>r. ready)"
proof -
  let ?P = "\<lambda>l s. \<exists>l0. admitted_only l0 s \<and> l = entry (Pace i) a l0"
  have taken: "led.leads ?P (change_state (\<lambda>s. s\<lparr>ho_pacing := Some i\<rparr>)) (\<lambda>r. ready)"
    by (rule led.leads_change) (auto simp del: entry.simps intro: readyI paced_books(1))
  have "led.leads ?P (bounded (call (Unpace i None) as_unit)) (\<lambda>r l s. r = Inr () \<and> admitted_only l s)"
    by (rule leads_bounded [where R = "\<lambda>r l s. admitted_only l s \<and> (case r of Inl e \<Rightarrow> own_timeout e | Inr u \<Rightarrow> True)"], rule led.leads_call)
      (auto simp del: entry.simps intro: as_unit_own paced_books(2) split: sum.split)
  then have returned: "led.leads ?P (and_then (bounded (call (Unpace i None) as_unit)) (\<lambda>_. throw e)) (\<lambda>r. ready)" for e
    by (rule led.leads_then) (auto intro!: led.leads_throw intro: readyI)
  show ?thesis using taken returned
    by (cases a) (auto simp: after_pacing_def intro!: led.leads_throw intro: readyI)
qed

lemma domain_leads: "led.leads admitted_only (admit_domain ep rq) (\<lambda>r. ready)"
  unfolding admit_domain_def
proof (rule led.leads_then [OF new_uuid_books])
  fix i
  have "led.leads admitted_only (and_then (call (Pace i) Inr) (after_pacing i)) (\<lambda>r. ready)"
    by (rule led.leads_then [OF leads_ask], rule led.leads_weaken [OF pacing_leads]) auto
  then show "led.leads (\<lambda>l s. (\<exists>j. Inr i = Inr j) \<and> admitted_only l s)
      (if normal_host_of ep (rq_url rq) = None then throw Value_Error else and_then (call (Pace i) Inr) (after_pacing i)) (\<lambda>r. ready)"
    by (auto intro!: led.leads_throw intro: readyI)
qed auto

lemma set_up_leads: "led.leads admitted_only (set_up ep rq) (\<lambda>r. ready)"
  unfolding set_up_def
proof (rule led.leads_then [where R = "\<lambda>r. admitted_only"])
  show "led.leads admitted_only open_lease (\<lambda>r. admitted_only)" unfolding open_lease_def
    by (rule led.leads_get, rule led.leads_then [where R = "\<lambda>r. admitted_only"], rule led.leads_call)
      (auto intro: led.leads_give led.leads_throw)
  have tier: "led.leads ready (challenge_tier ep rq) (\<lambda>r. ready)" unfolding challenge_tier_def
    by (auto intro!: led.leads_give led.leads_then [where R = "\<lambda>r. ready"] leads_read)
  show "led.leads admitted_only (and_then (admit_domain ep rq) (\<lambda>_. challenge_tier ep rq)) (\<lambda>r. ready)" for u :: unit
    by (rule led.leads_then [OF domain_leads]) (use tier in auto)
qed (auto intro: readyI)

definition in_use :: "ledger \<Rightarrow> holding \<Rightarrow> bool" where
  "in_use l s \<longleftrightarrow> (\<exists>p. with_cloud p l s)"

lemma ready_in_use: "ready l s \<Longrightarrow> in_use l s"
  by (auto simp: ready_def in_use_def intro: holds_cloud)

lemma body_leads: "led.leads admitted_only (capture_body ep rq) (\<lambda>r. in_use)"
  unfolding capture_body_def
proof (rule led.leads_then [where R = "\<lambda>r. ready"])
  have "led.leads admitted_only (and_then (within_time Setup_Wait (set_up ep rq)) (\<lambda>c. give (Some c))) (\<lambda>r. ready)"
    by (rule led.leads_then [where R = "\<lambda>r. ready"], rule led.leads_within, rule set_up_leads) (auto intro: led.leads_give)
  then show "led.leads admitted_only (catching (and_then (within_time Setup_Wait (set_up ep rq)) (\<lambda>c. give (Some c)))
      (\<lambda>e. if e = Timeout_Error then give None else throw e)) (\<lambda>r. ready)"
    by (rule led.leads_catching) (auto intro: led.leads_give led.leads_throw)
  have "led.leads (\<lambda>l s. \<exists>p. holds {} p l s) (capture_page ep rq b) (\<lambda>r. in_use)" for b
    by (rule leads_ex, rule led.leads_weaken [OF page_leads]) (auto simp: in_use_def)
  then have "led.leads ready (capture_page ep rq b) (\<lambda>r. in_use)" for b by (simp add: ready_def [abs_def])
  then show "led.leads ready (case c of None \<Rightarrow> give (expired_early rq) | Some paid_ok \<Rightarrow> capture_page ep rq paid_ok) (\<lambda>r. in_use)" for c
    by (cases c) (auto intro!: led.leads_give ready_in_use)
qed (rule ready_in_use)

section \<open>Cleanup\<close>

text \<open>The stages of the cleanup: the pacing lease first, then the cloud's attempt, the slot's, the session.\<close>

definition unpaced :: "ledger \<Rightarrow> holding \<Rightarrow> bool" where
  "unpaced l s \<longleftrightarrow> in_use l s \<and> lg_pacing l = {}"

definition uncloud :: "ledger \<Rightarrow> holding \<Rightarrow> bool" where
  "uncloud l s \<longleftrightarrow> in_use l s \<and> lg_pacing l = {} \<and> lg_attempts l \<subseteq> owed (ho_slot s)"

definition idle :: "ledger \<Rightarrow> holding \<Rightarrow> bool" where
  "idle l s \<longleftrightarrow> \<not> ho_session_released s \<and> lg_attempts l = {} \<and> lg_pacing l = {} \<and> lg_releases l = [] \<and> \<not> lg_provider l \<and> \<not> lg_early l"

lemma in_use_alt:
  "in_use l s \<longleftrightarrow> \<not> ho_session_released s \<and> lg_session l \<and> lg_releases l = []
     \<and> \<not> ho_provider s \<and> \<not> lg_provider l \<and> \<not> lg_early l
     \<and> lg_attempts l \<subseteq> owed (ho_slot s) \<union> owed (ho_cloud s) \<and> lg_pacing l \<subseteq> set_option (ho_pacing s)"
  by (auto simp: in_use_def with_cloud_def books_def)

lemma unpace_leads: "led.leads in_use (release_pacing ep rq r) (\<lambda>r l s. r = Inr () \<and> unpaced l s)"
  unfolding release_pacing_def
proof (rule led.leads_get)
  fix s
  let ?P = "\<lambda>l s'. in_use l s' \<and> s' = s"
  have "led.leads ?P (bounded (call (Unpace i seen) as_unit)) (\<lambda>r l s. r = Inr () \<and> unpaced l s)"
    if "ho_pacing s = Some i" for i seen
    by (rule leads_bounded [where R = "\<lambda>r l s. unpaced l s \<and> (case r of Inl e \<Rightarrow> own_timeout e | Inr u \<Rightarrow> True)"], rule led.leads_call)
      (use that in \<open>auto simp: unpaced_def in_use_alt intro: as_unit_own split: sum.split\<close>)
  then show "led.leads ?P (case ho_pacing s of Some i \<Rightarrow>
        bounded (call (Unpace i (case r of Inr x \<Rightarrow> Some (pacing_observation ep rq x) | Inl _ \<Rightarrow> None)) as_unit)
      | None \<Rightarrow> give ()) (\<lambda>r l s. r = Inr () \<and> unpaced l s)"
    by (cases "ho_pacing s") (auto simp: unpaced_def in_use_alt intro!: done_leads)
qed

lemma record_leads: "led.leads P (bounded (call Record_Result as_unit)) (\<lambda>r l s. r = Inr () \<and> P l s)"
  by (rule leads_quiet) simp_all

lemma cloud_leads: "led.leads unpaced (release_held keep_cloud ho_cloud f why) (\<lambda>r l s. r = Inr () \<and> uncloud l s)"
  unfolding release_held_def
proof (rule led.leads_get)
  fix s
  have "led.leads (\<lambda>l s'. unpaced l s' \<and> s' = s) (bounded (release_lease keep_cloud x f why)) (\<lambda>r l s. r = Inr () \<and> uncloud l s)"
    if "ho_cloud s = Some x" for x
    by (rule release_leads)
      (use that in \<open>auto simp: unpaced_def uncloud_def in_use_alt keep_cloud_def dest: owed_in\<close>)
  then show "led.leads (\<lambda>l s'. unpaced l s' \<and> s' = s) (case ho_cloud s of Some l \<Rightarrow> bounded (release_lease keep_cloud l f why) | None \<Rightarrow> give ())
      (\<lambda>r l s. r = Inr () \<and> uncloud l s)"
    by (cases "ho_cloud s") (auto simp: unpaced_def uncloud_def in_use_alt intro!: done_leads)
qed

lemma slot_leads: "led.leads uncloud (release_held keep_slot ho_slot f why) (\<lambda>r l s. r = Inr () \<and> idle l s)"
  unfolding release_held_def
proof (rule led.leads_get)
  fix s
  have "led.leads (\<lambda>l s'. uncloud l s' \<and> s' = s) (bounded (release_lease keep_slot x f why)) (\<lambda>r l s. r = Inr () \<and> idle l s)"
    if "ho_slot s = Some x" for x
    by (rule release_leads)
      (use that in \<open>auto simp: uncloud_def idle_def in_use_alt keep_slot_def dest: owed_in\<close>)
  then show "led.leads (\<lambda>l s'. uncloud l s' \<and> s' = s) (case ho_slot s of Some l \<Rightarrow> bounded (release_lease keep_slot l f why) | None \<Rightarrow> give ())
      (\<lambda>r l s. r = Inr () \<and> idle l s)"
    by (cases "ho_slot s") (auto simp: uncloud_def idle_def in_use_alt intro!: done_leads)
qed

lemma clean_up_leads: "led.leads in_use (clean_up ep rq r) (\<lambda>r' l s. r' = Inr () \<and> settled [ending r] l)"
proof -
  obtain f why where e: "ending r = (f, why)" by (cases "ending r")
  have sess: "led.leads idle (bounded (release_session_lease f why)) (\<lambda>r l s. r = Inr () \<and> settled [(f, why)] l)"
    using session_leads [of f why] by (simp add: idle_def [abs_def])
  have rec: "led.leads unpaced (case r of Inr _ \<Rightarrow> bounded (call Record_Result as_unit) | Inl _ \<Rightarrow> give ()) (\<lambda>r l s. r = Inr () \<and> unpaced l s)"
    using record_leads by (cases r) (auto intro: done_leads)
  show ?thesis unfolding clean_up_def e Let_def prod.case
    by (rule led.leads_then [OF unpace_leads], rule led.leads_weaken, rule led.leads_then [OF rec], rule led.leads_weaken,
        rule led.leads_then [OF cloud_leads], rule led.leads_weaken, rule led.leads_then [OF slot_leads], rule led.leads_weaken, rule sess)
      auto
qed

section \<open>The whole capture\<close>

definition unopened :: "ledger \<Rightarrow> holding \<Rightarrow> bool" where
  "unopened l s \<longleftrightarrow> l = \<lparr>lg_session = False, lg_attempts = {}, lg_pacing = {}, lg_releases = [], lg_provider = False, lg_early = False, lg_told = None\<rparr>
     \<and> ho_slot s = None \<and> ho_cloud s = None \<and> ho_pacing s = None \<and> \<not> ho_session_released s \<and> \<not> ho_provider s"

definition refused :: "ledger \<Rightarrow> bool" where
  "refused l \<longleftrightarrow> settled [] l \<or> (\<exists>why. settled [(True, why)] l)"

lemma unopened_refused: "unopened l s \<Longrightarrow> refused l"
  by (simp add: unopened_def refused_def settled_def)

lemma policy_leads: "led.leads unopened read_policy (\<lambda>r. unopened)"
  unfolding read_policy_def
  by (rule led.leads_catching [where R = "\<lambda>r. unopened"], rule led.leads_within, rule leads_read) (auto intro: led.leads_throw)

definition admission :: "exn + unit \<Rightarrow> ledger \<Rightarrow> holding \<Rightarrow> bool" where
  "admission r l s \<longleftrightarrow> (case r of Inl e \<Rightarrow> refused l | Inr u \<Rightarrow> admitted_only l s)"

lemma after_admission_leads:
  "led.leads (\<lambda>l s. \<exists>l0. unopened l0 s \<and> l = entry (Admit i) a l0) (after_admission a) admission"
proof -
  let ?P = "\<lambda>l s. \<exists>l0. unopened l0 s \<and> l = entry (Admit i) a l0"
  have late: "led.leads ?P (and_then (bounded (release_session_lease True why)) (\<lambda>_. throw e)) admission" for why e
  proof (rule led.leads_then [OF led.leads_weaken [OF session_leads [of True why]]])
    show "?P l s \<Longrightarrow> \<not> ho_session_released s \<and> lg_attempts l = {} \<and> lg_pacing l = {} \<and> lg_releases l = [] \<and> \<not> lg_provider l \<and> \<not> lg_early l" for l s
      by (auto simp: unopened_def split: if_splits)
  qed (auto intro!: led.leads_throw simp: admission_def refused_def)
  have none: "led.leads ?P (throw e) admission" if "\<not> obtained a" for e
    by (rule led.leads_throw) (use that in \<open>auto simp: admission_def unopened_refused\<close>)
  have got: "led.leads ?P (give ()) admission" if "obtained a"
    by (rule led.leads_give) (use that in \<open>auto simp: admission_def unopened_def books_def\<close>)
  show ?thesis
  proof (cases a)
    case (Interrupted c b)
    then show ?thesis using late none [unfolded Interrupted obtained_def]
      by (cases "admitted b = Inr ()") (auto simp: after_admission_def and_then_def give_def led.leads_def)
  qed (use none got in \<open>auto simp: after_admission_def obtained_def split: sum.split session_admission_status.splits\<close>)
qed

lemma admit_leads: "led.leads unopened (admit_session ep rq) admission"
proof -
  have uuid: "led.leads unopened (new_uuid u) (\<lambda>r l s. (\<exists>i. r = Inr i) \<and> unopened l s)" for u
    by (simp add: led.leads_def new_uuid_def and_then_def get_state_def change_state_def give_def unopened_def)
  have name: "led.leads unopened (change_state (\<lambda>s. s\<lparr>ho_session := i\<rparr>)) (\<lambda>r. unopened)" for i
    by (rule led.leads_change) (simp add: unopened_def)
  have ask: "led.leads unopened (and_then (call (Admit i) Inr) after_admission) admission" for i
    by (rule led.leads_then [OF leads_ask], rule led.leads_weaken [OF after_admission_leads [of i]]) auto
  have "led.leads unopened (and_then (change_state (\<lambda>s. s\<lparr>ho_session := i\<rparr>)) (\<lambda>_. and_then (call (Admit i) Inr) after_admission)) admission" for i
    by (rule led.leads_then [OF name ask]) (simp add: admission_def unopened_refused)
  then show ?thesis unfolding admit_session_def
    by (auto intro!: led.leads_throw led.leads_then [OF uuid] simp: admission_def unopened_refused)
qed

definition finished :: "exn + capture_result \<Rightarrow> ledger \<Rightarrow> bool" where
  "finished r l \<longleftrightarrow> (case r of Inr x \<Rightarrow> settled [(False, ''capture_completed'')] l | Inl e \<Rightarrow> refused l)"

lemma capture_leads: "led.leads unopened (capture_once ep rq) (\<lambda>r l s. finished r l)"
  unfolding capture_once_def
proof (rule led.leads_then [OF policy_leads], rule led.leads_then [OF admit_leads])
  fix u :: unit
  have "led.leads admitted_only (finally_do (capture_body ep rq) (clean_up ep rq)) (\<lambda>r l s. finished r l)"
    by (rule led.leads_finally [OF body_leads clean_up_leads]) (auto simp: finished_def refused_def ending_def split: sum.split exn.splits)
  then show "led.leads (admission (Inr u)) (finally_do (capture_body ep rq) (clean_up ep rq)) (\<lambda>r l s. finished r l)"
    by (simp add: admission_def [abs_def])
qed (auto simp: admission_def finished_def unopened_refused)

lemma url_leads:
  "led.leads unopened (capture_url ep rq) (\<lambda>r l s. finished r l \<and> (\<forall>e. r = Inl e \<longrightarrow> \<not> is_transient_database_error e))"
  unfolding capture_url_def
  by (rule led.leads_catching [OF capture_leads]) (auto intro!: led.leads_throw simp: finished_def)

text \<open>C6: However the database, the site, the browsers and the clocks answer, with errors and cancellations, a capture
  leaves nothing behind as long as its cleanup is cut short only by the cleanup's own timeout: no session lease keeps
  its heartbeat, every attempt that may have been granted has been asked to finish and every pacing lease to be released.
  The session is released once, as failed exactly when no result is returned. A transient database error never leaves
  the endpoint.\<close>

theorem capture_releases_everything:
  assumes "converse outside 0 (capture_url ep rq empty_handed) = (talk, r, s)"
    and "\<forall>(q, a) \<in> set talk. undisturbed q a"
  shows "\<not> lg_session (tally talk) \<and> lg_attempts (tally talk) = {} \<and> lg_pacing (tally talk) = {}
    \<and> (case r of Inr x \<Rightarrow> lg_releases (tally talk) = [(False, ''capture_completed'')]
       | Inl e \<Rightarrow> (lg_releases (tally talk) = [] \<or> (\<exists>why. lg_releases (tally talk) = [(True, why)])) \<and> \<not> is_transient_database_error e)"
proof -
  let ?l0 = "\<lparr>lg_session = False, lg_attempts = {}, lg_pacing = {}, lg_releases = [], lg_provider = False, lg_early = False, lg_told = None\<rparr>"
  have "led.every (\<lambda>l (r, s). finished r l \<and> (\<forall>e. r = Inl e \<longrightarrow> \<not> is_transient_database_error e)) ?l0 (capture_url ep rq empty_handed)"
    using url_leads by (simp add: led.leads_def unopened_def empty_handed_def)
  from led.every_converse [OF this assms]
  have "finished r (tally talk) \<and> (\<forall>e. r = Inl e \<longrightarrow> \<not> is_transient_database_error e)" by (simp add: tally_def)
  then show ?thesis by (auto simp: finished_def refused_def settled_def split: sum.splits)
qed

text \<open>A page served over HTTP that needs a browser; the attempt for it waits in the queue first.\<close>

definition sample_endpoint :: capture_endpoint where
  "sample_endpoint = \<lparr>ep_urls = \<lparr>ue_puny = (\<lambda>_. None), ue_bracketed_ok = (\<lambda>_. False), ue_netloc_ok = (\<lambda>_. True)\<rparr>,
     ep_ip = (\<lambda>_. None), ep_uuid = (\<lambda>n. replicate (Suc n) CHR ''u''), ep_polls = 2, ep_cloud = False, ep_service = sample_service\<rparr>"

fun sample_outside :: "(request \<Rightarrow> answer option) \<Rightarrow> nat \<Rightarrow> request \<Rightarrow> answer" where
  "sample_outside f n q = (case f q of Some a \<Rightarrow> a | None \<Rightarrow> (case q of
       Admit i \<Rightarrow> Admission SA_ADMITTED
     | Open_Session i \<Rightarrow> Yes_No True
     | Enqueue i p old \<Rightarrow> Placed ADM_QUEUED None
     | Claim i \<Rightarrow> Claimed (Some (Some ''ws://b''))
     | Activate i \<Rightarrow> Yes_No True
     | Finish i failed why \<Rightarrow> Yes_No True
     | Time_Left \<Rightarrow> Yes_No True
     | Fetch \<Rightarrow> Fetched_As (Fetched sample_http)
     | Classify \<Rightarrow> Classified \<lparr>vd_rejected = False, vd_reason = None, vd_confidence = 1, vd_flags = [], vd_notes = []\<rparr>
     | Ask_Cache \<Rightarrow> Cached (None, False)
     | Render_On t \<Rightarrow> Rendered_As (Page_Rendered sample_page)
     | _ \<Rightarrow> Fine))"

abbreviation sample_run_of :: "(request \<Rightarrow> answer option) \<Rightarrow> (request \<times> answer) list \<times> (exn + capture_result) \<times> holding" where
  "sample_run_of f \<equiv> converse (sample_outside f) 0 (capture_url sample_endpoint sample_request empty_handed)"

lemma sample_talk:
  "map fst (fst (sample_run_of (\<lambda>_. None))) =
     [Get_Policy, Admit ''u'', Open_Session ''u'', Pace ''uu'', Fetch, Classify, Ask_Cache, Time_Left, Time_Left,
      Enqueue ''uuu'' BROWSERLESS None, Claim ''uuu'', Activate ''uuu'', Time_Left, Render_On Managed, Record_Method False,
      Unpace ''uu'' (Some \<lparr>obs_outcome = Healthy, obs_retry_after = None\<rparr>), Record_Result,
      Finish ''uuu'' False ''capture_completed'', Notify BROWSERLESS, Release_Session ''u'' False ''capture_completed'']"
  by code_simp

lemma sample_undisturbed: "list_all (\<lambda>(q, a). undisturbed q a) (fst (sample_run_of (\<lambda>_. None)))"
  by code_simp

theorem capture_releases_everything_witness:
  "\<exists>talk r s. sample_run_of (\<lambda>_. None) = (talk, r, s) \<and> Claim ''uuu'' \<in> fst ` set talk \<and> Pace ''uu'' \<in> fst ` set talk
     \<and> \<not> lg_session (tally talk) \<and> lg_attempts (tally talk) = {} \<and> lg_pacing (tally talk) = {}"
proof -
  obtain talk r s where t: "sample_run_of (\<lambda>_. None) = (talk, r, s)" by (cases "sample_run_of (\<lambda>_. None)")
  have "set (map fst talk) = fst ` set talk" by simp
  moreover have "\<forall>(q, a) \<in> set talk. undisturbed q a" using sample_undisturbed t by (simp add: list_all_iff)
  ultimately show ?thesis using capture_releases_everything [OF t] sample_talk t by auto
qed

text \<open>The hypothesis is needed: a cancellation that arrives while the pacing lease is returned skips the rest of the
  cleanup, and the session's heartbeat goes on.\<close>

theorem cancelled_cleanup_keeps_session:
  "lg_session (tally (fst (sample_run_of (\<lambda>q. case q of Unpace i seen \<Rightarrow> Some (Raises (Cancelled Outside)) | _ \<Rightarrow> None))))"
  by code_simp

section \<open>What a capture reports to the pacing\<close>

lemma max_retry_covers:
  assumes "a \<in> set as" "at_retry_after_seconds a = Some q"
  shows "\<exists>m. max_retry as = Some m \<and> q \<le> m"
proof -
  have le: "x \<le> fold max qs x \<and> (\<forall>y \<in> set qs. y \<le> fold max qs x)" for qs and x :: rat
  proof (induction qs arbitrary: x)
    case (Cons y qs)
    then have "max y x \<le> fold max qs (max y x)" "\<forall>z \<in> set qs. z \<le> fold max qs (max y x)" by blast+
    then show ?case by simp
  qed simp
  have "q \<in> set (List.map_filter at_retry_after_seconds as)"
    using assms by (force simp: List.map_filter_def)
  then show ?thesis using le by (cases "List.map_filter at_retry_after_seconds as") (auto simp: max_retry_def)
qed

text \<open>An answer of 429 from the requested host is reported as a throttle with the longest wait asked for, whatever
  became of the capture; a healthy report means that the capture did not fail and no such answer came.\<close>

theorem pacing_evidence:
  "(\<forall>a \<in> set (cr_attempts r). at_status_code a = Some 429 \<and> same_host ep (rq_url rq) (at_final_url a) \<longrightarrow>
      obs_outcome (pacing_observation ep rq r) = Throttled
      \<and> (\<forall>q. at_retry_after_seconds a = Some q \<longrightarrow> (\<exists>m. obs_retry_after (pacing_observation ep rq r) = Some (Finite m) \<and> q \<le> m)))
    \<and> (obs_outcome (pacing_observation ep rq r) = Healthy \<longrightarrow> cr_failure r = None)"
proof (intro conjI ballI impI)
  fix a assume a: "a \<in> set (cr_attempts r)" "at_status_code a = Some 429 \<and> same_host ep (rq_url rq) (at_final_url a)"
  let ?ts = "filter (\<lambda>a. at_status_code a = Some 429 \<and> same_host ep (rq_url rq) (at_final_url a)) (cr_attempts r)"
  have t: "a \<in> set ?ts" using a by simp
  then have "?ts \<noteq> []" by (metis list.set_cases list.discI)
  then have obs: "pacing_observation ep rq r = observed Throttled (max_retry ?ts)" by (simp add: pacing_observation_def Let_def)
  show "obs_outcome (pacing_observation ep rq r) = Throttled" by (simp add: obs observed_def)
  show "\<forall>q. at_retry_after_seconds a = Some q \<longrightarrow> (\<exists>m. obs_retry_after (pacing_observation ep rq r) = Some (Finite m) \<and> q \<le> m)"
    using max_retry_covers [OF t] by (auto simp: obs observed_def)
next
  assume "obs_outcome (pacing_observation ep rq r) = Healthy"
  then show "cr_failure r = None"
    by (auto simp: pacing_observation_def observed_def Let_def split: if_splits option.splits)
qed

end
