(* ===== verification/Gateway_Connection.thy ===== *)
theory Gateway_Connection
  imports Leases
begin

text \<open>
  A protocol connection (\<^verbatim>\<open>backend/proxy/gateway.py\<close>): settings, admission of the session, an attempt and
  the browser behind it, the relay, and the cleanup, with every error path. \<open>connect\<close> runs three tasks beside its own,
  which wait for the client's disconnect, prepare the browser, and watch the session's lease. A task that its owner stops is
  cancelled with the scope \<open>Disconnect\<close> or \<open>Lease_Watch\<close>; the owner then drains it and looks at its result. The variables
  \<open>attempt\<close> and \<open>provider_session\<close> of \<open>_prepare\<close> and of \<open>connect\<close> share a field each: \<open>connect\<close> takes them over exactly
  when \<open>_prepare\<close> succeeds. Left out: the summaries that travel with a release, the phases of the close, logs.
\<close>

record connection_settings =
  cs_uuid :: "nat \<Rightarrow> string"
  cs_polls :: nat
  cs_provider :: provider_name
  cs_policy :: bool

section \<open>Preparing the browser\<close>

definition acquire_provider :: "string \<Rightarrow> unit task" where
  "acquire_provider i = catching
     (within_time Acquisition_Wait
       (and_then (call Open_Provider as_unit) (\<lambda>_.
          and_then (change_state (\<lambda>s. s\<lparr>ho_provider := True\<rparr>)) (\<lambda>_. call (Bind_Provider i) as_unit))))
     (\<lambda>e. throw (if e = Timeout_Error then Rejected ProviderAcquisitionTimeout
                 else if is_exception e then Rejected ProviderUnavailable else e))"

definition prepare_browser :: "connection_settings \<Rightarrow> unit task" where
  "prepare_browser cs = within_time Preparation_Wait
     (and_then (acquire_attempt (cs_uuid cs) (cs_polls cs) (cs_provider cs) None) (\<lambda>l.
        and_then (change_state (keep_slot l)) (\<lambda>_. acquire_provider (le_attempt l))))"

definition close_provider :: "unit task" where
  "close_provider = and_then get_state (\<lambda>s. if ho_provider s then bounded (call Close_Provider as_unit) else give ())"

definition release_attempt :: "(holding \<Rightarrow> bool \<times> string) \<Rightarrow> unit task" where
  "release_attempt ending = and_then get_state (\<lambda>s. case ho_slot s of
       None \<Rightarrow> give ()
     | Some l \<Rightarrow> and_then (bounded (call (Provider_Usage (le_attempt l)) as_unit)) (\<lambda>_.
         bounded (release_lease keep_slot l (fst (ending s)) (snd (ending s)))))"

text \<open>\<open>_cleanup_preparation\<close>; whatever its end, the variables go out of scope.\<close>

definition cleanup_preparation :: "string \<Rightarrow> unit task" where
  "cleanup_preparation reason = finally_do (and_then close_provider (\<lambda>_. release_attempt (\<lambda>_. (True, reason))))
     (\<lambda>_. change_state (\<lambda>s. s\<lparr>ho_provider := False, ho_slot := None\<rparr>))"

fun preparation_reason :: "exn \<Rightarrow> string" where
  "preparation_reason (Rejected x) = reject_reason x"
| "preparation_reason (Cancelled c) = ''client_disconnected''"
| "preparation_reason _ = ''provider_unavailable''"

definition prepare :: "connection_settings \<Rightarrow> unit task" where
  "prepare cs = catching (prepare_browser cs) (\<lambda>e.
     if e = Timeout_Error
     then and_then (cleanup_preparation ''provider_acquisition_timeout'') (\<lambda>_. throw (Rejected ProviderAcquisitionTimeout))
     else and_then (cleanup_preparation (preparation_reason e)) (\<lambda>_. throw e))"

section \<open>Setting up a connection\<close>

definition client_gone :: "bool task" where
  "client_gone = and_then (change_state (\<lambda>s. s\<lparr>ho_gone := True, ho_reason := ''client_disconnected''\<rparr>)) (\<lambda>_. give False)"

definition has_session :: "unit task" where
  "has_session = change_state (\<lambda>s. s\<lparr>ho_admitted := True\<rparr>)"

text \<open>The admission races with the disconnect. Whoever stops it, a session it obtained all the same is kept for the
  cleanup. The value: whether the connection goes on.\<close>

definition after_race :: "answer \<Rightarrow> bool task" where
  "after_race a =
     (case a of
        Interrupted c late \<Rightarrow>
          and_then (if admitted late = Inr () then has_session else give ()) (\<lambda>_.
            if c = Disconnect then client_gone else throw (Cancelled c))
      | _ \<Rightarrow> (case admitted a of Inl e \<Rightarrow> throw e | Inr _ \<Rightarrow> and_then has_session (\<lambda>_. give True)))"

definition admit_client :: "connection_settings \<Rightarrow> bool task" where
  "admit_client cs = and_then (new_uuid (cs_uuid cs)) (\<lambda>i.
     and_then (change_state (\<lambda>s. s\<lparr>ho_session := i\<rparr>)) (\<lambda>_. and_then (call (Admit i) Inr) after_race))"

text \<open>A task's result, exceptions included.\<close>

definition as_task :: "unit task \<Rightarrow> (exn + unit) task" where
  "as_task m = catching (and_then m (\<lambda>x. give (Inr x))) (\<lambda>e. give (Inl e))"

definition prepare_client :: "connection_settings \<Rightarrow> bool task" where
  "prepare_client cs = and_then (as_task (prepare cs)) (\<lambda>r. and_then (call Watch_Preparation Inr) (\<lambda>a.
     case a of
       Interrupted c x \<Rightarrow>
         if c = Disconnect then client_gone
         else if c = Lease_Watch then throw (Rejected SessionLeaseLost) else throw (Cancelled c)
     | _ \<Rightarrow> (case r of Inl e \<Rightarrow> throw e | Inr _ \<Rightarrow> give True)))"

definition open_connection :: "bool task" where
  "open_connection = and_then open_lease (\<lambda>_. and_then get_state (\<lambda>s.
     and_then (case ho_slot s of Some l \<Rightarrow> activate_lease keep_slot l | None \<Rightarrow> throw Uncaught) (\<lambda>_.
       and_then (call Accept_Client as_unit) (\<lambda>_.
         and_then (change_state (\<lambda>s. s\<lparr>ho_accepted := True\<rparr>)) (\<lambda>_. give True)))))"

definition if_going :: "bool task \<Rightarrow> bool task \<Rightarrow> bool task" where
  "if_going m k = and_then m (\<lambda>on. if on then k else give False)"

definition set_up_connection :: "connection_settings \<Rightarrow> bool task" where
  "set_up_connection cs = and_then (if cs_policy cs then call Get_Policy as_unit else give ()) (\<lambda>_.
     if_going (call Receive_First as_bool)
       (if_going (admit_client cs) (if_going (prepare_client cs) open_connection)))"

text \<open>The timeout of the admission, which remembers that it fired.\<close>

definition within_budget :: "bool task \<Rightarrow> bool task" where
  "within_budget m = catching m (\<lambda>e.
     if e = Cancelled Admission_Budget
     then and_then (change_state (\<lambda>s. s\<lparr>ho_expired := True\<rparr>)) (\<lambda>_. throw Timeout_Error)
     else throw e)"

section \<open>The relay\<close>

text \<open>A command of the client, parsed from JSON; \<open>None\<close> for a text that is no JSON, or for a binary message. Then what
  ends the relay: how its two directions ended, in the order in which they are looked at, and why the browser's connection
  says it closed.\<close>

definition client_command :: "json option \<Rightarrow> rejection + (int \<times> string)" where
  "client_command message =
     (case message of
        None \<Rightarrow> Inl InvalidCdpMessage
      | Some m \<Rightarrow>
          (case (jint (jget m ''id''), jstr (jget m ''method'')) of
             (Some i, Some method) \<Rightarrow> Inr (i, method)
           | _ \<Rightarrow> Inl InvalidCdpMessage))"

datatype direction_end = Connection_Closed | Client_Left | Failed_With exn

definition provider_disconnect_error :: "string option \<Rightarrow> rejection" where
  "provider_disconnect_error reason =
     (if reason = Some (reject_reason ProviderTimeout) then ProviderTimeout
      else if reason = Some (reject_reason DomainBlockingUnavailable) then DomainBlockingUnavailable
      else ProviderConnectionLost)"

fun relay_end :: "string option \<Rightarrow> direction_end option list \<Rightarrow> exn option" where
  "relay_end reason [] = None"
| "relay_end reason (e # es) =
     (case e of
        Some Connection_Closed \<Rightarrow> Some (Rejected (provider_disconnect_error reason))
      | Some (Failed_With x) \<Rightarrow> Some x
      | _ \<Rightarrow> relay_end reason es)"

section \<open>A connection\<close>

definition relay_until_end :: "unit task" where
  "relay_until_end = and_then (call Relay Inr) (\<lambda>a. case a of
       Fine \<Rightarrow> give ()
     | Interrupted c x \<Rightarrow> throw (if c = Lease_Watch then Rejected SessionLeaseLost else Cancelled c)
     | _ \<Rightarrow> throw (raised_by a))"

definition connection_body :: "connection_settings \<Rightarrow> unit task" where
  "connection_body cs = and_then (call Resolve_Settings as_unit) (\<lambda>_.
     and_then (within_budget (set_up_connection cs)) (\<lambda>on.
       if \<not> on then give ()
       else and_then (change_state (\<lambda>s. s\<lparr>ho_observed := True\<rparr>)) (\<lambda>_. relay_until_end)))"

text \<open>\<open>_reject\<close>\<close>

definition reject_client :: "rejection \<Rightarrow> unit task" where
  "reject_client x = catching (call (Reject_Client x) as_unit) (\<lambda>e.
     if e \<in> {Os_Error, Runtime_Error, Client_Gone} then give () else throw e)"

definition fail_with :: "rejection \<Rightarrow> unit task" where
  "fail_with x = and_then (change_state (\<lambda>s. s\<lparr>ho_failed := True, ho_reason := reject_reason x\<rparr>)) (\<lambda>_. reject_client x)"

fun failed_with :: "holding \<Rightarrow> exn \<Rightarrow> rejection" where
  "failed_with s Timeout_Error =
     (if ho_expired s then SessionAdmissionTimeout else if ho_accepted s then ProviderTimeout else ProviderAcquisitionTimeout)"
| "failed_with s (Rejected x) = x"
| "failed_with s e = (if ho_accepted s then ProviderConnectionLost else ProviderUnavailable)"

definition connection_failed :: "exn \<Rightarrow> unit task" where
  "connection_failed e = and_then get_state (\<lambda>s.
     if \<not> is_exception e then throw e
     else if e = Client_Gone then and_then client_gone (\<lambda>_. give ())
     else fail_with (failed_with s e))"

definition end_reason :: "holding \<Rightarrow> string" where
  "end_reason s = (if ho_failed s \<or> ho_gone s then ho_reason s else ''client_disconnected'')"

definition close_connection :: "unit task" where
  "close_connection = and_then close_provider (\<lambda>_.
     and_then (release_attempt (\<lambda>s. (ho_failed s, ho_reason s))) (\<lambda>_.
     and_then get_state (\<lambda>s.
     and_then (case ho_slot s of
         Some l \<Rightarrow> if ho_observed s then bounded (call (Flush_Summary (le_attempt l)) as_unit) else give ()
       | None \<Rightarrow> give ()) (\<lambda>_.
     and_then (if ho_admitted s then bounded (release_session_lease (ho_failed s) (end_reason s)) else give ()) (\<lambda>_.
       if ho_observed s then bounded (call Flush_Summaries as_unit) else give ())))))"

definition connect :: "connection_settings \<Rightarrow> unit task" where
  "connect cs = finally_do (catching (connection_body cs) connection_failed) (\<lambda>_. close_connection)"

end
