(* ===== verification/Gateway_Connection_Proofs.thy ===== *)
theory Gateway_Connection_Proofs
  imports Gateway_Connection Lease_Proofs
begin

text \<open>
  A connection gives back what it took, for all answers of the outside, and fails the session for the reason it tells
  the client.
\<close>

section \<open>What most actions leave alone\<close>

text \<open>What the client was told, how the connection ended so far, and whether it has a session.\<close>

type_synonym verdict_so_far = "rejection option \<Rightarrow> bool \<Rightarrow> string \<Rightarrow> bool \<Rightarrow> bool"

definition side :: "verdict_so_far \<Rightarrow> ledger \<Rightarrow> holding \<Rightarrow> bool" where
  "side k l s \<longleftrightarrow> k (lg_told l) (ho_failed s) (ho_reason s) (ho_admitted s)"

definition kept :: "verdict_so_far \<Rightarrow> 'x task \<Rightarrow> bool" where
  "kept k m \<longleftrightarrow> led.leads (side k) m (\<lambda>r. side k)"

lemma kept_give: "kept k (give x)"
  by (simp add: kept_def led.leads_give)

lemma kept_throw: "kept k (throw e)"
  by (simp add: kept_def led.leads_throw)

lemma kept_call: "(\<And>a l. lg_told (entry q a l) = lg_told l) \<Longrightarrow> kept k (call q read)"
  unfolding kept_def by (rule led.leads_call) (simp add: side_def)

lemma kept_get:
  assumes "\<And>s. kept k (f s)"
  shows "kept k (and_then get_state f)"
  unfolding kept_def
proof (rule led.leads_get)
  show "led.leads (\<lambda>l s'. side k l s' \<and> s' = s) (f s) (\<lambda>r. side k)" for s
    using assms [of s, unfolded kept_def] by (rule led.leads_weaken) simp_all
qed

lemma kept_change:
  "(\<And>s. ho_failed (f s) = ho_failed s) \<Longrightarrow> (\<And>s. ho_reason (f s) = ho_reason s) \<Longrightarrow> (\<And>s. ho_admitted (f s) = ho_admitted s) \<Longrightarrow>
   kept k (change_state f)"
  unfolding kept_def by (rule led.leads_change) (simp add: side_def)

lemma kept_then: "kept k m \<Longrightarrow> (\<And>x. kept k (f x)) \<Longrightarrow> kept k (and_then m f)"
  unfolding kept_def by (rule led.leads_then)

lemma kept_catching: "kept k m \<Longrightarrow> (\<And>e. kept k (h e)) \<Longrightarrow> kept k (catching m h)"
  unfolding kept_def by (rule led.leads_catching)

lemma kept_finally: "kept k m \<Longrightarrow> (\<And>r. kept k (c r)) \<Longrightarrow> kept k (finally_do m c)"
  unfolding kept_def by (rule led.leads_finally)

lemma kept_within: "kept k m \<Longrightarrow> kept k (within_time c m)"
  unfolding within_time_def by (intro kept_catching kept_throw)

lemma kept_swallowing: "kept k m \<Longrightarrow> kept k (swallowing m)"
  unfolding swallowing_def by (rule kept_catching) (auto intro: kept_give kept_throw)

lemma kept_if: "(b \<Longrightarrow> kept k m) \<Longrightarrow> (\<not> b \<Longrightarrow> kept k n) \<Longrightarrow> kept k (if b then m else n)"
  by simp

lemma kept_option: "kept k m \<Longrightarrow> (\<And>x. kept k (f x)) \<Longrightarrow> kept k (case z of None \<Rightarrow> m | Some x \<Rightarrow> f x)"
  by (cases z) auto

lemma kept_sum: "(\<And>x. kept k (f x)) \<Longrightarrow> (\<And>x. kept k (g x)) \<Longrightarrow> kept k (case z of Inl x \<Rightarrow> f x | Inr x \<Rightarrow> g x)"
  by (cases z) auto

lemmas kept_rules = kept_give kept_throw kept_get kept_then kept_catching kept_finally kept_within kept_swallowing kept_if
  kept_option kept_sum

lemma kept_bounded: "kept k m \<Longrightarrow> kept k (bounded m)"
  unfolding bounded_def by (intro kept_rules)

lemma kept_retry:
  assumes "\<And>a l. lg_told (entry q a l) = lg_told l"
  shows "kept k (retry_transient q read)"
proof -
  have "kept k (retry_runs n q (call q read))" for n
    by (induction n) (auto intro!: kept_rules kept_call assms)
  then show ?thesis by (simp add: retry_transient_def)
qed

lemma kept_uuid: "kept k (new_uuid u)"
  unfolding new_uuid_def by (intro kept_rules kept_change) simp_all

lemma kept_acquire: "kept k (acquire_attempt u n p old)"
proof -
  have "kept k (poll n i p)" for n i p
    by (induction n) (auto intro!: kept_rules kept_retry kept_call)
  then have "kept k (place n i p old)" for n i p
    unfolding place_def by (intro kept_then kept_retry) (auto intro!: kept_rules split: admission_status.split)
  moreover have "kept k (fail_attempt i why)" for i why
    unfolding fail_attempt_def by (intro kept_rules kept_call) simp
  ultimately show ?thesis unfolding acquire_attempt_def
    by (intro kept_then kept_uuid kept_catching kept_give) (auto intro!: kept_rules split: exn.split)
qed

lemma kept_activate: "kept k (activate_lease keep_slot x)"
  unfolding activate_lease_def keep_slot_def by (intro kept_rules kept_call kept_change) simp_all

lemma kept_release: "kept k (release_lease keep_slot x f why)"
  unfolding release_lease_def keep_slot_def by (intro kept_rules kept_retry kept_call kept_change) simp_all

lemma kept_session: "kept k (release_session_lease f why)"
  unfolding release_session_lease_def by (intro kept_rules kept_call kept_change) simp_all

lemma kept_prepare: "kept k (prepare cs)"
proof -
  have clean: "kept k (cleanup_preparation why)" for why
    unfolding cleanup_preparation_def close_provider_def release_attempt_def
    by (intro kept_rules kept_bounded kept_call kept_release kept_change) simp_all
  have "kept k (acquire_provider i)" for i
    unfolding acquire_provider_def by (intro kept_rules kept_call kept_change) simp_all
  then have "kept k (prepare_browser cs)"
    unfolding prepare_browser_def keep_slot_def by (intro kept_rules kept_acquire kept_change) simp_all
  then show ?thesis unfolding prepare_def using clean by (intro kept_rules)
qed

lemma kept_open: "kept k open_connection"
  unfolding open_connection_def open_lease_def by (intro kept_rules kept_call kept_activate kept_change) simp_all

lemma kept_close: "kept k close_connection"
  unfolding close_connection_def close_provider_def release_attempt_def
  by (intro kept_rules kept_bounded kept_call kept_release kept_session) simp_all

lemma every_conj: "led.every Q l m \<Longrightarrow> led.every Q' l m \<Longrightarrow> led.every (\<lambda>l x. Q l x \<and> Q' l x) l m"
  by (induction m arbitrary: l) auto

lemma leads_conj:
  assumes "led.leads P m Q" "led.leads P' m Q'"
  shows "led.leads (\<lambda>l s. P l s \<and> P' l s) m (\<lambda>r l s. Q r l s \<and> Q' r l s)"
  unfolding led.leads_def
proof (intro allI impI)
  fix l s assume "P l s \<and> P' l s"
  then have "led.every (\<lambda>l (r, s). Q r l s) l (m s)" "led.every (\<lambda>l (r, s). Q' r l s) l (m s)"
    using assms by (auto simp: led.leads_def)
  from every_conj [OF this] show "led.every (\<lambda>l (r, s). Q r l s \<and> Q' r l s) l (m s)"
    by (rule led.every_mono) auto
qed

lemma leads_kept: "led.leads P m Q \<Longrightarrow> kept k m \<Longrightarrow> led.leads (\<lambda>l s. P l s \<and> side k l s) m (\<lambda>r l s. Q r l s \<and> side k l s)"
  unfolding kept_def by (rule leads_conj)

section \<open>The attempt and the browser\<close>

text \<open>The ledger of a connection with a session; \<open>pr\<close>: a browser connection is about to be remembered.\<close>

definition hand :: "bool \<Rightarrow> ledger \<Rightarrow> holding \<Rightarrow> bool" where
  "hand pr l s \<longleftrightarrow> ho_cloud s = None \<and> ho_pacing s = None \<and> \<not> ho_session_released s
     \<and> lg_session l \<and> lg_releases l = [] \<and> lg_attempts l \<subseteq> owed (ho_slot s) \<and> lg_pacing l = {} \<and> \<not> lg_early l
     \<and> (lg_provider l \<longrightarrow> pr \<or> ho_provider s)"

lemma books_hand: "books {} a None None l s \<Longrightarrow> hand False l s"
  by (simp add: books_def hand_def)

lemma hand_books: "hand False l s \<Longrightarrow> \<not> lg_provider l \<Longrightarrow> \<not> ho_provider s \<Longrightarrow> books {} (ho_slot s) None None l s"
  by (simp add: books_def hand_def)

lemma provider_leads: "led.leads (books {} a None None) (acquire_provider i) (\<lambda>r. hand False)"
proof -
  let ?bind = "\<lambda>_ :: unit. call (Bind_Provider i) as_unit"
  have opened: "led.leads (books {} a None None) (call Open_Provider as_unit) (\<lambda>r l s. case r of Inl e \<Rightarrow> hand False l s | Inr u \<Rightarrow> hand True l s)"
  proof (rule led.leads_call)
    fix l s ans assume "books {} a None None l s"
    then show "case as_unit ans of Inl e \<Rightarrow> hand False (entry Open_Provider ans l) s | Inr u \<Rightarrow> hand True (entry Open_Provider ans l) s"
      by (cases ans) (auto simp: books_def hand_def)
  qed
  have "led.leads (hand True) (change_state (\<lambda>s. s\<lparr>ho_provider := True\<rparr>)) (\<lambda>r. hand False)"
    by (rule led.leads_change) (simp add: hand_def)
  then have bound: "led.leads (hand True) (and_then (change_state (\<lambda>s. s\<lparr>ho_provider := True\<rparr>)) ?bind) (\<lambda>r. hand False)"
    by (rule led.leads_then) (auto intro: leads_read)
  have "led.leads (books {} a None None) (and_then (call Open_Provider as_unit)
      (\<lambda>_. and_then (change_state (\<lambda>s. s\<lparr>ho_provider := True\<rparr>)) ?bind)) (\<lambda>r. hand False)"
    by (rule led.leads_then [OF opened]) (use bound in auto)
  then show ?thesis unfolding acquire_provider_def
    by (intro led.leads_catching [where R = "\<lambda>r. hand False"] led.leads_within led.leads_throw) auto
qed

lemma prepare_browser_leads: "led.leads (books {} None None None) (prepare_browser cs) (\<lambda>r. hand False)"
proof -
  have "led.leads (books {} None None None) (and_then (acquire_attempt (cs_uuid cs) (cs_polls cs) (cs_provider cs) None) (\<lambda>l.
        and_then (change_state (keep_slot l)) (\<lambda>_. acquire_provider (le_attempt l)))) (\<lambda>r. hand False)"
  proof (rule led.leads_then [OF acquire_books])
    fix x
    have "led.leads (\<lambda>l s. \<not> le_released x \<and> books {le_attempt x} None None None l s) (change_state (keep_slot x)) (\<lambda>r. books {} (Some x) None None)"
      by (rule led.leads_change) (auto simp: books_def owed_def keep_slot_def)
    then have "led.leads (\<lambda>l s. \<not> le_released x \<and> books {le_attempt x} None None None l s)
        (and_then (change_state (keep_slot x)) (\<lambda>_. acquire_provider (le_attempt x))) (\<lambda>r. hand False)"
      by (rule led.leads_then) (auto intro: provider_leads books_hand)
    then show "led.leads (\<lambda>l s. case Inr x of Inl e \<Rightarrow> books {} None None None l s | Inr x \<Rightarrow> \<not> le_released x \<and> books {le_attempt x} None None None l s)
        (and_then (change_state (keep_slot x)) (\<lambda>_. acquire_provider (le_attempt x))) (\<lambda>r. hand False)" by simp
  qed (auto intro: books_hand)
  then show ?thesis unfolding prepare_browser_def by (rule led.leads_within)
qed

definition unplugged :: "ledger \<Rightarrow> holding \<Rightarrow> bool" where
  "unplugged l s \<longleftrightarrow> hand False l s \<and> \<not> lg_provider l"

lemma unplug_leads: "led.leads (hand False) close_provider (\<lambda>r l s. r = Inr () \<and> unplugged l s)"
  unfolding close_provider_def
proof (rule led.leads_get)
  fix s
  have "led.leads (\<lambda>l s'. hand False l s' \<and> s' = s) (bounded (call Close_Provider as_unit)) (\<lambda>r l s. r = Inr () \<and> unplugged l s)"
    by (rule leads_bounded [where R = "\<lambda>r l s. unplugged l s \<and> (case r of Inl e \<Rightarrow> own_timeout e | Inr u \<Rightarrow> True)"], rule led.leads_call)
      (auto simp: unplugged_def hand_def intro: as_unit_own split: sum.split)
  then show "led.leads (\<lambda>l s'. hand False l s' \<and> s' = s) (if ho_provider s then bounded (call Close_Provider as_unit) else give ())
      (\<lambda>r l s. r = Inr () \<and> unplugged l s)"
    by (auto intro!: done_leads simp: unplugged_def hand_def)
qed

definition cleared :: "ledger \<Rightarrow> holding \<Rightarrow> bool" where
  "cleared l s \<longleftrightarrow> unplugged l s \<and> lg_attempts l = {}"

lemma end_leads:
  assumes "\<And>l s. P l s \<Longrightarrow> unplugged l s"
  shows "led.leads P (release_attempt f) (\<lambda>r l s. r = Inr () \<and> cleared l s)"
  unfolding release_attempt_def
proof (rule led.leads_get)
  fix s :: holding
  let ?P = "\<lambda>l s'. P l s' \<and> s' = s"
  show "led.leads ?P (case ho_slot s of None \<Rightarrow> give () | Some l \<Rightarrow> and_then (bounded (call (Provider_Usage (le_attempt l)) as_unit))
      (\<lambda>_. bounded (release_lease keep_slot l (fst (f s)) (snd (f s))))) (\<lambda>r l s. r = Inr () \<and> cleared l s)"
  proof (cases "ho_slot s")
    case None
    then show ?thesis by (auto intro!: done_leads dest!: assms simp: cleared_def unplugged_def hand_def)
  next
    case (Some x)
    let ?U = "\<lambda>l s'. unplugged l s' \<and> ho_slot s' = Some x"
    have used: "led.leads ?U (bounded (call (Provider_Usage (le_attempt x)) as_unit)) (\<lambda>r l s. r = Inr () \<and> ?U l s)"
      by (rule leads_bounded [where R = "\<lambda>r l s. ?U l s \<and> (case r of Inl e \<Rightarrow> own_timeout e | Inr u \<Rightarrow> True)"], rule led.leads_call)
        (auto intro: as_unit_own split: sum.split)
    have "led.leads ?U (bounded (release_lease keep_slot x (fst (f s)) (snd (f s)))) (\<lambda>r l s. r = Inr () \<and> cleared l s)"
      by (rule release_leads) (auto simp: cleared_def unplugged_def hand_def keep_slot_def dest: owed_in)
    then have "led.leads ?U (and_then (bounded (call (Provider_Usage (le_attempt x)) as_unit))
        (\<lambda>_. bounded (release_lease keep_slot x (fst (f s)) (snd (f s))))) (\<lambda>r l s. r = Inr () \<and> cleared l s)"
      by (intro led.leads_then [OF used]) (auto elim: led.leads_weaken)
    then show ?thesis using Some assms by (auto elim!: led.leads_weaken)
  qed
qed

lemma cleanup_leads: "led.leads (hand False) (cleanup_preparation why) (\<lambda>r l s. r = Inr () \<and> hand False l s)"
  unfolding cleanup_preparation_def
proof (rule led.leads_finally)
  show "led.leads (hand False) (and_then close_provider (\<lambda>_. release_attempt (\<lambda>_. (True, why)))) (\<lambda>r l s. r = Inr () \<and> cleared l s)"
    by (rule led.leads_then [OF unplug_leads], rule end_leads) auto
  show "led.leads (\<lambda>l s. r = Inr () \<and> cleared l s) (change_state (\<lambda>s. s\<lparr>ho_provider := False, ho_slot := None\<rparr>))
      (\<lambda>r' l s. r = Inr () \<and> r' = Inr () \<and> hand False l s)" for r :: "exn + unit"
    by (rule led.leads_change) (auto simp: cleared_def unplugged_def hand_def)
qed auto

lemma prepare_leads: "led.leads (books {} None None None) (prepare cs) (\<lambda>r. hand False)"
  unfolding prepare_def
proof (rule led.leads_catching [OF prepare_browser_leads])
  fix e
  have "led.leads (hand False) (and_then (cleanup_preparation why) (\<lambda>_. throw e') :: unit task) (\<lambda>r. hand False)" for why e'
    by (rule led.leads_then [OF cleanup_leads]) (auto intro: led.leads_throw)
  then show "led.leads (hand False) (if e = Timeout_Error
     then and_then (cleanup_preparation ''provider_acquisition_timeout'') (\<lambda>_. throw (Rejected ProviderAcquisitionTimeout))
     else and_then (cleanup_preparation (preparation_reason e)) (\<lambda>_. throw e) :: unit task) (\<lambda>r. hand False)" by simp
qed

section \<open>The connection\<close>

text \<open>Without a session nothing is held; with one, what is held is remembered.\<close>

definition blank :: "ledger \<Rightarrow> holding \<Rightarrow> bool" where
  "blank l s \<longleftrightarrow> ho_slot s = None \<and> ho_cloud s = None \<and> ho_pacing s = None \<and> \<not> ho_session_released s \<and> \<not> ho_provider s
     \<and> settled [] l"

definition conn :: "ledger \<Rightarrow> holding \<Rightarrow> bool" where
  "conn l s \<longleftrightarrow> (if ho_admitted s then hand False l s else blank l s)"

lemma conn_updates [simp]:
  "conn l (s\<lparr>ho_expired := b\<rparr>) \<longleftrightarrow> conn l s" "conn l (s\<lparr>ho_observed := b\<rparr>) \<longleftrightarrow> conn l s"
  "conn l (s\<lparr>ho_failed := b, ho_reason := why\<rparr>) \<longleftrightarrow> conn l s" "conn (l\<lparr>lg_told := t\<rparr>) s \<longleftrightarrow> conn l s"
  by (simp_all add: conn_def hand_def blank_def settled_def)

text \<open>While the client was told nothing.\<close>

definition untold :: "bool \<Rightarrow> verdict_so_far" where
  "untold b t f why adm \<longleftrightarrow> t = None \<and> \<not> f \<and> why = ''client_disconnected'' \<and> adm = b"

lemma side_untold:
  "side (untold b) l s \<longleftrightarrow> lg_told l = None \<and> \<not> ho_failed s \<and> ho_reason s = ''client_disconnected'' \<and> ho_admitted s = b"
  by (simp add: side_def untold_def)

definition going :: "ledger \<Rightarrow> holding \<Rightarrow> bool" where
  "going l s \<longleftrightarrow> hand False l s \<and> side (untold True) l s"

definition calm :: "ledger \<Rightarrow> holding \<Rightarrow> bool" where
  "calm l s \<longleftrightarrow> conn l s \<and> side (untold (ho_admitted s)) l s"

lemma going_calm: "going l s \<Longrightarrow> calm l s"
  by (simp add: going_def calm_def conn_def side_untold)

lemma calm_going: "calm l s \<Longrightarrow> ho_admitted s \<Longrightarrow> going l s"
  by (simp add: going_def calm_def conn_def)

lemma gone_leads: "led.leads calm client_gone (\<lambda>r l s. calm l s \<and> r = Inr False)"
  by (simp add: led.leads_def client_gone_def and_then_def change_state_def give_def calm_def conn_def hand_def blank_def side_untold)

definition onward :: "exn + bool \<Rightarrow> ledger \<Rightarrow> holding \<Rightarrow> bool" where
  "onward r l s \<longleftrightarrow> calm l s \<and> (r = Inr True \<longrightarrow> ho_admitted s)"

lemma gone_onward: "(\<And>l s. P l s \<Longrightarrow> calm l s) \<Longrightarrow> led.leads P client_gone onward"
  by (rule led.leads_weaken [OF gone_leads]) (auto simp: onward_def)

text \<open>After the admission the session is there and nothing else is.\<close>

definition entered :: "ledger \<Rightarrow> holding \<Rightarrow> bool" where
  "entered l s \<longleftrightarrow> books {} None None None l s \<and> side (untold True) l s"

lemma entered_going: "entered l s \<Longrightarrow> going l s"
  by (auto simp: entered_def going_def intro: books_hand)

lemma entered_calm: "entered l s \<Longrightarrow> calm l s"
  by (simp add: going_calm entered_going)

definition admission_end :: "exn + bool \<Rightarrow> ledger \<Rightarrow> holding \<Rightarrow> bool" where
  "admission_end r l s \<longleftrightarrow> calm l s \<and> (r = Inr True \<longrightarrow> entered l s)"

lemma race_leads:
  "led.leads (\<lambda>l s. \<exists>l0. blank l0 s \<and> side (untold False) l0 s \<and> l = entry (Admit i) a l0) (after_race a) admission_end"
proof -
  let ?P = "\<lambda>l s. \<exists>l0. blank l0 s \<and> side (untold False) l0 s \<and> l = entry (Admit i) a l0"
  have got: "led.leads ?P has_session (\<lambda>r l s. entered l s)" if "obtained a"
    unfolding has_session_def by (rule led.leads_change)
      (use that in \<open>auto simp: entered_def books_def blank_def settled_def side_untold\<close>)
  have not: "calm l s" if "\<not> obtained a" "?P l s" for l s
    using that by (auto simp: calm_def conn_def blank_def side_untold)
  have on: "led.leads (\<lambda>l s. calm l s) (if c = Disconnect then client_gone else throw (Cancelled c)) admission_end" for c
    by (auto intro!: led.leads_throw led.leads_weaken [OF gone_leads] simp: admission_end_def)
  show ?thesis
  proof (cases "obtained a")
    case True
    have "led.leads ?P (and_then has_session (\<lambda>_. give True)) admission_end"
      by (rule led.leads_then [OF got [OF True]])
        (auto intro!: led.leads_give simp: admission_end_def entered_calm)
    moreover have "led.leads ?P (and_then has_session (\<lambda>_. if c = Disconnect then client_gone else throw (Cancelled c))) admission_end" for c
      by (rule led.leads_then [OF got [OF True]], rule led.leads_weaken [OF on])
        (auto simp: admission_end_def entered_calm)
    ultimately show ?thesis using True
      by (cases a) (auto simp: after_race_def obtained_def split: session_admission_status.splits sum.split)
  next
    case False
    have stop: "led.leads ?P (throw e) admission_end" for e
      unfolding admission_end_def using not [OF False] by (intro led.leads_throw) blast
    have "led.leads ?P (and_then (give ()) (\<lambda>_. if c = Disconnect then client_gone else throw (Cancelled c))) admission_end" for c
      by (rule led.leads_then [where R = "\<lambda>r. calm"], rule led.leads_give, rule not [OF False], assumption, rule on)
        (simp add: admission_end_def)
    with stop show ?thesis using False
      by (cases a) (auto simp: after_race_def obtained_def split: session_admission_status.splits sum.split)
  qed
qed

lemma admit_client_leads:
  "led.leads (\<lambda>l s. blank l s \<and> side (untold False) l s) (admit_client cs) admission_end"
proof -
  let ?P = "\<lambda>l s. blank l s \<and> side (untold False) l s"
  have calm: "calm l s" if "?P l s" for l s using that by (simp add: calm_def conn_def side_untold)
  have uuid: "led.leads ?P (new_uuid u) (\<lambda>r l s. (\<exists>i. r = Inr i) \<and> ?P l s)" for u
    by (simp add: led.leads_def new_uuid_def and_then_def get_state_def change_state_def give_def blank_def side_untold)
  have name: "led.leads ?P (change_state (\<lambda>s. s\<lparr>ho_session := i\<rparr>)) (\<lambda>r. ?P)" for i
    by (rule led.leads_change) (simp add: blank_def side_untold)
  have ask: "led.leads ?P (and_then (call (Admit i) Inr) after_race) admission_end" for i
    by (rule led.leads_then [OF leads_ask], rule led.leads_weaken [OF race_leads [of i]]) auto
  have "led.leads ?P (and_then (change_state (\<lambda>s. s\<lparr>ho_session := i\<rparr>)) (\<lambda>_. and_then (call (Admit i) Inr) after_race)) admission_end" for i
    by (rule led.leads_then [OF name ask]) (use calm in \<open>auto simp: admission_end_def\<close>)
  then show ?thesis unfolding admit_client_def by (auto intro!: led.leads_then [OF uuid])
qed

lemma task_leads: "led.leads P m (\<lambda>r. Q) \<Longrightarrow> led.leads P (as_task m) (\<lambda>r. Q)"
  unfolding as_task_def
  by (rule led.leads_catching [where R = "\<lambda>r. Q"], erule led.leads_then) (auto intro: led.leads_give)

lemma prepare_client_leads: "led.leads entered (prepare_client cs) onward"
proof -
  have "led.leads entered (prepare cs) (\<lambda>r. going)"
    using leads_kept [OF prepare_leads kept_prepare [where k = "untold True"]] unfolding entered_def [abs_def] going_def [abs_def] .
  then have task: "led.leads entered (as_task (prepare cs)) (\<lambda>r. going)" by (rule task_leads)
  have watched: "led.leads going (call Watch_Preparation Inr) (\<lambda>r. going)"
    by (rule leads_read) (auto simp: going_def hand_def side_untold)
  have stop: "led.leads going (throw e) onward" for e
    by (rule led.leads_throw) (simp add: onward_def going_calm)
  have on: "led.leads going (give True) onward"
    by (rule led.leads_give) (auto simp: onward_def going_calm, simp add: going_def side_untold)
  have left: "led.leads going client_gone onward" by (rule gone_onward) (rule going_calm)
  have "led.leads going (case a of Interrupted c x \<Rightarrow> if c = Disconnect then client_gone
         else if c = Lease_Watch then throw (Rejected SessionLeaseLost) else throw (Cancelled c)
     | _ \<Rightarrow> (case r of Inl e \<Rightarrow> throw e | Inr u \<Rightarrow> give True)) onward" for a and r :: "exn + unit"
    using stop on left by (cases a; cases r) auto
  then show ?thesis unfolding prepare_client_def
    by (intro led.leads_then [OF task] led.leads_then [OF watched]) (auto simp: onward_def going_calm)
qed

lemma open_leads: "led.leads going open_connection onward"
proof -
  have sess: "led.leads (hand False) open_lease (\<lambda>r. hand False)" unfolding open_lease_def
    by (rule led.leads_get, rule led.leads_then [where R = "\<lambda>r. hand False"], rule led.leads_call)
      (auto simp: hand_def intro!: led.leads_give led.leads_throw)
  have attempt: "led.leads (\<lambda>l s'. hand False l s' \<and> s' = s) (case ho_slot s of Some x \<Rightarrow> activate_lease keep_slot x | None \<Rightarrow> throw Uncaught)
      (\<lambda>r. hand False)" for s :: holding
    by (cases "ho_slot s") (auto intro!: led.leads_throw activate_leads simp: hand_def keep_slot_def)
  have accept: "led.leads (hand False) (and_then (call Accept_Client as_unit)
      (\<lambda>_. and_then (change_state (\<lambda>s. s\<lparr>ho_accepted := True\<rparr>)) (\<lambda>_. give True))) (\<lambda>r. hand False)"
    by (rule led.leads_then [where R = "\<lambda>r. hand False"], rule led.leads_call, simp add: hand_def,
        rule led.leads_then [where R = "\<lambda>r. hand False"], rule led.leads_change)
      (auto simp: hand_def intro: led.leads_give)
  have "led.leads (hand False) open_connection (\<lambda>r. hand False)" unfolding open_connection_def
    by (rule led.leads_then [OF sess], rule led.leads_get, rule led.leads_then [OF attempt accept])
  then have "led.leads going open_connection (\<lambda>r. going)"
    using leads_kept [OF _ kept_open, of "hand False" "\<lambda>r. hand False" "untold True"] by (simp add: going_def [abs_def])
  then show ?thesis by (rule led.leads_weaken) (auto simp: onward_def going_calm, simp add: going_def side_untold)
qed

lemma going_leads:
  assumes "led.leads P m R" "\<And>l s. R (Inr True) l s \<Longrightarrow> Q l s" "\<And>r l s. R r l s \<Longrightarrow> calm l s" "led.leads Q k onward"
  shows "led.leads P (if_going m k) onward"
  unfolding if_going_def
proof (rule led.leads_then [OF assms(1)])
  show "led.leads (R (Inr on)) (if on then k else give False) onward" for on
    using assms(2,3) by (cases on) (auto intro!: led.leads_give led.leads_weaken [OF assms(4)] simp: onward_def)
  show "R (Inl e) l s \<Longrightarrow> onward (Inl e) l s" for e l s using assms(3) by (simp add: onward_def)
qed

lemma set_up_connection_leads: "led.leads (\<lambda>l s. blank l s \<and> side (untold False) l s) (set_up_connection cs) onward"
proof -
  let ?P = "\<lambda>l s. blank l s \<and> side (untold False) l s"
  have calm: "calm l s" if "?P l s" for l s using that by (simp add: calm_def conn_def side_untold)
  have prep: "led.leads entered (if_going (prepare_client cs) open_connection) onward"
    by (rule going_leads [OF prepare_client_leads _ _ open_leads]) (auto simp: onward_def calm_going)
  have admit: "led.leads ?P (if_going (admit_client cs) (if_going (prepare_client cs) open_connection)) onward"
    by (rule going_leads [OF admit_client_leads _ _ prep]) (auto simp: admission_end_def)
  have first: "led.leads ?P (call Receive_First as_bool) (\<lambda>r. ?P)" "led.leads ?P (if cs_policy cs then call Get_Policy as_unit else give ()) (\<lambda>r. ?P)"
    by (auto intro!: leads_read led.leads_give)
  show ?thesis unfolding set_up_connection_def
    by (rule led.leads_then [OF first(2)], rule going_leads [OF first(1) _ _ admit]) (use calm in \<open>auto simp: onward_def\<close>)
qed

lemma calm_change:
  "(\<And>l s. calm l s \<Longrightarrow> calm l (f s)) \<Longrightarrow> led.leads calm (change_state f) (\<lambda>r. calm)"
  by (rule led.leads_change)

lemma connection_body_leads: "led.leads (\<lambda>l s. blank l s \<and> side (untold False) l s) (connection_body cs) (\<lambda>r. calm)"
proof -
  let ?P = "\<lambda>l s. blank l s \<and> side (untold False) l s"
  have calm: "calm l s" if "?P l s" for l s using that by (simp add: calm_def conn_def side_untold)
  have mark: "led.leads calm (change_state (\<lambda>s. s\<lparr>ho_expired := True\<rparr>)) (\<lambda>r. calm)"
    "led.leads calm (change_state (\<lambda>s. s\<lparr>ho_observed := True\<rparr>)) (\<lambda>r. calm)"
    by (rule calm_change, simp add: calm_def side_untold)+
  have late: "led.leads calm (and_then (change_state (\<lambda>s. s\<lparr>ho_expired := True\<rparr>)) (\<lambda>_. throw Timeout_Error) :: bool task) (\<lambda>r. calm)"
    by (rule led.leads_then [OF mark(1)]) (auto intro: led.leads_throw)
  have budget: "led.leads ?P (within_budget (set_up_connection cs)) (\<lambda>r. calm)"
    unfolding within_budget_def
    by (rule led.leads_catching [where R = "\<lambda>r. calm"], rule led.leads_weaken [OF set_up_connection_leads])
      (use late in \<open>auto simp: onward_def intro: led.leads_throw\<close>)
  have relay: "led.leads calm relay_until_end (\<lambda>r. calm)" unfolding relay_until_end_def
  proof (rule led.leads_then [where R = "\<lambda>r. calm"])
    show "led.leads calm (call Relay Inr) (\<lambda>r. calm)" by (rule leads_read) simp
    show "led.leads calm (case a of Fine \<Rightarrow> give () | Interrupted c x \<Rightarrow> throw (if c = Lease_Watch then Rejected SessionLeaseLost else Cancelled c)
        | _ \<Rightarrow> throw (raised_by a)) (\<lambda>r. calm)" for a
      by (cases a) (auto intro: led.leads_give led.leads_throw)
  qed
  have go: "led.leads calm (if \<not> on then give () else and_then (change_state (\<lambda>s. s\<lparr>ho_observed := True\<rparr>)) (\<lambda>_. relay_until_end)) (\<lambda>r. calm)" for on
    by (auto intro: led.leads_give intro!: led.leads_then [OF mark(2) relay])
  have "led.leads ?P (call Resolve_Settings as_unit) (\<lambda>r. ?P)" by (rule leads_read) simp
  then show ?thesis unfolding connection_body_def
    by (rule led.leads_then) (use calm in \<open>auto intro!: led.leads_then [OF budget] go\<close>)
qed

text \<open>How a connection ends: failed for the reason the client was told, or not at all.\<close>

definition told_rightly :: "rejection option \<Rightarrow> bool \<Rightarrow> string \<Rightarrow> bool" where
  "told_rightly t f why \<longleftrightarrow>
     (case t of None \<Rightarrow> \<not> f \<and> why = ''client_disconnected'' | Some x \<Rightarrow> f \<and> why = reject_reason x)"

definition ended :: "ledger \<Rightarrow> holding \<Rightarrow> bool" where
  "ended l s \<longleftrightarrow> conn l s \<and> told_rightly (lg_told l) (ho_failed s) (ho_reason s)"

lemma calm_ended: "calm l s \<Longrightarrow> ended l s"
  by (simp add: calm_def ended_def side_untold told_rightly_def)

lemma fail_leads: "led.leads calm (fail_with x) (\<lambda>r. ended)"
proof -
  let ?M = "\<lambda>l s. conn l s \<and> ho_failed s \<and> ho_reason s = reject_reason x"
  have "led.leads ?M (call (Reject_Client x) as_unit) (\<lambda>r. ended)"
    by (rule led.leads_call) (simp add: ended_def told_rightly_def)
  then have "led.leads ?M (reject_client x) (\<lambda>r. ended)" unfolding reject_client_def
    by (rule led.leads_catching) (auto intro: led.leads_give led.leads_throw)
  moreover have "led.leads calm (change_state (\<lambda>s. s\<lparr>ho_failed := True, ho_reason := reject_reason x\<rparr>)) (\<lambda>r l s. (\<exists>u. r = Inr u) \<and> ?M l s)"
    by (rule led.leads_change) (simp add: calm_def)
  ultimately show ?thesis unfolding fail_with_def
    by (intro led.leads_then [where R = "\<lambda>r l s. (\<exists>u. r = Inr u) \<and> ?M l s"]) auto
qed

lemma failed_leads: "led.leads calm (connection_failed e) (\<lambda>r. ended)"
  unfolding connection_failed_def
proof (rule led.leads_get)
  fix s
  have "led.leads calm (and_then client_gone (\<lambda>_. give ())) (\<lambda>r. ended)"
    by (rule led.leads_then [OF gone_leads]) (auto intro: led.leads_give calm_ended)
  then show "led.leads (\<lambda>l s'. calm l s' \<and> s' = s) (if \<not> is_exception e then throw e
     else if e = Client_Gone then and_then client_gone (\<lambda>_. give ()) else fail_with (failed_with s e)) (\<lambda>r. ended)"
    by (auto intro: led.leads_throw calm_ended led.leads_weaken [OF fail_leads] led.leads_weaken)
qed

definition known_end :: "bool \<Rightarrow> string \<Rightarrow> bool \<Rightarrow> verdict_so_far" where
  "known_end f why b t f' why' b' \<longleftrightarrow> told_rightly t f' why' \<and> f' = f \<and> why' = why \<and> b' = b"

lemma blank_close: "led.leads (\<lambda>l s. blank l s \<and> \<not> ho_admitted s) close_connection (\<lambda>r l s. settled [] l)"
proof -
  let ?P = "\<lambda>l s. blank l s \<and> \<not> ho_admitted s"
  have provider: "led.leads ?P close_provider (\<lambda>r. ?P)" unfolding close_provider_def
  proof (rule led.leads_get)
    show "led.leads (\<lambda>l s'. ?P l s' \<and> s' = s) (if ho_provider s then bounded (call Close_Provider as_unit) else give ()) (\<lambda>r. ?P)" for s
      by (cases "ho_provider s") (auto intro: leads_never led.leads_give simp: blank_def)
  qed
  have attempt: "led.leads ?P (release_attempt f) (\<lambda>r. ?P)" for f unfolding release_attempt_def
  proof (rule led.leads_get)
    show "led.leads (\<lambda>l s'. ?P l s' \<and> s' = s) (case ho_slot s of None \<Rightarrow> give () | Some x \<Rightarrow> and_then (bounded (call (Provider_Usage (le_attempt x)) as_unit))
        (\<lambda>_. bounded (release_lease keep_slot x (fst (f s)) (snd (f s))))) (\<lambda>r. ?P)" for s
      by (cases "ho_slot s") (auto intro: leads_never led.leads_give simp: blank_def)
  qed
  have flush: "led.leads (\<lambda>l s. settled [] l) (bounded (call Flush_Summaries as_unit)) (\<lambda>r l s. settled [] l)"
    by (rule led.leads_weaken [OF leads_quiet]) simp_all
  have rest: "led.leads (\<lambda>l s'. ?P l s' \<and> s' = s)
      (and_then (case ho_slot s of Some l \<Rightarrow> if ho_observed s then bounded (call (Flush_Summary (le_attempt l)) as_unit) else give () | None \<Rightarrow> give ())
        (\<lambda>_. and_then (if ho_admitted s then bounded (release_session_lease (ho_failed s) (end_reason s)) else give ())
          (\<lambda>_. if ho_observed s then bounded (call Flush_Summaries as_unit) else give ()))) (\<lambda>r l s. settled [] l)" for s
  proof (cases "ho_slot s = None \<and> \<not> ho_admitted s")
    case True
    then show ?thesis using flush
      by (auto intro!: led.leads_then [where R = "\<lambda>r l s. settled [] l"] led.leads_give simp: blank_def)
  qed (auto intro: leads_never simp: blank_def)
  show ?thesis unfolding close_connection_def
    by (rule led.leads_then [OF provider], rule led.leads_then [OF attempt], rule led.leads_get, rule rest) (auto simp: blank_def)
qed

lemma full_close:
  "led.leads (\<lambda>l s. hand False l s \<and> side (known_end f why True) l s) close_connection (\<lambda>r l s. settled [(f, why)] l)"
proof -
  let ?k = "known_end f why True"
  have provider: "led.leads (\<lambda>l s. hand False l s \<and> side ?k l s) close_provider (\<lambda>r l s. (r = Inr () \<and> unplugged l s) \<and> side ?k l s)"
    by (rule leads_kept [OF unplug_leads]) (unfold close_provider_def, intro kept_rules kept_bounded kept_call, simp)
  have attempt: "led.leads (\<lambda>l s. unplugged l s \<and> side ?k l s) (release_attempt g) (\<lambda>r l s. (r = Inr () \<and> cleared l s) \<and> side ?k l s)" for g
    by (rule leads_kept [OF end_leads], assumption)
      (unfold release_attempt_def, intro kept_rules kept_bounded kept_call kept_release, simp)
  have sess: "led.leads cleared (bounded (release_session_lease f why)) (\<lambda>r l s. r = Inr () \<and> settled [(f, why)] l)"
    by (rule led.leads_weaken [OF session_leads]) (auto simp: cleared_def unplugged_def hand_def)
  have rest: "led.leads (\<lambda>l s'. (cleared l s' \<and> side ?k l s') \<and> s' = s)
      (and_then (case ho_slot s of Some l \<Rightarrow> if ho_observed s then bounded (call (Flush_Summary (le_attempt l)) as_unit) else give () | None \<Rightarrow> give ())
        (\<lambda>_. and_then (if ho_admitted s then bounded (release_session_lease (ho_failed s) (end_reason s)) else give ())
          (\<lambda>_. if ho_observed s then bounded (call Flush_Summaries as_unit) else give ()))) (\<lambda>r l s. settled [(f, why)] l)" for s
  proof (cases "ho_admitted s \<and> ho_failed s = f \<and> ho_reason s = why \<and> (f \<or> why = ''client_disconnected'')")
    case True
    then have why: "end_reason s = why" by (auto simp: end_reason_def)
    have one: "led.leads (\<lambda>l s'. (cleared l s' \<and> side ?k l s') \<and> s' = s) (case ho_slot s of Some l \<Rightarrow> if ho_observed s then bounded (call (Flush_Summary (le_attempt l)) as_unit) else give () | None \<Rightarrow> give ())
        (\<lambda>r l s. r = Inr () \<and> cleared l s)"
      by (cases "ho_slot s") (auto intro!: led.leads_give led.leads_weaken [OF leads_quiet [where P = cleared]])
    have last: "led.leads (\<lambda>l s'. settled [(f, why)] l) (if ho_observed s then bounded (call Flush_Summaries as_unit) else give ()) (\<lambda>r l s. settled [(f, why)] l)"
      by (auto intro!: led.leads_give led.leads_weaken [OF leads_quiet [where P = "\<lambda>l s. settled [(f, why)] l"]])
    have "led.leads cleared (and_then (bounded (release_session_lease f why))
        (\<lambda>_. if ho_observed s then bounded (call Flush_Summaries as_unit) else give ())) (\<lambda>r l s. settled [(f, why)] l)"
      by (rule led.leads_then [OF sess]) (use last in auto)
    then show ?thesis using True why by (intro led.leads_then [OF one]) auto
  qed (auto intro: leads_never simp: side_def known_end_def told_rightly_def split: option.splits)
  show ?thesis unfolding close_connection_def
    by (rule led.leads_then [OF provider], simp, rule led.leads_then [OF attempt], simp, rule led.leads_get, rule rest) auto
qed

definition released_rightly :: "ledger \<Rightarrow> bool" where
  "released_rightly l \<longleftrightarrow> settled [] l \<or> (\<exists>f why. settled [(f, why)] l \<and> told_rightly (lg_told l) f why)"

lemma close_leads: "led.leads ended close_connection (\<lambda>r l s. released_rightly l)"
  unfolding led.leads_def
proof (intro allI impI)
  fix l s assume e: "ended l s"
  show "led.every (\<lambda>l (r, s). released_rightly l) l (close_connection s)"
  proof (cases "ho_admitted s")
    case True
    let ?k = "known_end (ho_failed s) (ho_reason s) True"
    have "(hand False l s \<and> side ?k l s) \<and> side ?k l s"
      using e True by (simp add: ended_def conn_def side_def known_end_def)
    then have "led.every (\<lambda>l (r, s'). settled [(ho_failed s, ho_reason s)] l \<and> side ?k l s') l (close_connection s)"
      using leads_kept [OF full_close kept_close [where k = ?k]] by (simp add: led.leads_def)
    then show ?thesis
      by (rule led.every_mono) (auto simp: released_rightly_def side_def known_end_def)
  next
    case False
    then have "blank l s \<and> \<not> ho_admitted s" using e by (simp add: ended_def conn_def)
    then have "led.every (\<lambda>l (r, s). settled [] l) l (close_connection s)" using blank_close by (simp add: led.leads_def)
    then show ?thesis by (rule led.every_mono) (auto simp: released_rightly_def)
  qed
qed

lemma connect_leads: "led.leads (\<lambda>l s. blank l s \<and> side (untold False) l s) (connect cs) (\<lambda>r l s. released_rightly l)"
  unfolding connect_def
proof (rule led.leads_finally [where R = "\<lambda>r. ended"])
  show "led.leads (\<lambda>l s. blank l s \<and> side (untold False) l s) (catching (connection_body cs) connection_failed) (\<lambda>r. ended)"
    by (rule led.leads_catching [OF connection_body_leads]) (auto intro: failed_leads calm_ended)
  show "led.leads ended close_connection (\<lambda>r' l s. released_rightly l)" by (rule close_leads)
qed auto

text \<open>C2: However the client, the database, the browser and the clocks behave, with errors, timeouts and
  cancellations at any point, a connection leaves nothing behind as long as its cleanup is cut short only by the cleanup's
  own timeout: the session's heartbeat has stopped, every attempt that may have been granted has been asked to finish, and
  only after the browser behind it was asked to close. The session is released at most once: as failed for the reason
  that the client was told, or as not failed when it was told nothing.\<close>

theorem connection_releases_everything:
  assumes "converse outside 0 (connect cs empty_handed) = (talk, r, s)"
    and "\<forall>(q, a) \<in> set talk. undisturbed q a"
  shows "\<not> lg_session (tally talk) \<and> lg_attempts (tally talk) = {} \<and> \<not> lg_provider (tally talk) \<and> \<not> lg_early (tally talk)
    \<and> (lg_releases (tally talk) = []
       \<or> (\<exists>failed why. lg_releases (tally talk) = [(failed, why)]
            \<and> (case lg_told (tally talk) of
                 None \<Rightarrow> \<not> failed \<and> why = ''client_disconnected''
               | Some x \<Rightarrow> failed \<and> why = reject_reason x)))"
proof -
  let ?l0 = "\<lparr>lg_session = False, lg_attempts = {}, lg_pacing = {}, lg_releases = [], lg_provider = False, lg_early = False, lg_told = None\<rparr>"
  have "blank ?l0 empty_handed \<and> side (untold False) ?l0 empty_handed"
    by (simp add: blank_def settled_def empty_handed_def side_untold)
  then have "led.every (\<lambda>l (r, s). released_rightly l) ?l0 (connect cs empty_handed)"
    using connect_leads by (simp add: led.leads_def)
  from led.every_converse [OF this assms] have "released_rightly (tally talk)" by (simp add: tally_def)
  then show ?thesis by (auto simp: released_rightly_def settled_def told_rightly_def)
qed

text \<open>An attempt that waits in the queue, and a browser whose session runs into its time limit.\<close>

definition sample_connection :: connection_settings where
  "sample_connection = \<lparr>cs_uuid = (\<lambda>n. replicate (Suc n) CHR ''u''), cs_polls = 2, cs_provider = BROWSERLESS, cs_policy = True\<rparr>"

fun sample_peer :: "nat \<Rightarrow> request \<Rightarrow> answer" where
  "sample_peer n q = (case q of
       Receive_First \<Rightarrow> Yes_No True
     | Admit i \<Rightarrow> Admission SA_ADMITTED
     | Enqueue i p old \<Rightarrow> Placed ADM_QUEUED None
     | Claim i \<Rightarrow> if n < 6 then Claimed None else Claimed (Some (Some ''ws://b''))
     | Open_Session i \<Rightarrow> Yes_No True
     | Activate i \<Rightarrow> Yes_No True
     | Relay \<Rightarrow> Raises (Rejected ProviderTimeout)
     | Finish i failed why \<Rightarrow> Yes_No True
     | _ \<Rightarrow> Fine)"

lemma sample_connection_talk:
  "map fst (fst (converse sample_peer 0 (connect sample_connection empty_handed))) =
     [Resolve_Settings, Get_Policy, Receive_First, Admit ''u'', Enqueue ''uu'' BROWSERLESS None, Claim ''uu'', Wait_Capacity BROWSERLESS,
      Claim ''uu'', Open_Provider, Bind_Provider ''uu'', Watch_Preparation, Open_Session ''u'', Activate ''uu'', Accept_Client, Relay,
      Reject_Client ProviderTimeout, Close_Provider, Provider_Usage ''uu'', Finish ''uu'' True ''provider_timeout'', Notify BROWSERLESS,
      Flush_Summary ''uu'', Release_Session ''u'' True ''provider_timeout'', Flush_Summaries]"
  by code_simp

lemma sample_connection_undisturbed:
  "list_all (\<lambda>(q, a). undisturbed q a) (fst (converse sample_peer 0 (connect sample_connection empty_handed)))"
  by code_simp

theorem connection_releases_everything_witness:
  "\<exists>talk r s. converse sample_peer 0 (connect sample_connection empty_handed) = (talk, r, s)
     \<and> Reject_Client ProviderTimeout \<in> fst ` set talk \<and> Claim ''uu'' \<in> fst ` set talk
     \<and> \<not> lg_session (tally talk) \<and> lg_attempts (tally talk) = {} \<and> \<not> lg_provider (tally talk) \<and> \<not> lg_early (tally talk)"
proof -
  let ?c = "converse sample_peer 0 (connect sample_connection empty_handed)"
  obtain talk r s where t: "?c = (talk, r, s)" by (cases ?c)
  have "set (map fst talk) = fst ` set talk" by simp
  moreover have "\<forall>(q, a) \<in> set talk. undisturbed q a" using sample_connection_undisturbed t by (simp add: list_all_iff)
  ultimately show ?thesis using connection_releases_everything [OF t] sample_connection_talk t by auto
qed

end
