(* ===== verification/Session_Settings.thy ===== *)
theory Session_Settings
  imports Contracts Strings
begin

text \<open>
  The settings of a connection (\<^verbatim>\<open>backend/proxy/settings\<close>, \<^verbatim>\<open>backend/proxy/contracts/settings.py\<close>): the registry
  of the query keys, the parsing of a query, and the resolution of every setting with its source. How pydantic reads
  a UUID and an integer from a text is an argument; \<open>None\<close> stands for its \<open>ValidationError\<close>.
\<close>

section \<open>Settings\<close>

datatype setting_value = No_Value | Provider_Value provider_name | Text_Value string | Int_Value int | Uuid_Value string

datatype setting_source = EXPLICIT | DEFAULT | POLICY

record text_reader =
  tr_uuid :: "string \<Rightarrow> string option"
  tr_int :: "string \<Rightarrow> int option"

record registered_field =
  rf_query :: string
  rf_read :: "string \<Rightarrow> setting_value option"
  rf_default :: setting_value
  rf_valid :: "setting_value \<Rightarrow> bool"

fun read_provider :: "string \<Rightarrow> setting_value option" where
  "read_provider raw = map_option Provider_Value (find (\<lambda>p. provider_value p = raw) [BROWSERLESS, BROWSERLESS_CLOUD])"

text \<open>\<open>^[a-z]{2}$\<close>\<close>

fun country_ok :: "setting_value \<Rightarrow> bool" where
  "country_ok (Text_Value t) \<longleftrightarrow> length t = 2 \<and> list_all (\<lambda>c. CHR ''a'' \<le> c \<and> c \<le> CHR ''z'') t"
| "country_ok v \<longleftrightarrow> v = No_Value"

fun timeout_ok :: "setting_value \<Rightarrow> bool" where
  "timeout_ok (Int_Value n) \<longleftrightarrow> 1 \<le> n \<and> n \<le> 60000"
| "timeout_ok v \<longleftrightarrow> v = No_Value"

definition provider_fields :: "registered_field list" where
  "provider_fields = [\<lparr>rf_query = ''stolosio.provider.slug'', rf_read = read_provider, rf_default = Provider_Value BROWSERLESS,
     rf_valid = (\<lambda>v. True)\<rparr>]"

definition session_fields :: "text_reader \<Rightarrow> registered_field list" where
  "session_fields tr =
     [\<lparr>rf_query = ''stolosio.session.reference'', rf_read = (\<lambda>raw. map_option Uuid_Value (tr_uuid tr raw)), rf_default = No_Value,
        rf_valid = (\<lambda>v. True)\<rparr>,
      \<lparr>rf_query = ''stolosio.session.admission_timeout_ms'', rf_read = (\<lambda>raw. map_option Int_Value (tr_int tr raw)), rf_default = No_Value,
        rf_valid = timeout_ok\<rparr>]"

definition browserless_fields :: "registered_field list" where
  "browserless_fields = [\<lparr>rf_query = ''stolosio.browserless.proxy_country'', rf_read = (\<lambda>raw. Some (Text_Value raw)), rf_default = No_Value,
     rf_valid = country_ok\<rparr>]"

definition stolosio_settings_registry :: "text_reader \<Rightarrow> registered_field list" where
  "stolosio_settings_registry tr = provider_fields @ session_fields tr @ browserless_fields"

section \<open>Parsing and resolving\<close>

definition field_of :: "registered_field list \<Rightarrow> string \<Rightarrow> registered_field option" where
  "field_of fs query = find (\<lambda>f. rf_query f = query) fs"

type_synonym overrides = "(string \<times> setting_value) list"

fun parse_items ::
  "registered_field list \<Rightarrow> overrides \<Rightarrow> (string \<times> string) list \<Rightarrow> rejection + overrides" where
  "parse_items fs seen [] = Inr seen"
| "parse_items fs seen ((query, raw) # items) =
     (if \<not> startswith ''stolosio.'' query then parse_items fs seen items
      else case field_of fs query of
          None \<Rightarrow> Inl InvalidStolosioSettings
        | Some f \<Rightarrow>
            if query \<in> fst ` set seen \<or> raw = [] then Inl InvalidStolosioSettings
            else case rf_read f raw of
                None \<Rightarrow> Inl InvalidStolosioSettings
              | Some v \<Rightarrow> parse_items fs (seen @ [(query, v)]) items)"

definition parse_query :: "registered_field list \<Rightarrow> (string \<times> string) list \<Rightarrow> rejection + overrides" where
  "parse_query fs items = parse_items fs [] items"

record resolved_setting =
  rs_query :: string
  rs_value :: setting_value
  rs_source :: setting_source

definition resolve_field :: "overrides \<Rightarrow> registered_field \<Rightarrow> resolved_setting" where
  "resolve_field requested f =
     (case map_of requested (rf_query f) of
        Some v \<Rightarrow> \<lparr>rs_query = rf_query f, rs_value = v, rs_source = EXPLICIT\<rparr>
      | None \<Rightarrow> \<lparr>rs_query = rf_query f, rs_value = rf_default f, rs_source = DEFAULT\<rparr>)"

definition resolve_settings ::
  "registered_field list \<Rightarrow> (string \<times> string) list \<Rightarrow> rejection + overrides \<times> resolved_setting list" where
  "resolve_settings fs items =
     (case parse_query fs items of
        Inl e \<Rightarrow> Inl e
      | Inr requested \<Rightarrow>
          let values = map (resolve_field requested) fs
          in if list_all2 (\<lambda>f r. rf_valid f (rs_value r)) fs values then Inr (requested, values)
             else Inl InvalidStolosioSettings)"

definition session_reference :: "overrides \<Rightarrow> string option" where
  "session_reference requested =
     (case map_of requested ''stolosio.session.reference'' of Some (Uuid_Value u) \<Rightarrow> Some u | _ \<Rightarrow> None)"

section \<open>What a query means\<close>

text \<open>The reference: the keys of the prefix must be registered, distinct and have a readable value; a setting has the
  value its key was given, or its default.\<close>

definition addressed :: "(string \<times> string) list \<Rightarrow> (string \<times> string) list" where
  "addressed items = filter (\<lambda>(query, raw). startswith ''stolosio.'' query) items"

definition reads :: "registered_field list \<Rightarrow> string \<times> string \<Rightarrow> setting_value option" where
  "reads fs = (\<lambda>(query, raw). if raw = [] then None else Option.bind (field_of fs query) (\<lambda>f. rf_read f raw))"

definition well_formed :: "registered_field list \<Rightarrow> (string \<times> string) list \<Rightarrow> bool" where
  "well_formed fs items \<longleftrightarrow> distinct (map fst (addressed items)) \<and> list_all (\<lambda>i. reads fs i \<noteq> None) (addressed items)"

lemma parse_items_spec:
  "parse_items fs seen items =
     (if distinct (map fst (addressed items)) \<and> fst ` set seen \<inter> fst ` set (addressed items) = {}
         \<and> list_all (\<lambda>i. reads fs i \<noteq> None) (addressed items)
      then Inr (seen @ map (\<lambda>i. (fst i, the (reads fs i))) (addressed items)) else Inl InvalidStolosioSettings)"
proof (induction fs seen items rule: parse_items.induct)
  case (2 fs seen query raw items)
  show ?case
  proof (cases "startswith ''stolosio.'' query")
    case False
    then show ?thesis using 2(1) by (simp add: addressed_def)
  next
    case True
    then have a: "addressed ((query, raw) # items) = (query, raw) # addressed items" by (simp add: addressed_def)
    show ?thesis
    proof (cases "reads fs (query, raw)")
      case None
      then show ?thesis using True unfolding a by (auto simp: reads_def split: option.splits if_splits)
    next
      case (Some v)
      then obtain f where f: "field_of fs query = Some f" "rf_read f raw = Some v" "raw \<noteq> []"
        by (auto simp: reads_def split: if_splits bind_splits)
      show ?thesis
      proof (cases "query \<in> fst ` set seen")
        case True
        then show ?thesis using f \<open>startswith _ query\<close> unfolding a by auto
      next
        case False
        then show ?thesis using 2(2) [of f v] f Some \<open>startswith _ query\<close> unfolding a by auto
      qed
    qed
  qed
qed (simp add: addressed_def)

lemma parse_query_spec:
  "parse_query fs items =
     (if well_formed fs items then Inr (map (\<lambda>i. (fst i, the (reads fs i))) (addressed items)) else Inl InvalidStolosioSettings)"
  by (simp add: parse_query_def parse_items_spec well_formed_def)

lemma map_of_given: "map_of (map (\<lambda>i. (fst i, g i)) is) k = map_option g (find (\<lambda>i. fst i = k) is)"
  by (induction "is") auto

text \<open>C36: A query is accepted exactly when each of its keys with the prefix \<open>stolosio.\<close> is registered, occurs once and
  has a readable value that is not empty, and all resulting values are valid. Then every registered setting has the value
  its key was given, as explicit, or its default; other keys change nothing.\<close>

theorem settings_resolved:
  "resolve_settings fs items =
     (let given = (\<lambda>f. find (\<lambda>i. fst i = rf_query f) (addressed items));
          chosen = (\<lambda>f. case given f of Some i \<Rightarrow> the (reads fs i) | None \<Rightarrow> rf_default f)
      in if well_formed fs items \<and> (\<forall>f \<in> set fs. rf_valid f (chosen f))
         then Inr (map (\<lambda>i. (fst i, the (reads fs i))) (addressed items),
                   map (\<lambda>f. \<lparr>rs_query = rf_query f, rs_value = chosen f,
                             rs_source = (if given f = None then DEFAULT else EXPLICIT)\<rparr>) fs)
         else Inl InvalidStolosioSettings)"
proof (cases "well_formed fs items")
  case False
  then show ?thesis by (simp add: resolve_settings_def parse_query_spec Let_def)
next
  case True
  let ?given = "\<lambda>f. find (\<lambda>i. fst i = rf_query f) (addressed items)"
  let ?chosen = "\<lambda>f. case ?given f of Some i \<Rightarrow> the (reads fs i) | None \<Rightarrow> rf_default f"
  let ?requested = "map (\<lambda>i. (fst i, the (reads fs i))) (addressed items)"
  have field: "resolve_field ?requested f = \<lparr>rs_query = rf_query f, rs_value = ?chosen f,
      rs_source = (if ?given f = None then DEFAULT else EXPLICIT)\<rparr>" for f
    by (auto simp: resolve_field_def map_of_given split: option.split)
  then have "list_all2 (\<lambda>f r. rf_valid f (rs_value r)) fs (map (resolve_field ?requested) fs) \<longleftrightarrow> (\<forall>f \<in> set fs. rf_valid f (?chosen f))"
    by (simp add: list_all2_map2 list_all2_same)
  then show ?thesis using True by (simp add: resolve_settings_def parse_query_spec Let_def field)
qed

theorem settings_resolved_witness:
  "resolve_settings (stolosio_settings_registry \<lparr>tr_uuid = Some, tr_int = (\<lambda>t. if t = ''5000'' then Some 5000 else None)\<rparr>)
     [(''token'', ''x''), (''stolosio.session.admission_timeout_ms'', ''5000'')]
   = Inr ([(''stolosio.session.admission_timeout_ms'', Int_Value 5000)],
       [\<lparr>rs_query = ''stolosio.provider.slug'', rs_value = Provider_Value BROWSERLESS, rs_source = DEFAULT\<rparr>,
        \<lparr>rs_query = ''stolosio.session.reference'', rs_value = No_Value, rs_source = DEFAULT\<rparr>,
        \<lparr>rs_query = ''stolosio.session.admission_timeout_ms'', rs_value = Int_Value 5000, rs_source = EXPLICIT\<rparr>,
        \<lparr>rs_query = ''stolosio.browserless.proxy_country'', rs_value = No_Value, rs_source = DEFAULT\<rparr>])"
  unfolding settings_resolved by code_simp

end
