(* ===== verification/Recorder.thy ===== *)
theory Recorder
  imports Usage Cdp_Observer "HOL-Library.AList"
begin

text \<open>
  The event recorder of the maintenance worker (\<^verbatim>\<open>backend/workers/maintenance/recorder.py\<close>) on the
  tables of \<^verbatim>\<open>backend/db/models/observability.py\<close>. A batch of delivered events is stored in one
  transaction, the domains it saw are projected in a second one, and the attempts it concerns in one transaction
  per 25 attempts: their domain, their cost per domain and their cost per protocol command.
  Every transaction either commits or leaves the database as it was; the recorder stops at the first that fails,
  and the undelivered batch comes again. The counters in a stored summary are JSON
  numbers, as the payload registry requires of the writer; anything else is an error, also the numeric string that
  \<open>int\<close> would take. One clock reading stamps a batch. Left out: \<open>eligible_acquisition_count\<close>, which
  nothing writes.
\<close>

section \<open>Tables\<close>

record session_message =
  sm_event_id :: string
  sm_schema_version :: int
  sm_event_type :: event_type
  sm_session_id :: string
  sm_occurred_at :: time
  sm_provider :: "provider_name option"
  sm_attempt_id :: "string option"
  sm_payload :: "(string \<times> json) list"

record event_row =
  er_event_id :: string
  er_schema_version :: int
  er_session_id :: string
  er_event_type :: event_type
  er_attempt_id :: "string option"
  er_provider :: "provider_name option"
  er_reason :: "string option"
  er_occurred_at :: time
  er_payload :: "(string \<times> json) list"
  er_published_at :: "time option"

record domain_row =
  dm_id :: int
  dm_hostname :: string
  dm_first_seen_at :: time
  dm_last_seen_at :: time
  dm_session_count :: int

record session_domain =
  sd_session_id :: string
  sd_domain_id :: int
  sd_first_seen_at :: time
  sd_last_seen_at :: time

record command_stat =
  cc_provider :: provider_name
  cc_method :: string
  cc_command_count :: int
  cc_failed_count :: int
  cc_interrupted_count :: int
  cc_total_duration_ms :: int
  cc_total_provider_latency_ms :: int
  cc_total_stolosio_queue_ms :: int
  cc_attributed_browser_time_ms :: int
  cc_attributed_cost_units :: int
  cc_first_seen_at :: time
  cc_last_seen_at :: time

record domain_cost_stat =
  dc_domain_id :: int
  dc_provider :: provider_name
  dc_observed_attempt_count :: int
  dc_total_cost_units :: int

text \<open>The gateway's tables as far as the recorder reads and writes them, and its own. Rows of the event table
  carry their identity here, which the gateway's view of the same table leaves out.\<close>

record recorder_db =
  rd_sessions :: "string list"
  rd_attempts :: "acquisition_attempt list"
  rd_events :: "event_row list"
  rd_domains :: "domain_row list"
  rd_session_domains :: "session_domain list"
  rd_command_stats :: "command_stat list"
  rd_domain_costs :: "domain_cost_stat list"
  rd_next_domain :: int

datatype recorder_error = Integrity_Error | Data_Error | Not_A_Number

type_synonym 'a recorded_result = "recorder_error + 'a"

definition MAX_RETAINED_METHODS :: int where "MAX_RETAINED_METHODS = 512"
definition SESSION_OVERHEAD_METHOD :: string where "SESSION_OVERHEAD_METHOD = ''__session_overhead__''"
definition ATTEMPT_PROJECTION_BATCH_SIZE :: nat where "ATTEMPT_PROJECTION_BATCH_SIZE = 25"
definition ATTEMPT_PROJECTION_EVENTS :: "event_type list" where
  "ATTEMPT_PROJECTION_EVENTS = [COMMAND_SUMMARY, ATTEMPT_CLOSED, ATTEMPT_FAILED]"

section \<open>Storing the events\<close>

definition known_session_ids :: "string list \<Rightarrow> recorder_db \<Rightarrow> string list" where
  "known_session_ids ids d = filter (\<lambda>i. i \<in> set ids) (rd_sessions d)"

definition event_row_of :: "time \<Rightarrow> session_message \<Rightarrow> event_row" where
  "event_row_of now m =
     \<lparr>er_event_id = sm_event_id m, er_schema_version = sm_schema_version m, er_session_id = sm_session_id m,
      er_event_type = sm_event_type m, er_attempt_id = sm_attempt_id m, er_provider = sm_provider m,
      er_reason = jstr (jget (JObj (sm_payload m)) ''reason''), er_occurred_at = sm_occurred_at m,
      er_payload = sm_payload m, er_published_at = Some now\<rparr>"

text \<open>The insert does nothing when the identity is already stored; else the session must exist.\<close>

definition insert_event :: "time \<Rightarrow> session_message \<Rightarrow> recorder_db \<Rightarrow> (recorder_db \<times> bool) recorded_result" where
  "insert_event now m d =
     (if lookup er_event_id (sm_event_id m) (rd_events d) \<noteq> None then Inr (d, False)
      else if sm_session_id m \<notin> set (rd_sessions d) then Inl Integrity_Error
      else Inr (d\<lparr>rd_events := rd_events d @ [event_row_of now m]\<rparr>, True))"

fun insert_events :: "time \<Rightarrow> session_message list \<Rightarrow> recorder_db \<Rightarrow> (recorder_db \<times> int) recorded_result" where
  "insert_events now [] d = Inr (d, 0)"
| "insert_events now (m # ms) d =
     (case insert_event now m d of
        Inl e \<Rightarrow> Inl e
      | Inr (d1, fresh) \<Rightarrow>
          (case insert_events now ms d1 of
             Inl e \<Rightarrow> Inl e
           | Inr (d2, n) \<Rightarrow> Inr (d2, (if fresh then 1 else 0) + n)))"

definition message_url :: "session_message \<Rightarrow> string option" where
  "message_url m = jstr (jget (JObj (sm_payload m)) ''url'')"

definition needs_projection :: "session_message \<Rightarrow> bool" where
  "needs_projection m \<longleftrightarrow> message_url m \<noteq> None \<or> sm_event_type m \<in> set ATTEMPT_PROJECTION_EVENTS"

section \<open>Domain facts\<close>

record domain_facts =
  fx_domains :: "(string \<times> time \<times> time) list"
  fx_sessions :: "((string \<times> string) \<times> time \<times> time) list"
  fx_attempts :: "(string \<times> string) list"

definition widen :: "'k \<Rightarrow> time \<Rightarrow> ('k \<times> time \<times> time) list \<Rightarrow> ('k \<times> time \<times> time) list" where
  "widen k t m =
     (let (f, l) = (case map_of m k of Some r \<Rightarrow> r | None \<Rightarrow> (t, t)) in AList.update k (min f t, max l t) m)"

definition observe_fact :: "url_env \<Rightarrow> session_message \<Rightarrow> domain_facts \<Rightarrow> domain_facts" where
  "observe_fact e m fx =
     (case message_url m of
        None \<Rightarrow> fx
      | Some url \<Rightarrow>
          (case normalize_domain e url of
             None \<Rightarrow> fx
           | Some hostname \<Rightarrow>
               fx\<lparr>fx_domains := widen hostname (sm_occurred_at m) (fx_domains fx),
                  fx_sessions := widen (sm_session_id m, hostname) (sm_occurred_at m) (fx_sessions fx),
                  fx_attempts := (case sm_attempt_id m of
                      Some a \<Rightarrow> if sm_event_type m = NAVIGATION_RESPONSE then AList.update a hostname (fx_attempts fx)
                                else fx_attempts fx
                    | None \<Rightarrow> fx_attempts fx)\<rparr>))"

definition domain_facts_of :: "url_env \<Rightarrow> session_message list \<Rightarrow> domain_facts" where
  "domain_facts_of e ms = fold (observe_fact e) ms \<lparr>fx_domains = [], fx_sessions = [], fx_attempts = []\<rparr>"

definition upsert_domain :: "string \<times> time \<times> time \<Rightarrow> recorder_db \<Rightarrow> recorder_db" where
  "upsert_domain = (\<lambda>(hostname, first, latest) d.
     (case lookup dm_hostname hostname (rd_domains d) of
        Some _ \<Rightarrow>
          d\<lparr>rd_domains := upd_where (\<lambda>r. dm_hostname r = hostname)
              (\<lambda>r. r\<lparr>dm_first_seen_at := min (dm_first_seen_at r) first, dm_last_seen_at := max (dm_last_seen_at r) latest\<rparr>)
              (rd_domains d)\<rparr>
      | None \<Rightarrow>
          d\<lparr>rd_domains := rd_domains d @ [\<lparr>dm_id = rd_next_domain d, dm_hostname = hostname,
              dm_first_seen_at = first, dm_last_seen_at = latest, dm_session_count = 0\<rparr>],
            rd_next_domain := rd_next_domain d + 1\<rparr>))"

definition domain_id_of :: "recorder_db \<Rightarrow> string \<Rightarrow> int option" where
  "domain_id_of d hostname = map_option dm_id (lookup dm_hostname hostname (rd_domains d))"

definition same_pair :: "string \<Rightarrow> int \<Rightarrow> session_domain \<Rightarrow> bool" where
  "same_pair s i r \<longleftrightarrow> sd_session_id r = s \<and> sd_domain_id r = i"

definition upsert_session_domain :: "string \<Rightarrow> int \<Rightarrow> time \<Rightarrow> time \<Rightarrow> recorder_db \<Rightarrow> recorder_db" where
  "upsert_session_domain s i first latest d =
     (if list_ex (same_pair s i) (rd_session_domains d) then
        d\<lparr>rd_session_domains := upd_where (same_pair s i)
            (\<lambda>r. r\<lparr>sd_first_seen_at := min (sd_first_seen_at r) first, sd_last_seen_at := max (sd_last_seen_at r) latest\<rparr>)
            (rd_session_domains d)\<rparr>
      else
        d\<lparr>rd_session_domains := rd_session_domains d @
            [\<lparr>sd_session_id = s, sd_domain_id = i, sd_first_seen_at = first, sd_last_seen_at = latest\<rparr>]\<rparr>)"

text \<open>One insert statement for all pairs: \<open>domain_ids[hostname]\<close> is there for every observed host, and every
  session must exist.\<close>

fun upsert_session_domains ::
  "((string \<times> string) \<times> time \<times> time) list \<Rightarrow> recorder_db \<Rightarrow> recorder_db recorded_result" where
  "upsert_session_domains [] d = Inr d"
| "upsert_session_domains (((s, hostname), first, latest) # rs) d =
     (case domain_id_of d hostname of
        None \<Rightarrow> Inl Integrity_Error
      | Some i \<Rightarrow>
          if s \<notin> set (rd_sessions d) then Inl Integrity_Error
          else upsert_session_domains rs (upsert_session_domain s i first latest d))"

definition domain_sessions :: "recorder_db \<Rightarrow> int \<Rightarrow> int" where
  "domain_sessions d i = int (count_where (\<lambda>r. sd_domain_id r = i) (rd_session_domains d))"

definition recount :: "int list \<Rightarrow> recorder_db \<Rightarrow> recorder_db" where
  "recount ids d =
     d\<lparr>rd_domains := upd_where (\<lambda>r. dm_id r \<in> set ids \<and> domain_sessions d (dm_id r) > 0)
         (\<lambda>r. r\<lparr>dm_session_count := domain_sessions d (dm_id r)\<rparr>) (rd_domains d)\<rparr>"

text \<open>The second transaction. Host names longer than the column do not fit.\<close>

definition store_domain_facts :: "domain_facts \<Rightarrow> recorder_db \<Rightarrow> recorder_db recorded_result" where
  "store_domain_facts fx d =
     (if fx_domains fx = [] then Inr d
      else if list_ex (\<lambda>(h, _). length h > 253) (fx_domains fx) then Inl Data_Error
      else
        let d1 = fold upsert_domain (sort_key fst (fx_domains fx)) d;
            ids = map the (map (domain_id_of d1 \<circ> fst) (fx_domains fx))
        in map_sum id (recount ids) (upsert_session_domains (sort_key fst (fx_sessions fx)) d1))"

definition attempt_domains_of :: "domain_facts \<Rightarrow> recorder_db \<Rightarrow> (string \<times> int) list" where
  "attempt_domains_of fx d = map (\<lambda>(a, h). (a, the (domain_id_of d h))) (fx_attempts fx)"

section \<open>Costs of a finished attempt\<close>

definition py_int :: "json option \<Rightarrow> int option" where
  "py_int v = (case v of
     None \<Rightarrow> Some 0
   | Some (JInt i) \<Rightarrow> Some i
   | Some (JBool b) \<Rightarrow> Some (if b then 1 else 0)
   | Some (JFloat q) \<Rightarrow> Some (if q < 0 then \<lceil>q\<rceil> else \<lfloor>q\<rfloor>)
   | _ \<Rightarrow> None)"

text \<open>The usage of one method; outer \<open>None\<close>: not a JSON object, and skipped; inner \<open>None\<close>: an
  entry that is not a number.\<close>

definition usage_of :: "json \<Rightarrow> command_usage option option" where
  "usage_of v = (case v of
     JObj kvs \<Rightarrow>
       Some (case (py_int (jget v ''count''), py_int (jget v ''failed_count''), py_int (jget v ''interrupted_count''),
                   py_int (jget v ''duration_ms''), py_int (jget v ''provider_latency_ms''), py_int (jget v ''stolosio_queue_ms'')) of
               (Some c, Some f, Some i, Some t, Some p, Some q) \<Rightarrow>
                 Some \<lparr>cu_count = c, cu_failed_count = f, cu_interrupted_count = i, cu_duration_ms = t,
                       cu_provider_latency_ms = p, cu_stolosio_queue_ms = q\<rparr>
             | _ \<Rightarrow> None)
   | _ \<Rightarrow> None)"

fun usages_of :: "(string \<times> json) list \<Rightarrow> (string \<times> command_usage) list option" where
  "usages_of [] = Some []"
| "usages_of ((m, v) # kvs) =
     (case usage_of v of
        None \<Rightarrow> usages_of kvs
      | Some None \<Rightarrow> None
      | Some (Some u) \<Rightarrow> map_option (\<lambda>us. (m, u) # us) (usages_of kvs))"

definition summary_methods :: "json option \<Rightarrow> (string \<times> json) list" where
  "summary_methods summary =
     (case summary of
        None \<Rightarrow> []
      | Some s \<Rightarrow> (case jget s ''methods'' of Some (JObj kvs) \<Rightarrow> kvs | _ \<Rightarrow> []))"

text \<open>Which row a method is counted in: its own while the provider has room, else the row for all others.\<close>

fun retained_command_methods ::
  "string list \<Rightarrow> string list \<Rightarrow> int \<Rightarrow> (string \<times> string) list" where
  "retained_command_methods [] existing available = []"
| "retained_command_methods (m # ms) existing available =
     (if m = SESSION_OVERHEAD_METHOD then (m, OTHER_COMMAND_METHOD) # retained_command_methods ms existing available
      else if m \<in> set existing then (m, m) # retained_command_methods ms existing available
      else if available \<noteq> 0 then (m, m) # retained_command_methods ms (m # existing) (available - 1)
      else (m, OTHER_COMMAND_METHOD) # retained_command_methods ms (OTHER_COMMAND_METHOD # existing) available)"

definition stat_methods :: "provider_name \<Rightarrow> recorder_db \<Rightarrow> string list" where
  "stat_methods p d =
     map cc_method (filter (\<lambda>r. cc_provider r = p \<and> cc_method r \<noteq> SESSION_OVERHEAD_METHOD) (rd_command_stats d))"

definition retained_methods :: "recorder_db \<Rightarrow> provider_name \<Rightarrow> string list \<Rightarrow> (string \<times> string) list" where
  "retained_methods d p ms =
     (let existing = stat_methods p d;
          exact = remdups (filter (\<lambda>m. m \<noteq> OTHER_COMMAND_METHOD) existing)
      in retained_command_methods ms existing (max 0 (MAX_RETAINED_METHODS - 1 - int (length exact))))"

definition command_row :: "provider_name \<Rightarrow> string \<Rightarrow> time \<Rightarrow> command_stat" where
  "command_row p m observed =
     \<lparr>cc_provider = p, cc_method = m, cc_command_count = 0, cc_failed_count = 0, cc_interrupted_count = 0,
      cc_total_duration_ms = 0, cc_total_provider_latency_ms = 0, cc_total_stolosio_queue_ms = 0,
      cc_attributed_browser_time_ms = 0, cc_attributed_cost_units = 0,
      cc_first_seen_at = observed, cc_last_seen_at = observed\<rparr>"

definition add_to_stat :: "command_usage \<Rightarrow> int \<Rightarrow> int \<Rightarrow> command_stat \<Rightarrow> command_stat" where
  "add_to_stat u browser cost r =
     r\<lparr>cc_command_count := cc_command_count r + cu_count u,
       cc_failed_count := cc_failed_count r + cu_failed_count u,
       cc_interrupted_count := cc_interrupted_count r + cu_interrupted_count u,
       cc_total_duration_ms := cc_total_duration_ms r + cu_duration_ms u,
       cc_total_provider_latency_ms := cc_total_provider_latency_ms r + cu_provider_latency_ms u,
       cc_total_stolosio_queue_ms := cc_total_stolosio_queue_ms r + cu_stolosio_queue_ms u,
       cc_attributed_browser_time_ms := cc_attributed_browser_time_ms r + browser,
       cc_attributed_cost_units := cc_attributed_cost_units r + cost\<rparr>"

text \<open>\<open>rows.setdefault(method, ...)\<close> and the additions: the rows of one attempt, one per retained method.\<close>

definition accumulate_command_cost ::
  "provider_name \<Rightarrow> string \<Rightarrow> command_usage \<Rightarrow> int \<Rightarrow> int \<Rightarrow> time \<Rightarrow> command_stat list \<Rightarrow> command_stat list" where
  "accumulate_command_cost p m u browser cost observed rows =
     (let rows1 = (if lookup cc_method m rows = None then rows @ [command_row p m observed] else rows)
      in upd_where (\<lambda>r. cc_method r = m) (add_to_stat u browser cost) rows1)"

definition method_browser_ms :: "int \<Rightarrow> int \<Rightarrow> command_usage \<Rightarrow> int" where
  "method_browser_ms attributable total_ms u =
     (if total_ms \<noteq> 0 then (attributable * cu_provider_latency_ms u) div total_ms else 0)"

definition method_cost :: "int \<Rightarrow> int \<Rightarrow> int \<Rightarrow> int" where
  "method_cost modeled chargeable browser = (if chargeable \<noteq> 0 then (modeled * browser) div chargeable else 0)"

definition same_stat :: "command_stat \<Rightarrow> command_stat \<Rightarrow> bool" where
  "same_stat r s \<longleftrightarrow> cc_provider s = cc_provider r \<and> cc_method s = cc_method r"

definition merge_stat :: "command_stat \<Rightarrow> command_stat \<Rightarrow> command_stat" where
  "merge_stat r s =
     (add_to_stat \<lparr>cu_count = cc_command_count r, cu_failed_count = cc_failed_count r,
        cu_interrupted_count = cc_interrupted_count r, cu_duration_ms = cc_total_duration_ms r,
        cu_provider_latency_ms = cc_total_provider_latency_ms r, cu_stolosio_queue_ms = cc_total_stolosio_queue_ms r\<rparr>
        (cc_attributed_browser_time_ms r) (cc_attributed_cost_units r) s)
     \<lparr>cc_first_seen_at := min (cc_first_seen_at s) (cc_first_seen_at r),
      cc_last_seen_at := max (cc_last_seen_at s) (cc_last_seen_at r)\<rparr>"

definition upsert_command_cost :: "command_stat \<Rightarrow> recorder_db \<Rightarrow> recorder_db" where
  "upsert_command_cost r d =
     (if list_ex (same_stat r) (rd_command_stats d)
      then d\<lparr>rd_command_stats := upd_where (same_stat r) (merge_stat r) (rd_command_stats d)\<rparr>
      else d\<lparr>rd_command_stats := rd_command_stats d @ [r]\<rparr>)"

definition or_zero :: "int option \<Rightarrow> int" where
  "or_zero n = (case n of Some i \<Rightarrow> i | None \<Rightarrow> 0)"

text \<open>The rows of one attempt: its methods in proportion to their provider latency, and what is left as overhead.\<close>

definition command_cost_rows ::
  "(string \<times> string) list \<Rightarrow> (string \<times> command_usage) list \<Rightarrow> acquisition_attempt \<Rightarrow> time \<Rightarrow> command_stat list" where
  "command_cost_rows retained usages a observed =
     (let total_ms = sum_list (map (cu_provider_latency_ms \<circ> snd) usages);
          browser = or_zero (aq_browser_connected_ms a);
          chargeable = or_zero (aq_chargeable_time_ms a);
          modeled = or_zero (aq_modeled_cost_units a);
          attributable = min browser total_ms;
          share = (\<lambda>u. method_browser_ms attributable total_ms u);
          price = (\<lambda>u. method_cost modeled chargeable (share u));
          rows = fold (\<lambda>(m, u). accumulate_command_cost (aq_provider a) (the (map_of retained m)) u (share u) (price u) observed) usages [];
          overhead_browser = max 0 (browser - sum_list (map (share \<circ> snd) usages));
          overhead_cost = max 0 (modeled - sum_list (map (price \<circ> snd) usages))
      in if overhead_browser \<noteq> 0 \<or> overhead_cost \<noteq> 0
         then accumulate_command_cost (aq_provider a) SESSION_OVERHEAD_METHOD no_usage overhead_browser overhead_cost observed rows
         else rows)"

definition same_cost :: "int \<Rightarrow> provider_name \<Rightarrow> domain_cost_stat \<Rightarrow> bool" where
  "same_cost i p r \<longleftrightarrow> dc_domain_id r = i \<and> dc_provider r = p"

definition upsert_domain_cost :: "int \<Rightarrow> provider_name \<Rightarrow> int \<Rightarrow> recorder_db \<Rightarrow> recorder_db" where
  "upsert_domain_cost i p cost d =
     (if list_ex (same_cost i p) (rd_domain_costs d) then
        d\<lparr>rd_domain_costs := upd_where (same_cost i p)
            (\<lambda>r. r\<lparr>dc_observed_attempt_count := dc_observed_attempt_count r + 1,
                   dc_total_cost_units := dc_total_cost_units r + cost\<rparr>) (rd_domain_costs d)\<rparr>
      else d\<lparr>rd_domain_costs := rd_domain_costs d @
          [\<lparr>dc_domain_id = i, dc_provider = p, dc_observed_attempt_count = 1, dc_total_cost_units = cost\<rparr>]\<rparr>)"

definition project_cost :: "acquisition_attempt \<times> recorder_db \<Rightarrow> acquisition_attempt \<times> recorder_db" where
  "project_cost = (\<lambda>(a, d).
     (case (aq_domain_id a, aq_modeled_cost_units a) of
        (Some i, Some cost) \<Rightarrow>
          if aq_cost_projected a then (a, d)
          else (a\<lparr>aq_cost_projected := True\<rparr>, upsert_domain_cost i (aq_provider a) cost d)
      | _ \<Rightarrow> (a, d)))"

definition project_command_summary ::
  "acquisition_attempt \<times> recorder_db \<Rightarrow> (acquisition_attempt \<times> recorder_db) recorded_result" where
  "project_command_summary = (\<lambda>(a, d).
     (case aq_finished_at a of
        None \<Rightarrow> Inr (a, d)
      | Some finished \<Rightarrow>
          if aq_command_cost_projected a then Inr (a, d)
          else
            let (a1, d1) = project_cost (a, d);
                methods = summary_methods (aq_command_summary a1);
                retained = retained_methods d1 (aq_provider a1) (map fst methods)
            in (case usages_of methods of
                  None \<Rightarrow> Inl Not_A_Number
                | Some usages \<Rightarrow>
                    Inr (a1\<lparr>aq_command_cost_projected := True, aq_command_summary := None\<rparr>,
                         fold upsert_command_cost (command_cost_rows retained usages a1 finished) d1))))"

section \<open>Projecting attempts\<close>

text \<open>The row of an attempt is written once, at the end; a domain it names must exist.\<close>

definition write_attempt :: "acquisition_attempt \<times> recorder_db \<Rightarrow> recorder_db" where
  "write_attempt = (\<lambda>(a, d). d\<lparr>rd_attempts := upd_where (\<lambda>r. aq_id r = aq_id a) (\<lambda>_. a) (rd_attempts d)\<rparr>)"

definition project_attempt ::
  "(string \<times> int) list \<Rightarrow> string list \<Rightarrow> acquisition_attempt \<Rightarrow> recorder_db \<Rightarrow> recorder_db recorded_result" where
  "project_attempt attempt_domains summary_ids a d =
     (let a1 = (case map_of attempt_domains (aq_id a) of Some i \<Rightarrow> a\<lparr>aq_domain_id := Some i\<rparr> | None \<Rightarrow> a)
      in if (case map_of attempt_domains (aq_id a) of Some i \<Rightarrow> i \<notin> dm_id ` set (rd_domains d) | None \<Rightarrow> False) then Inl Integrity_Error
         else
           let (a2, d2) = project_cost (a1, d)
           in if aq_id a \<in> set summary_ids then map_sum id write_attempt (project_command_summary (a2, d2))
              else Inr (write_attempt (a2, d2)))"

text \<open>One transaction: the attempts of a batch that exist, in the order of their identities.\<close>

fun project_batch ::
  "(string \<times> int) list \<Rightarrow> string list \<Rightarrow> string list \<Rightarrow> recorder_db \<Rightarrow> recorder_db recorded_result" where
  "project_batch attempt_domains summary_ids [] d = Inr d"
| "project_batch attempt_domains summary_ids (i # is) d =
     (case lookup aq_id i (rd_attempts d) of
        None \<Rightarrow> project_batch attempt_domains summary_ids is d
      | Some a \<Rightarrow>
          (case project_attempt attempt_domains summary_ids a d of
             Inl e \<Rightarrow> Inl e
           | Inr d1 \<Rightarrow> project_batch attempt_domains summary_ids is d1))"

function chunks :: "nat \<Rightarrow> 'a list \<Rightarrow> 'a list list" where
  "chunks n xs = (if n = 0 \<or> xs = [] then [] else take n xs # chunks n (drop n xs))"
  by pat_completeness auto
termination by (relation "measure (\<lambda>(n, xs). length xs)") auto

declare chunks.simps [simp del]

fun project_batches ::
  "(string \<times> int) list \<Rightarrow> string list \<Rightarrow> string list list \<Rightarrow> recorder_db \<Rightarrow> recorder_db \<times> recorder_error option" where
  "project_batches attempt_domains summary_ids [] d = (d, None)"
| "project_batches attempt_domains summary_ids (b # bs) d =
     (case project_batch attempt_domains summary_ids b d of
        Inl e \<Rightarrow> (d, Some e)
      | Inr d1 \<Rightarrow> project_batches attempt_domains summary_ids bs d1)"

definition summary_attempt_ids :: "session_message list \<Rightarrow> string list" where
  "summary_attempt_ids ms =
     List.map_filter (\<lambda>m. if sm_event_type m \<in> set ATTEMPT_PROJECTION_EVENTS then sm_attempt_id m else None) ms"

definition attempt_batches :: "(string \<times> int) list \<Rightarrow> string list \<Rightarrow> string list list" where
  "attempt_batches attempt_domains summary_ids =
     chunks ATTEMPT_PROJECTION_BATCH_SIZE (sort (remdups (map fst attempt_domains @ summary_ids)))"

section \<open>Recording a batch\<close>

text \<open>\<open>stop\<close>: after how many transactions the process dies; \<open>None\<close>: it does not. The result is the committed
  database, and the error of a failed transaction.\<close>

definition project_events ::
  "nat option \<Rightarrow> url_env \<Rightarrow> session_message list \<Rightarrow> recorder_db \<Rightarrow> recorder_db \<times> recorder_error option" where
  "project_events stop e ms d =
     (let fx = domain_facts_of e ms
      in if ms = [] \<or> stop = Some 0 then (d, None)
         else case store_domain_facts fx d of
           Inl err \<Rightarrow> (d, Some err)
         | Inr d1 \<Rightarrow>
             let attempt_domains = attempt_domains_of fx d1;
                 batches = attempt_batches attempt_domains (summary_attempt_ids ms)
             in project_batches attempt_domains (summary_attempt_ids ms)
                  (case stop of None \<Rightarrow> batches | Some n \<Rightarrow> take (n - 1) batches) d1)"

definition record_until ::
  "nat option \<Rightarrow> url_env \<Rightarrow> time \<Rightarrow> session_message list \<Rightarrow> recorder_db \<Rightarrow> recorder_db \<times> recorder_error option" where
  "record_until stop e now ms d =
     (if stop = Some 0 then (d, None)
      else case insert_events now ms d of
        Inl err \<Rightarrow> (d, Some err)
      | Inr (d1, _) \<Rightarrow> project_events (map_option (\<lambda>n. n - 1) stop) e (filter needs_projection ms) d1)"

definition record_events :: "url_env \<Rightarrow> time \<Rightarrow> session_message list \<Rightarrow> recorder_db \<Rightarrow> recorder_db \<times> recorder_error option" where
  "record_events = record_until None"

definition recorded_count :: "time \<Rightarrow> session_message list \<Rightarrow> recorder_db \<Rightarrow> int option" where
  "recorded_count now ms d = (case insert_events now ms d of Inl _ \<Rightarrow> None | Inr (_, n) \<Rightarrow> Some n)"

end
