(* ===== verification/Recorder_Proofs.thy ===== *)
theory Recorder_Proofs
  imports Recorder Lifecycle
begin

text \<open>
  What the recorder does to the accounts: every transaction of a recording posts to the per-command and per-domain
  tables exactly what the attempts it marks as projected have used and cost, to the unit, and nothing else (locale
  \<open>stat_measure\<close>, one interpretation per column). It is a statement about one recording on any tables with their
  primary keys, so what gateways and the retention job did to them before does not matter.
\<close>

section \<open>Sums over tables\<close>

lemma sum_upd_none:
  "\<forall>r \<in> set rows. \<not> P r \<Longrightarrow> sum_list (map g (upd_where P f rows)) = sum_list (map g rows)"
  by (induction rows) auto

lemma sum_upd_one:
  fixes g :: "'r \<Rightarrow> int"
  assumes "distinct (map key rows)" "r \<in> set rows"
  shows "sum_list (map g (upd_where (\<lambda>s. key s = key r) f rows)) = sum_list (map g rows) - g r + g (f r)"
  using assms
proof (induction rows)
  case (Cons s rows)
  show ?case
  proof (cases "key s = key r")
    case True
    then have "s = r" using Cons.prems by (auto simp: image_iff)
    moreover have "\<forall>t \<in> set rows. key t \<noteq> key s" using Cons.prems by (auto simp: image_iff)
    ultimately show ?thesis using sum_upd_none [of rows "\<lambda>s. key s = key r" g f] by simp
  next
    case False
    then show ?thesis using Cons by auto
  qed
qed simp

lemma sum_list_mult_int: "(\<Sum>x\<leftarrow>xs. c * f x) = c * (\<Sum>x\<leftarrow>xs. f x)" for c :: int
  by (induction xs) (simp_all add: distrib_left)

text \<open>Shares that are rounded down never exceed what they share.\<close>

lemma sum_shares_le:
  fixes whole part :: int
  assumes "0 < whole" "0 \<le> part" "(\<Sum>x\<leftarrow>xs. f x) \<le> whole"
  shows "(\<Sum>x\<leftarrow>xs. (part * f x) div whole) \<le> part"
proof -
  have "whole * ((part * f x) div whole) \<le> part * f x" for x
    using assms(1) by (metis minus_mod_eq_mult_div pos_mod_sign add_diff_cancel_left' diff_ge_0_iff_ge diff_diff_eq2 diff_add_cancel diff_right_mono add.commute le_add_same_cancel1)
  then have "(\<Sum>x\<leftarrow>xs. whole * ((part * f x) div whole)) \<le> (\<Sum>x\<leftarrow>xs. part * f x)"
    by (intro sum_list_mono) blast
  then have "whole * (\<Sum>x\<leftarrow>xs. (part * f x) div whole) \<le> part * (\<Sum>x\<leftarrow>xs. f x)"
    by (simp add: sum_list_mult_int)
  also have "\<dots> \<le> part * whole" using assms(2,3) by (intro mult_left_mono) auto
  finally have "whole * (\<Sum>x\<leftarrow>xs. (part * f x) div whole) \<le> whole * part" by (simp add: mult.commute)
  then show ?thesis using assms(1) by simp
qed

lemma sum_shares_nonneg:
  fixes whole part :: int
  assumes "0 \<le> whole" "0 \<le> part" "\<forall>x \<in> set xs. 0 \<le> f x"
  shows "0 \<le> (\<Sum>x\<leftarrow>xs. (part * f x) div whole)" "\<forall>x \<in> set xs. 0 \<le> (part * f x) div whole"
proof -
  show pos: "\<forall>x \<in> set xs. 0 \<le> (part * f x) div whole"
    using assms by (auto intro!: div_int_pos_iff [THEN iffD2])
  show "0 \<le> (\<Sum>x\<leftarrow>xs. (part * f x) div whole)" using pos by (induction xs) auto
qed

section \<open>The rows of an attempt\<close>

definition rows_ok :: "provider_name \<Rightarrow> command_stat list \<Rightarrow> bool" where
  "rows_ok p rows \<longleftrightarrow> distinct (map cc_method rows) \<and> (\<forall>r \<in> set rows. cc_provider r = p)"

lemma add_to_stat_key [simp]: "cc_method (add_to_stat u b c r) = cc_method r" "cc_provider (add_to_stat u b c r) = cc_provider r"
  by (simp_all add: add_to_stat_def)

lemma command_row_key [simp]: "cc_method (command_row p m t) = m" "cc_provider (command_row p m t) = p"
  by (simp_all add: command_row_def)

lemma accumulate_methods:
  "cc_method ` set (accumulate_command_cost p m u b c t rows) = insert m (cc_method ` set rows)"
proof (cases "lookup cc_method m rows")
  case None
  then show ?thesis by (auto simp: accumulate_command_cost_def set_upd_where image_image)
next
  case (Some r)
  then have "m \<in> cc_method ` set rows" using lookup_Some [OF Some] by auto
  moreover have "cc_method ` set (upd_where (\<lambda>r. cc_method r = m) (add_to_stat u b c) rows) = cc_method ` set rows"
    unfolding list.set_map [symmetric] by (subst map_upd_where_key) simp_all
  ultimately show ?thesis by (auto simp: accumulate_command_cost_def Some)
qed

lemma rows_ok_accumulate:
  assumes "rows_ok p rows"
  shows "rows_ok p (accumulate_command_cost p m u b c t rows)"
proof -
  let ?rows = "if lookup cc_method m rows = None then rows @ [command_row p m t] else rows"
  have "rows_ok p ?rows" using assms by (auto simp: rows_ok_def lookup_None)
  then show ?thesis
    by (auto simp: rows_ok_def accumulate_command_cost_def Let_def map_upd_where_key set_upd_where)
qed

lemma rows_ok_fold:
  "rows_ok p rows \<Longrightarrow> rows_ok p (fold (\<lambda>(m, u). accumulate_command_cost p (target m) u (b u) (c u) t) us rows)"
  by (induction us arbitrary: rows) (auto simp: rows_ok_accumulate)

lemma fold_accumulate_methods:
  "cc_method ` set (fold (\<lambda>(m, u). accumulate_command_cost p (target m) u (b u) (c u) t) us rows)
     = target ` fst ` set us \<union> cc_method ` set rows"
  by (induction us arbitrary: rows) (simp_all add: accumulate_methods split_beta image_Un Un_insert_right)

lemma rows_ok_attempt: "rows_ok (aq_provider a) (command_cost_rows retained usages a t)"
  unfolding command_cost_rows_def Let_def
  by (simp add: rows_ok_accumulate rows_ok_fold rows_ok_def [of _ "[]"])

lemma attempt_row_methods:
  "cc_method ` set (command_cost_rows retained usages a t)
     \<subseteq> (\<lambda>m. the (map_of retained m)) ` fst ` set usages \<union> {SESSION_OVERHEAD_METHOD}"
  unfolding command_cost_rows_def Let_def by (auto simp: accumulate_methods fold_accumulate_methods)

lemma merge_stat_key [simp]: "cc_method (merge_stat r s) = cc_method s" "cc_provider (merge_stat r s) = cc_provider s"
  by (simp_all add: merge_stat_def)

text \<open>The keys of the command table are distinct and stay so.\<close>

definition stat_key :: "command_stat \<Rightarrow> provider_name \<times> string" where
  "stat_key r = (cc_provider r, cc_method r)"

lemma stat_key_merge [simp]: "stat_key (merge_stat r s) = stat_key s"
  by (simp add: stat_key_def)

lemma same_stat_key: "same_stat r s \<longleftrightarrow> stat_key s = stat_key r"
  by (auto simp: same_stat_def stat_key_def)

lemma upsert_command_keys:
  "stat_key ` set (rd_command_stats (upsert_command_cost r d)) = insert (stat_key r) (stat_key ` set (rd_command_stats d))"
  "distinct (map stat_key (rd_command_stats d)) \<Longrightarrow> distinct (map stat_key (rd_command_stats (upsert_command_cost r d)))"
proof -
  have key: "map stat_key (upd_where (same_stat r) (merge_stat r) xs) = map stat_key xs" for xs
    by (simp add: map_upd_where_key)
  then have keys: "stat_key ` set (upd_where (same_stat r) (merge_stat r) xs) = stat_key ` set xs" for xs
    by (metis list.set_map)
  show "stat_key ` set (rd_command_stats (upsert_command_cost r d)) = insert (stat_key r) (stat_key ` set (rd_command_stats d))"
    by (auto simp: upsert_command_cost_def keys list_ex_iff same_stat_key intro: rev_image_eqI)
  show "distinct (map stat_key (rd_command_stats d)) \<Longrightarrow> distinct (map stat_key (rd_command_stats (upsert_command_cost r d)))"
    by (auto simp: upsert_command_cost_def key list_ex_iff same_stat_key)
qed

section \<open>Columns of the command table\<close>

text \<open>A column that adds up: what an accumulation adds to it, nothing in a new row, and untouched by the
  times a row was seen.\<close>

locale stat_measure =
  fixes column :: "command_stat \<Rightarrow> int" and adds :: "command_usage \<Rightarrow> int \<Rightarrow> int \<Rightarrow> int"
  assumes adds: "column (add_to_stat u b c r) = column r + adds u b c"
    and fresh: "column (command_row p m t) = 0"
    and seen: "column (r\<lparr>cc_first_seen_at := f, cc_last_seen_at := l\<rparr>) = column r"
    and whole: "adds \<lparr>cu_count = cc_command_count r, cu_failed_count = cc_failed_count r,
        cu_interrupted_count = cc_interrupted_count r, cu_duration_ms = cc_total_duration_ms r,
        cu_provider_latency_ms = cc_total_provider_latency_ms r, cu_stolosio_queue_ms = cc_total_stolosio_queue_ms r\<rparr>
        (cc_attributed_browser_time_ms r) (cc_attributed_cost_units r) = column r"
begin

definition total where
  "total p d = (\<Sum>r\<leftarrow>rd_command_stats d. if cc_provider r = p then column r else 0)"

lemma sum_accumulate:
  assumes "distinct (map cc_method rows)"
  shows "sum_list (map column (accumulate_command_cost p m u b c t rows)) = sum_list (map column rows) + adds u b c"
proof (cases "lookup cc_method m rows")
  case None
  then have "\<forall>r \<in> set rows. cc_method r \<noteq> m" by (simp add: lookup_None)
  then show ?thesis using sum_upd_none [of rows "\<lambda>r. cc_method r = m" column "add_to_stat u b c"]
    by (simp add: accumulate_command_cost_def None adds fresh)
next
  case (Some r)
  then have r: "r \<in> set rows" "m = cc_method r" using lookup_Some [OF Some] by auto
  show ?thesis using sum_upd_one [OF assms r(1), of column "add_to_stat u b c"]
    by (simp add: accumulate_command_cost_def Some adds) (simp add: r(2))
qed

lemma sum_fold_accumulate:
  assumes "rows_ok p rows"
  shows "sum_list (map column (fold (\<lambda>(m, u). accumulate_command_cost p (target m) u (b u) (c u) t) us rows))
    = sum_list (map column rows) + (\<Sum>(m, u)\<leftarrow>us. adds u (b u) (c u))"
  using assms
proof (induction us arbitrary: rows)
  case (Cons mu us)
  obtain m u where mu: "mu = (m, u)" by (cases mu)
  have "distinct (map cc_method rows)" using Cons.prems by (simp add: rows_ok_def)
  note sum_accumulate [OF this, of p "target m" u "b u" "c u" t]
  then show ?case using Cons.IH [OF rows_ok_accumulate [OF Cons.prems]] by (simp add: mu)
qed simp

lemma merged: "column (merge_stat r s) = column s + column r"
  by (simp only: merge_stat_def seen adds whole)

lemma total_upsert:
  assumes "distinct (map stat_key (rd_command_stats d))"
  shows "total p (upsert_command_cost r d) = total p d + (if cc_provider r = p then column r else 0)"
proof (cases "list_ex (same_stat r) (rd_command_stats d)")
  case True
  then obtain s where s: "s \<in> set (rd_command_stats d)" "stat_key s = stat_key r" by (auto simp: list_ex_iff same_stat_key)
  then have eq: "same_stat r = (\<lambda>q. stat_key q = stat_key s)" by (auto simp: same_stat_key)
  have "cc_provider s = cc_provider r" using s(2) by (simp add: stat_key_def)
  then show ?thesis
    using sum_upd_one [OF assms s(1), of "\<lambda>r. if cc_provider r = p then column r else 0" "merge_stat r"] True
    by (simp add: total_def upsert_command_cost_def eq merged)
next
  case False
  then show ?thesis by (simp add: total_def upsert_command_cost_def)
qed

lemma total_upserts:
  assumes "distinct (map stat_key (rd_command_stats d))" "\<forall>r \<in> set rows. cc_provider r = q"
  shows "total p (fold upsert_command_cost rows d) = total p d + (if q = p then sum_list (map column rows) else 0)"
  using assms
  by (induction rows arbitrary: d) (auto simp: total_upsert upsert_command_keys(2))

lemma adds_nothing: "adds no_usage 0 0 = 0"
proof -
  have "add_to_stat no_usage 0 0 r = r" for r by (simp add: add_to_stat_def no_usage_def)
  then show ?thesis using adds [of no_usage 0 0] by simp
qed

lemma sum_attempt_rows:
  fixes usages :: "(string \<times> command_usage) list" and a :: acquisition_attempt
  defines "total_ms \<equiv> (\<Sum>(m, u)\<leftarrow>usages. cu_provider_latency_ms u)"
  defines "share \<equiv> method_browser_ms (min (or_zero (aq_browser_connected_ms a)) total_ms) total_ms"
  defines "price \<equiv> \<lambda>u. method_cost (or_zero (aq_modeled_cost_units a)) (or_zero (aq_chargeable_time_ms a)) (share u)"
  shows "sum_list (map column (command_cost_rows retained usages a t)) =
     (\<Sum>(m, u)\<leftarrow>usages. adds u (share u) (price u))
     + adds no_usage (max 0 (or_zero (aq_browser_connected_ms a) - (\<Sum>(m, u)\<leftarrow>usages. share u)))
         (max 0 (or_zero (aq_modeled_cost_units a) - (\<Sum>(m, u)\<leftarrow>usages. price u)))"
proof -
  let ?rows = "fold (\<lambda>(m, u). accumulate_command_cost (aq_provider a) (the (map_of retained m)) u (share u) (price u) t) usages []"
  let ?ob = "max 0 (or_zero (aq_browser_connected_ms a) - (\<Sum>(m, u)\<leftarrow>usages. share u))"
  let ?oc = "max 0 (or_zero (aq_modeled_cost_units a) - (\<Sum>(m, u)\<leftarrow>usages. price u))"
  have ok: "rows_ok (aq_provider a) ?rows" by (rule rows_ok_fold) (simp add: rows_ok_def)
  have "sum_list (map column ?rows) = (\<Sum>(m, u)\<leftarrow>usages. adds u (share u) (price u))"
    using sum_fold_accumulate [of "aq_provider a" "[]" "\<lambda>m. the (map_of retained m)" share price t usages]
    by (simp add: rows_ok_def)
  moreover have "sum_list (map column (accumulate_command_cost (aq_provider a) SESSION_OVERHEAD_METHOD no_usage ?ob ?oc t ?rows))
      = sum_list (map column ?rows) + adds no_usage ?ob ?oc"
    using ok by (intro sum_accumulate) (simp add: rows_ok_def)
  moreover have "command_cost_rows retained usages a t =
      (if ?ob \<noteq> 0 \<or> ?oc \<noteq> 0 then accumulate_command_cost (aq_provider a) SESSION_OVERHEAD_METHOD no_usage ?ob ?oc t ?rows else ?rows)"
    unfolding command_cost_rows_def Let_def total_ms_def share_def price_def by (simp add: comp_def split_beta')
  ultimately show ?thesis by (simp add: adds_nothing)
qed

end

interpretation browser_time: stat_measure cc_attributed_browser_time_ms "\<lambda>u b c. b"
  by unfold_locales (simp_all add: add_to_stat_def command_row_def)

interpretation cost_units: stat_measure cc_attributed_cost_units "\<lambda>u b c. c"
  by unfold_locales (simp_all add: add_to_stat_def command_row_def)

interpretation command_count: stat_measure cc_command_count "\<lambda>u b c. cu_count u"
  by unfold_locales (simp_all add: add_to_stat_def command_row_def)

interpretation provider_latency: stat_measure cc_total_provider_latency_ms "\<lambda>u b c. cu_provider_latency_ms u"
  by unfold_locales (simp_all add: add_to_stat_def command_row_def)

section \<open>Attempts that can be billed\<close>

text \<open>A bill that can be shared out: times and costs are not negative, and an attempt is connected no longer than it
  is charged for. \<^verbatim>\<open>Billing\<close> derives this of the attempts the gateway finishes. The usage counters of the summary
  that the observer hands over are not negative either.\<close>

definition priced :: "acquisition_attempt \<Rightarrow> bool" where
  "priced a \<longleftrightarrow> 0 \<le> or_zero (aq_browser_connected_ms a) \<and> 0 \<le> or_zero (aq_modeled_cost_units a)
     \<and> or_zero (aq_browser_connected_ms a) \<le> or_zero (aq_chargeable_time_ms a)"

definition counted :: "json option \<Rightarrow> bool" where
  "counted summary \<longleftrightarrow> (\<forall>us. usages_of (summary_methods summary) = Some us \<longrightarrow>
     (\<forall>(m, u) \<in> set us. 0 \<le> cu_provider_latency_ms u))"

definition billable :: "acquisition_attempt \<Rightarrow> bool" where
  "billable a \<longleftrightarrow> priced a \<and> counted (aq_command_summary a)"

lemma attempt_rows_exact:
  assumes "billable a" "usages_of (summary_methods (aq_command_summary a)) = Some usages"
  shows "sum_list (map cc_attributed_browser_time_ms (command_cost_rows retained usages a t)) = or_zero (aq_browser_connected_ms a)"
    and "sum_list (map cc_attributed_cost_units (command_cost_rows retained usages a t)) = or_zero (aq_modeled_cost_units a)"
    and "sum_list (map cc_command_count (command_cost_rows retained usages a t)) = (\<Sum>(m, u)\<leftarrow>usages. cu_count u)"
proof -
  let ?B = "or_zero (aq_browser_connected_ms a)" and ?M = "or_zero (aq_modeled_cost_units a)" and ?C = "or_zero (aq_chargeable_time_ms a)"
  let ?T = "\<Sum>(m, u)\<leftarrow>usages. cu_provider_latency_ms u"
  let ?share = "method_browser_ms (min ?B ?T) ?T"
  have lat: "\<forall>x \<in> set usages. 0 \<le> cu_provider_latency_ms (snd x)"
    and B: "0 \<le> ?B" "?B \<le> ?C" "0 \<le> ?M"
    using assms by (auto simp: billable_def priced_def counted_def)
  have T: "0 \<le> ?T" using lat by (induction usages) auto
  have "(\<Sum>(m, u)\<leftarrow>usages. ?share u) \<le> ?B \<and> (\<forall>x \<in> set usages. 0 \<le> ?share (snd x))"
  proof (cases "?T = 0")
    case True
    have "method_browser_ms x 0 u = 0" for x u by (simp add: method_browser_ms_def)
    then show ?thesis using B True by (simp add: split_beta')
  next
    case False
    then have pos: "0 < ?T" using T by simp
    have m: "0 \<le> min ?B ?T" using B T by simp
    have "(\<Sum>x\<leftarrow>usages. (min ?B ?T * cu_provider_latency_ms (snd x)) div ?T) \<le> min ?B ?T"
      by (rule sum_shares_le [OF pos m]) (simp add: split_beta')
    moreover have "\<forall>x \<in> set usages. 0 \<le> (min ?B ?T * cu_provider_latency_ms (snd x)) div ?T"
      by (rule sum_shares_nonneg(2) [OF T m lat])
    ultimately show ?thesis using False by (simp add: method_browser_ms_def split_beta')
  qed
  note share = this
  let ?price = "\<lambda>u. method_cost ?M ?C (?share u)"
  have price: "(\<Sum>(m, u)\<leftarrow>usages. ?price u) \<le> ?M"
  proof (cases "?C = 0")
    case True
    then show ?thesis using B by (induction usages) (simp_all add: method_cost_def split_beta')
  next
    case False
    then have "0 < ?C" using B by simp
    moreover have "(\<Sum>x\<leftarrow>usages. ?share (snd x)) \<le> ?C" using share B by (simp add: split_beta')
    ultimately have "(\<Sum>x\<leftarrow>usages. (?M * ?share (snd x)) div ?C) \<le> ?M" using B by (intro sum_shares_le) auto
    then show ?thesis using False by (simp add: method_cost_def split_beta')
  qed
  show "sum_list (map cc_attributed_browser_time_ms (command_cost_rows retained usages a t)) = ?B"
    using browser_time.sum_attempt_rows [of retained usages a t] share by simp
  show "sum_list (map cc_attributed_cost_units (command_cost_rows retained usages a t)) = ?M"
    using cost_units.sum_attempt_rows [of retained usages a t] price by simp
  show "sum_list (map cc_command_count (command_cost_rows retained usages a t)) = (\<Sum>(m, u)\<leftarrow>usages. cu_count u)"
    using command_count.sum_attempt_rows [of retained usages a t] by (simp add: no_usage_def)
qed

section \<open>The accounts\<close>

definition cost_key :: "domain_cost_stat \<Rightarrow> int \<times> provider_name" where
  "cost_key r = (dc_domain_id r, dc_provider r)"

definition domain_cost_total :: "provider_name \<Rightarrow> recorder_db \<Rightarrow> int" where
  "domain_cost_total p d = (\<Sum>r\<leftarrow>rd_domain_costs d. if dc_provider r = p then dc_total_cost_units r else 0)"

definition domain_attempt_count :: "provider_name \<Rightarrow> recorder_db \<Rightarrow> int" where
  "domain_attempt_count p d = (\<Sum>r\<leftarrow>rd_domain_costs d. if dc_provider r = p then dc_observed_attempt_count r else 0)"

abbreviation modeled_units :: "acquisition_attempt \<Rightarrow> int" where
  "modeled_units a \<equiv> or_zero (aq_modeled_cost_units a)"

abbreviation connected_ms :: "acquisition_attempt \<Rightarrow> int" where
  "connected_ms a \<equiv> or_zero (aq_browser_connected_ms a)"

definition keys_ok :: "recorder_db \<Rightarrow> bool" where
  "keys_ok d \<longleftrightarrow> distinct (map aq_id (rd_attempts d)) \<and> distinct (map stat_key (rd_command_stats d))
     \<and> distinct (map cost_key (rd_domain_costs d))
     \<and> (\<forall>a \<in> set (rd_attempts d). aq_finished_at a \<noteq> None \<longrightarrow> billable a)"

lemma same_cost_key: "same_cost i p r \<longleftrightarrow> cost_key r = (i, p)"
  by (auto simp: same_cost_def cost_key_def)

lemma upsert_domain_cost:
  assumes "distinct (map cost_key (rd_domain_costs d))"
  shows "distinct (map cost_key (rd_domain_costs (upsert_domain_cost i q c d)))"
    "domain_cost_total p (upsert_domain_cost i q c d) = domain_cost_total p d + (if q = p then c else 0)"
    "domain_attempt_count p (upsert_domain_cost i q c d) = domain_attempt_count p d + (if q = p then 1 else 0)"
proof -
  let ?f = "\<lambda>r. r\<lparr>dc_observed_attempt_count := dc_observed_attempt_count r + 1, dc_total_cost_units := dc_total_cost_units r + c\<rparr>"
  have key: "map cost_key (upd_where (same_cost i q) ?f rows) = map cost_key rows" for rows
    by (rule map_upd_where_key) (simp add: cost_key_def)
  have all: "distinct (map cost_key (rd_domain_costs (upsert_domain_cost i q c d)))
    \<and> domain_cost_total p (upsert_domain_cost i q c d) = domain_cost_total p d + (if q = p then c else 0)
    \<and> domain_attempt_count p (upsert_domain_cost i q c d) = domain_attempt_count p d + (if q = p then 1 else 0)"
  proof (cases "list_ex (same_cost i q) (rd_domain_costs d)")
    case True
    then obtain r where r: "r \<in> set (rd_domain_costs d)" "cost_key r = (i, q)" by (auto simp: list_ex_iff same_cost_key)
    then have eq: "same_cost i q = (\<lambda>s. cost_key s = cost_key r)" by (auto simp: same_cost_key)
    have q: "dc_provider r = q" using r(2) by (simp add: cost_key_def)
    have up: "rd_domain_costs (upsert_domain_cost i q c d) = upd_where (\<lambda>s. cost_key s = cost_key r) ?f (rd_domain_costs d)"
      using True by (simp add: upsert_domain_cost_def eq)
    show ?thesis
      using sum_upd_one [OF assms r(1), of "\<lambda>r. if dc_provider r = p then dc_total_cost_units r else 0" ?f]
        sum_upd_one [OF assms r(1), of "\<lambda>r. if dc_provider r = p then dc_observed_attempt_count r else 0" ?f]
        key [of "rd_domain_costs d"] assms
      by (simp add: domain_cost_total_def domain_attempt_count_def up q) (simp add: eq)
  next
    case False
    then show ?thesis using assms
      by (auto simp: upsert_domain_cost_def domain_cost_total_def domain_attempt_count_def list_ex_iff same_cost_def cost_key_def)
  qed
  then show "distinct (map cost_key (rd_domain_costs (upsert_domain_cost i q c d)))"
    "domain_cost_total p (upsert_domain_cost i q c d) = domain_cost_total p d + (if q = p then c else 0)"
    "domain_attempt_count p (upsert_domain_cost i q c d) = domain_attempt_count p d + (if q = p then 1 else 0)"
    by blast+
qed

lemma upsert_domain_cost_tables [simp]:
  "rd_attempts (upsert_domain_cost i q c d) = rd_attempts d" "rd_command_stats (upsert_domain_cost i q c d) = rd_command_stats d"
  "rd_domains (upsert_domain_cost i q c d) = rd_domains d" "rd_sessions (upsert_domain_cost i q c d) = rd_sessions d"
  "rd_events (upsert_domain_cost i q c d) = rd_events d" "rd_session_domains (upsert_domain_cost i q c d) = rd_session_domains d"
  by (simp_all add: upsert_domain_cost_def)

lemma upsert_command_cost_tables [simp]:
  "rd_attempts (upsert_command_cost r d) = rd_attempts d" "rd_domain_costs (upsert_command_cost r d) = rd_domain_costs d"
  "rd_domains (upsert_command_cost r d) = rd_domains d" "rd_sessions (upsert_command_cost r d) = rd_sessions d"
  "rd_events (upsert_command_cost r d) = rd_events d" "rd_session_domains (upsert_command_cost r d) = rd_session_domains d"
  by (simp_all add: upsert_command_cost_def)

lemma upsert_command_costs_tables [simp]:
  "rd_attempts (fold upsert_command_cost rows d) = rd_attempts d" "rd_domain_costs (fold upsert_command_cost rows d) = rd_domain_costs d"
  "rd_domains (fold upsert_command_cost rows d) = rd_domains d" "rd_sessions (fold upsert_command_cost rows d) = rd_sessions d"
  "rd_events (fold upsert_command_cost rows d) = rd_events d" "rd_session_domains (fold upsert_command_cost rows d) = rd_session_domains d"
  by (induction rows arbitrary: d) simp_all

lemma upsert_command_costs_distinct:
  "distinct (map stat_key (rd_command_stats d)) \<Longrightarrow> distinct (map stat_key (rd_command_stats (fold upsert_command_cost rows d)))"
  by (induction rows arbitrary: d) (simp_all add: upsert_command_keys(2))

section \<open>One attempt\<close>

text \<open>What a projection may do to the row of an attempt.\<close>

definition projects :: "acquisition_attempt \<Rightarrow> acquisition_attempt \<Rightarrow> bool" where
  "projects a b \<longleftrightarrow> aq_id b = aq_id a \<and> aq_provider b = aq_provider a \<and> aq_finished_at b = aq_finished_at a
     \<and> aq_modeled_cost_units b = aq_modeled_cost_units a \<and> aq_browser_connected_ms b = aq_browser_connected_ms a
     \<and> aq_chargeable_time_ms b = aq_chargeable_time_ms a
     \<and> (aq_cost_projected a \<longrightarrow> aq_cost_projected b) \<and> (aq_command_cost_projected a \<longrightarrow> aq_command_cost_projected b)
     \<and> (aq_command_summary b = aq_command_summary a \<or> aq_command_summary b = None)"

lemma projects_refl [simp]: "projects a a"
  by (simp add: projects_def)

lemma projects_trans: "projects a b \<Longrightarrow> projects b c \<Longrightarrow> projects a c"
  by (auto simp: projects_def)

lemma projects_billable: "projects a b \<Longrightarrow> billable a \<Longrightarrow> billable b"
  by (auto simp: projects_def billable_def priced_def counted_def summary_methods_def)

text \<open>The books after a projection: what became projected is booked, and nothing else changes.\<close>

definition gain :: "(acquisition_attempt \<Rightarrow> bool) \<Rightarrow> acquisition_attempt \<Rightarrow> acquisition_attempt \<Rightarrow> provider_name \<Rightarrow> int" where
  "gain flag a b p = (if flag b \<and> \<not> flag a \<and> aq_provider a = p then 1 else 0)"

lemma gain_trans:
  assumes "flag a \<Longrightarrow> flag b" "flag b \<Longrightarrow> flag c" "aq_provider b = aq_provider a"
  shows "gain flag a c p = gain flag a b p + gain flag b c p"
  using assms by (auto simp: gain_def)

lemma gain_refl [simp]: "gain flag a a p = 0"
  by (simp add: gain_def)

definition books :: "acquisition_attempt \<times> recorder_db \<Rightarrow> acquisition_attempt \<times> recorder_db \<Rightarrow> bool" where
  "books = (\<lambda>(a, d) (b, e). projects a b \<and> rd_attempts e = rd_attempts d \<and> rd_sessions e = rd_sessions d
     \<and> rd_domains e = rd_domains d \<and> rd_session_domains e = rd_session_domains d \<and> rd_events e = rd_events d
     \<and> distinct (map stat_key (rd_command_stats e)) \<and> distinct (map cost_key (rd_domain_costs e))
     \<and> (\<forall>p. browser_time.total p e = browser_time.total p d + gain aq_command_cost_projected a b p * connected_ms a
            \<and> cost_units.total p e = cost_units.total p d + gain aq_command_cost_projected a b p * modeled_units a
            \<and> domain_cost_total p e = domain_cost_total p d + gain aq_cost_projected a b p * modeled_units a
            \<and> domain_attempt_count p e = domain_attempt_count p d + gain aq_cost_projected a b p))"

lemma books_trans:
  assumes "books x y" "books y z"
  shows "books x z"
proof -
  obtain a d b e c f where xyz: "x = (a, d)" "y = (b, e)" "z = (c, f)" by (cases x, cases y, cases z)
  have p: "projects a b" "projects b c" using assms by (simp_all add: xyz books_def)
  then have same: "connected_ms b = connected_ms a" "modeled_units b = modeled_units a"
    by (simp_all add: projects_def)
  have g: "gain aq_command_cost_projected a c p = gain aq_command_cost_projected a b p + gain aq_command_cost_projected b c p"
    "gain aq_cost_projected a c p = gain aq_cost_projected a b p + gain aq_cost_projected b c p" for p
    using p by (intro gain_trans; simp add: projects_def)+
  have "projects a c" using p by (rule projects_trans)
  then show ?thesis using assms
    by (simp add: xyz books_def g same distrib_right)
qed

lemma totals_of_tables [simp]:
  "browser_time.total p (upsert_domain_cost i q c d) = browser_time.total p d"
  "cost_units.total p (upsert_domain_cost i q c d) = cost_units.total p d"
  "domain_cost_total p (fold upsert_command_cost rows d) = domain_cost_total p d"
  "domain_attempt_count p (fold upsert_command_cost rows d) = domain_attempt_count p d"
  by (simp_all add: browser_time.total_def cost_units.total_def domain_cost_total_def domain_attempt_count_def)

lemma totals_write [simp]:
  "browser_time.total p (write_attempt (c, e)) = browser_time.total p e"
  "cost_units.total p (write_attempt (c, e)) = cost_units.total p e"
  "domain_cost_total p (write_attempt (c, e)) = domain_cost_total p e"
  "domain_attempt_count p (write_attempt (c, e)) = domain_attempt_count p e"
  by (simp_all add: write_attempt_def browser_time.total_def cost_units.total_def domain_cost_total_def domain_attempt_count_def)

lemma project_cost_books:
  assumes "distinct (map stat_key (rd_command_stats d))" "distinct (map cost_key (rd_domain_costs d))"
  shows "books (a, d) (project_cost (a, d))"
proof (cases "aq_cost_projected a \<or> aq_domain_id a = None \<or> aq_modeled_cost_units a = None")
  case True
  then show ?thesis using assms by (auto simp: project_cost_def books_def split: option.split)
next
  case False
  then obtain i c where ic: "aq_domain_id a = Some i" "aq_modeled_cost_units a = Some c" "\<not> aq_cost_projected a" by auto
  note up = upsert_domain_cost [OF assms(2), where i = i and q = "aq_provider a" and c = c]
  have "projects a (a\<lparr>aq_cost_projected := True\<rparr>)" by (simp add: projects_def)
  then show ?thesis
    unfolding project_cost_def books_def gain_def
    by (simp add: ic up assms(1) or_zero_def)
qed

lemma command_summary_books:
  assumes keys: "distinct (map stat_key (rd_command_stats d))" "distinct (map cost_key (rd_domain_costs d))"
    and bill: "aq_finished_at a \<noteq> None \<longrightarrow> billable a"
    and run: "project_command_summary (a, d) = Inr x"
  shows "books (a, d) x"
proof (cases "aq_finished_at a = None \<or> aq_command_cost_projected a")
  case True
  then have "x = (a, d)" using run by (auto simp: project_command_summary_def split: option.splits)
  then show ?thesis using keys by (simp add: books_def)
next
  case False
  then obtain t where t: "aq_finished_at a = Some t" "\<not> aq_command_cost_projected a" by auto
  obtain a1 d1 where pc: "project_cost (a, d) = (a1, d1)" by (cases "project_cost (a, d)")
  have b1: "books (a, d) (a1, d1)" using project_cost_books [OF keys, of a] by (simp add: pc)
  then have p1: "projects a a1" and k1: "distinct (map stat_key (rd_command_stats d1))" "distinct (map cost_key (rd_domain_costs d1))"
    by (simp_all add: books_def)
  have bill1: "billable a1" using bill t p1 by (auto intro: projects_billable)
  have flag: "aq_command_cost_projected a1 = False"
    using pc t(2) by (auto simp: project_cost_def split: option.splits if_splits)
  let ?ret = "retained_methods d1 (aq_provider a1) (map fst (summary_methods (aq_command_summary a1)))"
  obtain us where us: "usages_of (summary_methods (aq_command_summary a1)) = Some us"
    and x: "x = (a1\<lparr>aq_command_cost_projected := True, aq_command_summary := None\<rparr>,
        fold upsert_command_cost (command_cost_rows ?ret us a1 t) d1)"
    using run t by (auto simp: project_command_summary_def pc Let_def split: option.splits)
  have prov: "\<forall>r \<in> set (command_cost_rows ?ret us a1 t). cc_provider r = aq_provider a1"
    using rows_ok_attempt by (simp add: rows_ok_def)
  note exact = attempt_rows_exact [OF bill1 us, of ?ret t]
  have "books (a1, d1) x"
    unfolding x books_def gain_def
    by (simp add: k1 flag upsert_command_costs_distinct projects_def browser_time.total_upserts [OF k1(1) prov]
        cost_units.total_upserts [OF k1(1) prov] exact)
  with b1 show ?thesis by (rule books_trans)
qed

section \<open>Postings\<close>

text \<open>The sum over the attempts that carry a mark after a recording and did not before, for one provider.\<close>

definition newly ::
  "(acquisition_attempt \<Rightarrow> bool) \<Rightarrow> (acquisition_attempt \<Rightarrow> int) \<Rightarrow> provider_name
     \<Rightarrow> acquisition_attempt list \<Rightarrow> acquisition_attempt list \<Rightarrow> int" where
  "newly flag amount p olds news =
     (\<Sum>(a, b)\<leftarrow>zip olds news. if flag b \<and> \<not> flag a \<and> aq_provider a = p then amount a else 0)"

definition posted :: "recorder_db \<Rightarrow> recorder_db \<Rightarrow> bool" where
  "posted d d' \<longleftrightarrow> list_all2 projects (rd_attempts d) (rd_attempts d')
     \<and> (\<forall>p. browser_time.total p d' = browser_time.total p d + newly aq_command_cost_projected connected_ms p (rd_attempts d) (rd_attempts d')
          \<and> cost_units.total p d' = cost_units.total p d + newly aq_command_cost_projected modeled_units p (rd_attempts d) (rd_attempts d')
          \<and> domain_cost_total p d' = domain_cost_total p d + newly aq_cost_projected modeled_units p (rd_attempts d) (rd_attempts d')
          \<and> domain_attempt_count p d' = domain_attempt_count p d + newly aq_cost_projected (\<lambda>_. 1) p (rd_attempts d) (rd_attempts d'))"

lemma newly_Nil [simp]: "newly flag amount p [] [] = 0"
  by (simp add: newly_def)

lemma newly_Cons [simp]:
  "newly flag amount p (a # as) (b # bs) =
     (if flag b \<and> \<not> flag a \<and> aq_provider a = p then amount a else 0) + newly flag amount p as bs"
  by (simp add: newly_def)

lemma newly_same [simp]: "newly flag amount p as as = 0"
  by (induction as) auto

lemma newly_trans:
  assumes "list_all2 projects as bs" "list_all2 projects bs cs"
    and "\<And>a b. projects a b \<Longrightarrow> (flag a \<longrightarrow> flag b) \<and> amount b = amount a"
  shows "newly flag amount p as cs = newly flag amount p as bs + newly flag amount p bs cs"
  using assms(1,2)
proof (induction arbitrary: cs rule: list_all2_induct)
  case (Cons a as b bs)
  then obtain c cs' where cs: "cs = c # cs'" "projects b c" "list_all2 projects bs cs'" by (auto simp: list_all2_Cons1)
  have prov: "aq_provider b = aq_provider a" using Cons.hyps(1) by (simp add: projects_def)
  show ?case
    using Cons.IH [OF cs(3)] assms(3) [OF Cons.hyps(1)] assms(3) [OF cs(2)]
    by (auto simp: cs(1) prov)
qed simp

lemma newly_write:
  assumes "distinct (map aq_id as)" "a \<in> set as"
  shows "newly flag amount p as (upd_where (\<lambda>r. aq_id r = aq_id a) (\<lambda>_. c) as) = gain flag a c p * amount a"
  using assms
proof (induction as)
  case (Cons b as)
  show ?case
  proof (cases "aq_id b = aq_id a")
    case True
    then have "b = a" using Cons.prems by (auto simp: image_iff)
    moreover have "upd_where (\<lambda>r. aq_id r = aq_id a) (\<lambda>_. c) as = as"
      using Cons.prems True by (intro upd_where_none) (auto simp: image_iff)
    ultimately show ?thesis by (simp add: gain_def)
  next
    case False
    then show ?thesis using Cons by auto
  qed
qed simp

lemma posted_refl [simp]: "posted d d"
  by (simp add: posted_def list_all2_same)

lemma projected_rows_trans:
  "list_all2 projects as bs \<Longrightarrow> list_all2 projects bs cs \<Longrightarrow> list_all2 projects as cs"
  by (rule list_all2_trans [OF projects_trans])

lemma posted_trans:
  assumes "posted d e" "posted e f"
  shows "posted d f"
proof -
  have rows: "list_all2 projects (rd_attempts d) (rd_attempts e)" "list_all2 projects (rd_attempts e) (rd_attempts f)"
    using assms by (simp_all add: posted_def)
  note split = newly_trans [OF rows]
  have "newly aq_command_cost_projected connected_ms p (rd_attempts d) (rd_attempts f)
      = newly aq_command_cost_projected connected_ms p (rd_attempts d) (rd_attempts e)
      + newly aq_command_cost_projected connected_ms p (rd_attempts e) (rd_attempts f)"
    "newly aq_command_cost_projected modeled_units p (rd_attempts d) (rd_attempts f)
      = newly aq_command_cost_projected modeled_units p (rd_attempts d) (rd_attempts e)
      + newly aq_command_cost_projected modeled_units p (rd_attempts e) (rd_attempts f)"
    "newly aq_cost_projected modeled_units p (rd_attempts d) (rd_attempts f)
      = newly aq_cost_projected modeled_units p (rd_attempts d) (rd_attempts e)
      + newly aq_cost_projected modeled_units p (rd_attempts e) (rd_attempts f)"
    "newly aq_cost_projected (\<lambda>_. 1) p (rd_attempts d) (rd_attempts f)
      = newly aq_cost_projected (\<lambda>_. 1) p (rd_attempts d) (rd_attempts e)
      + newly aq_cost_projected (\<lambda>_. 1) p (rd_attempts e) (rd_attempts f)" for p
    by (intro split; simp add: projects_def)+
  then show ?thesis using assms projected_rows_trans [OF rows] by (simp add: posted_def)
qed

lemma write_books:
  assumes ok: "keys_ok d" and a: "a \<in> set (rd_attempts d)" and b: "books (a, d) x"
  shows "keys_ok (write_attempt x) \<and> posted d (write_attempt x)"
proof -
  obtain c e where x: "x = (c, e)" by (cases x)
  have p: "projects a c" and at: "rd_attempts e = rd_attempts d"
    and ke: "distinct (map stat_key (rd_command_stats e))" "distinct (map cost_key (rd_domain_costs e))"
    using b by (simp_all add: x books_def)
  have ids: "aq_id c = aq_id a" "aq_provider c = aq_provider a"
    using p by (simp_all add: projects_def)
  have dis: "distinct (map aq_id (rd_attempts d))" using ok by (simp add: keys_ok_def)
  have rows: "rd_attempts (write_attempt x) = upd_where (\<lambda>r. aq_id r = aq_id a) (\<lambda>_. c) (rd_attempts d)"
    by (simp add: write_attempt_def x ids at)
  have "map aq_id (rd_attempts (write_attempt x)) = map aq_id (rd_attempts d)"
    unfolding rows by (rule map_upd_where_key) (simp add: ids)
  moreover have "aq_finished_at r \<noteq> None \<longrightarrow> billable r" if "r \<in> set (rd_attempts (write_attempt x))" for r
  proof -
    have "r = c \<or> r \<in> set (rd_attempts d)" using that by (auto simp: rows set_upd_where)
    then show ?thesis using ok a p projects_billable [OF p] by (auto simp: keys_ok_def projects_def)
  qed
  ultimately have "keys_ok (write_attempt x)"
    using ke dis by (simp add: keys_ok_def) (simp add: write_attempt_def x)
  moreover have "list_all2 projects (rd_attempts d) (rd_attempts (write_attempt x))"
  proof -
    have "projects r (if aq_id r = aq_id a then c else r)" if "r \<in> set (rd_attempts d)" for r
      using p dis a that by (auto simp: distinct_map inj_on_def)
    then show ?thesis unfolding rows upd_where_def by (auto simp: list_all2_map2 list_all2_same)
  qed
  moreover note post = newly_write [OF dis a, where c = c, folded rows]
  ultimately show ?thesis using b by (simp add: posted_def post books_def x)
qed

lemma project_attempt_alt:
  "project_attempt ad sids a d =
     (let a1 = (case map_of ad (aq_id a) of Some i \<Rightarrow> a\<lparr>aq_domain_id := Some i\<rparr> | None \<Rightarrow> a)
      in if (\<exists>i. map_of ad (aq_id a) = Some i \<and> i \<notin> dm_id ` set (rd_domains d)) then Inl Integrity_Error
         else
           let (a2, d2) = project_cost (a1, d)
           in if aq_id a \<in> set sids then map_sum id write_attempt (project_command_summary (a2, d2))
              else Inr (write_attempt (a2, d2)))"
proof -
  have "(case x of Some i \<Rightarrow> P i | None \<Rightarrow> False) \<longleftrightarrow> (\<exists>i. x = Some i \<and> P i)" for x :: "int option" and P
    by (simp split: option.split)
  from this [where x = "map_of ad (aq_id a)" and P = "\<lambda>i. i \<notin> dm_id ` set (rd_domains d)"] show ?thesis
    by (simp only: project_attempt_def)
qed

lemma project_attempt_books:
  assumes "keys_ok d" "a \<in> set (rd_attempts d)" "project_attempt ad sids a d = Inr d'"
  obtains x where "books (a, d) x" "d' = write_attempt x"
proof -
  define a1 where "a1 = (case map_of ad (aq_id a) of Some i \<Rightarrow> a\<lparr>aq_domain_id := Some i\<rparr> | None \<Rightarrow> a)"
  obtain a2 d2 where pc: "project_cost (a1, d) = (a2, d2)" by (cases "project_cost (a1, d)")
  have k: "distinct (map stat_key (rd_command_stats d))" "distinct (map cost_key (rd_domain_costs d))"
    using assms(1) by (simp_all add: keys_ok_def)
  have p1: "projects a a1" by (simp add: a1_def projects_def split: option.split)
  have flags: "aq_cost_projected a1 = aq_cost_projected a" "aq_command_cost_projected a1 = aq_command_cost_projected a"
    by (simp_all add: a1_def split: option.split)
  have b1: "books (a, d) (a1, d)" using k p1 by (simp add: books_def gain_def flags)
  have b2: "books (a1, d) (a2, d2)" using project_cost_books [OF k, of a1] by (simp add: pc)
  note b12 = books_trans [OF b1 b2]
  then have k2: "distinct (map stat_key (rd_command_stats d2))" "distinct (map cost_key (rd_domain_costs d2))" "projects a a2"
    by (simp_all add: books_def)
  have bill: "aq_finished_at a2 \<noteq> None \<longrightarrow> billable a2"
    using assms(1,2) k2(3) projects_billable [OF k2(3)] by (auto simp: keys_ok_def projects_def)
  consider "d' = write_attempt (a2, d2)" | x where "project_command_summary (a2, d2) = Inr x" "d' = write_attempt x"
    using assms(3) unfolding project_attempt_alt Let_def a1_def [symmetric] pc prod.case
    by (cases "project_command_summary (a2, d2)") (auto split: if_splits)
  then show ?thesis
  proof cases
    case 1
    then show ?thesis using b12 that by blast
  next
    case 2
    then show ?thesis using books_trans [OF b12 command_summary_books [OF k2(1,2) bill 2(1)]] that by blast
  qed
qed

section \<open>A recording\<close>

text \<open>The tables the first two transactions leave alone.\<close>

definition same_books :: "recorder_db \<Rightarrow> recorder_db \<Rightarrow> bool" where
  "same_books d d' \<longleftrightarrow> rd_attempts d' = rd_attempts d \<and> rd_command_stats d' = rd_command_stats d
     \<and> rd_domain_costs d' = rd_domain_costs d \<and> rd_sessions d' = rd_sessions d"

lemma same_books_refl [simp]: "same_books d d"
  by (simp add: same_books_def)

lemma same_books_trans: "same_books d d1 \<Longrightarrow> same_books d1 d2 \<Longrightarrow> same_books d d2"
  by (simp add: same_books_def)

lemma insert_events_tables:
  "insert_events now ms d = Inr (d', n) \<Longrightarrow> same_books d d' \<and> rd_domains d' = rd_domains d
     \<and> rd_session_domains d' = rd_session_domains d \<and> rd_next_domain d' = rd_next_domain d"
proof (induction ms arbitrary: d n)
  case (Cons m ms)
  obtain d1 f k where "insert_event now m d = Inr (d1, f)" "insert_events now ms d1 = Inr (d', k)"
    using Cons.prems by (auto split: sum.splits prod.splits)
  moreover have "same_books d d1 \<and> rd_domains d1 = rd_domains d \<and> rd_session_domains d1 = rd_session_domains d
      \<and> rd_next_domain d1 = rd_next_domain d"
    using calculation(1) by (auto simp: insert_event_def same_books_def split: if_splits)
  ultimately show ?case using Cons.IH same_books_trans by fastforce
qed simp

lemma upsert_domain_accounts: "same_books d (upsert_domain r d)"
  by (cases r) (simp add: upsert_domain_def same_books_def split: option.split)

lemma upsert_domains_accounts: "same_books d (fold upsert_domain rs d)"
proof (induction rs arbitrary: d)
  case (Cons r rs)
  then show ?case using same_books_trans [OF upsert_domain_accounts Cons.IH] by simp
qed simp

lemma upsert_session_domains_accounts: "upsert_session_domains rs d = Inr d' \<Longrightarrow> same_books d d' \<and> rd_domains d' = rd_domains d \<and> rd_events d' = rd_events d"
proof (induction rs d rule: upsert_session_domains.induct)
  case (2 s hostname first latest rs d)
  obtain i where i: "domain_id_of d hostname = Some i" "upsert_session_domains rs (upsert_session_domain s i first latest d) = Inr d'"
    "s \<in> set (rd_sessions d)"
    using 2(2) by (auto split: option.splits if_splits)
  have "same_books d (upsert_session_domain s i first latest d)
    \<and> rd_domains (upsert_session_domain s i first latest d) = rd_domains d
    \<and> rd_events (upsert_session_domain s i first latest d) = rd_events d"
    by (simp add: upsert_session_domain_def same_books_def)
  with 2(1) [OF i(1) _ i(2)] i(3) show ?case by (auto intro: same_books_trans)
qed simp

lemma store_domain_facts_accounts: "store_domain_facts fx d = Inr d' \<Longrightarrow> same_books d d'"
proof -
  assume st: "store_domain_facts fx d = Inr d'"
  show ?thesis
  proof (cases "fx_domains fx = []")
    case True
    then show ?thesis using st by (simp add: store_domain_facts_def)
  next
    case False
    let ?d1 = "fold upsert_domain (sort_key fst (fx_domains fx)) d"
    obtain d2 ids where d2: "upsert_session_domains (sort_key fst (fx_sessions fx)) ?d1 = Inr d2" "d' = recount ids d2"
      using st False by (cases "upsert_session_domains (sort_key fst (fx_sessions fx)) ?d1")
        (auto simp: store_domain_facts_def Let_def split: if_splits)
    have "same_books d2 d'" by (simp add: d2(2) recount_def same_books_def)
    then show ?thesis
      using upsert_domains_accounts upsert_session_domains_accounts [OF d2(1)] same_books_trans by blast
  qed
qed

section \<open>A recording posts what it marks\<close>

lemma same_books_posted: "same_books d d' \<Longrightarrow> keys_ok d \<Longrightarrow> keys_ok d' \<and> posted d d'"
  by (simp add: same_books_def keys_ok_def posted_def browser_time.total_def cost_units.total_def
      domain_cost_total_def domain_attempt_count_def list_all2_same)

lemma project_batch_posted:
  "project_batch ad sids ids d = Inr d' \<Longrightarrow> keys_ok d \<Longrightarrow> keys_ok d' \<and> posted d d'"
proof (induction ids arbitrary: d)
  case (Cons i ids)
  show ?case
  proof (cases "lookup aq_id i (rd_attempts d)")
    case None
    then show ?thesis using Cons by simp
  next
    case (Some a)
    then obtain d1 where d1: "project_attempt ad sids a d = Inr d1" "project_batch ad sids ids d1 = Inr d'"
      using Cons.prems(1) by (auto split: sum.splits)
    have a: "a \<in> set (rd_attempts d)" using lookup_Some [OF Some] by blast
    obtain x where "books (a, d) x" "d1 = write_attempt x" using project_attempt_books [OF Cons.prems(2) a d1(1)] .
    then have "keys_ok d1 \<and> posted d d1" using write_books [OF Cons.prems(2) a] by simp
    then show ?thesis using Cons.IH [OF d1(2)] posted_trans by blast
  qed
qed simp

lemma project_batches_posted:
  "keys_ok d \<Longrightarrow> keys_ok (fst (project_batches ad sids bs d)) \<and> posted d (fst (project_batches ad sids bs d))"
proof (induction bs arbitrary: d)
  case (Cons b bs)
  show ?case
  proof (cases "project_batch ad sids b d")
    case (Inr d1)
    note one = project_batch_posted [OF Inr Cons.prems]
    then show ?thesis using Cons.IH [of d1] posted_trans by (simp add: Inr) blast
  qed (simp add: Cons.prems)
qed simp

lemma project_events_posted:
  assumes "keys_ok d"
  shows "keys_ok (fst (project_events stop e ms d)) \<and> posted d (fst (project_events stop e ms d))"
proof (cases "ms = [] \<or> stop = Some 0")
  case True
  then show ?thesis using assms by (simp add: project_events_def)
next
  case going: False
  show ?thesis
  proof (cases "store_domain_facts (domain_facts_of e ms) d")
    case (Inl err)
    then show ?thesis using assms going by (simp add: project_events_def)
  next
    case (Inr d1)
    note first = same_books_posted [OF store_domain_facts_accounts [OF Inr] assms]
    obtain bs where bs: "project_events stop e ms d
        = project_batches (attempt_domains_of (domain_facts_of e ms) d1) (summary_attempt_ids ms) bs d1"
      using going Inr by (simp add: project_events_def Let_def)
    show ?thesis unfolding bs using first project_batches_posted posted_trans by blast
  qed
qed

lemma record_posted:
  assumes "keys_ok d"
  shows "keys_ok (fst (record_until stop e now ms d)) \<and> posted d (fst (record_until stop e now ms d))"
proof (cases "stop = Some 0")
  case True
  then show ?thesis using assms by (simp add: record_until_def)
next
  case going: False
  show ?thesis
  proof (cases "insert_events now ms d")
    case (Inl err)
    then show ?thesis using assms going by (simp add: record_until_def)
  next
    case (Inr r)
    obtain d1 n where r: "r = (d1, n)" by (cases r)
    have "same_books d d1" using insert_events_tables Inr [unfolded r] by blast
    from same_books_posted [OF this assms] show ?thesis
      using going Inr project_events_posted posted_trans by (simp add: record_until_def r) blast
  qed
qed

end
