(* ===== verification/Recorder_Redelivery.thy ===== *)
theory Recorder_Redelivery
  imports Recorder_Proofs
begin

text \<open>
  Redelivery of a batch. Every transaction of the recorder is idempotent once it has committed, and later
  transactions of the same batch keep it so; hence recording a batch again, after the process died between any two of its
  transactions, completes it and repeats nothing.
\<close>

section \<open>Stored events\<close>

lemma insert_events_stored:
  "insert_events now ms d = Inr (d', n) \<Longrightarrow>
   (\<forall>m \<in> set ms. lookup er_event_id (sm_event_id m) (rd_events d') \<noteq> None) \<and> (\<exists>xs. rd_events d' = rd_events d @ xs)"
proof (induction ms arbitrary: d n)
  case (Cons m ms)
  obtain d1 f k where step: "insert_event now m d = Inr (d1, f)" "insert_events now ms d1 = Inr (d', k)"
    using Cons.prems by (auto split: sum.splits prod.splits)
  have one: "lookup er_event_id (sm_event_id m) (rd_events d1) \<noteq> None" "\<exists>xs. rd_events d1 = rd_events d @ xs"
    using step(1) by (auto simp: insert_event_def lookup_append event_row_of_def split: if_splits option.split)
  have "lookup er_event_id (sm_event_id m) (rd_events d') \<noteq> None" "\<exists>xs. rd_events d' = rd_events d @ xs"
    using Cons.IH [OF step(2)] one by (auto simp: lookup_append split: option.split)
  then show ?case using Cons.IH [OF step(2)] by simp
qed simp

lemma insert_events_again:
  "\<forall>m \<in> set ms. lookup er_event_id (sm_event_id m) (rd_events d) \<noteq> None \<Longrightarrow> insert_events now ms d = Inr (d, 0)"
  by (induction ms) (auto simp: insert_event_def)

lemma lookup_None_image: "lookup key k rows = None \<longleftrightarrow> k \<notin> key ` set rows"
  by (auto simp: lookup_None)

text \<open>Whether storing a batch fails does not depend on the clock.\<close>

lemma insert_event_clock:
  assumes "er_event_id ` set (rd_events d2) = er_event_id ` set (rd_events d)" "rd_sessions d2 = rd_sessions d"
  shows "insert_event now m d = Inl e \<Longrightarrow> insert_event now2 m d2 = Inl e"
    and "insert_event now m d = Inr (d1, f) \<Longrightarrow> \<exists>d3. insert_event now2 m d2 = Inr (d3, f)
      \<and> er_event_id ` set (rd_events d3) = er_event_id ` set (rd_events d1) \<and> rd_sessions d3 = rd_sessions d1"
  using assms by (auto simp: insert_event_def event_row_of_def lookup_None_image split: if_splits)

lemma insert_events_clock:
  assumes "insert_events now ms d = Inl e" "er_event_id ` set (rd_events d2) = er_event_id ` set (rd_events d)"
    "rd_sessions d2 = rd_sessions d"
  shows "insert_events now2 ms d2 = Inl e"
  using assms
proof (induction ms arbitrary: d d2)
  case (Cons m ms)
  show ?case
  proof (cases "insert_event now m d")
    case (Inl err)
    then show ?thesis using Cons.prems(1) insert_event_clock(1) [OF Cons.prems(2,3) Inl] by simp
  next
    case (Inr x)
    obtain d1 f where x: "x = (d1, f)" by (cases x)
    have rest: "insert_events now ms d1 = Inl e" using Cons.prems(1) Inr x by (auto split: sum.splits prod.splits)
    obtain d3 where "insert_event now2 m d2 = Inr (d3, f)"
      "er_event_id ` set (rd_events d3) = er_event_id ` set (rd_events d1)" "rd_sessions d3 = rd_sessions d1"
      using insert_event_clock(2) [OF Cons.prems(2,3), of now m d1 f] Inr x by blast
    then show ?thesis using Cons.IH [OF rest] by simp
  qed
qed simp

section \<open>Stored domain facts\<close>

definition domain_covered :: "recorder_db \<Rightarrow> string \<times> time \<times> time \<Rightarrow> bool" where
  "domain_covered d = (\<lambda>(h, f, l). lookup dm_hostname h (rd_domains d) \<noteq> None
     \<and> (\<forall>r \<in> set (rd_domains d). dm_hostname r = h \<longrightarrow> dm_first_seen_at r \<le> f \<and> l \<le> dm_last_seen_at r))"

lemma seen_already:
  "dm_first_seen_at r \<le> f \<Longrightarrow> l \<le> dm_last_seen_at r \<Longrightarrow>
    r\<lparr>dm_first_seen_at := min (dm_first_seen_at r) f, dm_last_seen_at := max (dm_last_seen_at r) l\<rparr> = r"
  "sd_first_seen_at q \<le> f \<Longrightarrow> l \<le> sd_last_seen_at q \<Longrightarrow>
    q\<lparr>sd_first_seen_at := min (sd_first_seen_at q) f, sd_last_seen_at := max (sd_last_seen_at q) l\<rparr> = q"
  by (cases r, simp add: min_absorb1 max_absorb1) (cases q, simp add: min_absorb1 max_absorb1)

lemma upd_where_id: "(\<And>r. r \<in> set rows \<Longrightarrow> P r \<Longrightarrow> f r = r) \<Longrightarrow> upd_where P f rows = rows"
  by (induction rows) auto

lemma ball_upd_where: "(\<forall>r \<in> set (upd_where P f rows). Q r) \<longleftrightarrow> (\<forall>r \<in> set rows. Q (if P r then f r else r))"
  by (auto simp: set_upd_where)

lemma upsert_covered: "domain_covered d x \<Longrightarrow> upsert_domain x d = d"
  by (cases x) (auto simp: domain_covered_def upsert_domain_def seen_already upd_where_id split: option.split)

lemma upsert_covers: "domain_covered (upsert_domain x d) x"
proof (cases x)
  case (fields h f l)
  show ?thesis
  proof (cases "lookup dm_hostname h (rd_domains d)")
    case None
    then have "\<forall>r \<in> set (rd_domains d). dm_hostname r \<noteq> h" by (simp add: lookup_None)
    then show ?thesis using None by (auto simp: fields domain_covered_def upsert_domain_def lookup_append)
  next
    case (Some r)
    then show ?thesis
      by (simp add: fields domain_covered_def upsert_domain_def ball_upd_where lookup_upd_where)
  qed
qed

lemma upsert_keeps_covered: "domain_covered d y \<Longrightarrow> domain_covered (upsert_domain x d) y"
proof -
  assume y: "domain_covered d y"
  obtain h f l where x: "x = (h, f, l)" by (cases x)
  obtain h' f' l' where y': "y = (h', f', l')" by (cases y)
  show ?thesis
  proof (cases "lookup dm_hostname h (rd_domains d)")
    case None
    then have "h' \<noteq> h" using y by (auto simp: y' domain_covered_def)
    then show ?thesis using y None by (auto simp: x y' domain_covered_def upsert_domain_def lookup_append split: option.split)
  next
    case (Some r)
    then have rows: "rd_domains (upsert_domain x d) = upd_where (\<lambda>r. dm_hostname r = h)
        (\<lambda>r. r\<lparr>dm_first_seen_at := min (dm_first_seen_at r) f, dm_last_seen_at := max (dm_last_seen_at r) l\<rparr>) (rd_domains d)"
      by (simp add: x upsert_domain_def)
    show ?thesis using y
      by (simp add: y' domain_covered_def rows ball_upd_where lookup_upd_where min_le_iff_disj le_max_iff_disj)
  qed
qed

lemma upserts_keep_covered: "domain_covered d y \<Longrightarrow> domain_covered (fold upsert_domain xs d) y"
  by (induction xs arbitrary: d) (auto intro: upsert_keeps_covered)

lemma upserts_cover: "x \<in> set xs \<Longrightarrow> domain_covered (fold upsert_domain xs d) x"
  by (induction xs arbitrary: d) (auto intro: upsert_covers upserts_keep_covered)

lemma upserts_covered: "\<forall>x \<in> set xs. domain_covered d x \<Longrightarrow> fold upsert_domain xs d = d"
  by (induction xs) (auto simp: upsert_covered)

definition pair_covered :: "recorder_db \<Rightarrow> (string \<times> string) \<times> time \<times> time \<Rightarrow> bool" where
  "pair_covered d = (\<lambda>((s, h), f, l). \<exists>i. domain_id_of d h = Some i \<and> s \<in> set (rd_sessions d)
     \<and> list_ex (same_pair s i) (rd_session_domains d)
     \<and> (\<forall>r \<in> set (rd_session_domains d). same_pair s i r \<longrightarrow> sd_first_seen_at r \<le> f \<and> l \<le> sd_last_seen_at r))"

lemma upsert_pair_other:
  "domain_id_of (upsert_session_domain s i f l d) h = domain_id_of d h" "rd_sessions (upsert_session_domain s i f l d) = rd_sessions d"
  "rd_domains (upsert_session_domain s i f l d) = rd_domains d"
  by (simp_all add: upsert_session_domain_def domain_id_of_def)

lemma upsert_pair_rows:
  "rd_session_domains (upsert_session_domain s i f l d) =
     (if list_ex (same_pair s i) (rd_session_domains d)
      then upd_where (same_pair s i) (\<lambda>r. r\<lparr>sd_first_seen_at := min (sd_first_seen_at r) f, sd_last_seen_at := max (sd_last_seen_at r) l\<rparr>) (rd_session_domains d)
      else rd_session_domains d @ [\<lparr>sd_session_id = s, sd_domain_id = i, sd_first_seen_at = f, sd_last_seen_at = l\<rparr>])"
  by (simp add: upsert_session_domain_def)

definition pair_of :: "session_domain \<Rightarrow> string \<times> int" where
  "pair_of r = (sd_session_id r, sd_domain_id r)"

definition session_pairs :: "recorder_db \<Rightarrow> (string \<times> int) set" where
  "session_pairs d = set (map pair_of (rd_session_domains d))"

lemma same_pair_of: "same_pair s i r \<longleftrightarrow> pair_of r = (s, i)"
  by (simp add: same_pair_def pair_of_def)

lemma has_pair: "list_ex (same_pair s i) (rd_session_domains d) \<longleftrightarrow> (s, i) \<in> session_pairs d"
  by (force simp: list_ex_iff session_pairs_def same_pair_of)

lemma session_pairs_upsert: "session_pairs (upsert_session_domain s i f l d) = insert (s, i) (session_pairs d)"
proof (cases "list_ex (same_pair s i) (rd_session_domains d)")
  case True
  have "map pair_of (rd_session_domains (upsert_session_domain s i f l d)) = map pair_of (rd_session_domains d)"
    unfolding upsert_pair_rows if_P [OF True] by (rule map_upd_where_key) (simp add: pair_of_def)
  then show ?thesis using True by (auto simp: has_pair session_pairs_def simp del: list.set_map)
next
  case False
  then show ?thesis by (simp add: upsert_pair_rows session_pairs_def pair_of_def)
qed

lemma upsert_pair_covered:
  "list_ex (same_pair s i) (rd_session_domains d) \<Longrightarrow>
   \<forall>r \<in> set (rd_session_domains d). same_pair s i r \<longrightarrow> sd_first_seen_at r \<le> f \<and> l \<le> sd_last_seen_at r \<Longrightarrow>
   upsert_session_domain s i f l d = d"
  by (simp add: upsert_session_domain_def upd_where_id seen_already)

lemma upsert_pair_covers:
  assumes "domain_id_of d h = Some i" "s \<in> set (rd_sessions d)"
  shows "pair_covered (upsert_session_domain s i f l d) ((s, h), f, l)"
proof -
  have "\<forall>r \<in> set (rd_session_domains (upsert_session_domain s i f l d)). same_pair s i r \<longrightarrow> sd_first_seen_at r \<le> f \<and> l \<le> sd_last_seen_at r"
    by (auto simp: upsert_pair_rows ball_upd_where list_ex_iff)
  then show ?thesis using assms by (auto simp: pair_covered_def upsert_pair_other has_pair session_pairs_upsert)
qed

lemma upsert_pair_keeps:
  assumes "pair_covered d y"
  shows "pair_covered (upsert_session_domain s i f l d) y"
proof -
  obtain s' h' f' l' where y: "y = ((s', h'), f', l')" by (cases y) auto
  obtain j where j: "domain_id_of d h' = Some j" "s' \<in> set (rd_sessions d)" "list_ex (same_pair s' j) (rd_session_domains d)"
     "\<forall>r \<in> set (rd_session_domains d). same_pair s' j r \<longrightarrow> sd_first_seen_at r \<le> f' \<and> l' \<le> sd_last_seen_at r"
    using assms by (auto simp: y pair_covered_def)
  let ?e = "upsert_session_domain s i f l d"
  have "list_ex (same_pair s' j) (rd_session_domains ?e)"
    using j(3) by (simp add: has_pair session_pairs_upsert)
  moreover have "sd_first_seen_at r \<le> f' \<and> l' \<le> sd_last_seen_at r"
    if "r \<in> set (rd_session_domains ?e)" "same_pair s' j r" for r
  proof (cases "list_ex (same_pair s i) (rd_session_domains d)")
    case True
    have "\<forall>r \<in> set (rd_session_domains ?e). same_pair s' j r \<longrightarrow> sd_first_seen_at r \<le> f' \<and> l' \<le> sd_last_seen_at r"
      using j(4) True by (simp add: upsert_pair_rows ball_upd_where same_pair_def min_le_iff_disj le_max_iff_disj)
    then show ?thesis using that by blast
  next
    case False
    then have "(s', j) \<noteq> (s, i)" using j(3) by auto
    then have "r \<in> set (rd_session_domains d)" using that False by (auto simp: upsert_pair_rows same_pair_def)
    then show ?thesis using j(4) that(2) by blast
  qed
  ultimately show ?thesis using j(1,2) by (auto simp: y pair_covered_def upsert_pair_other)
qed

lemma upsert_pairs_cover:
  "upsert_session_domains rs d = Inr d' \<Longrightarrow> (\<forall>x \<in> set rs. pair_covered d' x) \<and> (\<forall>y. pair_covered d y \<longrightarrow> pair_covered d' y)"
proof (induction rs d rule: upsert_session_domains.induct)
  case (2 s hostname first latest rs d)
  obtain i where i: "domain_id_of d hostname = Some i" "upsert_session_domains rs (upsert_session_domain s i first latest d) = Inr d'"
    "s \<in> set (rd_sessions d)"
    using 2(2) by (auto split: option.splits if_splits)
  note ih = 2(1) [OF i(1) _ i(2)]
  have "pair_covered (upsert_session_domain s i first latest d) ((s, hostname), first, latest)" by (rule upsert_pair_covers [OF i(1,3)])
  then show ?case using ih i(3) upsert_pair_keeps by simp
qed simp

lemma upsert_pairs_covered: "\<forall>x \<in> set rs. pair_covered d x \<Longrightarrow> upsert_session_domains rs d = Inr d"
proof (induction rs)
  case (Cons x rs)
  obtain s h f l where x: "x = ((s, h), f, l)" by (cases x) auto
  then obtain i where "domain_id_of d h = Some i" "s \<in> set (rd_sessions d)" "upsert_session_domain s i f l d = d"
    using Cons.prems upsert_pair_covered by (fastforce simp: pair_covered_def)
  then show ?case using Cons by (simp add: x)
qed simp

text \<open>After the second transaction the facts are stored, and stay so while its tables stay.\<close>

definition facts_stored :: "domain_facts \<Rightarrow> recorder_db \<Rightarrow> bool" where
  "facts_stored fx d \<longleftrightarrow> fx_domains fx = [] \<or>
     (\<not> list_ex (\<lambda>(h, _). length h > 253) (fx_domains fx)
      \<and> (\<forall>x \<in> set (fx_domains fx). domain_covered d x) \<and> (\<forall>x \<in> set (fx_sessions fx). pair_covered d x)
      \<and> (\<forall>r \<in> set (rd_domains d). dm_id r \<in> the ` domain_id_of d ` fst ` set (fx_domains fx) \<and> domain_sessions d (dm_id r) > 0
            \<longrightarrow> dm_session_count r = domain_sessions d (dm_id r)))"

lemma recount_other:
  "rd_session_domains (recount ids d) = rd_session_domains d" "rd_sessions (recount ids d) = rd_sessions d"
  "domain_id_of (recount ids d) h = domain_id_of d h" "domain_sessions (recount ids d) i = domain_sessions d i"
  "rd_events (recount ids d) = rd_events d"
  by (simp_all add: recount_def domain_id_of_def domain_sessions_def lookup_upd_where option.map_comp comp_def if_distrib [of dm_id] cong: if_cong)

lemma recount_covered: "domain_covered (recount ids d) x \<longleftrightarrow> domain_covered d x"
  by (cases x) (simp add: domain_covered_def recount_def lookup_upd_where ball_upd_where if_distrib cong: if_cong)

lemma recount_pair_covered: "pair_covered (recount ids d) x \<longleftrightarrow> pair_covered d x"
  by (cases x) (auto simp: pair_covered_def recount_other)

lemma recount_counts:
  "r \<in> set (rd_domains (recount ids d)) \<Longrightarrow> dm_id r \<in> set ids \<Longrightarrow> domain_sessions d (dm_id r) > 0 \<Longrightarrow>
   dm_session_count r = domain_sessions d (dm_id r)"
  by (auto simp: recount_def set_upd_where)

lemma fact_hosts: "snd ` fst ` set (fx_sessions (domain_facts_of e ms)) \<subseteq> fst ` set (fx_domains (domain_facts_of e ms))"
proof -
  have "snd ` fst ` set (fx_sessions fx) \<subseteq> fst ` set (fx_domains fx) \<Longrightarrow>
      snd ` fst ` set (fx_sessions (fold (observe_fact e) ms fx)) \<subseteq> fst ` set (fx_domains (fold (observe_fact e) ms fx))" for fx
  proof (induction ms arbitrary: fx)
    case (Cons m ms)
    have keys: "fst ` set (widen k t xs) = insert k (fst ` set xs)" for k :: 'k and t xs
      by (simp add: widen_def Let_def split_beta dom_update)
    have "snd ` fst ` set (fx_sessions (observe_fact e m fx)) \<subseteq> fst ` set (fx_domains (observe_fact e m fx))"
      using Cons.prems by (auto simp: observe_fact_def keys split: option.split)
    then show ?case using Cons.IH by simp
  qed simp
  then show ?thesis by (simp add: domain_facts_of_def)
qed

lemma domain_ids_after:
  assumes "\<forall>x \<in> set (fx_domains fx). domain_covered d x" "h \<in> fst ` set (fx_domains fx)"
  shows "domain_id_of d h \<noteq> None"
  using assms by (fastforce simp: domain_covered_def domain_id_of_def)

lemma store_stores:
  assumes "store_domain_facts fx d = Inr d'"
  shows "facts_stored fx d'"
proof (cases "fx_domains fx = []")
  case True
  then show ?thesis by (simp add: facts_stored_def)
next
  case False
  let ?d1 = "fold upsert_domain (sort_key fst (fx_domains fx)) d"
  let ?ids = "map the (map (domain_id_of ?d1 \<circ> fst) (fx_domains fx))"
  obtain d2 where d2: "upsert_session_domains (sort_key fst (fx_sessions fx)) ?d1 = Inr d2" "d' = recount ?ids d2"
    and short: "\<not> list_ex (\<lambda>(h, _). length h > 253) (fx_domains fx)"
    using assms False by (cases "upsert_session_domains (sort_key fst (fx_sessions fx)) ?d1")
      (auto simp: store_domain_facts_def Let_def comp_def split: if_splits)
  have same: "rd_domains d2 = rd_domains ?d1" using upsert_session_domains_accounts [OF d2(1)] by simp
  then have ids: "domain_id_of d2 h = domain_id_of ?d1 h" "domain_covered d2 x = domain_covered ?d1 x" for h x
    by (simp_all add: domain_id_of_def domain_covered_def split: prod.split)
  have "\<forall>x \<in> set (fx_domains fx). domain_covered d' x"
    using upserts_cover [of _ "sort_key fst (fx_domains fx)" d] by (simp add: d2(2) recount_covered ids)
  moreover have "\<forall>x \<in> set (fx_sessions fx). pair_covered d' x"
    using upsert_pairs_cover [OF d2(1)] by (simp add: d2(2) recount_pair_covered)
  moreover have "dm_session_count r = domain_sessions d' (dm_id r)"
    if "r \<in> set (rd_domains d')" "dm_id r \<in> the ` domain_id_of d' ` fst ` set (fx_domains fx)" "domain_sessions d' (dm_id r) > 0" for r
  proof -
    have "domain_id_of d' = domain_id_of ?d1" by (simp add: fun_eq_iff d2(2) recount_other ids)
    then have "dm_id r \<in> set ?ids" using that(2) by (simp add: image_image)
    then show ?thesis using recount_counts that(1,3) by (simp add: d2(2) recount_other)
  qed
  ultimately show ?thesis using short by (simp add: facts_stored_def)
qed

lemma store_again:
  assumes "facts_stored fx d"
  shows "store_domain_facts fx d = Inr d"
proof (cases "fx_domains fx = []")
  case True
  then show ?thesis by (simp add: store_domain_facts_def)
next
  case False
  then have st: "\<not> list_ex (\<lambda>(h, _). length h > 253) (fx_domains fx)" "\<forall>x \<in> set (fx_domains fx). domain_covered d x"
      "\<forall>x \<in> set (fx_sessions fx). pair_covered d x"
      "\<forall>r \<in> set (rd_domains d). dm_id r \<in> the ` domain_id_of d ` fst ` set (fx_domains fx) \<and> domain_sessions d (dm_id r) > 0
            \<longrightarrow> dm_session_count r = domain_sessions d (dm_id r)"
    using assms by (simp_all add: facts_stored_def)
  have d1: "fold upsert_domain (sort_key fst (fx_domains fx)) d = d" using st(2) by (simp add: upserts_covered)
  have d2: "upsert_session_domains (sort_key fst (fx_sessions fx)) d = Inr d" using st(3) by (simp add: upsert_pairs_covered)
  have "recount (map the (map (domain_id_of d \<circ> fst) (fx_domains fx))) d = d"
    unfolding recount_def by (subst upd_where_id) (use st(4) in \<open>auto simp: image_image\<close>)
  then show ?thesis using False st(1) by (simp add: store_domain_facts_def d1 d2)
qed

text \<open>What the facts and their storage depend on.\<close>

definition same_domains :: "recorder_db \<Rightarrow> recorder_db \<Rightarrow> bool" where
  "same_domains d d' \<longleftrightarrow> rd_domains d' = rd_domains d \<and> rd_session_domains d' = rd_session_domains d
     \<and> rd_sessions d' = rd_sessions d \<and> rd_events d' = rd_events d"

lemma facts_stored_cong: "same_domains d d' \<Longrightarrow> facts_stored fx d \<Longrightarrow> facts_stored fx d'"
proof -
  assume s: "same_domains d d'" and f: "facts_stored fx d"
  have "domain_id_of d' = domain_id_of d" "domain_covered d' = domain_covered d" "domain_sessions d' = domain_sessions d"
    using s by (simp_all add: same_domains_def domain_id_of_def domain_covered_def domain_sessions_def fun_eq_iff)
  moreover have "pair_covered d' = pair_covered d"
    using s calculation(1) by (simp add: same_domains_def pair_covered_def fun_eq_iff)
  ultimately show ?thesis using s f by (simp add: facts_stored_def same_domains_def)
qed

section \<open>Projected attempts\<close>

text \<open>A row for which a projection has nothing left to do.\<close>

definition settled :: "(string \<times> int) list \<Rightarrow> string list \<Rightarrow> recorder_db \<Rightarrow> string \<Rightarrow> bool" where
  "settled ad sids d i \<longleftrightarrow> (\<forall>a. lookup aq_id i (rd_attempts d) = Some a \<longrightarrow>
     (\<forall>j. map_of ad i = Some j \<longrightarrow> aq_domain_id a = Some j \<and> j \<in> dm_id ` set (rd_domains d))
     \<and> (aq_cost_projected a \<or> aq_domain_id a = None \<or> aq_modeled_cost_units a = None)
     \<and> (i \<in> set sids \<longrightarrow> aq_finished_at a = None \<or> aq_command_cost_projected a))"

lemma write_same:
  assumes "distinct (map aq_id (rd_attempts d))" "a \<in> set (rd_attempts d)"
  shows "write_attempt (a, d) = d"
proof -
  have "upd_where (\<lambda>r. aq_id r = aq_id a) (\<lambda>_. a) (rd_attempts d) = rd_attempts d"
    by (rule upd_where_id) (metis assms lookup_distinct option.inject)
  then show ?thesis by (simp add: write_attempt_def)
qed

lemma project_settled:
  assumes keys: "distinct (map aq_id (rd_attempts d))" and a: "lookup aq_id i (rd_attempts d) = Some a" and s: "settled ad sids d i"
  shows "project_attempt ad sids a d = Inr d"
proof -
  have i: "aq_id a = i" "a \<in> set (rd_attempts d)" using lookup_Some [OF a] by auto
  have st: "\<forall>j. map_of ad i = Some j \<longrightarrow> aq_domain_id a = Some j \<and> j \<in> dm_id ` set (rd_domains d)"
    "aq_cost_projected a \<or> aq_domain_id a = None \<or> aq_modeled_cost_units a = None"
    "i \<in> set sids \<longrightarrow> aq_finished_at a = None \<or> aq_command_cost_projected a"
    using s a by (auto simp: settled_def)
  have a1: "(case map_of ad i of Some j \<Rightarrow> a\<lparr>aq_domain_id := Some j\<rparr> | None \<Rightarrow> a) = a"
  proof (cases "map_of ad i")
    case (Some j)
    then have "aq_domain_id a = Some j" using st(1) by blast
    then show ?thesis using Some by (cases a) simp
  qed simp
  have pc: "project_cost (a, d) = (a, d)" using st(2) by (auto simp: project_cost_def split: option.split)
  have ps: "i \<in> set sids \<Longrightarrow> project_command_summary (a, d) = Inr (a, d)"
    using st(3) by (auto simp: project_command_summary_def split: option.split)
  show ?thesis
    unfolding project_attempt_alt Let_def i(1) a1 pc prod.case
    using st(1) ps write_same [OF keys i(2)] by auto
qed

text \<open>What one projection leaves behind.\<close>

definition costs_settled :: "acquisition_attempt \<Rightarrow> bool" where
  "costs_settled a \<longleftrightarrow> aq_cost_projected a \<or> aq_domain_id a = None \<or> aq_modeled_cost_units a = None"

lemma project_cost_result:
  assumes "project_cost (a, d) = (b, e)"
  shows "costs_settled b \<and> aq_domain_id b = aq_domain_id a \<and> aq_id b = aq_id a \<and> rd_attempts e = rd_attempts d \<and> same_domains d e"
  using assms
  by (auto simp: project_cost_def costs_settled_def same_domains_def split: option.splits if_splits)

lemma project_cost_settled: "costs_settled a \<Longrightarrow> project_cost (a, d) = (a, d)"
  by (auto simp: project_cost_def costs_settled_def split: option.split)

lemma command_summary_result:
  assumes "project_command_summary (a, d) = Inr (b, e)" "costs_settled a"
  shows "(aq_finished_at b = None \<or> aq_command_cost_projected b) \<and> costs_settled b \<and> aq_domain_id b = aq_domain_id a
    \<and> aq_id b = aq_id a \<and> rd_attempts e = rd_attempts d \<and> same_domains d e"
  using assms
  by (auto simp: project_command_summary_def project_cost_settled Let_def same_domains_def costs_settled_def
      split: option.splits if_splits)

lemma same_domains_refl [simp]: "same_domains d d"
  by (simp add: same_domains_def)

lemma same_domains_trans: "same_domains d d1 \<Longrightarrow> same_domains d1 d2 \<Longrightarrow> same_domains d d2"
  by (simp add: same_domains_def)

lemma project_attempt_result:
  assumes run: "project_attempt ad sids a d = Inr d'"
  obtains c e where "d' = write_attempt (c, e)" "rd_attempts e = rd_attempts d" "same_domains d e" "aq_id c = aq_id a"
    "costs_settled c" "\<forall>j. map_of ad (aq_id a) = Some j \<longrightarrow> aq_domain_id c = Some j \<and> j \<in> dm_id ` set (rd_domains d)"
    "aq_id a \<in> set sids \<longrightarrow> aq_finished_at c = None \<or> aq_command_cost_projected c"
proof -
  define a1 where "a1 = (case map_of ad (aq_id a) of Some i \<Rightarrow> a\<lparr>aq_domain_id := Some i\<rparr> | None \<Rightarrow> a)"
  obtain a2 d2 where pc: "project_cost (a1, d) = (a2, d2)" by (cases "project_cost (a1, d)")
  note r2 = project_cost_result [OF pc]
  have dom: "\<forall>j. map_of ad (aq_id a) = Some j \<longrightarrow> aq_domain_id a1 = Some j" "aq_id a1 = aq_id a"
    by (simp_all add: a1_def split: option.split)
  have ex: "\<forall>j. map_of ad (aq_id a) = Some j \<longrightarrow> j \<in> dm_id ` set (rd_domains d)"
    using run by (auto simp: project_attempt_alt split: if_splits)
  show ?thesis
  proof (cases "aq_id a \<in> set sids")
    case False
    then have "d' = write_attempt (a2, d2)"
      using run ex unfolding project_attempt_alt Let_def a1_def [symmetric] pc prod.case by (simp split: if_splits)
    then show ?thesis using that [of a2 d2] r2 dom ex False by simp
  next
    case True
    then obtain c e where ce: "project_command_summary (a2, d2) = Inr (c, e)" "d' = write_attempt (c, e)"
      using run unfolding project_attempt_alt Let_def a1_def [symmetric] pc prod.case
      by (cases "project_command_summary (a2, d2)") (auto split: if_splits)
    then show ?thesis using that [of c e] command_summary_result [OF ce(1)] r2 dom ex same_domains_trans [of d d2 e] by simp
  qed
qed

lemma write_tables:
  "rd_attempts (write_attempt (c, e)) = upd_where (\<lambda>r. aq_id r = aq_id c) (\<lambda>_. c) (rd_attempts e)"
  "same_domains e (write_attempt (c, e))"
  by (simp_all add: write_attempt_def same_domains_def)

text \<open>Projecting an attempt settles it and leaves the others alone.\<close>

lemma project_attempt_settles:
  assumes a: "lookup aq_id i (rd_attempts d) = Some a" and run: "project_attempt ad sids a d = Inr d'"
  shows "settled ad sids d' i" and "k \<noteq> i \<Longrightarrow> settled ad sids d k \<Longrightarrow> settled ad sids d' k"
    and "same_domains d d'" and "map aq_id (rd_attempts d') = map aq_id (rd_attempts d)"
proof -
  have i: "aq_id a = i" using lookup_Some [OF a] by simp
  obtain c e where ce: "d' = write_attempt (c, e)" "rd_attempts e = rd_attempts d" "same_domains d e" "aq_id c = aq_id a"
    "costs_settled c" "\<forall>j. map_of ad (aq_id a) = Some j \<longrightarrow> aq_domain_id c = Some j \<and> j \<in> dm_id ` set (rd_domains d)"
    "aq_id a \<in> set sids \<longrightarrow> aq_finished_at c = None \<or> aq_command_cost_projected c"
    by (rule project_attempt_result [OF run])
  show dom: "same_domains d d'" using same_domains_trans [OF ce(3) write_tables(2)] by (simp add: ce(1))
  have rows: "rd_attempts d' = upd_where (\<lambda>r. aq_id r = i) (\<lambda>_. c) (rd_attempts d)"
    by (simp add: ce(1,2,4) write_tables i)
  have look: "lookup aq_id k (rd_attempts d') = (if k = i then Some c else lookup aq_id k (rd_attempts d))" for k
  proof -
    have "lookup aq_id k (rd_attempts d') = map_option (\<lambda>r. if aq_id r = i then c else r) (lookup aq_id k (rd_attempts d))"
      unfolding rows by (rule lookup_upd_where) (simp add: ce(4) i)
    then show ?thesis using a i by (cases "lookup aq_id k (rd_attempts d)") (auto dest: lookup_Some)
  qed
  show "settled ad sids d' i"
    using ce(5-7) dom by (simp add: settled_def look i costs_settled_def same_domains_def)
  show "settled ad sids d' k" if "k \<noteq> i" "settled ad sids d k"
    using that dom by (simp add: settled_def look same_domains_def)
  show "map aq_id (rd_attempts d') = map aq_id (rd_attempts d)"
    unfolding rows by (rule map_upd_where_key) (simp add: ce(4) i)
qed

lemma project_batch_settles:
  assumes "project_batch ad sids ids d = Inr d'"
  shows "(\<forall>i \<in> set ids. settled ad sids d' i) \<and> (\<forall>k. settled ad sids d k \<longrightarrow> settled ad sids d' k)
    \<and> same_domains d d' \<and> map aq_id (rd_attempts d') = map aq_id (rd_attempts d)"
  using assms
proof (induction ids arbitrary: d)
  case (Cons i ids)
  show ?case
  proof (cases "lookup aq_id i (rd_attempts d)")
    case None
    then have "settled ad sids d i" by (simp add: settled_def)
    then show ?thesis using Cons None by auto
  next
    case (Some a)
    then obtain d1 where d1: "project_attempt ad sids a d = Inr d1" "project_batch ad sids ids d1 = Inr d'"
      using Cons.prems by (auto split: sum.splits)
    note one = project_attempt_settles [OF Some d1(1)]
    have "settled ad sids d k \<Longrightarrow> settled ad sids d1 k" for k using one(1,2) by (cases "k = i") auto
    then show ?thesis using Cons.IH [OF d1(2)] one same_domains_trans by fastforce
  qed
qed simp

lemma project_batch_again:
  "distinct (map aq_id (rd_attempts d)) \<Longrightarrow> \<forall>i \<in> set ids. settled ad sids d i \<Longrightarrow> project_batch ad sids ids d = Inr d"
  by (induction ids) (auto simp: project_settled split: option.split)

lemma project_batches_settle:
  assumes "project_batches ad sids bs d = (d', None)"
  shows "(\<forall>b \<in> set bs. \<forall>i \<in> set b. settled ad sids d' i) \<and> (\<forall>k. settled ad sids d k \<longrightarrow> settled ad sids d' k)
    \<and> same_domains d d' \<and> map aq_id (rd_attempts d') = map aq_id (rd_attempts d)"
  using assms
proof (induction bs arbitrary: d)
  case (Cons b bs)
  obtain d1 where d1: "project_batch ad sids b d = Inr d1" "project_batches ad sids bs d1 = (d', None)"
    using Cons.prems by (auto split: sum.splits)
  show ?case using project_batch_settles [OF d1(1)] Cons.IH [OF d1(2)] same_domains_trans by auto
qed simp

lemma project_batches_again:
  assumes "distinct (map aq_id (rd_attempts d))" "project_batches ad sids pre d = (d', None)"
  shows "project_batches ad sids (pre @ post) d' = project_batches ad sids (pre @ post) d"
proof -
  note st = project_batches_settle [OF assms(2)]
  have dis: "distinct (map aq_id (rd_attempts d'))" using st assms(1) by simp
  have "\<forall>b \<in> set bs. \<forall>i \<in> set b. settled ad sids d' i \<Longrightarrow> project_batches ad sids (bs @ post) d' = project_batches ad sids post d'" for bs
    by (induction bs) (auto simp: project_batch_again [OF dis])
  moreover have "project_batches ad sids (pre @ post) d = project_batches ad sids post d'"
    using assms(2) by (induction pre arbitrary: d) (auto split: sum.splits)
  ultimately show ?thesis using st by simp
qed

text \<open>Where the projection stops, it has committed a prefix of its batches.\<close>

lemma project_batches_prefix:
  "\<exists>pre post. bs = pre @ post \<and> project_batches ad sids pre d = (fst (project_batches ad sids (take n bs) d), None)"
proof (induction bs arbitrary: d n)
  case (Cons b bs)
  show ?case
  proof (cases n)
    case 0
    then show ?thesis by (intro exI [of _ "[]"] exI [of _ "b # bs"]) simp
  next
    case (Suc k)
    show ?thesis
    proof (cases "project_batch ad sids b d")
      case (Inl e)
      then show ?thesis using Suc by (intro exI [of _ "[]"] exI [of _ "b # bs"]) simp
    next
      case (Inr d1)
      obtain pre post where "bs = pre @ post" "project_batches ad sids pre d1 = (fst (project_batches ad sids (take k bs) d1), None)"
        using Cons.IH by blast
      then show ?thesis using Suc Inr by (intro exI [of _ "b # pre"] exI [of _ post]) simp
    qed
  qed
qed simp

section \<open>Recording again\<close>

lemma attempt_domains_cong: "same_domains d d' \<Longrightarrow> attempt_domains_of fx d' = attempt_domains_of fx d"
  by (simp add: attempt_domains_of_def same_domains_def domain_id_of_def)

lemma store_keeps:
  assumes "store_domain_facts fx d = Inr d'"
  shows "rd_events d' = rd_events d" "rd_attempts d' = rd_attempts d"
proof -
  have ev: "rd_events (fold upsert_domain xs d) = rd_events d" for xs d
    by (induction xs arbitrary: d) (auto simp: upsert_domain_def split: option.split)
  show "rd_events d' = rd_events d"
    using assms ev upsert_session_domains_accounts
    by (cases "upsert_session_domains (sort_key fst (fx_sessions fx)) (fold upsert_domain (sort_key fst (fx_domains fx)) d)")
      (fastforce simp: store_domain_facts_def Let_def recount_other split: if_splits)+
  show "rd_attempts d' = rd_attempts d" using store_domain_facts_accounts [OF assms] by (simp add: same_books_def)
qed

lemma project_events_again:
  assumes dis: "distinct (map aq_id (rd_attempts d))"
  shows "project_events None e ms (fst (project_events stop e ms d)) = project_events None e ms d"
    and "rd_events (fst (project_events stop e ms d)) = rd_events d"
proof -
  let ?fx = "domain_facts_of e ms" and ?sids = "summary_attempt_ids ms"
  have both: "project_events None e ms (fst (project_events stop e ms d)) = project_events None e ms d
    \<and> rd_events (fst (project_events stop e ms d)) = rd_events d"
  proof (cases "ms = [] \<or> stop = Some 0")
    case True
    then show ?thesis by (simp add: project_events_def)
  next
    case going: False
    show ?thesis
    proof (cases "store_domain_facts ?fx d")
      case (Inl err)
      then show ?thesis using going by (simp add: project_events_def)
    next
      case (Inr d1)
      let ?ad = "attempt_domains_of ?fx d1"
      let ?bs = "attempt_batches ?ad ?sids"
      define n where "n = (case stop of None \<Rightarrow> length ?bs | Some n \<Rightarrow> n - 1)"
      let ?d2 = "fst (project_batches ?ad ?sids (take n ?bs) d1)"
      have stopped: "project_events stop e ms d = project_batches ?ad ?sids (take n ?bs) d1"
        using going Inr by (simp add: project_events_def Let_def n_def split: option.split)
      have full: "project_events None e ms d = project_batches ?ad ?sids ?bs d1"
        using going Inr by (simp add: project_events_def Let_def)
      obtain pre post where pp: "?bs = pre @ post" "project_batches ?ad ?sids pre d1 = (?d2, None)"
        using project_batches_prefix [of ?bs ?ad ?sids d1 n] by blast
      have dis1: "distinct (map aq_id (rd_attempts d1))" using dis store_keeps(2) [OF Inr] by simp
      have sd: "same_domains d1 ?d2" using project_batches_settle [OF pp(2)] by blast
      have again: "store_domain_facts ?fx ?d2 = Inr ?d2"
        by (rule store_again [OF facts_stored_cong [OF sd store_stores [OF Inr]]])
      have "project_events None e ms ?d2 = project_batches ?ad ?sids ?bs ?d2"
        using going again attempt_domains_cong [OF sd, of ?fx] by (simp add: project_events_def Let_def)
      also have "\<dots> = project_batches ?ad ?sids ?bs d1" 
        using project_batches_again [OF dis1 pp(2), of post] unfolding pp(1) [symmetric] .
      finally show ?thesis using sd store_keeps(1) [OF Inr] by (simp add: stopped full same_domains_def)
    qed
  qed
  then show "project_events None e ms (fst (project_events stop e ms d)) = project_events None e ms d"
    and "rd_events (fst (project_events stop e ms d)) = rd_events d" by blast+
qed

text \<open>C35: When the recorder dies between any two transactions of a batch, or a transaction fails, recording the
  batch again, at any later time, ends with the same database and the same error, if any, as recording it once
  without the interruption: no event is stored twice and nothing is projected twice. In particular a batch that is
  delivered again after it was recorded changes nothing.\<close>

theorem redelivery_is_harmless:
  assumes "distinct (map aq_id (rd_attempts d))" "stop \<noteq> Some 0"
  shows "record_events e later_on ms (fst (record_until stop e now ms d)) = record_events e now ms d"
proof (cases "insert_events now ms d")
  case (Inl err)
  then show ?thesis using insert_events_clock [OF Inl refl refl, of later_on] assms(2)
    by (simp add: record_events_def record_until_def)
next
  case (Inr x)
  obtain d1 n where x: "x = (d1, n)" by (cases x)
  have ins: "insert_events now ms d = Inr (d1, n)" using Inr x by simp
  let ?ms = "filter needs_projection ms"
  let ?d2 = "fst (project_events (map_option (\<lambda>n. n - 1) stop) e ?ms d1)"
  have "distinct (map aq_id (rd_attempts d1))"
    using assms(1) insert_events_tables [OF ins] by (simp add: same_books_def)
  note again = project_events_again [OF this, where e = e and ms = ?ms and stop = "map_option (\<lambda>n. n - 1) stop"]
  have "\<forall>m \<in> set ms. lookup er_event_id (sm_event_id m) (rd_events ?d2) \<noteq> None"
    using insert_events_stored [OF ins] again(2) by simp
  from insert_events_again [OF this] have "record_events e later_on ms ?d2 = project_events None e ?ms ?d2"
    by (simp add: record_events_def record_until_def)
  also have "\<dots> = record_events e now ms d"
    using again(1) by (simp add: record_events_def record_until_def ins)
  finally show ?thesis using assms(2) by (simp add: record_until_def ins)
qed

section \<open>A sample\<close>

text \<open>One session with one finished attempt, and the three events that close it.\<close>

definition sample_attempt :: acquisition_attempt where
  "sample_attempt =
     \<lparr>aq_id = ''a1'', aq_session_id = ''s1'', aq_ordinal = 1, aq_provider = BROWSERLESS, aq_instance_id = None,
      aq_provider_session_id = None, aq_resolved_settings = JObj [], aq_setting_sources = JObj [], aq_state = A_Completed,
      aq_queue_sequence = 1, aq_created_at = 10, aq_queued_at = None, aq_acquiring_at = None, aq_active_at = Some 20,
      aq_finished_at = Some 90, aq_provider_started_at = None, aq_provider_ended_at = None, aq_capacity_occupied_ms = None,
      aq_browser_connected_ms = Some 70, aq_provider_reported_ms = None, aq_chargeable_time_ms = Some 80, aq_cost_basis = None,
      aq_cost_rate = None, aq_terminal_reason = None, aq_domain_id = None, aq_modeled_cost_units = Some 1000,
      aq_command_summary = Some (JObj [(''methods'', JObj
        [(''Page.navigate'', JObj [(''count'', JInt 1), (''provider_latency_ms'', JInt 20)]),
         (''DOM.getDocument'', JObj [(''count'', JInt 2), (''provider_latency_ms'', JInt 10)])])]),
      aq_phase_summary = None, aq_command_cost_projected = False, aq_cost_projected = False\<rparr>"

definition sample_empty :: recorder_db where
  "sample_empty = \<lparr>rd_sessions = [], rd_attempts = [], rd_events = [], rd_domains = [], rd_session_domains = [],
     rd_command_stats = [], rd_domain_costs = [], rd_next_domain = 1\<rparr>"

definition sample_recorder :: recorder_db where
  "sample_recorder = sample_empty\<lparr>rd_sessions := [''s1''], rd_attempts := [sample_attempt]\<rparr>"

definition sample_messages :: "session_message list" where
  "sample_messages =
     [\<lparr>sm_event_id = ''e1'', sm_schema_version = 1, sm_event_type = NAVIGATION_RESPONSE, sm_session_id = ''s1'',
       sm_occurred_at = 30, sm_provider = Some BROWSERLESS, sm_attempt_id = Some ''a1'',
       sm_payload = [(''url'', JStr ''https://Shop.example/'')]\<rparr>,
      \<lparr>sm_event_id = ''e2'', sm_schema_version = 1, sm_event_type = COMMAND_SUMMARY, sm_session_id = ''s1'',
       sm_occurred_at = 91, sm_provider = Some BROWSERLESS, sm_attempt_id = Some ''a1'', sm_payload = []\<rparr>,
      \<lparr>sm_event_id = ''e3'', sm_schema_version = 1, sm_event_type = ATTEMPT_CLOSED, sm_session_id = ''s1'',
       sm_occurred_at = 92, sm_provider = Some BROWSERLESS, sm_attempt_id = Some ''a1'', sm_payload = []\<rparr>]"

lemma sample_distinct: "distinct (map aq_id (rd_attempts sample_recorder))"
  by (simp add: sample_recorder_def)

theorem redelivery_is_harmless_witness:
  "record_events plain_env 200 sample_messages (fst (record_until (Some 2) plain_env 100 sample_messages sample_recorder))
     = record_events plain_env 100 sample_messages sample_recorder
   \<and> length (rd_command_stats (fst (record_until (Some 2) plain_env 100 sample_messages sample_recorder))) = 0
   \<and> length (rd_command_stats (fst (record_events plain_env 100 sample_messages sample_recorder))) = 3"
proof -
  have "length (rd_command_stats (fst (record_until (Some 2) plain_env 100 sample_messages sample_recorder))) = 0"
    "length (rd_command_stats (fst (record_events plain_env 100 sample_messages sample_recorder))) = 3"
    by code_simp+
  then show ?thesis using redelivery_is_harmless [OF sample_distinct, of "Some 2" plain_env 200 sample_messages 100] by simp
qed

end
