(* ===== verification/Recorder_System.thy ===== *)
theory Recorder_System
  imports Recorder_Redelivery
begin

text \<open>
  The recorder in operation: what a recording, even one that is cut short, does to the accounts; the number of
  methods kept per provider; and that every finished attempt is accounted.
\<close>

section \<open>Methods per provider\<close>

definition exact_methods :: "provider_name \<Rightarrow> recorder_db \<Rightarrow> string set" where
  "exact_methods p d = Pair p -` stat_key ` set (rd_command_stats d) - {SESSION_OVERHEAD_METHOD, OTHER_COMMAND_METHOD}"

definition methods_fit :: "recorder_db \<Rightarrow> bool" where
  "methods_fit d \<longleftrightarrow> (\<forall>p. int (card (exact_methods p d)) \<le> MAX_RETAINED_METHODS - 1)"

lemma retained_keys: "map fst (retained_command_methods ms ex av) = ms"
  by (induction ms ex av rule: retained_command_methods.induct) auto

lemma retained_new:
  "0 \<le> av \<Longrightarrow> card (snd ` set (retained_command_methods ms ex av) - set ex - {OTHER_COMMAND_METHOD}) \<le> nat av"
proof (induction ms ex av rule: retained_command_methods.induct)
  case (2 m ms ex av)
  have other: "insert OTHER_COMMAND_METHOD X - set ex - {OTHER_COMMAND_METHOD} = X - set ex - {OTHER_COMMAND_METHOD}"
    "X - set (OTHER_COMMAND_METHOD # ex) - {OTHER_COMMAND_METHOD} = X - set ex - {OTHER_COMMAND_METHOD}" for X
    by auto
  consider (overhead) "m = SESSION_OVERHEAD_METHOD" | (known) "m \<noteq> SESSION_OVERHEAD_METHOD" "m \<in> set ex"
    | (room) "m \<noteq> SESSION_OVERHEAD_METHOD" "m \<notin> set ex" "av \<noteq> 0"
    | (full) "m \<noteq> SESSION_OVERHEAD_METHOD" "m \<notin> set ex" "av = 0" by blast
  then show ?case
  proof cases
    case overhead
    then have "snd ` set (retained_command_methods (m # ms) ex av) = insert OTHER_COMMAND_METHOD (snd ` set (retained_command_methods ms ex av))" by simp
    then show ?thesis using 2(1) [OF overhead 2(5)] by (simp only: other)
  next
    case known
    have "insert m X - set ex - {OTHER_COMMAND_METHOD} = X - set ex - {OTHER_COMMAND_METHOD}" for X using known by auto
    moreover have "snd ` set (retained_command_methods (m # ms) ex av) = insert m (snd ` set (retained_command_methods ms ex av))"
      using known by simp
    ultimately show ?thesis using 2(2) [OF known 2(5)] by (simp only:)
  next
    case room
    let ?R = "snd ` set (retained_command_methods ms (m # ex) (av - 1))"
    have pos: "0 \<le> av - 1" using room 2(5) by simp
    have "card (insert m ?R - set ex - {OTHER_COMMAND_METHOD}) \<le> card (insert m (?R - set (m # ex) - {OTHER_COMMAND_METHOD}))"
      by (intro card_mono) auto
    also have "\<dots> \<le> Suc (card (?R - set (m # ex) - {OTHER_COMMAND_METHOD}))" by (simp add: card_insert_if)
    also have "\<dots> \<le> Suc (nat (av - 1))" using 2(3) [OF room(1,2,3) pos] by simp
    also have "\<dots> = nat av" using pos by simp
    finally show ?thesis using room by simp
  next
    case full
    then have "snd ` set (retained_command_methods (m # ms) ex av)
        = insert OTHER_COMMAND_METHOD (snd ` set (retained_command_methods ms (OTHER_COMMAND_METHOD # ex) av))" by simp
    moreover have "\<not> av \<noteq> 0" using full by simp
    ultimately show ?thesis using 2(4) [OF full(1,2) _ 2(5)] by (simp only: other simp_thms)
  qed
qed simp

lemma usages_keys: "usages_of kvs = Some us \<Longrightarrow> fst ` set us \<subseteq> fst ` set kvs"
proof (induction kvs arbitrary: us rule: usages_of.induct)
  case (2 m v kvs)
  show ?case
  proof (cases "usage_of v")
    case None
    then have "fst ` set us \<subseteq> fst ` set kvs" using 2(1) [OF None] 2(3) by simp
    then show ?thesis by auto
  next
    case (Some u)
    then obtain w ws where w: "u = Some w" "usages_of kvs = Some ws" "us = (m, w) # ws" using 2(3) by (cases u) auto
    then have "fst ` set ws \<subseteq> fst ` set kvs" using 2(2) [OF Some w(1,2)] by simp
    then show ?thesis using w(3) by auto
  qed
qed simp

lemma upserted_keys:
  "stat_key ` set (rd_command_stats (fold upsert_command_cost rows d)) = stat_key ` set rows \<union> stat_key ` set (rd_command_stats d)"
  by (induction rows arbitrary: d) (auto simp: upsert_command_keys)

lemma stat_methods_exact: "set (stat_methods p d) - {OTHER_COMMAND_METHOD} = exact_methods p d"
  by (force simp: stat_methods_def exact_methods_def stat_key_def)

lemma finite_exact [simp]: "finite (exact_methods p d)"
  by (simp add: exact_methods_def finite_vimageI inj_on_def)

lemma retained_fit:
  assumes fit: "methods_fit d" and us: "usages_of (summary_methods (aq_command_summary a)) = Some us"
  shows "methods_fit (fold upsert_command_cost
    (command_cost_rows (retained_methods d (aq_provider a) (map fst (summary_methods (aq_command_summary a)))) us a t) d)"
    (is "methods_fit (fold upsert_command_cost ?rows d)")
  unfolding methods_fit_def
proof (intro allI)
  fix p
  let ?ms = "map fst (summary_methods (aq_command_summary a))"
  let ?q = "aq_provider a"
  let ?ret = "retained_methods d ?q ?ms"
  let ?e = "fold upsert_command_cost ?rows d"
  define existing where "existing = stat_methods ?q d"
  define av where "av = max 0 (MAX_RETAINED_METHODS - 1 - int (length (remdups (filter (\<lambda>m. m \<noteq> OTHER_COMMAND_METHOD) existing))))"
  have ret: "?ret = retained_command_methods ?ms existing av" by (simp add: retained_methods_def Let_def existing_def av_def)
  have fits: "int (card (exact_methods p d)) \<le> MAX_RETAINED_METHODS - 1" for p using fit by (simp add: methods_fit_def)
  show "int (card (exact_methods p ?e)) \<le> MAX_RETAINED_METHODS - 1"
  proof (cases "p = ?q")
    case False
    have "\<forall>r \<in> set ?rows. cc_provider r = ?q" using rows_ok_attempt by (simp add: rows_ok_def)
    then have "exact_methods p ?e = exact_methods p d"
      using False by (auto simp: exact_methods_def upserted_keys) (auto simp: stat_key_def)
    then show ?thesis using fits [of p] by simp
  next
    case True
    have "the (map_of ?ret m) \<in> snd ` set ?ret" if "m \<in> fst ` set us" for m
    proof -
      have "set (map fst ?ret) = set ?ms" unfolding ret retained_keys ..
      then have "fst ` set ?ret = fst ` set (summary_methods (aq_command_summary a))" by (simp only: list.set_map)
      then have "m \<in> fst ` set ?ret" using that usages_keys [OF us] by blast
      then obtain v where "map_of ?ret m = Some v" by (metis map_of_eq_None_iff not_None_eq)
      then show ?thesis by (force dest: map_of_SomeD)
    qed
    then have "(\<lambda>m. the (map_of ?ret m)) ` fst ` set us \<subseteq> snd ` set ?ret" by (rule image_subsetI)
    then have rows: "cc_method ` set ?rows \<subseteq> snd ` set ?ret \<union> {SESSION_OVERHEAD_METHOD}"
      by (intro order_trans [OF attempt_row_methods] Un_mono subset_refl)
    have "x \<in> exact_methods ?q d \<or> x \<in> snd ` set ?ret - set existing - {OTHER_COMMAND_METHOD}" if "x \<in> exact_methods ?q ?e" for x
    proof -
      have x: "x \<noteq> SESSION_OVERHEAD_METHOD" "x \<noteq> OTHER_COMMAND_METHOD"
        "(?q, x) \<in> stat_key ` set ?rows \<or> (?q, x) \<in> stat_key ` set (rd_command_stats d)"
        using that by (auto simp: exact_methods_def upserted_keys)
      have "x \<in> cc_method ` set ?rows" if "(?q, x) \<in> stat_key ` set ?rows" using that by (auto simp: stat_key_def)
      moreover have "x \<in> exact_methods ?q d" if "(?q, x) \<in> stat_key ` set (rd_command_stats d)"
        unfolding exact_methods_def using that x(1,2) by force
      moreover have "x \<in> exact_methods ?q d" if "x \<in> set existing"
        using that x(2) unfolding existing_def stat_methods_exact [symmetric] by blast
      ultimately show ?thesis using x rows by blast
    qed
    then have "exact_methods ?q ?e \<subseteq> exact_methods ?q d \<union> (snd ` set ?ret - set existing - {OTHER_COMMAND_METHOD})" by blast
    then have "card (exact_methods ?q ?e) \<le> card (exact_methods ?q d \<union> (snd ` set ?ret - set existing - {OTHER_COMMAND_METHOD}))"
      by (intro card_mono) simp_all
    also have "\<dots> \<le> card (exact_methods ?q d) + card (snd ` set ?ret - set existing - {OTHER_COMMAND_METHOD})" by (rule card_Un_le)
    also have "\<dots> \<le> card (exact_methods ?q d) + nat av"
      using retained_new [of av ?ms existing] by (simp add: ret av_def)
    finally have "int (card (exact_methods ?q ?e)) \<le> int (card (exact_methods ?q d)) + av" by (simp add: av_def)
    moreover have "length (remdups (filter (\<lambda>m. m \<noteq> OTHER_COMMAND_METHOD) existing)) = card (exact_methods ?q d)"
      unfolding existing_def stat_methods_exact [symmetric] length_remdups_card_conv
      by (rule arg_cong [where f = card]) auto
    ultimately show ?thesis using fits [of ?q] True by (simp add: av_def)
  qed
qed

lemma methods_fit_cong: "rd_command_stats d' = rd_command_stats d \<Longrightarrow> methods_fit d' = methods_fit d"
  by (simp add: methods_fit_def exact_methods_def)

lemma project_cost_stats: "rd_command_stats (snd (project_cost (a, d))) = rd_command_stats d"
  by (simp add: project_cost_def split: option.split)

lemma command_summary_fit:
  assumes "project_command_summary (a, d) = Inr (b, e)" "methods_fit d"
  shows "methods_fit e"
proof -
  obtain a1 d1 where pc: "project_cost (a, d) = (a1, d1)" by (cases "project_cost (a, d)")
  have fit: "methods_fit d1" using methods_fit_cong [OF project_cost_stats [of a d]] assms(2) by (simp add: pc)
  show ?thesis using assms fit retained_fit [OF fit, of a1]
    by (auto simp: project_command_summary_def pc Let_def split: option.splits if_splits)
qed

lemma project_attempt_fit:
  assumes "project_attempt ad sids a d = Inr d'" "methods_fit d"
  shows "methods_fit d'"
proof -
  define a1 where "a1 = (case map_of ad (aq_id a) of Some i \<Rightarrow> a\<lparr>aq_domain_id := Some i\<rparr> | None \<Rightarrow> a)"
  obtain a2 d2 where pc: "project_cost (a1, d) = (a2, d2)" by (cases "project_cost (a1, d)")
  have fit: "methods_fit d2" using methods_fit_cong [OF project_cost_stats [of a1 d]] assms(2) by (simp add: pc)
  have wr: "methods_fit (write_attempt (c, e)) = methods_fit e" for c e
    by (rule methods_fit_cong) (simp add: write_attempt_def)
  show ?thesis
    using assms(1) fit unfolding project_attempt_alt Let_def a1_def [symmetric] pc prod.case
    by (cases "project_command_summary (a2, d2)") (auto simp: wr dest: command_summary_fit split: if_splits)
qed

lemma project_batch_fit: "project_batch ad sids ids d = Inr d' \<Longrightarrow> methods_fit d \<Longrightarrow> methods_fit d'"
  by (induction ids arbitrary: d) (auto dest: project_attempt_fit split: option.splits sum.splits)

lemma same_books_fit: "same_books d d' \<Longrightarrow> methods_fit d \<Longrightarrow> methods_fit d'"
  using methods_fit_cong [of d' d] by (simp add: same_books_def)

lemma project_batches_fit: "methods_fit d \<Longrightarrow> methods_fit (fst (project_batches ad sids bs d))"
  by (induction bs arbitrary: d) (auto dest: project_batch_fit split: sum.split)

lemma record_fit:
  assumes "methods_fit d"
  shows "methods_fit (fst (record_until stop e now ms d))"
proof -
  have "methods_fit d1" if "insert_events now ms d = Inr (d1, n)" for d1 n
    using insert_events_tables [OF that] same_books_fit assms by blast
  moreover have "methods_fit (fst (project_events stop' e ms' d1))" if "methods_fit d1" for stop' ms' d1
  proof -
    have "methods_fit d2" if "store_domain_facts (domain_facts_of e ms') d1 = Inr d2" for d2
      using store_domain_facts_accounts [OF that] same_books_fit \<open>methods_fit d1\<close> by blast
    then show ?thesis using that by (auto simp: project_events_def Let_def intro: project_batches_fit split: sum.split)
  qed
  ultimately show ?thesis using assms by (auto simp: record_until_def split: sum.split)
qed

section \<open>Every finished attempt is accounted\<close>

lemma sample_bill: "priced sample_attempt" "counted (aq_command_summary sample_attempt)"
  by (simp_all add: priced_def counted_def sample_attempt_def or_zero_def summary_methods_def usage_of_def py_int_def jget_def)

lemma sample_keys: "keys_ok sample_recorder"
  using sample_bill by (simp add: keys_ok_def billable_def sample_recorder_def sample_empty_def)

lemma chunks_concat: "n \<noteq> 0 \<Longrightarrow> concat (chunks n xs) = xs"
proof (induction n xs rule: chunks.induct)
  case (1 n xs)
  then show ?case by (cases "xs = []") (subst chunks.simps; simp)+
qed

lemma attempt_batches_cover: "(\<exists>b \<in> set (attempt_batches ad sids). i \<in> set b) \<longleftrightarrow> i \<in> fst ` set ad \<union> set sids"
proof -
  have "concat (attempt_batches ad sids) = sort (remdups (map fst ad @ sids))"
    by (simp add: attempt_batches_def ATTEMPT_PROJECTION_BATCH_SIZE_def chunks_concat)
  then have "set (concat (attempt_batches ad sids)) = fst ` set ad \<union> set sids" by simp
  then show ?thesis by auto
qed

lemma summary_attempt_ids_iff:
  "i \<in> set (summary_attempt_ids ms) \<longleftrightarrow> (\<exists>m \<in> set ms. sm_event_type m \<in> set ATTEMPT_PROJECTION_EVENTS \<and> sm_attempt_id m = Some i)"
  unfolding summary_attempt_ids_def by (induction ms) (auto simp: List.map_filter_simps split: option.split)

lemma record_completes:
  assumes "record_events e now ms d = (d', None)" "i \<in> set (summary_attempt_ids (filter needs_projection ms))"
  obtains ad where "settled ad (summary_attempt_ids (filter needs_projection ms)) d' i"
proof -
  let ?ms = "filter needs_projection ms" and ?fx = "domain_facts_of e (filter needs_projection ms)"
  obtain d1 n where d1: "insert_events now ms d = Inr (d1, n)" "project_events None e ?ms d1 = (d', None)"
    using assms(1) by (auto simp: record_events_def record_until_def split: sum.splits prod.splits)
  have ne: "?ms \<noteq> []" using assms(2) by (auto simp: summary_attempt_ids_iff filter_empty_conv)
  obtain d2 where d2: "store_domain_facts ?fx d1 = Inr d2"
    "project_batches (attempt_domains_of ?fx d2) (summary_attempt_ids ?ms)
       (attempt_batches (attempt_domains_of ?fx d2) (summary_attempt_ids ?ms)) d2 = (d', None)"
    using d1(2) ne by (auto simp: project_events_def Let_def split: sum.splits)
  obtain b where "b \<in> set (attempt_batches (attempt_domains_of ?fx d2) (summary_attempt_ids ?ms))" "i \<in> set b"
    using attempt_batches_cover assms(2) by blast
  then show ?thesis using project_batches_settle [OF d2(2)] that by blast
qed

text \<open>When a batch is recorded without an error, every finished attempt that one of its closing events
  names is in the accounts: its cost per command is projected, and its cost per domain if its domain and its modelled
  cost are known.\<close>

theorem finished_attempts_accounted:
  assumes "keys_ok d" "record_events e now ms d = (d', None)"
    and "m \<in> set ms" "sm_event_type m \<in> {COMMAND_SUMMARY, ATTEMPT_CLOSED, ATTEMPT_FAILED}" "sm_attempt_id m = Some (aq_id a)"
    and "a \<in> set (rd_attempts d')" "aq_finished_at a \<noteq> None"
  shows "aq_command_cost_projected a
    \<and> (aq_domain_id a \<noteq> None \<and> aq_modeled_cost_units a \<noteq> None \<longrightarrow> aq_cost_projected a)"
proof -
  let ?sids = "summary_attempt_ids (filter needs_projection ms)"
  have "d' = fst (record_until None e now ms d)" using assms(2) by (simp add: record_events_def)
  then have "keys_ok d'" using record_posted [OF assms(1)] by simp
  then have look: "lookup aq_id (aq_id a) (rd_attempts d') = Some a"
    using assms(6) by (auto simp: keys_ok_def intro: lookup_distinct)
  have i: "aq_id a \<in> set ?sids"
    using assms(3-5) by (auto simp: summary_attempt_ids_iff needs_projection_def ATTEMPT_PROJECTION_EVENTS_def)
  obtain ad where "settled ad ?sids d' (aq_id a)" by (rule record_completes [OF assms(2) i])
  then show ?thesis using look i assms(7) by (auto simp: settled_def)
qed

theorem finished_attempts_accounted_witness:
  "case record_events plain_env 100 sample_messages sample_recorder of
     (d', err) \<Rightarrow> err = None \<and> map aq_command_cost_projected (rd_attempts d') = [True]
       \<and> map aq_cost_projected (rd_attempts d') = [True]"
proof -
  define d' where "d' = fst (record_events plain_env 100 sample_messages sample_recorder)"
  define a where "a = hd (rd_attempts d')"
  have e: "snd (record_events plain_env 100 sample_messages sample_recorder) = None"
    "length (rd_attempts (fst (record_events plain_env 100 sample_messages sample_recorder))) = 1"
    "(\<lambda>a. (aq_id a, aq_finished_at a, aq_domain_id a, aq_modeled_cost_units a))
       (hd (rd_attempts (fst (record_events plain_env 100 sample_messages sample_recorder)))) = (''a1'', Some 90, Some 1, Some 1000)"
    by code_simp+
  have d': "record_events plain_env 100 sample_messages sample_recorder = (d', None)"
    using e(1) by (simp add: d'_def prod_eq_iff)
  have a: "rd_attempts d' = [a]" using e(2) unfolding d'_def [symmetric] a_def by (cases "rd_attempts d'") auto
  have vals: "aq_id a = ''a1''" "aq_finished_at a = Some 90" "aq_domain_id a = Some 1" "aq_modeled_cost_units a = Some 1000"
    using e(3) unfolding d'_def [symmetric] a_def [symmetric] by simp_all
  have "aq_command_cost_projected a \<and> (aq_domain_id a \<noteq> None \<and> aq_modeled_cost_units a \<noteq> None \<longrightarrow> aq_cost_projected a)"
    by (rule finished_attempts_accounted [OF sample_keys d', where m = "sample_messages ! 1"])
      (simp_all add: sample_messages_def vals a)
  then show ?thesis using a vals by (simp add: d')
qed

section \<open>Properties\<close>

text \<open>C4: a recording, wherever it is cut short, adds to the tables of costs exactly what the attempts it marks as
  projected have used and cost. Given any tables with their primary keys, in which the bill of every finished attempt
  is priced and its usage counters are not negative: the rows of the attempts keep their identity and their bill and
  never lose a mark; for every provider the browser time and the cost of the command rows grow by those of the
  attempts newly marked for their commands, and the cost and the attempt count of the domain rows by those of the attempts
  newly marked for their cost. Shares are rounded down, but the overhead row takes what is left, so nothing is lost;
  an attempt marked before adds nothing, so nothing is counted twice. What the retention job or a gateway did to the
  tables before does not matter; the keys and the bills are as good afterwards.\<close>

theorem costs_attributed_exactly:
  assumes "distinct (map aq_id (rd_attempts d))" "distinct (map stat_key (rd_command_stats d))"
    "distinct (map cost_key (rd_domain_costs d))"
    and "\<And>a. a \<in> set (rd_attempts d) \<Longrightarrow> aq_finished_at a \<noteq> None \<Longrightarrow> priced a \<and> counted (aq_command_summary a)"
    and "d' = fst (record_until stop e now ms d)"
  shows "list_all2 projects (rd_attempts d) (rd_attempts d') \<and> keys_ok d'
    \<and> (\<Sum>r\<leftarrow>rd_command_stats d'. if cc_provider r = p then cc_attributed_browser_time_ms r else 0)
       = (\<Sum>r\<leftarrow>rd_command_stats d. if cc_provider r = p then cc_attributed_browser_time_ms r else 0)
         + newly aq_command_cost_projected (\<lambda>a. or_zero (aq_browser_connected_ms a)) p (rd_attempts d) (rd_attempts d')
    \<and> (\<Sum>r\<leftarrow>rd_command_stats d'. if cc_provider r = p then cc_attributed_cost_units r else 0)
       = (\<Sum>r\<leftarrow>rd_command_stats d. if cc_provider r = p then cc_attributed_cost_units r else 0)
         + newly aq_command_cost_projected (\<lambda>a. or_zero (aq_modeled_cost_units a)) p (rd_attempts d) (rd_attempts d')
    \<and> (\<Sum>r\<leftarrow>rd_domain_costs d'. if dc_provider r = p then dc_total_cost_units r else 0)
       = (\<Sum>r\<leftarrow>rd_domain_costs d. if dc_provider r = p then dc_total_cost_units r else 0)
         + newly aq_cost_projected (\<lambda>a. or_zero (aq_modeled_cost_units a)) p (rd_attempts d) (rd_attempts d')
    \<and> (\<Sum>r\<leftarrow>rd_domain_costs d'. if dc_provider r = p then dc_observed_attempt_count r else 0)
       = (\<Sum>r\<leftarrow>rd_domain_costs d. if dc_provider r = p then dc_observed_attempt_count r else 0)
         + newly aq_cost_projected (\<lambda>_. 1) p (rd_attempts d) (rd_attempts d')"
proof -
  have "keys_ok d" using assms(1-4) by (simp add: keys_ok_def billable_def)
  from record_posted [OF this, of stop e now ms] show ?thesis
    unfolding assms(5) posted_def browser_time.total_def cost_units.total_def domain_cost_total_def domain_attempt_count_def
    by blast
qed

theorem costs_attributed_exactly_witness:
  "(\<Sum>r\<leftarrow>rd_command_stats (fst (record_until None plain_env 100 sample_messages sample_recorder)).
      if cc_provider r = BROWSERLESS then cc_attributed_cost_units r else 0) = 1000"
proof -
  let ?d' = "fst (record_until None plain_env 100 sample_messages sample_recorder)"
  have new: "newly aq_command_cost_projected (\<lambda>a. or_zero (aq_modeled_cost_units a)) BROWSERLESS
      (rd_attempts sample_recorder) (rd_attempts ?d') = 1000"
    by code_simp
  have "(\<Sum>r\<leftarrow>rd_command_stats ?d'. if cc_provider r = BROWSERLESS then cc_attributed_cost_units r else 0)
      = (\<Sum>r\<leftarrow>rd_command_stats sample_recorder. if cc_provider r = BROWSERLESS then cc_attributed_cost_units r else 0) + 1000"
    unfolding new [symmetric]
    by (rule costs_attributed_exactly [OF _ _ _ _ refl, THEN conjunct2, THEN conjunct2, THEN conjunct2, THEN conjunct1])
      (use sample_bill in \<open>auto simp: sample_recorder_def sample_empty_def\<close>)
  then show ?thesis by (simp add: sample_recorder_def sample_empty_def)
qed

text \<open>A recording never leaves a provider with rows for more than 511 methods of its own, beside the row for all others
  and the one for the overhead, however many different method names its clients send.\<close>

theorem method_rows_bounded:
  assumes "methods_fit d" "d' = fst (record_until stop e now ms d)"
  shows "card (cc_method ` {r \<in> set (rd_command_stats d'). cc_provider r = p} - {SESSION_OVERHEAD_METHOD, OTHER_COMMAND_METHOD}) \<le> 511"
proof -
  have "cc_method ` {r \<in> set (rd_command_stats d'). cc_provider r = p} = Pair p -` stat_key ` set (rd_command_stats d')"
    by (force simp: stat_key_def)
  then show ?thesis
    using record_fit [OF assms(1), of stop e now ms]
    by (simp add: assms(2) methods_fit_def exact_methods_def MAX_RETAINED_METHODS_def)
qed

theorem method_rows_bounded_witness:
  "card (cc_method ` {r \<in> set (rd_command_stats (fst (record_until None plain_env 100 sample_messages sample_recorder))).
      cc_provider r = BROWSERLESS} - {SESSION_OVERHEAD_METHOD, OTHER_COMMAND_METHOD}) \<le> 511
   \<and> map cc_method (rd_command_stats (fst (record_until None plain_env 100 sample_messages sample_recorder)))
      = [''Page.navigate'', ''DOM.getDocument'', SESSION_OVERHEAD_METHOD]"
proof -
  have "map cc_method (rd_command_stats (fst (record_until None plain_env 100 sample_messages sample_recorder)))
      = [''Page.navigate'', ''DOM.getDocument'', SESSION_OVERHEAD_METHOD]" by code_simp
  moreover have fit: "methods_fit sample_recorder"
    by (simp add: methods_fit_def exact_methods_def MAX_RETAINED_METHODS_def sample_recorder_def sample_empty_def)
  ultimately show ?thesis
    using method_rows_bounded [OF fit refl, where p = BROWSERLESS and stop = None and e = plain_env and now = 100 and ms = sample_messages] by (intro conjI)
qed

end
