(* ===== verification/Event_Delivery.thy ===== *)
theory Event_Delivery
  imports Effects Recorder Method_Cache
begin

text \<open>
  How events travel (\<^verbatim>\<open>backend/workers/maintenance/__main__.py\<close>, \<^verbatim>\<open>backend/events/outbox.py\<close>,
  \<^verbatim>\<open>backend/workers/maintenance/retention.py\<close>): the loop that takes batches from the stream and hands them to the
  recorder, the outbox that publishes the rows the gateways wrote, the refill of a fresh stream, and the purge of old
  rows. The stream is the outside. A transaction of the recorder works on the database its answer carries: whatever other
  processes did to it before. Reading a message's envelope is an argument. Left out: metrics, logs.
\<close>

section \<open>Messages\<close>

record message =
  mg_sequence :: nat
  mg_subject :: string
  mg_delivered :: "nat option"
  mg_data :: "json option"

record dead_letter =
  dl_event_id :: string
  dl_schema_version :: string
  dl_subject :: string
  dl_reason :: string

text \<open>\<open>SessionEvent.from_json\<close>, \<open>str\<close> on decoded values, the URL functions the recorder uses, and the settings.\<close>

record delivery_env =
  de_from_json :: "json option \<Rightarrow> session_message option"
  de_str :: "json \<Rightarrow> string"
  de_url :: url_env
  de_max_deliver :: nat

datatype delivery_request =
    Fetch_Batch
  | Nak message
  | Publish_Dead_Letter dead_letter
  | Term message
  | Known_Sessions "string list"
  | Record "(session_message \<times> message) list"
  | Ack message
  | Consumer_Info
  | Pause

datatype delivery_answer =
    Okay
  | Messages "message list"
  | Sessions recorder_db
  | Starts recorder_db time
  | Dies recorder_db time nat exn
  | Fails exn

type_synonym 'x work = "(delivery_request, delivery_answer, unit, 'x) act"

fun failure_with :: "delivery_answer \<Rightarrow> exn" where
  "failure_with (Fails e) = e"
| "failure_with _ = Uncaught"

fun as_okay :: "delivery_answer \<Rightarrow> exn + unit" where
  "as_okay Okay = Inr ()"
| "as_okay a = Inl (failure_with a)"

fun as_messages :: "delivery_answer \<Rightarrow> exn + message list" where
  "as_messages (Messages ms) = Inr ms"
| "as_messages a = Inl (failure_with a)"

text \<open>The two operations of the recorder: a read of the sessions, and the recording, which can be interrupted after any
  number of its transactions.\<close>

fun as_known :: "string list \<Rightarrow> delivery_answer \<Rightarrow> exn + string list" where
  "as_known ids (Sessions d) = Inr (known_session_ids ids d)"
| "as_known ids a = Inl (failure_with a)"

fun as_recorded :: "delivery_env \<Rightarrow> (session_message \<times> message) list \<Rightarrow> delivery_answer \<Rightarrow> exn + unit" where
  "as_recorded w ms (Starts d now) = (case snd (record_events (de_url w) now (map fst ms) d) of None \<Rightarrow> Inr () | Some e \<Rightarrow> Inl Uncaught)"
| "as_recorded w ms (Dies d now n e) = Inl e"
| "as_recorded w ms a = Inl (failure_with a)"

section \<open>Rejecting a message\<close>

definition reject_message :: "delivery_env \<Rightarrow> message \<Rightarrow> string \<Rightarrow> string \<Rightarrow> string \<Rightarrow> unit work" where
  "reject_message w m event_id schema_version reason =
     (let delivered = (case mg_delivered m of Some n \<Rightarrow> n | None \<Rightarrow> 1)
      in if delivered < de_max_deliver w then call (Nak m) as_okay
         else and_then (call (Publish_Dead_Letter \<lparr>dl_event_id = event_id, dl_schema_version = schema_version,
                           dl_subject = mg_subject m, dl_reason = reason\<rparr>) as_okay) (\<lambda>_. call (Term m) as_okay))"

text \<open>What can still be said of a message that does not read as an event.\<close>

definition raw_field :: "delivery_env \<Rightarrow> message \<Rightarrow> string \<Rightarrow> string" where
  "raw_field w m field =
     (case mg_data m of
        Some (JObj kvs) \<Rightarrow> (case jget (JObj kvs) field of Some v \<Rightarrow> de_str w v | None \<Rightarrow> ''unknown'')
      | _ \<Rightarrow> ''unknown'')"

section \<open>The recorder's loop\<close>

fun read_batch :: "delivery_env \<Rightarrow> message list \<Rightarrow> (session_message \<times> message) list work" where
  "read_batch w [] = give []"
| "read_batch w (m # ms) =
     (case de_from_json w (mg_data m) of
        Some ev \<Rightarrow> and_then (read_batch w ms) (\<lambda>valid. give ((ev, m) # valid))
      | None \<Rightarrow> and_then (reject_message w m (raw_field w m ''event_id'') (raw_field w m ''schema_version'') ''validation_error'')
          (\<lambda>_. read_batch w ms))"

fun accept_known :: "delivery_env \<Rightarrow> string list \<Rightarrow> (session_message \<times> message) list \<Rightarrow> (session_message \<times> message) list work" where
  "accept_known w known [] = give []"
| "accept_known w known ((ev, m) # valid) =
     (if sm_session_id ev \<in> set known then and_then (accept_known w known valid) (\<lambda>accepted. give ((ev, m) # accepted))
      else and_then (reject_message w m (sm_event_id ev) (de_str w (JInt (sm_schema_version ev))) ''unknown_session'')
        (\<lambda>_. accept_known w known valid))"

fun acknowledge :: "message list \<Rightarrow> unit work" where
  "acknowledge [] = give ()"
| "acknowledge (m # ms) = and_then (call (Ack m) as_okay) (\<lambda>_. acknowledge ms)"

text \<open>\<open>except Exception\<close>, a pause and \<open>continue\<close>: \<open>None\<close>.\<close>

definition or_pause :: "'x work \<Rightarrow> 'x option work" where
  "or_pause m = catching (and_then m (\<lambda>x. give (Some x)))
     (\<lambda>e. if is_exception e then and_then (call Pause as_okay) (\<lambda>_. give None) else throw e)"

definition record_accepted :: "delivery_env \<Rightarrow> (session_message \<times> message) list \<Rightarrow> unit work" where
  "record_accepted w accepted =
     (if accepted = [] then call Consumer_Info as_okay
      else and_then (or_pause (call (Record accepted) (as_recorded w accepted))) (\<lambda>r. case r of
          None \<Rightarrow> give ()
        | Some _ \<Rightarrow> and_then (acknowledge (map snd accepted)) (\<lambda>_. call Consumer_Info as_okay)))"

definition record_valid :: "delivery_env \<Rightarrow> (session_message \<times> message) list \<Rightarrow> unit work" where
  "record_valid w valid =
     (if valid = [] then call Consumer_Info as_okay
      else let ids = remdups (map (sm_session_id \<circ> fst) valid)
           in and_then (or_pause (call (Known_Sessions ids) (as_known ids))) (\<lambda>k. case k of
              None \<Rightarrow> give ()
            | Some known \<Rightarrow> and_then (accept_known w known valid) (record_accepted w)))"

definition record_pass :: "delivery_env \<Rightarrow> unit work" where
  "record_pass w = and_then
     (catching (and_then (call Fetch_Batch as_messages) (\<lambda>ms. give (Some ms)))
        (\<lambda>e. if e = Timeout_Error then give None else throw e))
     (\<lambda>r. case r of None \<Rightarrow> give () | Some ms \<Rightarrow> and_then (read_batch w ms) (record_valid w))"

text \<open>The loop runs until something raises: here, for any number of rounds. Then the process connects again and
  starts anew, for any number of lives.\<close>

primrec record_loop :: "delivery_env \<Rightarrow> nat \<Rightarrow> unit work" where
  "record_loop w 0 = give ()"
| "record_loop w (Suc n) = and_then (record_pass w) (\<lambda>_. record_loop w n)"

section \<open>The outbox\<close>

text \<open>The event table with the identities of its rows, in their order. A publication is stored and acknowledged,
  stored although the acknowledgement is lost, or refused; the last two raise.\<close>

type_synonym event_table = "(int \<times> event_row) list"

datatype publication = Stored | Stored_Unconfirmed | Refused

definition pending_rows :: "string option \<Rightarrow> nat \<Rightarrow> int set \<Rightarrow> event_table \<Rightarrow> event_table" where
  "pending_rows session limit locked rows =
     take limit (filter (\<lambda>(i, r). er_published_at r = None \<and> i \<notin> locked
       \<and> (case session of None \<Rightarrow> True | Some s \<Rightarrow> er_session_id r = s)) rows)"

text \<open>The rows that were sent to the stream, the times written into them, and whether all went well.\<close>

fun publish_rows :: "(event_row \<Rightarrow> publication \<times> time) \<Rightarrow> event_table \<Rightarrow> event_table \<times> (int \<times> time) list \<times> bool" where
  "publish_rows outside [] = ([], [], True)"
| "publish_rows outside ((i, r) # rows) =
     (case outside r of
        (Stored, now) \<Rightarrow> (case publish_rows outside rows of (sent, marks, ok) \<Rightarrow> ((i, r) # sent, (i, now) # marks, ok))
      | (Stored_Unconfirmed, now) \<Rightarrow> ([(i, r)], [], False)
      | (Refused, now) \<Rightarrow> ([], [], False))"

definition mark_published :: "(int \<times> time) list \<Rightarrow> event_table \<Rightarrow> event_table" where
  "mark_published marks rows =
     map (\<lambda>(i, r). (i, case map_of marks i of Some now \<Rightarrow> r\<lparr>er_published_at := Some now\<rparr> | None \<Rightarrow> r)) rows"

text \<open>The table after the transaction, which rolls back when a publication raises, what reached the stream, and the
  count that is returned.\<close>

definition publish_pending ::
  "(event_row \<Rightarrow> publication \<times> time) \<Rightarrow> string option \<Rightarrow> nat \<Rightarrow> int set \<Rightarrow> event_table \<Rightarrow> event_table \<times> event_table \<times> nat option" where
  "publish_pending outside session limit locked rows =
     (case publish_rows outside (pending_rows session limit locked rows) of
        (sent, marks, ok) \<Rightarrow> if ok then (mark_published marks rows, sent, Some (length marks)) else (rows, sent, None))"

section \<open>Retention\<close>

text \<open>Which rows a batch takes is up to the database: any set \<open>picked\<close> of at most a batch of the eligible ones. Deleting
  a session deletes its events.\<close>

definition days :: "int \<Rightarrow> time" where
  "days n = n * 86400 * 1000000"

definition event_purgeable :: "time \<Rightarrow> int \<Rightarrow> event_row \<Rightarrow> bool" where
  "event_purgeable now event_days r \<longleftrightarrow> er_occurred_at r < now - days event_days \<and> er_published_at r \<noteq> None"

definition purge_events :: "time \<Rightarrow> int \<Rightarrow> nat \<Rightarrow> int list \<Rightarrow> event_table \<Rightarrow> event_table" where
  "purge_events now event_days batch picked rows =
     (let gone = take batch (filter (\<lambda>i. \<exists>(j, r) \<in> set rows. j = i \<and> event_purgeable now event_days r) picked)
      in filter (\<lambda>(i, r). i \<notin> set gone) rows)"

definition session_purgeable :: "time \<Rightarrow> int \<Rightarrow> gateway_session \<Rightarrow> bool" where
  "session_purgeable now session_days s \<longleftrightarrow> gs_state s \<in> {S_Closed, S_Failed}
     \<and> (case gs_closed_at s of Some t \<Rightarrow> t < now - days session_days | None \<Rightarrow> False)"

definition purge_sessions ::
  "time \<Rightarrow> int \<Rightarrow> nat \<Rightarrow> string list \<Rightarrow> gateway_session list \<Rightarrow> event_table \<Rightarrow> gateway_session list \<times> event_table" where
  "purge_sessions now session_days batch picked sessions rows =
     (let gone = take batch (filter (\<lambda>i. \<exists>s \<in> set sessions. gs_id s = i \<and> session_purgeable now session_days s) picked)
      in (filter (\<lambda>s. gs_id s \<notin> set gone) sessions, filter (\<lambda>(i, r). er_session_id r \<notin> set gone) rows))"

text \<open>Deleting a domain deletes what refers to it and unlinks its attempts.\<close>

definition purge_domains :: "time \<Rightarrow> int \<Rightarrow> nat \<Rightarrow> int list \<Rightarrow> recorder_db \<Rightarrow> recorder_db" where
  "purge_domains now domain_days batch picked d =
     (let gone = take batch (filter (\<lambda>i. \<exists>r \<in> set (rd_domains d). dm_id r = i \<and> dm_last_seen_at r < now - days domain_days) picked)
      in d\<lparr>rd_domains := filter (\<lambda>r. dm_id r \<notin> set gone) (rd_domains d),
           rd_session_domains := filter (\<lambda>r. sd_domain_id r \<notin> set gone) (rd_session_domains d),
           rd_domain_costs := filter (\<lambda>r. dc_domain_id r \<notin> set gone) (rd_domain_costs d),
           rd_attempts := map (\<lambda>a. case aq_domain_id a of
               Some i \<Rightarrow> if i \<in> set gone then a\<lparr>aq_domain_id := None\<rparr> else a | None \<Rightarrow> a) (rd_attempts d)\<rparr>)"

definition purge_method_cache :: "rat \<Rightarrow> int \<Rightarrow> nat \<Rightarrow> string list \<Rightarrow> postgres_cache \<Rightarrow> postgres_cache" where
  "purge_method_cache now method_cache_days batch picked c =
     (let gone = take batch (filter (\<lambda>k. \<exists>(j, r) \<in> set c. j = k \<and> cw_last_seen r < now - of_int (method_cache_days * 86400)) picked)
      in filter (\<lambda>(k, r). k \<notin> set gone) c)"

section \<open>Refilling a fresh stream\<close>

definition REHYDRATE_PAGE :: nat where "REHYDRATE_PAGE = 250"

definition retained_page :: "time \<Rightarrow> int \<Rightarrow> event_table \<Rightarrow> event_table" where
  "retained_page cutoff last_id rows = take REHYDRATE_PAGE (filter (\<lambda>(i, r). last_id < i \<and> cutoff \<le> er_occurred_at r) rows)"

text \<open>Other processes write to the table between the pages: \<open>tables n\<close> is the table at the \<open>n\<close>-th read. The result:
  the rows sent, in their order, and whether none was refused.\<close>

partial_function (option) rehydrate_from ::
  "(event_row \<Rightarrow> publication \<times> time) \<Rightarrow> (nat \<Rightarrow> event_table) \<Rightarrow> time \<Rightarrow> nat \<Rightarrow> int \<Rightarrow> event_table \<Rightarrow> (event_table \<times> bool) option" where
  "rehydrate_from outside tables cutoff n last_id published =
     (case retained_page cutoff last_id (tables n) of
        [] \<Rightarrow> Some (published, True)
      | row # rows \<Rightarrow>
          (case publish_rows outside (row # rows) of
             (sent, marks, ok) \<Rightarrow>
               if ok then rehydrate_from outside tables cutoff (Suc n) (fst (last (row # rows))) (published @ sent)
               else Some (published @ sent, False)))"

definition rehydrate ::
  "(event_row \<Rightarrow> publication \<times> time) \<Rightarrow> (nat \<Rightarrow> event_table) \<Rightarrow> time \<Rightarrow> int \<Rightarrow> (event_table \<times> bool) option" where
  "rehydrate outside tables now max_age = rehydrate_from outside tables (now - max_age * 1000000) 0 0 []"

end
