(* ===== verification/Event_Delivery_Proofs.thy ===== *)
theory Event_Delivery_Proofs
  imports Event_Delivery Recorder_Redelivery
begin

text \<open>
  What the delivery of events guarantees: a message is acknowledged only when its event is in the database, and dropped
  only after a dead letter; every message of a batch is settled; no event of a gateway is lost; a fresh stream is refilled
  completely. The monitor that follows a conversation here is its history.
\<close>

section \<open>Histories\<close>

type_synonym conversation = "(delivery_request \<times> delivery_answer) list"

interpretation dlv: monitor "\<lambda>q a t. t @ [(q, a)]" "\<lambda>q a. True" .

lemma history_fold: "fold (\<lambda>(q, a) t. t @ [(q, a)]) talk t = t @ talk"
  by (induction talk arbitrary: t) auto

lemma dlv_talk:
  assumes "dlv.leads P m (\<lambda>r t s. Q r t)" "P [] s0" "converse outside 0 (m s0) = (talk, r, s)"
  shows "Q r talk"
proof -
  have "dlv.every (\<lambda>t (r, s). Q r t) [] (m s0)" using assms(1,2) by (simp add: dlv.leads_def)
  from dlv.every_converse [OF this assms(3)] show ?thesis by (simp add: history_fold)
qed

definition deliveries :: "message \<Rightarrow> nat" where
  "deliveries m = (case mg_delivered m of Some n \<Rightarrow> n | None \<Rightarrow> 1)"

text \<open>The database after a recording, and the messages whose events are in it.\<close>

fun recorded_db :: "delivery_env \<Rightarrow> (session_message \<times> message) list \<Rightarrow> delivery_answer \<Rightarrow> recorder_db option" where
  "recorded_db w batch (Starts d now) = Some (fst (record_events (de_url w) now (map fst batch) d))"
| "recorded_db w batch (Dies d now n e) = Some (fst (record_until (Some n) (de_url w) now (map fst batch) d))"
| "recorded_db w batch a = None"

definition stored_by :: "delivery_env \<Rightarrow> delivery_request \<times> delivery_answer \<Rightarrow> message set" where
  "stored_by w x = (case x of
       (Record batch, a) \<Rightarrow> (case recorded_db w batch a of
            Some d \<Rightarrow> set (map snd (filter (\<lambda>(ev, m). lookup er_event_id (sm_event_id ev) (rd_events d) \<noteq> None) batch))
          | None \<Rightarrow> {})
     | _ \<Rightarrow> {})"

definition stored_in :: "delivery_env \<Rightarrow> conversation \<Rightarrow> message set" where
  "stored_in w t = (\<Union>x \<in> set t. stored_by w x)"

definition letters :: "conversation \<Rightarrow> nat" where
  "letters t = length (filter (\<lambda>(q, a). (case q of Publish_Dead_Letter x \<Rightarrow> a = Okay | _ \<Rightarrow> False)) t)"

definition terms :: "conversation \<Rightarrow> nat" where
  "terms t = length (filter (\<lambda>(q, a). (case q of Term m \<Rightarrow> True | _ \<Rightarrow> False)) t)"

text \<open>Which request may follow a history.\<close>

fun sound :: "delivery_env \<Rightarrow> conversation \<Rightarrow> delivery_request \<Rightarrow> bool" where
  "sound w t (Ack m) \<longleftrightarrow> m \<in> stored_in w t"
| "sound w t (Nak m) \<longleftrightarrow> deliveries m < de_max_deliver w"
| "sound w t (Term m) \<longleftrightarrow> de_max_deliver w \<le> deliveries m \<and> terms t < letters t"
| "sound w t q \<longleftrightarrow> True"

definition safe :: "delivery_env \<Rightarrow> conversation \<Rightarrow> bool" where
  "safe w t \<longleftrightarrow> terms t \<le> letters t \<and> (\<forall>i < length t. sound w (take i t) (fst (t ! i)))"

lemma counts_snoc [simp]:
  "letters (t @ [(q, a)]) = letters t + (case q of Publish_Dead_Letter x \<Rightarrow> if a = Okay then 1 else 0 | _ \<Rightarrow> 0)"
  "terms (t @ [(q, a)]) = terms t + (case q of Term m \<Rightarrow> 1 | _ \<Rightarrow> 0)"
  by (auto simp: letters_def terms_def split: delivery_request.split)

lemma stored_snoc [simp]: "stored_in w (t @ [x]) = stored_in w t \<union> stored_by w x"
  by (auto simp: stored_in_def)

lemma safe_nil [simp]: "safe w []"
  by (simp add: safe_def letters_def terms_def)

lemma safe_snoc: "safe w t \<Longrightarrow> sound w t q \<Longrightarrow> safe w (t @ [(q, a)])"
proof -
  assume t: "safe w t" and q: "sound w t q"
  have "\<forall>i < length (t @ [(q, a)]). sound w (take i (t @ [(q, a)])) (fst ((t @ [(q, a)]) ! i))"
    using t q by (auto simp: safe_def All_less_Suc nth_append)
  moreover have "terms (t @ [(q, a)]) \<le> letters (t @ [(q, a)])"
    using t q by (cases q) (auto simp: safe_def)
  ultimately show ?thesis by (simp only: safe_def)
qed

lemma safe_letters: "safe w t \<Longrightarrow> terms t \<le> letters t"
  by (simp add: safe_def)

lemma call_safe:
  "(\<And>t. P t \<Longrightarrow> safe w t \<and> sound w t q) \<Longrightarrow> dlv.leads (\<lambda>t s. P t) (call q read) (\<lambda>r t s. safe w t)"
  by (rule dlv.leads_call) (simp add: safe_snoc)

lemma reject_safe: "dlv.leads (\<lambda>t s. safe w t) (reject_message w m i v why) (\<lambda>r t s. safe w t)"
proof -
  have letter: "dlv.leads (\<lambda>t s. safe w t) (call (Publish_Dead_Letter x) as_okay)
      (\<lambda>r t s. safe w t \<and> (r = Inr () \<longrightarrow> terms t < letters t))" for x
    by (rule dlv.leads_call) (auto simp: safe_snoc less_Suc_eq_le safe_letters elim: as_okay.elims)
  show ?thesis unfolding reject_message_def deliveries_def [symmetric] Let_def
    by (auto intro!: call_safe dlv.leads_then [OF letter])
qed

lemma read_safe: "dlv.leads (\<lambda>t s. safe w t) (read_batch w ms) (\<lambda>r t s. safe w t)"
  by (induction ms) (auto intro!: dlv.leads_give dlv.leads_then [OF reject_safe] intro: dlv.leads_then split: option.split)

lemma accept_safe: "dlv.leads (\<lambda>t s. safe w t) (accept_known w known valid) (\<lambda>r t s. safe w t)"
  by (induction w known valid rule: accept_known.induct) (auto intro!: dlv.leads_give dlv.leads_then [OF reject_safe] intro: dlv.leads_then)

lemma acknowledge_safe: "dlv.leads (\<lambda>t s. safe w t \<and> set ms \<subseteq> stored_in w t) (acknowledge ms) (\<lambda>r t s. safe w t)"
proof (induction ms)
  case (Cons m ms)
  have "dlv.leads (\<lambda>t s. safe w t \<and> set (m # ms) \<subseteq> stored_in w t) (call (Ack m) as_okay) (\<lambda>r t s. safe w t \<and> set ms \<subseteq> stored_in w t)"
    by (rule dlv.leads_call) (auto simp: safe_snoc)
  then show ?case by (auto intro: dlv.leads_then Cons)
qed (auto intro: dlv.leads_give)

text \<open>A recording that raises nothing has stored every event of its batch.\<close>

lemma project_batches_same: "same_domains d (fst (project_batches ad sids bs d))"
proof -
  have attempt: "same_domains d d'" if "project_attempt ad sids a d = Inr d'" for a d d'
    using project_attempt_result [OF that] write_tables(2) same_domains_trans by metis
  have batch: "project_batch ad sids is d = Inr d' \<Longrightarrow> same_domains d d'" for "is" d d'
  proof (induction "is" arbitrary: d)
    case (Cons i "is")
    show ?case using Cons.prems
      by (auto split: option.splits sum.splits dest!: attempt Cons.IH intro: same_domains_trans)
  qed simp
  show ?thesis
  proof (induction bs arbitrary: d)
    case (Cons b bs)
    show ?case by (auto split: sum.split dest!: batch intro: same_domains_trans [OF _ Cons.IH])
  qed simp
qed

lemma project_events_kept: "rd_events (fst (project_events stop e ms d)) = rd_events d"
  using project_batches_same
  by (auto simp: project_events_def Let_def same_domains_def store_keeps split: sum.split option.split)

lemma recorded_stored:
  assumes "as_recorded w batch a = Inr ()"
  shows "snd ` set batch \<subseteq> stored_by w (Record batch, a)"
proof (cases a)
  case (Starts d now)
  let ?ms = "map fst batch"
  obtain d1 n where ins: "insert_events now ?ms d = Inr (d1, n)"
    using assms by (auto simp: Starts record_events_def record_until_def split: sum.splits prod.splits option.splits)
  have "rd_events (fst (record_events (de_url w) now ?ms d)) = rd_events d1"
    using project_events_kept ins by (simp add: record_events_def record_until_def)
  then show ?thesis using insert_events_stored [OF ins] by (fastforce simp: Starts stored_by_def image_iff)
qed (use assms in auto)

lemma pause_safe:
  assumes "dlv.leads (\<lambda>t s. safe w t) m (\<lambda>r t s. safe w t \<and> (\<forall>x. r = Inr x \<longrightarrow> R x t))"
  shows "dlv.leads (\<lambda>t s. safe w t) (or_pause m) (\<lambda>r t s. safe w t \<and> (\<forall>x. r = Inr (Some x) \<longrightarrow> R x t))"
proof -
  have "dlv.leads (\<lambda>t s. safe w t) (and_then m (\<lambda>x. give (Some x))) (\<lambda>r t s. safe w t \<and> (\<forall>x. r = Inr (Some x) \<longrightarrow> R x t))"
    by (rule dlv.leads_then [OF assms]) (auto intro: dlv.leads_give)
  moreover have "dlv.leads (\<lambda>t s. safe w t) (and_then (call Pause as_okay) (\<lambda>_. give None)) (\<lambda>r t s. safe w t \<and> (\<forall>x. r = Inr (Some x) \<longrightarrow> R x t))"
    by (rule dlv.leads_then [OF call_safe]) (auto intro: dlv.leads_give)
  ultimately show ?thesis unfolding or_pause_def
    by (elim dlv.leads_catching) (auto intro: dlv.leads_throw dlv.leads_weaken)
qed

lemma record_accepted_safe: "dlv.leads (\<lambda>t s. safe w t) (record_accepted w accepted) (\<lambda>r t s. safe w t)"
proof -
  have info: "dlv.leads (\<lambda>t s. safe w t) (call Consumer_Info as_okay) (\<lambda>r t s. safe w t)"
    by (rule call_safe) simp
  have "dlv.leads (\<lambda>t s. safe w t) (call (Record accepted) (as_recorded w accepted))
      (\<lambda>r t s. safe w t \<and> (\<forall>x. r = Inr x \<longrightarrow> snd ` set accepted \<subseteq> stored_in w t))"
    by (intro dlv.leads_call) (use recorded_stored in \<open>auto simp: safe_snoc image_subset_iff\<close>)
  note recorded = pause_safe [OF this]
  have "dlv.leads (\<lambda>t s. safe w t \<and> snd ` set accepted \<subseteq> stored_in w t)
      (and_then (acknowledge (map snd accepted)) (\<lambda>_. call Consumer_Info as_okay)) (\<lambda>r t s. safe w t)"
    by (rule dlv.leads_then [OF dlv.leads_weaken [OF acknowledge_safe]]) (use info in auto)
  then show ?thesis unfolding record_accepted_def using info
    by (auto intro!: dlv.leads_then [OF recorded] intro: dlv.leads_give dlv.leads_weaken split: option.split)
qed

lemma pass_safe: "dlv.leads (\<lambda>t s. safe w t) (record_pass w) (\<lambda>r t s. safe w t)"
proof -
  have info: "dlv.leads (\<lambda>t s. safe w t) (call Consumer_Info as_okay) (\<lambda>r t s. safe w t)"
    by (rule call_safe) simp
  have "dlv.leads (\<lambda>t s. safe w t) (call (Known_Sessions ids) (as_known ids)) (\<lambda>r t s. safe w t \<and> (\<forall>x. r = Inr x \<longrightarrow> True))" for ids
    using call_safe [of "safe w" w "Known_Sessions ids"] by simp
  note known = pause_safe [OF this]
  have rest: "dlv.leads (\<lambda>t s. safe w t) (and_then (accept_known w known valid) (record_accepted w)) (\<lambda>r t s. safe w t)" for known valid
    by (rule dlv.leads_then [OF accept_safe record_accepted_safe])
  have valid: "dlv.leads (\<lambda>t s. safe w t) (record_valid w valid) (\<lambda>r t s. safe w t)" for valid
    unfolding record_valid_def Let_def using info rest
    by (auto intro!: dlv.leads_then [OF known] intro: dlv.leads_give split: option.split)
  have fetched: "dlv.leads (\<lambda>t s. safe w t) (call Fetch_Batch as_messages) (\<lambda>r t s. safe w t)"
    by (rule call_safe) simp
  have fetch: "dlv.leads (\<lambda>t s. safe w t) (catching (and_then (call Fetch_Batch as_messages) (\<lambda>ms. give (Some ms)))
        (\<lambda>e. if e = Timeout_Error then give None else throw e)) (\<lambda>r t s. safe w t)"
    by (rule dlv.leads_catching, rule dlv.leads_then [OF fetched]) (auto intro: dlv.leads_give dlv.leads_throw)
  show ?thesis unfolding record_pass_def
    by (rule dlv.leads_then [OF fetch])
      (auto intro!: dlv.leads_give dlv.leads_then [OF read_safe] valid split: option.split)
qed

lemma loop_safe: "dlv.leads (\<lambda>t s. safe w t) (record_loop w n) (\<lambda>r t s. safe w t)"
  by (induction n) (auto intro: dlv.leads_give dlv.leads_then [OF pass_safe])

text \<open>C3: However long the recorder runs, and whatever the stream, the database and other processes do, with errors and
  cancellations at any point: a message is acknowledged only when an earlier recording has left its event in the event
  table; it is handed back for another delivery only while deliveries are left; and it is dropped only on its last delivery,
  with one dead letter accepted before for each message dropped.\<close>

theorem settled_only_when_safe:
  assumes "converse outside 0 (record_loop w n ()) = (talk, r, s)"
    and "talk = past @ (q, a) # future"
  shows "case q of
       Ack m \<Rightarrow> (\<exists>batch ev answer d. (Record batch, answer) \<in> set past \<and> (ev, m) \<in> set batch
                  \<and> recorded_db w batch answer = Some d \<and> lookup er_event_id (sm_event_id ev) (rd_events d) \<noteq> None)
     | Nak m \<Rightarrow> deliveries m < de_max_deliver w
     | Term m \<Rightarrow> de_max_deliver w \<le> deliveries m \<and> terms past < letters past
     | _ \<Rightarrow> True"
proof -
  have "safe w talk" by (rule dlv_talk [OF loop_safe _ assms(1)]) simp
  then have "\<forall>i < length talk. sound w (take i talk) (fst (talk ! i))" by (simp add: safe_def)
  moreover have "length past < length talk" using assms(2) by simp
  ultimately have "sound w (take (length past) talk) (fst (talk ! length past))" by blast
  then have "sound w past q" using assms(2) by simp
  then show ?thesis
    by (cases q) (fastforce simp: stored_in_def stored_by_def split: delivery_request.splits option.splits)+
qed

text \<open>A batch of three: an event, an event of a session that is gone, and something unreadable on its last delivery.\<close>

definition sample_delivery :: delivery_env where
  "sample_delivery = \<lparr>de_from_json = (\<lambda>v. if v = Some (JInt 1) then Some (sample_messages ! 0)
       else if v = Some (JInt 2) then Some ((sample_messages ! 0)\<lparr>sm_event_id := ''e9'', sm_session_id := ''s9''\<rparr>) else None),
     de_str = (\<lambda>v. ''1''), de_url = plain_env, de_max_deliver = 3\<rparr>"

definition sample_message :: "nat \<Rightarrow> nat \<Rightarrow> message" where
  "sample_message n tries = \<lparr>mg_sequence = n, mg_subject = ''events'', mg_delivered = Some tries, mg_data = Some (JInt (int n))\<rparr>"

definition sample_stream :: "nat \<Rightarrow> delivery_request \<Rightarrow> delivery_answer" where
  "sample_stream n q = (case q of
       Fetch_Batch \<Rightarrow> Messages [sample_message 1 1, sample_message 2 1, sample_message 3 3]
     | Known_Sessions ids \<Rightarrow> Sessions sample_recorder
     | Record batch \<Rightarrow> Starts sample_recorder 100
     | _ \<Rightarrow> Okay)"

lemma sample_round:
  "map fst (fst (converse sample_stream 0 (record_pass sample_delivery ()))) =
     [Fetch_Batch,
      Publish_Dead_Letter \<lparr>dl_event_id = ''unknown'', dl_schema_version = ''unknown'', dl_subject = ''events'', dl_reason = ''validation_error''\<rparr>,
      Term (sample_message 3 3), Known_Sessions [''s1'', ''s9''], Nak (sample_message 2 1),
      Record [(sample_messages ! 0, sample_message 1 1)], Ack (sample_message 1 1), Consumer_Info]"
  "fst (snd (converse sample_stream 0 (record_pass sample_delivery ()))) = Inr ()"
  by code_simp+

theorem settled_only_when_safe_witness:
  "\<exists>past a future. fst (converse sample_stream 0 (record_loop sample_delivery 1 ())) = past @ (Ack (sample_message 1 1), a) # future
     \<and> (\<exists>batch ev answer d. (Record batch, answer) \<in> set past \<and> (ev, sample_message 1 1) \<in> set batch
          \<and> recorded_db sample_delivery batch answer = Some d \<and> lookup er_event_id (sm_event_id ev) (rd_events d) \<noteq> None)"
proof -
  obtain talk r s where t: "converse sample_stream 0 (record_loop sample_delivery 1 ()) = (talk, r, s)"
    by (cases "converse sample_stream 0 (record_loop sample_delivery 1 ())") auto
  have "Ack (sample_message 1 1) \<in> set (map fst (fst (converse sample_stream 0 (record_loop sample_delivery 1 ()))))"
    by code_simp
  then have "Ack (sample_message 1 1) \<in> fst ` set talk" unfolding t fst_conv set_map .
  then obtain a where "(Ack (sample_message 1 1), a) \<in> set talk" by (metis imageE prod.collapse)
  then obtain past future where split: "talk = past @ (Ack (sample_message 1 1), a) # future" by (meson split_list)
  from settled_only_when_safe [OF t split] show ?thesis using split unfolding t fst_conv delivery_request.case by blast
qed

section \<open>Every message of a batch\<close>

definition unsettled :: "conversation \<Rightarrow> message set" where
  "unsettled t = {m. \<exists>ms. (Fetch_Batch, Messages ms) \<in> set t \<and> m \<in> set ms}
     - {m. (Ack m, Okay) \<in> set t \<or> (Nak m, Okay) \<in> set t \<or> (Term m, Okay) \<in> set t}"

definition unpaused :: "conversation \<Rightarrow> bool" where
  "unpaused t \<longleftrightarrow> (\<forall>a. (Pause, a) \<notin> set t)"

definition unacked :: "conversation \<Rightarrow> bool" where
  "unacked t \<longleftrightarrow> (\<forall>m a. (Ack m, a) \<notin> set t)"

definition waits_for :: "message set \<Rightarrow> conversation \<Rightarrow> bool" where
  "waits_for X t \<longleftrightarrow> unpaused t \<and> unacked t \<and> unsettled t \<subseteq> X"

definition well_ended :: "conversation \<Rightarrow> bool" where
  "well_ended t \<longleftrightarrow> (if unpaused t then unsettled t = {} else unacked t)"

lemmas settle_defs = unsettled_def unpaused_def unacked_def waits_for_def well_ended_def

lemma call_waits:
  assumes "\<And>x. q \<noteq> Ack x" "q \<noteq> Pause" "q \<noteq> Fetch_Batch"
  shows "dlv.leads (\<lambda>t s. waits_for X t) (call q read) (\<lambda>r t s. waits_for X t)"
  by (rule dlv.leads_call) (use assms in \<open>auto simp: settle_defs\<close>)

lemma okay_only: "as_okay a = Inr () \<longleftrightarrow> a = Okay"
  by (cases a) auto

lemma reject_waits:
  "dlv.leads (\<lambda>t s. waits_for (insert m X) t) (reject_message w m i v why) (\<lambda>r t s. r = Inr () \<longrightarrow> waits_for X t)"
proof -
  have letter: "dlv.leads (\<lambda>t s. waits_for (insert m X) t) (call (Publish_Dead_Letter x) as_okay) (\<lambda>r t s. waits_for (insert m X) t)" for x
    by (rule call_waits) auto
  have "dlv.leads (\<lambda>t s. waits_for (insert m X) t) (call q as_okay) (\<lambda>r t s. r = Inr () \<longrightarrow> waits_for X t)" if "q = Nak m \<or> q = Term m" for q
    by (rule dlv.leads_call) (use that in \<open>auto simp: settle_defs okay_only\<close>)
  then show ?thesis unfolding reject_message_def Let_def by (auto intro!: dlv.leads_then [OF letter])
qed

lemma read_waits:
  "dlv.leads (\<lambda>t s. waits_for (X \<union> set ms) t) (read_batch w ms) (\<lambda>r t s. \<forall>v. r = Inr v \<longrightarrow> waits_for (X \<union> snd ` set v) t)"
proof (induction ms arbitrary: X)
  case (Cons m ms)
  have "dlv.leads (\<lambda>t s. waits_for (X \<union> set (m # ms)) t) (and_then (read_batch w ms) (\<lambda>v. give ((ev, m) # v)))
      (\<lambda>r t s. \<forall>v. r = Inr v \<longrightarrow> waits_for (X \<union> snd ` set v) t)" for ev
    using Cons [of "insert m X"] by (auto elim!: dlv.leads_then intro: dlv.leads_give)
  moreover have "dlv.leads (\<lambda>t s. waits_for (X \<union> set (m # ms)) t) (and_then (reject_message w m i v why) (\<lambda>_. read_batch w ms))
      (\<lambda>r t s. \<forall>v. r = Inr v \<longrightarrow> waits_for (X \<union> snd ` set v) t)" for i v why
    using dlv.leads_then [OF reject_waits [of m "X \<union> set ms"] Cons [of X, THEN dlv.leads_weaken]] by simp
  ultimately show ?case by (auto split: option.split)
qed (auto intro: dlv.leads_give)

lemma accept_waits:
  "dlv.leads (\<lambda>t s. waits_for (X \<union> snd ` set valid) t) (accept_known w known valid) (\<lambda>r t s. \<forall>v. r = Inr v \<longrightarrow> waits_for (X \<union> snd ` set v) t)"
proof (induction valid arbitrary: X)
  case (Cons x valid)
  obtain ev m where x: "x = (ev, m)" by (cases x)
  have "dlv.leads (\<lambda>t s. waits_for (X \<union> snd ` set (x # valid)) t) (and_then (accept_known w known valid) (\<lambda>v. give ((ev, m) # v)))
      (\<lambda>r t s. \<forall>v. r = Inr v \<longrightarrow> waits_for (X \<union> snd ` set v) t)"
    using Cons [of "insert m X"] by (auto simp: x elim!: dlv.leads_then intro: dlv.leads_give)
  moreover have "dlv.leads (\<lambda>t s. waits_for (X \<union> snd ` set (x # valid)) t) (and_then (reject_message w m i v why) (\<lambda>_. accept_known w known valid))
      (\<lambda>r t s. \<forall>v. r = Inr v \<longrightarrow> waits_for (X \<union> snd ` set v) t)" for i v why
    using dlv.leads_then [OF reject_waits [of m "X \<union> snd ` set valid"] Cons [of X, THEN dlv.leads_weaken]] by (simp add: x)
  ultimately show ?case by (simp add: x)
qed (auto intro: dlv.leads_give)

lemma acknowledge_waits:
  "dlv.leads (\<lambda>t s. unpaused t \<and> unsettled t \<subseteq> set ms) (acknowledge ms) (\<lambda>r t s. r = Inr () \<longrightarrow> unpaused t \<and> unsettled t = {})"
proof (induction ms)
  case (Cons m ms)
  have "dlv.leads (\<lambda>t s. unpaused t \<and> unsettled t \<subseteq> set (m # ms)) (call (Ack m) as_okay) (\<lambda>r t s. r = Inr () \<longrightarrow> unpaused t \<and> unsettled t \<subseteq> set ms)"
    by (rule dlv.leads_call) (auto simp: settle_defs okay_only)
  then show ?case using Cons by (auto elim!: dlv.leads_then)
qed (auto intro: dlv.leads_give)

lemma pause_waits:
  assumes "dlv.leads (\<lambda>t s. waits_for X t) m (\<lambda>r t s. waits_for X t)"
  shows "dlv.leads (\<lambda>t s. waits_for X t) (or_pause m) (\<lambda>r t s. if r = Inr None then unacked t \<and> \<not> unpaused t else waits_for X t \<or> (\<exists>e. r = Inl e))"
proof -
  let ?Q = "\<lambda>r t s. if r = Inr None then unacked t \<and> \<not> unpaused t else waits_for X t \<or> (\<exists>e. r = Inl e)"
  have "dlv.leads (\<lambda>t s. waits_for X t) (and_then m (\<lambda>x. give (Some x))) (\<lambda>r t s. case r of Inr None \<Rightarrow> False | _ \<Rightarrow> waits_for X t)"
    by (rule dlv.leads_then [OF assms]) (auto intro: dlv.leads_give)
  moreover have "dlv.leads (\<lambda>t s. waits_for X t) (call Pause as_okay) (\<lambda>r t s. unacked t \<and> \<not> unpaused t)"
    by (rule dlv.leads_call) (auto simp: settle_defs)
  then have "dlv.leads (\<lambda>t s. waits_for X t) (and_then (call Pause as_okay) (\<lambda>_. give None)) ?Q"
    by (rule dlv.leads_then) (auto intro: dlv.leads_give)
  ultimately show ?thesis unfolding or_pause_def
    by (elim dlv.leads_catching) (auto intro: dlv.leads_throw split: option.splits)
qed

lemma pause_then:
  assumes "dlv.leads (\<lambda>t s. waits_for X t) m (\<lambda>r t s. waits_for X t)"
    and "\<And>x. dlv.leads (\<lambda>t s. waits_for X t) (k x) (\<lambda>r t s. r = Inr () \<longrightarrow> well_ended t)"
  shows "dlv.leads (\<lambda>t s. waits_for X t) (and_then (or_pause m) (\<lambda>r. case r of None \<Rightarrow> give () | Some x \<Rightarrow> k x))
    (\<lambda>r t s. r = Inr () \<longrightarrow> well_ended t)"
proof (rule dlv.leads_then [OF pause_waits [OF assms(1)]])
  fix r
  show "dlv.leads (\<lambda>t s. if Inr r = (Inr None :: exn + 'a option) then unacked t \<and> \<not> unpaused t else waits_for X t \<or> (\<exists>e. Inr r = (Inl e :: exn + 'a option)))
      (case r of None \<Rightarrow> give () | Some x \<Rightarrow> k x) (\<lambda>r t s. r = Inr () \<longrightarrow> well_ended t)"
    using assms(2) by (cases r) (auto intro: dlv.leads_give simp: well_ended_def)
qed auto

lemma info_ends: "dlv.leads (\<lambda>t s. unpaused t \<and> unsettled t = {}) (call Consumer_Info as_okay) (\<lambda>r t s. r = Inr () \<longrightarrow> well_ended t)"
  by (rule dlv.leads_call) (auto simp: settle_defs)

lemma record_accepted_waits:
  "dlv.leads (\<lambda>t s. waits_for (snd ` set accepted) t) (record_accepted w accepted) (\<lambda>r t s. r = Inr () \<longrightarrow> well_ended t)"
proof (cases "accepted = []")
  case True
  then show ?thesis unfolding record_accepted_def by (auto intro: dlv.leads_weaken [OF info_ends] simp: waits_for_def)
next
  case False
  let ?X = "snd ` set accepted"
  have storing: "dlv.leads (\<lambda>t s. waits_for ?X t) (call (Record accepted) (as_recorded w accepted)) (\<lambda>r t s. waits_for ?X t)"
    by (rule call_waits) auto
  have "dlv.leads (\<lambda>t s. waits_for ?X t) (acknowledge (map snd accepted)) (\<lambda>r t s. r = Inr () \<longrightarrow> unpaused t \<and> unsettled t = {})"
    by (rule dlv.leads_weaken [OF acknowledge_waits]) (auto simp: waits_for_def)
  then have "dlv.leads (\<lambda>t s. waits_for ?X t) (and_then (acknowledge (map snd accepted)) (\<lambda>_. call Consumer_Info as_okay))
      (\<lambda>r t s. r = Inr () \<longrightarrow> well_ended t)"
    by (rule dlv.leads_then) (use info_ends in auto)
  then show ?thesis unfolding record_accepted_def using False by (simp add: pause_then [OF storing])
qed

lemma record_valid_waits:
  "dlv.leads (\<lambda>t s. waits_for (snd ` set valid) t) (record_valid w valid) (\<lambda>r t s. r = Inr () \<longrightarrow> well_ended t)"
proof (cases "valid = []")
  case True
  then show ?thesis unfolding record_valid_def by (auto intro: dlv.leads_weaken [OF info_ends] simp: waits_for_def)
next
  case False
  let ?X = "snd ` set valid"
  have ask: "dlv.leads (\<lambda>t s. waits_for ?X t) (call (Known_Sessions ids) (as_known ids)) (\<lambda>r t s. waits_for ?X t)" for ids
    by (rule call_waits) auto
  have accept: "dlv.leads (\<lambda>t s. waits_for ?X t) (accept_known w known valid) (\<lambda>r t s. \<forall>v. r = Inr v \<longrightarrow> waits_for (snd ` set v) t)" for known
    using accept_waits [of "{}" valid w known] by simp
  have "dlv.leads (\<lambda>t s. waits_for ?X t) (and_then (accept_known w known valid) (record_accepted w)) (\<lambda>r t s. r = Inr () \<longrightarrow> well_ended t)" for known
    by (rule dlv.leads_then [OF accept]) (use record_accepted_waits in auto)
  then show ?thesis unfolding record_valid_def Let_def using False by (simp add: pause_then [OF ask])
qed

lemma pass_settles: "dlv.leads (\<lambda>t s. t = []) (record_pass w) (\<lambda>r t s. r = Inr () \<longrightarrow> well_ended t)"
proof -
  let ?R = "\<lambda>r t s. \<forall>ms. r = Inr (Some ms) \<longrightarrow> waits_for (set ms) t"
  have start: "dlv.leads (\<lambda>t s. t = []) (call Fetch_Batch as_messages) (\<lambda>r t s. (\<forall>ms. r = Inr ms \<longrightarrow> waits_for (set ms) t) \<and> ((\<exists>e. r = Inl e) \<longrightarrow> waits_for {} t))"
    by (rule dlv.leads_call) (auto simp: settle_defs elim: as_messages.elims)
  have "dlv.leads (\<lambda>t s. t = []) (and_then (call Fetch_Batch as_messages) (\<lambda>ms. give (Some ms))) (\<lambda>r t s. ?R r t s \<and> ((\<forall>ms. r \<noteq> Inr (Some ms)) \<longrightarrow> waits_for {} t))"
    by (rule dlv.leads_then [OF start]) (auto intro: dlv.leads_give)
  then have fetch: "dlv.leads (\<lambda>t s. t = []) (catching (and_then (call Fetch_Batch as_messages) (\<lambda>ms. give (Some ms)))
        (\<lambda>e. if e = Timeout_Error then give None else throw e)) (\<lambda>r t s. ?R r t s \<and> (r = Inr None \<longrightarrow> waits_for {} t))"
    by (rule dlv.leads_catching) (auto intro: dlv.leads_give dlv.leads_throw)
  have "dlv.leads (\<lambda>t s. waits_for (set ms) t) (read_batch w ms) (\<lambda>r t s. \<forall>v. r = Inr v \<longrightarrow> waits_for (snd ` set v) t)" for ms
    using read_waits [of "{}" ms w] by simp
  then have rest: "dlv.leads (\<lambda>t s. waits_for (set ms) t) (and_then (read_batch w ms) (record_valid w)) (\<lambda>r t s. r = Inr () \<longrightarrow> well_ended t)" for ms
    by (rule dlv.leads_then) (use record_valid_waits in auto)
  show ?thesis unfolding record_pass_def
  proof (rule dlv.leads_then [OF fetch])
    fix r
    show "dlv.leads (\<lambda>t s. (\<forall>ms. Inr r = (Inr (Some ms) :: exn + message list option) \<longrightarrow> waits_for (set ms) t) \<and> (Inr r = (Inr None :: exn + message list option) \<longrightarrow> waits_for {} t))
        (case r of None \<Rightarrow> give () | Some ms \<Rightarrow> and_then (read_batch w ms) (record_valid w)) (\<lambda>r t s. r = Inr () \<longrightarrow> well_ended t)"
      by (cases r) (auto intro: dlv.leads_give dlv.leads_weaken [OF rest] simp: well_ended_def waits_for_def)
  qed auto
qed

text \<open>C37: A round of the recorder that ends without an error and without a pause has settled every message it was given:
  each was acknowledged, handed back, or dropped, and the stream has confirmed it. A round that paused, because the
  database refused, has acknowledged nothing.\<close>

theorem round_settles_batch:
  assumes "converse outside 0 (record_pass w ()) = (talk, Inr (), s)"
  shows "if \<exists>a. (Pause, a) \<in> set talk then \<forall>m a. (Ack m, a) \<notin> set talk
         else \<forall>ms m. (Fetch_Batch, Messages ms) \<in> set talk \<and> m \<in> set ms \<longrightarrow>
             (Ack m, Okay) \<in> set talk \<or> (Nak m, Okay) \<in> set talk \<or> (Term m, Okay) \<in> set talk"
proof -
  have "well_ended talk" using dlv_talk [OF pass_settles _ assms] by simp
  then show ?thesis by (auto simp: settle_defs split: if_splits)
qed

theorem round_settles_batch_witness:
  "\<exists>talk s. converse sample_stream 0 (record_pass sample_delivery ()) = (talk, Inr (), s)
     \<and> (\<forall>n \<in> {1, 2}. (Ack (sample_message n 1), Okay) \<in> set talk \<or> (Nak (sample_message n 1), Okay) \<in> set talk
           \<or> (Term (sample_message n 1), Okay) \<in> set talk)"
proof -
  obtain talk s where t: "converse sample_stream 0 (record_pass sample_delivery ()) = (talk, Inr (), s)"
    using sample_round(2) by (metis prod.collapse)
  have "Pause \<notin> set (map fst talk)" using sample_round(1) by (simp add: t)
  then have "\<not> (\<exists>a. (Pause, a) \<in> set talk)" by force
  moreover have "(Fetch_Batch, Messages [sample_message 1 1, sample_message 2 1, sample_message 3 3]) \<in> set talk"
  proof -
    have "hd (fst (converse sample_stream 0 (record_pass sample_delivery ()))) =
        (Fetch_Batch, Messages [sample_message 1 1, sample_message 2 1, sample_message 3 3])" by code_simp
    moreover have "talk \<noteq> []" using sample_round(1) by (auto simp: t)
    ultimately show ?thesis by (cases talk) (auto simp: t)
  qed
  ultimately have "\<forall>m \<in> set [sample_message 1 1, sample_message 2 1, sample_message 3 3].
      (Ack m, Okay) \<in> set talk \<or> (Nak m, Okay) \<in> set talk \<or> (Term m, Okay) \<in> set talk"
    using round_settles_batch [OF t] by meson
  then show ?thesis using t by (intro exI [of _ talk] exI [of _ s]) (simp only: set_simps ball_simps simp_thms)
qed

end
