(* ===== verification/Event_Outbox.thy ===== *)
theory Event_Outbox
  imports Event_Delivery
begin

text \<open>
  The life of an event row: written by a gateway or by the recorder, published by the outbox, refilled into a fresh
  stream, purged. The transactions of all processes interleave in any order; ghost fields remember what was written and
  which sessions were purged.
\<close>

section \<open>The outbox\<close>

lemma published_prefix:
  "publish_rows outside rows = (sent, marks, ok) \<Longrightarrow>
   (\<exists>rest. rows = sent @ rest) \<and> (ok \<longrightarrow> sent = rows \<and> marks = map (\<lambda>(i, r). (i, snd (outside r))) rows)"
  by (induction rows arbitrary: sent marks ok) (auto split: prod.splits publication.splits)

lemma publish_all: "\<forall>r. fst (outside r) = Stored \<Longrightarrow> publish_rows outside rows = (rows, map (\<lambda>(i, r). (i, snd (outside r))) rows, True)"
proof (induction rows)
  case (Cons x rows)
  obtain i r now where x: "x = (i, r)" and r: "outside r = (Stored, now)"
    using Cons.prems by (cases x, metis prod.collapse)
  then show ?case using Cons by simp
qed simp

definition unpublished :: "event_table \<Rightarrow> event_table" where
  "unpublished rows = filter (\<lambda>(i, r). er_published_at r = None) rows"

lemma pending_all: "pending_rows None limit {} rows = take limit (unpublished rows)"
  by (simp add: pending_rows_def unpublished_def case_prod_unfold)

lemma pending_subset: "set (pending_rows session limit locked rows) \<subseteq> set (unpublished rows)"
  unfolding pending_rows_def unpublished_def using set_take_subset by fastforce

lemma marked_ids [simp]: "map fst (mark_published marks rows) = map fst rows"
  by (simp add: mark_published_def case_prod_unfold)

lemma marked_in:
  assumes "(i, r) \<in> set (mark_published marks rows)"
  obtains r' where "(i, r') \<in> set rows" "er_event_id r = er_event_id r'" "i \<notin> fst ` set marks \<Longrightarrow> r = r'"
proof -
  obtain r' where r': "(i, r') \<in> set rows" "r = (case map_of marks i of Some now \<Rightarrow> r'\<lparr>er_published_at := Some now\<rparr> | None \<Rightarrow> r')"
    using assms by (auto simp: mark_published_def)
  show ?thesis
  proof (cases "map_of marks i")
    case None
    then show ?thesis using that [of r'] r' by simp
  next
    case (Some now)
    then have "i \<in> fst ` set marks" by (metis map_of_eq_None_iff option.distinct(1))
    then show ?thesis using that [of r'] r' Some by simp
  qed
qed

lemma marked_keeps: "(i, r) \<in> set rows \<Longrightarrow> i \<notin> fst ` set marks \<Longrightarrow> (i, r) \<in> set (mark_published marks rows)"
proof -
  assume r: "(i, r) \<in> set rows" and "i \<notin> fst ` set marks"
  then have "map_of marks i = None" by (simp add: map_of_eq_None_iff)
  with r show ?thesis by (auto simp: mark_published_def intro: rev_image_eqI)
qed

section \<open>The system\<close>

record event_system =
  es_sessions :: "gateway_session list"
  es_events :: event_table
  es_stream :: "string list"
  es_written :: event_table
  es_purged :: "gateway_session list"

datatype event_label =
    Gateway_Writes int event_row
  | Recorder_Writes int event_row
  | Sessions_Move "gateway_session list"
  | Outbox "event_row \<Rightarrow> publication \<times> time" "string option" nat "int set"
  | Refill "event_row list"
  | Purge_Events time int nat "int list"
  | Purge_Sessions time int nat "string list"

fun apply_event :: "event_system \<Rightarrow> event_label \<Rightarrow> event_system option" where
  "apply_event s (Gateway_Writes i r) =
     (if i \<notin> fst ` set (es_events s) \<and> er_published_at r = None
      then Some (s\<lparr>es_events := insort_key fst (i, r) (es_events s), es_written := (i, r) # es_written s\<rparr>) else None)"
| "apply_event s (Recorder_Writes i r) =
     (if i \<notin> fst ` set (es_events s) \<and> er_published_at r \<noteq> None \<and> er_event_id r \<in> set (es_stream s)
      then Some (s\<lparr>es_events := insort_key fst (i, r) (es_events s)\<rparr>) else None)"
| "apply_event s (Sessions_Move ss) = Some (s\<lparr>es_sessions := ss\<rparr>)"
| "apply_event s (Outbox outside session limit locked) =
     (case publish_pending outside session limit locked (es_events s) of
        (rows, sent, n) \<Rightarrow> Some (s\<lparr>es_events := rows, es_stream := es_stream s @ map (er_event_id \<circ> snd) sent\<rparr>))"
| "apply_event s (Refill rows) =
     (if set rows \<subseteq> snd ` set (es_events s) then Some (s\<lparr>es_stream := es_stream s @ map er_event_id rows\<rparr>) else None)"
| "apply_event s (Purge_Events now event_days batch picked) =
     Some (s\<lparr>es_events := purge_events now event_days batch picked (es_events s)\<rparr>)"
| "apply_event s (Purge_Sessions now session_days batch picked) =
     (case purge_sessions now session_days batch picked (es_sessions s) (es_events s) of
        (ss, rows) \<Rightarrow> Some (s\<lparr>es_sessions := ss, es_events := rows,
           es_purged := filter (\<lambda>x. x \<notin> set ss \<and> session_purgeable now session_days x) (es_sessions s) @ es_purged s\<rparr>))"

definition event_step :: "event_system \<Rightarrow> event_label \<Rightarrow> event_system \<Rightarrow> bool" where
  "event_step s l t \<longleftrightarrow> apply_event s l = Some t"

definition event_init :: "event_system \<Rightarrow> bool" where
  "event_init s \<longleftrightarrow> es_events s = [] \<and> es_written s = [] \<and> es_purged s = []"

definition accounted_for :: "event_system \<Rightarrow> int \<times> event_row \<Rightarrow> bool" where
  "accounted_for s = (\<lambda>(i, r). er_event_id r \<in> set (es_stream s) \<or> (i, r) \<in> set (unpublished (es_events s))
     \<or> er_session_id r \<in> gs_id ` set (es_purged s))"

definition event_inv :: "event_system \<Rightarrow> bool" where
  "event_inv s \<longleftrightarrow> distinct (map fst (es_events s)) \<and> (\<forall>x \<in> set (es_written s). accounted_for s x)
     \<and> (\<forall>i r. (i, r) \<in> set (es_events s) \<longrightarrow> er_published_at r \<noteq> None \<longrightarrow> er_event_id r \<in> set (es_stream s))
     \<and> (\<forall>x \<in> set (es_purged s). gs_state x \<in> {S_Closed, S_Failed})"

lemma event_invI:
  "distinct (map fst (es_events s)) \<Longrightarrow> (\<And>x. x \<in> set (es_written s) \<Longrightarrow> accounted_for s x) \<Longrightarrow>
   (\<And>i r. (i, r) \<in> set (es_events s) \<Longrightarrow> er_published_at r \<noteq> None \<Longrightarrow> er_event_id r \<in> set (es_stream s)) \<Longrightarrow>
   (\<And>x. x \<in> set (es_purged s) \<Longrightarrow> gs_state x \<in> {S_Closed, S_Failed}) \<Longrightarrow> event_inv s"
  by (simp add: event_inv_def)

lemma event_invD:
  assumes "event_inv s"
  shows "distinct (map fst (es_events s))" "x \<in> set (es_written s) \<Longrightarrow> accounted_for s x"
    "(i, r) \<in> set (es_events s) \<Longrightarrow> er_published_at r \<noteq> None \<Longrightarrow> er_event_id r \<in> set (es_stream s)"
    "y \<in> set (es_purged s) \<Longrightarrow> gs_state y \<in> {S_Closed, S_Failed}"
    "(i, r) \<in> set (es_events s) \<Longrightarrow> (i, r') \<in> set (es_events s) \<Longrightarrow> r' = r"
  using assms by (auto simp: event_inv_def dest: eq_key_imp_eq_value)

lemma accounted_more:
  assumes "accounted_for s x" "set (es_stream s) \<subseteq> set (es_stream t)" "set (es_purged s) \<subseteq> set (es_purged t)"
    "x \<in> set (unpublished (es_events s)) \<Longrightarrow> accounted_for t x"
  shows "accounted_for t x"
  using assms by (cases x) (auto simp: accounted_for_def)

lemma unpublished_iff: "(i, r) \<in> set (unpublished rows) \<longleftrightarrow> (i, r) \<in> set rows \<and> er_published_at r = None"
  by (simp add: unpublished_def)

lemma inv_insert:
  assumes inv: "event_inv s" and new: "i \<notin> fst ` set (es_events s)" "er_published_at r \<noteq> None \<longrightarrow> er_event_id r \<in> set (es_stream s)"
    "w = es_written s \<or> er_published_at r = None \<and> w = (i, r) # es_written s"
  shows "event_inv (s\<lparr>es_events := insort_key fst (i, r) (es_events s), es_written := w\<rparr>)"
proof (rule event_invI)
  let ?t = "s\<lparr>es_events := insort_key fst (i, r) (es_events s), es_written := w\<rparr>"
  have rows: "set (es_events ?t) = insert (i, r) (set (es_events s))" by (simp add: set_insort_key)
  have "distinct (map fst (insort_key fst (i, r) xs)) \<longleftrightarrow> distinct (i # map fst xs)" for xs :: event_table
    by (induction xs) (auto simp: set_insort_key)
  then show "distinct (map fst (es_events ?t))" using event_invD(1) [OF inv] new(1) by simp
  show "accounted_for ?t x" if "x \<in> set (es_written ?t)" for x
  proof (cases "x \<in> set (es_written s)")
    case True
    then show ?thesis using event_invD(2) [OF inv True] rows by (cases x) (auto simp: accounted_for_def unpublished_iff)
  next
    case False
    then have "x = (i, r)" "er_published_at r = None" using that new(3) by auto
    then show ?thesis using rows by (simp add: accounted_for_def unpublished_iff)
  qed
  show "er_event_id r' \<in> set (es_stream ?t)" if "(j, r') \<in> set (es_events ?t)" "er_published_at r' \<noteq> None" for j r'
    using that rows new(2) event_invD(3) [OF inv, of j r'] by auto
  show "gs_state x \<in> {S_Closed, S_Failed}" if "x \<in> set (es_purged ?t)" for x
    using that event_invD(4) [OF inv] by simp
qed

lemma inv_outbox:
  assumes inv: "event_inv s" and run: "publish_pending outside session limit locked (es_events s) = (rows, sent, n)"
  shows "event_inv (s\<lparr>es_events := rows, es_stream := es_stream s @ map (er_event_id \<circ> snd) sent\<rparr>)"
proof -
  let ?t = "s\<lparr>es_events := rows, es_stream := es_stream s @ map (er_event_id \<circ> snd) sent\<rparr>"
  obtain marks ok where p: "publish_rows outside (pending_rows session limit locked (es_events s)) = (sent, marks, ok)"
    "rows = (if ok then mark_published marks (es_events s) else es_events s)"
    using run by (cases "publish_rows outside (pending_rows session limit locked (es_events s))") (auto simp: publish_pending_def split: if_splits)
  have ids: "fst ` set marks = fst ` set sent" if ok
    using published_prefix [OF p(1)] that by force
  have "set sent \<subseteq> set (pending_rows session limit locked (es_events s))"
    using published_prefix [OF p(1)] by auto
  then have sent: "set sent \<subseteq> set (es_events s)"
    using pending_subset [of session limit locked "es_events s"] by (auto simp: unpublished_def)
  have row: "(i, r) \<in> set sent" if r: "(i, r) \<in> set (es_events s)" "i \<in> fst ` set sent" for i r
  proof -
    obtain r' where "(i, r') \<in> set sent" using r(2) by auto
    then show ?thesis using event_invD(5) [OF inv r(1), of r'] sent by auto
  qed
  have stream: "er_event_id r \<in> set (es_stream ?t)" if "(i, r) \<in> set sent" for i r
    using that by force
  show ?thesis
  proof (rule event_invI)
    show "distinct (map fst (es_events ?t))" using p(2) event_invD(1) [OF inv] by simp
    show "accounted_for ?t x" if "x \<in> set (es_written ?t)" for x
    proof (rule accounted_more [of s])
      show "accounted_for s x" using event_invD(2) [OF inv] that by simp
      obtain i r where x: "x = (i, r)" by (cases x)
      assume "x \<in> set (unpublished (es_events s))"
      then have u: "(i, r) \<in> set (es_events s)" "er_published_at r = None" by (simp_all add: x unpublished_iff)
      show "accounted_for ?t x"
      proof (cases "ok \<and> i \<in> fst ` set sent")
        case True
        then have "er_event_id r \<in> set (es_stream ?t)" using stream row u(1) by blast
        then show ?thesis by (auto simp: x accounted_for_def)
      next
        case False
        then have "(i, r) \<in> set rows" using u(1) p(2) ids marked_keeps [of i r "es_events s" marks] by (cases ok) auto
        then show ?thesis using u(2) by (simp add: x accounted_for_def unpublished_iff)
      qed
    qed auto
    show "er_event_id r \<in> set (es_stream ?t)" if "(i, r) \<in> set (es_events ?t)" "er_published_at r \<noteq> None" for i r
    proof (cases ok)
      case True
      then have "(i, r) \<in> set (mark_published marks (es_events s))" using that(1) p(2) by simp
      then obtain r' where r': "(i, r') \<in> set (es_events s)" "er_event_id r = er_event_id r'" "i \<notin> fst ` set marks \<Longrightarrow> r = r'"
        by (erule marked_in)
      show ?thesis
      proof (cases "i \<in> fst ` set marks")
        case True
        then show ?thesis using stream row r'(1,2) ids [OF \<open>ok\<close>] by metis
      next
        case False
        then show ?thesis using r'(1) r'(3) event_invD(3) [OF inv] that(2) by simp
      qed
    next
      case False
      then show ?thesis using that p(2) event_invD(3) [OF inv] by simp
    qed
    show "gs_state x \<in> {S_Closed, S_Failed}" if "x \<in> set (es_purged ?t)" for x
      using that event_invD(4) [OF inv] by simp
  qed
qed

lemma inv_filter:
  assumes inv: "event_inv s" and purged: "\<And>x. x \<in> set purged \<Longrightarrow> gs_state x \<in> {S_Closed, S_Failed}"
    and lost: "\<And>i r. (i, r) \<in> set (es_events s) \<Longrightarrow> er_published_at r = None \<Longrightarrow> \<not> K (i, r) \<Longrightarrow> er_session_id r \<in> gs_id ` set purged"
  shows "event_inv (s\<lparr>es_sessions := ss, es_events := filter K (es_events s), es_purged := purged @ es_purged s\<rparr>)"
proof (rule event_invI)
  let ?t = "s\<lparr>es_sessions := ss, es_events := filter K (es_events s), es_purged := purged @ es_purged s\<rparr>"
  show "distinct (map fst (es_events ?t))" using event_invD(1) [OF inv] by (simp add: distinct_map_filter)
  show "accounted_for ?t x" if "x \<in> set (es_written ?t)" for x
  proof (rule accounted_more [of s])
    show "accounted_for s x" using event_invD(2) [OF inv] that by simp
    obtain i r where x: "x = (i, r)" by (cases x)
    assume "x \<in> set (unpublished (es_events s))"
    then show "accounted_for ?t x" using lost [of i r] by (auto simp: x accounted_for_def unpublished_iff)
  qed auto
  show "er_event_id r \<in> set (es_stream ?t)" if "(i, r) \<in> set (es_events ?t)" "er_published_at r \<noteq> None" for i r
    using that event_invD(3) [OF inv, of i r] by simp
  show "gs_state x \<in> {S_Closed, S_Failed}" if "x \<in> set (es_purged ?t)" for x
    using that event_invD(4) [OF inv] purged by auto
qed

lemma event_step_inv:
  assumes inv: "event_inv s" and step: "event_step s l t"
  shows "event_inv t"
proof (cases l)
  case (Gateway_Writes i r)
  then show ?thesis using inv step inv_insert [OF inv, of i r] by (auto simp: event_step_def split: if_splits)
next
  case (Recorder_Writes i r)
  then show ?thesis using inv step inv_insert [OF inv, of i r "es_written s"] by (auto simp: event_step_def split: if_splits)
next
  case (Sessions_Move ss)
  then have t: "t = s\<lparr>es_sessions := ss\<rparr>" using step by (simp add: event_step_def)
  show ?thesis unfolding t by (rule event_invI) (use event_invD [OF inv] in \<open>auto simp: accounted_for_def\<close>)
next
  case (Outbox outside session limit locked)
  then show ?thesis using step inv_outbox [OF inv] by (auto simp: event_step_def split: prod.splits)
next
  case (Refill rows)
  then have t: "t = s\<lparr>es_stream := es_stream s @ map er_event_id rows\<rparr>" using step by (auto simp: event_step_def split: if_splits)
  show ?thesis unfolding t by (rule event_invI) (use event_invD [OF inv] in \<open>auto simp: accounted_for_def\<close>)
next
  case (Purge_Events now event_days batch picked)
  define gone where "gone = set (take batch (filter (\<lambda>i. \<exists>(j, r) \<in> set (es_events s). j = i \<and> event_purgeable now event_days r) picked))"
  have t: "t = s\<lparr>es_sessions := es_sessions s, es_events := filter (\<lambda>(i, r). i \<notin> gone) (es_events s), es_purged := [] @ es_purged s\<rparr>"
    using step Purge_Events by (auto simp: event_step_def purge_events_def Let_def gone_def)
  have kept: "i \<notin> gone" if i: "(i, r) \<in> set (es_events s)" "er_published_at r = None" for i r
  proof
    assume "i \<in> gone"
    then obtain r' where "(i, r') \<in> set (es_events s)" "event_purgeable now event_days r'"
      unfolding gone_def by (auto dest!: in_set_takeD)
    moreover have "r' = r" using event_invD(5) [OF inv i(1) calculation(1)] .
    ultimately show False using i(2) by (simp add: event_purgeable_def)
  qed
  show ?thesis unfolding t by (rule inv_filter [OF inv]) (use kept in auto)
next
  case (Purge_Sessions now session_days batch picked)
  let ?gone = "take batch (filter (\<lambda>i. \<exists>x \<in> set (es_sessions s). gs_id x = i \<and> session_purgeable now session_days x) picked)"
  let ?ss = "filter (\<lambda>x. gs_id x \<notin> set ?gone) (es_sessions s)"
  let ?purged = "filter (\<lambda>x. x \<notin> set ?ss \<and> session_purgeable now session_days x) (es_sessions s)"
  have t: "t = s\<lparr>es_sessions := ?ss, es_events := filter (\<lambda>(i, r). er_session_id r \<notin> set ?gone) (es_events s),
      es_purged := ?purged @ es_purged s\<rparr>"
    using step Purge_Sessions by (simp add: event_step_def purge_sessions_def Let_def)
  have "i \<in> gs_id ` set ?purged" if i: "i \<in> set ?gone" for i
  proof -
    obtain x where x: "x \<in> set (es_sessions s)" "gs_id x = i" "session_purgeable now session_days x"
      using i by (auto dest!: in_set_takeD)
    then have "x \<in> set ?purged" using i by simp
    then show ?thesis using x(2) by blast
  qed
  then show ?thesis unfolding t by (intro inv_filter [OF inv]) (auto simp: session_purgeable_def)
qed

interpretation events: invariant_system event_init event_step event_inv
  by unfold_locales (simp add: event_init_def event_inv_def, rule event_step_inv)

text \<open>C5: In every interleaving of gateways, recorder, outboxes, refills and purges, with any publication failing or losing
  its acknowledgement, and any rows locked by other outboxes: an event that a gateway wrote has reached the stream, or
  still waits in the table to be published, or its session was purged in a terminal state. No row counts as published
  unless its event has reached the stream.\<close>

theorem no_event_lost:
  assumes "reach event_init event_step s"
  shows "(\<forall>(i, r) \<in> set (es_written s). er_event_id r \<in> set (es_stream s)
      \<or> (i, r) \<in> set (es_events s) \<and> er_published_at r = None
      \<or> (\<exists>x \<in> set (es_purged s). gs_id x = er_session_id r \<and> gs_state x \<in> {S_Closed, S_Failed}))
    \<and> (\<forall>(i, r) \<in> set (es_events s). er_published_at r \<noteq> None \<longrightarrow> er_event_id r \<in> set (es_stream s))"
proof -
  have inv: "event_inv s" by (rule events.reach_inv [OF assms])
  have "er_event_id r \<in> set (es_stream s) \<or> (i, r) \<in> set (es_events s) \<and> er_published_at r = None
      \<or> (\<exists>x \<in> set (es_purged s). gs_id x = er_session_id r \<and> gs_state x \<in> {S_Closed, S_Failed})"
    if "(i, r) \<in> set (es_written s)" for i r
    using event_invD(2) [OF inv that] event_invD(4) [OF inv] by (auto simp: accounted_for_def unpublished_iff)
  then show ?thesis using event_invD(3) [OF inv] by blast
qed

text \<open>A lost acknowledgement, a purge and a second publication.\<close>

definition sample_row :: event_row where
  "sample_row = \<lparr>er_event_id = ''e'', er_schema_version = 1, er_session_id = ''s'', er_event_type = SESSION_OPEN, er_attempt_id = None,
     er_provider = None, er_reason = None, er_occurred_at = 5, er_payload = [], er_published_at = None\<rparr>"

definition sample_system :: event_system where
  "sample_system = \<lparr>es_sessions = [], es_events = [], es_stream = [], es_written = [], es_purged = []\<rparr>"

definition sample_life :: "event_label list" where
  "sample_life = [Gateway_Writes 1 sample_row, Gateway_Writes 2 (sample_row\<lparr>er_event_id := ''f''\<rparr>),
     Outbox (\<lambda>r. (if er_event_id r = ''e'' then Stored else Stored_Unconfirmed, 9)) None 100 {},
     Purge_Events 1000000000000000 1 100 [1, 2], Outbox (\<lambda>r. (Stored, 10)) None 1 {}]"

theorem no_event_lost_witness:
  "\<exists>s. foldl (\<lambda>s l. Option.bind s (\<lambda>s. apply_event s l)) (Some sample_system) sample_life = Some s
     \<and> length (es_written s) = 2 \<and> map fst (es_events s) = [1, 2] \<and> map (er_published_at \<circ> snd) (es_events s) = [Some 10, None]
     \<and> (\<forall>(i, r) \<in> set (es_written s). er_event_id r \<in> set (es_stream s) \<or> (i, r) \<in> set (es_events s) \<and> er_published_at r = None
          \<or> (\<exists>x \<in> set (es_purged s). gs_id x = er_session_id r \<and> gs_state x \<in> {S_Closed, S_Failed}))"
proof -
  let ?run = "\<lambda>ls. foldl (\<lambda>s l. Option.bind s (\<lambda>s. apply_event s l)) (Some sample_system) ls"
  have reach: "?run ls = Some s \<Longrightarrow> reach event_init event_step s" for ls s
  proof (induction ls arbitrary: s rule: rev_induct)
    case Nil
    then show ?case by (intro reach_init) (auto simp: event_init_def sample_system_def)
  next
    case (snoc l ls)
    then obtain s0 where "?run ls = Some s0" "apply_event s0 l = Some s" by (auto split: bind_splits)
    then show ?case using snoc.IH by (auto intro: reach_step simp: event_step_def)
  qed
  have "map_option (\<lambda>s. (length (es_written s), map fst (es_events s), map (er_published_at \<circ> snd) (es_events s))) (?run sample_life)
      = Some (2, [1, 2], [Some 10, None])" by code_simp
  then obtain s where s: "?run sample_life = Some s" "length (es_written s) = 2" "map fst (es_events s) = [1, 2]"
    "map (er_published_at \<circ> snd) (es_events s) = [Some 10, None]" by auto
  show ?thesis using s no_event_lost [OF reach [OF s(1)], THEN conjunct1] by (intro exI [of _ s] conjI)
qed

section \<open>A working stream\<close>

definition outbox_pass :: "(event_row \<Rightarrow> publication \<times> time) \<Rightarrow> nat \<Rightarrow> event_table \<Rightarrow> event_table" where
  "outbox_pass outside limit rows = fst (publish_pending outside None limit {} rows)"

lemma unpublished_marked: "unpublished (mark_published marks rows) = filter (\<lambda>(i, r). i \<notin> fst ` set marks) (unpublished rows)"
proof (induction rows)
  case (Cons x rows)
  obtain i r where x: "x = (i, r)" by (cases x)
  show ?case
  proof (cases "map_of marks i")
    case None
    then have "i \<notin> fst ` set marks" by (simp add: map_of_eq_None_iff)
    then show ?thesis using Cons None by (simp add: x unpublished_def mark_published_def)
  next
    case (Some now)
    then have "i \<in> fst ` set marks" by (metis map_of_eq_None_iff option.distinct(1))
    then show ?thesis using Cons Some by (simp add: x unpublished_def mark_published_def)
  qed
qed (simp add: unpublished_def mark_published_def)

lemma filter_others: "distinct (map fst xs) \<Longrightarrow> filter (\<lambda>(i, r). i \<notin> fst ` set (take n xs)) xs = drop n xs"
proof -
  assume "distinct (map fst xs)"
  then have d: "distinct (map fst (take n xs) @ map fst (drop n xs))" by (metis append_take_drop_id map_append)
  have "filter (\<lambda>(i, r). i \<notin> fst ` set (take n xs)) (take n xs) = []" by (force simp: filter_empty_conv)
  moreover have "filter (\<lambda>(i, r). i \<notin> fst ` set (take n xs)) (drop n xs) = drop n xs"
    using d by (force simp: filter_id_conv)
  ultimately have "filter (\<lambda>(i, r). i \<notin> fst ` set (take n xs)) (take n xs @ drop n xs) = drop n xs"
    unfolding filter_append by simp
  then show ?thesis by simp
qed

lemma pass_unpublished:
  assumes "\<forall>r. fst (outside r) = Stored" "distinct (map fst rows)"
  shows "unpublished (outbox_pass outside limit rows) = drop limit (unpublished rows)"
proof -
  let ?batch = "take limit (unpublished rows)"
  have pass: "outbox_pass outside limit rows = mark_published (map (\<lambda>(i, r). (i, snd (outside r))) ?batch) rows"
    by (simp add: outbox_pass_def publish_pending_def pending_all publish_all [OF assms(1)])
  have ids: "fst ` set (map (\<lambda>(i, r). (i, snd (outside r))) ?batch) = fst ` set ?batch" by force
  have "distinct (map fst (unpublished rows))"
    using assms(2) by (simp add: unpublished_def distinct_map_filter)
  from filter_others [OF this] show ?thesis unfolding pass unpublished_marked ids .
qed

text \<open>C38: While the stream accepts publications and nobody else holds the rows, passes of the outbox publish everything that
  waits: after \<open>k\<close> passes with a limit, at most the events beyond \<open>k\<close> times the limit still wait, the oldest having gone
  first.\<close>

theorem outbox_drains:
  assumes "\<forall>r. fst (outside r) = Stored" "distinct (map fst rows)"
  shows "unpublished ((outbox_pass outside limit ^^ k) rows) = drop (k * limit) (unpublished rows)"
proof -
  have ids: "map fst ((outbox_pass outside limit ^^ k) rows) = map fst rows" for k
    by (induction k) (simp_all add: outbox_pass_def publish_pending_def publish_all [OF assms(1)])
  show ?thesis
  proof (induction k)
    case (Suc k)
    have "distinct (map fst ((outbox_pass outside limit ^^ k) rows))" using assms(2) by (simp add: ids)
    from pass_unpublished [OF assms(1) this, of limit] show ?case by (simp add: Suc algebra_simps)
  qed simp
qed

theorem outbox_drains_witness:
  "unpublished ((outbox_pass (\<lambda>r. (Stored, 7)) 1 ^^ 2) [(1, sample_row), (2, sample_row\<lparr>er_event_id := ''f''\<rparr>)]) = []"
  by (subst outbox_drains) (simp_all add: unpublished_def sample_row_def)

section \<open>Refilling a stream\<close>

definition event_rows_ordered :: "event_table \<Rightarrow> bool" where
  "event_rows_ordered rows \<longleftrightarrow> sorted_wrt (\<lambda>x y. fst x < fst y) rows"

lemma sorted_last_max: "sorted_wrt (\<lambda>x y. fst x < (fst y :: int)) xs \<Longrightarrow> x \<in> set xs \<Longrightarrow> fst x \<le> fst (last xs)"
  by (induction xs) (auto intro: less_imp_le dest: last_in_set)

lemma page_spec:
  assumes "event_rows_ordered rows" and kept: "page = retained_page cutoff k rows"
  shows "sorted_wrt (\<lambda>x y. fst x < fst y) page" "\<forall>(i, r) \<in> set page. (i, r) \<in> set rows \<and> k < i \<and> cutoff \<le> er_occurred_at r"
    "page = [] \<Longrightarrow> \<forall>(i, r) \<in> set rows. k < i \<longrightarrow> er_occurred_at r < cutoff"
    "page \<noteq> [] \<Longrightarrow> (i, r) \<in> set rows \<Longrightarrow> k < i \<Longrightarrow> i \<le> fst (last page) \<Longrightarrow> cutoff \<le> er_occurred_at r \<Longrightarrow> (i, r) \<in> set page"
proof -
  let ?fs = "filter (\<lambda>(i, r). k < i \<and> cutoff \<le> er_occurred_at r) rows"
  have fs: "sorted_wrt (\<lambda>x y. fst x < fst y) ?fs" using assms(1) unfolding event_rows_ordered_def by (rule sorted_wrt_filter)
  have page: "page = take REHYDRATE_PAGE ?fs" by (simp add: kept retained_page_def)
  have split: "sorted_wrt (\<lambda>x y. fst x < fst y) (page @ drop REHYDRATE_PAGE ?fs)" using fs by (simp add: page)
  then show "sorted_wrt (\<lambda>x y. fst x < fst y) page" by (simp add: sorted_wrt_append)
  show "\<forall>(i, r) \<in> set page. (i, r) \<in> set rows \<and> k < i \<and> cutoff \<le> er_occurred_at r"
    using set_take_subset [of REHYDRATE_PAGE ?fs] by (auto simp: page)
  show "\<forall>(i, r) \<in> set rows. k < i \<longrightarrow> er_occurred_at r < cutoff" if "page = []"
    using that by (force simp: page REHYDRATE_PAGE_def filter_empty_conv)
  show "(i, r) \<in> set page" if ne: "page \<noteq> []" and r: "(i, r) \<in> set rows" "k < i" "i \<le> fst (last page)" "cutoff \<le> er_occurred_at r"
  proof (rule ccontr)
    assume "(i, r) \<notin> set page"
    moreover have "(i, r) \<in> set ?fs" using r by simp
    then have "(i, r) \<in> set (page @ drop REHYDRATE_PAGE ?fs)" by (simp add: page)
    ultimately have "(i, r) \<in> set (drop REHYDRATE_PAGE ?fs)" by simp
    then have "fst (last page) < i" using split ne by (fastforce simp: sorted_wrt_append)
    then show False using r(3) by simp
  qed
qed

text \<open>A refill that has published the rows up to \<open>k\<close>: it ends, and what it sends is complete.\<close>

definition refilled :: "(event_row \<Rightarrow> publication \<times> time) \<Rightarrow> (nat \<Rightarrow> event_table) \<Rightarrow> time \<Rightarrow> nat \<Rightarrow> int \<Rightarrow> event_table \<Rightarrow> event_table \<times> bool \<Rightarrow> bool" where
  "refilled outside tables cutoff n k published = (\<lambda>(sent, ok).
     ((\<forall>r. fst (outside r) = Stored) \<longrightarrow> ok) \<and> (\<exists>more. sent = published @ more \<and> sorted_wrt (\<lambda>x y. fst x < fst y) more
       \<and> (\<forall>(i, r) \<in> set more. k < i \<and> cutoff \<le> er_occurred_at r \<and> (\<exists>m. (i, r) \<in> set (tables m)))
       \<and> (ok \<longrightarrow> (\<forall>i r. k < i \<longrightarrow> cutoff \<le> er_occurred_at r \<longrightarrow> (\<forall>m \<ge> n. (i, r) \<in> set (tables m)) \<longrightarrow> (i, r) \<in> set more))))"

lemma rehydrate_ends:
  assumes ordered: "\<And>m. event_rows_ordered (tables m)" and bound: "\<And>m i r. (i, r) \<in> set (tables m) \<Longrightarrow> i \<le> bound"
  shows "\<exists>result. rehydrate_from outside tables cutoff n k published = Some result \<and> refilled outside tables cutoff n k published result"
proof (induction "nat (bound - k)" arbitrary: n k published rule: less_induct)
  case less
  let ?page = "retained_page cutoff k (tables n)"
  note spec = page_spec [where rows = "tables n" and k = k and cutoff = cutoff, OF ordered refl]
  show ?case
  proof (cases ?page)
    case Nil
    have "rehydrate_from outside tables cutoff n k published = Some (published, True)"
      by (subst rehydrate_from.simps) (simp add: Nil)
    moreover have "refilled outside tables cutoff n k published (published, True)"
      using spec(3) [OF Nil] by (force simp: refilled_def)
    ultimately show ?thesis by blast
  next
    case (Cons x xs)
    define next_id where "next_id = fst (last ?page)"
    obtain sent marks ok where p: "publish_rows outside ?page = (sent, marks, ok)" by (cases "publish_rows outside ?page")
    obtain rest where rest: "?page = sent @ rest" "ok \<longrightarrow> sent = ?page" using published_prefix [OF p] by blast
    have sent: "sorted_wrt (\<lambda>x y. fst x < fst y) sent" using spec(1) rest(1) by (simp add: sorted_wrt_append)
    have old: "\<forall>(i, r) \<in> set sent. k < i \<and> cutoff \<le> er_occurred_at r \<and> (\<exists>m. (i, r) \<in> set (tables m))"
    proof -
      have "set sent \<subseteq> set ?page" by (simp add: rest(1))
      then show ?thesis using spec(2) by blast
    qed
    show ?thesis
    proof (cases ok)
      case False
      have "rehydrate_from outside tables cutoff n k published = Some (published @ sent, False)"
        by (subst rehydrate_from.simps) (use p Cons False in simp)
      moreover have "refilled outside tables cutoff n k published (published @ sent, False)"
        using sent old p False publish_all [of outside ?page] by (auto simp: refilled_def)
      ultimately show ?thesis by blast
    next
      case True
      have lastp: "last ?page \<in> set ?page" using Cons by simp
      then have "k < next_id" "next_id \<le> bound" using spec(2) bound by (force simp: next_id_def)+
      then obtain result where r: "rehydrate_from outside tables cutoff (Suc n) next_id (published @ sent) = Some result"
        "refilled outside tables cutoff (Suc n) next_id (published @ sent) result"
        using less [of next_id "Suc n" "published @ sent"] by (auto simp: zless_nat_eq_int_zless)
      have "rehydrate_from outside tables cutoff n k published = Some result"
        by (subst rehydrate_from.simps) (use p Cons True r(1) in \<open>simp add: next_id_def\<close>)
      moreover have "refilled outside tables cutoff n k published result"
      proof -
        obtain s' ok' more where always: "(\<forall>r. fst (outside r) = Stored) \<longrightarrow> ok'" and m: "result = (s', ok')" "s' = (published @ sent) @ more" "sorted_wrt (\<lambda>x y. fst x < fst y) more"
          "\<forall>(i, r) \<in> set more. next_id < i \<and> cutoff \<le> er_occurred_at r \<and> (\<exists>m. (i, r) \<in> set (tables m))"
          "ok' \<longrightarrow> (\<forall>i r. next_id < i \<longrightarrow> cutoff \<le> er_occurred_at r \<longrightarrow> (\<forall>m \<ge> Suc n. (i, r) \<in> set (tables m)) \<longrightarrow> (i, r) \<in> set more)"
          using r(2) by (cases result) (auto simp: refilled_def)
        have page: "sent = ?page" using rest(2) True by simp
        have below: "fst x \<le> next_id" if "x \<in> set sent" for x
          using sorted_last_max [OF spec(1), of x] that by (simp add: page next_id_def)
        have "sorted_wrt (\<lambda>x y. fst x < fst y) (sent @ more)"
          using sent m(3,4) below by (force simp: sorted_wrt_append)
        moreover have "\<forall>(i, r) \<in> set (sent @ more). k < i \<and> cutoff \<le> er_occurred_at r \<and> (\<exists>m. (i, r) \<in> set (tables m))"
          using old m(4) \<open>k < next_id\<close> by fastforce
        moreover have "(i, r) \<in> set (sent @ more)"
          if ok' and i: "k < i" "cutoff \<le> er_occurred_at r" "\<forall>m \<ge> n. (i, r) \<in> set (tables m)" for i r
        proof (cases "i \<le> next_id")
          case True
          then have "(i, r) \<in> set ?page" using spec(4) [of i r] i Cons by (simp add: next_id_def)
          then show ?thesis by (simp add: page)
        next
          case False
          then have "(i, r) \<in> set more" using m(5) \<open>ok'\<close> i by simp
          then show ?thesis by simp
        qed
        ultimately show ?thesis using always m(1,2) unfolding refilled_def by (intro case_prodI2) (auto intro!: exI [of _ "sent @ more"])
      qed
      ultimately show ?thesis by blast
    qed
  qed
qed

text \<open>C39: When a fresh stream is refilled from the table, while other processes go on writing to it and deleting from it,
  the refill ends as long as the identities that occur are bounded. It sends only rows young enough, in the order of their
  identities, none twice; and unless a publication fails, it sends every such row that is in the table throughout.\<close>

theorem refill_ends_and_is_complete:
  assumes "\<And>m. event_rows_ordered (tables m)" "\<And>m i r. (i, r) \<in> set (tables m) \<Longrightarrow> 0 < i \<and> i \<le> bound"
  shows "\<exists>sent ok. rehydrate outside tables now max_age = Some (sent, ok)
    \<and> sorted_wrt (\<lambda>x y. fst x < fst y) sent
    \<and> (\<forall>(i, r) \<in> set sent. now - max_age * 1000000 \<le> er_occurred_at r \<and> (\<exists>m. (i, r) \<in> set (tables m)))
    \<and> (if \<forall>r. fst (outside r) = Stored then ok else True)
    \<and> (ok \<longrightarrow> (\<forall>i r. (\<forall>m. (i, r) \<in> set (tables m)) \<and> now - max_age * 1000000 \<le> er_occurred_at r \<longrightarrow> (i, r) \<in> set sent))"
proof -
  let ?cutoff = "now - max_age * 1000000"
  obtain sent ok where r: "rehydrate outside tables now max_age = Some (sent, ok)" "refilled outside tables ?cutoff 0 0 [] (sent, ok)"
    using rehydrate_ends [where tables = tables and bound = bound and outside = outside and cutoff = ?cutoff and n = 0 and k = 0
        and published = "[]", OF assms(1)] assms(2) unfolding rehydrate_def by (metis surj_pair)
  have complete: "(i, r) \<in> set sent" if ok "\<forall>m. (i, r) \<in> set (tables m)" "?cutoff \<le> er_occurred_at r" for i r
    using r(2) that assms(2) [of i r 0] by (auto simp: refilled_def)
  have rest: "sorted_wrt (\<lambda>x y. fst x < fst y) sent"
    "\<forall>(i, r) \<in> set sent. ?cutoff \<le> er_occurred_at r \<and> (\<exists>m. (i, r) \<in> set (tables m))" "(\<forall>r. fst (outside r) = Stored) \<longrightarrow> ok"
    using r(2) by (auto simp: refilled_def)
  show ?thesis using r(1) rest complete by (intro exI [of _ sent] exI [of _ ok]) auto
qed

theorem refill_ends_and_is_complete_witness:
  "\<exists>sent. rehydrate (\<lambda>r. (Stored, 7)) (\<lambda>n. if n = 0 then [(1, sample_row)] else [(1, sample_row), (2, sample_row\<lparr>er_occurred_at := 8\<rparr>)]) 10 1
     = Some (sent, True) \<and> (1, sample_row) \<in> set sent"
proof -
  let ?tables = "\<lambda>n::nat. if n = 0 then [(1::int, sample_row)] else [(1, sample_row), (2, sample_row\<lparr>er_occurred_at := 8\<rparr>)]"
  have "event_rows_ordered (?tables m)" for m by (simp add: event_rows_ordered_def)
  moreover have "0 < i \<and> i \<le> 2" if "(i, r) \<in> set (?tables m)" for m i r using that by (auto split: if_splits)
  ultimately have "\<exists>sent ok. rehydrate (\<lambda>r. (Stored, 7)) ?tables 10 1 = Some (sent, ok) \<and> ok \<and> (1, sample_row) \<in> set sent"
    using refill_ends_and_is_complete [of ?tables 2 "\<lambda>r. (Stored, 7)" 10 1] by (auto simp: sample_row_def)
  then show ?thesis by auto
qed

section \<open>Purging the method cache\<close>

lemma stale_start:
  assumes "ttl < t0 - me_last_seen e" "\<forall>(suf, n, t) \<in> set rs. t0 \<le> t" "rs \<noteq> []"
  shows "evolve ttl rs (Some e) = evolve ttl rs None"
proof (cases rs)
  case (Cons r rest)
  obtain suf n t where r: "r = (suf, n, t)" by (cases r)
  have "\<not> t - me_last_seen e \<le> ttl" using assms(1,2) Cons r by auto
  then have "record_comparison (Some e) suf n t ttl = record_comparison None suf n t ttl" by (simp add: record_comparison_def)
  then show ?thesis by (simp add: Cons r)
qed (use assms in simp)

lemma purged_get:
  assumes "distinct (map fst c)"
  shows "postgres_get (purge_method_cache now n batch picked c) k = postgres_get c k
    \<or> postgres_get (purge_method_cache now n batch picked c) k = None
       \<and> (\<exists>r. map_of c k = Some r \<and> cw_last_seen r < now - of_int (n * 86400))"
proof -
  define gone where "gone = set (take batch (filter (\<lambda>k. \<exists>(j, r) \<in> set c. j = k \<and> cw_last_seen r < now - of_int (n * 86400)) picked))"
  have purged: "purge_method_cache now n batch picked c = filter (\<lambda>(k, r). k \<notin> gone) c"
    by (simp add: purge_method_cache_def gone_def)
  have find: "map_of (filter (\<lambda>(k, r). k \<notin> gone) c) k = (if k \<in> gone then None else map_of c k)"
    by (induction c) auto
  show ?thesis
  proof (cases "k \<in> gone")
    case True
    then obtain r where "(k, r) \<in> set c" "cw_last_seen r < now - of_int (n * 86400)"
      unfolding gone_def by (auto dest!: in_set_takeD)
    then show ?thesis using True assms by (auto simp: purged postgres_get_def find)
  qed (simp add: purged postgres_get_def find)
qed

text \<open>C40: Purging the method cache never changes what is decided from it: if entries are kept for at least their lifetime,
  then after any later recordings the same captures skip the browser, for the same reason, with the purge as without.\<close>

theorem purge_changes_no_decision:
  assumes "distinct (map fst c)" "\<forall>(k, r) \<in> set c. cw_last_seen r = me_last_seen (entry_from_json (cw_entry r))"
    and "cs_cache_ttl_days s \<le> of_int kept_days" "\<forall>(x, p, suf, n, t) \<in> set h. x \<noteq> p \<and> now \<le> t" "now \<le> at_last"
  shows "http_sufficient s (postgres_get (recorded postgres_record (cache_ttl s) h (purge_method_cache now kept_days batch picked c))) keys n at_last
    = http_sufficient s (postgres_get (recorded postgres_record (cache_ttl s) h c)) keys n at_last"
proof -
  let ?c = "purge_method_cache now kept_days batch picked c"
  have keys: "\<forall>(x, p, r) \<in> set h. x \<noteq> p" using assms(4) by fastforce
  have "fresh_entry s at_last (postgres_get (recorded postgres_record (cache_ttl s) h ?c) k)
      = fresh_entry s at_last (postgres_get (recorded postgres_record (cache_ttl s) h c) k)" for k
  proof (cases "postgres_get ?c k = postgres_get c k")
    case True
    then show ?thesis by (simp add: postgres.get_recorded [OF keys])
  next
    case False
    then obtain r where r: "postgres_get ?c k = None" "map_of c k = Some r" "cw_last_seen r < now - of_int (kept_days * 86400)"
      using purged_get [OF assms(1), of now kept_days batch picked k] by auto
    define e where "e = entry_from_json (cw_entry r)"
    have e: "postgres_get c k = Some e" using r(2) by (simp add: postgres_get_def e_def)
    have "me_last_seen e < now - of_int (kept_days * 86400)"
      using assms(2) r(2,3) map_of_SomeD [OF r(2)] by (force simp: e_def)
    moreover have "cache_ttl s \<le> of_int (kept_days * 86400)" using assms(3) by (simp add: cache_ttl_def)
    ultimately have stale: "cache_ttl s < now - me_last_seen e" by simp
    show ?thesis
    proof (cases "recordings k h = []")
      case True
      then show ?thesis using r(1) e stale assms(5) by (simp add: postgres.get_recorded [OF keys] fresh_entry_def)
    next
      case False
      have "\<forall>(suf, n, t) \<in> set (recordings k h). now \<le> t"
        using assms(4) by (fastforce simp: recordings_def)
      from stale_start [OF stale this False] show ?thesis by (simp add: postgres.get_recorded [OF keys] r(1) e)
    qed
  qed
  then show ?thesis by (simp add: http_sufficient_def)
qed

definition sample_cache :: postgres_cache where
  "sample_cache = recorded postgres_record (cache_ttl demo_cache_settings) demo_history []"

definition purged_cache :: postgres_cache where
  "purged_cache = purge_method_cache 2592035 30 100 [''url:a/1'', ''url:a/2'', ''url:a/3'', ''url:a/4'', ''pattern:a/*''] sample_cache"

lemma sample_cache_facts:
  "map fst sample_cache = [''pattern:a/*'', ''url:a/1'', ''url:a/2'', ''url:a/3'', ''url:a/4'']"
  "list_all (\<lambda>(k, r). cw_last_seen r = me_last_seen (entry_from_json (cw_entry r))) sample_cache"
  "map fst purged_cache = [''pattern:a/*'', ''url:a/4'']"
  by code_simp+

theorem purge_changes_no_decision_witness:
  "length purged_cache = 2 \<and> length sample_cache = 5
   \<and> http_sufficient demo_cache_settings (postgres_get (recorded postgres_record (cache_ttl demo_cache_settings)
       [(''url:a/3'', ''pattern:a/*'', True, 95, 2592040)] purged_cache)) (''url:a/3'', ''pattern:a/*'') 95 2592050
     = http_sufficient demo_cache_settings (postgres_get (recorded postgres_record (cache_ttl demo_cache_settings)
       [(''url:a/3'', ''pattern:a/*'', True, 95, 2592040)] sample_cache)) (''url:a/3'', ''pattern:a/*'') 95 2592050"
proof -
  have "length purged_cache = length (map fst purged_cache)" "length sample_cache = length (map fst sample_cache)" by simp_all
  then have n: "length purged_cache = 2" "length sample_cache = 5" unfolding sample_cache_facts by simp_all
  have d: "distinct (map fst sample_cache)" unfolding sample_cache_facts by code_simp
  show ?thesis
  proof (intro conjI n)
    show "http_sufficient demo_cache_settings (postgres_get (recorded postgres_record (cache_ttl demo_cache_settings)
        [(''url:a/3'', ''pattern:a/*'', True, 95, 2592040)] purged_cache)) (''url:a/3'', ''pattern:a/*'') 95 2592050
      = http_sufficient demo_cache_settings (postgres_get (recorded postgres_record (cache_ttl demo_cache_settings)
        [(''url:a/3'', ''pattern:a/*'', True, 95, 2592040)] sample_cache)) (''url:a/3'', ''pattern:a/*'') 95 2592050"
      unfolding purged_cache_def
      by (rule purge_changes_no_decision [OF d]) (use sample_cache_facts(2) in \<open>simp_all add: list_all_iff demo_cache_settings_def\<close>)
  qed
qed

end
