(* ===== verification/Billing.thy ===== *)
theory Billing
  imports Gateway_Properties Recorder_Proofs
begin

text \<open>
  Where the bills come from that the recorder shares out. As long as the database clock of the gateway's
  transactions does not go back, every attempt they leave is \<open>priced\<close>: its times and its cost are not negative, and it is
  connected no longer than it is charged for, because it acquires a slot before it becomes active.
\<close>

section \<open>Rows under a clock\<close>

text \<open>The times of an attempt lie in the past and in order, and nothing is billed before its end.\<close>

definition clocked :: "time \<Rightarrow> acquisition_attempt \<Rightarrow> bool" where
  "clocked t a \<longleftrightarrow> (\<forall>x. aq_acquiring_at a = Some x \<longrightarrow> x \<le> t)
     \<and> (\<forall>y. aq_active_at a = Some y \<longrightarrow> y \<le> t \<and> (\<exists>x. aq_acquiring_at a = Some x \<and> x \<le> y))
     \<and> (live_attempt_state (aq_state a) \<longrightarrow> aq_capacity_occupied_ms a = None \<and> aq_browser_connected_ms a = None
          \<and> aq_chargeable_time_ms a = None \<and> aq_modeled_cost_units a = None)
     \<and> priced a"

definition rates_nonneg :: "db \<Rightarrow> bool" where
  "rates_nonneg d \<longleftrightarrow> (\<forall>r \<in> set (db_rates d). 0 \<le> cr_units_per_second r)"

lemma rate_nonneg: "rates_nonneg d \<Longrightarrow> lookup cr_provider p (db_rates d) = Some c \<Longrightarrow> 0 \<le> cr_units_per_second c"
  using lookup_Some [of cr_provider p "db_rates d" c] by (simp add: rates_nonneg_def)

lemma clocked_later: "clocked t a \<Longrightarrow> t \<le> now \<Longrightarrow> clocked now a"
  unfolding clocked_def by (meson order_trans)

lemma clocked_end:
  assumes c: "clocked t a" and t: "t \<le> now" and live: "live_attempt_state (aq_state a)"
    and st: "st \<in> {A_Failed, A_Completed}" and rate: "\<And>r. rate = Some r \<Longrightarrow> 0 \<le> cr_units_per_second r"
  shows "clocked now (end_attempt rate now st why a)"
proof -
  let ?b = "end_attempt rate now st why a"
  have none: "aq_capacity_occupied_ms a = None" "aq_browser_connected_ms a = None" "aq_modeled_cost_units a = None"
    using c live by (auto simp: clocked_def)
  have occ: "aq_chargeable_time_ms ?b = (case aq_acquiring_at a of None \<Rightarrow> None | Some x \<Rightarrow> Some (max 0 (elapsed_ms x now)))"
    and con: "aq_browser_connected_ms ?b = (case aq_active_at a of None \<Rightarrow> None | Some y \<Rightarrow> Some (max 0 (elapsed_ms y now)))"
    by (simp_all add: none split: option.split)
  have cost: "aq_modeled_cost_units ?b = (case (rate, aq_chargeable_time_ms ?b) of
      (Some c, Some ms) \<Rightarrow> Some ((ms * cr_units_per_second c + 999) div 1000) | _ \<Rightarrow> None)"
    unfolding end_attempt_usage finalize_cost none ..
  have "0 \<le> or_zero (aq_modeled_cost_units ?b)"
    unfolding cost occ using rate by (auto simp: or_zero_def intro!: div_int_pos_iff [THEN iffD2] split: option.split)
  moreover have "0 \<le> or_zero (aq_browser_connected_ms ?b)" unfolding con by (simp add: or_zero_def split: option.split)
  moreover have "or_zero (aq_browser_connected_ms ?b) \<le> or_zero (aq_chargeable_time_ms ?b)"
  proof (cases "aq_active_at a")
    case None
    then show ?thesis unfolding con occ by (simp add: or_zero_def split: option.split)
  next
    case (Some y)
    then obtain x where x: "aq_acquiring_at a = Some x" "x \<le> y" using c by (auto simp: clocked_def)
    show ?thesis unfolding con occ using elapsed_ms_mono [OF x(2), of now] by (simp add: or_zero_def x Some)
  qed
  ultimately have "priced ?b" by (simp add: priced_def)
  then show ?thesis using clocked_later [OF c t] st by (auto simp: clocked_def)
qed

section \<open>Tables under a clock\<close>

definition clocked_db :: "time \<Rightarrow> db \<Rightarrow> bool" where
  "clocked_db t d \<longleftrightarrow> wf_db d \<and> rates_nonneg d \<and> (\<forall>a \<in> set (db_attempts d). clocked t a)"

lemma clocked_upd:
  assumes "\<forall>a \<in> set (db_attempts d). clocked t a" "t \<le> now" "db_attempts d' = upd_where P f (db_attempts d)"
    and "\<And>a. a \<in> set (db_attempts d) \<Longrightarrow> P a \<Longrightarrow> clocked now (f a)"
  shows "\<forall>a \<in> set (db_attempts d'). clocked now a"
  using assms clocked_later by (auto simp: set_upd_where)

lemma clocked_same: "clocked_db t d \<Longrightarrow> t \<le> now \<Longrightarrow> db_attempts d' = db_attempts d \<Longrightarrow> \<forall>a \<in> set (db_attempts d'). clocked now a"
  using clocked_later by (auto simp: clocked_db_def)

lemma clocked_ended:
  assumes "clocked_db t d" "t \<le> now" "db_attempts d' = upd_where P (ended_row (db_rates d) now failed why) (db_attempts d)"
    and "\<And>a. P a \<Longrightarrow> live_attempt_state (aq_state a)"
  shows "\<forall>a \<in> set (db_attempts d'). clocked now a"
proof (rule clocked_upd [OF _ assms(2,3)])
  show "\<forall>a \<in> set (db_attempts d). clocked t a" using assms(1) by (simp add: clocked_db_def)
  fix a assume a: "a \<in> set (db_attempts d)" "P a"
  show "clocked now (ended_row (db_rates d) now failed why a)"
    unfolding ended_row_def
    by (rule clocked_end [OF _ assms(2) assms(4) [OF a(2)]])
      (use assms(1) a(1) rate_nonneg in \<open>auto simp: clocked_db_def\<close>)
qed

lemma clocked_sweep:
  assumes "clocked_db t d" "t \<le> now"
  shows "clocked_db now (expire_stale_attempts p now (lock_provider p d))"
proof -
  have wf: "wf_db (lock_provider p d)" using assms(1) by (simp add: clocked_db_def)
  have "\<forall>a \<in> set (db_attempts (expire_stale_attempts p now (lock_provider p d))). clocked now a"
    by (rule clocked_ended [OF assms, where P = "stale_attempt (lock_provider p d) p now"])
      (use expire_stale_attempts_table [OF wf] in \<open>simp_all add: stale_attempt_def\<close>)
  then show ?thesis using assms(1) by (simp add: clocked_db_def rates_nonneg_def wf_sweep)
qed

lemma clocked_placed:
  "clocked now (placed_row st now inst (new_attempt_row d s aid p res src now))"
  by (cases st) (simp_all add: clocked_def priced_def or_zero_def acquire_row_def queue_row_def full_row_def new_attempt_row_def)

lemma clocked_acquire:
  "clocked now a \<Longrightarrow> attempt_ok a \<Longrightarrow> aq_state a = A_Queued \<Longrightarrow> clocked now (acquire_row now inst a)"
  by (auto simp: clocked_def attempt_ok_def acquire_row_def priced_def)

lemma clocked_activated:
  "clocked t a \<Longrightarrow> t \<le> now \<Longrightarrow> attempt_ok a \<Longrightarrow> aq_state a = A_Acquiring \<Longrightarrow>
   clocked now (a\<lparr>aq_state := A_Active, aq_active_at := Some now\<rparr>)"
  by (auto simp: clocked_def attempt_ok_def priced_def)

section \<open>Rates\<close>

lemma expire_sessions_rates: "db_rates (expire_stale_sessions now d) = db_rates d"
proof -
  have "db_rates (expire_session now r d) = db_rates d" for r d
    by (simp add: expire_session_def Let_def fold_keeps [where f = db_rates] session_event_row_def)
  then show ?thesis unfolding expire_stale_sessions_def by (rule fold_keeps)
qed

lemma release_rates: "db_rates (fst (release_session s failed reason now d)) = db_rates d"
  by (simp add: release_session_def Let_def fold_keeps [where f = db_rates] session_event_row_def split: option.split)

lemma place_rates: "db_rates (fst (place_attempt d row now cap)) = db_rates d"
  by (cases cap) (simp add: place_attempt_def Let_def Attempts.write_attempt_def attempt_event_def)

lemma enqueue_rates: "enqueue s aid p res src repl now d = Inr (d', x) \<Longrightarrow> db_rates d' = db_rates d"
proof -
  assume enq: "enqueue s aid p res src repl now d = Inr (d', x)"
  let ?d1 = "expire_stale_attempts p now (lock_provider p d)"
  let ?d2 = "insert_attempt (new_attempt_row ?d1 s aid p res src now) ?d1"
  obtain cap where "place_attempt ?d2 (new_attempt_row ?d1 s aid p res src now) now cap = (d', x)"
    using enq by (auto simp: enqueue_def Let_def split: if_splits option.splits)
  then have "db_rates d' = db_rates ?d2" using place_rates by (metis fst_conv)
  then show ?thesis by (simp add: insert_attempt_def)
qed

lemma claim_rates: "claim s att now d = Inr (d', x) \<Longrightarrow> db_rates d' = db_rates d"
  by (erule claim_cases) auto

lemma admit_rates: "admit lease s m req ref now d = Inr (d', x) \<Longrightarrow> db_rates d' = db_rates d"
  by (auto simp: admit_def Let_def expire_sessions_rates session_event_row_def split: if_splits)

lemma observe_rates: "observe_instances p obs platform ttl now d = Inr d' \<Longrightarrow> db_rates d' = db_rates d"
proof -
  have "observe_all f p pl now ex locked obs d = Inr d' \<Longrightarrow> db_rates d' = db_rates d" for f pl ex locked d d'
    by (induction obs arbitrary: d) (auto simp: observe_one_def split: sum.splits if_splits)
  then show "observe_instances p obs platform ttl now d = Inr d' \<Longrightarrow> db_rates d' = db_rates d"
    by (fastforce simp: observe_instances_def Let_def split: option.splits sum.splits)
qed

lemma commit_all: "Q d \<Longrightarrow> (\<And>d' x. r = Inr (d', x) \<Longrightarrow> Q d') \<Longrightarrow> Q (commit d r)"
  by (auto simp: commit_def split: sum.split)

lemma row_rates:
  "db_rates (fst (heartbeat lease s now d)) = db_rates d"
  "db_rates (fst (open_session lease s now d)) = db_rates d"
  "db_rates (fst (activate att now d)) = db_rates d"
  "db_rates (bind_provider_session att ps st d) = db_rates d"
  "db_rates (record_provider_usage att e now d) = db_rates d"
  "db_rates (fst (finish_attempt att failed reason c ph now d)) = db_rates d"
  "db_rates (record_reconciliation p status now d) = db_rates d"
  "db_rates (fst (prepare_scale_down p i now d)) = db_rates d"
  "db_rates (cancel_scale_down p d) = db_rates d"
  by (simp_all add: heartbeat_def open_session_def activate_def bind_provider_session_def record_provider_usage_def
      finish_attempt_def Attempts.write_attempt_def attempt_event_def session_event_row_def Let_def prepare_scale_down_def
      set_instance_def cancel_scale_down_def record_reconciliation_def set_fleet_def split: option.split)

lemma committed_rates:
  "ensure_limit p e a q now d = Inr (d', x2) \<Longrightarrow> db_rates d' = db_rates d"
  "update_limit token p values actor now d = Inr (d', x3) \<Longrightarrow> db_rates d' = db_rates d"
  "ensure_fleet p cf now d = Inr (d', x4) \<Longrightarrow> db_rates d' = db_rates d"
  "update_configuration p u actor now d = Inr (d', x5) \<Longrightarrow> db_rates d' = db_rates d"
  "evaluate p now d = Inr (d', x6) \<Longrightarrow> db_rates d' = db_rates d"
  by (auto simp: ensure_limit_def update_limit_def ensure_fleet_def update_configuration_def evaluate_def set_limit_def
      set_fleet_def Let_def split: option.splits if_splits)

lemma rates_step:
  assumes "rates_nonneg d" shows "rates_nonneg (gw_apply op now d)"
proof -
  have same: "rates_nonneg e" if "db_rates e = db_rates d" for e using that assms by (simp add: rates_nonneg_def)
  show ?thesis
  proof (cases op)
    case Op_Default_Rates
    have "rates_nonneg (fold (\<lambda>(p, c) d. if rate_of d p \<noteq> None then d
        else d\<lparr>db_rates := db_rates d @ [\<lparr>cr_provider = p, cr_units_per_second = c, cr_updated_at = now\<rparr>]\<rparr>) xs e)"
      if "rates_nonneg e" "\<forall>(p, c) \<in> set xs. 0 \<le> c" for xs e
      using that
    proof (induction xs arbitrary: e)
      case (Cons x xs)
      obtain q c where x: "x = (q, c)" by (cases x)
      have "rates_nonneg (if rate_of e q \<noteq> None then e
          else e\<lparr>db_rates := db_rates e @ [\<lparr>cr_provider = q, cr_units_per_second = c, cr_updated_at = now\<rparr>]\<rparr>)"
        using Cons.prems by (auto simp: rates_nonneg_def x)
      from Cons.IH [OF this] Cons.prems(2) show ?case by (simp add: x)
    qed simp
    from this [OF assms, of default_cost_rates] show ?thesis
      by (simp add: Op_Default_Rates ensure_default_rates_def default_cost_rates_def)
  next
    case (Op_Update_Rate p units)
    have "rates_nonneg d'" if "update_rate p units now d = Inr (d', x)" for d' x
      using that assms by (auto simp: update_rate_def Let_def rates_nonneg_def set_upd_where split: if_splits option.splits)
    then show ?thesis using assms by (auto simp: Op_Update_Rate commit_def split: sum.split)
  next
    case (Op_Observe p obs platform ttl)
    then show ?thesis using same observe_rates by (auto simp: assms split: sum.split)
  qed (auto simp: row_rates release_rates intro!: same commit_table [where f = db_rates]
      dest: admit_rates enqueue_rates claim_rates committed_rates)
qed

section \<open>Runs under a clock\<close>

lemma clocked_row:
  assumes "clocked_db t d" "t \<le> now" "attempt_of d i = Some r"
    and "db_attempts d' = upd_where (\<lambda>x. aq_id x = aq_id r) f (db_attempts d)" "clocked now (f r)"
  shows "\<forall>a \<in> set (db_attempts d'). clocked now a"
proof (rule clocked_upd [OF _ assms(2,4)])
  show "\<forall>a \<in> set (db_attempts d). clocked t a" using assms(1) by (simp add: clocked_db_def)
  have wf: "wf_db d" using assms(1) by (simp add: clocked_db_def)
  fix a assume "a \<in> set (db_attempts d)" "aq_id a = aq_id r"
  then have "a = r" using attempt_key_unique [OF wf] attempt_of_Some [OF assms(3)] by blast
  then show "clocked now (f a)" using assms(5) by simp
qed

lemma clocked_attempts:
  assumes c: "clocked_db t d" and t: "t \<le> now"
  shows "\<forall>a \<in> set (db_attempts (gw_apply op now d)). clocked now a"
proof -
  have wf: "wf_db d" using c by (simp add: clocked_db_def)
  note same = clocked_same [OF c t]
  note com = commit_all [where Q = "\<lambda>d. \<forall>a \<in> set (db_attempts d). clocked now a", OF same [of d, OF refl]]
  show ?thesis
  proof (cases op)
    case (Op_Admit lease s m req ref)
    have "\<forall>a \<in> set (db_attempts d'). clocked now a" if "admit lease s m req ref now d = Inr (d', x)" for d' x
    proof (rule clocked_ended [OF c t])
      have w: "wf_db (lock_gateway d)" using wf by simp
      show "db_attempts d' = upd_where (live_in (\<lambda>i. i \<in> gs_id ` set (filter (stale_session now) (db_sessions d))))
          (ended_row (db_rates d) now True ''session_lease_expired'') (db_attempts d)"
        using admit_cases(4) [OF that] expire_stale_sessions_tables(2) [OF w, of now] by simp
    qed (simp add: live_in_def)
    then show ?thesis unfolding Op_Admit gw_apply.simps by (rule com)
  next
    case (Op_Release s failed reason)
    show ?thesis
    proof (cases "owned d s")
      case None
      then show ?thesis by (auto simp: Op_Release release_session_def intro: bspec [OF same])
    next
      case (Some r)
      show ?thesis unfolding Op_Release gw_apply.simps
        by (rule clocked_ended [OF c t release_sessions_attempts(1) [OF wf Some]]) (simp add: live_in_def)
    qed
  next
    case (Op_Enqueue s aid p res src repl)
    have "\<forall>a \<in> set (db_attempts d'). clocked now a" if enq: "enqueue s aid p res src repl now d = Inr (d', st, att)" for d' st att
      using enq
    proof (cases rule: enqueue_cases)
      case (1 cap)
      then show ?thesis using clocked_sweep [OF c t, of p] clocked_placed by (auto simp: clocked_db_def)
    qed
    then show ?thesis unfolding Op_Enqueue gw_apply.simps by (intro com) (metis prod.exhaust)
  next
    case (Op_Claim s att)
    let ?d1 = "expire_stale_attempts (pa_provider att) now (lock_provider (pa_provider att) d)"
    note sw = clocked_sweep [OF c t, of "pa_provider att"]
    have "\<forall>a \<in> set (db_attempts d'). clocked now a" if "claim s att now d = Inr (d', res)" for d' res
      using that
    proof (cases rule: claim_cases)
      case none
      then show ?thesis using sw same [of d] by (auto simp: clocked_db_def)
    next
      case (claimed row inst)
      have w: "wf_db ?d1" using sw by (simp add: clocked_db_def)
      have "clocked now (acquire_row now inst row)"
        by (rule clocked_acquire) (use sw claimed(3,6) wf_dbD(5) [OF w] in \<open>auto simp: clocked_db_def\<close>)
      then show ?thesis
        using clocked_row [OF sw order_refl, of "aq_id row" row d' "acquire_row now inst"] claimed(3,8)
          lookup_distinct [OF wf_dbD(2) [OF w] claimed(3) refl] by (simp add: attempt_of_def)
    qed
    then show ?thesis unfolding Op_Claim gw_apply.simps by (rule com)
  next
    case (Op_Activate att)
    show ?thesis
    proof (cases "attempt_of d (pa_attempt_id att)")
      case None
      then show ?thesis using same [of d] by (simp add: Op_Activate activate_def)
    next
      case (Some r)
      have "clocked now (r\<lparr>aq_state := A_Active, aq_active_at := Some now\<rparr>)" if "aq_state r = A_Acquiring"
        using that attempt_of_Some [OF Some] c wf_dbD(5) [OF wf] clocked_activated [OF _ t] by (auto simp: clocked_db_def)
      then have act: "aq_state r = A_Acquiring \<Longrightarrow>
          \<forall>a \<in> set (db_attempts (set_attempt (aq_id r) (\<lambda>r. r\<lparr>aq_state := A_Active, aq_active_at := Some now\<rparr>) d)). clocked now a"
        by (intro clocked_row [OF c t Some, where f = "\<lambda>r. r\<lparr>aq_state := A_Active, aq_active_at := Some now\<rparr>"]) simp_all
      show ?thesis
      proof (cases "aq_state r = A_Acquiring")
        case True
        then show ?thesis using act [OF True] by (simp add: Op_Activate activate_def Some Attempts.write_attempt_def attempt_event_def)
      next
        case False
        then show ?thesis using same [of d] by (simp add: Op_Activate activate_def Some)
      qed
    qed
  next
    case (Op_Bind att psid started)
    show ?thesis
    proof (cases "attempt_of d (pa_attempt_id att)")
      case None
      then show ?thesis using same [of d] by (simp add: Op_Bind bind_provider_session_def)
    next
      case (Some r)
      have "clocked now (r\<lparr>aq_provider_session_id := psid, aq_provider_started_at := started\<rparr>)"
        using attempt_of_Some [OF Some] c clocked_later [OF _ t] by (auto simp: clocked_db_def clocked_def priced_def)
      then have "\<forall>a \<in> set (db_attempts (set_attempt (aq_id r)
          (\<lambda>r. r\<lparr>aq_provider_session_id := psid, aq_provider_started_at := started\<rparr>) d)). clocked now a"
        by (intro clocked_row [OF c t Some, where f = "\<lambda>r. r\<lparr>aq_provider_session_id := psid, aq_provider_started_at := started\<rparr>"])
          simp_all
      then show ?thesis
        by (simp add: Op_Bind bind_provider_session_def Some)
    qed
  next
    case (Op_Usage att ended)
    show ?thesis
    proof (cases "attempt_of d (pa_attempt_id att)")
      case None
      then show ?thesis using same [of d] by (simp add: Op_Usage record_provider_usage_def)
    next
      case (Some r)
      have "clocked now r" using attempt_of_Some [OF Some] c clocked_later [OF _ t] by (auto simp: clocked_db_def)
      define e where "e = (case ended of None \<Rightarrow> now | Some x \<Rightarrow> x)"
      let ?f = "\<lambda>r. (r\<lparr>aq_provider_ended_at := Some e\<rparr>)
          \<lparr>aq_provider_reported_ms := (case aq_provider_started_at r of None \<Rightarrow> aq_provider_reported_ms r
              | Some s \<Rightarrow> Some (max 0 (elapsed_ms s e)))\<rparr>"
      have "clocked now (?f r)" using \<open>clocked now r\<close> by (auto simp: clocked_def priced_def)
      then have "\<forall>a \<in> set (db_attempts (set_attempt (aq_id r) ?f d)). clocked now a"
        by (intro clocked_row [OF c t Some, where f = ?f]) simp_all
      then show ?thesis
        by (simp only: Op_Usage gw_apply.simps record_provider_usage_def Some option.case Let_def e_def)
    qed
  next
    case (Op_Finish att failed reason commands phases)
    show ?thesis
    proof (cases "attempt_of d (pa_attempt_id att)")
      case None
      then show ?thesis using same [of d] by (simp add: Op_Finish finish_attempt_def Let_def attempt_of_def)
    next
      case (Some r)
      let ?d1 = "lock_provider (pa_provider att) d"
      have S: "attempt_of ?d1 (pa_attempt_id att) = Some r" using Some by (simp add: attempt_of_def)
      have c1: "clocked_db t ?d1" using c by (simp add: clocked_db_def rates_nonneg_def)
      let ?f = "\<lambda>r. (end_attempt (rate_of ?d1 (aq_provider r)) now (if failed then A_Failed else A_Completed) reason r)
          \<lparr>aq_command_summary := commands, aq_phase_summary := phases\<rparr>"
      have "clocked now (?f r)" if "aq_state r \<noteq> A_Completed" "aq_state r \<noteq> A_Failed"
      proof -
        have "attempt_ok r" using wf_dbD(5) [OF wf] attempt_of_Some [OF Some] by blast
        then have "live_attempt_state (aq_state r)" using that by (cases "aq_state r") (auto simp: attempt_ok_def)
        then have "clocked now (end_attempt (rate_of ?d1 (aq_provider r)) now (if failed then A_Failed else A_Completed) reason r)"
          by (intro clocked_end [OF _ t])
            (use c attempt_of_Some [OF Some] rate_nonneg in \<open>auto simp: clocked_db_def rate_of_def\<close>)
        then show ?thesis by (auto simp: clocked_def priced_def)
      qed
      then have fin: "aq_state r \<noteq> A_Completed \<Longrightarrow> aq_state r \<noteq> A_Failed \<Longrightarrow>
          \<forall>a \<in> set (db_attempts (set_attempt (aq_id r) ?f ?d1)). clocked now a"
        by (intro clocked_row [OF c1 t S, where f = ?f]) simp_all
      show ?thesis
      proof (cases "aq_state r = A_Completed \<or> aq_state r = A_Failed")
        case True
        then show ?thesis using same [of d] by (simp add: Op_Finish finish_attempt_def Let_def S)
      next
        case False
        then have "aq_state r \<noteq> A_Completed" "aq_state r \<noteq> A_Failed" by simp_all
        from fin [OF this] False show ?thesis
          by (simp add: Op_Finish finish_attempt_def Let_def S Attempts.write_attempt_def attempt_event_def)
      qed
    qed
  qed (auto intro!: same commit_table [where f = db_attempts] dest: fleet_tables(7-9) limit_update_tables update_rate_tables inplace_observe
      simp: row_op_tables fleet_tables(1-6) rate_tables split: sum.split)
qed

text \<open>A step of the gateway whose clock does not go back.\<close>

inductive clocked_step :: "time \<times> db \<Rightarrow> gw_op \<times> time \<Rightarrow> time \<times> db \<Rightarrow> bool" where
  tick: "t \<le> now \<Longrightarrow> gw_step d (op, now) d' \<Longrightarrow> clocked_step (t, d) (op, now) (now, d')"

interpretation billing: invariant_system "\<lambda>(t, d). gw_init d" clocked_step "\<lambda>(t, d). clocked_db t d"
proof unfold_locales
  show "case s of (t, d) \<Rightarrow> gw_init d \<Longrightarrow> case s of (t, d) \<Rightarrow> clocked_db t d" for s
    by (auto simp: gw_init_def clocked_db_def wf_empty rates_nonneg_def) (simp_all add: empty_db_def)
  show "case u of (t, d) \<Rightarrow> clocked_db t d" if "case s of (t, d) \<Rightarrow> clocked_db t d" "clocked_step s l u" for s l u
    using that(2,1)
  proof (cases rule: clocked_step.cases)
    case (tick t now d op d')
    have d': "d' = gw_apply op now d" using tick(5) by (simp add: gw_step_simps)
    have c: "clocked_db t d" using that(1) by (simp add: tick(1))
    then have "wf_db d'" using evolvesD(1) [OF evolves_step [OF tick(5)]] by (simp add: clocked_db_def)
    then show ?thesis
      using clocked_attempts [OF c tick(4)] rates_step c by (simp add: tick(3) d' clocked_db_def)
  qed
qed

text \<open>C27: While the database clock of the transactions does not go back, every bill the gateway leaves can be shared
  out: the time an attempt was connected is not negative and within the time it is charged for, its cost is not
  negative, and an attempt that is still alive is billed nothing. This is what the recorder's accounts assume of finished
  attempts. It needs the order of the two instants, slot first and browser second, and rates that no operator can
  make negative.\<close>

theorem gateway_bills_are_priced:
  assumes "reach (\<lambda>(t, d). gw_init d) clocked_step (t, d)" "a \<in> set (db_attempts d)"
  shows "0 \<le> or_zero (aq_browser_connected_ms a) \<and> or_zero (aq_browser_connected_ms a) \<le> or_zero (aq_chargeable_time_ms a)
    \<and> 0 \<le> or_zero (aq_modeled_cost_units a)
    \<and> (live_attempt_state (aq_state a) \<longrightarrow> aq_capacity_occupied_ms a = None \<and> aq_browser_connected_ms a = None
         \<and> aq_chargeable_time_ms a = None \<and> aq_modeled_cost_units a = None)
    \<and> (\<forall>y. aq_active_at a = Some y \<longrightarrow> (\<exists>x. aq_acquiring_at a = Some x \<and> x \<le> y \<and> y \<le> t))
    \<and> priced a"
proof -
  have "clocked t a" using billing.reach_inv [OF assms(1)] assms(2) by (simp add: clocked_db_def)
  then show ?thesis by (simp add: clocked_def priced_def)
qed

lemma clocked_trace:
  "sorted (t # map snd tr) \<Longrightarrow> reach (\<lambda>(t, d). gw_init d) clocked_step (t, d) \<Longrightarrow>
   reach (\<lambda>(t, d). gw_init d) clocked_step (last (t # map snd tr), run_trace tr d)"
proof (induction tr arbitrary: t d)
  case (Cons l tr)
  obtain op now where l: "l = (op, now)" by (cases l)
  have "reach (\<lambda>(t, d). gw_init d) clocked_step (now, gw_apply op now d)"
    by (rule reach_step [OF Cons.prems(2), where l = "(op, now)"], rule tick [OF _ gw_transaction]) (use Cons.prems(1) l in simp)
  from Cons.IH [OF _ this] Cons.prems(1) show ?case by (simp add: l run_trace_def)
qed (simp add: run_trace_def)

definition billed_trace :: "(gw_op \<times> time) list" where
  "billed_trace = (Op_Default_Rates, 0) # demo_trace @
     [(Op_Activate (demo_attempt ''a1'' ''s1'' BROWSERLESS), 504000),
      (Op_Finish (demo_attempt ''a1'' ''s1'' BROWSERLESS) False ''done'' None None, 1254000)]"

theorem gateway_bills_are_priced_witness:
  "\<exists>a \<in> set (db_attempts (run_trace billed_trace empty_db)). aq_id a = ''a1'' \<and> aq_browser_connected_ms a = Some 750
     \<and> aq_chargeable_time_ms a = Some 1250 \<and> aq_modeled_cost_units a = Some 125 \<and> priced a"
proof -
  let ?d = "run_trace billed_trace empty_db"
  have "reach (\<lambda>(t, d). gw_init d) clocked_step (0, empty_db)" by (rule reach_init) (simp add: gw_init_def)
  then have r: "reach (\<lambda>(t, d). gw_init d) clocked_step (last (0 # map snd billed_trace), ?d)"
    by (rule clocked_trace [rotated]) (simp add: billed_trace_def demo_trace_def)
  have "list_ex (\<lambda>a. aq_id a = ''a1'' \<and> aq_browser_connected_ms a = Some 750 \<and> aq_chargeable_time_ms a = Some 1250
      \<and> aq_modeled_cost_units a = Some 125) (db_attempts ?d)" by code_simp
  then obtain a where a: "a \<in> set (db_attempts ?d)" "aq_id a = ''a1''" "aq_browser_connected_ms a = Some 750"
      "aq_chargeable_time_ms a = Some 1250" "aq_modeled_cost_units a = Some 125"
    by (auto simp: list_ex_iff)
  have "priced a" using gateway_bills_are_priced [OF r a(1)] by blast
  with a show ?thesis by blast
qed

end
