(* ===== verification/Spec2Isabelle.thy ===== *)
theory Spec2Isabelle
  imports Gateway_Properties Pacing_System Reconciler_System Network_Policy_Cache Domain_Blocking_Proofs Cdp_Observer_Proofs Page_Rules_Proofs Capture_Endpoint_Proofs Gateway_Connection_Proofs Session_Settings Recorder_System Event_Delivery_Proofs Event_Outbox Billing
begin

text \<open>
  A verification library for Stolosio, a browser gateway. Clients open a Chrome DevTools connection or request the capture
  of one page; gateway processes admit them against shared capacity in PostgreSQL, a controller scales a fleet of
  browsers, a relay filters and observes the protocol traffic, and a maintenance worker turns the events of all sessions
  into accounts. The theories follow that division. Paths are relative to \<^verbatim>\<open>src/\<close>.

  \<^bold>\<open>Ground.\<close> \<^verbatim>\<open>Prelude\<close>: Python numbers and times, tables as lists of rows, results; the collections
  and locales for transition systems. \<^verbatim>\<open>Strings\<close>: the operations of \<open>str\<close>.
  \<^verbatim>\<open>Contracts\<close>: enumerations and errors of \<^verbatim>\<open>backend/proxy/contracts\<close> and \<^verbatim>\<open>backend/proxy/errors.py\<close>.

  \<^bold>\<open>Gateway\<close> (\<^verbatim>\<open>backend/proxy\<close>, \<^verbatim>\<open>backend/db/models\<close>). \<^verbatim>\<open>Gateway_DB\<close> holds the tables, \<^verbatim>\<open>Usage\<close> the
  usage and cost of an attempt, \<^verbatim>\<open>Sessions\<close>, \<^verbatim>\<open>Attempts\<close>, \<^verbatim>\<open>External_Capacity\<close>, \<^verbatim>\<open>Costs\<close> and
  \<^verbatim>\<open>Fleet_Repository\<close> the repositories: one definition per transaction, from the arguments, the clock and the database to
  the new database and the answer, or to the error that rolls it back. \<^verbatim>\<open>Db_Invariant\<close> and \<^verbatim>\<open>Lifecycle\<close> say what
  every transaction keeps and how rows may change; \<^verbatim>\<open>Gateway_System\<close> makes the transactions of all processes one
  transition system, \<^verbatim>\<open>Gateway_Invariants\<close> and \<^verbatim>\<open>Gateway_Runs\<close> lift facts to its runs, and
  \<^verbatim>\<open>Gateway_Properties\<close> states what follows: no attempt placed on a full instance (an observation may still report a
  capacity below the slots in use), first-in first-out queues, the cap on sessions, final leases, exact bills.
  \<^verbatim>\<open>Billing\<close>: under a clock that does not go back, the bills the gateway leaves are as the recorder needs them.

  \<^bold>\<open>Fleet\<close> (\<^verbatim>\<open>backend/fleet\<close>). \<^verbatim>\<open>Fleet_Policy\<close>: the scaling decision, its bounds and its convergence.
  \<^verbatim>\<open>Reconciler\<close>: a pass of the controller as a program of calls; \<^verbatim>\<open>Reconciler_System\<close> interleaves it with the
  gateways and shows that scaling down and replacing take away no browser in use, and what a request to recreate
  instances with an old configuration can do on Kubernetes, where nothing is drained for it.

  \<^bold>\<open>Domain pacing\<close> (\<^verbatim>\<open>backend/proxy/domain_pacing\<close>). \<^verbatim>\<open>Pacing_Controller\<close>: the feedback rules;
  \<^verbatim>\<open>Pacing_Repository\<close>: admission, release and retention; \<^verbatim>\<open>Pacing_System\<close>: concurrency, spacing and cooldown over
  all runs.

  \<^bold>\<open>Relay\<close> (\<^verbatim>\<open>backend/proxy/network_policy.py\<close>, \<^verbatim>\<open>backend/proxy/transport\<close>, \<^verbatim>\<open>backend/events\<close>).
  \<^verbatim>\<open>Network_Policy\<close>: blocked-domain patterns; \<^verbatim>\<open>Network_Policy_Cache\<close>: how stale a policy can be.
  \<^verbatim>\<open>Domain_Blocking\<close> and \<^verbatim>\<open>Domain_Blocking_Proofs\<close>: the proxy that holds targets back until the browser blocks.
  \<^verbatim>\<open>Urls\<close>: what is recorded of a URL. \<^verbatim>\<open>Cdp_Observer\<close> and \<^verbatim>\<open>Cdp_Observer_Proofs\<close>: the observer of commands
  and events, its counts and its clocks.

  \<^bold>\<open>Recorder\<close> (\<^verbatim>\<open>backend/workers/maintenance/recorder.py\<close>). \<^verbatim>\<open>Recorder\<close>: the transactions for a batch of
  events; \<^verbatim>\<open>Recorder_Proofs\<close>: a recording posts to the cost tables exactly what it marks as projected; \<^verbatim>\<open>Recorder_Redelivery\<close>: redelivery after a crash is harmless;
  \<^verbatim>\<open>Recorder_System\<close>: completeness and bounds.

  \<^bold>\<open>Events\<close> (\<^verbatim>\<open>backend/workers/maintenance\<close>, \<^verbatim>\<open>backend/events/outbox.py\<close>). \<^verbatim>\<open>Event_Delivery\<close>: the loop that
  feeds the recorder, the outbox, the refill of a fresh stream, the purges; \<^verbatim>\<open>Event_Delivery_Proofs\<close>: acknowledgement only
  after recording, every message settled; \<^verbatim>\<open>Event_Outbox\<close>: no event of a gateway is lost in any interleaving, the outbox
  drains, a refill ends and is complete, a purge of the method cache goes unnoticed.

  \<^bold>\<open>Capture\<close> (\<^verbatim>\<open>packages/pagecapture\<close>, \<^verbatim>\<open>backend/proxy/capture\<close>). \<^verbatim>\<open>Page\<close>: the facts of a
  response; \<^verbatim>\<open>Classifier\<close>: reasons, the rule loop and its early exit; \<^verbatim>\<open>Page_Rules\<close>: the rules and their phrases; \<^verbatim>\<open>Method_Cache\<close>: the evidence that lets a capture skip the browser; \<^verbatim>\<open>Capture_Service\<close>: a capture as a
  program of waits; \<^verbatim>\<open>Capture_Proofs\<close>: its outcome for all answers; \<^verbatim>\<open>Page_Rules_Proofs\<close>: what the rules
  guarantee of error statuses and of vendor headers.

  \<^bold>\<open>Endpoint\<close> (\<^verbatim>\<open>backend/proxy/capture\<close>, \<^verbatim>\<open>backend/proxy/attempts/manager.py\<close>,
  \<^verbatim>\<open>backend/proxy/sessions/manager.py\<close>). \<^verbatim>\<open>Effects\<close>: coroutines with exceptions, timeouts and
  cancellation, and a rule for each construct over a monitor; \<^verbatim>\<open>Leases\<close>: admission and release of attempts and sessions
  as conversations with the repositories; \<^verbatim>\<open>Lease_Proofs\<close>: the ledger of what a conversation holds, and a lemma
  for each operation; \<^verbatim>\<open>Capture_Endpoint\<close>: a capture with its capacity and its cleanup;
  \<^verbatim>\<open>Capture_Endpoint_Proofs\<close>: a capture gives back what it took.

  \<^bold>\<open>Connection\<close> (\<^verbatim>\<open>backend/proxy/gateway.py\<close>, \<^verbatim>\<open>backend/proxy/transport/cdp.py\<close>,
  \<^verbatim>\<open>backend/proxy/settings\<close>). \<^verbatim>\<open>Session_Settings\<close>: the settings a client may give and their resolution;
  \<^verbatim>\<open>Gateway_Connection\<close>: a protocol connection with its tasks, timeouts and error paths;
  \<^verbatim>\<open>Gateway_Connection_Proofs\<close>: it gives back what it took, in order, and tells the session's record what it told the client.

  \<^bold>\<open>Conventions.\<close> Times are integer microseconds (the observer and the capture service use rational seconds), floating-point
  quantities exact rationals, identifiers strings, string and enumeration columns the datatype they encode. A
  transaction is atomic: an error leaves the database, its sequences included, as it was. Transactions of
  different processes interleave in any order, with clocks that need not agree unless a theorem says so. A coroutine is
  atomic between two awaits. A cancellation carries its origin, the task itself or one of its timeouts; a transaction that
  raises has been rolled back, one that is cancelled may have committed. Answers of a browser, a website, a container runtime or a wall clock are arbitrary. The
  accounts of the recorder assume of finished attempts that their bill is \<open>priced\<close>, which \<^verbatim>\<open>Billing\<close> derives for the
  gateway, and that the usage counters of their summary are not negative (\<open>counted\<close>). The fetcher, the classifier and
  the method cache of a capture may raise; the parser of pages is taken not to. A message on a wire is its decoded JSON value. Functions
  of libraries that are not modelled are arguments: the slow path of the IDNA codec, SHA-256, the checks of
  \<open>urllib.parse\<close> on bracketed and non-ASCII hosts, and the parsing of HTML.

  \<^bold>\<open>Bounds.\<close> Rendering uses fuel 3: a capture has three browser tiers and enters each at most once, and
  \<^verbatim>\<open>Capture_Proofs\<close> shows that the fuel never runs out. All other recursion is structural or has a termination proof. A
  recording that is cut short is cut after a number of transactions, which is arbitrary. The wait in a provider's queue
  polls at most an arbitrary number of times before its timeout fires.

  \<^bold>\<open>Interfaces as locales.\<close> \<open>invariant_system\<close> (an initial predicate, a step relation and an inductive
  predicate) is interpreted for the gateway, the pacing tables, the controller, the blocking proxy, the observer, the
  policy cache, the bills under a clock and the life of event rows; \<open>stat_measure\<close> (a column that adds up) for each column of the command table the
  theorems use; \<open>renderer\<close> and \<open>tier_chain\<close> (a render and the renderer it hands on to) for the renderers of a
  capture; \<open>monitor\<close> (a state that follows a conversation) for the ledger of the endpoint and the connection, and
  for the history of the recorder's loop.

  \<^bold>\<open>Not modelled.\<close> HTTP routes, the administration interface, the command line, migrations, metrics and logs: they
  move values between the parts above and the outside. The process settings. The Playwright renderer and the page scripts, the fetcher
  and the BrowserQL client, the container runtimes and NATS: their substance is the behaviour of a browser, a
  network or another service, which the models take as answers. Parsing of HTML. Read-only queries for the administration
  pages, apart from the cost overview. Histories of the debug stream.
\<close>

end
